(* ===== verification/Go_Prelude.thy ===== *)
theory Go_Prelude
  imports Main "HOL-Library.Word" "HOL-Library.Multiset" "HOL-Library.Char_ord" "HOL-Library.List_Lexorder"
begin

text \<open>
  Shared ground of the development: the Go values the components handle (bytes, byte slices,
  strings, results), the parts of Go's standard library they call (\<^verbatim>\<open>encoding/hex\<close>,
  \<^verbatim>\<open>strings.Split\<close>, \<^verbatim>\<open>strconv\<close>, \<^verbatim>\<open>math/big\<close> byte conversion,
  little-endian and varint codecs of \<^verbatim>\<open>encoding/binary\<close>, \<^verbatim>\<open>sort\<close>) and the
  generic lemmas on lists, options and words that the component theories use.

  A Go \<^verbatim>\<open>[]byte\<close> is a list of 8-bit words, a Go \<^verbatim>\<open>string\<close> is an HOL string
  (both are byte sequences and are converted by \<open>str_of_bytes\<close> and \<open>bytes_of_str\<close>).  An
  operation that returns \<^verbatim>\<open>(T, error)\<close> has the type \<open>T result\<close>, with the error's
  message on the left; a runtime panic is \<open>None\<close> of an option type, so a panic and an error
  return are different values.
\<close>

unbundle bit_operations_syntax

named_theorems go_simps \<open>unfolding rules of the library models\<close>
named_theorems inv_intros \<open>preservation rules of the component invariants\<close>

section \<open>Values\<close>

type_synonym byte = "8 word"
type_synonym bytes = "byte list"
type_synonym u16 = "16 word"
type_synonym u32 = "32 word"
type_synonym u64 = "64 word"
type_synonym 'a result = "string + 'a"
type_synonym timestamp = int \<comment> \<open>nanoseconds\<close>

abbreviation errorf :: "string \<Rightarrow> 'a result" where
  "errorf msg \<equiv> Inl msg"

abbreviation is_ok :: "'a result \<Rightarrow> bool" where
  "is_ok r \<equiv> \<not> isl r"

abbreviation seconds :: "int \<Rightarrow> int" where
  "seconds n \<equiv> n * 1000000000"

abbreviation minutes :: "int \<Rightarrow> int" where
  "minutes n \<equiv> seconds (60 * n)"

abbreviation hours :: "int \<Rightarrow> int" where
  "hours n \<equiv> minutes (60 * n)"

definition byte_of_char :: "char \<Rightarrow> byte" where
  "byte_of_char c = word_of_nat (of_char c)"

definition char_of_byte :: "byte \<Rightarrow> char" where
  "char_of_byte b = char_of (unat b)"

definition str_of_bytes :: "bytes \<Rightarrow> string" where
  "str_of_bytes bs = map char_of_byte bs"

definition bytes_of_str :: "string \<Rightarrow> bytes" where
  "bytes_of_str s = map byte_of_char s"

lemma unat_byte_bound: "unat (b :: byte) < 256"
  using unsigned_less[of b, where ?'a = nat] by simp

lemma byte_of_char_of_byte [simp]: "byte_of_char (char_of_byte b) = b"
  using unat_byte_bound[of b] by (simp add: byte_of_char_def char_of_byte_def of_char_of)

lemma char_of_byte_of_char [simp]: "char_of_byte (byte_of_char c) = c"
proof -
  have "(of_char c :: nat) < 256" using of_char_mod_256[of c, where ?'a = nat] by (metis mod_less_divisor zero_less_numeral)
  then show ?thesis
    by (simp add: byte_of_char_def char_of_byte_def unat_of_nat)
qed

lemma bytes_of_str_of_bytes [simp]: "bytes_of_str (str_of_bytes bs) = bs"
  by (simp add: bytes_of_str_def str_of_bytes_def o_def)

lemma str_of_bytes_of_str [simp]: "str_of_bytes (bytes_of_str s) = s"
  by (simp add: bytes_of_str_def str_of_bytes_def o_def)

lemma length_str_of_bytes [simp]: "length (str_of_bytes bs) = length bs"
  by (simp add: str_of_bytes_def)

lemma str_of_bytes_inj [simp]: "str_of_bytes a = str_of_bytes b \<longleftrightarrow> a = b"
  by (metis bytes_of_str_of_bytes)

section \<open>Lists and finite maps\<close>

text \<open>Deleting the first element that satisfies a predicate: the Go idiom
  \<^verbatim>\<open>append(s[:i], s[i+1:]...)\<close> at the first hit of a loop.\<close>

fun remove_first :: "('a \<Rightarrow> bool) \<Rightarrow> 'a list \<Rightarrow> 'a list" where
  "remove_first P [] = []"
| "remove_first P (x # xs) = (if P x then xs else x # remove_first P xs)"

lemma set_remove_first_subset: "set (remove_first P xs) \<subseteq> set xs"
  by (induction xs) auto

lemma remove_first_none: "\<forall>x\<in>set xs. \<not> P x \<Longrightarrow> remove_first P xs = xs"
  by (induction xs) auto

lemma length_remove_first:
  "length (remove_first P xs) = (if \<exists>x\<in>set xs. P x then length xs - 1 else length xs)"
proof (induction xs)
  case (Cons x xs)
  then show ?case by (cases xs) auto
qed simp

lemma distinct_remove_first: "distinct (map f xs) \<Longrightarrow> distinct (map f (remove_first P xs))"
  by (induction xs) (use set_remove_first_subset in fastforce)+

lemma remove_first_distinct:
  "distinct (map f xs) \<Longrightarrow> remove_first (\<lambda>x. f x = k) xs = filter (\<lambda>x. f x \<noteq> k) xs"
proof (induction xs)
  case (Cons x xs)
  then show ?case by (auto simp: image_iff intro!: sym[OF filter_True])
qed simp

lemma list_all_remove_first: "list_all Q xs \<Longrightarrow> list_all Q (remove_first P xs)"
  using set_remove_first_subset[of P xs] by (auto simp: list_all_iff)

lemma nth_list_update_if: "xs[i := v] ! j = (if j = i \<and> i < length xs then v else xs ! j)"
  by (cases "i < length xs") (auto simp: nth_list_update list_update_beyond)

lemma distinct_concat_nth:
  assumes "\<And>i. i < length xss \<Longrightarrow> distinct (xss ! i)"
    and "\<And>i j. i < j \<Longrightarrow> j < length xss \<Longrightarrow> set (xss ! i) \<inter> set (xss ! j) = {}"
  shows "distinct (concat xss)"
  using assms
proof (induction xss rule: rev_induct)
  case (snoc ys xss)
  have "distinct (xss ! i)" if "i < length xss" for i
    using snoc.prems(1)[of i] that by (simp add: nth_append)
  moreover have "set (xss ! i) \<inter> set (xss ! j) = {}" if "i < j" "j < length xss" for i j
    using snoc.prems(2)[of i j] that by (simp add: nth_append)
  ultimately have "distinct (concat xss)" by (rule snoc.IH)
  moreover have "set xs \<inter> set ys = {}" if "xs \<in> set xss" for xs
  proof -
    from that obtain i where "i < length xss" "xss ! i = xs" by (auto simp: in_set_conv_nth)
    then show ?thesis using snoc.prems(2)[of i "length xss"] by (simp add: nth_append)
  qed
  moreover have "distinct ys" using snoc.prems(1)[of "length xss"] by simp
  ultimately show ?case by auto
qed simp

text \<open>The index of the first hit, as a Go search loop finds it.\<close>

fun find_index :: "('a \<Rightarrow> bool) \<Rightarrow> 'a list \<Rightarrow> nat option" where
  "find_index P [] = None"
| "find_index P (x # xs) = (if P x then Some 0 else map_option Suc (find_index P xs))"

lemma find_index_None: "find_index P xs = None \<longleftrightarrow> (\<forall>x\<in>set xs. \<not> P x)"
  by (induction xs) auto

lemma find_index_Some:
  "find_index P xs = Some i \<Longrightarrow> i < length xs \<and> P (xs ! i) \<and> (\<forall>j<i. \<not> P (xs ! j))"
proof (induction xs arbitrary: i)
  case (Cons x xs)
  then show ?case
    by (auto split: if_splits simp: less_Suc_eq_0_disj)
qed simp

text \<open>A slice cut into consecutive pieces of at most \<open>l\<close> elements, as the batch loops do it.\<close>

function chunks :: "nat \<Rightarrow> 'a list \<Rightarrow> 'a list list" where
  "chunks l xs = (if xs = [] \<or> l = 0 then [] else take l xs # chunks l (drop l xs))"
  by pat_completeness auto
termination
  by (relation "measure (\<lambda>(l, xs). length xs)") auto

declare chunks.simps [simp del]

lemma chunks_Nil [simp]: "chunks l [] = []"
  by (subst chunks.simps) simp

lemma chunks_Cons: "xs \<noteq> [] \<Longrightarrow> 0 < l \<Longrightarrow> chunks l xs = take l xs # chunks l (drop l xs)"
  by (subst chunks.simps) simp

lemma concat_chunks: "0 < l \<Longrightarrow> concat (chunks l xs) = xs"
proof (induction l xs rule: chunks.induct)
  case (1 l xs)
  then show ?case by (cases "xs = []") (simp_all add: chunks_Cons)
qed

lemma chunks_parts: "x \<in> set (chunks l xs) \<Longrightarrow> x \<noteq> [] \<and> length x \<le> l"
proof (induction l xs rule: chunks.induct)
  case (1 l xs)
  then show ?case by (cases "xs = [] \<or> l = 0") (auto simp: chunks.simps[of l xs])
qed

lemma length_chunks: "0 < l \<Longrightarrow> length (chunks l xs) = (length xs + l - 1) div l"
proof (induction l xs rule: chunks.induct)
  case (1 l xs)
  show ?case
  proof (cases "xs = []")
    case True
    then show ?thesis using 1(2) by simp
  next
    case False
    then have "length (chunks l xs) = Suc ((length xs - l + l - 1) div l)"
      using 1 by (simp add: chunks_Cons)
    also have "\<dots> = (length xs + l - 1) div l"
    proof (cases "length xs \<le> l")
      case True
      then have "(length xs - l + l - 1) div l = 0" using 1(2) by simp
      moreover have "(length xs + l - 1) div l = Suc ((length xs - 1) div l)"
        using False 1(2) by (cases xs) (simp_all add: div_add_self2)
      ultimately show ?thesis using True 1(2) by (cases xs) simp_all
    next
      case f: False
      then have "length xs + l - 1 = (length xs - l + l - 1) + l" by simp
      then show ?thesis using 1(2) by (simp only: div_add_self2)
    qed
    finally show ?thesis .
  qed
qed

lemma chunks_split: "0 < l \<Longrightarrow> chunks l (take (m * l) xs) @ chunks l (drop (m * l) xs) = chunks l xs"
proof (induction m arbitrary: xs)
  case (Suc m)
  show ?case
  proof (cases "xs = []")
    case False
    then have "chunks l (take (Suc m * l) xs) = take l xs # chunks l (take (m * l) (drop l xs))"
      using Suc.prems by (simp add: chunks_Cons drop_take)
    moreover have "drop (Suc m * l) xs = drop (m * l) (drop l xs)" by (simp add: add.commute)
    ultimately show ?thesis
      using Suc.IH[OF Suc.prems, of "drop l xs"] by (simp only: append_Cons chunks_Cons[OF False Suc.prems])
  qed simp
qed simp

text \<open>Association lists stand for Go maps whose iteration order or size matters; the keys of a
  well-formed one are distinct.\<close>

definition alist_update :: "'k \<Rightarrow> 'v \<Rightarrow> ('k \<times> 'v) list \<Rightarrow> ('k \<times> 'v) list" where
  "alist_update k v m = (if k \<in> fst ` set m
     then map (\<lambda>(k', v'). if k' = k then (k', v) else (k', v')) m else m @ [(k, v)])"

definition alist_delete :: "'k \<Rightarrow> ('k \<times> 'v) list \<Rightarrow> ('k \<times> 'v) list" where
  "alist_delete k m = filter (\<lambda>(k', v'). k' \<noteq> k) m"

definition alist_wf :: "('k \<times> 'v) list \<Rightarrow> bool" where
  "alist_wf m \<longleftrightarrow> distinct (map fst m)"

lemma map_of_alist_update: "map_of (alist_update k v m) = (map_of m)(k \<mapsto> v)"
proof (cases "k \<in> fst ` set m")
  case True
  have "map_of (map (\<lambda>(k', v'). if k' = k then (k', v) else (k', v')) m) x =
      (if x = k then (if k \<in> fst ` set m then Some v else None) else map_of m x)" for x
    by (induction m) (force split: prod.splits)+
  with True show ?thesis by (simp add: alist_update_def fun_eq_iff)
next
  case False
  then have "map_of m k = None" by (simp add: map_of_eq_None_iff)
  with False show ?thesis
    by (auto simp: alist_update_def fun_eq_iff map_add_def split: option.splits)
qed

lemma map_of_alist_delete: "map_of (alist_delete k m) = (map_of m)(k := None)"
  by (induction m) (auto simp: alist_delete_def fun_eq_iff)

lemma keys_alist_update [simp]: "fst ` set (alist_update k v m) = insert k (fst ` set m)"
  by (metis dom_map_of_conv_image_fst dom_fun_upd map_of_alist_update option.discI)

lemma keys_alist_delete [simp]: "fst ` set (alist_delete k m) = fst ` set m - {k}"
  by (force simp: alist_delete_def)

lemma alist_delete_absent: "k \<notin> fst ` set m \<Longrightarrow> alist_delete k m = m"
  by (induction m) (auto simp: alist_delete_def)

lemma alist_delete_append: "alist_delete k (m @ m') = alist_delete k m @ alist_delete k m'"
  by (simp add: alist_delete_def)

lemma alist_delete_Cons: "alist_delete k ((k', v) # m) = (if k' = k then alist_delete k m else (k', v) # alist_delete k m)"
  by (simp add: alist_delete_def)

lemma map_fst_alist_update_in:
  "map fst (map (\<lambda>(k', v'). if k' = k then (k', v) else (k', v')) m) = map fst m"
  by (induction m) auto

lemma alist_wf_update: "alist_wf m \<Longrightarrow> alist_wf (alist_update k v m)"
  by (auto simp: alist_wf_def alist_update_def map_fst_alist_update_in simp del: map_map)

lemma alist_wf_delete: "alist_wf m \<Longrightarrow> alist_wf (alist_delete k m)"
  by (simp add: alist_wf_def alist_delete_def distinct_map_filter)

lemma length_alist_update:
  "length (alist_update k v m) = (if k \<in> fst ` set m then length m else Suc (length m))"
  by (simp add: alist_update_def)

lemma length_alist_delete_le: "length (alist_delete k m) \<le> length m"
  by (simp add: alist_delete_def)

lemma length_alist_delete_less:
  assumes "k \<in> fst ` set m"
  shows "length (alist_delete k m) < length m"
proof -
  obtain v where "(k, v) \<in> set m" using assms by auto
  then show ?thesis
    unfolding alist_delete_def by (auto intro!: length_filter_less[where x = "(k, v)"])
qed

end
