(* ===== verification/Go_Lib.thy ===== *)
theory Go_Lib
  imports Go_Prelude
begin

text \<open>
  Go's standard library, as far as the modelled code calls it: \<^verbatim>\<open>encoding/hex\<close>,
  \<^verbatim>\<open>strings\<close>, \<^verbatim>\<open>strconv\<close>, \<^verbatim>\<open>encoding/binary\<close> (fixed width and
  varint), \<^verbatim>\<open>math/big\<close>'s \<^verbatim>\<open>SetBytes\<close>, \<^verbatim>\<open>sort.Sort\<close> and
  \<^verbatim>\<open>sort.Search\<close>, each with the laws the components rely on.
\<close>

section \<open>encoding/hex\<close>

definition hex_chars :: string where
  "hex_chars = ''0123456789abcdef''"

definition hex_digit :: "nat \<Rightarrow> char" where
  "hex_digit n = hex_chars ! n"

definition from_hex_char :: "char \<Rightarrow> nat option" where
  "from_hex_char c = (let n = of_char c in
     if 48 \<le> n \<and> n \<le> 57 then Some (n - 48)
     else if 97 \<le> n \<and> n \<le> 102 then Some (n - 97 + 10)
     else if 65 \<le> n \<and> n \<le> 70 then Some (n - 65 + 10)
     else None)"

definition hex_byte :: "byte \<Rightarrow> string" where
  "hex_byte b = [hex_digit (unat b div 16), hex_digit (unat b mod 16)]"

definition hex_encode :: "bytes \<Rightarrow> string" where
  "hex_encode bs = concat (map hex_byte bs)"

fun hex_decode :: "string \<Rightarrow> bytes option" where
  "hex_decode [] = Some []"
| "hex_decode [c] = None"
| "hex_decode (c # d # cs) =
     (case (from_hex_char c, from_hex_char d) of
        (Some h, Some l) \<Rightarrow> map_option ((#) (word_of_nat (16 * h + l))) (hex_decode cs)
      | _ \<Rightarrow> None)"

lemma from_hex_digit: "n < 16 \<Longrightarrow> from_hex_char (hex_digit n) = Some n"
proof -
  have "\<forall>n \<in> set [0..<16]. from_hex_char (hex_digit n) = Some n" by code_simp
  then show "n < 16 \<Longrightarrow> from_hex_char (hex_digit n) = Some n" by simp
qed

lemma hex_decode_byte: "hex_decode (hex_byte b @ s) = map_option ((#) b) (hex_decode s)"
proof -
  have "unat b div 16 < 16" using unat_byte_bound[of b] by simp
  moreover have "16 * (unat b div 16) + unat b mod 16 = unat b" by simp
  ultimately show ?thesis by (simp add: hex_byte_def from_hex_digit)
qed

lemma hex_decode_encode [simp]: "hex_decode (hex_encode bs) = Some bs"
  by (induction bs) (simp_all add: hex_encode_def hex_decode_byte)

lemma hex_encode_inj [simp]: "hex_encode a = hex_encode b \<longleftrightarrow> a = b"
  by (metis hex_decode_encode option.inject)

lemma length_hex_encode [simp]: "length (hex_encode bs) = 2 * length bs"
  by (induction bs) (simp_all add: hex_encode_def hex_byte_def)

section \<open>strings\<close>

text \<open>\<^verbatim>\<open>strings.Split\<close> on a one-byte separator, and \<^verbatim>\<open>strings.Join\<close>.\<close>

fun split_on :: "'a \<Rightarrow> 'a list \<Rightarrow> 'a list list" where
  "split_on c [] = [[]]"
| "split_on c (x # xs) =
     (if x = c then [] # split_on c xs
      else case split_on c xs of [] \<Rightarrow> [[x]] | p # ps \<Rightarrow> (x # p) # ps)"

fun join_with :: "'a list \<Rightarrow> 'a list list \<Rightarrow> 'a list" where
  "join_with sep [] = []"
| "join_with sep [x] = x"
| "join_with sep (x # y # ys) = x @ sep @ join_with sep (y # ys)"

lemma split_on_not_Nil [simp]: "split_on c s \<noteq> []"
  by (cases s) (auto split: list.splits)

lemma split_on_single: "c \<notin> set s \<Longrightarrow> split_on c s = [s]"
  by (induction s) auto

lemma split_on_append: "c \<notin> set a \<Longrightarrow> split_on c (a @ c # b) = a # split_on c b"
  by (induction a) auto

lemma join_split [simp]: "join_with [c] (split_on c s) = s"
proof (induction s)
  case (Cons x xs)
  obtain p ps where eq: "split_on c xs = p # ps" by (cases "split_on c xs") auto
  with Cons show ?case by (cases ps) auto
qed simp

lemma split_on_parts: "p \<in> set (split_on c s) \<Longrightarrow> c \<notin> set p"
proof (induction s arbitrary: p)
  case (Cons x xs)
  obtain q qs where eq: "split_on c xs = q # qs" by (cases "split_on c xs") auto
  with Cons show ?case by (auto split: if_splits)
qed simp

definition trim_prefix :: "'a list \<Rightarrow> 'a list \<Rightarrow> 'a list" where
  "trim_prefix p s = (if take (length p) s = p then drop (length p) s else s)"

definition has_suffix :: "'a list \<Rightarrow> 'a list \<Rightarrow> bool" where
  "has_suffix s q = (length q \<le> length s \<and> drop (length s - length q) s = q)"

section \<open>strconv\<close>

datatype num_error = ErrSyntax | ErrRange

definition digit_char :: "nat \<Rightarrow> char" where
  "digit_char d = char_of (48 + d)"

definition digit_val :: "char \<Rightarrow> nat option" where
  "digit_val c = (let n = of_char c in if 48 \<le> n \<and> n \<le> 57 then Some (n - 48) else None)"

fun itoa :: "nat \<Rightarrow> string" where
  "itoa n = (if n < 10 then [digit_char n] else itoa (n div 10) @ [digit_char (n mod 10)])"

declare itoa.simps [simp del]

fun parse_uint_loop :: "nat \<Rightarrow> nat \<Rightarrow> string \<Rightarrow> num_error + nat" where
  "parse_uint_loop mx n [] = Inr n"
| "parse_uint_loop mx n (c # cs) =
     (case digit_val c of None \<Rightarrow> Inl ErrSyntax
      | Some d \<Rightarrow> if n * 10 + d > mx then Inl ErrRange else parse_uint_loop mx (n * 10 + d) cs)"

text \<open>\<^verbatim>\<open>strconv.ParseUint(s, 10, bits)\<close>.\<close>

definition parse_uint :: "nat \<Rightarrow> string \<Rightarrow> num_error + nat" where
  "parse_uint bits s = (if s = [] then Inl ErrSyntax else parse_uint_loop (2 ^ bits - 1) 0 s)"

text \<open>\<^verbatim>\<open>strconv.Atoi\<close>: the value and whether an error is returned beside it.  A syntax error
  gives 0, a range error the nearest 64-bit integer.\<close>

definition atoi :: "string \<Rightarrow> int \<times> bool" where
  "atoi s = (
     let neg = (take 1 s = ''-''); s' = (if take 1 s \<in> {''-'', ''+''} then drop 1 s else s)
     in case parse_uint 64 s' of
          Inl ErrSyntax \<Rightarrow> (0, True)
        | Inl ErrRange \<Rightarrow> (if neg then - (2 ^ 63) else 2 ^ 63 - 1, True)
        | Inr n \<Rightarrow>
            if \<not> neg \<and> n \<ge> 2 ^ 63 then (2 ^ 63 - 1, True)
            else if neg \<and> n > 2 ^ 63 then (- (2 ^ 63), True)
            else (if neg then - int n else int n, False))"

lemma digit_val_char: "d < 10 \<Longrightarrow> digit_val (digit_char d) = Some d"
  by (simp add: digit_val_def digit_char_def Let_def of_char_of)

lemma itoa_not_Nil [simp]: "itoa n \<noteq> []"
  by (subst itoa.simps) simp

lemma parse_uint_loop_mono:
  "parse_uint_loop mx n s = Inr v \<Longrightarrow> n \<le> mx \<Longrightarrow> n \<le> v \<and> v \<le> mx"
proof (induction s arbitrary: n)
  case (Cons c cs)
  then show ?case by (fastforce split: option.splits if_splits)
qed simp

lemma parse_uint_loop_append:
  "parse_uint_loop mx n (s @ t) =
     (case parse_uint_loop mx n s of Inl e \<Rightarrow> Inl e | Inr v \<Rightarrow> parse_uint_loop mx v t)"
  by (induction s arbitrary: n) (auto split: option.splits)

lemma parse_uint_loop_itoa: "v \<le> mx \<Longrightarrow> parse_uint_loop mx 0 (itoa v) = Inr v"
proof (induction v rule: less_induct)
  case (less v)
  show ?case
  proof (cases "v < 10")
    case True
    then show ?thesis using less.prems
      by (subst itoa.simps) (simp add: digit_val_char)
  next
    case False
    then have "parse_uint_loop mx 0 (itoa (v div 10)) = Inr (v div 10)"
      using less by simp
    then show ?thesis using False less.prems
      by (subst itoa.simps) (simp add: parse_uint_loop_append digit_val_char)
  qed
qed

lemma parse_uint_itoa: "v < 2 ^ bits \<Longrightarrow> parse_uint bits (itoa v) = Inr v"
  by (simp add: parse_uint_def parse_uint_loop_itoa)

lemma parse_uint_bound: "parse_uint bits s = Inr v \<Longrightarrow> v < 2 ^ bits"
  by (auto simp: parse_uint_def less_eq_Suc_le dest!: parse_uint_loop_mono split: if_splits)
     (metis One_nat_def Suc_pred less_eq_Suc_le not_less_eq_eq zero_less_numeral zero_less_power)

lemma itoa_digits: "c \<in> set (itoa n) \<Longrightarrow> digit_val c \<noteq> None"
proof (induction n rule: less_induct)
  case (less n)
  show ?case
  proof (cases "n < 10")
    case True
    with less.prems show ?thesis by (subst (asm) itoa.simps) (simp add: digit_val_char)
  next
    case False
    then have "itoa n = itoa (n div 10) @ [digit_char (n mod 10)]" by (subst itoa.simps) simp
    then have "c \<in> set (itoa (n div 10)) \<or> c = digit_char (n mod 10)" using less.prems by auto
    moreover have "n div 10 < n" using False by simp
    ultimately show ?thesis using less.IH by (auto simp: digit_val_char)
  qed
qed

lemma itoa_no_caret: "CHR ''^'' \<notin> set (itoa n)"
  using itoa_digits[of "CHR ''^''" n] by (auto simp: digit_val_def)

lemma itoa_inj:
  assumes eq: "itoa a = itoa b"
  shows "a = b"
proof -
  have "parse_uint_loop (max a b) 0 (itoa a) = Inr a" "parse_uint_loop (max a b) 0 (itoa b) = Inr b"
    by (simp_all add: parse_uint_loop_itoa)
  with eq show ?thesis by (metis sum.inject(2))
qed

section \<open>encoding/binary and math/big\<close>

text \<open>Big-endian value (\<^verbatim>\<open>big.Int.SetBytes\<close>) and little-endian fixed-width integers.\<close>

fun be_val :: "bytes \<Rightarrow> nat" where
  "be_val [] = 0"
| "be_val (b # bs) = unat b * 256 ^ length bs + be_val bs"

fun le_val :: "bytes \<Rightarrow> nat" where
  "le_val [] = 0"
| "le_val (b # bs) = unat b + 256 * le_val bs"

fun le_bytes :: "nat \<Rightarrow> nat \<Rightarrow> bytes" where
  "le_bytes 0 v = []"
| "le_bytes (Suc k) v = word_of_nat (v mod 256) # le_bytes k (v div 256)"

lemma be_val_bound: "be_val bs < 256 ^ length bs"
proof (induction bs)
  case (Cons b bs)
  have "be_val (b # bs) < unat b * 256 ^ length bs + 256 ^ length bs" using Cons by simp
  also have "\<dots> = (unat b + 1) * 256 ^ length bs" by (simp add: algebra_simps)
  also have "\<dots> \<le> 256 * 256 ^ length bs"
    using unat_byte_bound[of b] by (intro mult_right_mono) auto
  finally show ?case by simp
qed simp

lemma length_le_bytes [simp]: "length (le_bytes k v) = k"
  by (induction k arbitrary: v) auto

lemma unat_word_of_mod256: "unat (word_of_nat (v mod 256) :: byte) = v mod 256"
  by (simp add: unat_of_nat)

lemma le_val_bytes: "le_val (le_bytes k v) = v mod 256 ^ k"
proof (induction k arbitrary: v)
  case (Suc k)
  then show ?case by (simp add: unat_word_of_mod256 mod_mult2_eq)
qed simp

lemma le_val_bound: "le_val bs < 256 ^ length bs"
proof (induction bs)
  case (Cons b bs)
  then show ?case using unat_byte_bound[of b] by simp
qed simp

lemma le_bytes_val: "le_bytes (length bs) (le_val bs) = bs"
proof (induction bs)
  case (Cons b bs)
  have "(unat b + 256 * le_val bs) mod 256 = unat b"
    using unat_byte_bound[of b] by simp
  moreover have "(unat b + 256 * le_val bs) div 256 = le_val bs"
    using unat_byte_bound[of b] by simp
  ultimately show ?case using Cons by simp
qed simp

text \<open>\<^verbatim>\<open>binary.PutUvarint\<close> and \<^verbatim>\<open>binary.ReadUvarint\<close>: 7 bits per byte, the high bit
  marks a continuation; a read fails on input that ends early and on more than 64 bits.\<close>

fun uvarint :: "nat \<Rightarrow> bytes" where
  "uvarint n = (if n < 128 then [word_of_nat n] else word_of_nat (n mod 128 + 128) # uvarint (n div 128))"

declare uvarint.simps [simp del]

fun read_uvarint :: "nat \<Rightarrow> nat \<Rightarrow> bytes \<Rightarrow> nat result" where
  "read_uvarint i acc [] = errorf ''unexpected EOF''"
| "read_uvarint i acc (b # bs) =
     (if i \<ge> 10 then errorf ''overflow''
      else if unat b < 128 then
        (if i = 9 \<and> unat b > 1 then errorf ''overflow'' else Inr (acc + unat b * 128 ^ i))
      else read_uvarint (Suc i) (acc + (unat b - 128) * 128 ^ i) bs)"

lemma uvarint_length: "n < 128 ^ Suc k \<Longrightarrow> length (uvarint n) \<le> Suc k"
proof (induction k arbitrary: n)
  case 0
  then show ?case by (subst uvarint.simps) simp
next
  case (Suc k)
  show ?case
  proof (cases "n < 128")
    case True
    then show ?thesis by (subst uvarint.simps) simp
  next
    case False
    have "n div 128 < 128 ^ Suc k" using Suc.prems by (simp add: less_mult_imp_div_less mult.commute)
    then have "length (uvarint (n div 128)) \<le> Suc k" by (rule Suc.IH)
    then show ?thesis using False by (subst uvarint.simps) simp
  qed
qed

lemma read_uvarint_uvarint:
  "length (uvarint n) + i \<le> 9 \<Longrightarrow> read_uvarint i acc (uvarint n @ rest) = Inr (acc + n * 128 ^ i)"
proof (induction n arbitrary: i acc rule: less_induct)
  case (less n)
  show ?case
  proof (cases "n < 128")
    case True
    then have "uvarint n = [word_of_nat n]" by (subst uvarint.simps) simp
    then show ?thesis using True less.prems by (simp add: unat_of_nat)
  next
    case False
    then have eq: "uvarint n = word_of_nat (n mod 128 + 128) # uvarint (n div 128)"
      by (subst uvarint.simps) simp
    have u: "unat (word_of_nat (n mod 128 + 128) :: byte) = n mod 128 + 128"
      by (simp only: unat_of_nat) simp
    have "read_uvarint (Suc i) (acc + n mod 128 * 128 ^ i) (uvarint (n div 128) @ rest)
        = Inr (acc + n mod 128 * 128 ^ i + n div 128 * 128 ^ Suc i)"
      using False less.prems eq by (intro less.IH) simp_all
    also have "n mod 128 * 128 ^ i + n div 128 * 128 ^ Suc i = n * 128 ^ i"
      by (metis add_mult_distrib mod_div_mult_eq mult.assoc power_Suc)
    then have "acc + n mod 128 * 128 ^ i + n div 128 * 128 ^ Suc i = acc + n * 128 ^ i" by simp
    finally show ?thesis using eq u less.prems by simp
  qed
qed

section \<open>sort\<close>

text \<open>\<^verbatim>\<open>sort.Sort\<close> with \<^verbatim>\<open>Less(i, j) = f i < f j\<close> returns a permutation that is sorted
  by \<open>f\<close>; the order of elements with equal keys is not specified.  The model is the stable
  \<open>sort_key f\<close>; where the keys are distinct every sorted permutation is this list.\<close>

locale key_sorter =
  fixes sorter :: "('a \<Rightarrow> nat) \<Rightarrow> 'a list \<Rightarrow> 'a list"
  assumes sorter_mset: "mset (sorter f xs) = mset xs"
    and sorter_sorted: "sorted (map f (sorter f xs))"
begin

lemma set_sorter [simp]: "set (sorter f xs) = set xs"
  by (metis sorter_mset set_mset_mset)

lemma length_sorter [simp]: "length (sorter f xs) = length xs"
  by (metis sorter_mset size_mset)

lemma distinct_sorter: "distinct (map g (sorter f xs)) \<longleftrightarrow> distinct (map g xs)"
  by (rule mset_eq_imp_distinct_iff) (simp add: sorter_mset)

lemma sorter_least:
  assumes "i < j" and "j < length xs"
  shows "f (sorter f xs ! i) \<le> f (sorter f xs ! j)"
  using sorted_nth_mono[OF sorter_sorted, of i j f xs] assms by simp

lemma take_sorter_closest:
  assumes "x \<in> set (take n (sorter f xs))" and "y \<in> set (drop n (sorter f xs))"
  shows "f x \<le> f y"
proof -
  have "sorted (map f (take n (sorter f xs)) @ map f (drop n (sorter f xs)))"
    using sorter_sorted[of f xs] by (simp flip: map_append)
  then show ?thesis using assms by (simp add: sorted_append)
qed

lemma sorter_unique:
  assumes "inj_on f (set xs)" and "mset ys = mset xs" and "sorted (map f ys)"
  shows "sorter f xs = ys"
proof -
  have "mset (map f (sorter f xs)) = mset (map f ys)"
    using assms(2) sorter_mset[of f xs] by simp
  then have "map f (sorter f xs) = map f ys"
    using assms(3) sorter_sorted[of f xs] by (metis properties_for_sort sorted_sort_id)
  moreover have "set ys = set xs" using assms(2) by (metis set_mset_mset)
  ultimately show ?thesis using assms(1) by (metis map_inj_on set_sorter Un_absorb)
qed

end

interpretation go_sort: key_sorter sort_key
  by unfold_locales simp_all

text \<open>\<^verbatim>\<open>sort.Search(n, f)\<close>: binary search for the least index at which \<open>f\<close> holds, when
  \<open>f\<close> is false on a prefix and true on the rest.\<close>

function search_loop :: "(nat \<Rightarrow> bool) \<Rightarrow> nat \<Rightarrow> nat \<Rightarrow> nat" where
  "search_loop f i j =
     (if i < j then let h = (i + j) div 2 in if \<not> f h then search_loop f (Suc h) j else search_loop f i h
      else i)"
  by pat_completeness auto
termination
  by (relation "measure (\<lambda>(f, i, j). j - i)") (auto simp: Let_def)

declare search_loop.simps [simp del]

definition go_search :: "nat \<Rightarrow> (nat \<Rightarrow> bool) \<Rightarrow> nat" where
  "go_search n f = search_loop f 0 n"

lemma search_loop_spec:
  assumes "i \<le> j" and "\<And>a b. a \<le> b \<Longrightarrow> f a \<Longrightarrow> f b" and "\<And>a. a < i \<Longrightarrow> \<not> f a"
  shows "i \<le> search_loop f i j \<and> search_loop f i j \<le> j \<and> (\<forall>a < search_loop f i j. \<not> f a)
     \<and> (search_loop f i j < j \<longrightarrow> f (search_loop f i j))"
  using assms
proof (induction f i j rule: search_loop.induct)
  case (1 f i j)
  show ?case
  proof (cases "i < j")
    case False
    then have "search_loop f i j = i" by (subst search_loop.simps) simp
    with 1(3-5) show ?thesis using False by auto
  next
    case True
    define h where "h = (i + j) div 2"
    have h: "i \<le> h" "h < j" using True by (auto simp: h_def)
    show ?thesis
    proof (cases "f h")
      case fh: True
      have "search_loop f i j = search_loop f i h"
        using True fh by (subst search_loop.simps) (simp add: Let_def h_def)
      moreover have "i \<le> search_loop f i h \<and> search_loop f i h \<le> h \<and> (\<forall>a < search_loop f i h. \<not> f a)
          \<and> (search_loop f i h < h \<longrightarrow> f (search_loop f i h))"
        using 1(2)[OF True h_def] fh h 1(4,5) by blast
      ultimately show ?thesis using fh h by (auto simp: le_less)
    next
      case fh: False
      have "search_loop f i j = search_loop f (Suc h) j"
        using True fh by (subst search_loop.simps) (simp add: Let_def h_def)
      moreover have "Suc h \<le> search_loop f (Suc h) j \<and> search_loop f (Suc h) j \<le> j
          \<and> (\<forall>a < search_loop f (Suc h) j. \<not> f a) \<and> (search_loop f (Suc h) j < j \<longrightarrow> f (search_loop f (Suc h) j))"
        using 1(1)[OF True h_def fh] fh h 1(4) by (metis Suc_leI less_Suc_eq_le)
      ultimately show ?thesis using h by auto
    qed
  qed
qed

lemma search_loop_cong:
  assumes "\<And>a. a < j \<Longrightarrow> f a = g a"
  shows "search_loop f i j = search_loop g i j"
  using assms
proof (induction f i j rule: search_loop.induct)
  case (1 f i j)
  show ?case
  proof (cases "i < j")
    case False
    then show ?thesis by (simp add: search_loop.simps)
  next
    case True
    define h where "h = (i + j) div 2"
    have h: "h < j" using True by (simp add: h_def)
    show ?thesis
    proof (cases "f h")
      case fh: True
      have "search_loop f i h = search_loop g i h"
        using 1(2)[OF True h_def] fh h 1(3) by simp
      then show ?thesis using True fh 1(3)[OF h]
        by (simp add: search_loop.simps[of f i j] search_loop.simps[of g i j] Let_def flip: h_def)
    next
      case fh: False
      have "search_loop f (Suc h) j = search_loop g (Suc h) j"
        using 1(1)[OF True h_def fh] 1(3) by simp
      then show ?thesis using True fh 1(3)[OF h]
        by (simp add: search_loop.simps[of f i j] search_loop.simps[of g i j] Let_def flip: h_def)
    qed
  qed
qed

lemma go_search_spec:
  assumes "\<forall>a b. a \<le> b \<longrightarrow> b < n \<longrightarrow> f a \<longrightarrow> f b"
  shows "go_search n f \<le> n" and "\<And>a. a < go_search n f \<Longrightarrow> \<not> f a" and "go_search n f < n \<Longrightarrow> f (go_search n f)"
proof -
  let ?g = "\<lambda>a. n \<le> a \<or> f a"
  have e: "go_search n f = search_loop ?g 0 n"
    unfolding go_search_def by (rule search_loop_cong) auto
  note S = search_loop_spec[of 0 n ?g]
  have m: "?g b" if "a \<le> b" "?g a" for a b
  proof (cases "n \<le> b")
    case False
    then have "b < n" "f a" using that by auto
    with assms that(1) show ?thesis by blast
  qed simp
  have "0 \<le> search_loop ?g 0 n \<and> search_loop ?g 0 n \<le> n \<and> (\<forall>a < search_loop ?g 0 n. \<not> ?g a)
     \<and> (search_loop ?g 0 n < n \<longrightarrow> ?g (search_loop ?g 0 n))"
    by (rule S, simp, rule m, assumption+, simp)
  then have r: "go_search n f \<le> n" "\<forall>a < go_search n f. \<not> (n \<le> a \<or> f a)"
      "go_search n f < n \<longrightarrow> n \<le> go_search n f \<or> f (go_search n f)" unfolding e by blast+
  then show "go_search n f \<le> n" by blast
  show "\<not> f a" if "a < go_search n f" for a using r(2) that by blast
  show "f (go_search n f)" if "go_search n f < n" using r(3) that by (meson linorder_not_le)
qed

end
