(* ===== verification/Nodes.thy ===== *)
theory Nodes
  imports Go_Lib
begin

text \<open>
  Peers and lists of peers (\<^verbatim>\<open>p2p/kademlia/node.go\<close>, \<^verbatim>\<open>common.go\<close>): the record of a
  node, the XOR distance, the operations of \<^verbatim>\<open>NodeList\<close> and the textual key a node is
  grouped under.  A \<^verbatim>\<open>*Node\<close> is the value it points to; \<open>SetHashedID\<close>, the one operation
  that writes through the pointer, returns the new value.  The Blake3 hash (a third-party package)
  is the parameter \<open>H\<close>.
\<close>

section \<open>Node\<close>

record node =
  ID :: bytes
  IP :: string
  Port :: u16
  HashedID :: bytes

definition mk_node :: "bytes \<Rightarrow> string \<Rightarrow> u16 \<Rightarrow> node" where
  "mk_node i ip p = \<lparr>ID = i, IP = ip, Port = p, HashedID = []\<rparr>"

definition SetHashedID :: "(bytes \<Rightarrow> bytes) \<Rightarrow> node \<Rightarrow> node" where
  "SetHashedID H s = (if length (HashedID s) = 0 then s\<lparr>HashedID := H (ID s)\<rparr> else s)"

definition node_String :: "node \<Rightarrow> string" where
  "node_String s = str_of_bytes (ID s) @ ''-'' @ IP s @ '':'' @ itoa (unat (Port s))"

section \<open>NodeList\<close>

record node_list =
  nl_Nodes :: "node list"
  Comparator :: bytes

definition nl_String :: "node_list \<Rightarrow> string" where
  "nl_String s = join_with '','' (map node_String (nl_Nodes s))"

definition nl_Len :: "node_list \<Rightarrow> nat" where
  "nl_Len s = length (nl_Nodes s)"

definition DelNode :: "node \<Rightarrow> node_list \<Rightarrow> node_list" where
  "DelNode n s = s\<lparr>nl_Nodes := remove_first (\<lambda>x. ID x = ID n) (nl_Nodes s)\<rparr>"

definition haveAllNodes :: "node list \<Rightarrow> node list \<Rightarrow> bool" where
  "haveAllNodes nodesA nodesB = list_all (\<lambda>a. list_ex (\<lambda>b. ID a = ID b) nodesB) nodesA"

definition nl_exists :: "node_list \<Rightarrow> node \<Rightarrow> bool" where
  "nl_exists s n = list_ex (\<lambda>x. ID x = ID n) (nl_Nodes s)"

fun AddNodes :: "node list \<Rightarrow> node_list \<Rightarrow> node_list" where
  "AddNodes [] s = s"
| "AddNodes (n # ns) s =
     AddNodes ns (if nl_exists s n then s else s\<lparr>nl_Nodes := nl_Nodes s @ [n]\<rparr>)"

definition AddFirst :: "node \<Rightarrow> node_list \<Rightarrow> node_list" where
  "AddFirst n s = s\<lparr>nl_Nodes := n # nl_Nodes s\<rparr>"

text \<open>\<^verbatim>\<open>TopN(n)\<close>; every caller passes a non-negative count.\<close>

definition TopN :: "nat \<Rightarrow> node_list \<Rightarrow> node_list" where
  "TopN n s = (if nl_Len s > n then s\<lparr>nl_Nodes := take n (nl_Nodes s)\<rparr>
               else s\<lparr>nl_Nodes := take (nl_Len s) (nl_Nodes s)\<rparr>)"

definition distance :: "bytes \<Rightarrow> bytes \<Rightarrow> nat" where
  "distance id1 id2 = be_val id1 XOR be_val id2"

definition nl_Swap :: "int \<Rightarrow> int \<Rightarrow> node_list \<Rightarrow> node_list" where
  "nl_Swap i j s =
     (if i \<ge> 0 \<and> i < int (nl_Len s) \<and> j \<ge> 0 \<and> j < int (nl_Len s) then
        s\<lparr>nl_Nodes := (nl_Nodes s)[nat i := nl_Nodes s ! nat j, nat j := nl_Nodes s ! nat i]\<rparr>
      else s)"

definition nl_Less :: "node_list \<Rightarrow> int \<Rightarrow> int \<Rightarrow> bool" where
  "nl_Less s i j =
     (if i \<ge> 0 \<and> i < int (nl_Len s) \<and> j \<ge> 0 \<and> j < int (nl_Len s) then
        distance (HashedID (nl_Nodes s ! nat i)) (Comparator s)
          < distance (HashedID (nl_Nodes s ! nat j)) (Comparator s)
      else False)"

text \<open>\<^verbatim>\<open>Sort\<close> is \<^verbatim>\<open>sort.Sort(s)\<close> with this \<^verbatim>\<open>Less\<close>: it orders by the distance to the
  comparator.\<close>

definition node_dist :: "bytes \<Rightarrow> node \<Rightarrow> nat" where
  "node_dist target n = distance (HashedID n) target"

definition nl_Sort :: "node_list \<Rightarrow> node_list" where
  "nl_Sort s = s\<lparr>nl_Nodes := sort_key (node_dist (Comparator s)) (nl_Nodes s)\<rparr>"

text \<open>\<^verbatim>\<open>NodeIDs\<close> and \<^verbatim>\<open>NodeIPs\<close> append to a slice that was made with its full length, so as
  many zero values precede the entries.\<close>

definition NodeIDs :: "node_list \<Rightarrow> bytes list" where
  "NodeIDs s = replicate (length (nl_Nodes s)) [] @ map ID (nl_Nodes s)"

definition NodeIPs :: "node_list \<Rightarrow> string list" where
  "NodeIPs s = replicate (length (nl_Nodes s)) [] @ map IP (nl_Nodes s)"

section \<open>Node keys (common.go)\<close>

definition generateKeyFromNode :: "node \<Rightarrow> string" where
  "generateKeyFromNode n = str_of_bytes (ID n) @ ''^'' @ IP n @ ''^'' @ itoa (unat (Port n))"

definition getNodeFromKey :: "string \<Rightarrow> node result" where
  "getNodeFromKey key = (
     let parts = split_on (CHR ''^'') key in
     case parts of
       [i, ip, p] \<Rightarrow>
         (case parse_uint 16 p of
            Inl e \<Rightarrow> errorf ''invalid port''
          | Inr port \<Rightarrow> Inr (mk_node (bytes_of_str i) ip (word_of_nat port)))
     | _ \<Rightarrow> errorf ''invalid key'')"

section \<open>Lemmas\<close>

definition nl_wf :: "node_list \<Rightarrow> bool" where
  "nl_wf s \<longleftrightarrow> distinct (map ID (nl_Nodes s))"

lemma nl_exists_iff: "nl_exists s n \<longleftrightarrow> ID n \<in> ID ` set (nl_Nodes s)"
  by (simp add: nl_exists_def list_ex_iff image_iff) metis

lemma haveAllNodes_iff: "haveAllNodes as bs \<longleftrightarrow> ID ` set as \<subseteq> ID ` set bs"
  by (auto simp: haveAllNodes_def list_all_iff list_ex_iff)

lemma SetHashedID_fields [simp]:
  "ID (SetHashedID H n) = ID n" "IP (SetHashedID H n) = IP n" "Port (SetHashedID H n) = Port n"
  by (simp_all add: SetHashedID_def)

lemma SetHashedID_idem: "length (H (ID n)) \<noteq> 0 \<Longrightarrow> SetHashedID H (SetHashedID H n) = SetHashedID H n"
  by (simp add: SetHashedID_def)

lemma AddNodes_Comparator [simp]: "Comparator (AddNodes ns s) = Comparator s"
  by (induction ns s rule: AddNodes.induct) auto

lemma AddNodes_ids: "ID ` set (nl_Nodes (AddNodes ns s)) = ID ` set (nl_Nodes s) \<union> ID ` set ns"
  by (induction ns s rule: AddNodes.induct) (auto simp: nl_exists_iff)

lemma AddNodes_set: "set (nl_Nodes (AddNodes ns s)) \<subseteq> set (nl_Nodes s) \<union> set ns"
  by (induction ns s rule: AddNodes.induct) (auto split: if_splits)

lemma AddNodes_prefix: "\<exists>ys. nl_Nodes (AddNodes ns s) = nl_Nodes s @ ys"
  by (induction ns s rule: AddNodes.induct) auto

lemma AddNodes_wf [inv_intros]: "nl_wf s \<Longrightarrow> nl_wf (AddNodes ns s)"
  by (induction ns s rule: AddNodes.induct) (auto simp: nl_wf_def nl_exists_iff)

lemma AddNodes_snoc: "AddNodes (ns @ ms) s = AddNodes ms (AddNodes ns s)"
  by (induction ns s rule: AddNodes.induct) auto

lemma AddNodes_distinct:
  assumes "distinct (map ID ns)" and "ID ` set ns \<inter> ID ` set (nl_Nodes s) = {}"
  shows "nl_Nodes (AddNodes ns s) = nl_Nodes s @ ns"
  using assms by (induction ns s rule: AddNodes.induct) (auto simp: nl_exists_iff)

lemma DelNode_wf [inv_intros]: "nl_wf s \<Longrightarrow> nl_wf (DelNode n s)"
  by (simp add: nl_wf_def DelNode_def distinct_remove_first)

lemma DelNode_removes: "nl_wf s \<Longrightarrow> nl_Nodes (DelNode n s) = filter (\<lambda>x. ID x \<noteq> ID n) (nl_Nodes s)"
  by (simp add: nl_wf_def DelNode_def remove_first_distinct)

lemma TopN_take: "nl_Nodes (TopN n s) = take n (nl_Nodes s)"
  by (simp add: TopN_def nl_Len_def)

lemma TopN_Comparator [simp]: "Comparator (TopN n s) = Comparator s"
  by (simp add: TopN_def)

lemma TopN_wf [inv_intros]: "nl_wf s \<Longrightarrow> nl_wf (TopN n s)"
  by (simp add: nl_wf_def TopN_take distinct_take flip: take_map)

lemma nl_Sort_Comparator [simp]: "Comparator (nl_Sort s) = Comparator s"
  by (simp add: nl_Sort_def)

lemma nl_Sort_set [simp]: "set (nl_Nodes (nl_Sort s)) = set (nl_Nodes s)"
  by (simp add: nl_Sort_def)

lemma nl_Sort_Len [simp]: "nl_Len (nl_Sort s) = nl_Len s"
  by (simp add: nl_Sort_def nl_Len_def)

lemma nl_Sort_wf [inv_intros]: "nl_wf s \<Longrightarrow> nl_wf (nl_Sort s)"
  by (simp add: nl_wf_def nl_Sort_def go_sort.distinct_sorter)

text \<open>The list \<^verbatim>\<open>Sort\<close> leaves has no adjacent or distant inversion for \<^verbatim>\<open>Less\<close>, and is a
  permutation: what \<^verbatim>\<open>sort.Sort\<close> guarantees from \<^verbatim>\<open>Less\<close> and \<^verbatim>\<open>Swap\<close>.\<close>

lemma nl_Sort_no_inversion:
  assumes "i < j" and "j < nl_Len s"
  shows "\<not> nl_Less (nl_Sort s) (int j) (int i)"
  using assms go_sort.sorter_least[OF assms(1), of "nl_Nodes s" "node_dist (Comparator s)"]
  by (simp add: nl_Less_def nl_Sort_def nl_Len_def node_dist_def)

lemma nl_Sort_mset: "mset (nl_Nodes (nl_Sort s)) = mset (nl_Nodes s)"
  by (simp add: nl_Sort_def)

lemma nl_Swap_mset: "mset (nl_Nodes (nl_Swap i j s)) = mset (nl_Nodes s)"
  by (auto simp: nl_Swap_def nl_Len_def mset_swap)

text \<open>Sorting and cutting keeps a closest subset: nothing dropped is closer than anything kept.\<close>

lemma TopN_Sort_closest:
  assumes "x \<in> set (nl_Nodes (TopN n (nl_Sort s)))"
    and "y \<in> set (nl_Nodes s)" and "y \<notin> set (nl_Nodes (TopN n (nl_Sort s)))"
  shows "node_dist (Comparator s) x \<le> node_dist (Comparator s) y"
proof -
  let ?xs = "sort_key (node_dist (Comparator s)) (nl_Nodes s)"
  have "y \<in> set ?xs" using assms(2) by simp
  then have "y \<in> set (drop n ?xs)"
    using assms(3) by (metis TopN_take Un_iff append_take_drop_id nl_Sort_def node_list.select_convs(1)
        node_list.surjective node_list.update_convs(1) set_append)
  with assms(1) show ?thesis
    by (intro go_sort.take_sorter_closest[of x n _ "nl_Nodes s" y]) (simp_all add: TopN_take nl_Sort_def)
qed

lemma distance_self: "distance a a = 0"
  by (simp add: distance_def)

lemma distance_sym: "distance a b = distance b a"
  by (simp add: distance_def xor.commute)

text \<open>The key of a node is read back, provided neither the identifier nor the address contains
  the separator.\<close>

lemma key_roundtrip:
  assumes "CHR ''^'' \<notin> set (str_of_bytes (ID n))" and "CHR ''^'' \<notin> set (IP n)"
  shows "getNodeFromKey (generateKeyFromNode n) = Inr (mk_node (ID n) (IP n) (Port n))"
proof -
  have "split_on (CHR ''^'') (generateKeyFromNode n) = [str_of_bytes (ID n), IP n, itoa (unat (Port n))]"
    using assms by (simp add: generateKeyFromNode_def split_on_append split_on_single itoa_no_caret)
  moreover have "parse_uint 16 (itoa (unat (Port n))) = Inr (unat (Port n))"
    using unsigned_less[of "Port n", where ?'a = nat] by (intro parse_uint_itoa) simp
  ultimately show ?thesis by (simp add: getNodeFromKey_def mk_node_def)
qed

end
