(* ===== verification/HashTable.thy ===== *)
theory HashTable
  imports Nodes
begin

text \<open>
  The Kademlia routing table (\<^verbatim>\<open>p2p/kademlia/hashtable.go\<close>): 256 buckets of at most 20 nodes,
  least recently seen first, the bucket of a node given by the first bit in which its hashed
  identifier differs from the local one.  The mutexes make each operation atomic, so an operation is
  one state-passing function.  An index out of range, which panics in Go, is \<open>None\<close>.
\<close>

section \<open>Constants and state\<close>

datatype iterate_type = IterateStore | IterateFindNode | IterateFindValue

definition Alpha :: nat where "Alpha = 6"
definition B :: nat where "B = 256"
definition K :: nat where "K = 20"

record hash_table =
  self :: node
  routeTable :: "node list list"
  refreshers :: "timestamp list"

text \<open>Reading a bucket at a Go \<^verbatim>\<open>int\<close> index.\<close>

definition bucket_at :: "hash_table \<Rightarrow> int \<Rightarrow> node list option" where
  "bucket_at ht i = (if 0 \<le> i \<and> i < int (length (routeTable ht)) then Some (routeTable ht ! nat i) else None)"

definition set_bucket :: "hash_table \<Rightarrow> int \<Rightarrow> node list \<Rightarrow> hash_table" where
  "set_bucket ht i b = ht\<lparr>routeTable := (routeTable ht)[nat i := b]\<rparr>"

section \<open>Operations\<close>

definition resetRefreshTime :: "timestamp \<Rightarrow> int \<Rightarrow> hash_table \<Rightarrow> hash_table option" where
  "resetRefreshTime now bucket ht =
     (if 0 \<le> bucket \<and> bucket < int (length (refreshers ht))
      then Some (ht\<lparr>refreshers := (refreshers ht)[nat bucket := now]\<rparr>) else None)"

fun reset_all :: "timestamp \<Rightarrow> nat \<Rightarrow> hash_table \<Rightarrow> hash_table option" where
  "reset_all now 0 ht = Some ht"
| "reset_all now (Suc i) ht = Option.bind (reset_all now i ht) (resetRefreshTime now (int i))"

text \<open>\<^verbatim>\<open>NewHashTable\<close>: the identifier of the options may be nil (\<open>None\<close>), which is an error.\<close>

definition NewHashTable ::
  "(bytes \<Rightarrow> bytes) \<Rightarrow> timestamp \<Rightarrow> bytes option \<Rightarrow> string \<Rightarrow> u16 \<Rightarrow> hash_table option result" where
  "NewHashTable H now opt_id ip port = (
     case opt_id of
       None \<Rightarrow> errorf ''id is nil''
     | Some i \<Rightarrow>
         Inr (reset_all now B
           \<lparr>self = SetHashedID H (mk_node i ip port),
            routeTable = replicate B [], refreshers = replicate B 0\<rparr>))"

definition hasBit :: "byte \<Rightarrow> nat \<Rightarrow> bool" where
  "hasBit n pos = (pos \<le> 7 \<and> n AND push_bit (7 - pos) 1 > 0)"

fun bucketIndex_from :: "nat \<Rightarrow> bytes \<Rightarrow> bytes \<Rightarrow> int option" where
  "bucketIndex_from j [] id2 = Some 0"
| "bucketIndex_from j (a # as) [] = None"
| "bucketIndex_from j (a # as) (b # bs) =
     (case List.find (hasBit (a XOR b)) [0..<8] of
        Some i \<Rightarrow> Some (int B - (int j * 8 + int i) - 1)
      | None \<Rightarrow> bucketIndex_from (Suc j) as bs)"

definition bucketIndex :: "bytes \<Rightarrow> bytes \<Rightarrow> int option" where
  "bucketIndex id1 id2 = bucketIndex_from 0 id1 id2"

definition move_to_end :: "nat \<Rightarrow> 'a list \<Rightarrow> 'a list" where
  "move_to_end k xs = take k xs @ drop (Suc k) xs @ [xs ! k]"

definition refreshNode :: "bytes \<Rightarrow> hash_table \<Rightarrow> hash_table option" where
  "refreshNode i ht =
     Option.bind (bucketIndex (HashedID (self ht)) i) (\<lambda>index.
     Option.bind (bucket_at ht index) (\<lambda>bucket.
       let offset = (case find_index (\<lambda>v. ID v = i) bucket of Some k \<Rightarrow> k | None \<Rightarrow> 0) in
       if offset < length bucket then Some (set_bucket ht index (move_to_end offset bucket)) else None))"

definition refreshTime :: "int \<Rightarrow> hash_table \<Rightarrow> timestamp option" where
  "refreshTime bucket ht =
     (if 0 \<le> bucket \<and> bucket < int (length (refreshers ht)) then Some (refreshers ht ! nat bucket) else None)"

text \<open>\<^verbatim>\<open>randomIDFromBucket\<close>: the random bits and bytes the code draws are the arguments
  \<open>rbit\<close> (by bit position) and \<open>rbyte\<close> (by byte position).\<close>

definition random_first :: "byte \<Rightarrow> nat \<Rightarrow> (nat \<Rightarrow> bool) \<Rightarrow> byte" where
  "random_first selfbyte start rbit =
     fold (\<lambda>i first. let b = (if i < start then hasBit selfbyte i else rbit i)
                     in if b then first + 2 ^ (7 - i) else first) [0..<8] 0"

definition randomIDFromBucket :: "nat \<Rightarrow> (nat \<Rightarrow> bool) \<Rightarrow> (nat \<Rightarrow> byte) \<Rightarrow> hash_table \<Rightarrow> bytes option" where
  "randomIDFromBucket bucket rbit rbyte ht = (
     let index = bucket div 8; start = bucket mod 8; sid = ID (self ht) in
     if index > length sid \<or> (0 < start \<and> index \<ge> length sid) then None
     else Some (take index sid @ [random_first (if start = 0 then 0 else sid ! index) start rbit]
            @ map rbyte [index + 1..<20]))"

definition hasBucketNode :: "int \<Rightarrow> bytes \<Rightarrow> hash_table \<Rightarrow> bool option" where
  "hasBucketNode bucket i ht = map_option (list_ex (\<lambda>n. ID n = i)) (bucket_at ht bucket)"

definition hasNode :: "bytes \<Rightarrow> hash_table \<Rightarrow> bool" where
  "hasNode i ht = list_ex (list_ex (\<lambda>n. ID n = i)) (routeTable ht)"

definition totalCount :: "hash_table \<Rightarrow> nat" where
  "totalCount ht = sum_list (map length (routeTable ht))"

definition ht_nodes :: "hash_table \<Rightarrow> node list" where
  "ht_nodes ht = concat (routeTable ht)"

definition closestContacts :: "nat \<Rightarrow> bytes \<Rightarrow> node list \<Rightarrow> hash_table \<Rightarrow> node_list \<times> nat" where
  "closestContacts num target ignoredNodes ht = (
     let ignoredMap = set (map (\<lambda>n. str_of_bytes (ID n)) ignoredNodes);
         nl = fold (\<lambda>n nl. if str_of_bytes (ID n) \<in> ignoredMap then nl else AddNodes [n] nl)
                (concat (routeTable ht)) \<lparr>nl_Nodes = [], Comparator = target\<rparr>
     in (TopN num (nl_Sort nl), length (concat (routeTable ht))))"

text \<open>\<^verbatim>\<open>closestContactsWithInlcudingNode\<close> fills its ignore map with hex-encoded identifiers and
  looks raw identifiers up in it.\<close>

definition closestContactsWithInlcudingNode ::
  "nat \<Rightarrow> bytes \<Rightarrow> node list \<Rightarrow> node option \<Rightarrow> hash_table \<Rightarrow> node_list" where
  "closestContactsWithInlcudingNode num target ignoredNodes includeNode ht = (
     let ignoredMap = set (map (\<lambda>n. hex_encode (ID n)) ignoredNodes);
         nl = fold (\<lambda>n nl. if str_of_bytes (ID n) \<in> ignoredMap then nl else AddNodes [n] nl)
                (concat (routeTable ht)) \<lparr>nl_Nodes = [], Comparator = target\<rparr>;
         nl' = (case includeNode of None \<Rightarrow> nl | Some n \<Rightarrow> AddNodes [n] nl)
     in TopN num (nl_Sort nl'))"

definition closestContactsWithIncludingNodeList ::
  "nat \<Rightarrow> bytes \<Rightarrow> node list \<Rightarrow> node list \<Rightarrow> hash_table \<Rightarrow> node_list" where
  "closestContactsWithIncludingNodeList num target ignoredNodes nodesToInclude ht = (
     let ignoredMap = set (map (\<lambda>n. hex_encode (ID n)) ignoredNodes);
         nl = fold (\<lambda>n nl. if str_of_bytes (ID n) \<in> ignoredMap then nl else AddNodes [n] nl)
                (concat (routeTable ht)) \<lparr>nl_Nodes = [], Comparator = target\<rparr>;
         includeNodeList = filter (\<lambda>n. \<not> nl_exists nl n) nodesToInclude
     in TopN num (nl_Sort (AddNodes includeNodeList nl)))"

definition RemoveNode :: "int \<Rightarrow> bytes \<Rightarrow> hash_table \<Rightarrow> (bool \<times> hash_table) option" where
  "RemoveNode index i ht =
     map_option (\<lambda>bucket.
       if list_ex (\<lambda>n. ID n = i) bucket
       then (True, set_bucket ht index (remove_first (\<lambda>n. ID n = i) bucket))
       else (False, ht)) (bucket_at ht index)"

definition newRandomID :: "(nat \<Rightarrow> byte) \<Rightarrow> bytes" where
  "newRandomID rbyte = map rbyte [0..<20]"

section \<open>Buckets and the XOR metric\<close>

lemma bit_shifted_sum:
  assumes "(r::nat) < 2 ^ k"
  shows "bit (x * 2 ^ k + r) i = (if i < k then bit r i else bit x (i - k))"
proof -
  have t: "take_bit k (x * 2 ^ k + r) = r" using assms by (simp add: take_bit_eq_mod)
  have d: "drop_bit k (x * 2 ^ k + r) = x" using assms by (simp add: drop_bit_eq_div)
  show ?thesis
  proof (cases "i < k")
    case True
    then show ?thesis using t by (metis bit_take_bit_iff)
  next
    case False
    then have "bit (x * 2 ^ k + r) i = bit (drop_bit k (x * 2 ^ k + r)) (i - k)"
      by (simp only: bit_drop_bit_eq o_def) simp
    with d False show ?thesis by simp
  qed
qed

lemma xor_less_exp: "(a::nat) < 2 ^ k \<Longrightarrow> b < 2 ^ k \<Longrightarrow> a XOR b < 2 ^ k"
  by (metis take_bit_nat_eq_self_iff take_bit_xor)

lemma xor_shifted_sum:
  assumes "(r::nat) < 2 ^ k" and "s < 2 ^ k"
  shows "(x * 2 ^ k + r) XOR (y * 2 ^ k + s) = (x XOR y) * 2 ^ k + (r XOR s)"
  by (rule bit_eqI)
     (simp add: bit_xor_iff bit_shifted_sum[OF assms(1)] bit_shifted_sum[OF assms(2)]
        bit_shifted_sum[OF xor_less_exp[OF assms]])

lemma distance_Cons:
  assumes "length as = length bs"
  shows "distance (a # as) (b # bs) = unat (a XOR b) * 256 ^ length as + distance as bs"
proof -
  have e: "(256::nat) ^ n = 2 ^ (8 * n)" for n by (simp add: power_mult)
  have "be_val as < 2 ^ (8 * length as)" "be_val bs < 2 ^ (8 * length as)"
    using be_val_bound[of as] be_val_bound[of bs] assms by (simp_all add: e)
  from xor_shifted_sum[OF this, of "unat a" "unat b"]
  show ?thesis using assms by (simp add: distance_def e unsigned_xor_eq)
qed

lemma distance_bound:
  "length as = length bs \<Longrightarrow> distance as bs < 256 ^ length as"
  using be_val_bound[of as] be_val_bound[of bs] xor_less_exp[of "be_val as" "8 * length as" "be_val bs"]
  by (simp add: distance_def power_mult)

lemma find_hasBit_all:
  "list_all (\<lambda>n. case List.find (hasBit (word_of_nat n)) [0..<8] of
       Some i \<Rightarrow> i < 8 \<and> 2 ^ (7 - i) \<le> n \<and> n < 2 ^ (8 - i) | None \<Rightarrow> n = 0) [0..<256]"
  by code_simp

lemma find_hasBit:
  assumes "x \<noteq> 0"
  shows "\<exists>i<8. List.find (hasBit x) [0..<8] = Some i \<and> 2 ^ (7 - i) \<le> unat x \<and> unat x < 2 ^ (8 - i)"
proof -
  have "unat x \<in> set [0..<256]" using unat_byte_bound[of x] by simp
  with find_hasBit_all have
    "case List.find (hasBit (word_of_nat (unat x))) [0..<8] of
       Some i \<Rightarrow> i < 8 \<and> 2 ^ (7 - i) \<le> unat x \<and> unat x < 2 ^ (8 - i) | None \<Rightarrow> unat x = 0"
    unfolding list_all_iff by blast
  then show ?thesis using assms by (auto simp: unat_eq_0 split: option.splits)
qed

lemma find_hasBit_0: "List.find (hasBit 0) [0..<8] = None"
  by (simp add: find_None_iff hasBit_def)

lemma bucketIndex_from_same: "bucketIndex_from j a a = Some 0"
  by (induction a arbitrary: j) (simp_all add: find_hasBit_0)

lemma bucketIndex_same [simp]: "bucketIndex a a = Some 0"
  by (simp add: bucketIndex_def bucketIndex_from_same)

lemma bucketIndex_from_log2:
  assumes "length as = length bs" and "j + length as = 32" and "as \<noteq> bs"
  shows "\<exists>i < 8 * length as. bucketIndex_from j as bs = Some (int i)
           \<and> 2 ^ i \<le> distance as bs \<and> distance as bs < 2 ^ Suc i"
  using assms
proof (induction j as bs rule: bucketIndex_from.induct)
  case (3 j a as b bs)
  let ?m = "length as"
  have len: "length as = length bs" using "3.prems"(1) by simp
  note d = distance_Cons[OF len, of a b]
  show ?case
  proof (cases "a XOR b = 0")
    case True
    then have "a = b" by (metis xor.assoc xor.left_neutral xor.right_neutral xor_self_eq)
    then have "as \<noteq> bs" using "3.prems"(3) by simp
    with 3 len True obtain i where "i < 8 * ?m" "bucketIndex_from (Suc j) as bs = Some (int i)"
        "2 ^ i \<le> distance as bs" "distance as bs < 2 ^ Suc i"
      by (auto simp: find_hasBit_0)
    then show ?thesis using True d by (intro exI[of _ i]) (simp add: find_hasBit_0)
  next
    case False
    then obtain i where i: "i < 8" "List.find (hasBit (a XOR b)) [0..<8] = Some i"
        "2 ^ (7 - i) \<le> unat (a XOR b)" "unat (a XOR b) < 2 ^ (8 - i)"
      using find_hasBit by blast
    let ?k = "8 * ?m + 7 - i"
    have e: "(256::nat) ^ ?m = 2 ^ (8 * ?m)" by (simp add: power_mult)
    have kk: "?k = 8 * ?m + (7 - i)" "Suc ?k = 8 * ?m + (8 - i)" using i(1) by simp_all
    have "2 ^ ?k = 2 ^ (7 - i) * (256::nat) ^ ?m" by (simp only: e kk(1) power_add) (rule mult.commute)
    also have "\<dots> \<le> unat (a XOR b) * 256 ^ ?m" using i(3) by simp
    finally have lo: "2 ^ ?k \<le> distance (a # as) (b # bs)" using d by simp
    have "distance (a # as) (b # bs) < unat (a XOR b) * 256 ^ ?m + 256 ^ ?m"
      using d distance_bound[OF len] by simp
    also have "\<dots> = (unat (a XOR b) + 1) * 256 ^ ?m" by simp
    also have "\<dots> \<le> 2 ^ (8 - i) * 256 ^ ?m" using i(4) by (intro mult_right_mono) simp_all
    also have "\<dots> = 2 ^ Suc ?k" by (simp only: e kk(2) power_add) (rule mult.commute)
    finally have hi: "distance (a # as) (b # bs) < 2 ^ Suc ?k" .
    have "int B - (int j * 8 + int i) - 1 = int ?k"
      using "3.prems"(2) i(1) by (simp add: B_def)
    then show ?thesis using i lo hi by (intro exI[of _ ?k]) simp
  qed
qed simp_all

lemma bucketIndex_log2:
  assumes "length a = 32" and "length b = 32" and "a \<noteq> b"
  shows "\<exists>i < 256. bucketIndex a b = Some (int i) \<and> 2 ^ i \<le> distance a b \<and> distance a b < 2 ^ Suc i"
  using bucketIndex_from_log2[of a b 0] assms by (simp add: bucketIndex_def)

lemma bucketIndex_range:
  assumes "length a = 32" and "length b = 32"
  obtains i where "bucketIndex a b = Some (int i)" and "i < 256"
  using bucketIndex_log2[OF assms] by (cases "a = b") auto

section \<open>Invariant\<close>

text \<open>What the routing table keeps true: the right shape, at most \<open>K\<close> nodes per bucket with
  distinct identifiers, every node in the bucket its hashed identifier selects, hashed identifiers
  that are the hash of the identifier, and never the local node itself.\<close>

definition bucket_ok :: "(bytes \<Rightarrow> bytes) \<Rightarrow> node \<Rightarrow> nat \<Rightarrow> node list \<Rightarrow> bool" where
  "bucket_ok H me i b \<longleftrightarrow> length b \<le> K \<and> distinct (map ID b) \<and>
     (\<forall>n\<in>set b. HashedID n = H (ID n) \<and> bucketIndex (HashedID me) (HashedID n) = Some (int i) \<and> ID n \<noteq> ID me)"

definition ht_inv :: "(bytes \<Rightarrow> bytes) \<Rightarrow> hash_table \<Rightarrow> bool" where
  "ht_inv H ht \<longleftrightarrow> length (routeTable ht) = B \<and> length (refreshers ht) = B \<and>
     HashedID (self ht) = H (ID (self ht)) \<and>
     (\<forall>i<B. bucket_ok H (self ht) i (routeTable ht ! i))"

lemma ht_inv_bucket: "ht_inv H ht \<Longrightarrow> i < B \<Longrightarrow> bucket_ok H (self ht) i (routeTable ht ! i)"
  by (simp add: ht_inv_def)

lemma bucket_at_Some: "bucket_at ht i = Some b \<longleftrightarrow> 0 \<le> i \<and> i < int (length (routeTable ht)) \<and> b = routeTable ht ! nat i"
  by (auto simp: bucket_at_def)

lemma bucket_at_int: "ht_inv H ht \<Longrightarrow> i < B \<Longrightarrow> bucket_at ht (int i) = Some (routeTable ht ! i)"
  by (simp add: bucket_at_def ht_inv_def)

lemma set_bucket_simps [simp]:
  "self (set_bucket ht i b) = self ht" "refreshers (set_bucket ht i b) = refreshers ht"
  "length (routeTable (set_bucket ht i b)) = length (routeTable ht)"
  by (simp_all add: set_bucket_def)

lemma set_bucket_inv [inv_intros]:
  "ht_inv H ht \<Longrightarrow> bucket_ok H (self ht) i b \<Longrightarrow> ht_inv H (set_bucket ht (int i) b)"
  by (auto simp: ht_inv_def set_bucket_def nth_list_update_if)

lemma reset_all_spec:
  "k \<le> length (refreshers ht) \<Longrightarrow> \<exists>ht'. reset_all now k ht = Some ht' \<and> self ht' = self ht
     \<and> routeTable ht' = routeTable ht \<and> length (refreshers ht') = length (refreshers ht)
     \<and> (\<forall>i<k. refreshers ht' ! i = now)"
proof (induction k)
  case (Suc k)
  then obtain ht' where "reset_all now k ht = Some ht'" "self ht' = self ht" "routeTable ht' = routeTable ht"
      "length (refreshers ht') = length (refreshers ht)" "\<forall>i<k. refreshers ht' ! i = now" by auto
  then show ?case using Suc.prems
    by (auto simp: resetRefreshTime_def nth_list_update less_Suc_eq)
qed simp

lemma NewHashTable_inv:
  "\<exists>ht. NewHashTable H now (Some i) ip port = Inr (Some ht) \<and> ht_inv H ht \<and> ID (self ht) = i
     \<and> totalCount ht = 0"
proof -
  let ?ht = "\<lparr>self = SetHashedID H (mk_node i ip port), routeTable = replicate B [], refreshers = replicate B 0\<rparr>"
  obtain ht where "reset_all now B ?ht = Some ht" "self ht = self ?ht" "routeTable ht = routeTable ?ht"
      "length (refreshers ht) = B" using reset_all_spec[of B ?ht now] by auto
  then show ?thesis
    by (intro exI[of _ ht])
       (simp add: NewHashTable_def ht_inv_def bucket_ok_def totalCount_def SetHashedID_def mk_node_def map_replicate_const sum_list_replicate)
qed

lemma resetRefreshTime_inv [inv_intros]:
  "ht_inv H ht \<Longrightarrow> resetRefreshTime now b ht = Some ht' \<Longrightarrow> ht_inv H ht'"
  by (auto simp: resetRefreshTime_def ht_inv_def split: if_splits)

lemma set_move_to_end: "k < length xs \<Longrightarrow> set (move_to_end k xs) = set xs"
  by (metis (no_types, lifting) move_to_end_def Cons_nth_drop_Suc append_take_drop_id insert_commute
      list.simps(15) set_append Un_insert_right Un_insert_left sup_bot.right_neutral empty_set)

lemma mset_move_to_end: "k < length xs \<Longrightarrow> mset (move_to_end k xs) = mset xs"
  by (metis (no_types, lifting) move_to_end_def id_take_nth_drop mset.simps(2) mset_append
      add_mset_add_single union_assoc union_commute mset_single_iff_right)

lemma bucket_ok_mset:
  assumes "mset b' = mset b" and "bucket_ok H me i b"
  shows "bucket_ok H me i b'"
proof -
  have "length b' = length b" "set b' = set b" using assms(1) by (metis size_mset, metis set_mset_mset)
  moreover have "distinct (map ID b') = distinct (map ID b)"
    by (rule mset_eq_imp_distinct_iff) (simp add: assms(1))
  ultimately show ?thesis using assms(2) by (auto simp: bucket_ok_def)
qed

lemma refreshNode_inv [inv_intros]:
  assumes "ht_inv H ht" and "refreshNode i ht = Some ht'"
  shows "ht_inv H ht'"
proof -
  from assms(2) obtain index bucket off where ix: "bucketIndex (HashedID (self ht)) i = Some index"
      and b: "bucket_at ht index = Some bucket" and off: "off < length bucket"
      and ht': "ht' = set_bucket ht index (move_to_end off bucket)"
    by (auto simp: refreshNode_def Let_def split: bind_splits if_splits)
  from b obtain k where k: "index = int k" "k < B" "bucket = routeTable ht ! k"
    using assms(1) by (auto simp: bucket_at_Some ht_inv_def dest: zero_le_imp_eq_int)
  with off assms(1) have "bucket_ok H (self ht) k (move_to_end off bucket)"
    by (metis bucket_ok_mset ht_inv_bucket mset_move_to_end)
  with k ht' assms(1) show ?thesis by (simp add: set_bucket_inv)
qed

lemma bucket_ok_remove_first: "bucket_ok H me i b \<Longrightarrow> bucket_ok H me i (remove_first P b)"
  using set_remove_first_subset[of P b]
  by (auto simp: bucket_ok_def distinct_remove_first length_remove_first)

lemma RemoveNode_inv [inv_intros]:
  assumes "ht_inv H ht" and "RemoveNode index i ht = Some (r, ht')"
  shows "ht_inv H ht'"
proof -
  from assms(2) obtain bucket where b: "bucket_at ht index = Some bucket"
      and ht': "ht' = ht \<or> ht' = set_bucket ht index (remove_first (\<lambda>n. ID n = i) bucket)"
    by (auto simp: RemoveNode_def split: if_splits)
  from b obtain k where "index = int k" "k < B" "bucket = routeTable ht ! k"
    using assms(1) by (auto simp: bucket_at_Some ht_inv_def dest: zero_le_imp_eq_int)
  with ht' assms(1) show ?thesis
    by (auto intro!: set_bucket_inv bucket_ok_remove_first ht_inv_bucket)
qed

section \<open>Lookups of the closest contacts\<close>

lemma ht_inv_distinct:
  assumes "ht_inv H ht"
  shows "distinct (map ID (ht_nodes ht))"
proof -
  have ok: "bucket_ok H (self ht) i (routeTable ht ! i)" if "i < length (routeTable ht)" for i
    using assms that by (simp add: ht_inv_def)
  have "distinct (concat (map (map ID) (routeTable ht)))"
  proof (rule distinct_concat_nth)
    fix i j assume ij: "i < j" "j < length (map (map ID) (routeTable ht))"
    then have "bucket_ok H (self ht) i (routeTable ht ! i)" "bucket_ok H (self ht) j (routeTable ht ! j)"
      using ok by simp_all
    then have "ID n \<noteq> ID m" if "n \<in> set (routeTable ht ! i)" "m \<in> set (routeTable ht ! j)" for n m
      using that ij(1) by (force simp: bucket_ok_def)
    then show "set (map (map ID) (routeTable ht) ! i) \<inter> set (map (map ID) (routeTable ht) ! j) = {}"
      using ij by auto
  qed (use ok in \<open>simp add: bucket_ok_def\<close>)
  then show ?thesis by (simp add: ht_nodes_def map_concat)
qed

lemma ht_nodes_bucket:
  assumes "ht_inv H ht" and "n \<in> set (ht_nodes ht)"
  obtains i where "i < B" and "n \<in> set (routeTable ht ! i)" and "bucket_ok H (self ht) i (routeTable ht ! i)"
proof -
  from assms(2) obtain b where "b \<in> set (routeTable ht)" "n \<in> set b" by (auto simp: ht_nodes_def)
  then obtain i where "i < length (routeTable ht)" "n \<in> set (routeTable ht ! i)" by (auto simp: in_set_conv_nth)
  then show ?thesis using that assms(1) by (auto simp: ht_inv_def)
qed

lemma ht_inv_hashed:
  assumes "ht_inv H ht" and "n \<in> set (ht_nodes ht)"
  shows "HashedID n = H (ID n) \<and> ID n \<noteq> ID (self ht)"
  using ht_nodes_bucket[OF assms] by (metis bucket_ok_def)

lemma totalCount_bound:
  assumes "ht_inv H ht"
  shows "totalCount ht \<le> B * K"
proof -
  have "\<And>b. b \<in> set (routeTable ht) \<Longrightarrow> length b \<le> K"
    using assms by (auto simp: ht_inv_def bucket_ok_def in_set_conv_nth)
  then have "sum_list (map length (routeTable ht)) \<le> sum_list (map (\<lambda>_. K) (routeTable ht))"
    by (rule sum_list_mono)
  then show ?thesis using assms by (simp add: totalCount_def ht_inv_def sum_list_triv)
qed

lemma fold_ignore:
  "fold (\<lambda>n nl. if P n then nl else AddNodes [n] nl) ns s = AddNodes (filter (\<lambda>n. \<not> P n) ns) s"
  by (induction ns arbitrary: s) auto

definition eligible :: "node list \<Rightarrow> hash_table \<Rightarrow> node list" where
  "eligible ign ht = filter (\<lambda>n. ID n \<notin> ID ` set ign) (ht_nodes ht)"

lemma closestContacts_eq:
  assumes "ht_inv H ht"
  shows "closestContacts num target ign ht =
    (\<lparr>nl_Nodes = take num (sort_key (node_dist target) (eligible ign ht)), Comparator = target\<rparr>, totalCount ht)"
proof -
  let ?s = "\<lparr>nl_Nodes = [], Comparator = target\<rparr>"
  have e: "filter (\<lambda>n. str_of_bytes (ID n) \<notin> (\<lambda>n. str_of_bytes (ID n)) ` set ign) (ht_nodes ht) = eligible ign ht"
    unfolding eligible_def by (rule filter_cong) (auto simp: image_iff)
  have "distinct (map ID (eligible ign ht))"
    using ht_inv_distinct[OF assms] by (simp add: eligible_def distinct_map_filter)
  then have "AddNodes (eligible ign ht) ?s = \<lparr>nl_Nodes = eligible ign ht, Comparator = target\<rparr>"
    using AddNodes_distinct[of "eligible ign ht" ?s] by (intro node_list.equality) simp_all
  then show ?thesis
    by (auto simp: closestContacts_def Let_def fold_ignore e[unfolded ht_nodes_def] TopN_take totalCount_def
        length_concat nl_Sort_def intro!: node_list.equality)
qed

lemma ignored_hex_never_matches:
  assumes "\<forall>n\<in>set (ht_nodes ht). \<forall>m\<in>set ign. length (ID n) \<noteq> 2 * length (ID m)" and "n \<in> set (ht_nodes ht)"
  shows "str_of_bytes (ID n) \<notin> (\<lambda>n. hex_encode (ID n)) ` set ign"
proof
  assume "str_of_bytes (ID n) \<in> (\<lambda>n. hex_encode (ID n)) ` set ign"
  then obtain m where "m \<in> set ign" "str_of_bytes (ID n) = hex_encode (ID m)" by blast
  then show False using assms by (metis length_hex_encode length_str_of_bytes)
qed

section \<open>Properties\<close>

text \<open>C2. The bucket of a node is the position of the highest bit in which the identifiers differ: for
  different 32-byte identifiers the bucket index is the whole part of the binary logarithm of their
  XOR distance, a valid bucket number, and the scan never runs out of range.\<close>

theorem bucketIndex_is_log_distance:
  assumes "length a = 32" and "length b = 32" and "a \<noteq> b"
  shows "\<exists>i < B. bucketIndex a b = Some (int i) \<and> 2 ^ i \<le> distance a b \<and> distance a b < 2 ^ Suc i"
  using bucketIndex_log2[OF assms] by (simp add: B_def)

theorem bucketIndex_is_log_distance_witness:
  "\<exists>i < B. bucketIndex (replicate 32 0) (replicate 31 0 @ [5]) = Some (int i) \<and> distance (replicate 32 0) (replicate 31 0 @ [5]) < 2 ^ Suc i"
proof -
  have "replicate 32 0 \<noteq> replicate 31 (0::byte) @ [5]" by code_simp
  with bucketIndex_is_log_distance[of "replicate 32 0" "replicate 31 0 @ [5]"] show ?thesis by auto
qed

text \<open>C1. \<^verbatim>\<open>closestContacts\<close> returns the closest nodes: on a table that satisfies the invariant the
  result is sorted by XOR distance to the target, has distinct identifiers, consists of nodes of the
  table that are not ignored, as many as asked for or all there are, and no eligible node left out
  is closer than one returned; the second result is the size of the table.\<close>

theorem closestContacts_correct:
  fixes ht :: hash_table and num :: nat and target :: bytes and ign :: "node list"
  assumes "ht_inv H ht"
  defines "r \<equiv> nl_Nodes (fst (closestContacts num target ign ht))"
  shows "set r \<subseteq> set (ht_nodes ht) \<and> ID ` set r \<inter> ID ` set ign = {} \<and> distinct (map ID r)
    \<and> sorted (map (node_dist target) r)
    \<and> length r = min num (card {n \<in> set (ht_nodes ht). ID n \<notin> ID ` set ign})
    \<and> (\<forall>x\<in>set r. \<forall>y\<in>set (ht_nodes ht). ID y \<notin> ID ` set ign \<longrightarrow> y \<notin> set r \<longrightarrow> node_dist target x \<le> node_dist target y)
    \<and> snd (closestContacts num target ign ht) = totalCount ht"
proof -
  let ?f = "node_dist target" and ?e = "eligible ign ht"
  have r: "r = take num (sort_key ?f ?e)" "snd (closestContacts num target ign ht) = totalCount ht"
    using closestContacts_eq[OF assms(1), of num target ign] by (simp_all add: r_def)
  have e: "set ?e = {n \<in> set (ht_nodes ht). ID n \<notin> ID ` set ign}" by (auto simp: eligible_def)
  have de: "distinct (map ID ?e)" using ht_inv_distinct[OF assms(1)] by (simp add: eligible_def distinct_map_filter)
  then have "distinct (map ID (sort_key ?f ?e))" by (simp add: go_sort.distinct_sorter)
  then have d: "distinct (map ID r)" unfolding r(1) by (simp add: distinct_take flip: take_map)
  have sub: "set r \<subseteq> set ?e" unfolding r(1) by (metis set_sort set_take_subset)
  have "length r = min num (length ?e)" unfolding r(1) by (simp add: min.commute)
  moreover have "length ?e = card (set ?e)" using de by (metis distinct_card distinct_map)
  moreover have "node_dist target x \<le> node_dist target y"
    if "x \<in> set r" "y \<in> set ?e" "y \<notin> set r" for x y
  proof -
    have "y \<in> set (drop num (sort_key ?f ?e))"
      using that(2,3) unfolding r(1) by (metis Un_iff append_take_drop_id set_append set_sort)
    with that(1) show ?thesis unfolding r(1) by (rule go_sort.take_sorter_closest)
  qed
  moreover have "sorted (map ?f r)" unfolding r(1) by (simp add: sorted_wrt_take flip: take_map)
  ultimately show ?thesis using d sub e r(2) by auto
qed

definition wit_hash :: "bytes \<Rightarrow> bytes" where
  "wit_hash x = replicate 31 0 @ [if x = [] then 0 else hd x]"

definition wit_contact :: "byte \<Rightarrow> node" where
  "wit_contact b = \<lparr>ID = [b], IP = '''', Port = 1, HashedID = replicate 31 0 @ [b]\<rparr>"

definition wit_contacts :: hash_table where
  "wit_contacts = \<lparr>self = wit_contact 9, routeTable = [wit_contact 8] # [] # [] # [wit_contact 7] # replicate 252 [], refreshers = replicate 256 0\<rparr>"

lemma wit_contacts_inv: "ht_inv wit_hash wit_contacts"
proof -
  have i: "bucketIndex (replicate 31 0 @ [9]) (replicate 31 0 @ [8]) = Some 0" "bucketIndex (replicate 31 0 @ [9]) (replicate 31 0 @ [7]) = Some 3"
    by code_simp+
  have b: "bucket_ok wit_hash (wit_contact 9) 0 [wit_contact 8]" "bucket_ok wit_hash (wit_contact 9) 3 [wit_contact 7]" "bucket_ok wit_hash (wit_contact 9) j []" for j
    by (simp_all add: bucket_ok_def wit_contact_def wit_hash_def i K_def)
  have "bucket_ok wit_hash (wit_contact 9) j (routeTable wit_contacts ! j)" if "j < 256" for j
    using that b by (auto simp: wit_contacts_def nth_Cons numeral_3_eq_3 split: nat.splits)
  then show ?thesis by (simp add: ht_inv_def B_def wit_contacts_def) (simp add: wit_contact_def wit_hash_def)
qed

theorem closestContacts_correct_witness:
  "nl_Nodes (fst (closestContacts 1 (replicate 31 0 @ [6]) [] wit_contacts)) = [wit_contact 7]
   \<and> nl_Nodes (fst (closestContacts 6 (replicate 31 0 @ [6]) [wit_contact 7] wit_contacts)) = [wit_contact 8]"
proof -
  let ?a = "wit_contact 8" and ?b = "wit_contact 7"
  define t where "t = (replicate 31 0 @ [6] :: bytes)"
  have tab: "set (ht_nodes wit_contacts) = {?a, ?b}" by (auto simp: ht_nodes_def wit_contacts_def)
  have n: "?a \<noteq> ?b" "ID ?a = [8]" "ID ?b = [7]" by (simp_all add: wit_contact_def)
  have x: "distance (replicate m 0 @ [a]) (replicate m 0 @ [b]) = unat (a XOR b)" for m a b
    by (induction m) (simp_all add: distance_Cons distance_def unsigned_xor_eq)
  have "(8 :: byte) XOR 6 = 14" "(7 :: byte) XOR 6 = 1" by code_simp+
  then have d: "\<not> node_dist t ?a \<le> node_dist t ?b" by (simp only: node_dist_def t_def wit_contact_def node.simps x) simp
  note R = closestContacts_correct[OF wit_contacts_inv, unfolded tab]
  let ?r = "nl_Nodes (fst (closestContacts 1 t [] wit_contacts))" and ?q = "nl_Nodes (fst (closestContacts 6 t [?b] wit_contacts))"
  have r: "set ?r \<subseteq> {?a, ?b}" using R[of 1 t "[]"] by (elim conjE)
  have r2: "length ?r = min 1 (card {x \<in> {?a, ?b}. ID x \<notin> ID ` set ([] :: node list)})" using R[of 1 t "[]"] by (elim conjE)
  have r3: "\<forall>x\<in>set ?r. \<forall>y\<in>{?a, ?b}. ID y \<notin> ID ` set ([] :: node list) \<longrightarrow> y \<notin> set ?r \<longrightarrow> node_dist t x \<le> node_dist t y" using R[of 1 t "[]"] by (elim conjE)
  have "{x \<in> {?a, ?b}. ID x \<notin> ID ` set ([] :: node list)} = {?a, ?b}" by auto
  then have "length ?r = 1" using r2 n(1) by simp
  then obtain z where z: "?r = [z]" by (metis One_nat_def length_0_conv length_Suc_conv)
  have "z = ?b" using r r3 n(1) d unfolding z by auto
  have q: "set ?q \<subseteq> {?a, ?b}" using R[of 6 t "[?b]"] by (elim conjE)
  have q2: "ID ` set ?q \<inter> ID ` set [?b] = {}" using R[of 6 t "[?b]"] by (elim conjE)
  have q3: "length ?q = min 6 (card {x \<in> {?a, ?b}. ID x \<notin> ID ` set [?b]})" using R[of 6 t "[?b]"] by (elim conjE)
  have "{x \<in> {?a, ?b}. ID x \<notin> ID ` set [?b]} = {?a}" using n by auto
  then have "length ?q = 1" using q3 by simp
  then obtain y where y: "?q = [y]" by (metis One_nat_def length_0_conv length_Suc_conv)
  have "y = ?a" using q q2 n unfolding y by auto
  then show ?thesis using z y \<open>z = ?b\<close> unfolding t_def by simp
qed

text \<open>The two lookups that also take nodes to include ignore nobody: their ignore map is keyed by
  the hexadecimal text of the identifiers and looked up with the raw identifiers, so unless some
  identifier is twice as long as an ignored one the ignore list has no effect.\<close>

theorem including_lookups_ignore_nobody:
  assumes "\<forall>n\<in>set (ht_nodes ht). \<forall>m\<in>set ign. length (ID n) \<noteq> 2 * length (ID m)"
  shows "closestContactsWithInlcudingNode num target ign inc ht = closestContactsWithInlcudingNode num target [] inc ht
    \<and> closestContactsWithIncludingNodeList num target ign incs ht = closestContactsWithIncludingNodeList num target [] incs ht"
proof -
  have "filter (\<lambda>n. str_of_bytes (ID n) \<notin> (\<lambda>n. hex_encode (ID n)) ` set ign) (concat (routeTable ht)) = concat (routeTable ht)"
    using ignored_hex_never_matches[OF assms] by (simp add: filter_id_conv ht_nodes_def)
  then show ?thesis
    by (simp add: closestContactsWithInlcudingNode_def closestContactsWithIncludingNodeList_def fold_ignore)
qed

definition wit_table :: hash_table where
  "wit_table = \<lparr>self = mk_node [9] [] 1, routeTable = [[mk_node [1] [] 1]], refreshers = [0]\<rparr>"

theorem including_lookups_ignore_nobody_witness:
  "nl_Nodes (closestContactsWithIncludingNodeList 6 [] [mk_node [1] [] 1] [] wit_table) = [mk_node [1] [] 1]"
  using including_lookups_ignore_nobody[of wit_table "[mk_node [1] [] 1]" 6 "[]" None "[]"]
  by (simp add: wit_table_def ht_nodes_def closestContactsWithIncludingNodeList_def nl_Sort_def TopN_def nl_Len_def
      nl_exists_def mk_node_def)

end
