(* ===== verification/BanList.thy ===== *)
theory BanList
  imports Nodes
begin

text \<open>
  The list of misbehaving nodes (\<^verbatim>\<open>p2p/kademlia/banlist.go\<close>): every failure of a node counts
  up, a count above the threshold bans the node, entries expire three hours after they were created.
  The clock reading of an operation is its argument \<open>now\<close>.
\<close>

section \<open>State\<close>

definition banDuration :: int where "banDuration = hours 3"
definition threshold :: int where "threshold = 3"

record ban_node =
  bn_Node :: node
  CreatedAt :: timestamp
  ban_count :: int

type_synonym ban_list = "ban_node list"

abbreviation bn_ID :: "ban_node \<Rightarrow> bytes" where
  "bn_ID b \<equiv> ID (bn_Node b)"

section \<open>Operations\<close>

definition AddWithCreatedAt :: "node \<Rightarrow> timestamp \<Rightarrow> int \<Rightarrow> ban_list \<Rightarrow> ban_list" where
  "AddWithCreatedAt n createdAt cnt s =
     s @ [\<lparr>bn_Node = mk_node (ID n) (IP n) (Port n), CreatedAt = createdAt, ban_count = cnt\<rparr>]"

definition bl_Add :: "timestamp \<Rightarrow> node \<Rightarrow> ban_list \<Rightarrow> ban_list" where
  "bl_Add now n s =
     s @ [\<lparr>bn_Node = mk_node (ID n) (IP n) (Port n), CreatedAt = now, ban_count = 1\<rparr>]"

definition IncrementCount :: "timestamp \<Rightarrow> node \<Rightarrow> ban_list \<Rightarrow> ban_list" where
  "IncrementCount now n s =
     (case find_index (\<lambda>b. bn_ID b = ID n) s of
        Some i \<Rightarrow> s[i := (s ! i)\<lparr>ban_count := ban_count (s ! i) + 1\<rparr>]
      | None \<Rightarrow> s @ [\<lparr>bn_Node = mk_node (ID n) (IP n) (Port n), CreatedAt = now, ban_count = 1\<rparr>])"

fun Banned :: "ban_list \<Rightarrow> node \<Rightarrow> bool" where
  "Banned [] n = False"
| "Banned (item # s) n = (if bn_ID item = ID n then ban_count item > threshold else Banned s n)"

definition bl_Exists :: "ban_list \<Rightarrow> node \<Rightarrow> bool" where
  "bl_Exists s n = list_ex (\<lambda>item. bn_ID item = ID n) s"

definition bl_Delete :: "node \<Rightarrow> ban_list \<Rightarrow> ban_list" where
  "bl_Delete n s =
     (case find_index (\<lambda>b. bn_ID b = ID n) s of
        Some i \<Rightarrow> if i + 1 < length s then take i s @ drop (i + 1) s else take i s
      | None \<Rightarrow> s)"

definition expired :: "timestamp \<Rightarrow> ban_node \<Rightarrow> bool" where
  "expired now b = (now > CreatedAt b + banDuration)"

text \<open>The loop of \<^verbatim>\<open>Purge\<close>: after a removal in the middle the index is stepped back.\<close>

function purge_loop :: "timestamp \<Rightarrow> nat \<Rightarrow> ban_list \<Rightarrow> ban_list" where
  "purge_loop now i s =
     (if i < length s then
        if expired now (s ! i) then
          if i + 1 < length s then purge_loop now i (take i s @ drop (i + 1) s)
          else purge_loop now (i + 1) (take i s)
        else purge_loop now (i + 1) s
      else s)"
  by pat_completeness auto
termination
  by (relation "measure (\<lambda>(now, i, s). length s - i)") auto

declare purge_loop.simps [simp del]

definition Purge :: "timestamp \<Rightarrow> ban_list \<Rightarrow> ban_list" where
  "Purge now s = purge_loop now 0 s"

definition ToNodeList :: "ban_list \<Rightarrow> node list" where
  "ToNodeList s = map bn_Node (filter (\<lambda>b. ban_count b > threshold) s)"

definition bl_String :: "ban_list \<Rightarrow> string" where
  "bl_String s = join_with '','' (map (\<lambda>b. node_String (bn_Node b)) s)"

section \<open>Invariant and the counter view\<close>

definition bl_wf :: "ban_list \<Rightarrow> bool" where
  "bl_wf s \<longleftrightarrow> distinct (map bn_ID s) \<and> (\<forall>b\<in>set s. 1 \<le> ban_count b)"

text \<open>The abstract state: the number of failures recorded for an identifier.\<close>

fun fail_count :: "ban_list \<Rightarrow> bytes \<Rightarrow> int" where
  "fail_count [] i = 0"
| "fail_count (b # s) i = (if bn_ID b = i then ban_count b else fail_count s i)"

lemma IncrementCount_Cons:
  "IncrementCount now n (b # s) =
     (if bn_ID b = ID n then b\<lparr>ban_count := ban_count b + 1\<rparr> # s else b # IncrementCount now n s)"
  by (auto simp: IncrementCount_def split: option.splits)

lemma IncrementCount_Nil:
  "IncrementCount now n [] = [\<lparr>bn_Node = mk_node (ID n) (IP n) (Port n), CreatedAt = now, ban_count = 1\<rparr>]"
  by (simp add: IncrementCount_def)

lemma IncrementCount_ids:
  "map bn_ID (IncrementCount now n s) =
     (if ID n \<in> set (map bn_ID s) then map bn_ID s else map bn_ID s @ [ID n])"
  by (induction s) (auto simp: IncrementCount_Nil IncrementCount_Cons mk_node_def)

lemma IncrementCount_counts: "\<forall>b\<in>set s. 1 \<le> ban_count b \<Longrightarrow> \<forall>b\<in>set (IncrementCount now n s). 1 \<le> ban_count b"
  by (induction s) (auto simp: IncrementCount_Nil IncrementCount_Cons)

lemma IncrementCount_wf [inv_intros]: "bl_wf s \<Longrightarrow> bl_wf (IncrementCount now n s)"
  using IncrementCount_counts[of s now n] by (auto simp: bl_wf_def IncrementCount_ids)

lemma bl_Delete_filter: "distinct (map bn_ID s) \<Longrightarrow> bl_Delete n s = filter (\<lambda>b. bn_ID b \<noteq> ID n) s"
proof (induction s)
  case (Cons b s)
  have "bl_Delete n (b # s) = (if bn_ID b = ID n then s else b # bl_Delete n s)"
    by (cases s) (auto simp: bl_Delete_def split: option.splits)
  moreover have "filter (\<lambda>b. bn_ID b \<noteq> ID n) s = s" if "bn_ID b = ID n"
    using Cons.prems that by (fastforce simp: filter_id_conv image_iff)
  ultimately show ?case using Cons by simp
qed (simp add: bl_Delete_def)

lemma bl_Delete_wf [inv_intros]: "bl_wf s \<Longrightarrow> bl_wf (bl_Delete n s)"
  by (simp add: bl_wf_def bl_Delete_filter distinct_map_filter)

lemma purge_loop_filter:
  "i \<le> length s \<Longrightarrow> purge_loop now i s = take i s @ filter (\<lambda>b. \<not> expired now b) (drop i s)"
proof (induction now i s rule: purge_loop.induct)
  case (1 now i s)
  show ?case
  proof (cases "i < length s")
    case False
    then show ?thesis using 1 by (subst purge_loop.simps) simp
  next
    case i: True
    have d: "drop i s = s ! i # drop (Suc i) s" using i by (simp add: Cons_nth_drop_Suc)
    have t: "take (Suc i) s = take i s @ [s ! i]" using i by (simp add: take_Suc_conv_app_nth)
    show ?thesis
    proof (cases "expired now (s ! i)")
      case False
      then show ?thesis using 1(3) i by (subst purge_loop.simps) (simp add: d t)
    next
      case ex: True
      show ?thesis
      proof (cases "i + 1 < length s")
        case True
        then show ?thesis using 1(1) i ex by (subst purge_loop.simps) (simp add: d)
      next
        case False
        then have "drop (Suc i) s = []" by simp
        moreover have "purge_loop now (i + 1) (take i s) = take i s" by (subst purge_loop.simps) simp
        ultimately show ?thesis using False i ex by (subst purge_loop.simps) (simp add: d)
      qed
    qed
  qed
qed

lemma Purge_filter: "Purge now s = filter (\<lambda>b. \<not> expired now b) s"
  by (simp add: Purge_def purge_loop_filter)

lemma Purge_wf [inv_intros]: "bl_wf s \<Longrightarrow> bl_wf (Purge now s)"
  by (simp add: bl_wf_def Purge_filter distinct_map_filter)

lemma Banned_fail_count: "Banned s n \<longleftrightarrow> fail_count s (ID n) > threshold"
  by (induction s) (auto simp: threshold_def)

lemma fail_count_IncrementCount:
  "fail_count (IncrementCount now n s) i = (if i = ID n then fail_count s i + 1 else fail_count s i)"
  by (induction s) (auto simp: IncrementCount_Nil IncrementCount_Cons mk_node_def)

lemma fail_count_absent: "i \<notin> set (map bn_ID s) \<Longrightarrow> fail_count s i = 0"
  by (induction s) auto

lemma fail_count_filter:
  "fail_count (filter (\<lambda>b. P (bn_ID b)) s) i = (if P i then fail_count s i else 0)"
  by (induction s) auto

lemma ToNodeList_Banned:
  assumes "bl_wf s"
  shows "i \<in> ID ` set (ToNodeList s) \<longleftrightarrow> fail_count s i > threshold"
proof -
  have "distinct (map bn_ID s) \<Longrightarrow> i \<in> ID ` set (ToNodeList s) \<longleftrightarrow> fail_count s i > threshold"
  proof (induction s)
    case (Cons b s)
    show ?case
    proof (cases "bn_ID b = i")
      case True
      with Cons.prems have "i \<notin> bn_ID ` set s" by auto
      then have "i \<notin> ID ` set (ToNodeList s)" by (auto simp: ToNodeList_def)
      with True show ?thesis by (auto simp: ToNodeList_def)
    next
      case False
      with Cons show ?thesis by (auto simp: ToNodeList_def)
    qed
  qed (simp add: ToNodeList_def threshold_def)
  then show ?thesis using assms by (simp add: bl_wf_def)
qed

section \<open>The interface the DHT relies on\<close>

text \<open>A failure register: reporting a failure adds one to the count of that identifier and of no
  other, and a node is banned exactly when its count is above the limit.\<close>

locale failure_register =
  fixes report :: "'e \<Rightarrow> 's \<Rightarrow> 's" and who :: "'e \<Rightarrow> bytes"
    and count :: "'s \<Rightarrow> bytes \<Rightarrow> int" and banned :: "'s \<Rightarrow> node \<Rightarrow> bool" and limit :: int
  assumes count_report: "count (report e s) i = (if i = who e then count s i + 1 else count s i)"
    and banned_count: "banned s n \<longleftrightarrow> count s (ID n) > limit"
begin

lemma count_reports: "count (fold report es s) i = count s i + int (length (filter (\<lambda>e. who e = i) es))"
  by (induction es arbitrary: s) (auto simp: count_report)

lemma banned_after_reports:
  "banned (fold report es s) n \<longleftrightarrow> count s (ID n) + int (length (filter (\<lambda>e. who e = ID n) es)) > limit"
  by (simp add: banned_count count_reports)

lemma banned_mono: "banned s n \<Longrightarrow> banned (fold report es s) n"
  by (simp add: banned_count count_reports)

end

interpretation bans: failure_register
  "\<lambda>(now, n). IncrementCount now n" "\<lambda>(now, n). ID n" fail_count Banned threshold
  by unfold_locales (auto simp: fail_count_IncrementCount Banned_fail_count split: prod.splits)

section \<open>Properties\<close>

text \<open>\<^verbatim>\<open>Purge\<close>, whose loop deletes in place and steps its index back, keeps exactly the
  entries that are not older than the ban duration, in their order.\<close>

theorem Purge_correct:
  "Purge now s = filter (\<lambda>b. now \<le> CreatedAt b + banDuration) s"
  by (auto simp: Purge_filter expired_def intro: filter_cong)

text \<open>Starting from an empty ban list, after any sequence of failure reports a node is banned
  exactly when more than \<^verbatim>\<open>threshold\<close> of the reports were about its identifier; reports about
  other nodes never ban it.\<close>

theorem Banned_after_failures:
  "Banned (fold (\<lambda>(now, m). IncrementCount now m) reports []) n
     \<longleftrightarrow> length (filter (\<lambda>(now, m). ID m = ID n) reports) > 3"
  using bans.banned_after_reports[of reports "[]" n]
  by (simp add: threshold_def case_prod_unfold)

text \<open>In a well-formed ban list, deleting a node clears its ban and leaves the failure count of
  every other identifier unchanged, and the nodes \<^verbatim>\<open>ToNodeList\<close> returns are exactly the banned
  ones.\<close>

lemma bl_Delete_unbans:
  assumes "bl_wf s"
  shows "bl_wf (bl_Delete n s) \<and> \<not> Banned (bl_Delete n s) n \<and> \<not> bl_Exists (bl_Delete n s) n
    \<and> (\<forall>i. i \<noteq> ID n \<longrightarrow> fail_count (bl_Delete n s) i = fail_count s i)
    \<and> (\<forall>m. ID m \<in> ID ` set (ToNodeList s) \<longleftrightarrow> Banned s m)"
proof -
  have "bl_Delete n s = filter (\<lambda>b. bn_ID b \<noteq> ID n) s"
    using assms by (simp add: bl_wf_def bl_Delete_filter)
  then show ?thesis
    using assms bl_Delete_wf[OF assms, of n]
    by (auto simp: Banned_fail_count fail_count_filter[where P = "\<lambda>i. i \<noteq> ID n"] threshold_def
        bl_Exists_def list_ex_iff ToNodeList_Banned[unfolded threshold_def])
qed

definition wit_node :: "nat \<Rightarrow> node" where
  "wit_node k = mk_node [word_of_nat k] ''10.0.0.1'' 4445"

theorem bl_Delete_unbans_witness:
  "\<not> Banned (bl_Delete (wit_node 1) ((IncrementCount 0 (wit_node 1) ^^ 4) [])) (wit_node 1)
   \<and> Banned ((IncrementCount 0 (wit_node 1) ^^ 4) []) (wit_node 1)"
proof -
  have "bl_wf ((IncrementCount 0 (wit_node 1) ^^ 4) [])"
    by (simp add: numeral_eq_Suc IncrementCount_Nil IncrementCount_Cons bl_wf_def wit_node_def mk_node_def)
  from bl_Delete_unbans[OF this, of "wit_node 1"] show ?thesis
    by (simp add: numeral_eq_Suc IncrementCount_Nil IncrementCount_Cons threshold_def wit_node_def mk_node_def)
qed

end
