(* ===== verification/Message.thy ===== *)
theory Message
  imports Nodes
begin

text \<open>
  The wire messages of the DHT (\<^verbatim>\<open>p2p/kademlia/message.go\<close>): the message types and payloads, and
  the framing, an 8-byte header holding the length of the body as a varint and then the body.  The
  body is encoded by \<^verbatim>\<open>encoding/gob\<close>, whose encoder and decoder are the parameters \<open>gob\<close> and
  \<open>ungob\<close>.
\<close>

section \<open>Messages\<close>

definition Ping :: int where "Ping = 0"
definition StoreData :: int where "StoreData = 1"
definition FindNode :: int where "FindNode = 2"
definition FindValue :: int where "FindValue = 3"
definition Replicate :: int where "Replicate = 4"
definition BatchFindValues :: int where "BatchFindValues = 5"
definition BatchStoreData :: int where "BatchStoreData = 6"
definition BatchFindNode :: int where "BatchFindNode = 7"
definition BatchGetValues :: int where "BatchGetValues = 8"

lemmas message_types =
  Ping_def StoreData_def FindNode_def FindValue_def Replicate_def BatchFindValues_def
  BatchStoreData_def BatchFindNode_def BatchGetValues_def

definition ResultOk :: int where "ResultOk = 0"
definition ResultFailed :: int where "ResultFailed = 1"

record response_status =
  Result :: int
  ErrMsg :: string

record key_val_with_closest =
  kv_Value :: bytes
  kv_Closest :: "node list"

type_synonym kv_map = "(string \<times> key_val_with_closest) list"

datatype payload =
    NoData
  | FindNodeRequest bytes
  | FindNodeResponse response_status "node list"
  | FindValueRequest bytes
  | FindValueResponse response_status "node list" bytes
  | StoreDataRequest bytes int
  | StoreDataResponse response_status
  | ReplicateDataRequest "string list"
  | ReplicateDataResponse response_status
  | BatchFindValuesRequest "string list"
  | BatchFindValuesResponse response_status bytes bool
  | BatchStoreDataRequest "bytes list" int
  | BatchFindNodeRequest "bytes list"
  | BatchFindNodeResponse response_status "(string \<times> node list) list"
  | BatchGetValuesRequest kv_map
  | BatchGetValuesResponse kv_map response_status

record message =
  Sender :: "node option"
  Receiver :: "node option"
  MessageType :: int
  Data :: payload

section \<open>Framing\<close>

definition defaultMaxPayloadSize :: nat where "defaultMaxPayloadSize = 200"

text \<open>\<^verbatim>\<open>utils.BytesIntToMB\<close> rounds up.  The division by \<open>2 ^ 20\<close> is exact in floating
  point, so whole-number division computes it.  \<^verbatim>\<open>utils.BytesToMB\<close> is compared with a whole
  number of megabytes only.\<close>

definition BytesIntToMB :: "nat \<Rightarrow> nat" where
  "BytesIntToMB b = (b + 1048575) div 1048576"

definition BytesToMB_gt :: "nat \<Rightarrow> nat \<Rightarrow> bool" where
  "BytesToMB_gt b mb = (b > mb * 1048576)"

definition put_uvarint8 :: "nat \<Rightarrow> bytes" where
  "put_uvarint8 n = uvarint n @ replicate (8 - length (uvarint n)) 0"

definition encode :: "(message \<Rightarrow> bytes result) \<Rightarrow> message \<Rightarrow> bytes result" where
  "encode gob m = (
     case gob m of
       Inl e \<Rightarrow> Inl e
     | Inr buf \<Rightarrow>
         if BytesIntToMB (length buf) > defaultMaxPayloadSize then errorf ''payload too big''
         else Inr (put_uvarint8 (length buf) @ buf))"

text \<open>\<^verbatim>\<open>io.ReadFull\<close> on the bytes still to come: the bytes read and the rest.\<close>

definition read_full :: "nat \<Rightarrow> bytes \<Rightarrow> (bytes \<times> bytes) result" where
  "read_full n s = (if n \<le> length s then Inr (take n s, drop n s)
     else if s = [] then errorf ''EOF'' else errorf ''unexpected EOF'')"

definition decode :: "(bytes \<Rightarrow> message result) \<Rightarrow> bytes \<Rightarrow> (message \<times> bytes) result" where
  "decode ungob s = (
     case read_full 8 s of
       Inl e \<Rightarrow> Inl e
     | Inr (header, s1) \<Rightarrow>
         (case read_uvarint 0 0 header of
            Inl e \<Rightarrow> Inl (''parse header length: '' @ e)
          | Inr len \<Rightarrow>
              if BytesToMB_gt len defaultMaxPayloadSize then errorf ''payload too big''
              else
                (case read_full len s1 of
                   Inl e \<Rightarrow> Inl e
                 | Inr (data, s2) \<Rightarrow>
                     (case ungob data of Inl e \<Rightarrow> Inl e | Inr m \<Rightarrow> Inr (m, s2)))))"

text \<open>A connection handler decodes one message after the other from the stream.\<close>

fun decode_n :: "nat \<Rightarrow> (bytes \<Rightarrow> message result) \<Rightarrow> bytes \<Rightarrow> (message list \<times> bytes) result" where
  "decode_n 0 ungob s = Inr ([], s)"
| "decode_n (Suc k) ungob s =
     (case decode ungob s of
        Inl e \<Rightarrow> Inl e
      | Inr (m, s') \<Rightarrow>
          (case decode_n k ungob s' of Inl e \<Rightarrow> Inl e | Inr (ms, s'') \<Rightarrow> Inr (m # ms, s'')))"

section \<open>Lemmas\<close>

lemma too_big_agree: "BytesIntToMB n > m \<longleftrightarrow> BytesToMB_gt n m"
proof -
  have "BytesIntToMB n \<le> m \<longleftrightarrow> n + 1048575 < Suc m * 1048576"
    unfolding BytesIntToMB_def by (metis div_less_iff_less_mult less_Suc_eq_le zero_less_numeral)
  then show ?thesis by (auto simp: BytesToMB_gt_def)
qed

lemma max_payload_varint:
  assumes "\<not> BytesToMB_gt n defaultMaxPayloadSize"
  shows "length (uvarint n) \<le> 4"
  using assms uvarint_length[of n 3] by (simp add: BytesToMB_gt_def defaultMaxPayloadSize_def)

lemma length_put_uvarint8: "length (uvarint n) \<le> 8 \<Longrightarrow> length (put_uvarint8 n) = 8"
  by (simp add: put_uvarint8_def)

lemma decode_encode_append:
  assumes "ungob buf = Inr m" and "gob m = Inr buf" and "encode gob m = Inr e"
  shows "decode ungob (e @ rest) = Inr (m, rest)"
proof -
  have small: "\<not> BytesToMB_gt (length buf) defaultMaxPayloadSize" and e: "e = put_uvarint8 (length buf) @ buf"
    using assms(2,3) by (auto simp: encode_def too_big_agree split: if_splits)
  have l: "length (uvarint (length buf)) \<le> 4" by (rule max_payload_varint[OF small])
  then have "read_full 8 (e @ rest) = Inr (put_uvarint8 (length buf), buf @ rest)"
    using e by (simp add: read_full_def length_put_uvarint8)
  moreover have "read_uvarint 0 0 (put_uvarint8 (length buf)) = Inr (length buf)"
    using l read_uvarint_uvarint[of "length buf" 0] by (simp add: put_uvarint8_def)
  ultimately show ?thesis
    using small assms(1) by (simp add: decode_def read_full_def)
qed

section \<open>Properties\<close>

text \<open>C32. Every message that \<^verbatim>\<open>encode\<close> accepts is read back by \<^verbatim>\<open>decode\<close>, and the bytes
  of a whole sequence of messages written one after the other on a connection decode to that
  sequence, leaving what follows untouched, provided the gob decoder inverts the gob encoder.\<close>

theorem decode_encode_stream:
  assumes gob_inv: "\<And>m buf. gob m = Inr buf \<Longrightarrow> ungob buf = Inr m"
    and enc: "list_all2 (\<lambda>m e. encode gob m = Inr e) ms es"
  shows "decode_n (length ms) ungob (concat es @ rest) = Inr (ms, rest)"
  using enc
proof (induction ms es rule: list_all2_induct)
  case (Cons m ms e es)
  from Cons(1) obtain buf where "gob m = Inr buf" by (auto simp: encode_def split: sum.splits)
  with Cons(1) have "decode ungob (e @ concat es @ rest) = Inr (m, concat es @ rest)"
    by (intro decode_encode_append[of ungob buf]) (auto intro: gob_inv)
  with Cons(3) show ?case by simp
qed simp

definition ping_msg :: "message" where
  "ping_msg = \<lparr>Sender = None, Receiver = None, MessageType = Ping, Data = NoData\<rparr>"

definition gob_toy :: "message \<Rightarrow> bytes result" where
  "gob_toy m = (if m = ping_msg then Inr [7] else errorf ''gob'')"

definition ungob_toy :: "bytes \<Rightarrow> message result" where
  "ungob_toy b = (if b = [7] then Inr ping_msg else errorf ''gob'')"

theorem decode_encode_stream_witness:
  "decode_n 2 ungob_toy ([1,0,0,0,0,0,0,0,7, 1,0,0,0,0,0,0,0,7] @ [9]) = Inr ([ping_msg, ping_msg], [9])"
proof -
  have "put_uvarint8 1 = [1,0,0,0,0,0,0,0]" by code_simp
  then have "encode gob_toy ping_msg = Inr [1,0,0,0,0,0,0,0,7]"
    by (simp add: encode_def gob_toy_def BytesIntToMB_def defaultMaxPayloadSize_def)
  moreover have "\<And>m buf. gob_toy m = Inr buf \<Longrightarrow> ungob_toy buf = Inr m"
    by (auto simp: gob_toy_def ungob_toy_def split: if_splits)
  ultimately show ?thesis
    using decode_encode_stream[of gob_toy ungob_toy "[ping_msg, ping_msg]"
        "[[1,0,0,0,0,0,0,0,7], [1,0,0,0,0,0,0,0,7]]" "[9]"] by (simp add: numeral_eq_Suc)
qed

text \<open>The two size checks agree: \<^verbatim>\<open>encode\<close> refuses a body exactly when \<^verbatim>\<open>decode\<close> would
  refuse its header, the limit being 200 MB, and a header announcing more is refused whatever
  follows it.\<close>

lemma payload_limit_agree:
  "(\<forall>buf. gob m = Inr buf \<longrightarrow>
      (encode gob m = Inl ''payload too big'' \<longleftrightarrow> length buf > 200 * 1048576))
   \<and> (\<forall>n rest. n < 2 ^ 56 \<longrightarrow> n > 200 * 1048576 \<longrightarrow>
        decode ungob (put_uvarint8 n @ rest) = Inl ''payload too big'')"
proof (intro conjI allI impI)
  fix buf assume "gob m = Inr buf"
  then show "encode gob m = Inl ''payload too big'' \<longleftrightarrow> length buf > 200 * 1048576"
    by (simp add: encode_def too_big_agree) (simp add: BytesToMB_gt_def defaultMaxPayloadSize_def)
next
  fix n :: nat and rest assume n: "n < 2 ^ 56" "n > 200 * 1048576"
  then have l: "length (uvarint n) \<le> 8" using uvarint_length[of n 7] by simp
  then have "read_uvarint 0 0 (put_uvarint8 n) = Inr n"
    using read_uvarint_uvarint[of n 0] by (simp add: put_uvarint8_def)
  with l n(2) show "decode ungob (put_uvarint8 n @ rest) = Inl ''payload too big''"
    by (simp add: decode_def read_full_def length_put_uvarint8 BytesToMB_gt_def defaultMaxPayloadSize_def)
qed

theorem payload_limit_agree_witness:
  "encode gob_toy ping_msg \<noteq> Inl ''payload too big''
   \<and> decode ungob_toy (put_uvarint8 300000000) = Inl ''payload too big''"
  using payload_limit_agree[of gob_toy ping_msg ungob_toy]
    payload_limit_agree[of gob_toy ping_msg ungob_toy, THEN conjunct2, rule_format, of 300000000 "[]"]
  by (simp add: gob_toy_def)

end
