(* ===== verification/ConnPool.thy ===== *)
theory ConnPool
  imports Go_Prelude
begin

text \<open>
  The pool of outgoing connections (\<^verbatim>\<open>p2p/kademlia/conn_pool.go\<close>).  A connection is an opaque
  value; the field \<open>closed\<close> lists the connections on which \<^verbatim>\<open>Close\<close> was called.  Go's map
  iteration order is arbitrary: where it matters it is the argument \<open>order\<close>, a permutation.
\<close>

section \<open>State\<close>

definition defaultCapacity :: nat where "defaultCapacity = 256"
definition defaultConnDeadline :: int where "defaultConnDeadline = minutes 10"

record 'c connection_item =
  lastAccess :: timestamp
  conn :: 'c

record 'c conn_pool =
  capacity :: nat
  conns :: "(string \<times> 'c connection_item) list"
  closed :: "'c list"

section \<open>Operations\<close>

definition NewConnPool :: "'c conn_pool" where
  "NewConnPool = \<lparr>capacity = defaultCapacity, conns = [], closed = []\<rparr>"

definition oldest_access :: "timestamp \<Rightarrow> (string \<times> 'c connection_item) list \<Rightarrow> timestamp \<times> string" where
  "oldest_access now items =
     fold (\<lambda>(addr, item) (oldest, oldestAddr).
             if lastAccess item < oldest then (lastAccess item, addr) else (oldest, oldestAddr))
       items (now, '''')"

text \<open>The clock is read twice: \<open>now0\<close> when the oldest entry is searched, \<open>now\<close> for the
  new entry.\<close>

definition pool_Add ::
  "((string \<times> 'c connection_item) list \<Rightarrow> (string \<times> 'c connection_item) list) \<Rightarrow> timestamp \<Rightarrow> timestamp \<Rightarrow>
   string \<Rightarrow> 'c \<Rightarrow> 'c conn_pool \<Rightarrow> 'c conn_pool" where
  "pool_Add order now0 now addr c pool = (
     let pool1 = (case map_of (conns pool) addr of
                    Some item \<Rightarrow> pool\<lparr>closed := closed pool @ [conn item]\<rparr>
                  | None \<Rightarrow>
                      if length (conns pool) \<ge> capacity pool then
                        pool\<lparr>conns := alist_delete (snd (oldest_access now0 (order (conns pool)))) (conns pool)\<rparr>
                      else pool)
     in pool1\<lparr>conns := alist_update addr \<lparr>lastAccess = now, conn = c\<rparr> (conns pool1)\<rparr>)"

definition pool_Get :: "timestamp \<Rightarrow> string \<Rightarrow> 'c conn_pool \<Rightarrow> 'c result \<times> 'c conn_pool" where
  "pool_Get now addr pool =
     (case map_of (conns pool) addr of
        None \<Rightarrow> (errorf ''not found'', pool)
      | Some item \<Rightarrow>
          (Inr (conn item), pool\<lparr>conns := alist_update addr (item\<lparr>lastAccess := now\<rparr>) (conns pool)\<rparr>))"

definition pool_Del :: "string \<Rightarrow> 'c conn_pool \<Rightarrow> 'c conn_pool" where
  "pool_Del addr pool = pool\<lparr>conns := alist_delete addr (conns pool)\<rparr>"

definition pool_Release :: "'c conn_pool \<Rightarrow> 'c conn_pool" where
  "pool_Release pool =
     fold (\<lambda>(addr, item) p. p\<lparr>closed := closed p @ [conn item], conns := alist_delete addr (conns p)\<rparr>)
       (conns pool) pool"

text \<open>One tick of the eviction goroutine.\<close>

definition evict_idle :: "timestamp \<Rightarrow> 'c conn_pool \<Rightarrow> 'c conn_pool" where
  "evict_idle now pool =
     fold (\<lambda>(addr, item) p.
             if now - lastAccess item > defaultConnDeadline
             then p\<lparr>closed := closed p @ [conn item], conns := alist_delete addr (conns p)\<rparr> else p)
       (conns pool) pool"

section \<open>Lemmas\<close>

definition pool_wf :: "'c conn_pool \<Rightarrow> bool" where
  "pool_wf pool \<longleftrightarrow> alist_wf (conns pool) \<and> length (conns pool) \<le> capacity pool \<and> 0 < capacity pool"

lemma oldest_access_aux:
  "case fold (\<lambda>(addr, item) (oldest, oldestAddr).
        if lastAccess item < oldest then (lastAccess item, addr) else (oldest, oldestAddr)) items (t, a) of
     (t', a') \<Rightarrow> t' \<le> t \<and> (\<forall>(ad, it)\<in>set items. t' \<le> lastAccess it) \<and>
       (if \<exists>(ad, it)\<in>set items. lastAccess it < t
        then \<exists>it. (a', it) \<in> set items \<and> lastAccess it = t' else a' = a \<and> t' = t)"
proof (induction items arbitrary: t a)
  case (Cons x items)
  obtain ad it where x: "x = (ad, it)" by (cases x)
  show ?case
  proof (cases "lastAccess it < t")
    case True
    with Cons.IH[of "lastAccess it" ad] x show ?thesis by (fastforce split: prod.splits if_splits)
  next
    case False
    with Cons.IH[of t a] x show ?thesis by (fastforce split: prod.splits if_splits)
  qed
qed simp

lemma oldest_access_least:
  assumes "oldest_access now items = (t, a)" and "(ad, it) \<in> set items" and "lastAccess it < now"
  shows "\<exists>it'. (a, it') \<in> set items \<and> lastAccess it' = t \<and> (\<forall>(ad, it)\<in>set items. t \<le> lastAccess it)"
  using oldest_access_aux[where items = items and t = now and a = "''''"] assms unfolding oldest_access_def
  by (fastforce split: if_splits)

lemma remove_idle_fold:
  assumes "alist_wf (pre @ items)"
  shows "fold (\<lambda>(addr, item) p. if P item then p\<lparr>closed := closed p @ [conn item], conns := alist_delete addr (conns p)\<rparr> else p)
       items (pool\<lparr>closed := cl, conns := pre @ items\<rparr>)
     = pool\<lparr>closed := cl @ map (conn \<circ> snd) (filter (\<lambda>(a, i). P i) items), conns := pre @ filter (\<lambda>(a, i). \<not> P i) items\<rparr>"
  using assms
proof (induction items arbitrary: pre cl)
  case (Cons x items)
  obtain a i where x: "x = (a, i)" by (cases x)
  have "a \<notin> fst ` set pre" "a \<notin> fst ` set items" using Cons.prems x by (auto simp: alist_wf_def)
  then have "alist_delete a (pre @ (a, i) # items) = pre @ items"
    by (simp add: alist_delete_append alist_delete_Cons alist_delete_absent)
  moreover have "alist_wf (pre @ items)" using Cons.prems by (simp add: alist_wf_def)
  ultimately show ?case using Cons.IH[of pre "cl @ [conn i]"] Cons.IH[of "pre @ [x]" cl] Cons.prems x
    by simp
qed simp

lemma evict_idle_eq:
  assumes "alist_wf (conns pool)"
  shows "evict_idle now pool = pool\<lparr>
      conns := filter (\<lambda>(a, i). now - lastAccess i \<le> defaultConnDeadline) (conns pool),
      closed := closed pool @ map (conn \<circ> snd) (filter (\<lambda>(a, i). now - lastAccess i > defaultConnDeadline) (conns pool))\<rparr>"
  using remove_idle_fold[where pre = "[]" and items = "conns pool" and pool = pool and cl = "closed pool"
      and P = "\<lambda>i. now - lastAccess i > defaultConnDeadline"] assms
  by (simp add: evict_idle_def not_less)

lemma pool_Release_eq:
  assumes "alist_wf (conns pool)"
  shows "pool_Release pool = pool\<lparr>conns := [], closed := closed pool @ map (conn \<circ> snd) (conns pool)\<rparr>"
  using remove_idle_fold[where pre = "[]" and items = "conns pool" and pool = pool and cl = "closed pool"
      and P = "\<lambda>_. True"] assms
  by (simp add: pool_Release_def case_prod_unfold)

lemma alist_wf_filter: "alist_wf m \<Longrightarrow> alist_wf (filter P m)"
  by (simp add: alist_wf_def distinct_map_filter)

lemma pool_Get_wf [inv_intros]: "pool_wf pool \<Longrightarrow> pool_wf (snd (pool_Get now addr pool))"
  by (auto simp: pool_wf_def pool_Get_def alist_wf_update length_alist_update image_iff dest!: map_of_SomeD
      split: option.splits)

lemma pool_Del_wf [inv_intros]: "pool_wf pool \<Longrightarrow> pool_wf (pool_Del addr pool)"
  using length_alist_delete_le[of addr "conns pool"] by (simp add: pool_wf_def pool_Del_def alist_wf_delete)

lemma evict_idle_wf [inv_intros]: "pool_wf pool \<Longrightarrow> pool_wf (evict_idle now pool)"
  by (auto simp: pool_wf_def evict_idle_eq alist_wf_filter intro: order.trans[OF length_filter_le])

section \<open>Properties\<close>

text \<open>\<^verbatim>\<open>Add\<close> keeps the pool within its capacity, with one entry per address, stores the new
  connection under its address, and when it has to make room drops an entry that was used least
  recently, in whatever order the map is iterated, provided every entry was used before the
  clock reading.\<close>

theorem pool_Add_bounded:
  assumes "pool_wf pool" and "\<And>xs. mset (order xs) = mset xs"
    and "\<forall>(a, i)\<in>set (conns pool). lastAccess i < now0"
  shows "pool_wf (pool_Add order now0 now addr c pool)
    \<and> map_of (conns (pool_Add order now0 now addr c pool)) addr = Some \<lparr>lastAccess = now, conn = c\<rparr>
    \<and> (\<forall>a i. a \<noteq> addr \<longrightarrow> map_of (conns pool) a = Some i \<longrightarrow>
          map_of (conns (pool_Add order now0 now addr c pool)) a \<noteq> Some i \<longrightarrow>
          length (conns pool) = capacity pool \<and> (\<forall>(b, j)\<in>set (conns pool). lastAccess i \<le> lastAccess j))"
proof (cases "map_of (conns pool) addr = None \<and> length (conns pool) \<ge> capacity pool")
  case False
  then show ?thesis using assms(1)
    by (auto simp: pool_wf_def pool_Add_def Let_def alist_wf_update length_alist_update map_of_alist_update
        map_of_eq_None_iff split: option.splits dest!: map_of_SomeD)
next
  case True
  have so: "set (order (conns pool)) = set (conns pool)" by (metis assms(2) set_mset_mset)
  obtain t o1 where oa: "oldest_access now0 (order (conns pool)) = (t, o1)" by fastforce
  from True assms(1) obtain a0 i0 where "(a0, i0) \<in> set (conns pool)"
    by (metis pool_wf_def length_greater_0_conv list.set_intros(1) neq_Nil_conv order.strict_trans2 surj_pair)
  with oldest_access_least[OF oa, of a0 i0] assms(3) so obtain i1 where
    i1: "(o1, i1) \<in> set (conns pool)" "lastAccess i1 = t" "\<forall>(b, j)\<in>set (conns pool). t \<le> lastAccess j"
    by auto
  have m1: "map_of (conns pool) o1 = Some i1" using i1(1) assms(1) by (simp add: pool_wf_def alist_wf_def)
  let ?p = "pool_Add order now0 now addr c pool"
  have c: "conns ?p = alist_update addr \<lparr>lastAccess = now, conn = c\<rparr> (alist_delete o1 (conns pool))"
      "capacity ?p = capacity pool"
    using True oa by (simp_all add: pool_Add_def)
  have "addr \<notin> fst ` set (conns pool)" using True by (simp add: map_of_eq_None_iff)
  moreover have "length (alist_delete o1 (conns pool)) < length (conns pool)"
    using i1(1) by (intro length_alist_delete_less) force
  ultimately have "pool_wf ?p"
    using assms(1) by (auto simp: pool_wf_def c alist_wf_update alist_wf_delete length_alist_update)
  then show ?thesis using True assms(1) m1 i1(2,3)
    by (auto simp: c map_of_alist_update map_of_alist_delete pool_wf_def split: if_splits)
qed

definition wit_pool :: "nat conn_pool" where
  "wit_pool = \<lparr>capacity = 1, conns = [(''a'', \<lparr>lastAccess = 5, conn = 0\<rparr>)], closed = []\<rparr>"

theorem pool_Add_bounded_witness:
  "map_of (conns (pool_Add id 10 11 ''b'' 1 wit_pool)) ''b'' = Some \<lparr>lastAccess = 11, conn = 1\<rparr>
   \<and> length (conns (pool_Add id 10 11 ''b'' 1 wit_pool)) = 1"
  using pool_Add_bounded[of wit_pool id 10 11 "''b''" 1]
  by (simp add: wit_pool_def pool_wf_def alist_wf_def pool_Add_def oldest_access_def alist_delete_def alist_update_def)

text \<open>Replacing the connection of an address closes the old one, but making room in a full
  pool closes nothing: the evicted connection is forgotten while still open.\<close>

theorem pool_Add_closes:
  "closed (pool_Add order now0 now addr c pool) =
     (case map_of (conns pool) addr of Some item \<Rightarrow> closed pool @ [conn item] | None \<Rightarrow> closed pool)"
  by (simp add: pool_Add_def Let_def split: option.splits)

text \<open>The eviction tick removes and closes exactly the connections idle for more than ten
  minutes, and releasing the pool closes every connection, each once, and empties it.\<close>

lemma evict_and_release:
  assumes "pool_wf pool"
  shows "pool_wf (evict_idle now pool)
    \<and> conns (evict_idle now pool) = filter (\<lambda>(a, i). now - lastAccess i \<le> minutes 10) (conns pool)
    \<and> closed (evict_idle now pool) = closed pool @ map (conn \<circ> snd) (filter (\<lambda>(a, i). now - lastAccess i > minutes 10) (conns pool))
    \<and> conns (pool_Release pool) = [] \<and> closed (pool_Release pool) = closed pool @ map (conn \<circ> snd) (conns pool)"
  using assms evict_idle_wf[OF assms]
  by (simp add: evict_idle_eq pool_Release_eq pool_wf_def defaultConnDeadline_def)

theorem evict_and_release_witness:
  "conns (evict_idle (minutes 11) wit_pool) = [] \<and> closed (pool_Release wit_pool) = [0]"
  using evict_and_release[of wit_pool "minutes 11"] by (simp add: wit_pool_def pool_wf_def alist_wf_def)

end
