(* ===== verification/Alts_Crypto.thy ===== *)
theory Alts_Crypto
  imports Go_Lib
begin

text \<open>
  The record protection of the secure channel (\<^verbatim>\<open>pkg/net/credentials/alts/conn\<close>): the 96-bit
  little-endian frame counter, nonce masking, rekeying, and the three record protocols AES128-GCM,
  AES128-GCM with rekeying and XChaCha20-Poly1305.  The ciphers are parameters: \<open>seal key nonce pt\<close>
  and \<open>opn key nonce ct\<close> stand for an AEAD's \<^verbatim>\<open>Seal\<close> and \<^verbatim>\<open>Open\<close>, \<open>hmac\<close> for
  HMAC-SHA256.
\<close>

section \<open>Counter (counter.go, utils.go)\<close>

datatype side = ClientSide | ServerSide

definition counterLen :: nat where "counterLen = 12"

record counter =
  ctr_value :: bytes
  invalid :: bool
  overflowLen :: nat

definition counter_Value :: "counter \<Rightarrow> bytes result" where
  "counter_Value c = (if invalid c then errorf ''invalid counter'' else Inr (ctr_value c))"

function inc_loop :: "nat \<Rightarrow> nat \<Rightarrow> bytes \<Rightarrow> nat \<times> bytes" where
  "inc_loop i n v =
     (if i < n then
        (let v' = v[i := v ! i + 1] in if v' ! i \<noteq> 0 then (i, v') else inc_loop (i + 1) n v')
      else (i, v))"
  by pat_completeness auto
termination
  by (relation "measure (\<lambda>(i, n, v). n - i)") auto

declare inc_loop.simps [simp del]

definition counter_Inc :: "counter \<Rightarrow> counter" where
  "counter_Inc c =
     (if invalid c then c
      else (let (i, v) = inc_loop 0 (overflowLen c) (ctr_value c)
            in c\<lparr>ctr_value := v, invalid := (i = overflowLen c)\<rparr>))"

definition NewOutCounter :: "side \<Rightarrow> nat \<Rightarrow> counter" where
  "NewOutCounter s n =
     \<lparr>ctr_value = (if s = ServerSide then (replicate counterLen 0)[counterLen - 1 := 0x80] else replicate counterLen 0),
      invalid = False, overflowLen = n\<rparr>"

definition NewInCounter :: "side \<Rightarrow> nat \<Rightarrow> counter" where
  "NewInCounter s n =
     \<lparr>ctr_value = (if s = ClientSide then (replicate counterLen 0)[counterLen - 1 := 0x80] else replicate counterLen 0),
      invalid = False, overflowLen = n\<rparr>"

definition CounterFromValue :: "bytes \<Rightarrow> nat \<Rightarrow> counter" where
  "CounterFromValue v n =
     \<lparr>ctr_value = take counterLen (v @ replicate (counterLen - length v) 0), invalid = False, overflowLen = n\<rparr>"

text \<open>\<^verbatim>\<open>CounterSide\<close> indexes byte 11: a shorter slice panics (\<open>None\<close>).\<close>

definition CounterSide :: "bytes \<Rightarrow> side option" where
  "CounterSide c = (if length c < counterLen then None
     else Some (if c ! (counterLen - 1) AND 0x80 = 0x80 then ServerSide else ClientSide))"

section \<open>Nonce mask and rekeying (aeadrekey.go)\<close>

definition nonceLen :: nat where "nonceLen = 12"
definition aeadKeyLen :: nat where "aeadKeyLen = 16"
definition kdfKeyLen :: nat where "kdfKeyLen = 32"
definition kdfCounterOffset :: nat where "kdfCounterOffset = 2"
definition kdfCounterLen :: nat where "kdfCounterLen = 6"

text \<open>\<^verbatim>\<open>maskNonce\<close> writes the first twelve bytes of \<open>dst\<close> and leaves the rest.\<close>

definition maskNonce :: "bytes \<Rightarrow> bytes \<Rightarrow> bytes \<Rightarrow> bytes" where
  "maskNonce dst nonce msk = (
     let nonce1 = le_val (take 8 nonce); nonce2 = le_val (take 4 (drop 8 nonce));
         mask1 = le_val (take 8 msk); mask2 = le_val (take 4 (drop 8 msk))
     in le_bytes 8 (nonce1 XOR mask1) @ le_bytes 4 (nonce2 XOR mask2) @ drop 12 dst)"

record rekey_aead =
  kdfKey :: bytes
  kdfCounter :: bytes
  nonceMask :: bytes
  gcmKey :: "bytes option" \<comment> \<open>the key of \<^verbatim>\<open>gcmAEAD\<close>; nil before the first use\<close>

definition newRekeyAEAD :: "bytes \<Rightarrow> rekey_aead result" where
  "newRekeyAEAD key =
     (if length key \<noteq> kdfKeyLen + nonceLen then errorf (''alts/conn: invalid key size '' @ itoa (length key))
      else Inr \<lparr>kdfKey = take kdfKeyLen key, kdfCounter = replicate kdfCounterLen 0,
                nonceMask = drop kdfKeyLen key, gcmKey = None\<rparr>)"

definition hkdfExpand :: "(bytes \<Rightarrow> bytes \<Rightarrow> bytes) \<Rightarrow> bytes \<Rightarrow> bytes \<Rightarrow> bytes" where
  "hkdfExpand hmac key info = take aeadKeyLen (hmac key (info @ [1]))"

text \<open>\<^verbatim>\<open>aes.NewCipher\<close> accepts keys of 16, 24 and 32 bytes.\<close>

definition aes_key_ok :: "bytes \<Rightarrow> bool" where
  "aes_key_ok key \<longleftrightarrow> length key \<in> {16, 24, 32}"

definition rekeyIfRequired :: "(bytes \<Rightarrow> bytes \<Rightarrow> bytes) \<Rightarrow> bytes \<Rightarrow> rekey_aead \<Rightarrow> string option \<times> rekey_aead" where
  "rekeyIfRequired hmac nonce s = (
     let newKdfCounter = take kdfCounterLen (drop kdfCounterOffset nonce) in
     if gcmKey s \<noteq> None \<and> newKdfCounter = kdfCounter s then (None, s)
     else let s1 = s\<lparr>kdfCounter := newKdfCounter\<rparr>; k = hkdfExpand hmac (kdfKey s) newKdfCounter
          in if \<not> aes_key_ok k then (Some ''crypto/aes: invalid key size'', s1)
             else (None, s1\<lparr>gcmKey := Some k\<rparr>))"

text \<open>\<^verbatim>\<open>Seal\<close> panics when rekeying fails (\<open>None\<close>).\<close>

definition rekey_Seal ::
  "(bytes \<Rightarrow> bytes \<Rightarrow> bytes) \<Rightarrow> (bytes \<Rightarrow> bytes \<Rightarrow> bytes \<Rightarrow> bytes) \<Rightarrow> rekey_aead \<Rightarrow> bytes \<Rightarrow> bytes \<Rightarrow> bytes \<Rightarrow>
   (bytes \<times> rekey_aead) option" where
  "rekey_Seal hmac seal s dst nonce pt = (
     case rekeyIfRequired hmac nonce s of
       (Some e, s1) \<Rightarrow> None
     | (None, s1) \<Rightarrow>
         Some (dst @ seal (the (gcmKey s1)) (maskNonce (replicate nonceLen 0) nonce (nonceMask s1)) pt, s1))"

definition rekey_Open ::
  "(bytes \<Rightarrow> bytes \<Rightarrow> bytes) \<Rightarrow> (bytes \<Rightarrow> bytes \<Rightarrow> bytes \<Rightarrow> bytes option) \<Rightarrow> rekey_aead \<Rightarrow> bytes \<Rightarrow> bytes \<Rightarrow> bytes \<Rightarrow>
   bytes result \<times> rekey_aead" where
  "rekey_Open hmac opn s dst nonce ct = (
     case rekeyIfRequired hmac nonce s of
       (Some e, s1) \<Rightarrow> (errorf e, s1)
     | (None, s1) \<Rightarrow>
         (case opn (the (gcmKey s1)) (maskNonce (replicate nonceLen 0) nonce (nonceMask s1)) ct of
            None \<Rightarrow> (errorf ''cipher: message authentication failed'', s1)
          | Some pt \<Rightarrow> (Inr (dst @ pt), s1)))"

section \<open>The record protocols\<close>

definition GcmTagSize :: nat where "GcmTagSize = 16"
definition overflowLenAES128GCM :: nat where "overflowLenAES128GCM = 5"
definition overflowLenAES128GCMRekey :: nat where "overflowLenAES128GCMRekey = 8"
definition overflowLenxChacha20Poly1305 :: nat where "overflowLenxChacha20Poly1305 = 8"

definition ErrAuth :: string where "ErrAuth = ''message authentication failed''"

text \<open>One connection end; the three Go structs differ in their AEAD state \<open>'a\<close>.\<close>

record 'a record_crypto_state =
  inCounter :: counter
  outCounter :: counter
  inAEAD :: 'a
  outAEAD :: 'a

definition NewAES128GCM :: "side \<Rightarrow> bytes \<Rightarrow> bytes record_crypto_state result" where
  "NewAES128GCM s key =
     (if \<not> aes_key_ok key then errorf ''crypto/aes: invalid key size''
      else Inr \<lparr>inCounter = NewInCounter s overflowLenAES128GCM, outCounter = NewOutCounter s overflowLenAES128GCM,
                inAEAD = key, outAEAD = key\<rparr>)"

definition aes128gcm_Encrypt ::
  "(bytes \<Rightarrow> bytes \<Rightarrow> bytes \<Rightarrow> bytes) \<Rightarrow> bytes record_crypto_state \<Rightarrow> bytes \<Rightarrow> bytes \<Rightarrow>
   (bytes result \<times> bytes record_crypto_state) option" where
  "aes128gcm_Encrypt seal s dst pt =
     (case counter_Value (outCounter s) of
        Inl e \<Rightarrow> Some (Inl e, s)
      | Inr sq \<Rightarrow> Some (Inr (dst @ seal (outAEAD s) sq pt), s\<lparr>outCounter := counter_Inc (outCounter s)\<rparr>))"

definition aes128gcm_Decrypt ::
  "(bytes \<Rightarrow> bytes \<Rightarrow> bytes \<Rightarrow> bytes option) \<Rightarrow> bytes record_crypto_state \<Rightarrow> bytes \<Rightarrow> bytes \<Rightarrow>
   bytes result \<times> bytes record_crypto_state" where
  "aes128gcm_Decrypt opn s dst ct =
     (case counter_Value (inCounter s) of
        Inl e \<Rightarrow> (Inl e, s)
      | Inr sq \<Rightarrow>
          (case opn (inAEAD s) sq ct of
             None \<Rightarrow> (errorf ErrAuth, s)
           | Some pt \<Rightarrow> (Inr (dst @ pt), s\<lparr>inCounter := counter_Inc (inCounter s)\<rparr>)))"

definition NewAES128GCMRekey :: "side \<Rightarrow> bytes \<Rightarrow> rekey_aead record_crypto_state result" where
  "NewAES128GCMRekey s key =
     (case newRekeyAEAD key of
        Inl e \<Rightarrow> Inl e
      | Inr a \<Rightarrow> Inr \<lparr>inCounter = NewInCounter s overflowLenAES128GCMRekey,
                     outCounter = NewOutCounter s overflowLenAES128GCMRekey, inAEAD = a, outAEAD = a\<rparr>)"

definition aes128gcmRekey_Encrypt ::
  "(bytes \<Rightarrow> bytes \<Rightarrow> bytes) \<Rightarrow> (bytes \<Rightarrow> bytes \<Rightarrow> bytes \<Rightarrow> bytes) \<Rightarrow> rekey_aead record_crypto_state \<Rightarrow> bytes \<Rightarrow> bytes \<Rightarrow>
   (bytes result \<times> rekey_aead record_crypto_state) option" where
  "aes128gcmRekey_Encrypt hmac seal s dst pt =
     (case counter_Value (outCounter s) of
        Inl e \<Rightarrow> Some (Inl e, s)
      | Inr sq \<Rightarrow>
          map_option (\<lambda>(ct, a). (Inr ct, s\<lparr>outAEAD := a, outCounter := counter_Inc (outCounter s)\<rparr>))
            (rekey_Seal hmac seal (outAEAD s) dst sq pt))"

definition aes128gcmRekey_Decrypt ::
  "(bytes \<Rightarrow> bytes \<Rightarrow> bytes) \<Rightarrow> (bytes \<Rightarrow> bytes \<Rightarrow> bytes \<Rightarrow> bytes option) \<Rightarrow> rekey_aead record_crypto_state \<Rightarrow> bytes \<Rightarrow> bytes \<Rightarrow>
   bytes result \<times> rekey_aead record_crypto_state" where
  "aes128gcmRekey_Decrypt hmac opn s dst ct =
     (case counter_Value (inCounter s) of
        Inl e \<Rightarrow> (Inl e, s)
      | Inr sq \<Rightarrow>
          (case rekey_Open hmac opn (inAEAD s) dst sq ct of
             (Inl e, a) \<Rightarrow> (errorf ErrAuth, s\<lparr>inAEAD := a\<rparr>)
           | (Inr pt, a) \<Rightarrow> (Inr pt, s\<lparr>inAEAD := a, inCounter := counter_Inc (inCounter s)\<rparr>)))"

text \<open>XChaCha20-Poly1305: the AEAD state is the key and the 24-byte nonce mask.\<close>

definition NewXChaCha20Poly1305ReKey :: "side \<Rightarrow> bytes \<Rightarrow> (bytes \<times> bytes) record_crypto_state result" where
  "NewXChaCha20Poly1305ReKey s key =
     (if length key < 32 + 24 then errorf ''invalid keylength''
      else Inr \<lparr>inCounter = NewInCounter s overflowLenxChacha20Poly1305,
                outCounter = NewOutCounter s overflowLenxChacha20Poly1305,
                inAEAD = (take 32 key, take 24 (drop 32 key)), outAEAD = (take 32 key, take 24 (drop 32 key))\<rparr>)"

definition xchacha_Encrypt ::
  "(bytes \<Rightarrow> bytes \<Rightarrow> bytes \<Rightarrow> bytes) \<Rightarrow> (bytes \<times> bytes) record_crypto_state \<Rightarrow> bytes \<Rightarrow> bytes \<Rightarrow>
   (bytes result \<times> (bytes \<times> bytes) record_crypto_state) option" where
  "xchacha_Encrypt seal s dst pt =
     (case counter_Value (outCounter s) of
        Inl e \<Rightarrow> Some (Inl (''get seq: '' @ e), s)
      | Inr sq \<Rightarrow>
          (let nonceBuf = maskNonce (replicate 24 0) sq (snd (outAEAD s))
           in Some (Inr (dst @ seal (fst (outAEAD s)) nonceBuf pt), s\<lparr>outCounter := counter_Inc (outCounter s)\<rparr>)))"

definition xchacha_Decrypt ::
  "(bytes \<Rightarrow> bytes \<Rightarrow> bytes \<Rightarrow> bytes option) \<Rightarrow> (bytes \<times> bytes) record_crypto_state \<Rightarrow> bytes \<Rightarrow> bytes \<Rightarrow>
   bytes result \<times> (bytes \<times> bytes) record_crypto_state" where
  "xchacha_Decrypt opn s dst ct =
     (case counter_Value (inCounter s) of
        Inl e \<Rightarrow> (Inl (''get seq: '' @ e), s)
      | Inr sq \<Rightarrow>
          (let nonceBuf = maskNonce (replicate 24 0) sq (snd (inAEAD s))
           in case opn (fst (inAEAD s)) nonceBuf ct of
                None \<Rightarrow> (errorf ErrAuth, s)
              | Some pt \<Rightarrow> (Inr (dst @ pt), s\<lparr>inCounter := counter_Inc (inCounter s)\<rparr>)))"

section \<open>The counter as a number\<close>

text \<open>The carry chain on the bytes from the current position on.\<close>

fun carry :: "nat \<Rightarrow> bytes \<Rightarrow> nat \<times> bytes" where
  "carry 0 w = (0, w)"
| "carry (Suc k) [] = (Suc k, [])"
| "carry (Suc k) (b # w) = (if b + 1 \<noteq> 0 then (0, (b + 1) # w) else (let (j, w') = carry k w in (Suc j, 0 # w')))"

lemma inc_loop_carry:
  "k \<le> length w \<Longrightarrow> inc_loop (length pre) (length pre + k) (pre @ w) = (let (j, w') = carry k w in (length pre + j, pre @ w'))"
proof (induction k arbitrary: pre w)
  case 0
  then show ?case by (subst inc_loop.simps) simp
next
  case (Suc k)
  then obtain b w1 where w: "w = b # w1" and k: "k \<le> length w1" by (cases w) auto
  show ?case
  proof (cases "b + 1 = 0")
    case False
    then show ?thesis by (subst inc_loop.simps) (simp add: w nth_append)
  next
    case True
    then have "inc_loop (length pre) (length pre + Suc k) (pre @ w) = inc_loop (length (pre @ [0])) (length (pre @ [0]) + k) ((pre @ [0]) @ w1)"
      by (subst inc_loop.simps) (simp add: w nth_append)
    also have "\<dots> = (let (j, w') = carry k w1 in (length (pre @ [0]) + j, (pre @ [0]) @ w'))"
      using Suc.IH[OF k] by blast
    finally show ?thesis using True by (simp add: w case_prod_unfold Let_def)
  qed
qed

lemma carry_val:
  "k \<le> length w \<Longrightarrow> carry k w = (j, w') \<Longrightarrow>
     length w' = length w \<and> drop k w' = drop k w
     \<and> le_val (take k w') = (le_val (take k w) + 1) mod 256 ^ k
     \<and> (j = k \<longleftrightarrow> le_val (take k w) + 1 = 256 ^ k) \<and> j \<le> k"
proof (induction k arbitrary: w j w')
  case (Suc k)
  then obtain b w1 where w: "w = b # w1" and k: "k \<le> length w1" by (cases w) auto
  have bound: "le_val (take k w1) < 256 ^ k" using le_val_bound[of "take k w1"] k by simp
  show ?case
  proof (cases "b + 1 = 0")
    case False
    then have u: "unat (b + 1) = unat b + 1"
      by (metis Suc_eq_plus1 unat_add_lem unatSuc add.commute)
    moreover have "unat b + 256 * le_val (take k w1) + 1 < 256 * 256 ^ k"
      using u unat_byte_bound[of "b + 1"] bound by simp
    ultimately show ?thesis using Suc.prems False w by auto
  next
    case True
    then have "b = - 1" by (simp only: eq_neg_iff_add_eq_0)
    then have u: "unat b = 255" by (simp add: unsigned_minus_1_eq_mask mask_eq_exp_minus_1)
    obtain j1 w2 where c: "carry k w1 = (j1, w2)" by fastforce
    have w': "w' = 0 # w2" "j = Suc j1" using Suc.prems True w c by auto
    note IH = Suc.IH[OF k c]
    have s: "256 * (le_val (take k w1) + 1) = le_val (take (Suc k) w) + 1" using w u by simp
    have "le_val (take (Suc k) w') = 256 * ((le_val (take k w1) + 1) mod 256 ^ k)" using IH w' by simp
    also have "\<dots> = (le_val (take (Suc k) w) + 1) mod 256 ^ Suc k"
      by (simp only: mult_mod_right s power_Suc)
    finally have v: "le_val (take (Suc k) w') = (le_val (take (Suc k) w) + 1) mod 256 ^ Suc k" .
    have "le_val (take k w1) + 1 = 256 ^ k \<longleftrightarrow> le_val (take (Suc k) w) + 1 = 256 ^ Suc k"
      by (simp only: power_Suc mult_cancel1 flip: s) simp
    with IH w' w v show ?thesis by simp
  qed
qed simp

text \<open>The number a counter stands for, and the bytes its increments never touch.\<close>

definition ctr_num :: "counter \<Rightarrow> nat" where
  "ctr_num c = le_val (take (overflowLen c) (ctr_value c))"

definition ctr_high :: "counter \<Rightarrow> bytes" where
  "ctr_high c = drop (overflowLen c) (ctr_value c)"

definition ctr_wf :: "counter \<Rightarrow> bool" where
  "ctr_wf c \<longleftrightarrow> length (ctr_value c) = counterLen \<and> overflowLen c \<le> counterLen"

lemma ctr_low_length: "ctr_wf c \<Longrightarrow> length (take (overflowLen c) (ctr_value c)) = overflowLen c"
  by (simp add: ctr_wf_def)

lemma ctr_value_split: "ctr_wf c \<Longrightarrow> ctr_value c = le_bytes (overflowLen c) (ctr_num c) @ ctr_high c"
  using le_bytes_val[of "take (overflowLen c) (ctr_value c)"] ctr_low_length[of c]
  by (simp add: ctr_num_def ctr_high_def del: length_take)

lemma ctr_num_bound: "ctr_wf c \<Longrightarrow> ctr_num c < 256 ^ overflowLen c"
  using le_val_bound[of "take (overflowLen c) (ctr_value c)"] ctr_low_length[of c]
  by (simp add: ctr_num_def del: length_take)

lemma counter_Inc_spec:
  assumes "ctr_wf c" and "\<not> invalid c"
  shows "ctr_wf (counter_Inc c) \<and> overflowLen (counter_Inc c) = overflowLen c \<and> ctr_high (counter_Inc c) = ctr_high c
    \<and> ctr_num (counter_Inc c) = (ctr_num c + 1) mod 256 ^ overflowLen c
    \<and> (invalid (counter_Inc c) \<longleftrightarrow> ctr_num c + 1 = 256 ^ overflowLen c)"
proof -
  have le: "overflowLen c \<le> length (ctr_value c)" using assms(1) by (simp add: ctr_wf_def)
  obtain j w where c: "carry (overflowLen c) (ctr_value c) = (j, w)" by fastforce
  from inc_loop_carry[OF le, of "[]"] c have "inc_loop 0 (overflowLen c) (ctr_value c) = (j, w)" by simp
  with carry_val[OF le c] assms show ?thesis
    by (auto simp: counter_Inc_def ctr_wf_def ctr_num_def ctr_high_def)
qed

lemma counter_Inc_invalid [simp]: "invalid c \<Longrightarrow> counter_Inc c = c"
  by (simp add: counter_Inc_def)

lemma counter_iterate:
  assumes "ctr_wf c" and "\<not> invalid c" and "ctr_num c + k < 256 ^ overflowLen c"
  shows "ctr_wf ((counter_Inc ^^ k) c) \<and> \<not> invalid ((counter_Inc ^^ k) c)
    \<and> overflowLen ((counter_Inc ^^ k) c) = overflowLen c
    \<and> ctr_num ((counter_Inc ^^ k) c) = ctr_num c + k \<and> ctr_high ((counter_Inc ^^ k) c) = ctr_high c"
  using assms
proof (induction k)
  case (Suc k)
  then have IH: "ctr_wf ((counter_Inc ^^ k) c)" "\<not> invalid ((counter_Inc ^^ k) c)"
      "overflowLen ((counter_Inc ^^ k) c) = overflowLen c" "ctr_num ((counter_Inc ^^ k) c) = ctr_num c + k"
      "ctr_high ((counter_Inc ^^ k) c) = ctr_high c" by simp_all
  from counter_Inc_spec[OF IH(1,2)] IH Suc.prems(3) show ?case by simp
qed simp

lemma counter_exhausted:
  assumes "ctr_wf c" and "\<not> invalid c" and "ctr_num c + k = 256 ^ overflowLen c"
  shows "invalid ((counter_Inc ^^ k) c)"
proof (cases k)
  case 0
  then show ?thesis using assms ctr_num_bound[of c] by simp
next
  case (Suc m)
  then have "ctr_num c + m < 256 ^ overflowLen c" using assms(3) by simp
  from counter_iterate[OF assms(1,2) this] counter_Inc_spec[of "(counter_Inc ^^ m) c"] Suc assms(3)
  show ?thesis by simp
qed

lemma invalid_stays: "invalid c \<Longrightarrow> (counter_Inc ^^ k) c = c"
  by (induction k) auto

lemma New_counters:
  "n \<le> 11 \<Longrightarrow> ctr_wf (NewOutCounter s n) \<and> \<not> invalid (NewOutCounter s n) \<and> ctr_num (NewOutCounter s n) = 0
     \<and> overflowLen (NewOutCounter s n) = n"
proof -
  assume n: "n \<le> 11"
  have z: "le_val (replicate k 0) = 0" for k by (induction k) auto
  have "take n ((replicate 12 (0::byte))[11 := 0x80]) = replicate n 0" using n by (simp add: take_update_cancel)
  then show ?thesis using n z by (simp add: NewOutCounter_def ctr_wf_def ctr_num_def counterLen_def)
qed

lemma New_counters_match:
  "NewInCounter ClientSide n = NewOutCounter ServerSide n"
  "NewInCounter ServerSide n = NewOutCounter ClientSide n"
  by (simp_all add: NewInCounter_def NewOutCounter_def)

lemma ctr_high_side: "n \<le> 11 \<Longrightarrow> last (ctr_high (NewOutCounter s n)) = (if s = ServerSide then 0x80 else 0)"
  by (simp add: ctr_high_def NewOutCounter_def counterLen_def last_drop last_list_update)

section \<open>The contract of a record protocol\<close>

text \<open>What the record layer relies on: two ends that are in step and have at least one frame left
  exchange a frame (the sender's output is the prefix it was given followed by a body that is longer
  than the plaintext by the tag, and the receiver recovers the plaintext from the body) and are in
  step again.\<close>

locale record_crypto =
  fixes Enc :: "'s \<Rightarrow> bytes \<Rightarrow> bytes \<Rightarrow> (bytes result \<times> 's) option"
    and Dec :: "'s \<Rightarrow> bytes \<Rightarrow> bytes \<Rightarrow> bytes result \<times> 's"
    and tag :: nat
    and paired :: "nat \<Rightarrow> 's \<Rightarrow> 's \<Rightarrow> bool"
  assumes enc_dec: "paired (Suc k) s r \<Longrightarrow> \<exists>c s' r'. Enc s dst pt = Some (Inr (dst @ c), s')
      \<and> length c = length pt + tag \<and> Dec r dst' c = (Inr (dst' @ pt), r') \<and> paired k s' r'"

definition aead_law :: "nat \<Rightarrow> (bytes \<Rightarrow> bytes \<Rightarrow> bytes \<Rightarrow> bytes) \<Rightarrow> (bytes \<Rightarrow> bytes \<Rightarrow> bytes \<Rightarrow> bytes option) \<Rightarrow> bool" where
  "aead_law tag seal opn \<longleftrightarrow>
     (\<forall>key nonce pt. opn key nonce (seal key nonce pt) = Some pt \<and> length (seal key nonce pt) = length pt + tag)"

definition ctr_room :: "nat \<Rightarrow> counter \<Rightarrow> bool" where
  "ctr_room k c \<longleftrightarrow> ctr_wf c \<and> (k = 0 \<or> \<not> invalid c \<and> ctr_num c + k \<le> 256 ^ overflowLen c)"

lemma ctr_room_Suc:
  assumes "ctr_room (Suc k) c"
  shows "counter_Value c = Inr (ctr_value c)" and "ctr_room k (counter_Inc c)"
proof -
  have c: "ctr_wf c" "\<not> invalid c" "ctr_num c + Suc k \<le> 256 ^ overflowLen c" using assms by (auto simp: ctr_room_def)
  then show "counter_Value c = Inr (ctr_value c)" by (simp add: counter_Value_def)
  show "ctr_room k (counter_Inc c)"
    using counter_Inc_spec[OF c(1,2)] c(3) by (cases "k = 0") (auto simp: ctr_room_def)
qed

definition in_step :: "nat \<Rightarrow> 'a record_crypto_state \<Rightarrow> 'a record_crypto_state \<Rightarrow> bool" where
  "in_step k s r \<longleftrightarrow> outAEAD s = inAEAD r \<and> outCounter s = inCounter r \<and> ctr_room k (outCounter s)"

definition gcm_paired where
  "gcm_paired seal opn k s r \<longleftrightarrow> aead_law GcmTagSize seal opn \<and> in_step k s r"

interpretation gcm: record_crypto "aes128gcm_Encrypt seal" "aes128gcm_Decrypt opn" GcmTagSize "gcm_paired seal opn"
  for seal opn
proof unfold_locales
  fix k and s r :: "bytes record_crypto_state" and dst pt dst' :: bytes
  assume "gcm_paired seal opn (Suc k) s r"
  then show "\<exists>c s' r'. aes128gcm_Encrypt seal s dst pt = Some (Inr (dst @ c), s') \<and> length c = length pt + GcmTagSize
      \<and> aes128gcm_Decrypt opn r dst' c = (Inr (dst' @ pt), r') \<and> gcm_paired seal opn k s' r'"
    using ctr_room_Suc[of k "outCounter s"]
    by (auto simp: gcm_paired_def in_step_def aead_law_def aes128gcm_Encrypt_def aes128gcm_Decrypt_def)
qed

definition xchacha_paired where
  "xchacha_paired seal opn k s r \<longleftrightarrow> aead_law GcmTagSize seal opn \<and> in_step k s r"

interpretation xchacha: record_crypto "xchacha_Encrypt seal" "xchacha_Decrypt opn" GcmTagSize "xchacha_paired seal opn"
  for seal opn
proof unfold_locales
  fix k and s r :: "(bytes \<times> bytes) record_crypto_state" and dst pt dst' :: bytes
  assume "xchacha_paired seal opn (Suc k) s r"
  then show "\<exists>c s' r'. xchacha_Encrypt seal s dst pt = Some (Inr (dst @ c), s') \<and> length c = length pt + GcmTagSize
      \<and> xchacha_Decrypt opn r dst' c = (Inr (dst' @ pt), r') \<and> xchacha_paired seal opn k s' r'"
    using ctr_room_Suc[of k "outCounter s"]
    by (auto simp: xchacha_paired_def in_step_def aead_law_def xchacha_Encrypt_def xchacha_Decrypt_def Let_def)
qed

definition hmac_law :: "(bytes \<Rightarrow> bytes \<Rightarrow> bytes) \<Rightarrow> bool" where
  "hmac_law hmac \<longleftrightarrow> (\<forall>key m. length (hmac key m) = 32)"

lemma rekeyIfRequired_ok: "hmac_law hmac \<Longrightarrow> fst (rekeyIfRequired hmac nonce s) = None"
  by (simp add: rekeyIfRequired_def Let_def aes_key_ok_def hkdfExpand_def hmac_law_def aeadKeyLen_def)

definition rekey_paired where
  "rekey_paired hmac seal opn k s r \<longleftrightarrow> hmac_law hmac \<and> aead_law GcmTagSize seal opn \<and> in_step k s r"

interpretation rekey: record_crypto "aes128gcmRekey_Encrypt hmac seal" "aes128gcmRekey_Decrypt hmac opn" GcmTagSize
  "rekey_paired hmac seal opn"
  for hmac seal opn
proof unfold_locales
  fix k and s r :: "rekey_aead record_crypto_state" and dst pt dst' :: bytes
  assume a: "rekey_paired hmac seal opn (Suc k) s r"
  then obtain s1 where "rekeyIfRequired hmac (ctr_value (outCounter s)) (outAEAD s) = (None, s1)"
    by (metis prod.collapse rekeyIfRequired_ok rekey_paired_def)
  with a show "\<exists>c s' r'. aes128gcmRekey_Encrypt hmac seal s dst pt = Some (Inr (dst @ c), s')
      \<and> length c = length pt + GcmTagSize
      \<and> aes128gcmRekey_Decrypt hmac opn r dst' c = (Inr (dst' @ pt), r') \<and> rekey_paired hmac seal opn k s' r'"
    using ctr_room_Suc[of k "outCounter s"]
    by (auto simp: rekey_paired_def in_step_def aead_law_def aes128gcmRekey_Encrypt_def aes128gcmRekey_Decrypt_def
        rekey_Seal_def rekey_Open_def)
qed

section \<open>Properties\<close>

text \<open>C34. No nonce is used twice: from a fresh outgoing counter the first \<open>256 ^ n\<close> values are
  valid and pairwise different, none of them is ever a value of the other side's outgoing counter,
  and once they are used up the counter only returns the invalid-counter error.\<close>

theorem counter_nonces_unique:
  fixes s :: side and n :: nat
  assumes "n \<le> 11"
  defines "nonce \<equiv> \<lambda>s k. counter_Value ((counter_Inc ^^ k) (NewOutCounter s n))"
  shows "(\<forall>i < 256 ^ n. is_ok (nonce s i))
    \<and> (\<forall>i < 256 ^ n. \<forall>j < 256 ^ n. i \<noteq> j \<longrightarrow> nonce s i \<noteq> nonce s j)
    \<and> (\<forall>i < 256 ^ n. \<forall>j < 256 ^ n. nonce ClientSide i \<noteq> nonce ServerSide j)
    \<and> (\<forall>i \<ge> 256 ^ n. nonce s i = Inl ''invalid counter'')"
proof -
  have v: "nonce s i = Inr (le_bytes n i @ ctr_high (NewOutCounter s n))" if "i < 256 ^ n" for s i
  proof -
    note N = New_counters[OF assms(1), of s]
    from N that counter_iterate[of "NewOutCounter s n" i] show ?thesis
      unfolding nonce_def by (simp add: counter_Value_def ctr_value_split)
  qed
  have "le_bytes n i \<noteq> le_bytes n j" if "i < 256 ^ n" "j < 256 ^ n" "i \<noteq> j" for i j
    using that by (metis le_val_bytes mod_less)
  moreover have "ctr_high (NewOutCounter ClientSide n) \<noteq> ctr_high (NewOutCounter ServerSide n)"
    using ctr_high_side[OF assms(1), of ClientSide] ctr_high_side[OF assms(1), of ServerSide] by auto
  moreover have "nonce s i = Inl ''invalid counter''" if "i \<ge> 256 ^ n" for i
  proof -
    have "invalid ((counter_Inc ^^ (256 ^ n)) (NewOutCounter s n))"
      using New_counters[OF assms(1), of s] by (intro counter_exhausted) simp_all
    moreover have "(counter_Inc ^^ i) (NewOutCounter s n) = (counter_Inc ^^ (i - 256 ^ n)) ((counter_Inc ^^ (256 ^ n)) (NewOutCounter s n))"
      using that by (metis funpow_add comp_apply le_add_diff_inverse2)
    ultimately show ?thesis by (simp add: nonce_def invalid_stays counter_Value_def)
  qed
  ultimately show ?thesis using v by (simp add: append_eq_append_conv)
qed

theorem counter_nonces_unique_witness:
  "counter_Value ((counter_Inc ^^ 3) (NewOutCounter ClientSide 5)) \<noteq> counter_Value ((counter_Inc ^^ 255) (NewOutCounter ServerSide 5))
   \<and> counter_Value ((counter_Inc ^^ (256 ^ 5)) (NewOutCounter ServerSide 5)) = Inl ''invalid counter''"
  using counter_nonces_unique[of 5 ServerSide, THEN conjunct2, THEN conjunct2, THEN conjunct1, rule_format, of 3 255]
    counter_nonces_unique[of 5 ServerSide, THEN conjunct2, THEN conjunct2, THEN conjunct2, rule_format, of "256 ^ 5"]
  by simp

text \<open>Masking is a bijection on nonces: different 12-byte counter values give different masked
  nonces under the same mask, so masking cannot make a nonce repeat; bytes of the destination past
  the twelfth are never written, so the second half of a 24-byte XChaCha nonce is zero whatever
  the mask.\<close>

theorem maskNonce_injective:
  assumes "length a = 12" and "length b = 12"
  shows "(maskNonce dst a m = maskNonce dst b m \<longleftrightarrow> a = b) \<and> drop 12 (maskNonce (replicate 24 0) a m) = replicate 12 0"
proof -
  let ?w = "\<lambda>k m x. le_bytes k (le_val x XOR m)"
  have inj: "x = y" if "?w k (le_val m) x = ?w k (le_val m) y" "length x = k" "length y = k" "length m \<le> k" for k m x y
  proof -
    have lt: "le_val x < 2 ^ (8 * k)" "le_val y < 2 ^ (8 * k)" "le_val m < 2 ^ (8 * k)"
      using le_val_bound[of x] le_val_bound[of y] that(2,3)
        order.strict_trans2[OF le_val_bound[of m] power_increasing[of "length m" k "256::nat"]] that(4)
      by (simp_all add: power_mult)
    have "(le_val x XOR le_val m) mod 2 ^ (8 * k) = (le_val y XOR le_val m) mod 2 ^ (8 * k)"
      using arg_cong[OF that(1), of le_val] by (simp add: le_val_bytes power_mult)
    then have "le_val x XOR le_val m = le_val y XOR le_val m"
      using lt by (metis mod_less take_bit_nat_eq_self_iff take_bit_xor)
    then have "le_val x = le_val y" by (metis xor.assoc xor.right_neutral xor_self_eq)
    then show ?thesis using le_bytes_val[of x] le_bytes_val[of y] that(2,3) by metis
  qed
  have "a = b" if "maskNonce dst a m = maskNonce dst b m"
  proof -
    from that have "?w 8 (le_val (take 8 m)) (take 8 a) = ?w 8 (le_val (take 8 m)) (take 8 b)"
        "?w 4 (le_val (take 4 (drop 8 m))) (take 4 (drop 8 a)) = ?w 4 (le_val (take 4 (drop 8 m))) (take 4 (drop 8 b))"
      by (simp_all add: maskNonce_def Let_def)
    then have "take 8 a = take 8 b" "take 4 (drop 8 a) = take 4 (drop 8 b)"
      using assms inj[where k = 8 and m = "take 8 m" and x = "take 8 a" and y = "take 8 b"]
        inj[where k = 4 and m = "take 4 (drop 8 m)" and x = "take 4 (drop 8 a)" and y = "take 4 (drop 8 b)"] by simp_all
    moreover have "take 4 (drop 8 a) = drop 8 a" "take 4 (drop 8 b) = drop 8 b" using assms by simp_all
    ultimately show ?thesis by (metis append_take_drop_id)
  qed
  then show ?thesis by (auto simp: maskNonce_def Let_def)
qed

theorem maskNonce_injective_witness:
  "maskNonce [] (replicate 12 0) (replicate 12 7) \<noteq> maskNonce [] (replicate 11 0 @ [0x80]) (replicate 12 7)"
proof -
  have "(replicate 12 0 :: bytes) \<noteq> replicate 11 0 @ [0x80]" by code_simp
  then show ?thesis
    using maskNonce_injective[of "replicate 12 0" "replicate 11 0 @ [0x80]" "[]" "replicate 12 7"] by simp
qed

definition rekey_inv :: "(bytes \<Rightarrow> bytes \<Rightarrow> bytes) \<Rightarrow> rekey_aead \<Rightarrow> bool" where
  "rekey_inv hmac s \<longleftrightarrow> (\<forall>k. gcmKey s = Some k \<longrightarrow> k = hkdfExpand hmac (kdfKey s) (kdfCounter s))"

text \<open>Rekeying caches correctly: on an AEAD whose cached key, if any, belongs to its counter,
  the key in use after \<^verbatim>\<open>rekeyIfRequired\<close> is the one derived from bytes 2 to 8 of the nonce at hand,
  whether it was cached or derived now, and the invariant holds again; it never fails when HMAC
  returns 32 bytes.\<close>

theorem rekey_cache_correct:
  assumes "hmac_law hmac" and "rekey_inv hmac s" and "rekeyIfRequired hmac nonce s = (e, s')"
  shows "e = None \<and> gcmKey s' = Some (hkdfExpand hmac (kdfKey s) (take 6 (drop 2 nonce)))
     \<and> rekey_inv hmac s' \<and> kdfKey s' = kdfKey s \<and> nonceMask s' = nonceMask s"
  using assms rekeyIfRequired_ok[OF assms(1), of nonce s]
  by (auto simp: rekeyIfRequired_def Let_def rekey_inv_def kdfCounterLen_def kdfCounterOffset_def split: if_splits)

definition wit_rekey :: rekey_aead where
  "wit_rekey = \<lparr>kdfKey = [], kdfCounter = replicate 6 0, nonceMask = replicate 12 0, gcmKey = None\<rparr>"

theorem rekey_cache_correct_witness:
  "gcmKey (snd (rekeyIfRequired (\<lambda>k m. replicate 32 (m ! 0)) (replicate 2 0 @ replicate 10 9) wit_rekey))
     = Some (replicate 16 9)"
proof -
  let ?h = "\<lambda>k m. replicate 32 ((m :: bytes) ! 0)"
  obtain e s' where r: "rekeyIfRequired ?h (replicate 2 0 @ replicate 10 9) wit_rekey = (e, s')" by fastforce
  have "hmac_law ?h" "rekey_inv ?h wit_rekey" by (simp_all add: hmac_law_def rekey_inv_def wit_rekey_def)
  from rekey_cache_correct[OF this r] r show ?thesis
    by (simp add: hkdfExpand_def aeadKeyLen_def min_def nth_append)
qed

end
