(* ===== verification/Alts_Record.thy ===== *)
theory Alts_Record
  imports Alts_Crypto
begin

text \<open>
  The record layer of the secure channel (\<^verbatim>\<open>pkg/net/credentials/alts/conn/record.go\<close>,
  \<^verbatim>\<open>common.go\<close>, \<^verbatim>\<open>register.go\<close>) and the framing of the handshake
  (\<^verbatim>\<open>alts/common/utils.go\<close>).  The underlying connection is explicit: what its reads will
  return is a list of chunks (an exhausted list is EOF), what was written is a byte list, and a
  write's outcome is a parameter.  Buffers are values: \<open>spare\<close> is the capacity of
  \<^verbatim>\<open>protected\<close> beyond its length, and \<^verbatim>\<open>nextFrame\<close>, which aliases its tail, is a field of its
  own.  A slice out of range, which panics, is \<open>None\<close>.
\<close>

section \<open>Frames\<close>

definition MsgLenFieldSize :: nat where "MsgLenFieldSize = 4"
definition msgTypeFieldSize :: nat where "msgTypeFieldSize = 4"
definition altsRecordLengthLimit :: nat where "altsRecordLengthLimit = 1024 * 1024"
definition altsRecordDefaultLength :: nat where "altsRecordDefaultLength = 4 * 1024"
definition altsRecordMsgType :: nat where "altsRecordMsgType = 6"
definition altsWriteBufferInitialSize :: nat where "altsWriteBufferInitialSize = 32 * 1024"
definition altsWriteBufferMaxSize :: nat where "altsWriteBufferMaxSize = 512 * 1024"

lemmas record_consts =
  MsgLenFieldSize_def msgTypeFieldSize_def altsRecordLengthLimit_def altsRecordDefaultLength_def
  altsRecordMsgType_def altsWriteBufferInitialSize_def altsWriteBufferMaxSize_def GcmTagSize_def

text \<open>\<^verbatim>\<open>ParseFramedMsg\<close>: an error, or the frame (empty when it is not complete yet) and the
  remaining bytes.  The sum of the slice bounds is taken in 32 bits.\<close>

definition ParseFramedMsg :: "bytes \<Rightarrow> nat \<Rightarrow> (bytes \<times> bytes) result" where
  "ParseFramedMsg b maxLen = (
     if length b < MsgLenFieldSize then Inr ([], b)
     else let len = le_val (take MsgLenFieldSize b) in
       if len > maxLen then errorf ''received a frame length larger than the limit''
       else if length b < len + 4 then Inr ([], b)
       else let e = (MsgLenFieldSize + len) mod 2 ^ 32 in Inr (take e b, drop e b))"

text \<open>\<^verbatim>\<open>SliceForAppend\<close> on a slice with contents \<open>inp\<close> whose array holds \<open>spare\<close> more
  bytes: the head's contents (the new bytes keep what the array held, or are zero).\<close>

definition SliceForAppend :: "bytes \<Rightarrow> bytes \<Rightarrow> nat \<Rightarrow> bytes \<times> bytes" where
  "SliceForAppend inp spare n = (
     let total = length inp + n;
         head = (if length inp + length spare \<ge> total then take total (inp @ spare) else inp @ replicate n 0)
     in (head, drop (length inp) head))"

section \<open>Connection\<close>

record 'c alts_conn =
  crypto :: 'c
  conn_buf :: bytes
  payloadLengthLimit :: nat
  protected :: bytes
  spare :: nat
  writeBuf :: bytes
  nextFrame :: bytes
  overhead :: nat

text \<open>The registry of record protocols, a map from names to constructors.\<close>

definition RegisterProtocol :: "string \<Rightarrow> 'f \<Rightarrow> (string \<rightharpoonup> 'f) \<Rightarrow> string option \<times> (string \<rightharpoonup> 'f)" where
  "RegisterProtocol protocol f protocols =
     (case protocols protocol of
        Some _ \<Rightarrow> (Some (''protocol '' @ protocol @ '' is already registered''), protocols)
      | None \<Rightarrow> (None, protocols(protocol \<mapsto> f)))"

definition NewConn ::
  "nat \<Rightarrow> (string \<rightharpoonup> (side \<Rightarrow> bytes \<Rightarrow> 'c result)) \<Rightarrow> side \<Rightarrow> string \<Rightarrow> bytes \<Rightarrow> bytes option \<Rightarrow> 'c alts_conn result" where
  "NewConn tag protocols s recordProtocol key prot =
     (case protocols recordProtocol of
        None \<Rightarrow> errorf (''negotiated unknown next_protocol '' @ recordProtocol)
      | Some newCrypto \<Rightarrow>
          (case newCrypto s key of
             Inl e \<Rightarrow> errorf (''protocol '' @ recordProtocol @ '': '' @ e)
           | Inr c \<Rightarrow>
               (let ovh = MsgLenFieldSize + msgTypeFieldSize + tag;
                    protectedBuf = (case prot of None \<Rightarrow> [] | Some p \<Rightarrow> p);
                    room = (case prot of None \<Rightarrow> 2 * altsRecordDefaultLength - 1 | Some p \<Rightarrow> 0)
                in Inr \<lparr>crypto = c, conn_buf = [], payloadLengthLimit = altsRecordDefaultLength - ovh,
                        protected = protectedBuf, spare = room,
                        writeBuf = replicate altsWriteBufferInitialSize 0,
                        nextFrame = protectedBuf, overhead = ovh\<rparr>)))"

subsection \<open>Read\<close>

text \<open>The inner loop: read until \<^verbatim>\<open>protected\<close> holds a complete frame.  It ends because every round
  consumes input.\<close>

datatype read_frame_result =
    FrameErr string bytes bytes nat "bytes list"
  | Frame bytes bytes bytes nat "bytes list"

function read_frame :: "bytes \<Rightarrow> nat \<Rightarrow> bytes list \<Rightarrow> read_frame_result" where
  "read_frame prot sp [] = FrameErr ''EOF'' prot prot (if sp = 0 then altsRecordDefaultLength else sp) []"
| "read_frame prot sp (c # cs) = (
     let sp1 = (if sp = 0 then altsRecordDefaultLength else sp);
         n = min (min sp1 altsRecordDefaultLength) (length c);
         prot1 = prot @ take n c;
         inp1 = (if n < length c then drop n c # cs else cs)
     in case ParseFramedMsg prot1 altsRecordLengthLimit of
          Inl e \<Rightarrow> FrameErr e [] prot1 (sp1 - n) inp1
        | Inr (framedMsg, next) \<Rightarrow>
            if framedMsg = [] then read_frame prot1 (sp1 - n) inp1
            else Frame framedMsg next prot1 (sp1 - n) inp1)"
  by pat_completeness auto
termination
  by (relation "measure (\<lambda>(prot, sp, inp). sum_list (map (\<lambda>c. Suc (length c)) inp))")
     (auto simp: altsRecordDefaultLength_def)

text \<open>Decrypting a complete frame.  The type field of a frame shorter than four bytes is read from
  the bytes that follow in the array (\<open>tail\<close>), and taking the ciphertext of such a frame
  panics.\<close>

definition open_frame ::
  "('c \<Rightarrow> bytes \<Rightarrow> bytes \<Rightarrow> bytes result \<times> 'c) \<Rightarrow> 'c \<Rightarrow> bytes \<Rightarrow> bytes \<Rightarrow> (bytes result \<times> 'c) option" where
  "open_frame Dec c framedMsg tl1 = (
     let msg = drop MsgLenFieldSize framedMsg;
         msgType = le_val (take msgTypeFieldSize (msg @ tl1))
     in if length (msg @ tl1) < msgTypeFieldSize then None
        else if msgType mod 256 \<noteq> altsRecordMsgType then Some (errorf ''received frame with incorrect message type'', c)
        else if length msg < msgTypeFieldSize then None
        else Some (Dec c [] (drop msgTypeFieldSize msg)))"

definition conn_Read ::
  "('c \<Rightarrow> bytes \<Rightarrow> bytes \<Rightarrow> bytes result \<times> 'c) \<Rightarrow> bytes \<Rightarrow> nat \<Rightarrow> 'c alts_conn \<Rightarrow> bytes list \<Rightarrow>
   (bytes result \<times> 'c alts_conn \<times> bytes list) option" where
  "conn_Read Dec stale blen p inp = (
     let deliver = (\<lambda>p inp. Some (Inr (take blen (conn_buf p)), p\<lparr>conn_buf := drop blen (conn_buf p)\<rparr>, inp));
         decrypt = (\<lambda>framedMsg p inp.
           case open_frame Dec (crypto p) framedMsg (nextFrame p @ stale) of
             None \<Rightarrow> None
           | Some (Inl e, c) \<Rightarrow> Some (Inl e, p\<lparr>crypto := c, conn_buf := []\<rparr>, inp)
           | Some (Inr pt, c) \<Rightarrow> deliver (p\<lparr>crypto := c, conn_buf := pt\<rparr>) inp)
     in if conn_buf p \<noteq> [] then deliver p inp
        else case ParseFramedMsg (nextFrame p) altsRecordLengthLimit of
          Inl e \<Rightarrow> Some (Inl e, p\<lparr>nextFrame := []\<rparr>, inp)
        | Inr (framedMsg, next) \<Rightarrow>
            if framedMsg \<noteq> [] then decrypt framedMsg (p\<lparr>nextFrame := next\<rparr>) inp
            else let p1 = p\<lparr>protected := next, spare := spare p + length (protected p) - length next, nextFrame := next\<rparr>
              in case read_frame (protected p1) (spare p1) inp of
                   FrameErr e next prot sp inp1 \<Rightarrow>
                     Some (Inl e, p1\<lparr>protected := prot, spare := sp, nextFrame := next\<rparr>, inp1)
                 | Frame framedMsg next prot sp inp1 \<Rightarrow>
                     decrypt framedMsg (p1\<lparr>protected := prot, spare := sp, nextFrame := next\<rparr>) inp1)"

subsection \<open>Write\<close>

definition overwrite :: "bytes \<Rightarrow> nat \<Rightarrow> bytes \<Rightarrow> bytes" where
  "overwrite wb i xs = take i wb @ xs @ drop (i + length xs) wb"

text \<open>The inner loop of \<^verbatim>\<open>Write\<close>: encrypt the payloads of one batch into the write buffer.  The
  payload limit is 4096 less the overhead, hence not 0, which the recursion checks.\<close>

function frame_loop ::
  "('c \<Rightarrow> bytes \<Rightarrow> bytes \<Rightarrow> (bytes result \<times> 'c) option) \<Rightarrow> nat \<Rightarrow> nat \<Rightarrow> 'c \<Rightarrow> nat \<Rightarrow> bytes \<Rightarrow> bytes \<Rightarrow>
   (string option \<times> 'c \<times> nat \<times> bytes) option" where
  "frame_loop Enc limit ovh c idx wb partialB =
     (if partialB = [] \<or> limit = 0 then Some (None, c, idx, wb)
      else let buf = take limit partialB in
        case Enc c (le_bytes msgTypeFieldSize altsRecordMsgType) buf of
          None \<Rightarrow> None
        | Some (Inl e, c') \<Rightarrow> Some (Some e, c', idx, wb)
        | Some (Inr msg, c') \<Rightarrow>
            if idx + MsgLenFieldSize + length msg > length wb then None
            else frame_loop Enc limit ovh c' (idx + length buf + ovh)
                   (overwrite wb idx (le_bytes MsgLenFieldSize (length msg) @ msg)) (drop limit partialB))"
  by pat_completeness auto
termination
  by (relation "measure (\<lambda>(Enc, limit, ovh, c, idx, wb, partialB). length partialB)") auto

declare frame_loop.simps [simp del]

text \<open>The outer loop, one batch and one write to the network per round.  \<open>wr out data\<close> is the
  number of bytes the network took of \<open>data\<close> after \<open>out\<close>, and its error.\<close>

function write_loop ::
  "('c \<Rightarrow> bytes \<Rightarrow> bytes \<Rightarrow> (bytes result \<times> 'c) option) \<Rightarrow> (bytes \<Rightarrow> bytes \<Rightarrow> nat \<times> string option) \<Rightarrow>
   bytes \<Rightarrow> nat \<Rightarrow> nat \<Rightarrow> 'c alts_conn \<Rightarrow> bytes \<Rightarrow>
   ((nat \<times> string option) \<times> 'c alts_conn \<times> bytes) option" where
  "write_loop Enc wr b psize start p out =
     (if start < length b \<and> 0 < psize then
        (case frame_loop Enc (payloadLengthLimit p) (overhead p) (crypto p) 0 (writeBuf p) (take psize (drop start b)) of
           None \<Rightarrow> None
         | Some (Some e, c, idx, wb) \<Rightarrow> Some ((length b, Some e), p\<lparr>crypto := c, writeBuf := wb\<rparr>, out)
         | Some (None, c, idx, wb) \<Rightarrow>
             if idx > length wb then None
             else let p1 = p\<lparr>crypto := c, writeBuf := wb\<rparr>; (nn, err) = wr out (take idx wb); out1 = out @ take nn (take idx wb)
               in case err of
                    Some e \<Rightarrow> Some ((start + nn div altsRecordDefaultLength * payloadLengthLimit p, Some e), p1, out1)
                  | None \<Rightarrow> write_loop Enc wr b psize (start + psize) p1 out1)
      else Some ((length b, None), p, out))"
  by pat_completeness auto
termination
  by (relation "measure (\<lambda>(Enc, wr, b, psize, start, p, out). length b - start)") auto

declare write_loop.simps [simp del]

definition conn_Write ::
  "('c \<Rightarrow> bytes \<Rightarrow> bytes \<Rightarrow> (bytes result \<times> 'c) option) \<Rightarrow> (bytes \<Rightarrow> bytes \<Rightarrow> nat \<times> string option) \<Rightarrow>
   bytes \<Rightarrow> 'c alts_conn \<Rightarrow> bytes \<Rightarrow> ((nat \<times> string option) \<times> 'c alts_conn \<times> bytes) option" where
  "conn_Write Enc wr b p out = (
     let numOfFrames = (length b + payloadLengthLimit p - 1) div payloadLengthLimit p;
         size0 = length b + numOfFrames * overhead p;
         (size, partialBSize) =
           (if size0 > altsWriteBufferMaxSize
            then (altsWriteBufferMaxSize, altsWriteBufferMaxSize div altsRecordDefaultLength * payloadLengthLimit p)
            else (size0, length b));
         p1 = (if length (writeBuf p) < size then p\<lparr>writeBuf := replicate size 0\<rparr> else p)
     in write_loop Enc wr b partialBSize 0 p1 out)"

section \<open>Handshake messages (common/utils.go)\<close>

fun be_bytes :: "nat \<Rightarrow> nat \<Rightarrow> bytes" where
  "be_bytes 0 v = []"
| "be_bytes (Suc k) v = be_bytes k (v div 256) @ [word_of_nat (v mod 256)]"

definition defaultSendHandshakeMessage :: "bytes \<Rightarrow> bytes \<Rightarrow> bytes" where
  "defaultSendHandshakeMessage handshakeBytes sig =
     be_bytes 4 (length handshakeBytes mod 2 ^ 32) @ handshakeBytes @ be_bytes 4 (length sig mod 2 ^ 32) @ sig"

definition hs_read :: "string \<Rightarrow> nat \<Rightarrow> bytes \<Rightarrow> (bytes \<times> bytes) result" where
  "hs_read what n s = (if n \<le> length s then Inr (take n s, drop n s) else errorf (''failed to read '' @ what))"

definition defaultReceiveHandshakeMessage :: "bytes \<Rightarrow> ((bytes \<times> bytes) \<times> bytes) result" where
  "defaultReceiveHandshakeMessage s =
     (case hs_read ''handshake length'' 4 s of Inl e \<Rightarrow> Inl e | Inr (l1, s1) \<Rightarrow>
     (case hs_read ''handshake bytes'' (be_val l1) s1 of Inl e \<Rightarrow> Inl e | Inr (hs, s2) \<Rightarrow>
     (case hs_read ''signature length'' 4 s2 of Inl e \<Rightarrow> Inl e | Inr (l2, s3) \<Rightarrow>
     (case hs_read ''signature'' (be_val l2) s3 of Inl e \<Rightarrow> Inl e | Inr (sig, s4) \<Rightarrow> Inr ((hs, sig), s4)))))"

definition GetALTSKeySize :: "string \<Rightarrow> nat result" where
  "GetALTSKeySize protocol =
     (if protocol = ''ALTSRP_GCM_AES128'' then Inr 16
      else if protocol = ''ALTSRP_GCM_AES128_REKEY'' then Inr 44
      else if protocol = ''ALTSRP_XCHACHA20_POLY1305_REKEY'' then Inr 56
      else errorf (''unsupported protocol: '' @ protocol))"

text \<open>\<open>hkdf secret info n\<close> is the first \<open>n\<close> bytes of the HKDF stream, or its error.\<close>

definition defaultExpandKey :: "(bytes \<Rightarrow> bytes \<Rightarrow> nat \<Rightarrow> bytes result) \<Rightarrow> bytes \<Rightarrow> string \<Rightarrow> bytes \<Rightarrow> bytes result" where
  "defaultExpandKey hkdf sharedSecret protocol info =
     (case GetALTSKeySize protocol of
        Inl e \<Rightarrow> errorf (''failed to get key size: '' @ e)
      | Inr keySize \<Rightarrow>
          if keySize \<le> length sharedSecret then Inr (take keySize sharedSecret)
          else (case hkdf sharedSecret info keySize of
                  Inl e \<Rightarrow> errorf (''failed to expand key: '' @ e) | Inr key \<Rightarrow> Inr key))"

definition SplitKeyAndNonce :: "bytes \<Rightarrow> (bytes \<times> bytes) option" where
  "SplitKeyAndNonce k = (if length k \<noteq> 56 then None else Some (take 32 k, drop 32 k))"

definition SplitKeyAndCounterMask :: "bytes \<Rightarrow> (bytes \<times> bytes) option" where
  "SplitKeyAndCounterMask k = (if length k \<noteq> 44 then None else Some (take 32 k, drop 32 k))"

section \<open>Streams over a pair of connections\<close>

text \<open>The bytes of the frames of the payloads a write is cut into.\<close>

fun frames ::
  "('c \<Rightarrow> bytes \<Rightarrow> bytes \<Rightarrow> (bytes result \<times> 'c) option) \<Rightarrow> 'c \<Rightarrow> bytes list \<Rightarrow> bytes \<times> 'c" where
  "frames Enc s [] = ([], s)"
| "frames Enc s (pt # pts) =
     (case Enc s (le_bytes msgTypeFieldSize altsRecordMsgType) pt of
        Some (Inr msg, s') \<Rightarrow>
          (le_bytes MsgLenFieldSize (length msg) @ msg @ fst (frames Enc s' pts), snd (frames Enc s' pts))
      | _ \<Rightarrow> ([], s))"

lemma ParseFramedMsg_prefix:
  assumes "w @ rest = le_bytes 4 (length msg) @ msg @ G" and "length msg \<le> lim" and "lim + 4 < 2 ^ 32"
  shows "ParseFramedMsg w lim =
    (if 4 + length msg \<le> length w then Inr (le_bytes 4 (length msg) @ msg, drop (4 + length msg) w) else Inr ([], w))"
proof (cases "length w < 4")
  case True
  then show ?thesis by (simp add: ParseFramedMsg_def MsgLenFieldSize_def)
next
  case False
  then have "take 4 w = take 4 (w @ rest)" by simp
  also have "\<dots> = le_bytes 4 (length msg)" unfolding assms(1) by simp
  finally have t: "take 4 w = le_bytes 4 (length msg)" .
  have l: "length msg < 2 ^ 32" using assms(2,3) by simp
  then have v: "le_val (take 4 w) = length msg" using t by (simp add: le_val_bytes)
  have "take (4 + length msg) w = le_bytes 4 (length msg) @ msg" if "4 + length msg \<le> length w"
  proof -
    have "take (4 + length msg) w = take (4 + length msg) (w @ rest)" using that by simp
    then show ?thesis unfolding assms(1) by simp
  qed
  then show ?thesis using False assms(2,3) by (simp add: ParseFramedMsg_def MsgLenFieldSize_def v Let_def add.commute)
qed

lemma read_frame_next:
  assumes "prot @ concat inp = le_bytes 4 (length msg) @ msg @ G" and "length prot < 4 + length msg"
    and "length msg \<le> altsRecordLengthLimit"
  shows "\<exists>next prot' sp' inp'. read_frame prot sp inp = Frame (le_bytes 4 (length msg) @ msg) next prot' sp' inp'
     \<and> next @ concat inp' = G"
  using assms
proof (induction prot sp inp rule: read_frame.induct)
  case (1 prot sp)
  then have "length prot = 4 + length msg + length G" by (metis append_Nil2 concat.simps(1) length_append length_le_bytes add.assoc)
  then show ?case using 1 by simp
next
  case (2 prot sp c cs)
  define sp1 where "sp1 = (if sp = 0 then altsRecordDefaultLength else sp)"
  define n where "n = min (min sp1 altsRecordDefaultLength) (length c)"
  define prot1 where "prot1 = prot @ take n c"
  define inp1 where "inp1 = (if n < length c then drop n c # cs else cs)"
  have j: "prot1 @ concat inp1 = le_bytes 4 (length msg) @ msg @ G"
  proof -
    have "concat inp1 = drop n c @ concat cs" by (simp add: inp1_def)
    then show ?thesis
      using "2.prems"(1) by (metis append.assoc append_take_drop_id concat.simps(2) prot1_def)
  qed
  have lim: "altsRecordLengthLimit + 4 < 2 ^ 32" by (simp add: altsRecordLengthLimit_def)
  note P = ParseFramedMsg_prefix[OF j "2.prems"(3) lim]
  have st: "read_frame prot sp (c # cs) = (case ParseFramedMsg prot1 altsRecordLengthLimit of
          Inl e \<Rightarrow> FrameErr e [] prot1 (sp1 - n) inp1
        | Inr (framedMsg, next) \<Rightarrow>
            if framedMsg = [] then read_frame prot1 (sp1 - n) inp1
            else Frame framedMsg next prot1 (sp1 - n) inp1)"
    by (simp only: read_frame.simps Let_def sp1_def n_def prot1_def inp1_def)
  show ?case
  proof (cases "4 + length msg \<le> length prot1")
    case True
    have "drop (4 + length msg) prot1 @ concat inp1 = drop (4 + length msg) (prot1 @ concat inp1)" using True by simp
    also have "\<dots> = G" unfolding j by simp
    finally have G: "drop (4 + length msg) prot1 @ concat inp1 = G" .
    have "le_bytes 4 (length msg) @ msg \<noteq> []" by (metis append_is_Nil_conv length_le_bytes list.size(3) zero_neq_numeral)
    then have "read_frame prot sp (c # cs) = Frame (le_bytes 4 (length msg) @ msg) (drop (4 + length msg) prot1) prot1 (sp1 - n) inp1"
      unfolding st P if_P[OF True] by (simp only: sum.case prod.case if_False)
    then show ?thesis using G by blast
  next
    case False
    then have "read_frame prot sp (c # cs) = read_frame prot1 (sp1 - n) inp1" using st P by simp
    moreover have "\<exists>next prot' sp' inp'. read_frame prot1 (sp1 - n) inp1 = Frame (le_bytes 4 (length msg) @ msg) next prot' sp' inp'
       \<and> next @ concat inp' = G"
      by (rule "2.IH"[OF sp1_def n_def prot1_def inp1_def P[unfolded if_not_P[OF False]] refl refl j]) (use False "2.prems" in simp_all)
    ultimately show ?thesis by simp
  qed
qed

text \<open>\<^verbatim>\<open>io.ReadFull\<close> on a secure connection, with a bound on the number of reads.\<close>

fun conn_ReadFull ::
  "('c \<Rightarrow> bytes \<Rightarrow> bytes \<Rightarrow> bytes result \<times> 'c) \<Rightarrow> bytes \<Rightarrow> nat \<Rightarrow> nat \<Rightarrow> 'c alts_conn \<Rightarrow> bytes list \<Rightarrow>
   (bytes result \<times> 'c alts_conn \<times> bytes list) option" where
  "conn_ReadFull Dec stale fuel 0 q inp = Some (Inr [], q, inp)"
| "conn_ReadFull Dec stale 0 (Suc n) q inp = None"
| "conn_ReadFull Dec stale (Suc f) (Suc n) q inp =
     (case conn_Read Dec stale (Suc n) q inp of
        None \<Rightarrow> None
      | Some (Inl e, q', inp') \<Rightarrow> Some (Inl e, q', inp')
      | Some (Inr x, q', inp') \<Rightarrow>
          (case conn_ReadFull Dec stale f (Suc n - length x) q' inp' of
             Some (Inr y, q'', inp'') \<Rightarrow> Some (Inr (x @ y), q'', inp'')
           | r \<Rightarrow> r))"

text \<open>The reader \<open>q\<close> with pending input \<open>inp\<close> still has the bytes \<open>b\<close> to deliver: some are
  decrypted already, the rest are in frames of a sender that is in step.\<close>

definition holds_stream where
  "holds_stream Enc tag paired k q inp b \<longleftrightarrow> (\<exists>pts s.
     conn_buf q @ concat pts = b \<and> nextFrame q @ concat inp = fst (frames Enc s pts)
     \<and> paired (length pts + k) s (crypto q)
     \<and> (\<forall>pt\<in>set pts. pt \<noteq> [] \<and> length pt + tag + 4 \<le> altsRecordLengthLimit))"

context record_crypto
begin

lemma frames_Cons:
  assumes "paired (Suc k) s r"
  obtains c s' r' where "Enc s (le_bytes msgTypeFieldSize altsRecordMsgType) pt = Some (Inr (le_bytes 4 6 @ c), s')"
    and "length c = length pt + tag" and "Dec r [] c = (Inr pt, r')" and "paired k s' r'"
    and "frames Enc s (pt # pts) =
      (le_bytes 4 (length (le_bytes 4 6 @ c)) @ (le_bytes 4 6 @ c) @ fst (frames Enc s' pts), snd (frames Enc s' pts))"
  using enc_dec[OF assms, of "le_bytes 4 6" pt "[]"] by (auto simp: record_consts)

lemma frames_paired:
  "paired (length pts + k) s r \<Longrightarrow> (\<exists>r'. paired k (snd (frames Enc s pts)) r')
     \<and> length (fst (frames Enc s pts)) = length (concat pts) + length pts * (8 + tag)"
proof (induction pts arbitrary: s r)
  case (Cons pt pts)
  then have "paired (Suc (length pts + k)) s r" by simp
  then obtain c s' r' where c: "length c = length pt + tag" "paired (length pts + k) s' r'"
    "frames Enc s (pt # pts) = (le_bytes 4 (length (le_bytes 4 6 @ c)) @ (le_bytes 4 6 @ c) @ fst (frames Enc s' pts), snd (frames Enc s' pts))"
    by (rule frames_Cons[where pt = pt and pts = pts])
  from Cons.IH[OF c(2)] show ?case unfolding c(3) using c(1) by simp
qed auto

lemma frames_append:
  "paired (length pts + k) s r \<Longrightarrow> frames Enc s (pts @ pts2) =
     (fst (frames Enc s pts) @ fst (frames Enc (snd (frames Enc s pts)) pts2), snd (frames Enc (snd (frames Enc s pts)) pts2))"
proof (induction pts arbitrary: s r)
  case (Cons pt pts)
  then have p: "paired (Suc (length pts + k)) s r" by simp
  obtain c s' r' where c: "paired (length pts + k) s' r'"
     "Enc s (le_bytes msgTypeFieldSize altsRecordMsgType) pt = Some (Inr (le_bytes 4 6 @ c), s')"
    by (rule frames_Cons[OF p, where pt = pt and pts = pts])
  from Cons.IH[OF c(1)] c(2) show ?case by simp
qed simp

lemma overwrite_overwrite:
  "i + length f + length g \<le> length wb \<Longrightarrow>
   overwrite (overwrite wb i f) (i + length f) g = overwrite wb i (f @ g)"
  by (simp add: overwrite_def ac_simps)

lemma frame_loop_frames:
  assumes "paired (length (chunks l pb) + k) s r" and "0 < l"
    and "idx + length (fst (frames Enc s (chunks l pb))) \<le> length wb"
  shows "frame_loop Enc l (8 + tag) s idx wb pb =
    Some (None, snd (frames Enc s (chunks l pb)), idx + length (fst (frames Enc s (chunks l pb))),
      overwrite wb idx (fst (frames Enc s (chunks l pb))))"
  using assms
proof (induction l pb arbitrary: s r idx wb rule: chunks.induct)
  case (1 l pb)
  show ?case
  proof (cases "pb = []")
    case True
    then show ?thesis using 1(4) by (subst frame_loop.simps) (simp add: overwrite_def)
  next
    case False
    have ch: "chunks l pb = take l pb # chunks l (drop l pb)" using chunks_Cons[OF False] 1(3) by simp
    have p: "paired (Suc (length (chunks l (drop l pb)) + k)) s r" using 1(2) ch by simp
    obtain c s' r' where c: "Enc s (le_bytes msgTypeFieldSize altsRecordMsgType) (take l pb) = Some (Inr (le_bytes 4 6 @ c), s')"
        "length c = length (take l pb) + tag" "paired (length (chunks l (drop l pb)) + k) s' r'"
        "frames Enc s (take l pb # chunks l (drop l pb)) = (le_bytes 4 (length (le_bytes 4 6 @ c)) @ (le_bytes 4 6 @ c)
           @ fst (frames Enc s' (chunks l (drop l pb))), snd (frames Enc s' (chunks l (drop l pb))))"
      by (rule frames_Cons[OF p, where pt = "take l pb" and pts = "chunks l (drop l pb)"])
    let ?f = "le_bytes 4 (length (le_bytes 4 6 @ c)) @ le_bytes 4 6 @ c"
    let ?R = "fst (frames Enc s' (chunks l (drop l pb)))"
    have F: "fst (frames Enc s (chunks l pb)) = ?f @ ?R" using ch c(4) by simp
    have lf: "length ?f = length (take l pb) + (8 + tag)" using c(2) by simp
    have room: "idx + length ?f + length ?R \<le> length wb" using 1(4) F by simp
    have lo: "length (overwrite wb idx ?f) = length wb" using room by (simp add: overwrite_def)
    have IH: "frame_loop Enc l (8 + tag) s' (idx + length ?f) (overwrite wb idx ?f) (drop l pb) =
      Some (None, snd (frames Enc s' (chunks l (drop l pb))), (idx + length ?f) + length ?R,
        overwrite (overwrite wb idx ?f) (idx + length ?f) ?R)"
      by (rule "1.IH"[OF _ c(3) 1(3)]) (use False 1(3) room lo in simp_all)
    have "frame_loop Enc l (8 + tag) s idx wb pb = frame_loop Enc l (8 + tag) s' (idx + length ?f) (overwrite wb idx ?f) (drop l pb)"
      using False 1(3) c(1) room lf by (subst frame_loop.simps) (simp add: Let_def MsgLenFieldSize_def ac_simps)
    then show ?thesis
      unfolding IH overwrite_overwrite[OF room] F using ch c(4) by (simp add: add.assoc)
  qed
qed

text \<open>The batches of a write: each is a whole number of payloads, or there is one batch.\<close>

lemma write_loop_frames:
  assumes "paired (length (chunks l (drop start b)) + k) (crypto p) r" and "0 < l"
    and "payloadLengthLimit p = l" and "overhead p = 8 + tag"
    and "\<exists>m>0. psize = m * l \<or> length b \<le> psize \<and> 0 < psize"
    and "\<And>x :: bytes. length x \<le> psize \<Longrightarrow> length x \<le> length b \<Longrightarrow>
           length x + length (chunks l x) * (8 + tag) \<le> length (writeBuf p)"
    and "\<And>out d. wr out d = (length d, None)"
  shows "\<exists>p'. write_loop Enc wr b psize start p out =
      Some ((length b, None), p', out @ fst (frames Enc (crypto p) (chunks l (drop start b))))
    \<and> crypto p' = snd (frames Enc (crypto p) (chunks l (drop start b)))
    \<and> payloadLengthLimit p' = l \<and> overhead p' = 8 + tag"
  using assms(1,3,4,6)
proof (induction "length b - start" arbitrary: start p r out rule: less_induct)
  case less
  show ?case
  proof (cases "start < length b")
    case False
    then show ?thesis using less.prems by (subst write_loop.simps) simp
  next
    case True
    let ?x = "take psize (drop start b)"
    have pos: "0 < psize" using assms(2,5) by auto
    have split: "chunks l ?x @ chunks l (drop (start + psize) b) = chunks l (drop start b)"
    proof -
      from assms(5) consider (m) m where "psize = m * l" | (one) "length b \<le> psize" by auto
      then show ?thesis
        by cases (use chunks_split[OF assms(2), of _ "drop start b"] in \<open>auto simp: add.commute\<close>)
    qed
    let ?s = "crypto p" and ?c1 = "chunks l ?x" and ?c2 = "chunks l (drop (start + psize) b)"
    have pr: "paired (length ?c1 + (length ?c2 + k)) ?s r" using less.prems(1) by (simp flip: split add: add.assoc)
    let ?F = "fst (frames Enc ?s ?c1)" and ?s1 = "snd (frames Enc ?s ?c1)"
    obtain r1 where r1: "paired (length ?c2 + k) ?s1 r1" and lF: "length ?F = length ?x + length ?c1 * (8 + tag)"
      using frames_paired[OF pr] concat_chunks[OF assms(2), of ?x] by auto
    have room: "0 + length ?F \<le> length (writeBuf p)"
      unfolding lF add_0 by (rule less.prems(4)) simp_all
    note fl = frame_loop_frames[OF pr assms(2) room]
    let ?wb = "overwrite (writeBuf p) 0 ?F"
    have wb: "length ?wb = length (writeBuf p)" "take (length ?F) ?wb = ?F"
      using room by (simp_all add: overwrite_def)
    let ?p1 = "p\<lparr>crypto := ?s1, writeBuf := ?wb\<rparr>"
    have step: "write_loop Enc wr b psize start p out = write_loop Enc wr b psize (start + psize) ?p1 (out @ ?F)"
      using True pos fl less.prems(2,3) room wb
      by (subst write_loop.simps) (simp add: assms(7))
    have "\<exists>p'. write_loop Enc wr b psize (start + psize) ?p1 (out @ ?F) =
        Some ((length b, None), p', (out @ ?F) @ fst (frames Enc (crypto ?p1) ?c2))
      \<and> crypto p' = snd (frames Enc (crypto ?p1) ?c2) \<and> payloadLengthLimit p' = l \<and> overhead p' = 8 + tag"
      by (rule less.hyps) (use True pos r1 less.prems wb in simp_all)
    then show ?thesis
      unfolding step using frames_append[OF pr, of ?c2] split by simp
  qed
qed

lemma conn_Write_frames:
  assumes "paired (length (chunks l b) + k) (crypto p) r" and "tag < 4088" and "l = 4088 - tag"
    and "payloadLengthLimit p = l" and "overhead p = 8 + tag" and "\<And>out d. wr out d = (length d, None)"
  shows "\<exists>p'. conn_Write Enc wr b p out = Some ((length b, None), p', out @ fst (frames Enc (crypto p) (chunks l b)))
    \<and> crypto p' = snd (frames Enc (crypto p) (chunks l b)) \<and> payloadLengthLimit p' = l \<and> overhead p' = 8 + tag"
proof -
  have l: "0 < l" "l + (8 + tag) = 4096" using assms(2,3) by simp_all
  let ?n = "\<lambda>m. (m + l - 1) div l"
  let ?size0 = "length b + ?n (length b) * (8 + tag)"
  have mono: "x + ?n x * (8 + tag) \<le> y + ?n y * (8 + tag)" if "x \<le> y" for x y
    using that by (intro add_mono mult_right_mono div_le_mono) simp_all
  show ?thesis
  proof (cases "?size0 > altsWriteBufferMaxSize")
    case False
    define p1 where "p1 = (if length (writeBuf p) < ?size0 then p\<lparr>writeBuf := replicate ?size0 0\<rparr> else p)"
    have e: "conn_Write Enc wr b p out = write_loop Enc wr b (length b) 0 p1 out"
      using False assms(4,5) by (simp add: conn_Write_def p1_def Let_def)
    show ?thesis
    proof (cases "b = []")
      case True
      then show ?thesis unfolding e using assms(4,5) by (subst write_loop.simps) (auto simp: p1_def)
    next
      case b: False
      have cap: "length x + length (chunks l x) * (8 + tag) \<le> length (writeBuf p1)" if "length x \<le> length b" for x :: bytes
        using mono[OF that] l(1) by (auto simp: length_chunks p1_def)
      have p1: "crypto p1 = crypto p" "payloadLengthLimit p1 = l" "overhead p1 = 8 + tag"
        using assms(4,5) by (simp_all add: p1_def)
      show ?thesis unfolding e
        using write_loop_frames[of l 0 b k p1 r "length b" wr out] assms(1,6) b l(1) cap p1 by auto
    qed
  next
    case True
    define p1 where "p1 = (if length (writeBuf p) < 524288 then p\<lparr>writeBuf := replicate 524288 0\<rparr> else p)"
    have e: "conn_Write Enc wr b p out = write_loop Enc wr b (128 * l) 0 p1 out"
      using True assms(4,5) by (simp add: conn_Write_def p1_def Let_def record_consts)
    have cap: "length x + length (chunks l x) * (8 + tag) \<le> length (writeBuf p1)" if "length x \<le> 128 * l" for x :: bytes
    proof -
      have "?n (128 * l) = 128"
      proof -
        have "128 * l + l - 1 = (l - 1) + 128 * l" by simp
        then have "?n (128 * l) = ((l - 1) + 128 * l) div l" by (simp only:)
        also have "\<dots> = 128 + (l - 1) div l" by (rule div_mult_self1) (use l(1) in simp)
        finally show ?thesis using l(1) by simp
      qed
      with mono[OF that] have "length x + ?n (length x) * (8 + tag) \<le> 128 * (l + (8 + tag))" by simp
      then show ?thesis using l by (auto simp: length_chunks p1_def)
    qed
    have p1: "crypto p1 = crypto p" "payloadLengthLimit p1 = l" "overhead p1 = 8 + tag"
      using assms(4,5) by (simp_all add: p1_def)
    have ps: "\<exists>m>0. 128 * l = m * l \<or> length b \<le> 128 * l \<and> 0 < 128 * l" by (rule exI[of _ 128]) simp
    show ?thesis unfolding e
      using write_loop_frames[of l 0 b k p1 r "128 * l" wr out] assms(1,6) l(1) cap p1 ps by auto
  qed
qed

lemma open_frame_ok:
  assumes "Dec r [] c = (Inr pt, r')"
  shows "open_frame Dec r (le_bytes 4 n @ le_bytes 4 6 @ c) tl1 = Some (Inr pt, r')"
proof -
  have "le_val (le_bytes 4 6) = 6" by (simp add: le_val_bytes)
  then show ?thesis using assms by (simp add: open_frame_def record_consts)
qed

lemma conn_Read_buffered:
  "conn_buf q \<noteq> [] \<Longrightarrow> conn_Read Dec stale blen q inp =
     Some (Inr (take blen (conn_buf q)), q\<lparr>conn_buf := drop blen (conn_buf q)\<rparr>, inp)"
  by (simp add: conn_Read_def)

lemma conn_Read_frame:
  assumes "conn_buf q = []" and "nextFrame q @ concat inp = le_bytes 4 (length (le_bytes 4 6 @ c)) @ (le_bytes 4 6 @ c) @ G"
    and "length (le_bytes 4 6 @ c) \<le> altsRecordLengthLimit" and "Dec (crypto q) [] c = (Inr pt, r')"
  shows "\<exists>q' inp'. conn_Read Dec stale blen q inp = Some (Inr (take blen pt), q', inp')
    \<and> conn_buf q' = drop blen pt \<and> crypto q' = r' \<and> nextFrame q' @ concat inp' = G"
proof -
  let ?m = "le_bytes 4 6 @ c"
  have lim: "altsRecordLengthLimit + 4 < 2 ^ 32" by (simp add: altsRecordLengthLimit_def)
  note P = ParseFramedMsg_prefix[OF assms(2,3) lim]
  have ne: "le_bytes 4 (length ?m) @ ?m \<noteq> []" by (metis append_is_Nil_conv length_le_bytes list.size(3) zero_neq_numeral)
  note open1 = open_frame_ok[OF assms(4), of "length ?m"]
  show ?thesis
  proof (cases "4 + length ?m \<le> length (nextFrame q)")
    case True
    have "drop (4 + length ?m) (nextFrame q) @ concat inp = drop (4 + length ?m) (nextFrame q @ concat inp)" using True by simp
    then have G: "drop (4 + length ?m) (nextFrame q) @ concat inp = G" unfolding assms(2) by simp
    have "ParseFramedMsg (nextFrame q) altsRecordLengthLimit = Inr (le_bytes 4 (length ?m) @ ?m, drop (4 + length ?m) (nextFrame q))"
      using P True by presburger
    with ne open1 assms(1) G show ?thesis by (simp add: conn_Read_def Let_def)
  next
    case False
    then have P': "ParseFramedMsg (nextFrame q) altsRecordLengthLimit = Inr ([], nextFrame q)" using P by presburger
    obtain next' prot' sp' inp' where
      "read_frame (nextFrame q) (spare q + length (protected q) - length (nextFrame q)) inp = Frame (le_bytes 4 (length ?m) @ ?m) next' prot' sp' inp'"
      "next' @ concat inp' = G"
      using read_frame_next[OF assms(2) _ assms(3)] False by (metis not_le)
    with P' open1 assms(1) show ?thesis by (simp add: conn_Read_def Let_def)
  qed
qed

lemma conn_Read_step:
  assumes "holds_stream Enc tag paired k q inp b" and "b \<noteq> []" and "0 < blen"
  shows "\<exists>x q' inp' b'. conn_Read Dec stale blen q inp = Some (Inr x, q', inp') \<and> x \<noteq> [] \<and> length x \<le> blen
    \<and> b = x @ b' \<and> holds_stream Enc tag paired k q' inp' b'"
proof -
  from assms(1) obtain pts s where b: "conn_buf q @ concat pts = b" and inp: "nextFrame q @ concat inp = fst (frames Enc s pts)"
    and pr: "paired (length pts + k) s (crypto q)"
    and ok: "\<forall>pt\<in>set pts. pt \<noteq> [] \<and> length pt + tag + 4 \<le> altsRecordLengthLimit"
    unfolding holds_stream_def by blast
  show ?thesis
  proof (cases "conn_buf q = []")
    case False
    let ?q = "q\<lparr>conn_buf := drop blen (conn_buf q)\<rparr>"
    have "holds_stream Enc tag paired k ?q inp (drop blen (conn_buf q) @ concat pts)"
      using inp pr ok unfolding holds_stream_def by (intro exI[of _ pts] exI[of _ s]) simp
    moreover have "b = take blen (conn_buf q) @ drop blen (conn_buf q) @ concat pts" using b by (metis append.assoc append_take_drop_id)
    ultimately show ?thesis using conn_Read_buffered[OF False] False assms(3)
      by (intro exI[of _ "take blen (conn_buf q)"] exI[of _ ?q] exI[of _ inp] exI[of _ "drop blen (conn_buf q) @ concat pts"]) simp
  next
    case True
    with b assms(2) obtain pt pts' where pts: "pts = pt # pts'" by (cases pts) auto
    have p1: "paired (Suc (length pts' + k)) s (crypto q)" using pr pts by simp
    obtain c s' r' where c: "length c = length pt + tag" "Dec (crypto q) [] c = (Inr pt, r')" "paired (length pts' + k) s' r'"
      "frames Enc s (pt # pts') = (le_bytes 4 (length (le_bytes 4 6 @ c)) @ (le_bytes 4 6 @ c) @ fst (frames Enc s' pts'), snd (frames Enc s' pts'))"
      by (rule frames_Cons[OF p1, where pt = pt and pts = pts'])
    have f: "nextFrame q @ concat inp = le_bytes 4 (length (le_bytes 4 6 @ c)) @ (le_bytes 4 6 @ c) @ fst (frames Enc s' pts')"
      using inp pts c(4) by simp
    have "length (le_bytes 4 6 @ c) \<le> altsRecordLengthLimit" using ok pts c(1) by simp
    from conn_Read_frame[OF True f this c(2), of stale blen] obtain q' inp' where
      r: "conn_Read Dec stale blen q inp = Some (Inr (take blen pt), q', inp')" "conn_buf q' = drop blen pt"
        "crypto q' = r'" "nextFrame q' @ concat inp' = fst (frames Enc s' pts')" by blast
    have "holds_stream Enc tag paired k q' inp' (drop blen pt @ concat pts')"
      using r c(3) ok pts unfolding holds_stream_def by (intro exI[of _ pts'] exI[of _ s']) simp
    moreover have "b = take blen pt @ drop blen pt @ concat pts'"
      using b True pts by (metis append.assoc append_Nil append_take_drop_id concat.simps(2))
    moreover have "pt \<noteq> []" using ok pts by simp
    ultimately show ?thesis using r(1) assms(3)
      by (intro exI[of _ "take blen pt"] exI[of _ q'] exI[of _ inp'] exI[of _ "drop blen pt @ concat pts'"]) simp
  qed
qed

lemma conn_ReadFull_stream:
  assumes "holds_stream Enc tag paired k q inp b" and "n \<le> length b" and "n \<le> fuel"
  shows "\<exists>q' inp'. conn_ReadFull Dec stale fuel n q inp = Some (Inr (take n b), q', inp')
     \<and> holds_stream Enc tag paired k q' inp' (drop n b)"
  using assms
proof (induction n arbitrary: fuel q inp b rule: less_induct)
  case (less n)
  show ?case
  proof (cases n)
    case 0
    then show ?thesis using less.prems(1) by simp
  next
    case (Suc m)
    then obtain f where f: "fuel = Suc f" using less.prems(3) by (cases fuel) auto
    have "b \<noteq> []" using Suc less.prems(2) by auto
    from conn_Read_step[OF less.prems(1) this, of n stale] Suc obtain x q' inp' b' where
      x: "conn_Read Dec stale n q inp = Some (Inr x, q', inp')" "x \<noteq> []" "length x \<le> n" "b = x @ b'"
        "holds_stream Enc tag paired k q' inp' b'" by auto
    have lx: "length x > 0" using x(2) by simp
    have n1: "n - length x < n" "n - length x \<le> length b'" "n - length x \<le> f"
      using lx Suc f x(4) less.prems(2,3) by (auto simp del: length_greater_0_conv)
    have "\<exists>q'' inp''. conn_ReadFull Dec stale f (n - length x) q' inp' = Some (Inr (take (n - length x) b'), q'', inp'')
       \<and> holds_stream Enc tag paired k q'' inp'' (drop (n - length x) b')"
      by (rule less.IH[OF n1(1) x(5) n1(2,3)])
    then show ?thesis using Suc f x by auto
  qed
qed

text \<open>What one end writes, the other end reads, however the network cuts it.\<close>

lemma channel_roundtrip:
  assumes "paired (length (chunks (4088 - tag) b) + k) (crypto p) (crypto q)" and "tag < 4088"
    and "payloadLengthLimit p = 4088 - tag" and "overhead p = 8 + tag" and "\<And>out d. wr out d = (length d, None)"
    and "conn_buf q = []" and "nextFrame q = []"
  shows "\<exists>p' F. conn_Write Enc wr b p out = Some ((length b, None), p', out @ F)
    \<and> (\<forall>inp stale fuel. concat inp = F \<longrightarrow> length b \<le> fuel \<longrightarrow>
         (\<exists>q' inp'. conn_ReadFull Dec stale fuel (length b) q inp = Some (Inr b, q', inp')))"
proof -
  let ?c = "chunks (4088 - tag) b"
  have l: "0 < 4088 - tag" using assms(2) by simp
  from conn_Write_frames[where wr = wr and out = out, OF assms(1,2) refl assms(3-5)] obtain p' where
    w: "conn_Write Enc wr b p out = Some ((length b, None), p', out @ fst (frames Enc (crypto p) ?c))" by blast
  have parts: "\<forall>pt\<in>set ?c. pt \<noteq> [] \<and> length pt + tag + 4 \<le> altsRecordLengthLimit"
  proof
    fix pt assume "pt \<in> set ?c"
    from chunks_parts[OF this] show "pt \<noteq> [] \<and> length pt + tag + 4 \<le> altsRecordLengthLimit"
      using assms(2) by (auto simp: altsRecordLengthLimit_def)
  qed
  have "holds_stream Enc tag paired k q inp b" if "concat inp = fst (frames Enc (crypto p) ?c)" for inp
    unfolding holds_stream_def
    by (intro exI[of _ ?c] exI[of _ "crypto p"] conjI parts) (simp_all add: assms(1,6,7) that concat_chunks[OF l])
  then have "\<exists>q' inp'. conn_ReadFull Dec stale fuel (length b) q inp = Some (Inr b, q', inp')"
    if "concat inp = fst (frames Enc (crypto p) ?c)" "length b \<le> fuel" for inp stale fuel
    using conn_ReadFull_stream[of k q inp b "length b" fuel stale] that by auto
  with w show ?thesis by blast
qed

end

lemma be_val_snoc: "be_val (xs @ [b]) = be_val xs * 256 + unat b"
  by (induction xs) (simp_all add: algebra_simps)

lemma length_be_bytes [simp]: "length (be_bytes k v) = k"
  by (induction k arbitrary: v) auto

lemma be_val_bytes: "be_val (be_bytes k v) = v mod 256 ^ k"
proof (induction k arbitrary: v)
  case (Suc k)
  then show ?case by (simp add: be_val_snoc unat_word_of_mod256 mod_mult2_eq)
qed simp

lemma NewConn_fresh:
  assumes "NewConn tag protocols s rp key None = Inr p"
  shows "\<exists>f. protocols rp = Some f \<and> f s key = Inr (crypto p)" and "conn_buf p = []" and "nextFrame p = []"
    and "payloadLengthLimit p = 4096 - (8 + tag)" and "overhead p = 8 + tag"
  using assms by (auto simp: NewConn_def Let_def record_consts split: option.splits sum.splits)

lemma New_counters_in_step:
  assumes "s \<noteq> s'" and "n \<le> 11" and "k \<le> 256 ^ n"
  shows "NewOutCounter s n = NewInCounter s' n \<and> ctr_room k (NewOutCounter s n)"
  using New_counters[OF assms(2), of s] assms by (cases s; cases s') (simp_all add: New_counters_match ctr_room_def)

lemma NewAES128GCMRekey_in_step:
  assumes "NewAES128GCMRekey s key = Inr a" and "NewAES128GCMRekey s' key = Inr b" and "s \<noteq> s'" and "k \<le> 256 ^ 8"
  shows "in_step k a b"
  using assms(1,2) New_counters_in_step[OF assms(3) _ assms(4)]
  by (auto simp: NewAES128GCMRekey_def in_step_def overflowLenAES128GCMRekey_def split: sum.splits)

lemma NewXChaCha20Poly1305ReKey_in_step:
  assumes "NewXChaCha20Poly1305ReKey s key = Inr a" and "NewXChaCha20Poly1305ReKey s' key = Inr b"
    and "s \<noteq> s'" and "k \<le> 256 ^ 8"
  shows "in_step k a b"
  using assms(1,2) New_counters_in_step[OF assms(3) _ assms(4)]
  by (auto simp: NewXChaCha20Poly1305ReKey_def in_step_def overflowLenxChacha20Poly1305_def split: if_splits)

section \<open>Properties\<close>

text \<open>C4. Two ends made by \<^verbatim>\<open>NewConn\<close> for the rekeying AES-GCM protocol with the same key and
  opposite sides form a reliable stream: a write of any length that does not exhaust the frame
  counter succeeds, returns the full length, and whatever way the network cuts the written bytes
  into chunks, reading that many bytes at the other end returns exactly the bytes written.\<close>

theorem secure_channel_rekey:
  assumes "hmac_law hmac" and "aead_law GcmTagSize seal opn" and "s \<noteq> s'"
    and "NewConn GcmTagSize [rp \<mapsto> NewAES128GCMRekey] s rp key None = Inr p"
    and "NewConn GcmTagSize [rp \<mapsto> NewAES128GCMRekey] s' rp key None = Inr q"
    and "(length b + 4071) div 4072 \<le> 256 ^ 8" and "\<And>out d. wr out d = (length d, None)"
  shows "\<exists>p' F. conn_Write (aes128gcmRekey_Encrypt hmac seal) wr b p out = Some ((length b, None), p', out @ F)
    \<and> (\<forall>inp stale fuel. concat inp = F \<longrightarrow> length b \<le> fuel \<longrightarrow>
         (\<exists>q' inp'. conn_ReadFull (aes128gcmRekey_Decrypt hmac opn) stale fuel (length b) q inp = Some (Inr b, q', inp')))"
proof -
  note P = NewConn_fresh[OF assms(4)] and Q = NewConn_fresh[OF assms(5)]
  have n: "length (chunks (4088 - GcmTagSize) b) \<le> 256 ^ 8"
    using assms(6) by (simp add: length_chunks GcmTagSize_def)
  have "in_step (length (chunks (4088 - GcmTagSize) b) + 0) (crypto p) (crypto q)"
    using P(1) Q(1) NewAES128GCMRekey_in_step[OF _ _ assms(3) n, of key] by auto
  then show ?thesis
    using assms(1,2) P Q(2,3)
    by (intro rekey.channel_roundtrip[where k = 0, OF _ _ _ _ assms(7)]) (simp_all add: rekey_paired_def GcmTagSize_def)
qed

definition toy_seal :: "bytes \<Rightarrow> bytes \<Rightarrow> bytes \<Rightarrow> bytes" where
  "toy_seal key nonce pt = pt @ replicate 16 0"

definition toy_open :: "bytes \<Rightarrow> bytes \<Rightarrow> bytes \<Rightarrow> bytes option" where
  "toy_open key nonce ct = Some (take (length ct - 16) ct)"

lemma toy_laws: "aead_law GcmTagSize toy_seal toy_open" "hmac_law (\<lambda>k m. replicate 32 0)"
  by (simp_all add: aead_law_def toy_seal_def toy_open_def GcmTagSize_def hmac_law_def)

theorem secure_channel_rekey_witness:
  "\<exists>p p' F. NewConn GcmTagSize [''r'' \<mapsto> NewAES128GCMRekey] ClientSide ''r'' (replicate 44 0) None = Inr p
     \<and> conn_Write (aes128gcmRekey_Encrypt (\<lambda>k m. replicate 32 0) toy_seal) (\<lambda>out d. (length d, None)) [1, 2, 3] p []
       = Some ((3, None), p', F)"
proof -
  obtain p q where
    pq: "NewConn GcmTagSize [''r'' \<mapsto> NewAES128GCMRekey] ClientSide ''r'' (replicate 44 0) None = Inr p"
        "NewConn GcmTagSize [''r'' \<mapsto> NewAES128GCMRekey] ServerSide ''r'' (replicate 44 0) None = Inr q"
    by (simp add: NewConn_def NewAES128GCMRekey_def newRekeyAEAD_def kdfKeyLen_def nonceLen_def Let_def)
  from secure_channel_rekey[OF toy_laws(2,1) _ pq, of "[1, 2, 3]" "\<lambda>out d. (length d, None)" "[]"] pq(1)
  show ?thesis by fastforce
qed

text \<open>Two ends made by \<^verbatim>\<open>NewConn\<close> for XChaCha20-Poly1305 with the same key and
  opposite sides form a reliable stream in either direction: a write that does not exhaust the
  counter succeeds with its full length, and however the network cuts the bytes into chunks the
  other end reads exactly the bytes written.\<close>

theorem secure_channel_xchacha:
  assumes "aead_law GcmTagSize seal opn" and "s \<noteq> s'"
    and "NewConn GcmTagSize [rp \<mapsto> NewXChaCha20Poly1305ReKey] s rp key None = Inr p"
    and "NewConn GcmTagSize [rp \<mapsto> NewXChaCha20Poly1305ReKey] s' rp key None = Inr q"
    and "(length b + 4071) div 4072 \<le> 256 ^ 8" and "\<And>out d. wr out d = (length d, None)"
  shows "\<exists>p' F. conn_Write (xchacha_Encrypt seal) wr b p out = Some ((length b, None), p', out @ F)
    \<and> (\<forall>inp stale fuel. concat inp = F \<longrightarrow> length b \<le> fuel \<longrightarrow>
         (\<exists>q' inp'. conn_ReadFull (xchacha_Decrypt opn) stale fuel (length b) q inp = Some (Inr b, q', inp')))"
proof -
  note P = NewConn_fresh[OF assms(3)] and Q = NewConn_fresh[OF assms(4)]
  have n: "length (chunks (4088 - GcmTagSize) b) \<le> 256 ^ 8"
    using assms(5) by (simp add: length_chunks GcmTagSize_def)
  have "in_step (length (chunks (4088 - GcmTagSize) b) + 0) (crypto p) (crypto q)"
    using P(1) Q(1) NewXChaCha20Poly1305ReKey_in_step[OF _ _ assms(2) n, of key] by auto
  then show ?thesis
    using assms(1) P Q(2,3)
    by (intro xchacha.channel_roundtrip[where k = 0, OF _ _ _ _ assms(6)]) (simp_all add: xchacha_paired_def GcmTagSize_def)
qed

theorem secure_channel_xchacha_witness:
  "\<exists>p p' F. NewConn GcmTagSize [''x'' \<mapsto> NewXChaCha20Poly1305ReKey] ServerSide ''x'' (replicate 56 0) None = Inr p
     \<and> conn_Write (xchacha_Encrypt toy_seal) (\<lambda>out d. (length d, None)) [1, 2, 3] p [] = Some ((3, None), p', F)"
proof -
  obtain p q where
    pq: "NewConn GcmTagSize [''x'' \<mapsto> NewXChaCha20Poly1305ReKey] ServerSide ''x'' (replicate 56 0) None = Inr p"
        "NewConn GcmTagSize [''x'' \<mapsto> NewXChaCha20Poly1305ReKey] ClientSide ''x'' (replicate 56 0) None = Inr q"
    by (simp add: NewConn_def NewXChaCha20Poly1305ReKey_def Let_def)
  from secure_channel_xchacha[OF toy_laws(1) _ pq, of "[1, 2, 3]" "\<lambda>out d. (length d, None)" "[]"] pq(1)
  show ?thesis by fastforce
qed

text \<open>A frame that announces a length below the size of its type field is not rejected: an
  eight-byte input that announces length 0 and is followed by a valid type field makes \<^verbatim>\<open>Read\<close> on
  any fresh connection slice out of range, before any authentication.\<close>

theorem conn_Read_short_frame_panics:
  assumes "NewConn tag protocols s rp key None = Inr q"
  shows "conn_Read Dec stale blen q [[0, 0, 0, 0, 6, 0, 0, 0]] = None"
proof -
  have "open_frame Dec (crypto q) [0, 0, 0, 0] ([6, 0, 0, 0] @ stale) = None"
    by (simp add: open_frame_def record_consts)
  moreover have "spare q \<ge> 8" "protected q = []"
    using assms by (auto simp: NewConn_def Let_def record_consts split: option.splits sum.splits)
  ultimately show ?thesis using NewConn_fresh[OF assms]
    by (simp add: conn_Read_def ParseFramedMsg_def record_consts Let_def)
qed

theorem conn_Read_short_frame_panics_witness:
  "\<exists>q. NewConn 16 [''r'' \<mapsto> NewAES128GCM] ServerSide ''r'' (replicate 16 0) None = Inr q
     \<and> conn_Read (aes128gcm_Decrypt toy_open) [] 4 q [[0, 0, 0, 0, 6, 0, 0, 0]] = None"
proof -
  obtain q where q: "NewConn 16 [''r'' \<mapsto> NewAES128GCM] ServerSide ''r'' (replicate 16 0) None = Inr q"
    by (simp add: NewConn_def NewAES128GCM_def aes_key_ok_def Let_def)
  from conn_Read_short_frame_panics[OF q] q show ?thesis by blast
qed

text \<open>A handshake message is read back with its signature, whatever follows it on the stream,
  provided both parts are shorter than 4 GiB; an incomplete message is an error, never a shorter
  result.\<close>

theorem handshake_roundtrip:
  assumes "length hs < 2 ^ 32" and "length sig < 2 ^ 32"
  shows "defaultReceiveHandshakeMessage (defaultSendHandshakeMessage hs sig @ rest) = Inr ((hs, sig), rest)
    \<and> (\<forall>n < length (defaultSendHandshakeMessage hs sig).
         isl (defaultReceiveHandshakeMessage (take n (defaultSendHandshakeMessage hs sig))))"
proof -
  let ?h = "be_bytes 4 (length hs)" and ?g = "be_bytes 4 (length sig)"
  have v: "be_val ?h = length hs" "be_val ?g = length sig" using assms by (simp_all add: be_val_bytes)
  have m: "defaultSendHandshakeMessage hs sig = ?h @ hs @ ?g @ sig"
    using assms by (simp add: defaultSendHandshakeMessage_def)
  have "isl (defaultReceiveHandshakeMessage (take n (?h @ hs @ ?g @ sig)))" if "n < 8 + length hs + length sig" for n
  proof -
    consider "n < 4" | "4 \<le> n" "n < 4 + length hs" | "4 + length hs \<le> n" "n < 8 + length hs" | "8 + length hs \<le> n" by linarith
    then show ?thesis
      using that by cases (auto simp: defaultReceiveHandshakeMessage_def hs_read_def v take_append)
  qed
  then show ?thesis unfolding m by (simp add: defaultReceiveHandshakeMessage_def hs_read_def v)
qed

theorem handshake_roundtrip_witness:
  "defaultReceiveHandshakeMessage (defaultSendHandshakeMessage [1, 2] [3] @ [9]) = Inr (([1, 2], [3]), [9])"
  using handshake_roundtrip[of "[1, 2]" "[3]" "[9]"] by simp

end
