(* ===== verification/Kv_Store.thy ===== *)
theory Kv_Store
  imports Go_Lib
begin

text \<open>
  What the DHT asks of a store of key/value pairs, as a locale, with the lemmas about histories of
  writes that follow from it, and the in-memory store (\<^verbatim>\<open>p2p/kademlia/store/mem/mem.go\<close>) as its
  first instance.  The SQLite store is the second one (theory \<open>Sqlite_Store\<close>).
\<close>

section \<open>The contract\<close>

datatype kv_op = Put bytes bytes | Del bytes

fun replay_op :: "kv_op \<Rightarrow> (bytes \<rightharpoonup> bytes) \<Rightarrow> (bytes \<rightharpoonup> bytes)" where
  "replay_op (Put k v) m = m(k \<mapsto> v)"
| "replay_op (Del k) m = m(k := None)"

locale kv_store =
  fixes put :: "bytes \<Rightarrow> bytes \<Rightarrow> 's \<Rightarrow> 's" and del :: "bytes \<Rightarrow> 's \<Rightarrow> 's" and get :: "bytes \<Rightarrow> 's \<Rightarrow> bytes option"
  assumes get_put: "get k' (put k v s) = (if k' = k then Some v else get k' s)"
    and get_del: "get k' (del k s) = (if k' = k then None else get k' s)"
begin

definition step :: "kv_op \<Rightarrow> 's \<Rightarrow> 's" where
  "step op s = (case op of Put k v \<Rightarrow> put k v s | Del k \<Rightarrow> del k s)"

lemma get_step: "get k (step op s) = replay_op op (\<lambda>k. get k s) k"
  by (cases op) (simp_all add: step_def get_put get_del)

lemma get_history: "get k (fold step ops s) = fold replay_op ops (\<lambda>k. get k s) k"
proof (induction ops arbitrary: s)
  case (Cons op ops)
  have "(\<lambda>k. get k (step op s)) = replay_op op (\<lambda>k. get k s)" by (simp add: fun_eq_iff get_step)
  with Cons show ?case by simp
qed simp

end

section \<open>In-memory store\<close>

record mem_store =
  mem_data :: "string \<rightharpoonup> bytes"
  replications :: "string \<rightharpoonup> timestamp"
  replicateInterval :: int

definition mem_NewStore :: mem_store where
  "mem_NewStore = \<lparr>mem_data = Map.empty, replications = Map.empty, replicateInterval = seconds 3600\<rparr>"

definition mem_Store :: "timestamp \<Rightarrow> bytes \<Rightarrow> bytes \<Rightarrow> mem_store \<Rightarrow> string option \<times> mem_store" where
  "mem_Store now key val s = (None, s\<lparr>replications := (replications s)(str_of_bytes key \<mapsto> now + replicateInterval s),
     mem_data := (mem_data s)(str_of_bytes key \<mapsto> val)\<rparr>)"

definition mem_Retrieve :: "bytes \<Rightarrow> mem_store \<Rightarrow> bytes result" where
  "mem_Retrieve key s = (case mem_data s (str_of_bytes key) of None \<Rightarrow> errorf ''not found'' | Some v \<Rightarrow> Inr v)"

definition mem_Delete :: "bytes \<Rightarrow> mem_store \<Rightarrow> mem_store" where
  "mem_Delete key s = s\<lparr>replications := (replications s)(str_of_bytes key := None), mem_data := (mem_data s)(str_of_bytes key := None)\<rparr>"

definition mem_DeleteAll :: "mem_store \<Rightarrow> string option \<times> mem_store" where
  "mem_DeleteAll s = (None, s\<lparr>mem_data := Map.empty, replications := Map.empty\<rparr>)"

text \<open>\<^verbatim>\<open>StoreBatch\<close> of this store uses each value as its own key.\<close>

definition mem_StoreBatch :: "bytes list \<Rightarrow> mem_store \<Rightarrow> string option \<times> mem_store" where
  "mem_StoreBatch vals s = (None, s\<lparr>mem_data := fold (\<lambda>v m. m(str_of_bytes v \<mapsto> v)) vals (mem_data s)\<rparr>)"

definition mem_get :: "bytes \<Rightarrow> mem_store \<Rightarrow> bytes option" where
  "mem_get k s = (case mem_Retrieve k s of Inl _ \<Rightarrow> None | Inr v \<Rightarrow> Some v)"

lemma mem_get_data: "mem_get k s = mem_data s (str_of_bytes k)"
  by (simp add: mem_get_def mem_Retrieve_def split: option.splits)

interpretation mem: kv_store "\<lambda>k v s. snd (mem_Store now k v s)" mem_Delete mem_get
  for now
  by unfold_locales (auto simp: mem_get_data mem_Store_def mem_Delete_def)

end
