(* ===== verification/Sqlite_Store.thy ===== *)
theory Sqlite_Store
  imports Kv_Store
begin

text \<open>
  The local store of the DHT (\<^verbatim>\<open>p2p/kademlia/store/sqlite\<close>, \<^verbatim>\<open>sqlite.go\<close> and
  \<^verbatim>\<open>replication.go\<close>, and the query type of \<^verbatim>\<open>domain/domain.go\<close>).  A table is an association list
  from its primary key to the row, and an operation does to it what its SQL text says.  Writes to
  the data table are jobs in a queue that one worker executes in order.  The argument \<open>e\<close> is the
  outcome of the database call (\<open>Some msg\<close> when the driver reports an error, after the retries
  where the code retries), \<open>now\<close> the clock, \<open>H\<close> the Blake3 hash and \<open>fetch\<close> the cloud storage.
\<close>

section \<open>State\<close>

record data_row =
  row_data :: bytes
  datatype' :: int
  is_original :: bool
  row_createdAt :: timestamp
  row_updatedAt :: timestamp
  row_replicatedAt :: "timestamp option"
  is_on_cloud :: bool

text \<open>SQLite columns are dynamically typed: \<^verbatim>\<open>last_seen\<close> holds a time or a text.\<close>

datatype cell = CTime timestamp | CText string

record replication_row =
  ri_ip :: string
  ri_port :: u16
  ri_is_active :: bool
  ri_is_adjusted :: bool
  ri_lastReplicatedAt :: "timestamp option"
  ri_createdAt :: timestamp
  ri_updatedAt :: timestamp
  ri_last_seen :: "cell option"

record node_replication_info =
  LastReplicatedAt :: "timestamp option"
  UpdatedAt :: timestamp
  nri_CreatedAt :: timestamp
  Active :: bool
  nri_IP :: string
  nri_Port :: u16
  nri_ID :: bytes
  IsAdjusted :: bool
  LastSeen :: "timestamp option"

record to_rep_key =
  rk_id :: string
  rk_ip :: string
  rk_port :: u16
  rk_attempts :: int
  rk_updatedAt :: timestamp

datatype job =
    Insert bytes bytes int bool
  | BatchInsert "bytes list" int bool
  | Update bytes timestamp
  | Delete bytes
  | DeleteAll

record sqlite_store =
  data_tbl :: "(string \<times> data_row) list"
  replication_info :: "(string \<times> replication_row) list"
  replication_keys :: "(string \<times> to_rep_key) list"
  JobQueue :: "job list"
  cloud_on :: bool
  isSyncInProgress :: bool
  updateChannel :: "string list"
  insertChannel :: "(string \<times> nat) list"

definition accessUpdateBufferSize :: nat where "accessUpdateBufferSize = 100000"

text \<open>The zero \<^verbatim>\<open>time.Time\<close>: year 1.\<close>

definition zero_time :: timestamp where "zero_time = seconds (- 62135596800)"

section \<open>The job queue (sqlite.go)\<close>

definition enqueue :: "string option \<Rightarrow> job \<Rightarrow> sqlite_store \<Rightarrow> string option \<times> sqlite_store" where
  "enqueue ctx_err j s = (case ctx_err of Some e \<Rightarrow> (Some e, s) | None \<Rightarrow> (None, s\<lparr>JobQueue := JobQueue s @ [j]\<rparr>))"

definition sq_Store :: "string option \<Rightarrow> bytes \<Rightarrow> bytes \<Rightarrow> int \<Rightarrow> bool \<Rightarrow> sqlite_store \<Rightarrow> string option \<times> sqlite_store" where
  "sq_Store ctx_err key val typ orig s = enqueue ctx_err (Insert key val typ orig) s"

definition sq_StoreBatch :: "string option \<Rightarrow> bytes list \<Rightarrow> int \<Rightarrow> bool \<Rightarrow> sqlite_store \<Rightarrow> string option \<times> sqlite_store" where
  "sq_StoreBatch ctx_err vals typ orig s = enqueue ctx_err (BatchInsert vals typ orig) s"

definition sq_Delete :: "bytes \<Rightarrow> sqlite_store \<Rightarrow> sqlite_store" where
  "sq_Delete key s = s\<lparr>JobQueue := JobQueue s @ [Delete key]\<rparr>"

definition sq_DeleteAll :: "string option \<Rightarrow> sqlite_store \<Rightarrow> string option \<times> sqlite_store" where
  "sq_DeleteAll ctx_err s = enqueue ctx_err DeleteAll s"

text \<open>\<^verbatim>\<open>UpdateKeyReplication\<close> leaves the job's \<^verbatim>\<open>ReplicatedAt\<close> unset.\<close>

definition UpdateKeyReplication :: "string option \<Rightarrow> bytes \<Rightarrow> sqlite_store \<Rightarrow> string option \<times> sqlite_store" where
  "UpdateKeyReplication ctx_err key s = enqueue ctx_err (Update key zero_time) s"

definition post :: "nat \<Rightarrow> 'a list \<Rightarrow> 'a list \<Rightarrow> 'a list" where
  "post cap xs q = q @ take (cap - length q) xs"

definition PostAccessUpdate :: "string list \<Rightarrow> sqlite_store \<Rightarrow> sqlite_store" where
  "PostAccessUpdate ks s = s\<lparr>updateChannel := post accessUpdateBufferSize ks (updateChannel s)\<rparr>"

definition PostKeysInsert :: "(string \<times> nat) list \<Rightarrow> sqlite_store \<Rightarrow> sqlite_store" where
  "PostKeysInsert us s = s\<lparr>insertChannel := post accessUpdateBufferSize us (insertChannel s)\<rparr>"

text \<open>\<^verbatim>\<open>INSERT ... ON CONFLICT(key) DO UPDATE SET data, updatedAt, is_on_cloud\<close>.\<close>

definition upsert :: "timestamp \<Rightarrow> string \<Rightarrow> bytes \<Rightarrow> int \<Rightarrow> bool \<Rightarrow> (string \<times> data_row) list \<Rightarrow> (string \<times> data_row) list" where
  "upsert now hkey val typ orig tbl =
     (case map_of tbl hkey of
        None \<Rightarrow> alist_update hkey \<lparr>row_data = val, datatype' = typ, is_original = orig, row_createdAt = now,
                 row_updatedAt = now, row_replicatedAt = None, is_on_cloud = False\<rparr> tbl
      | Some r \<Rightarrow> alist_update hkey (r\<lparr>row_data := val, row_updatedAt := now, is_on_cloud := False\<rparr>) tbl)"

definition storeRecord ::
  "string option \<Rightarrow> timestamp \<Rightarrow> bytes \<Rightarrow> bytes \<Rightarrow> int \<Rightarrow> bool \<Rightarrow> sqlite_store \<Rightarrow> string option \<times> sqlite_store" where
  "storeRecord e now key val typ orig s = (
     let hkey = hex_encode key in
     case e of
       Some m \<Rightarrow> (Some (''error storing data: '' @ m), s)
     | None \<Rightarrow>
         let s1 = s\<lparr>data_tbl := upsert now hkey val typ orig (data_tbl s)\<rparr>
         in (None, if cloud_on s1 then PostKeysInsert [(hkey, length val)] s1 else s1))"

text \<open>One transaction for the batch: all rows or none.\<close>

definition storeBatchRecord ::
  "(bytes \<Rightarrow> bytes) \<Rightarrow> string option \<Rightarrow> timestamp \<Rightarrow> bytes list \<Rightarrow> int \<Rightarrow> bool \<Rightarrow> sqlite_store \<Rightarrow>
   string option \<times> sqlite_store" where
  "storeBatchRecord H e now vals typ orig s = (
     case e of
       Some m \<Rightarrow> (Some (''error storing data: '' @ m), s)
     | None \<Rightarrow>
         let s1 = s\<lparr>data_tbl := fold (\<lambda>v. upsert now (hex_encode (H v)) v typ orig) vals (data_tbl s)\<rparr>
         in (None, if cloud_on s1 then PostKeysInsert (map (\<lambda>v. (hex_encode (H v), length v)) vals) s1 else s1))"

text \<open>\<^verbatim>\<open>deleteRecord\<close> uses the result of a failed \<^verbatim>\<open>Exec\<close>, a nil interface: that is a panic.\<close>

definition deleteRecord :: "string option \<Rightarrow> bytes \<Rightarrow> sqlite_store \<Rightarrow> sqlite_store option" where
  "deleteRecord e key s =
     (case e of Some m \<Rightarrow> None | None \<Rightarrow> Some (s\<lparr>data_tbl := alist_delete (hex_encode key) (data_tbl s)\<rparr>))"

definition update_row :: "('k \<Rightarrow> bool) \<Rightarrow> ('v \<Rightarrow> 'v) \<Rightarrow> ('k \<times> 'v) list \<Rightarrow> ('k \<times> 'v) list" where
  "update_row P f tbl = map (\<lambda>(k, r). if P k then (k, f r) else (k, r)) tbl"

definition updateKeyReplication :: "string option \<Rightarrow> bytes \<Rightarrow> timestamp \<Rightarrow> sqlite_store \<Rightarrow> string option \<times> sqlite_store" where
  "updateKeyReplication e key t s =
     (case e of Some m \<Rightarrow> (Some (''failed to update key replication: '' @ m), s)
      | None \<Rightarrow> (None, s\<lparr>data_tbl := update_row (\<lambda>k. k = hex_encode key) (\<lambda>r. r\<lparr>row_replicatedAt := Some t\<rparr>) (data_tbl s)\<rparr>))"

definition deleteAll :: "string option \<Rightarrow> sqlite_store \<Rightarrow> string option \<times> sqlite_store" where
  "deleteAll e s =
     (case e of Some m \<Rightarrow> (Some (''cannot delete ALL records: '' @ m), s)
      | None \<Rightarrow> if data_tbl s = [] then (Some ''failed to delete ALL records'', s) else (None, s\<lparr>data_tbl := []\<rparr>))"

definition performJob ::
  "(bytes \<Rightarrow> bytes) \<Rightarrow> string option \<Rightarrow> timestamp \<Rightarrow> job \<Rightarrow> sqlite_store \<Rightarrow> (string option \<times> sqlite_store) option" where
  "performJob H e now j s =
     (case j of
        Insert key val typ orig \<Rightarrow> Some (storeRecord e now key val typ orig s)
      | BatchInsert vals typ orig \<Rightarrow> Some (storeBatchRecord H e now vals typ orig s)
      | Update key t \<Rightarrow> Some (updateKeyReplication e key t s)
      | Delete key \<Rightarrow> map_option (\<lambda>s'. (None, s')) (deleteRecord e key s)
      | DeleteAll \<Rightarrow> Some (deleteAll e s))"

text \<open>The worker takes the oldest job; a job's error is only logged.  \<open>run_jobs\<close> runs it until the
  queue is empty, with the outcome and the time of each job.\<close>

definition run_job :: "(bytes \<Rightarrow> bytes) \<Rightarrow> string option \<Rightarrow> timestamp \<Rightarrow> sqlite_store \<Rightarrow> sqlite_store option" where
  "run_job H e now s =
     (case JobQueue s of [] \<Rightarrow> Some s | j # js \<Rightarrow> map_option snd (performJob H e now j (s\<lparr>JobQueue := js\<rparr>)))"

fun run_jobs :: "(bytes \<Rightarrow> bytes) \<Rightarrow> (string option \<times> timestamp) list \<Rightarrow> sqlite_store \<Rightarrow> sqlite_store option" where
  "run_jobs H [] s = Some s"
| "run_jobs H ((e, now) # rest) s = Option.bind (run_job H e now s) (run_jobs H rest)"

section \<open>Reads and batch operations on the data table\<close>

definition sq_Retrieve ::
  "(string \<Rightarrow> bytes result) \<Rightarrow> string option \<Rightarrow> bytes \<Rightarrow> sqlite_store \<Rightarrow> bytes result \<times> sqlite_store" where
  "sq_Retrieve fetch e key s = (
     let hkey = hex_encode key in
     case (e, map_of (data_tbl s) hkey) of
       (Some m, _) \<Rightarrow> (errorf (''failed to get record by key '' @ hkey @ '': '' @ m), s)
     | (None, None) \<Rightarrow> (errorf (''failed to get record by key '' @ hkey @ '': sql: no rows in result set''), s)
     | (None, Some r) \<Rightarrow>
         let s1 = (if cloud_on s \<and> \<not> isSyncInProgress s then PostAccessUpdate [hkey] s else s) in
         if length (row_data r) > 0 then (Inr (row_data r), s1)
         else if \<not> is_on_cloud r then (errorf ''data is neither on cloud nor on local'', s1)
         else if \<not> cloud_on s1 then (errorf ''data is supposed to be on cloud but backup is not enabled'', s1)
         else case fetch hkey of
                Inl m \<Rightarrow> (errorf (''failed to retrieve data from cloud: '' @ m), s1)
              | Inr d \<Rightarrow> (Inr d, snd (sq_Store None key d (datatype' r) (is_original r) s1)))"

definition sq_Count :: "string option \<Rightarrow> sqlite_store \<Rightarrow> int result" where
  "sq_Count e s = (case e of Some m \<Rightarrow> errorf (''failed to get count of records: '' @ m) | None \<Rightarrow> Inr (int (length (data_tbl s))))"

definition GetOwnCreatedAt :: "string option \<Rightarrow> timestamp \<Rightarrow> sqlite_store \<Rightarrow> timestamp result" where
  "GetOwnCreatedAt e now s =
     (case e of Some m \<Rightarrow> errorf (''failed to get own createdAt: '' @ m)
      | None \<Rightarrow> Inr (case data_tbl s of [] \<Rightarrow> now
                    | (k, r) # rs \<Rightarrow> fold (\<lambda>(k, r). min (row_createdAt r)) rs (row_createdAt r)))"

definition GetLocalKeys :: "string option \<Rightarrow> timestamp \<Rightarrow> timestamp \<Rightarrow> sqlite_store \<Rightarrow> (string list) result" where
  "GetLocalKeys e from to s =
     (case e of Some m \<Rightarrow> errorf (''error reading all keys from database: '' @ m)
      | None \<Rightarrow> Inr (map fst (filter (\<lambda>(k, r). row_createdAt r > from \<and> row_createdAt r < to) (data_tbl s))))"

definition batchDeleteRecords :: "string option \<Rightarrow> string list \<Rightarrow> sqlite_store \<Rightarrow> string option \<times> sqlite_store" where
  "batchDeleteRecords e keys s =
     (if keys = [] then (None, s)
      else case e of
        Some m \<Rightarrow> (Some (''cannot batch delete records: '' @ m), s)
      | None \<Rightarrow>
          if list_all (\<lambda>(k, r). k \<notin> set keys) (data_tbl s) then (Some ''no rows affected for batch delete'', s)
          else (None, s\<lparr>data_tbl := filter (\<lambda>(k, r). k \<notin> set keys) (data_tbl s)\<rparr>))"

definition batchSetMigratedRecords :: "string option \<Rightarrow> string list \<Rightarrow> sqlite_store \<Rightarrow> string option \<times> sqlite_store" where
  "batchSetMigratedRecords e keys s =
     (if keys = [] then (None, s)
      else case e of
        Some m \<Rightarrow> (Some (''cannot batch update records (migrated): '' @ m), s)
      | None \<Rightarrow>
          if list_all (\<lambda>(k, r). k \<notin> set keys) (data_tbl s)
          then (Some ''no rows affected for batch update (migrated)'', s)
          else (None, s\<lparr>data_tbl := update_row (\<lambda>k. k \<in> set keys) (\<lambda>r. r\<lparr>row_data := [], is_on_cloud := True\<rparr>) (data_tbl s)\<rparr>))"

text \<open>\<^verbatim>\<open>RetrieveBatchNotExist\<close>: the keys are looked up in batches; the found ones are deleted from
  the set.  A batch size of 0 divides by zero.  The result's order is that of a Go map, the
  argument \<open>order\<close>.\<close>

definition not_exist_batch :: "nat \<Rightarrow> string list \<Rightarrow> (string \<times> data_row) list \<Rightarrow> nat \<Rightarrow> string list \<Rightarrow> string list" where
  "not_exist_batch batchSize keys tbl i keyMap = (
     let start = i * batchSize; batchKeys = take (min (start + batchSize) (length keys) - start) (drop start keys);
         found = filter (\<lambda>k. k \<in> set batchKeys) (map fst tbl)
     in filter (\<lambda>k. k \<notin> set found) keyMap)"

definition RetrieveBatchNotExist ::
  "(string list \<Rightarrow> string list) \<Rightarrow> string option \<Rightarrow> string list \<Rightarrow> nat \<Rightarrow> sqlite_store \<Rightarrow> (string list) result option" where
  "RetrieveBatchNotExist order e keys batchSize s =
     (if batchSize = 0 then None
      else let batchCount = (length keys + batchSize - 1) div batchSize in
        if batchCount = 0 then Some (Inr [])
        else case e of
          Some m \<Rightarrow> Some (errorf (''failed to retrieve records: '' @ m))
        | None \<Rightarrow> Some (Inr (order (fold (not_exist_batch batchSize keys (data_tbl s)) [0..<batchCount] (remdups keys)))))"

text \<open>\<^verbatim>\<open>retrieveBatchValues\<close>: a row fills the last position its key has in \<open>keys\<close>.\<close>

definition key_index :: "string list \<Rightarrow> string \<Rightarrow> nat option" where
  "key_index keys k = map_of (rev (zip keys [0..<length keys])) k"

definition fill :: "string list \<Rightarrow> (string \<times> bytes) list \<Rightarrow> bytes list \<times> nat \<Rightarrow> bytes list \<times> nat" where
  "fill keys rows st = fold (\<lambda>(k, v) (vals, n). case key_index keys k of
      None \<Rightarrow> (vals, n) | Some i \<Rightarrow> (vals[i := v], Suc n)) rows st"

definition retrieveBatchValues ::
  "(string list \<Rightarrow> (string \<times> bytes) list result) \<Rightarrow> string option \<Rightarrow> string list \<Rightarrow> bool \<Rightarrow> sqlite_store \<Rightarrow>
   (bytes list \<times> nat) result \<times> sqlite_store" where
  "retrieveBatchValues fetchBatch e keys getFromCloud s =
     (case e of
        Some m \<Rightarrow> (errorf (''failed to retrieve records: '' @ m), s)
      | None \<Rightarrow>
          let rows = filter (\<lambda>(k, r). k \<in> set keys) (data_tbl s);
              (vals, n) = fill keys (map (\<lambda>(k, r). (k, row_data r)) rows) (replicate (length keys) [], 0);
              track = cloud_on s \<and> \<not> isSyncInProgress s;
              cloudKeys = (if track then map fst (filter (\<lambda>(k, r). row_data r = [] \<and> is_on_cloud r) rows) else []);
              s1 = (if track then fold (\<lambda>(k, r). PostAccessUpdate [k]) rows s else s)
          in if cloudKeys \<noteq> [] \<and> getFromCloud then
               let cloudValues = (case fetchBatch cloudKeys of Inl m \<Rightarrow> [] | Inr vs \<Rightarrow> vs);
                   (vals', n') = fill keys cloudValues (vals, n)
               in (Inr (vals', n'), snd (sq_StoreBatch None (map snd cloudValues) 0 False s1))
             else (Inr (vals, n), s1))"

section \<open>Replication tables (replication.go)\<close>

definition GetKeysForReplication :: "string option \<Rightarrow> timestamp \<Rightarrow> timestamp \<Rightarrow> sqlite_store \<Rightarrow> (string \<times> timestamp) list" where
  "GetKeysForReplication e from to s =
     (case e of Some m \<Rightarrow> []
      | None \<Rightarrow> sort_key snd (map (\<lambda>(k, r). (k, row_createdAt r))
          (filter (\<lambda>(k, r). row_createdAt r > from \<and> row_createdAt r < to) (data_tbl s))))"

definition FindFirstAfter :: "timestamp \<Rightarrow> (string \<times> timestamp) list \<Rightarrow> int" where
  "FindFirstAfter t kwt = (
     let index = go_search (length kwt) (\<lambda>i. snd (kwt ! i) > t) in
     if index < length kwt \<and> snd (kwt ! index) > t then int index else - 1)"

definition GetAllToDoRepKeys :: "string option \<Rightarrow> int \<Rightarrow> int \<Rightarrow> sqlite_store \<Rightarrow> (string \<times> to_rep_key) list result" where
  "GetAllToDoRepKeys e minAttempts maxAttempts s =
     (case e of Some m \<Rightarrow> errorf (''error reading all keys from database: '' @ m)
      | None \<Rightarrow> Inr (take 10000 (filter (\<lambda>(k, r). rk_attempts r \<le> maxAttempts \<and> rk_attempts r \<ge> minAttempts) (replication_keys s))))"

definition DeleteRepKey :: "string option \<Rightarrow> string \<Rightarrow> sqlite_store \<Rightarrow> string option \<times> sqlite_store" where
  "DeleteRepKey e hkey s =
     (case e of Some m \<Rightarrow> (Some (''cannot delete record from replication_keys table by key '' @ hkey @ '': '' @ m), s)
      | None \<Rightarrow>
          if map_of (replication_keys s) hkey = None
          then (Some (''cannot delete record from replication_keys table by key '' @ hkey), s)
          else (None, s\<lparr>replication_keys := alist_delete hkey (replication_keys s)\<rparr>))"

definition upsert_rep_key ::
  "timestamp \<Rightarrow> string \<Rightarrow> string \<Rightarrow> u16 \<Rightarrow> string \<Rightarrow> (string \<times> to_rep_key) list \<Rightarrow> (string \<times> to_rep_key) list" where
  "upsert_rep_key now i ip port k tbl =
     alist_update k \<lparr>rk_id = i, rk_ip = ip, rk_port = port,
        rk_attempts = (case map_of tbl k of None \<Rightarrow> 0 | Some r \<Rightarrow> rk_attempts r), rk_updatedAt = now\<rparr> tbl"

definition StoreBatchRepKeys ::
  "string option \<Rightarrow> timestamp \<Rightarrow> string list \<Rightarrow> string \<Rightarrow> string \<Rightarrow> u16 \<Rightarrow> sqlite_store \<Rightarrow> string option \<times> sqlite_store" where
  "StoreBatchRepKeys e now vals i ip port s =
     (case e of Some m \<Rightarrow> (Some (''error storing rep keys record data: '' @ m), s)
      | None \<Rightarrow> (None, s\<lparr>replication_keys := fold (upsert_rep_key now i ip port) vals (replication_keys s)\<rparr>))"

definition BatchDeleteRepKeys :: "string option \<Rightarrow> string list \<Rightarrow> sqlite_store \<Rightarrow> string option \<times> sqlite_store" where
  "BatchDeleteRepKeys e keys s =
     (case e of Some m \<Rightarrow> (Some (''cannot batch delete records from replication_keys table: '' @ m), s)
      | None \<Rightarrow>
          if list_all (\<lambda>(k, r). k \<notin> set keys) (replication_keys s)
          then (Some ''no record deleted (batch) from replication_keys table'', s)
          else (None, s\<lparr>replication_keys := filter (\<lambda>(k, r). k \<notin> set keys) (replication_keys s)\<rparr>))"

definition IncrementAttempts :: "string option \<Rightarrow> string list \<Rightarrow> sqlite_store \<Rightarrow> string option \<times> sqlite_store" where
  "IncrementAttempts e keys s =
     (if keys = [] then (None, s)
      else case e of Some m \<Rightarrow> (Some m, s)
        | None \<Rightarrow> (None, s\<lparr>replication_keys :=
            update_row (\<lambda>k. k \<in> set keys) (\<lambda>r. r\<lparr>rk_attempts := rk_attempts r + 1\<rparr>) (replication_keys s)\<rparr>))"

definition toDomain :: "string \<times> replication_row \<Rightarrow> node_replication_info" where
  "toDomain p = (case p of (i, n) \<Rightarrow>
     \<lparr>LastReplicatedAt = ri_lastReplicatedAt n, UpdatedAt = ri_updatedAt n, nri_CreatedAt = ri_createdAt n,
      Active = ri_is_active n, nri_IP = ri_ip n, nri_Port = ri_port n, nri_ID = bytes_of_str i,
      IsAdjusted = ri_is_adjusted n,
      LastSeen = (case ri_last_seen n of Some (CTime t) \<Rightarrow> Some t | _ \<Rightarrow> None)\<rparr>)"

text \<open>\<^verbatim>\<open>ORDER BY CASE WHEN lastReplicatedAt IS NULL THEN 0 ELSE 1 END, lastReplicatedAt\<close>: two stable
  sorts.\<close>

definition GetAllReplicationInfo :: "string option \<Rightarrow> sqlite_store \<Rightarrow> node_replication_info list result" where
  "GetAllReplicationInfo e s =
     (case e of Some m \<Rightarrow> errorf (''failed to get replication info: '' @ m)
      | None \<Rightarrow> Inr (map toDomain
          (filter (\<lambda>(i, n). ri_lastReplicatedAt n = None) (replication_info s)
           @ sort_key (\<lambda>(i, n). the (ri_lastReplicatedAt n))
               (filter (\<lambda>(i, n). ri_lastReplicatedAt n \<noteq> None) (replication_info s)))))"

definition RecordExists :: "string option \<Rightarrow> string \<Rightarrow> sqlite_store \<Rightarrow> bool result" where
  "RecordExists e nodeID s =
     (case e of Some m \<Rightarrow> errorf (''error checking record existence: '' @ m)
      | None \<Rightarrow> Inr (map_of (replication_info s) nodeID \<noteq> None))"

text \<open>\<^verbatim>\<open>UpdateReplicationInfo\<close>: its last two arguments are bound in the order identifier, last seen,
  while the statement's last two parameters are \<^verbatim>\<open>last_seen\<close> and the identifier of the row.
  \<open>time_text\<close> is the text the driver stores for a time.\<close>

definition UpdateReplicationInfo ::
  "(timestamp \<Rightarrow> string) \<Rightarrow> string option \<Rightarrow> node_replication_info \<Rightarrow> sqlite_store \<Rightarrow> string option \<times> sqlite_store" where
  "UpdateReplicationInfo time_text e rep s =
     (if nri_IP rep = '''' \<or> nri_ID rep = [] \<or> nri_Port rep = 0 then (Some ''invalid replication info'', s)
      else case e of
        Some m \<Rightarrow> (Some (''failed to update replication info: '' @ m), s)
      | None \<Rightarrow> (None, s\<lparr>replication_info :=
          update_row (\<lambda>k. map_option time_text (LastSeen rep) = Some k)
            (\<lambda>r. r\<lparr>ri_ip := nri_IP rep, ri_is_active := Active rep, ri_is_adjusted := IsAdjusted rep,
                   ri_lastReplicatedAt := LastReplicatedAt rep, ri_updatedAt := UpdatedAt rep, ri_port := nri_Port rep,
                   ri_last_seen := Some (CText (str_of_bytes (nri_ID rep)))\<rparr>)
            (replication_info s)\<rparr>))"

definition AddReplicationInfo ::
  "string option \<Rightarrow> timestamp \<Rightarrow> node_replication_info \<Rightarrow> sqlite_store \<Rightarrow> string option \<times> sqlite_store" where
  "AddReplicationInfo e now rep s =
     (if nri_IP rep = '''' \<or> nri_ID rep = [] \<or> nri_Port rep = 0 then (Some ''invalid replication info'', s)
      else let i = str_of_bytes (nri_ID rep) in
        case e of
          Some m \<Rightarrow> (Some (''failed to insert replicate record: '' @ m), s)
        | None \<Rightarrow>
            if map_of (replication_info s) i \<noteq> None
            then (Some ''failed to insert replicate record: UNIQUE constraint failed'', s)
            else (None, s\<lparr>replication_info := alist_update i
                \<lparr>ri_ip = nri_IP rep, ri_port = nri_Port rep, ri_is_active = Active rep, ri_is_adjusted = IsAdjusted rep,
                 ri_lastReplicatedAt = LastReplicatedAt rep, ri_createdAt = seconds (now div seconds 1),
                 ri_updatedAt = UpdatedAt rep, ri_last_seen = Some (CTime now)\<rparr> (replication_info s)\<rparr>))"

definition update_info ::
  "string \<Rightarrow> string option \<Rightarrow> string \<Rightarrow> (replication_row \<Rightarrow> replication_row) \<Rightarrow> sqlite_store \<Rightarrow> string option \<times> sqlite_store" where
  "update_info what e i f s =
     (case e of Some m \<Rightarrow> (Some (what @ m), s)
      | None \<Rightarrow> (None, s\<lparr>replication_info := update_row (\<lambda>k. k = i) f (replication_info s)\<rparr>))"

definition UpdateLastSeen :: "string option \<Rightarrow> timestamp \<Rightarrow> string \<Rightarrow> sqlite_store \<Rightarrow> string option \<times> sqlite_store" where
  "UpdateLastSeen e now i = update_info ''failed to update last_seen of node: '' e i (\<lambda>r. r\<lparr>ri_last_seen := Some (CTime now)\<rparr>)"

definition UpdateLastReplicated :: "string option \<Rightarrow> timestamp \<Rightarrow> string \<Rightarrow> timestamp \<Rightarrow> sqlite_store \<Rightarrow> string option \<times> sqlite_store" where
  "UpdateLastReplicated e now i t = update_info ''failed to update last replicated: '' e i
     (\<lambda>r. r\<lparr>ri_lastReplicatedAt := Some t, ri_updatedAt := now\<rparr>)"

definition UpdateIsAdjusted :: "string option \<Rightarrow> timestamp \<Rightarrow> string \<Rightarrow> bool \<Rightarrow> sqlite_store \<Rightarrow> string option \<times> sqlite_store" where
  "UpdateIsAdjusted e now i b = update_info ''failed to update is_adjusted of node: '' e i
     (\<lambda>r. r\<lparr>ri_is_adjusted := b, ri_updatedAt := now\<rparr>)"

definition UpdateIsActive :: "string option \<Rightarrow> timestamp \<Rightarrow> string \<Rightarrow> bool \<Rightarrow> bool \<Rightarrow> sqlite_store \<Rightarrow> string option \<times> sqlite_store" where
  "UpdateIsActive e now i act adj = update_info ''failed to update is_active of node: '' e i
     (\<lambda>r. r\<lparr>ri_is_active := act, ri_is_adjusted := adj, ri_updatedAt := now\<rparr>)"

section \<open>The data table as a map\<close>

definition lookup :: "sqlite_store \<Rightarrow> string \<Rightarrow> bytes option" where
  "lookup s k = map_option row_data (map_of (data_tbl s) k)"

lemma map_of_upsert: "map_option row_data (map_of (upsert now k v typ orig tbl) k') =
    (if k' = k then Some v else map_option row_data (map_of tbl k'))"
  by (auto simp: upsert_def map_of_alist_update split: option.splits)

lemma upsert_wf: "alist_wf tbl \<Longrightarrow> alist_wf (upsert now k v typ orig tbl)"
  by (auto simp: upsert_def alist_wf_update split: option.splits)

lemma Post_simps [simp]:
  "data_tbl (PostKeysInsert us s) = data_tbl s" "JobQueue (PostKeysInsert us s) = JobQueue s"
  "data_tbl (PostAccessUpdate ks s) = data_tbl s" "JobQueue (PostAccessUpdate ks s) = JobQueue s"
  by (simp_all add: PostKeysInsert_def PostAccessUpdate_def)

lemma map_of_update_row: "map_of (update_row P f tbl) k = (if P k then map_option f (map_of tbl k) else map_of tbl k)"
  by (induction tbl) (auto simp: update_row_def)

lemma lookup_storeRecord: "lookup (snd (storeRecord None now key v typ orig s)) k = (if k = hex_encode key then Some v else lookup s k)"
  by (simp add: storeRecord_def Let_def lookup_def map_of_upsert del: map_option_eq_Some)

lemma lookup_deleteRecord: "lookup (the (deleteRecord None key s)) k = (if k = hex_encode key then None else lookup s k)"
  by (simp add: deleteRecord_def lookup_def map_of_alist_delete)

interpretation sqlite: kv_store "\<lambda>k v s. snd (storeRecord None now k v ty orig s)" "\<lambda>k s. the (deleteRecord None k s)"
  "\<lambda>k s. lookup s (hex_encode k)"
  for now ty orig
  by unfold_locales (auto simp: lookup_storeRecord lookup_deleteRecord)

text \<open>What a job does to the map from keys to values.\<close>

fun replay :: "(bytes \<Rightarrow> bytes) \<Rightarrow> job \<Rightarrow> (string \<rightharpoonup> bytes) \<Rightarrow> (string \<rightharpoonup> bytes)" where
  "replay H (Insert k v typ orig) m = m(hex_encode k \<mapsto> v)"
| "replay H (BatchInsert vs typ orig) m = fold (\<lambda>v m. m(hex_encode (H v) \<mapsto> v)) vs m"
| "replay H (Update k t) m = m"
| "replay H (Delete k) m = m(hex_encode k := None)"
| "replay H DeleteAll m = Map.empty"

lemma fold_upsert_map:
  "(\<lambda>k. map_option row_data (map_of (fold (\<lambda>v. upsert now (hex_encode (H v)) v typ orig) vs tbl) k)) =
     fold (\<lambda>v m. m(hex_encode (H v) \<mapsto> v)) vs (\<lambda>k. map_option row_data (map_of tbl k))"
proof (induction vs arbitrary: tbl)
  case (Cons v vs)
  have "(\<lambda>k. map_option row_data (map_of (upsert now (hex_encode (H v)) v typ orig tbl) k)) =
      (\<lambda>k. map_option row_data (map_of tbl k))(hex_encode (H v) \<mapsto> v)"
    by (simp add: fun_eq_iff map_of_upsert)
  then show ?case by (simp only: fold_simps Cons.IH)
qed simp

lemma performJob_replay:
  "\<exists>s' r. performJob H None now j s = Some (r, s') \<and> lookup s' = replay H j (lookup s) \<and> JobQueue s' = JobQueue s"
proof (cases j)
  case (BatchInsert vs ty orig)
  then show ?thesis using fold_upsert_map[of now H ty orig vs "data_tbl s"]
    by (simp add: performJob_def storeBatchRecord_def Let_def ext[OF lookup_def])
next
  case (Insert k v ty orig)
  then show ?thesis using lookup_storeRecord[of now k v ty orig s]
    by (auto simp: performJob_def fun_eq_iff storeRecord_def Let_def)
qed (auto simp: performJob_def updateKeyReplication_def deleteRecord_def deleteAll_def fun_eq_iff lookup_def
      map_of_update_row map_of_alist_delete option.map_comp o_def intro!: map_option_cong)

lemma run_jobs_replay:
  "length outs = length (JobQueue s) \<Longrightarrow> list_all (\<lambda>(e, now). e = None) outs \<Longrightarrow>
   \<exists>s'. run_jobs H outs s = Some s' \<and> JobQueue s' = [] \<and> lookup s' = fold (replay H) (JobQueue s) (lookup s)"
proof (induction outs arbitrary: s)
  case (Cons x outs)
  obtain now where x: "x = (None, now)" using Cons.prems by (cases x) auto
  obtain j js where q: "JobQueue s = j # js" using Cons.prems by (cases "JobQueue s") auto
  obtain s1 r where s1: "performJob H None now j (s\<lparr>JobQueue := js\<rparr>) = Some (r, s1)"
      "lookup s1 = replay H j (lookup s)" "JobQueue s1 = js"
    using performJob_replay[of H now j "s\<lparr>JobQueue := js\<rparr>"] by (auto simp: ext[OF lookup_def])
  with Cons.IH[of s1] Cons.prems q x show ?case by (auto simp: run_job_def)
qed simp

section \<open>Properties\<close>

text \<open>C33. The write path is a refinement of replaying the queue on a map: when the database calls
  succeed, the worker empties the queue without panicking, and afterwards every key maps to what
  the queued inserts, batch inserts (under the hash of the value), deletes and delete-alls leave
  when applied in the order they were issued to what the table held.\<close>

theorem worker_refines_replay:
  assumes "length outs = length (JobQueue s)" and "list_all (\<lambda>(e, now). e = None) outs"
  shows "\<exists>s'. run_jobs H outs s = Some s' \<and> JobQueue s' = [] \<and> lookup s' = fold (replay H) (JobQueue s) (lookup s)"
  using assms by (rule run_jobs_replay)

definition empty_sqlite :: sqlite_store where
  "empty_sqlite = \<lparr>data_tbl = [], replication_info = [], replication_keys = [], JobQueue = [], cloud_on = False,
     isSyncInProgress = False, updateChannel = [], insertChannel = []\<rparr>"

theorem worker_refines_replay_witness:
  "\<exists>s'. run_jobs (\<lambda>x. x) [(None, 1), (None, 2)]
      (snd (sq_Store None [7] [2] 0 True (snd (sq_Store None [7] [1] 0 True empty_sqlite)))) = Some s'
    \<and> lookup s' ''07'' = Some [2]"
proof -
  let ?s = "snd (sq_Store None [7] [2] 0 True (snd (sq_Store None [7] [1] 0 True empty_sqlite)))"
  have q: "JobQueue ?s = [Insert [7] [1] 0 True, Insert [7] [2] 0 True]"
    by (simp add: sq_Store_def enqueue_def empty_sqlite_def)
  have "hex_encode [7] = ''07''" by code_simp
  with worker_refines_replay[of "[(None, 1), (None, 2)]" ?s "\<lambda>x. x"] q show ?thesis by auto
qed

lemma FindFirstAfter_sorted:
  assumes "sorted (map snd kwt)"
  shows "(FindFirstAfter t kwt = - 1 \<and> (\<forall>x\<in>set kwt. snd x \<le> t))
    \<or> (\<exists>i. FindFirstAfter t kwt = int i \<and> i < length kwt \<and> drop i kwt = filter (\<lambda>x. snd x > t) kwt)"
proof -
  let ?f = "\<lambda>i. snd (kwt ! i) > t" and ?n = "length kwt"
  have "snd (kwt ! b) > t" if "a \<le> b" "b < ?n" "snd (kwt ! a) > t" for a b
    using sorted_nth_mono[OF assms that(1)] that by simp
  then have "\<forall>a b. a \<le> b \<longrightarrow> b < ?n \<longrightarrow> ?f a \<longrightarrow> ?f b" by blast
  note G = go_search_spec[OF this]
  let ?i = "go_search ?n ?f"
  have lo: "\<forall>x\<in>set (take ?i kwt). snd x \<le> t"
  proof
    fix x assume "x \<in> set (take ?i kwt)"
    then obtain a where "a < ?i" "x = kwt ! a" by (auto simp: in_set_conv_nth)
    then show "snd x \<le> t" using G(2)[of a] by simp
  qed
  show ?thesis
  proof (cases "?i < ?n")
    case True
    have "\<forall>x\<in>set (drop ?i kwt). snd x > t"
    proof
      fix x assume "x \<in> set (drop ?i kwt)"
      then obtain j where "j < ?n - ?i" "x = kwt ! (?i + j)" by (auto simp: in_set_conv_nth)
      moreover from this have "?i + j < length (map snd kwt)" by simp
      ultimately show "snd x > t"
        using sorted_nth_mono[OF assms le_add1, of ?i j] G(3)[OF True] True by (simp add: nth_map)
    qed
    then have "filter (\<lambda>x. snd x > t) (drop ?i kwt) = drop ?i kwt" by (simp only: filter_id_conv)
    moreover have "filter (\<lambda>x. snd x > t) (take ?i kwt) = []"
      using lo by (simp only: filter_empty_conv not_less)
    moreover have "filter (\<lambda>x. snd x > t) kwt = filter (\<lambda>x. snd x > t) (take ?i kwt) @ filter (\<lambda>x. snd x > t) (drop ?i kwt)"
      by (metis append_take_drop_id filter_append)
    ultimately have "drop ?i kwt = filter (\<lambda>x. snd x > t) kwt" by (simp only: append_Nil)
    then show ?thesis using True G(3)[OF True] by (auto simp: FindFirstAfter_def Let_def)
  next
    case False
    then have "?i = ?n" using G(1) by simp
    then show ?thesis using lo by (simp add: FindFirstAfter_def Let_def)
  qed
qed

text \<open>The keys of a replication window come back in the order of their creation, exactly those
  created strictly inside the window; and \<^verbatim>\<open>FindFirstAfter\<close>, a binary search, cuts them at the
  right place: the suffix it points at is exactly the keys created after the given time, and
  \<open>-1\<close> means there is none.\<close>

theorem replication_window:
  fixes s :: sqlite_store and t0 t1 :: timestamp
  defines "kwt \<equiv> GetKeysForReplication None t0 t1 s"
  shows "set kwt = {(k, row_createdAt r) | k r. (k, r) \<in> set (data_tbl s) \<and> t0 < row_createdAt r \<and> row_createdAt r < t1}
    \<and> sorted (map snd kwt)
    \<and> ((FindFirstAfter t kwt = - 1 \<and> (\<forall>x\<in>set kwt. snd x \<le> t))
       \<or> (\<exists>i. FindFirstAfter t kwt = int i \<and> i < length kwt \<and> drop i kwt = filter (\<lambda>x. snd x > t) kwt))"
proof -
  have "sorted (map snd kwt)" by (simp add: kwt_def GetKeysForReplication_def)
  moreover have "set kwt = {(k, row_createdAt r) | k r. (k, r) \<in> set (data_tbl s) \<and> t0 < row_createdAt r \<and> row_createdAt r < t1}"
  proof -
    have "set kwt = (\<lambda>(k, r). (k, row_createdAt r)) `
        {x \<in> set (data_tbl s). case x of (k, r) \<Rightarrow> t0 < row_createdAt r \<and> row_createdAt r < t1}"
      by (simp add: kwt_def GetKeysForReplication_def)
    then show ?thesis by auto
  qed
  ultimately show ?thesis using FindFirstAfter_sorted by blast
qed

theorem replication_window_witness:
  "FindFirstAfter 5 (GetKeysForReplication None 0 100 empty_sqlite) = - 1"
  using replication_window[of 0 100 empty_sqlite 5] by (auto simp: GetKeysForReplication_def empty_sqlite_def)

text \<open>\<^verbatim>\<open>UpdateReplicationInfo\<close> reports success and changes nothing: the row it updates is the one
  whose identifier is the text of the last-seen time, and no node has such an identifier.\<close>

theorem UpdateReplicationInfo_no_effect:
  assumes "nri_IP rep \<noteq> ''''" and "nri_ID rep \<noteq> []" and "nri_Port rep \<noteq> 0"
    and "\<And>t. LastSeen rep = Some t \<Longrightarrow> time_text t \<notin> fst ` set (replication_info s)"
  shows "UpdateReplicationInfo time_text None rep s = (None, s)"
proof -
  have "update_row (\<lambda>k. map_option time_text (LastSeen rep) = Some k) f (replication_info s) = replication_info s" for f
    using assms(4) by (force simp: update_row_def intro!: map_idI)
  then show ?thesis using assms(1-3) by (simp add: UpdateReplicationInfo_def)
qed

definition wit_info :: node_replication_info where
  "wit_info = \<lparr>LastReplicatedAt = None, UpdatedAt = 9, nri_CreatedAt = 0, Active = True, nri_IP = ''10.0.0.1'', nri_Port = 4445,
     nri_ID = [65], IsAdjusted = False, LastSeen = Some 9\<rparr>"

theorem UpdateReplicationInfo_no_effect_witness:
  "replication_info (snd (UpdateReplicationInfo (\<lambda>t. ''2025-01-01 00:00:00+00:00'') None wit_info
       (snd (AddReplicationInfo None 5 wit_info empty_sqlite))))
     = replication_info (snd (AddReplicationInfo None 5 wit_info empty_sqlite))
   \<and> fst ` set (replication_info (snd (AddReplicationInfo None 5 wit_info empty_sqlite))) = {''A''}"
proof -
  let ?s = "snd (AddReplicationInfo None 5 wit_info empty_sqlite)"
  have "str_of_bytes [65] = ''A''" by code_simp
  then have ids: "fst ` set (replication_info ?s) = {''A''}"
    by (simp add: AddReplicationInfo_def wit_info_def empty_sqlite_def)
  have "UpdateReplicationInfo (\<lambda>t. ''2025-01-01 00:00:00+00:00'') None wit_info ?s = (None, ?s)"
    by (rule UpdateReplicationInfo_no_effect) (unfold ids, simp_all add: wit_info_def)
  with ids show ?thesis by simp
qed

lemma fold_filter_notin:
  "fold (\<lambda>i. filter (\<lambda>k. k \<notin> F i)) is xs = filter (\<lambda>k. \<forall>i\<in>set is. k \<notin> F i) xs"
  by (induction "is" arbitrary: xs) (auto intro: filter_cong)

lemma batches_cover:
  assumes "0 < (b::nat)" and "n < len"
  shows "n div b < (len + b - 1) div b \<and> n div b * b \<le> n \<and> n < n div b * b + b"
proof -
  have "n + b \<le> len + b - 1" using assms by simp
  then have "(n + b) div b \<le> (len + b - 1) div b" by (rule div_le_mono)
  moreover have "(n + b) div b = Suc (n div b)" using assms(1) by (simp add: div_add_self2)
  ultimately have "n div b < (len + b - 1) div b" by simp
  then show ?thesis using assms(1) dividend_less_div_times[of b n] by (simp add: add.commute)
qed

text \<open>\<^verbatim>\<open>RetrieveBatchNotExist\<close> asks the table in batches and returns, for any batch size but 0,
  each of the given keys that the table does not hold, once; with batch size 0 it panics.\<close>

theorem RetrieveBatchNotExist_correct:
  assumes "\<And>xs. mset (order xs) = mset xs"
  shows "RetrieveBatchNotExist order None keys 0 s = None
    \<and> (0 < batchSize \<longrightarrow> (\<exists>ks. RetrieveBatchNotExist order None keys batchSize s = Some (Inr ks)
          \<and> distinct ks \<and> set ks = set keys - fst ` set (data_tbl s)))"
proof (intro conjI impI)
  show "RetrieveBatchNotExist order None keys 0 s = None" by (simp add: RetrieveBatchNotExist_def)
next
  assume b: "0 < batchSize"
  let ?n = "(length keys + batchSize - 1) div batchSize"
  let ?B = "\<lambda>i. set (take (min (i * batchSize + batchSize) (length keys) - i * batchSize) (drop (i * batchSize) keys))"
  let ?F = "\<lambda>i. ?B i \<inter> fst ` set (data_tbl s)"
  have nb: "not_exist_batch batchSize keys (data_tbl s) = (\<lambda>i. filter (\<lambda>k. k \<notin> ?F i))"
    by (auto simp: not_exist_batch_def Let_def fun_eq_iff intro!: filter_cong)
  have cover: "\<exists>i<?n. k \<in> ?B i" if "k \<in> set keys" for k
  proof -
    from that obtain m where m: "m < length keys" "keys ! m = k" by (auto simp: in_set_conv_nth)
    note c = batches_cover[OF b m(1)]
    define q where "q = m div batchSize * batchSize"
    have q: "q \<le> m" "m < q + batchSize" using c by (simp_all add: q_def)
    then have lt: "m - q < min (q + batchSize) (length keys) - q" using m(1) by simp
    let ?t = "take (min (q + batchSize) (length keys) - q) (drop q keys)"
    have "?t ! (m - q) = keys ! m" using lt q(1) m(1) by (simp add: nth_take)
    moreover have "m - q < length ?t" using lt by simp
    ultimately have "k \<in> set ?t" using m(2) by (metis nth_mem)
    then have "k \<in> ?B (m div batchSize)" by (simp only: q_def)
    then show ?thesis using c by blast
  qed
  define R where "R = fold (not_exist_batch batchSize keys (data_tbl s)) [0..<?n] (remdups keys)"
  have R: "R = filter (\<lambda>k. \<forall>i\<in>set [0..<?n]. k \<notin> ?F i) (remdups keys)"
    unfolding R_def nb by (rule fold_filter_notin)
  have sR: "set R = set keys - fst ` set (data_tbl s)"
  proof -
    have "(\<forall>i\<in>set [0..<?n]. k \<notin> ?F i) \<longleftrightarrow> k \<notin> fst ` set (data_tbl s)" if "k \<in> set keys" for k
      using cover[OF that] by (metis IntD2 IntI atLeastLessThan_iff set_upt zero_le)
    then show ?thesis unfolding R by (simp only: set_filter set_remdups) blast
  qed
  have dR: "distinct R" unfolding R by simp
  show "\<exists>ks. RetrieveBatchNotExist order None keys batchSize s = Some (Inr ks)
          \<and> distinct ks \<and> set ks = set keys - fst ` set (data_tbl s)"
  proof (cases "?n = 0")
    case True
    then have "keys = []" using cover by (cases keys) auto
    then show ?thesis using b by (simp add: RetrieveBatchNotExist_def)
  next
    case False
    have "set (order R) = set R" "distinct (order R) = distinct R"
      using assms[of R] by (metis set_mset_mset, metis mset_eq_imp_distinct_iff)
    moreover have "RetrieveBatchNotExist order None keys batchSize s = Some (Inr (order R))"
      using b False by (simp add: RetrieveBatchNotExist_def Let_def R_def)
    ultimately show ?thesis using sR dR by simp
  qed
qed

theorem RetrieveBatchNotExist_correct_witness:
  "\<exists>ks. RetrieveBatchNotExist id None [''a'', ''b'', ''a''] 2 empty_sqlite = Some (Inr ks) \<and> set ks = {''a'', ''b''}"
  using RetrieveBatchNotExist_correct[of id "[''a'', ''b'', ''a'']" empty_sqlite 2] by (auto simp: empty_sqlite_def)

lemma attempts_upsert:
  "map_option rk_attempts (map_of (upsert_rep_key now i ip port v tbl) k) =
      (if k = v then Some (case map_of tbl k of None \<Rightarrow> 0 | Some r \<Rightarrow> rk_attempts r) else map_option rk_attempts (map_of tbl k))"
  by (simp add: upsert_rep_key_def map_of_alist_update)

lemma attempts_upserts:
  "map_option rk_attempts (map_of (fold (upsert_rep_key now i ip port) vs tbl) k) =
      (case map_option rk_attempts (map_of tbl k) of Some a \<Rightarrow> Some a | None \<Rightarrow> if k \<in> set vs then Some 0 else None)"
proof (induction vs arbitrary: tbl)
  case (Cons v vs)
  have "map_option rk_attempts (map_of (fold (upsert_rep_key now i ip port) (v # vs) tbl) k) =
      (case map_option rk_attempts (map_of (upsert_rep_key now i ip port v tbl) k) of Some a \<Rightarrow> Some a
       | None \<Rightarrow> if k \<in> set vs then Some 0 else None)"
    using Cons[of "upsert_rep_key now i ip port v tbl"] by (simp only: fold_simps)
  also have "\<dots> = (case map_option rk_attempts (map_of tbl k) of Some a \<Rightarrow> Some a | None \<Rightarrow> if k \<in> set (v # vs) then Some 0 else None)"
    unfolding attempts_upsert by (cases "k = v"; cases "map_of tbl k") auto
  finally show ?case .
qed (simp split: option.splits)

text \<open>Failed replication keys are retried within their attempt window: incrementing adds one
  attempt to exactly the given keys, storing a key again keeps its attempts, and the keys handed
  out for a window are rows whose attempts lie in it, at most ten thousand of them.\<close>

theorem rep_key_attempts:
  "map_option rk_attempts (map_of (replication_keys (snd (IncrementAttempts None keys s))) k) =
     map_option (\<lambda>r. if k \<in> set keys then rk_attempts r + 1 else rk_attempts r) (map_of (replication_keys s) k)
   \<and> map_option rk_attempts (map_of (replication_keys (snd (StoreBatchRepKeys None now vals i ip port s))) k) =
       (case map_option rk_attempts (map_of (replication_keys s) k) of Some a \<Rightarrow> Some a | None \<Rightarrow> if k \<in> set vals then Some 0 else None)
   \<and> (\<exists>ks. GetAllToDoRepKeys None lo hi s = Inr ks \<and> length ks \<le> 10000
        \<and> (\<forall>k r. (k, r) \<in> set ks \<longrightarrow> (k, r) \<in> set (replication_keys s) \<and> lo \<le> rk_attempts r \<and> rk_attempts r \<le> hi))"
proof (intro conjI)
  show "map_option rk_attempts (map_of (replication_keys (snd (IncrementAttempts None keys s))) k) =
     map_option (\<lambda>r. if k \<in> set keys then rk_attempts r + 1 else rk_attempts r) (map_of (replication_keys s) k)"
    by (cases "keys = []"; cases "map_of (replication_keys s) k") (simp_all add: IncrementAttempts_def map_of_update_row)
  show "\<exists>ks. GetAllToDoRepKeys None lo hi s = Inr ks \<and> length ks \<le> 10000
        \<and> (\<forall>k r. (k, r) \<in> set ks \<longrightarrow> (k, r) \<in> set (replication_keys s) \<and> lo \<le> rk_attempts r \<and> rk_attempts r \<le> hi)"
    by (auto simp: GetAllToDoRepKeys_def dest!: in_set_takeD)
  show "map_option rk_attempts (map_of (replication_keys (snd (StoreBatchRepKeys None now vals i ip port s))) k) =
       (case map_option rk_attempts (map_of (replication_keys s) k) of Some a \<Rightarrow> Some a | None \<Rightarrow> if k \<in> set vals then Some 0 else None)"
  proof -
    have "replication_keys (snd (StoreBatchRepKeys None now vals i ip port s)) = fold (upsert_rep_key now i ip port) vals (replication_keys s)"
      by (simp add: StoreBatchRepKeys_def)
    then show ?thesis by (simp only: attempts_upserts)
  qed
qed

theorem rep_key_attempts_witness:
  "map_option rk_attempts (map_of (replication_keys (snd (IncrementAttempts None [''k'']
      (snd (StoreBatchRepKeys None 1 [''k''] ''id'' ''ip'' 1 empty_sqlite))))) ''k'') = Some 1"
  using rep_key_attempts[of "[''k'']" "snd (StoreBatchRepKeys None 1 [''k''] ''id'' ''ip'' 1 empty_sqlite)" "''k''" 0 "[]" "''''" "''''" 0 0 0]
    rep_key_attempts[of "[]" empty_sqlite "''k''" 1 "[''k'']" "''id''" "''ip''" 1 0 0]
  by (auto simp: empty_sqlite_def)

end
