(* ===== verification/DHT.thy ===== *)
theory DHT
  imports HashTable BanList Message Sqlite_Store "HOL-Library.Sublist"
begin

text \<open>
  The node of the distributed hash table (\<^verbatim>\<open>p2p/kademlia/dht.go\<close>): maintenance of the routing
  table, local store operations, the iterative lookups and the store to the closest nodes.  An
  operation passes the whole node state; every message it sends is appended to \<open>sent\<close>, and the
  network's answer may depend on all messages sent before.  What the code takes from its
  surroundings is the record \<open>env\<close>: the Blake3 hash, base58 decoding, the network, the chain query
  for the own address, the URL functions, the outcomes of database calls, the clock, the order in
  which concurrent workers send and their answers arrive, and the timers of a lookup.  A panic, or
  a wait that never ends, is \<open>None\<close>.  An operation on the routing table is one step: the code releases
  the lock of the table between the lookup and the insertion of \<^verbatim>\<open>addNode\<close>, and two insertions of the
  same node at the same time are not modelled.
\<close>

section \<open>State and environment\<close>

record dht =
  ht :: hash_table
  dht_store :: sqlite_store
  ignorelist :: ban_list
  supernodeAddr :: string
  metaStore :: "string list option" \<comment> \<open>the disabled keys; \<open>None\<close> is a nil store\<close>
  sent :: "message list"

datatype iter_signal = Proceed | Cancelled string | TimedOut

record env =
  blake3 :: "bytes \<Rightarrow> bytes"
  b58decode :: "string \<Rightarrow> bytes"
  b58encode :: "bytes \<Rightarrow> string"
  net_answer :: "message list \<Rightarrow> message \<Rightarrow> message result"
  latestAddress :: "string \<Rightarrow> string option"
  urlHost :: "string \<Rightarrow> string option"
  splitHostPort :: "string \<Rightarrow> string option"
  dberr :: "string \<Rightarrow> string option"
  time_text :: "timestamp \<Rightarrow> string"
  now :: timestamp
  cloudFetch :: "string \<Rightarrow> bytes result"
  sched :: "node list \<Rightarrow> node list"
  arrive :: "message list \<Rightarrow> message list"
  tick :: "nat \<Rightarrow> iter_signal"

definition net_call :: "env \<Rightarrow> message \<Rightarrow> dht \<Rightarrow> message result \<times> dht" where
  "net_call E m s = (net_answer E (sent s) m, s\<lparr>sent := sent s @ [m]\<rparr>)"

definition NodesLen :: "dht \<Rightarrow> nat" where
  "NodesLen s = length (ht_nodes (ht s))"

definition getSupernodeAddress :: "env \<Rightarrow> dht \<Rightarrow> string \<times> dht" where
  "getSupernodeAddress E s =
     (if supernodeAddr s \<noteq> '''' then (supernodeAddr s, s)
      else case latestAddress E (str_of_bytes (ID (self (ht s)))) of
             None \<Rightarrow> (IP (self (ht s)), s\<lparr>supernodeAddr := IP (self (ht s))\<rparr>)
           | Some a \<Rightarrow> (a, s\<lparr>supernodeAddr := a\<rparr>))"

definition parseSupernodeAddress :: "env \<Rightarrow> string \<Rightarrow> string" where
  "parseSupernodeAddress E address =
     (case urlHost E address of
        Some h \<Rightarrow> (case splitHostPort E h of Some host \<Rightarrow> host | None \<Rightarrow> h)
      | None \<Rightarrow> (case splitHostPort E address of Some host \<Rightarrow> host | None \<Rightarrow> address))"

definition newMessage :: "env \<Rightarrow> int \<Rightarrow> node \<Rightarrow> payload \<Rightarrow> dht \<Rightarrow> message \<times> dht" where
  "newMessage E messageType receiver d s = (
     let (addr, s1) = getSupernodeAddress E s; hostIP = parseSupernodeAddress E addr;
         sender = \<lparr>ID = ID (self (ht s1)), IP = hostIP, Port = Port (self (ht s1)), HashedID = []\<rparr>
     in (\<lparr>Sender = Some sender, Receiver = Some receiver, MessageType = messageType, Data = d\<rparr>, s1))"

section \<open>Routing table maintenance\<close>

definition updateReplicationNode ::
  "env \<Rightarrow> bytes \<Rightarrow> string \<Rightarrow> u16 \<Rightarrow> bool \<Rightarrow> dht \<Rightarrow> string option \<times> dht" where
  "updateReplicationNode E nodeID ip port isActive s =
     (case RecordExists (dberr E ''RecordExists'') (str_of_bytes nodeID) (dht_store s) of
        Inl m \<Rightarrow> (Some (''err checking if replication info record exists: '' @ m), s)
      | Inr ok \<Rightarrow>
          let info = \<lparr>LastReplicatedAt = None, UpdatedAt = now E, nri_CreatedAt = zero_time, Active = isActive,
                      nri_IP = ip, nri_Port = port, nri_ID = nodeID, IsAdjusted = False, LastSeen = Some (now E)\<rparr>;
              (r, st) = (if ok then UpdateReplicationInfo (time_text E) (dberr E ''UpdateReplicationInfo'') info (dht_store s)
                         else AddReplicationInfo (dberr E ''AddReplicationInfo'') (now E) info (dht_store s))
          in (r, s\<lparr>dht_store := st\<rparr>))"

definition addNode :: "env \<Rightarrow> node \<Rightarrow> dht \<Rightarrow> (node option \<times> dht) option" where
  "addNode E n s =
     (if ID n = ID (self (ht s)) then Some (None, s)
      else let n1 = SetHashedID (blake3 E) n in
        Option.bind (bucketIndex (HashedID (self (ht s))) (HashedID n1)) (\<lambda>index.
        let s1 = snd (updateReplicationNode E (ID n1) (IP n1) (Port n1) True s) in
        Option.bind (hasBucketNode index (ID n1) (ht s1)) (\<lambda>has.
        if has then map_option (\<lambda>h. (None, s1\<lparr>ht := h\<rparr>)) (refreshNode (HashedID n1) (ht s1))
        else Option.bind (bucket_at (ht s1) index) (\<lambda>bucket.
          if length bucket = K then
            let first = hd bucket;
                (request, s2) = newMessage E Ping first NoData s1;
                (response, s3) = net_call E request s2
            in case response of
                 Inr _ \<Rightarrow> Some (None, s3\<lparr>ht := set_bucket (ht s3) index (tl bucket @ [n1])\<rparr>)
               | Inl _ \<Rightarrow> Some (Some first,
                    s3\<lparr>ignorelist := IncrementCount (now E) n1 (ignorelist s3),
                       ht := set_bucket (ht s3) index (tl (bucket @ [n1]))\<rparr>)
          else Some (None, s1\<lparr>ht := set_bucket (ht s1) index (bucket @ [n1])\<rparr>)))))"

definition removeNode :: "env \<Rightarrow> node \<Rightarrow> dht \<Rightarrow> dht option" where
  "removeNode E n s =
     (if ID n = ID (self (ht s)) then Some s
      else let n1 = SetHashedID (blake3 E) n in
        Option.bind (bucketIndex (HashedID (self (ht s))) (HashedID n1)) (\<lambda>index.
        map_option (\<lambda>(removed, h). s\<lparr>ht := h\<rparr>) (RemoveNode index (ID n1) (ht s))))"

text \<open>The map of known nodes is an association list.\<close>

fun addKnownNodes :: "env \<Rightarrow> node list \<Rightarrow> (string \<times> node) list \<Rightarrow> dht \<Rightarrow> ((string \<times> node) list \<times> dht) option" where
  "addKnownNodes E [] known s = Some (known, s)"
| "addKnownNodes E (n # ns) known s =
     (if map_of known (str_of_bytes (ID n)) \<noteq> None then addKnownNodes E ns known s
      else let n1 = SetHashedID (blake3 E) n in
        Option.bind (addNode E n1 s) (\<lambda>(_, s1).
        Option.bind (bucketIndex (HashedID (self (ht s1))) (HashedID n1)) (\<lambda>bucket.
        Option.bind (resetRefreshTime (now E) bucket (ht s1)) (\<lambda>h.
          addKnownNodes E ns (alist_update (str_of_bytes (ID n1)) n1 known) (s1\<lparr>ht := h\<rparr>)))))"

definition NClosestNodes :: "env \<Rightarrow> nat \<Rightarrow> string \<Rightarrow> node list \<Rightarrow> dht \<Rightarrow> node list" where
  "NClosestNodes E n key ignores s =
     nl_Nodes (fst (closestContacts n (b58decode E key) (ignores @ ToNodeList (ignorelist s)) (ht s)))"

definition NClosestNodesWithIncludingNodelist :: "env \<Rightarrow> nat \<Rightarrow> string \<Rightarrow> node list \<Rightarrow> node list \<Rightarrow> dht \<Rightarrow> node list" where
  "NClosestNodesWithIncludingNodelist E n key ignores includeNodeList s =
     nl_Nodes (closestContactsWithIncludingNodeList n (b58decode E key) (ignores @ ToNodeList (ignorelist s))
       (map (SetHashedID (blake3 E)) includeNodeList) (ht s))"

section \<open>Local store\<close>

text \<open>\<^verbatim>\<open>retryStore\<close>: the attempts within the retry time, with the context's outcome at each.\<close>

fun retryStore :: "string option list \<Rightarrow> bytes \<Rightarrow> bytes \<Rightarrow> int \<Rightarrow> sqlite_store \<Rightarrow> string option \<times> sqlite_store" where
  "retryStore [] key d ty st = (Some ''retry: no attempt'', st)"
| "retryStore [c] key d ty st = sq_Store c key d ty True st"
| "retryStore (c # cs) key d ty st =
     (case sq_Store c key d ty True st of (None, st') \<Rightarrow> (None, st') | (Some e, st') \<Rightarrow> retryStore cs key d ty st')"

definition LocalStore :: "env \<Rightarrow> string option list \<Rightarrow> string \<Rightarrow> bytes \<Rightarrow> dht \<Rightarrow> string result \<times> dht" where
  "LocalStore E attempts key d s = (
     let decoded = b58decode E key in
     if length decoded \<noteq> B div 8 then (errorf (''invalid key: '' @ key), s)
     else case retryStore attempts decoded d 0 (dht_store s) of
            (Some e, st) \<Rightarrow> (errorf (''retry store data to queries storage: '' @ e), s\<lparr>dht_store := st\<rparr>)
          | (None, st) \<Rightarrow> (Inr key, s\<lparr>dht_store := st\<rparr>))"

definition dht_Delete :: "env \<Rightarrow> string \<Rightarrow> dht \<Rightarrow> string option \<times> dht" where
  "dht_Delete E key s = (
     let decoded = b58decode E key in
     if length decoded \<noteq> B div 8 then (Some (''invalid key: '' @ key), s)
     else (None, s\<lparr>dht_store := sq_Delete decoded (dht_store s)\<rparr>))"

section \<open>Requests\<close>

definition sendStoreData :: "env \<Rightarrow> node \<Rightarrow> bytes \<Rightarrow> int \<Rightarrow> dht \<Rightarrow> response_status result \<times> dht" where
  "sendStoreData E n d ty s = (
     let (reqMsg, s1) = newMessage E StoreData n (StoreDataRequest d ty) s;
         (rsp, s2) = net_call E reqMsg s1
     in (case rsp of
           Inl e \<Rightarrow> errorf (''network call: '' @ e)
         | Inr m \<Rightarrow> (case Data m of StoreDataResponse st \<Rightarrow> Inr st | _ \<Rightarrow> errorf ''invalid StoreDataResponse''), s2))"

definition sendReplicateData :: "env \<Rightarrow> node \<Rightarrow> string list \<Rightarrow> dht \<Rightarrow> response_status result \<times> dht" where
  "sendReplicateData E n keys s = (
     let (reqMsg, s1) = newMessage E Replicate n (ReplicateDataRequest keys) s;
         (rsp, s2) = net_call E reqMsg s1
     in (case rsp of
           Inl e \<Rightarrow> errorf (''replicate network call: '' @ e)
         | Inr m \<Rightarrow> (case Data m of ReplicateDataResponse st \<Rightarrow> Inr st | _ \<Rightarrow> errorf ''invalid ReplicateDataResponse''), s2))"

definition GetValueFromNode :: "env \<Rightarrow> bytes \<Rightarrow> node \<Rightarrow> dht \<Rightarrow> bytes result \<times> dht" where
  "GetValueFromNode E target n s = (
     let (request, s1) = newMessage E FindValue n (FindValueRequest target) s;
         (rsp, s2) = net_call E request s1
     in (case rsp of
           Inl e \<Rightarrow> errorf (''network call request failed: '' @ e)
         | Inr m \<Rightarrow>
             (case Data m of
                FindValueResponse st cl v \<Rightarrow>
                  if Result st = ResultOk \<and> length v > 0 then Inr v else errorf ''claim to have value but not found''
              | _ \<Rightarrow> errorf ''claim to have value but not found''), s2))"

section \<open>Lookups\<close>

text \<open>The nodes \<^verbatim>\<open>doMultiWorkers\<close> contacts: the first Alpha, or with \<open>haveRest\<close> all, that were
  not contacted before.\<close>

fun pick_nodes :: "bool \<Rightarrow> nat \<Rightarrow> node list \<Rightarrow> string set \<Rightarrow> node list \<times> string set" where
  "pick_nodes haveRest number [] contacted = ([], contacted)"
| "pick_nodes haveRest number (n # ns) contacted =
     (if number \<ge> Alpha \<and> \<not> haveRest then ([], contacted)
      else if str_of_bytes (ID n) \<in> contacted then pick_nodes haveRest number ns contacted
      else let (ps, c) = pick_nodes haveRest (Suc number) ns (insert (str_of_bytes (ID n)) contacted) in (n # ps, c))"

definition worker_request :: "iterate_type \<Rightarrow> bytes \<Rightarrow> int \<times> payload" where
  "worker_request ity target =
     (case ity of IterateFindValue \<Rightarrow> (FindValue, FindValueRequest target) | _ \<Rightarrow> (FindNode, FindNodeRequest target))"

fun send_all :: "env \<Rightarrow> int \<Rightarrow> payload \<Rightarrow> node list \<Rightarrow> dht \<Rightarrow> message list \<times> dht" where
  "send_all E mt d [] s = ([], s)"
| "send_all E mt d (n # ns) s = (
     let (request, s1) = newMessage E mt n d s;
         (rsp, s2) = net_call E request s1;
         (ms, s3) = send_all E mt d ns s2
     in (case rsp of Inl _ \<Rightarrow> ms | Inr m \<Rightarrow> m # ms, s3))"

definition doMultiWorkers ::
  "env \<Rightarrow> iterate_type \<Rightarrow> bytes \<Rightarrow> node_list \<Rightarrow> string set \<Rightarrow> bool \<Rightarrow> dht \<Rightarrow> message list \<times> string set \<times> dht" where
  "doMultiWorkers E ity target nl contacted haveRest s = (
     let (picked, contacted') = pick_nodes haveRest 0 (nl_Nodes nl) contacted;
         (mt, d) = worker_request ity target;
         (ms, s1) = send_all E mt d (sched E picked) s
     in (arrive E ms, contacted', s1))"

text \<open>\<^verbatim>\<open>handleResponses\<close>: a response without a sender is a nil dereference.\<close>

fun handleResponses :: "env \<Rightarrow> message list \<Rightarrow> node_list \<Rightarrow> dht \<Rightarrow> (node_list \<times> bytes \<times> dht) option" where
  "handleResponses E [] nl s = Some (nl, [], s)"
| "handleResponses E (m # ms) nl s =
     (case Sender m of
        None \<Rightarrow> None
      | Some sender \<Rightarrow>
          Option.bind (addNode E sender s) (\<lambda>(_, s1).
          if MessageType m = FindNode \<or> MessageType m = StoreData then
            (case Data m of
               FindNodeResponse st cl \<Rightarrow>
                 if Result st = ResultOk \<and> length cl > 0 then handleResponses E ms (AddNodes cl nl) s1
                 else handleResponses E ms nl s1
             | _ \<Rightarrow> handleResponses E ms nl s1)
          else if MessageType m = FindValue then
            (case Data m of
               FindValueResponse st cl v \<Rightarrow>
                 if Result st = ResultOk \<and> length v > 0 then Some (nl, v, s1)
                 else if length cl > 0 then handleResponses E ms (AddNodes cl nl) s1
                 else handleResponses E ms nl s1
             | _ \<Rightarrow> handleResponses E ms nl s1)
          else handleResponses E ms nl s1))"

definition maxIterations :: nat where "maxIterations = 4"

text \<open>The loop of \<^verbatim>\<open>iterateFindValue\<close>; \<open>left\<close> counts the iterations left.\<close>

fun findValue_loop ::
  "env \<Rightarrow> nat \<Rightarrow> bytes \<Rightarrow> node option \<Rightarrow> string set \<Rightarrow> node_list \<Rightarrow> dht \<Rightarrow> (bytes \<times> dht) option" where
  "findValue_loop E 0 target closestNode contacted nl s = Some ([], s)"
| "findValue_loop E (Suc left) target closestNode contacted nl s =
     (case nl_Nodes nl of
        [] \<Rightarrow> Some ([], s)
      | first # rest \<Rightarrow>
          if (case closestNode of None \<Rightarrow> False | Some c \<Rightarrow> ID first = ID c) then Some ([], s)
          else let (responses, contacted', s1) = doMultiWorkers E IterateFindValue target nl contacted False s in
            Option.bind (handleResponses E responses nl s1) (\<lambda>(nl1, v, s2).
            if length v > 0 then Some (v, s2)
            else findValue_loop E left target (Some first) contacted' (nl_Sort nl1) s2))"

definition iterateFindValue :: "env \<Rightarrow> bytes \<Rightarrow> dht \<Rightarrow> (bytes \<times> dht) option" where
  "iterateFindValue E target s = (
     let igList = ToNodeList (ignorelist s);
         nl = fst (closestContacts Alpha target igList (ht s))
     in if nl_Len nl = 0 then Some ([], s)
        else findValue_loop E maxIterations target None {} nl s)"

text \<open>\<^verbatim>\<open>storeToAlphaNodes\<close>.  The collector waits for as many results as there are nodes among the
  first Alpha, while only the nodes that are not banned are asked: with a banned one among them the
  wait never ends.\<close>

definition store_ok :: "response_status result \<Rightarrow> bool" where
  "store_ok r = (case r of Inl _ \<Rightarrow> False | Inr st \<Rightarrow> Result st = ResultOk)"

fun store_all :: "env \<Rightarrow> bytes \<Rightarrow> int \<Rightarrow> node list \<Rightarrow> nat \<Rightarrow> dht \<Rightarrow> nat \<times> dht" where
  "store_all E d ty [] cnt s = (cnt, s)"
| "store_all E d ty (n # ns) cnt s = (
     let (r, s1) = sendStoreData E n d ty s in store_all E d ty ns (if store_ok r then Suc cnt else cnt) s1)"

fun store_rest :: "env \<Rightarrow> bytes \<Rightarrow> int \<Rightarrow> node list \<Rightarrow> nat \<Rightarrow> dht \<Rightarrow> nat \<times> dht" where
  "store_rest E d ty [] cnt s = (cnt, s)"
| "store_rest E d ty (n # ns) cnt s =
     (if cnt \<ge> Alpha then (cnt, s)
      else if Banned (ignorelist s) n then store_rest E d ty ns cnt s
      else let (r, s1) = sendStoreData E n d ty s in store_rest E d ty ns (if store_ok r then Suc cnt else cnt) s1)"

definition storeToAlphaNodes :: "env \<Rightarrow> node_list \<Rightarrow> bytes \<Rightarrow> int \<Rightarrow> dht \<Rightarrow> (string option \<times> dht) option" where
  "storeToAlphaNodes E nl d ty s = (
     let first = take Alpha (nl_Nodes nl);
         asked = filter (\<lambda>n. \<not> Banned (ignorelist s) n) first;
         (storeCount, s1) = store_all E d ty (sched E asked) 0 s
     in if length asked < length first then None
        else if storeCount \<ge> Alpha then Some (None, s1)
        else let (finalStoreCount, s2) = store_rest E d ty (drop Alpha (nl_Nodes nl)) storeCount s1
          in if finalStoreCount \<ge> Alpha then Some (None, s2)
             else Some (Some (''store data to alpha nodes failed, only '' @ itoa finalStoreCount @ '' nodes stored''), s2))"

fun handle_iterate_responses :: "env \<Rightarrow> message list \<Rightarrow> node_list \<Rightarrow> dht \<Rightarrow> (node_list \<times> dht) option" where
  "handle_iterate_responses E [] nl s = Some (nl, s)"
| "handle_iterate_responses E (m # ms) nl s =
     (case Sender m of
        None \<Rightarrow> None
      | Some sender \<Rightarrow>
          Option.bind (addNode E sender s) (\<lambda>(_, s1).
          if MessageType m = FindNode \<or> MessageType m = StoreData then
            (case Data m of
               FindNodeResponse st cl \<Rightarrow>
                 if Result st = ResultOk \<and> length cl > 0 then handle_iterate_responses E ms (AddNodes cl nl) s1
                 else handle_iterate_responses E ms nl s1
             | _ \<Rightarrow> handle_iterate_responses E ms nl s1)
          else handle_iterate_responses E ms nl s1))"

fun iterate_loop ::
  "env \<Rightarrow> nat \<Rightarrow> nat \<Rightarrow> iterate_type \<Rightarrow> bytes \<Rightarrow> bytes \<Rightarrow> int \<Rightarrow> node \<Rightarrow> bool \<Rightarrow> string set \<Rightarrow> node_list \<Rightarrow> dht \<Rightarrow>
   (bytes result \<times> dht) option" where
  "iterate_loop E 0 i ity target d ty closestNode searchRest contacted nl s = Some (Inr [], s)"
| "iterate_loop E (Suc left) i ity target d ty closestNode searchRest contacted nl s =
     (case tick E i of
        Cancelled e \<Rightarrow> Some (errorf (''iterate cancelled: '' @ e), s)
      | TimedOut \<Rightarrow> Some (Inr [], s)
      | Proceed \<Rightarrow>
          let (responses, contacted', s1) = doMultiWorkers E ity target nl contacted searchRest s in
          Option.bind (handle_iterate_responses E responses nl s1) (\<lambda>(nl1, s2).
          if \<not> searchRest \<and> nl_Nodes nl1 = [] then Some (Inr [], s2)
          else let nl2 = nl_Sort (nl1\<lparr>Comparator := target\<rparr>) in
            (case ity of
               IterateFindNode \<Rightarrow>
                 (case nl_Nodes nl2 of
                    [] \<Rightarrow> None
                  | first # _ \<Rightarrow>
                      if ID first = ID closestNode \<or> searchRest then
                        (if \<not> searchRest then iterate_loop E left (Suc i) ity target d ty closestNode True contacted' nl2 s2
                         else Some (Inr [], s2))
                      else iterate_loop E left (Suc i) ity target d ty first searchRest contacted' nl2 s2)
             | IterateStore \<Rightarrow> map_option (\<lambda>(e, s3). (Inr [], s3)) (storeToAlphaNodes E nl2 d ty s2)
             | IterateFindValue \<Rightarrow> iterate_loop E left (Suc i) ity target d ty closestNode searchRest contacted' nl2 s2)))"

definition iterate :: "env \<Rightarrow> iterate_type \<Rightarrow> bytes \<Rightarrow> bytes \<Rightarrow> int \<Rightarrow> dht \<Rightarrow> (bytes result \<times> dht) option" where
  "iterate E ity target d ty s =
     (if ity = IterateFindValue then map_option (\<lambda>(v, s'). (Inr v, s')) (iterateFindValue E target s)
      else let igList = ToNodeList (ignorelist s);
               nl = fst (closestContacts Alpha target igList (ht s))
        in case nl_Nodes nl of
             [] \<Rightarrow> Some (Inr [], s)
           | closestNode # _ \<Rightarrow>
               Option.bind
                 (if ity = IterateFindNode then
                    Option.bind (bucketIndex (HashedID (self (ht s))) (blake3 E target)) (\<lambda>bucket.
                      map_option (\<lambda>h. s\<lparr>ht := h\<rparr>) (resetRefreshTime (now E) bucket (ht s)))
                  else Some s)
                 (\<lambda>s1. iterate_loop E 5 0 ity target d ty closestNode False {} nl s1))"

definition dht_Store :: "env \<Rightarrow> string option list \<Rightarrow> bytes \<Rightarrow> int \<Rightarrow> dht \<Rightarrow> (string result \<times> dht) option" where
  "dht_Store E attempts d ty s = (
     let key = blake3 E d; retKey = b58encode E key in
     case retryStore attempts key d ty (dht_store s) of
       (Some e, st) \<Rightarrow> Some (errorf (''retry store data to queries storage: '' @ e), s\<lparr>dht_store := st\<rparr>)
     | (None, st) \<Rightarrow>
         Option.bind (iterate E IterateStore key d ty (s\<lparr>dht_store := st\<rparr>)) (\<lambda>(r, s1).
           case r of Inl e \<Rightarrow> Some (errorf (''iterative store data: '' @ e), s1) | Inr _ \<Rightarrow> Some (Inr retKey, s1)))"

definition dht_Retrieve :: "env \<Rightarrow> string \<Rightarrow> bool \<Rightarrow> dht \<Rightarrow> (bytes result \<times> dht) option" where
  "dht_Retrieve E key localOnly s = (
     let decoded = b58decode E key in
     if length decoded \<noteq> B div 8 then Some (errorf (''invalid key: '' @ key), s)
     else let dbKey = hex_encode decoded in
       if (case metaStore s of None \<Rightarrow> False | Some ks \<Rightarrow> dbKey \<in> set ks \<and> dberr E ''MetaRetrieve'' = None)
       then Some (errorf (''key is disabled: '' @ key), s)
       else let (r, st) = sq_Retrieve (cloudFetch E) (dberr E ''Retrieve'') decoded (dht_store s);
                s1 = s\<lparr>dht_store := st\<rparr>
         in case r of
              Inr v \<Rightarrow>
                if length v > 0 then Some (Inr v, s1)
                else if localOnly then Some (errorf ''queries-only failed to get properly'', s1)
                else map_option (\<lambda>(p, s2). (case p of Inl e \<Rightarrow> errorf (''retrieve from peer: '' @ e) | Inr pv \<Rightarrow> Inr pv, s2))
                       (iterate E IterateFindValue decoded [] 0 s1)
            | Inl e \<Rightarrow>
                if localOnly then Some (errorf (''queries-only failed to get properly: '' @ e), s1)
                else map_option (\<lambda>(p, s2). (case p of Inl e \<Rightarrow> errorf (''retrieve from peer: '' @ e) | Inr pv \<Rightarrow> Inr pv, s2))
                       (iterate E IterateFindValue decoded [] 0 s1))"

section \<open>What the operations leave alone\<close>

lemma newMessage_frame [simp]:
  "ht (snd (newMessage E mt r d s)) = ht s" "ignorelist (snd (newMessage E mt r d s)) = ignorelist s"
  "sent (snd (newMessage E mt r d s)) = sent s" "dht_store (snd (newMessage E mt r d s)) = dht_store s"
  by (auto simp: newMessage_def getSupernodeAddress_def Let_def split: prod.splits option.splits)

lemma newMessage_fields [simp]:
  "Receiver (fst (newMessage E mt r d s)) = Some r" "MessageType (fst (newMessage E mt r d s)) = mt"
  "Data (fst (newMessage E mt r d s)) = d"
  by (auto simp: newMessage_def Let_def split: prod.splits)

lemma net_call_frame [simp]:
  "ht (snd (net_call E m s)) = ht s" "ignorelist (snd (net_call E m s)) = ignorelist s"
  "sent (snd (net_call E m s)) = sent s @ [m]" "dht_store (snd (net_call E m s)) = dht_store s"
  "fst (net_call E m s) = net_answer E (sent s) m"
  by (simp_all add: net_call_def)

lemma updateReplicationNode_frame [simp]:
  "ht (snd (updateReplicationNode E i ip p a s)) = ht s" "ignorelist (snd (updateReplicationNode E i ip p a s)) = ignorelist s"
  "sent (snd (updateReplicationNode E i ip p a s)) = sent s"
  by (auto simp: updateReplicationNode_def Let_def split: sum.splits prod.splits)

lemma updateReplicationNode_store:
  "\<exists>ri. dht_store (snd (updateReplicationNode E i ip p a s)) = (dht_store s)\<lparr>replication_info := ri\<rparr>"
proof -
  have same: "\<exists>ri. st = st\<lparr>replication_info := ri\<rparr>" for st :: sqlite_store
    by (rule exI[of _ "replication_info st"]) simp
  have "\<exists>ri. snd (UpdateReplicationInfo tt e rep st) = st\<lparr>replication_info := ri\<rparr>" for tt e rep and st :: sqlite_store
    using same[of st] by (auto simp: UpdateReplicationInfo_def split: option.splits)
  moreover have "\<exists>ri. snd (AddReplicationInfo e t rep st) = st\<lparr>replication_info := ri\<rparr>" for e t rep and st :: sqlite_store
    using same[of st] by (auto simp: AddReplicationInfo_def Let_def split: option.splits)
  ultimately show ?thesis using same[of "dht_store s"]
    by (auto simp: updateReplicationNode_def Let_def case_prod_unfold split: sum.splits)
qed

lemma addNode_store:
  assumes "addNode E n s = Some (r, s')"
  shows "\<exists>ri. dht_store s' = (dht_store s)\<lparr>replication_info := ri\<rparr>"
proof (cases "ID n = ID (self (ht s))")
  case True
  with assms show ?thesis by (auto simp: addNode_def intro: exI[of _ "replication_info (dht_store s)"])
next
  case False
  let ?n = "SetHashedID (blake3 E) n"
  have "dht_store s' = dht_store (snd (updateReplicationNode E (ID ?n) (IP ?n) (Port ?n) True s))"
    using assms False
    by (auto simp: addNode_def Let_def case_prod_unfold split: bind_splits if_splits sum.splits)
  then show ?thesis using updateReplicationNode_store by metis
qed

section \<open>Adding nodes\<close>

definition hash_ok :: "env \<Rightarrow> bool" where
  "hash_ok E \<longleftrightarrow> (\<forall>x. length (blake3 E x) = 32)"

text \<open>A node whose hashed identifier is absent or right.\<close>

definition trusted :: "env \<Rightarrow> node \<Rightarrow> bool" where
  "trusted E n \<longleftrightarrow> HashedID n = [] \<or> HashedID n = blake3 E (ID n)"

lemma trusted_SetHashedID: "trusted E n \<Longrightarrow> HashedID (SetHashedID (blake3 E) n) = blake3 E (ID n)"
  by (auto simp: trusted_def SetHashedID_def)

lemma bucket_ok_snoc:
  assumes "bucket_ok H me i b" and "length b < K" and "ID n \<notin> ID ` set b" and "HashedID n = H (ID n)"
    and "bucketIndex (HashedID me) (HashedID n) = Some (int i)" and "ID n \<noteq> ID me"
  shows "bucket_ok H me i (b @ [n])"
  using assms by (auto simp: bucket_ok_def)

lemma bucket_ok_tl: "bucket_ok H me i b \<Longrightarrow> bucket_ok H me i (tl b)"
  by (cases b) (auto simp: bucket_ok_def)

definition node_index :: "env \<Rightarrow> dht \<Rightarrow> node \<Rightarrow> nat" where
  "node_index E s n = nat (the (bucketIndex (HashedID (self (ht s))) (blake3 E (ID n))))"

lemma node_index:
  assumes "hash_ok E" and "ht_inv (blake3 E) (ht s)"
  shows "node_index E s n < B \<and> bucketIndex (HashedID (self (ht s))) (blake3 E (ID n)) = Some (int (node_index E s n))"
proof -
  have "length (HashedID (self (ht s))) = 32" "length (blake3 E (ID n)) = 32"
    using assms by (auto simp: hash_ok_def ht_inv_def)
  then show ?thesis by (metis bucketIndex_range B_def node_index_def nat_int option.sel)
qed

text \<open>What \<^verbatim>\<open>addNode\<close> does to the bucket of the node, on each branch.\<close>

lemma addNode_cases:
  assumes "hash_ok E" and "ht_inv (blake3 E) (ht s)" and "trusted E n" and "ID n \<noteq> ID (self (ht s))"
  defines "i \<equiv> node_index E s n"
  defines "b \<equiv> routeTable (ht s) ! i" and "n1 \<equiv> SetHashedID (blake3 E) n"
  obtains (known) s' off where "ID n \<in> ID ` set b" and "off < length b"
      and "off = (case find_index (\<lambda>v. ID v = blake3 E (ID n)) b of Some k \<Rightarrow> k | None \<Rightarrow> 0)"
      and "addNode E n s = Some (None, s')" and "ht s' = set_bucket (ht s) (int i) (move_to_end off b)"
      and "sent s' = sent s" and "ignorelist s' = ignorelist s"
    | (room) s' where "ID n \<notin> ID ` set b" and "length b < K" and "addNode E n s = Some (None, s')"
      and "ht s' = set_bucket (ht s) (int i) (b @ [n1])" and "sent s' = sent s" and "ignorelist s' = ignorelist s"
    | (full) r s' m where "ID n \<notin> ID ` set b" and "length b = K" and "addNode E n s = Some (r, s')"
      and "ht s' = set_bucket (ht s) (int i) (tl b @ [n1])" and "sent s' = sent s @ [m]" and "MessageType m = Ping"
      and "Receiver m = Some (hd b)"
      and "(is_ok (net_answer E (sent s) m) \<and> r = None \<and> ignorelist s' = ignorelist s)
         \<or> (isl (net_answer E (sent s) m) \<and> r = Some (hd b) \<and> ignorelist s' = IncrementCount (now E) n1 (ignorelist s))"
proof -
  have hid: "HashedID n1 = blake3 E (ID n)" using assms(3) by (simp add: n1_def trusted_SetHashedID)
  have ix: "i < B" "bucketIndex (HashedID (self (ht s))) (HashedID n1) = Some (int i)"
    using node_index[OF assms(1,2), of n] hid by (simp_all add: i_def)
  let ?s1 = "snd (updateReplicationNode E (ID n1) (IP n1) (Port n1) True s)"
  have b: "bucket_at (ht s) (int i) = Some b" using bucket_at_int[OF assms(2) ix(1)] by (simp add: b_def)
  have bl: "length b \<le> K" using ht_inv_bucket[OF assms(2) ix(1)] by (simp add: b_def bucket_ok_def)
  have has: "hasBucketNode (int i) (ID n1) (ht s) = Some (ID n \<in> ID ` set b)"
    using b by (simp add: hasBucketNode_def list_ex_iff n1_def image_iff) metis
  note unf = addNode_def[of E n s] assms(4) ix b has n1_def[symmetric] Let_def
  show thesis
  proof (cases "ID n \<in> ID ` set b")
    case True
    let ?off = "case find_index (\<lambda>v. ID v = blake3 E (ID n)) b of Some k \<Rightarrow> k | None \<Rightarrow> 0"
    have "?off < length b" using True find_index_Some[of "\<lambda>v. ID v = blake3 E (ID n)" b]
      by (cases b) (auto split: option.splits)
    then have "refreshNode (HashedID n1) (ht s) = Some (set_bucket (ht s) (int i) (move_to_end ?off b))"
      using ix b hid by (simp add: refreshNode_def Let_def)
    then have "addNode E n s = Some (None, ?s1\<lparr>ht := set_bucket (ht s) (int i) (move_to_end ?off b)\<rparr>)"
      using True by (simp add: unf)
    then show thesis using known[OF True \<open>?off < length b\<close> refl] by simp
  next
    case new: False
    show thesis
    proof (cases "length b = K")
      case False
      then have "addNode E n s = Some (None, ?s1\<lparr>ht := set_bucket (ht s) (int i) (b @ [n1])\<rparr>)"
        using new by (simp add: unf)
      then show thesis using room[OF new] False bl by simp
    next
      case True
      then have ne: "b \<noteq> []" by (auto simp: K_def)
      let ?q = "newMessage E Ping (hd b) NoData ?s1"
      let ?m = "fst ?q" and ?s3 = "snd (net_call E (fst ?q) (snd ?q))"
      have f: "net_answer E (sent s) ?m = fst (net_call E ?m (snd ?q))" by simp
      show thesis
      proof (cases "net_answer E (sent s) ?m")
        case (Inr y)
        then have "addNode E n s = Some (None, ?s3\<lparr>ht := set_bucket (ht s) (int i) (tl b @ [n1])\<rparr>)"
          using new True Inr by (simp add: unf case_prod_unfold)
        then show thesis using full[OF new True, of None _ ?m] Inr by simp
      next
        case (Inl e)
        then have "addNode E n s = Some (Some (hd b), ?s3\<lparr>ignorelist := IncrementCount (now E) n1 (ignorelist ?s3),
            ht := set_bucket (ht s) (int i) (tl b @ [n1])\<rparr>)"
          using new True ne Inl by (simp add: unf case_prod_unfold)
        then show thesis using full[OF new True, of "Some (hd b)" _ ?m] Inl by simp
      qed
    qed
  qed
qed

lemma hasNode_bucket: "i < length (routeTable h) \<Longrightarrow> k \<in> ID ` set (routeTable h ! i) \<Longrightarrow> hasNode k h"
  by (auto simp: hasNode_def list_ex_iff in_set_conv_nth image_iff) (metis nth_mem)

lemma set_bucket_nth: "i < length (routeTable h) \<Longrightarrow> routeTable (set_bucket h (int i) b) ! i = b"
  by (simp add: set_bucket_def)

lemma addNode_inv:
  assumes "hash_ok E" and "ht_inv (blake3 E) (ht s)" and "trusted E n"
  shows "\<exists>r s'. addNode E n s = Some (r, s') \<and> ht_inv (blake3 E) (ht s') \<and> self (ht s') = self (ht s)
    \<and> (ID n \<noteq> ID (self (ht s)) \<longrightarrow> hasNode (ID n) (ht s'))"
proof (cases "ID n = ID (self (ht s))")
  case True
  then show ?thesis using assms(2) by (simp add: addNode_def)
next
  case False
  let ?i = "node_index E s n" and ?n1 = "SetHashedID (blake3 E) n"
  let ?b = "routeTable (ht s) ! ?i"
  note ix = node_index[OF assms(1,2), of n]
  have ok: "bucket_ok (blake3 E) (self (ht s)) ?i ?b" using ht_inv_bucket[OF assms(2)] ix by blast
  have len: "?i < length (routeTable (ht s))" using ix assms(2) by (simp add: ht_inv_def)
  have fin: "ht_inv (blake3 E) (set_bucket (ht s) (int ?i) b') \<and> hasNode (ID n) (set_bucket (ht s) (int ?i) b')"
    if "bucket_ok (blake3 E) (self (ht s)) ?i b'" "ID n \<in> ID ` set b'" for b'
    using that set_bucket_inv[OF assms(2)] len hasNode_bucket[of ?i "set_bucket (ht s) (int ?i) b'" "ID n"]
    by (simp add: set_bucket_nth)
  have n1: "ID ?n1 = ID n" "HashedID ?n1 = blake3 E (ID ?n1)"
      "bucketIndex (HashedID (self (ht s))) (HashedID ?n1) = Some (int ?i)"
    using trusted_SetHashedID[OF assms(3)] ix by simp_all
  from assms(1-3) False show ?thesis
  proof (cases rule: addNode_cases)
    case (known s' off)
    have "mset (move_to_end off ?b) = mset ?b" using known(2) by (rule mset_move_to_end)
    then have "bucket_ok (blake3 E) (self (ht s)) ?i (move_to_end off ?b)" "ID n \<in> ID ` set (move_to_end off ?b)"
      using bucket_ok_mset[OF _ ok] known(1) set_move_to_end[OF known(2)] by auto
    with fin known(4,5) show ?thesis by auto
  next
    case (room s')
    have "bucket_ok (blake3 E) (self (ht s)) ?i (?b @ [?n1])"
      using room n1 False by (intro bucket_ok_snoc[OF ok]) simp_all
    with fin room n1 show ?thesis by fastforce
  next
    case (full r s' m)
    have "length (tl ?b) < K" "ID ?n1 \<notin> ID ` set (tl ?b)"
      using full(1,2) n1(1) by (auto simp: K_def dest: list.set_sel(2)[rotated])
    then have "bucket_ok (blake3 E) (self (ht s)) ?i (tl ?b @ [?n1])"
      using n1 False by (intro bucket_ok_snoc[OF bucket_ok_tl[OF ok]]) simp_all
    with fin full(3,4) n1(1) show ?thesis by fastforce
  qed
qed

lemma addNode_sent:
  assumes "addNode E n s = Some (r, s')"
  shows "\<exists>ms. sent s' = sent s @ ms \<and> (\<forall>m\<in>set ms. MessageType m = Ping)"
proof -
  have ping: "MessageType request = Ping \<and> sent s2 = sent s1" if "newMessage E Ping first NoData s1 = (request, s2)" for request s1 s2 first
    using that by (metis fst_conv newMessage_fields(2) newMessage_frame(3) snd_conv)
  have call: "sent s3 = sent s2 @ [request]" if "net_call E request s2 = (resp, s3)" for request resp s2 s3
    using that by (metis net_call_frame(3) snd_conv)
  from assms show ?thesis
    by (auto simp: addNode_def Let_def split: if_splits bind_splits prod.splits sum.splits dest!: ping call)
qed

section \<open>Store to the closest nodes\<close>

text \<open>How many of the messages \<open>ms\<close>, sent after \<open>h\<close>, were answered with a positive store
  response.\<close>

definition store_answer :: "env \<Rightarrow> message list \<Rightarrow> message \<Rightarrow> response_status result" where
  "store_answer E h m = (case net_answer E h m of
      Inl e \<Rightarrow> errorf (''network call: '' @ e)
    | Inr r \<Rightarrow> (case Data r of StoreDataResponse st \<Rightarrow> Inr st | _ \<Rightarrow> errorf ''invalid StoreDataResponse''))"

fun acks :: "env \<Rightarrow> message list \<Rightarrow> message list \<Rightarrow> nat" where
  "acks E h [] = 0"
| "acks E h (m # ms) = (if store_ok (store_answer E h m) then 1 else 0) + acks E (h @ [m]) ms"

lemma acks_append: "acks E h (ms @ ns) = acks E h ms + acks E (h @ ms) ns"
  by (induction ms arbitrary: h) auto

definition store_msg :: "bytes \<Rightarrow> int \<Rightarrow> message \<Rightarrow> bool" where
  "store_msg d ty m \<longleftrightarrow> MessageType m = StoreData \<and> Data m = StoreDataRequest d ty"

lemma sendStoreData_spec:
  "\<exists>m s1. sendStoreData E n d ty s = (store_answer E (sent s) m, s1) \<and> sent s1 = sent s @ [m]
     \<and> Receiver m = Some n \<and> store_msg d ty m \<and> ht s1 = ht s \<and> ignorelist s1 = ignorelist s"
proof -
  let ?q = "newMessage E StoreData n (StoreDataRequest d ty) s"
  have "sendStoreData E n d ty s = (store_answer E (sent s) (fst ?q), snd (net_call E (fst ?q) (snd ?q)))"
    by (simp add: sendStoreData_def Let_def store_answer_def net_call_def case_prod_unfold)
  then show ?thesis
    by (intro exI[of _ "fst ?q"] exI[of _ "snd (net_call E (fst ?q) (snd ?q))"]) (simp add: store_msg_def)
qed

lemma store_all_spec:
  "\<exists>ms s'. store_all E d ty ns cnt s = (cnt + acks E (sent s) ms, s') \<and> sent s' = sent s @ ms
     \<and> map Receiver ms = map Some ns \<and> (\<forall>m\<in>set ms. store_msg d ty m) \<and> ignorelist s' = ignorelist s \<and> ht s' = ht s"
proof (induction ns arbitrary: cnt s)
  case (Cons n ns)
  obtain m s1 where m: "sendStoreData E n d ty s = (store_answer E (sent s) m, s1)"
      "sent s1 = sent s @ [m]" "Receiver m = Some n" "store_msg d ty m" "ht s1 = ht s" "ignorelist s1 = ignorelist s"
    using sendStoreData_spec by blast
  let ?c = "if store_ok (store_answer E (sent s) m) then Suc cnt else cnt"
  obtain ms s' where IH: "store_all E d ty ns ?c s1 = (?c + acks E (sent s1) ms, s')" "sent s' = sent s1 @ ms"
      "map Receiver ms = map Some ns" "\<forall>m\<in>set ms. store_msg d ty m" "ignorelist s' = ignorelist s1" "ht s' = ht s1"
    using Cons.IH by blast
  have "store_all E d ty (n # ns) cnt s = store_all E d ty ns ?c s1"
    using m(1) by simp
  then show ?case using IH m by (intro exI[of _ "m # ms"] exI[of _ s']) simp
qed auto

lemma store_rest_spec:
  "\<exists>ms s'. store_rest E d ty ns cnt s = (cnt + acks E (sent s) ms, s') \<and> sent s' = sent s @ ms
     \<and> (\<exists>ns'. subseq ns' (filter (\<lambda>n. \<not> Banned (ignorelist s) n) ns) \<and> map Receiver ms = map Some ns'
           \<and> (cnt + acks E (sent s) ms < Alpha \<longrightarrow> ns' = filter (\<lambda>n. \<not> Banned (ignorelist s) n) ns))
     \<and> (\<forall>m\<in>set ms. store_msg d ty m)"
proof (induction ns arbitrary: cnt s)
  case (Cons n ns)
  show ?case
  proof (cases "cnt \<ge> Alpha")
    case True
    then show ?thesis by (intro exI[of _ "[]"] exI[of _ s]) auto
  next
    case room: False
    show ?thesis
    proof (cases "Banned (ignorelist s) n")
      case True
      then show ?thesis using room Cons.IH[of cnt s] by simp
    next
      case ok: False
      obtain m s1 where m: "sendStoreData E n d ty s = (store_answer E (sent s) m, s1)"
          "sent s1 = sent s @ [m]" "Receiver m = Some n" "store_msg d ty m" "ignorelist s1 = ignorelist s"
        using sendStoreData_spec by blast
      let ?c = "if store_ok (store_answer E (sent s) m) then Suc cnt else cnt"
      let ?P = "\<lambda>n. \<not> Banned (ignorelist s) n"
      obtain ms s' ns' where IH: "store_rest E d ty ns ?c s1 = (?c + acks E (sent s1) ms, s')" "sent s' = sent s1 @ ms"
          "subseq ns' (filter ?P ns)" "map Receiver ms = map Some ns'" "\<forall>m\<in>set ms. store_msg d ty m"
          "?c + acks E (sent s1) ms < Alpha \<longrightarrow> ns' = filter ?P ns"
        using Cons.IH[of ?c s1] m(5) by auto
      have st: "store_rest E d ty (n # ns) cnt s = store_rest E d ty ns ?c s1"
        using room ok m(1) by simp
      have ac: "?c + acks E (sent s1) ms = cnt + acks E (sent s) (m # ms)" using m(2) by simp
      show ?thesis
        using IH(1,2,5) m(2,3,4) ok IH(3,4,6) unfolding st ac
        by (intro exI[of _ "m # ms"] exI[of _ s']) (auto intro!: exI[of _ "n # ns'"])
    qed
  qed
qed auto

section \<open>Lookups\<close>

text \<open>The identifiers of the nodes asked with messages of a type.\<close>

definition asked_ids :: "int \<Rightarrow> message list \<Rightarrow> string list" where
  "asked_ids mt ms = map (\<lambda>m. str_of_bytes (ID (the (Receiver m)))) (filter (\<lambda>m. MessageType m = mt) ms)"

lemma asked_ids_append [simp]: "asked_ids mt (ms @ ns) = asked_ids mt ms @ asked_ids mt ns"
  by (simp add: asked_ids_def)

lemma asked_ids_none: "\<forall>m\<in>set ms. MessageType m \<noteq> mt \<Longrightarrow> asked_ids mt ms = []"
  by (simp add: asked_ids_def)

lemma pick_nodes_spec:
  "pick_nodes haveRest number ns c = (ps, c') \<Longrightarrow> distinct (map (\<lambda>n. str_of_bytes (ID n)) ps)
     \<and> set (map (\<lambda>n. str_of_bytes (ID n)) ps) \<inter> c = {} \<and> c' = c \<union> set (map (\<lambda>n. str_of_bytes (ID n)) ps)
     \<and> set ps \<subseteq> set ns \<and> (\<not> haveRest \<longrightarrow> number \<le> Alpha \<longrightarrow> number + length ps \<le> Alpha)"
proof (induction haveRest number ns c arbitrary: ps c' rule: pick_nodes.induct)
  case (2 haveRest number n ns contacted)
  show ?case
  proof (cases "number \<ge> Alpha \<and> \<not> haveRest")
    case True
    then show ?thesis using 2(3) by auto
  next
    case go: False
    show ?thesis
    proof (cases "str_of_bytes (ID n) \<in> contacted")
      case True
      then show ?thesis using 2(1)[OF go True] 2(3) go by auto
    next
      case False
      obtain qs d where q: "pick_nodes haveRest (Suc number) ns (insert (str_of_bytes (ID n)) contacted) = (qs, d)"
        by fastforce
      then have "ps = n # qs" "c' = d" using 2(3) go False by auto
      then show ?thesis using 2(2)[OF go False q] go False by auto
    qed
  qed
qed auto

lemma send_all_spec:
  "\<exists>qs. sent (snd (send_all E mt d ns s)) = sent s @ qs \<and> map Receiver qs = map Some ns
     \<and> (\<forall>m\<in>set qs. MessageType m = mt \<and> Data m = d)
     \<and> (\<forall>r\<in>set (fst (send_all E mt d ns s)). \<exists>h m. m \<in> set qs \<and> net_answer E h m = Inr r)"
proof (induction ns arbitrary: s)
  case (Cons n ns)
  let ?q = "newMessage E mt n d s"
  let ?s2 = "snd (net_call E (fst ?q) (snd ?q))"
  obtain qs where IH: "sent (snd (send_all E mt d ns ?s2)) = sent ?s2 @ qs" "map Receiver qs = map Some ns"
     "\<forall>m\<in>set qs. MessageType m = mt \<and> Data m = d"
     "\<forall>r\<in>set (fst (send_all E mt d ns ?s2)). \<exists>h m. m \<in> set qs \<and> net_answer E h m = Inr r"
    using Cons by blast
  have st: "send_all E mt d (n # ns) s =
     (case net_answer E (sent s) (fst ?q) of Inl _ \<Rightarrow> fst (send_all E mt d ns ?s2) | Inr m \<Rightarrow> m # fst (send_all E mt d ns ?s2),
      snd (send_all E mt d ns ?s2))"
    by (simp add: Let_def case_prod_unfold)
  show ?case
    unfolding st using IH by (intro exI[of _ "fst ?q # qs"]) (auto split: sum.splits, blast+)
qed simp

text \<open>What one round of workers sends: each request goes to a different node that was not
  contacted before.\<close>

lemma doMultiWorkers_spec:
  assumes "doMultiWorkers E ity target nl contacted haveRest s = (ms, contacted', s')"
    and "\<And>xs. mset (sched E xs) = mset xs" and "\<And>xs. mset (arrive E xs) = mset xs"
  shows "\<exists>qs. sent s' = sent s @ qs \<and> distinct (asked_ids (fst (worker_request ity target)) qs)
    \<and> set (asked_ids (fst (worker_request ity target)) qs) \<inter> contacted = {}
    \<and> contacted' = contacted \<union> set (asked_ids (fst (worker_request ity target)) qs)
    \<and> (\<not> haveRest \<longrightarrow> length qs \<le> Alpha)
    \<and> (\<forall>m\<in>set qs. (MessageType m, Data m) = worker_request ity target)
    \<and> (\<forall>r\<in>set ms. \<exists>h m. m \<in> set qs \<and> net_answer E h m = Inr r)"
proof -
  obtain picked c where p: "pick_nodes haveRest 0 (nl_Nodes nl) contacted = (picked, c)" by fastforce
  obtain mt d where w: "worker_request ity target = (mt, d)" by fastforce
  let ?S = "send_all E mt d (sched E picked) s"
  have e: "ms = arrive E (fst ?S)" "contacted' = c" "s' = snd ?S"
    using assms(1) p w by (auto simp: doMultiWorkers_def Let_def case_prod_unfold)
  obtain qs where q: "sent (snd ?S) = sent s @ qs" "map Receiver qs = map Some (sched E picked)"
     "\<forall>m\<in>set qs. MessageType m = mt \<and> Data m = d" "\<forall>r\<in>set (fst ?S). \<exists>h m. m \<in> set qs \<and> net_answer E h m = Inr r"
    using send_all_spec by blast
  have "map the (map Receiver qs) = sched E picked" using q(2) by (simp add: comp_def)
  then have a: "asked_ids mt qs = map (\<lambda>n. str_of_bytes (ID n)) (sched E picked)"
    using q(3) by (simp add: asked_ids_def flip: \<open>map the (map Receiver qs) = sched E picked\<close>)
  have mm: "mset (map (\<lambda>n. str_of_bytes (ID n)) (sched E picked)) = mset (map (\<lambda>n. str_of_bytes (ID n)) picked)"
    using assms(2)[of picked] by simp
  have l: "length qs = length picked"
    using q(2) assms(2)[of picked] by (metis length_map size_mset)
  have "set ms = set (fst ?S)" using e(1) assms(3) by (metis set_mset_mset)
  with pick_nodes_spec[OF p] q e w a l mm show ?thesis
    by (intro exI[of _ qs]) (simp add: mset_eq_imp_distinct_iff[OF mm] mset_eq_setD[OF assms(2)[of picked]])
qed

lemma handleResponses_step:
  assumes "handleResponses E (m # ms) nl s = Some (nl', v, s')"
  shows "\<exists>sender r s1 nl2. addNode E sender s = Some (r, s1) \<and>
     (handleResponses E ms nl2 s1 = Some (nl', v, s')
      \<or> s' = s1 \<and> MessageType m = FindValue \<and> (\<exists>st cl. Data m = FindValueResponse st cl v \<and> Result st = ResultOk))"
proof -
  from assms obtain sender r s1 where sd: "Sender m = Some sender" and a: "addNode E sender s = Some (r, s1)"
    by (auto split: option.splits bind_splits)
  have "(\<exists>nl2. handleResponses E ms nl2 s1 = Some (nl', v, s'))
      \<or> s' = s1 \<and> MessageType m = FindValue \<and> (\<exists>st cl. Data m = FindValueResponse st cl v \<and> Result st = ResultOk)"
  proof (cases "Data m")
    case (FindValueResponse st cl w)
    then show ?thesis using assms sd a by (auto split: if_splits)
  next
    case (FindNodeResponse st cl)
    then show ?thesis using assms sd a by (auto split: if_splits)
  qed (use assms sd a in \<open>auto split: if_splits\<close>)
  with a show ?thesis by blast
qed

lemma handleResponses_spec:
  "handleResponses E ms nl s = Some (nl', v, s') \<Longrightarrow>
     (\<exists>ps. sent s' = sent s @ ps \<and> (\<forall>m\<in>set ps. MessageType m = Ping))
   \<and> (v \<noteq> [] \<longrightarrow> (\<exists>m\<in>set ms. \<exists>st cl. MessageType m = FindValue \<and> Data m = FindValueResponse st cl v \<and> Result st = ResultOk))"
proof (induction ms arbitrary: nl s)
  case (Cons m ms)
  obtain sender r s1 nl2 where a: "addNode E sender s = Some (r, s1)"
    and alt: "handleResponses E ms nl2 s1 = Some (nl', v, s')
      \<or> s' = s1 \<and> MessageType m = FindValue \<and> (\<exists>st cl. Data m = FindValueResponse st cl v \<and> Result st = ResultOk)"
    using handleResponses_step[OF Cons.prems] by blast
  obtain ps where ps: "sent s1 = sent s @ ps" "\<forall>m\<in>set ps. MessageType m = Ping" using addNode_sent[OF a] by blast
  from alt show ?case
  proof
    assume "handleResponses E ms nl2 s1 = Some (nl', v, s')"
    from Cons.IH[OF this] obtain qs where "sent s' = sent s1 @ qs" "\<forall>m\<in>set qs. MessageType m = Ping"
      "v \<noteq> [] \<longrightarrow> (\<exists>m\<in>set ms. \<exists>st cl. MessageType m = FindValue \<and> Data m = FindValueResponse st cl v \<and> Result st = ResultOk)" by blast
    with ps show ?thesis by (intro conjI exI[of _ "ps @ qs"]) auto
  next
    assume "s' = s1 \<and> MessageType m = FindValue \<and> (\<exists>st cl. Data m = FindValueResponse st cl v \<and> Result st = ResultOk)"
    with ps show ?thesis by auto
  qed
qed simp

text \<open>The find-value loop: no node is asked twice, and at most Alpha per round are.\<close>

lemma findValue_loop_spec:
  assumes "\<And>xs. mset (sched E xs) = mset xs" and "\<And>xs. mset (arrive E xs) = mset xs"
  shows "findValue_loop E left target closest contacted nl s = Some (v, s') \<Longrightarrow>
    (\<exists>ms. sent s' = sent s @ ms \<and> distinct (asked_ids FindValue ms) \<and> set (asked_ids FindValue ms) \<inter> contacted = {}
      \<and> length (asked_ids FindValue ms) \<le> left * Alpha
      \<and> (v \<noteq> [] \<longrightarrow> (\<exists>h m r st cl. m \<in> set ms \<and> Data m = FindValueRequest target \<and> net_answer E h m = Inr r
           \<and> MessageType r = FindValue \<and> Data r = FindValueResponse st cl v \<and> Result st = ResultOk)))"
proof (induction left arbitrary: closest contacted nl s)
  case (Suc left)
  show ?case
  proof (cases "v = [] \<and> s' = s")
    case True
    then show ?thesis by (intro exI[of _ "[]"]) (simp add: asked_ids_def)
  next
    case False
    obtain rs c' s1 where d: "doMultiWorkers E IterateFindValue target nl contacted False s = (rs, c', s1)"
      by (metis prod_cases3)
    with Suc.prems False obtain first nl1 w s2 where h: "handleResponses E rs nl s1 = Some (nl1, w, s2)"
      and alt: "(w \<noteq> [] \<and> v = w \<and> s' = s2) \<or> (w = [] \<and> findValue_loop E left target (Some first) c' (nl_Sort nl1) s2 = Some (v, s'))"
      by (auto split: list.splits if_splits bind_splits option.splits)
    have wr: "fst (worker_request IterateFindValue target) = FindValue" "worker_request IterateFindValue target = (FindValue, FindValueRequest target)"
      by (simp_all add: worker_request_def)
    obtain qs where q: "sent s1 = sent s @ qs" "distinct (asked_ids FindValue qs)" "set (asked_ids FindValue qs) \<inter> contacted = {}"
       "c' = contacted \<union> set (asked_ids FindValue qs)" "length qs \<le> Alpha" "\<forall>m\<in>set qs. Data m = FindValueRequest target"
       "\<forall>r\<in>set rs. \<exists>h m. m \<in> set qs \<and> net_answer E h m = Inr r"
      using doMultiWorkers_spec[OF d assms] unfolding wr(1) wr(2) by auto
    obtain ps where ps: "sent s2 = sent s1 @ ps" "asked_ids FindValue ps = []"
      using handleResponses_spec[OF h] by (force intro!: asked_ids_none simp: message_types)
    have lq: "length (asked_ids FindValue qs) \<le> Alpha"
      using order.trans[OF length_filter_le q(5)] by (simp add: asked_ids_def)
    from alt show ?thesis
    proof
      assume w: "w \<noteq> [] \<and> v = w \<and> s' = s2"
      then obtain m st cl where "m \<in> set rs" "MessageType m = FindValue" "Data m = FindValueResponse st cl v" "Result st = ResultOk"
        using handleResponses_spec[OF h] by blast
      moreover from this(1) obtain h' q' where "q' \<in> set qs" "net_answer E h' q' = Inr m" using q(7) by blast
      ultimately show ?thesis using w q ps lq
        by (intro exI[of _ "qs @ ps"]) (auto, blast)
    next
      assume "w = [] \<and> findValue_loop E left target (Some first) c' (nl_Sort nl1) s2 = Some (v, s')"
      with Suc.IH obtain ms where "sent s' = sent s2 @ ms" "distinct (asked_ids FindValue ms)"
        "set (asked_ids FindValue ms) \<inter> c' = {}" "length (asked_ids FindValue ms) \<le> left * Alpha"
        "v \<noteq> [] \<longrightarrow> (\<exists>h m r st cl. m \<in> set ms \<and> Data m = FindValueRequest target \<and> net_answer E h m = Inr r
           \<and> MessageType r = FindValue \<and> Data r = FindValueResponse st cl v \<and> Result st = ResultOk)" by blast
      with q ps lq show ?thesis by (intro exI[of _ "qs @ ps @ ms"]) (auto, blast+)
    qed
  qed
qed (auto simp: asked_ids_def)

section \<open>Properties\<close>

text \<open>C3. Adding a node is total and keeps the routing table's invariant: for a node whose hashed
  identifier is absent or correct, \<^verbatim>\<open>addNode\<close> never panics, leaves every bucket with at most K
  nodes of distinct identifiers in the bucket their hash selects, never inserts the local node, and
  the node is in the table afterwards; the only messages it sends are pings.\<close>

theorem addNode_correct:
  assumes "hash_ok E" and "ht_inv (blake3 E) (ht s)" and "trusted E n"
  shows "\<exists>r s' ms. addNode E n s = Some (r, s') \<and> ht_inv (blake3 E) (ht s') \<and> self (ht s') = self (ht s)
    \<and> (ID n \<noteq> ID (self (ht s)) \<longrightarrow> hasNode (ID n) (ht s'))
    \<and> sent s' = sent s @ ms \<and> (\<forall>m\<in>set ms. MessageType m = Ping)"
  using addNode_inv[OF assms] addNode_sent by metis

definition wit_env :: env where
  "wit_env = \<lparr>blake3 = \<lambda>x. replicate 31 0 @ [if x = [] then 0 else hd x], b58decode = \<lambda>k. replicate 32 0, b58encode = \<lambda>k. '''',
     net_answer = \<lambda>h m. Inl ''down'', latestAddress = \<lambda>a. None, urlHost = \<lambda>a. None, splitHostPort = \<lambda>a. None,
     dberr = \<lambda>o1. None, time_text = \<lambda>t. ''t'', now = 7, cloudFetch = \<lambda>k. Inl ''no cloud'',
     sched = \<lambda>x. x, arrive = \<lambda>x. x, tick = \<lambda>i. Proceed\<rparr>"

definition wit_dht :: dht where
  "wit_dht = \<lparr>ht = \<lparr>self = \<lparr>ID = [9], IP = ''10.0.0.9'', Port = 4445, HashedID = replicate 31 0 @ [9]\<rparr>,
      routeTable = replicate B [], refreshers = replicate B 0\<rparr>, dht_store = empty_sqlite, ignorelist = [],
     supernodeAddr = ''host'', metaStore = None, sent = []\<rparr>"

lemma wit_dht_ok: "hash_ok wit_env" "ht_inv (blake3 wit_env) (ht wit_dht)"
  by (simp_all add: hash_ok_def wit_env_def wit_dht_def ht_inv_def bucket_ok_def)

theorem addNode_correct_witness:
  "\<exists>r s'. addNode wit_env (wit_node 1) wit_dht = Some (r, s') \<and> hasNode [1] (ht s')"
  using addNode_correct[OF wit_dht_ok, of "wit_node 1"]
  by (auto simp: trusted_def wit_node_def mk_node_def) (auto simp: wit_dht_def)

text \<open>A full bucket always loses its first node: when a new node arrives for a bucket of K nodes,
  the first node is pinged and then dropped whether it answers or not, and when it does not answer
  the failure is counted against the new node.\<close>

theorem addNode_full_bucket:
  assumes "hash_ok E" and "ht_inv (blake3 E) (ht s)" and "trusted E n" and "ID n \<noteq> ID (self (ht s))"
    and "length (routeTable (ht s) ! node_index E s n) = K" and "ID n \<notin> ID ` set (routeTable (ht s) ! node_index E s n)"
  shows "\<exists>r s' m. addNode E n s = Some (r, s') \<and> Receiver m = Some (hd (routeTable (ht s) ! node_index E s n))
    \<and> sent s' = sent s @ [m]
    \<and> routeTable (ht s') ! node_index E s n = tl (routeTable (ht s) ! node_index E s n) @ [SetHashedID (blake3 E) n]
    \<and> ignorelist s' = (if isl (net_answer E (sent s) m)
          then IncrementCount (now E) (SetHashedID (blake3 E) n) (ignorelist s) else ignorelist s)"
proof -
  have "node_index E s n < length (routeTable (ht s))" using node_index[OF assms(1,2), of n] assms(2) by (simp add: ht_inv_def)
  note nth = set_bucket_nth[OF this]
  from assms(1-4) show ?thesis
  proof (cases rule: addNode_cases)
    case (full r s' m)
    then show ?thesis by (intro exI[of _ r] exI[of _ s'] exI[of _ m]) (auto simp: nth)
  qed (use assms(5,6) in auto)
qed

definition wit_bucket :: "node list" where
  "wit_bucket = map (\<lambda>k. SetHashedID (blake3 wit_env) (mk_node [word_of_nat k] ''10.0.0.1'' 4445)) [128..<148]"

definition wit_full :: dht where
  "wit_full = wit_dht\<lparr>ht := (ht wit_dht)\<lparr>routeTable := (replicate B [])[7 := wit_bucket]\<rparr>\<rparr>"

lemma wit_bucket_eval:
  "length wit_bucket = 20 \<and> distinct (map ID wit_bucket) \<and> [200] \<notin> ID ` set wit_bucket \<and> ID (hd wit_bucket) = [128]
   \<and> list_all (\<lambda>n. HashedID n = blake3 wit_env (ID n) \<and> bucketIndex (replicate 31 0 @ [9]) (HashedID n) = Some 7 \<and> ID n \<noteq> [9]) wit_bucket
   \<and> bucketIndex (replicate 31 0 @ [9]) (blake3 wit_env [200]) = Some 7"
  unfolding wit_bucket_def wit_env_def by code_simp

lemma wit_full_ok: "ht_inv (blake3 wit_env) (ht wit_full)"
proof -
  have "bucket_ok (blake3 wit_env) (self (ht wit_full)) 7 wit_bucket"
    using wit_bucket_eval by (auto simp: bucket_ok_def K_def wit_full_def wit_dht_def list_all_iff)
  then show ?thesis
    by (auto simp: ht_inv_def wit_full_def wit_dht_def nth_list_update_if bucket_ok_def B_def wit_env_def)
qed

theorem addNode_full_bucket_witness:
  "\<exists>r s'. addNode wit_env (mk_node [200] ''10.0.0.2'' 4445) wit_full = Some (r, s')
     \<and> length (routeTable (ht s') ! 7) = 20 \<and> [200] \<in> ID ` set (routeTable (ht s') ! 7)"
proof -
  let ?n = "mk_node [200] ''10.0.0.2'' 4445"
  have i: "node_index wit_env wit_full ?n = 7"
    using wit_bucket_eval by (simp add: node_index_def wit_full_def wit_dht_def mk_node_def)
  have b: "routeTable (ht wit_full) ! 7 = wit_bucket" by (simp add: wit_full_def B_def)
  from addNode_full_bucket[OF wit_dht_ok(1) wit_full_ok, of ?n] wit_bucket_eval show ?thesis
    unfolding i b by (auto simp: trusted_def mk_node_def K_def wit_full_def wit_dht_def)
qed

text \<open>Seeing a known node again does not refresh it: the bucket's search compares identifiers with
  the hashed identifier, so when no identifier in the bucket equals that hash it is the bucket's
  first node that moves to the end, and the known node keeps its place relative to the others.\<close>

theorem addNode_refreshes_head:
  assumes "hash_ok E" and "ht_inv (blake3 E) (ht s)" and "trusted E n" and "ID n \<noteq> ID (self (ht s))"
    and "ID n \<in> ID ` set (routeTable (ht s) ! node_index E s n)"
    and "\<forall>m\<in>set (routeTable (ht s) ! node_index E s n). ID m \<noteq> blake3 E (ID n)"
  shows "\<exists>s'. addNode E n s = Some (None, s') \<and>
    routeTable (ht s') ! node_index E s n =
      tl (routeTable (ht s) ! node_index E s n) @ [hd (routeTable (ht s) ! node_index E s n)]"
proof -
  have "node_index E s n < length (routeTable (ht s))" using node_index[OF assms(1,2), of n] assms(2) by (simp add: ht_inv_def)
  note nth = set_bucket_nth[OF this]
  from assms(1-4) show ?thesis
  proof (cases rule: addNode_cases)
    case (known s' off)
    have "find_index (\<lambda>v. ID v = blake3 E (ID n)) (routeTable (ht s) ! node_index E s n) = None"
      using assms(6) by (simp only: find_index_None)
    then have off: "off = 0" using known(3) by simp
    then have "move_to_end off (routeTable (ht s) ! node_index E s n) =
        tl (routeTable (ht s) ! node_index E s n) @ [hd (routeTable (ht s) ! node_index E s n)]"
      using known(2) by (cases "routeTable (ht s) ! node_index E s n") (simp_all add: move_to_end_def)
    with known nth show ?thesis by auto
  qed (use assms(5) in auto)
qed

theorem addNode_refreshes_head_witness:
  "\<exists>s'. addNode wit_env (mk_node [130] ''10.0.0.1'' 4445) wit_full = Some (None, s')
     \<and> ID (last (routeTable (ht s') ! 7)) = [128]"
proof -
  let ?n = "mk_node [130] ''10.0.0.1'' 4445"
  have e: "bucketIndex (replicate 31 0 @ [9]) (blake3 wit_env [130]) = Some 7 \<and> [130] \<in> ID ` set wit_bucket
      \<and> list_all (\<lambda>m. ID m \<noteq> blake3 wit_env [130]) wit_bucket"
    unfolding wit_bucket_def wit_env_def by code_simp
  have i: "node_index wit_env wit_full ?n = 7"
    using e by (simp add: node_index_def wit_full_def wit_dht_def mk_node_def)
  have b: "routeTable (ht wit_full) ! 7 = wit_bucket" by (simp add: wit_full_def B_def)
  from addNode_refreshes_head[OF wit_dht_ok(1) wit_full_ok, of ?n] e wit_bucket_eval show ?thesis
    unfolding i b by (auto simp: trusted_def mk_node_def list_all_iff wit_full_def wit_dht_def)
qed

text \<open>Removing a node takes it out of the table and keeps the invariant: afterwards no node of the
  table has its identifier, and every other node is still there.\<close>

theorem removeNode_correct:
  assumes "hash_ok E" and "ht_inv (blake3 E) (ht s)" and "trusted E n" and "ID n \<noteq> ID (self (ht s))"
  shows "\<exists>s'. removeNode E n s = Some s' \<and> ht_inv (blake3 E) (ht s')
    \<and> set (ht_nodes (ht s')) = {m \<in> set (ht_nodes (ht s)). ID m \<noteq> ID n}"
proof -
  let ?i = "node_index E s n" and ?n1 = "SetHashedID (blake3 E) n"
  let ?b = "routeTable (ht s) ! ?i"
  note ix = node_index[OF assms(1,2), of n]
  have len: "?i < length (routeTable (ht s))" "length (routeTable (ht s)) = B" using ix assms(2) by (simp_all add: ht_inv_def)
  have b: "bucket_at (ht s) (int ?i) = Some ?b" using bucket_at_int[OF assms(2)] ix by blast
  have ok: "bucket_ok (blake3 E) (self (ht s)) ?i ?b" using ht_inv_bucket[OF assms(2)] ix by blast
  let ?b' = "remove_first (\<lambda>m. ID m = ID n) ?b"
  have f: "?b' = filter (\<lambda>m. ID m \<noteq> ID n) ?b" using ok by (intro remove_first_distinct) (simp add: bucket_ok_def)
  have nb: "?b' = ?b" if "\<not> list_ex (\<lambda>m. ID m = ID n) ?b"
    using that unfolding f by (auto simp: list_ex_iff filter_id_conv)
  have upd: "set_bucket (ht s) (int ?i) ?b = ht s" using len by (simp add: set_bucket_def)
  have "bucketIndex (HashedID (self (ht s))) (HashedID ?n1) = Some (int ?i)"
    using ix trusted_SetHashedID[OF assms(3)] by simp
  then have r: "removeNode E n s = Some (s\<lparr>ht := set_bucket (ht s) (int ?i) ?b'\<rparr>)"
    using assms(4) b nb upd by (cases "list_ex (\<lambda>m. ID m = ID n) ?b") (simp_all add: removeNode_def RemoveNode_def Let_def)
  have inv: "ht_inv (blake3 E) (set_bucket (ht s) (int ?i) ?b')"
    by (intro set_bucket_inv assms(2) bucket_ok_remove_first ok)
  have other: "j = ?i" if "m \<in> set (routeTable (ht s) ! j)" "j < B" "ID m = ID n" for m j
  proof -
    have "bucketIndex (HashedID (self (ht s))) (blake3 E (ID n)) = Some (int j)"
      using ht_inv_bucket[OF assms(2) that(2)] that(1,3) by (auto simp: bucket_ok_def)
    then show ?thesis using ix by simp
  qed
  have "set (ht_nodes (set_bucket (ht s) (int ?i) ?b')) = {m \<in> set (ht_nodes (ht s)). ID m \<noteq> ID n}"
  proof (intro set_eqI iffI)
    fix m assume "m \<in> set (ht_nodes (set_bucket (ht s) (int ?i) ?b'))"
    then obtain j where j: "j < B" "m \<in> set (routeTable (set_bucket (ht s) (int ?i) ?b') ! j)"
      using ht_nodes_bucket[OF inv] by blast
    show "m \<in> {m \<in> set (ht_nodes (ht s)). ID m \<noteq> ID n}"
    proof (cases "j = ?i")
      case True
      then have "m \<in> set ?b" "ID m \<noteq> ID n" using j(2) len f by (simp_all add: set_bucket_nth)
      then show ?thesis using len by (auto simp: ht_nodes_def)
    next
      case False
      then have "m \<in> set (routeTable (ht s) ! j)" using j(2) by (simp add: set_bucket_def nth_list_update_if)
      then show ?thesis using other[OF _ j(1)] False j(1) len by (auto simp: ht_nodes_def)
    qed
  next
    fix m assume m: "m \<in> {m \<in> set (ht_nodes (ht s)). ID m \<noteq> ID n}"
    then obtain j where j: "j < B" "m \<in> set (routeTable (ht s) ! j)" using ht_nodes_bucket[OF assms(2)] by blast
    then have "m \<in> set (routeTable (set_bucket (ht s) (int ?i) ?b') ! j)"
      using m len f by (cases "j = ?i") (auto simp: set_bucket_def nth_list_update_if)
    then show "m \<in> set (ht_nodes (set_bucket (ht s) (int ?i) ?b'))"
      using j(1) len by (auto simp: ht_nodes_def intro!: bexI[OF _ nth_mem])
  qed
  with r inv show ?thesis by simp
qed

theorem removeNode_correct_witness:
  "\<exists>s'. removeNode wit_env (mk_node [130] ''10.0.0.1'' 4445) wit_full = Some s' \<and> [130] \<notin> ID ` set (ht_nodes (ht s'))"
  using removeNode_correct[OF wit_dht_ok(1) wit_full_ok, of "mk_node [130] ''10.0.0.1'' 4445"]
  by (auto simp: trusted_def mk_node_def wit_full_def wit_dht_def)

lemma receivers_of:
  assumes "map Receiver ms = map Some ns" "set ns \<subseteq> set (filter P xs)" "set xs \<subseteq> Y"
  shows "\<forall>m\<in>set ms. \<exists>n\<in>Y. Receiver m = Some n \<and> P n"
proof
  fix m assume "m \<in> set ms"
  then have "Receiver m \<in> Some ` set ns" using arg_cong[OF assms(1), of set] by auto
  then show "\<exists>n\<in>Y. Receiver m = Some n \<and> P n" using assms(2,3) by auto
qed

lemma storeToAlphaNodes_run:
  assumes "\<And>xs. mset (sched E xs) = mset xs"
  obtains ms1 s1 ms2 s2 where
    "storeToAlphaNodes E nl d ty s =
       (if \<exists>n\<in>set (take Alpha (nl_Nodes nl)). Banned (ignorelist s) n then None
        else if Alpha \<le> acks E (sent s) ms1 then Some (None, s1)
        else if Alpha \<le> acks E (sent s) (ms1 @ ms2) then Some (None, s2)
        else Some (Some (''store data to alpha nodes failed, only '' @ itoa (acks E (sent s) (ms1 @ ms2)) @ '' nodes stored''), s2))"
    "sent s1 = sent s @ ms1" "sent s2 = sent s @ ms1 @ ms2"
    "\<forall>m\<in>set (ms1 @ ms2). store_msg d ty m \<and> (\<exists>n\<in>set (nl_Nodes nl). Receiver m = Some n \<and> \<not> Banned (ignorelist s) n)"
    "acks E (sent s) (ms1 @ ms2) < Alpha \<Longrightarrow>
       \<forall>n\<in>set (nl_Nodes nl). Banned (ignorelist s) n \<or> Some n \<in> Receiver ` set (ms1 @ ms2)"
proof -
  let ?first = "take Alpha (nl_Nodes nl)" and ?rest = "drop Alpha (nl_Nodes nl)"
  let ?P = "\<lambda>n. \<not> Banned (ignorelist s) n"
  let ?asked = "filter ?P ?first"
  have blk: "length ?asked < length ?first \<longleftrightarrow> (\<exists>n\<in>set ?first. Banned (ignorelist s) n)"
    by (metis length_filter_less less_irrefl filter_True)
  obtain ms1 s1 where a: "store_all E d ty (sched E ?asked) 0 s = (0 + acks E (sent s) ms1, s1)" "sent s1 = sent s @ ms1"
      "map Receiver ms1 = map Some (sched E ?asked)" "\<forall>m\<in>set ms1. store_msg d ty m" "ignorelist s1 = ignorelist s"
    using store_all_spec by blast
  obtain ms2 s2 ns' where r: "store_rest E d ty ?rest (acks E (sent s) ms1) s1 = (acks E (sent s) ms1 + acks E (sent s1) ms2, s2)"
      "sent s2 = sent s1 @ ms2" "subseq ns' (filter ?P ?rest)" "map Receiver ms2 = map Some ns'"
      "acks E (sent s) ms1 + acks E (sent s1) ms2 < Alpha \<longrightarrow> ns' = filter ?P ?rest" "\<forall>m\<in>set ms2. store_msg d ty m"
    using store_rest_spec[of E d ty ?rest "acks E (sent s) ms1" s1] a(5) by auto
  have sa: "set (sched E ?asked) = set ?asked" using assms by (metis set_mset_mset)
  have R: "Receiver ` set ms1 = Some ` set ?asked" "Receiver ` set ms2 = Some ` set ns'"
    using arg_cong[OF a(3), of set] arg_cong[OF r(4), of set] sa by simp_all
  have nodes: "set ?first \<subseteq> set (nl_Nodes nl)" "set ?rest \<subseteq> set (nl_Nodes nl)" "set (nl_Nodes nl) = set ?first \<union> set ?rest"
    by (auto dest: in_set_takeD in_set_dropD simp flip: set_append)
  show thesis
  proof (rule that)
    show "\<forall>m\<in>set (ms1 @ ms2). store_msg d ty m \<and> (\<exists>n\<in>set (nl_Nodes nl). Receiver m = Some n \<and> ?P n)"
    proof -
      have "\<forall>m\<in>set ms1. \<exists>n\<in>set (nl_Nodes nl). Receiver m = Some n \<and> ?P n" by (rule receivers_of[OF a(3) _ nodes(1)]) (simp only: sa order.refl)
      moreover have "\<forall>m\<in>set ms2. \<exists>n\<in>set (nl_Nodes nl). Receiver m = Some n \<and> ?P n"
        by (rule receivers_of[OF r(4) _ nodes(2)]) (use list_emb_set[OF r(3)] in blast)
      ultimately show ?thesis using a(4) r(6) unfolding set_append by blast
    qed
    show "\<forall>n\<in>set (nl_Nodes nl). Banned (ignorelist s) n \<or> Some n \<in> Receiver ` set (ms1 @ ms2)"
      if "acks E (sent s) (ms1 @ ms2) < Alpha"
      using that r(5) a(2) R nodes(3) by (auto simp: acks_append image_Un)
  qed (use a(1,2) r(1,2) blk in \<open>simp_all add: storeToAlphaNodes_def Let_def acks_append\<close>)
qed

text \<open>C5. Storing to the closest nodes returns exactly when no banned node is among the first Alpha of
  the list; otherwise it waits forever.  When it returns success, at least Alpha positive answers
  were received to the data; every request went to a node of the list that is not banned; and when
  it returns an error, every node of the list that is not banned was asked, and fewer than Alpha
  answered positively.\<close>

theorem storeToAlphaNodes_correct:
  assumes "\<And>xs. mset (sched E xs) = mset xs"
  shows "(storeToAlphaNodes E nl d ty s = None \<longleftrightarrow> (\<exists>n\<in>set (take Alpha (nl_Nodes nl)). Banned (ignorelist s) n))
    \<and> (\<forall>e s'. storeToAlphaNodes E nl d ty s = Some (e, s') \<longrightarrow>
         (\<exists>ms. sent s' = sent s @ ms \<and> (\<forall>m\<in>set ms. store_msg d ty m \<and>
               (\<exists>n\<in>set (nl_Nodes nl). Receiver m = Some n \<and> \<not> Banned (ignorelist s) n))
            \<and> (e = None \<longrightarrow> Alpha \<le> acks E (sent s) ms)
            \<and> (e \<noteq> None \<longrightarrow> acks E (sent s) ms < Alpha \<and>
                 (\<forall>n\<in>set (nl_Nodes nl). Banned (ignorelist s) n \<or> Some n \<in> Receiver ` set ms))))"
proof -
  obtain ms1 s1 ms2 s2 where run: "storeToAlphaNodes E nl d ty s =
       (if \<exists>n\<in>set (take Alpha (nl_Nodes nl)). Banned (ignorelist s) n then None
        else if Alpha \<le> acks E (sent s) ms1 then Some (None, s1)
        else if Alpha \<le> acks E (sent s) (ms1 @ ms2) then Some (None, s2)
        else Some (Some (''store data to alpha nodes failed, only '' @ itoa (acks E (sent s) (ms1 @ ms2)) @ '' nodes stored''), s2))"
    and snt: "sent s1 = sent s @ ms1" "sent s2 = sent s @ ms1 @ ms2"
    and ok: "\<forall>m\<in>set (ms1 @ ms2). store_msg d ty m \<and> (\<exists>n\<in>set (nl_Nodes nl). Receiver m = Some n \<and> \<not> Banned (ignorelist s) n)"
    and all: "acks E (sent s) (ms1 @ ms2) < Alpha \<Longrightarrow>
       \<forall>n\<in>set (nl_Nodes nl). Banned (ignorelist s) n \<or> Some n \<in> Receiver ` set (ms1 @ ms2)"
    using storeToAlphaNodes_run[OF assms] by blast
  show ?thesis
  proof (intro conjI allI impI)
    fix e s' assume ret: "storeToAlphaNodes E nl d ty s = Some (e, s')"
    let ?ms = "if Alpha \<le> acks E (sent s) ms1 then ms1 else ms1 @ ms2"
    have s': "sent s' = sent s @ ?ms" "e = None \<longleftrightarrow> Alpha \<le> acks E (sent s) ?ms" using ret run snt by (auto split: if_splits)
    then show "\<exists>ms. sent s' = sent s @ ms \<and> (\<forall>m\<in>set ms. store_msg d ty m \<and>
               (\<exists>n\<in>set (nl_Nodes nl). Receiver m = Some n \<and> \<not> Banned (ignorelist s) n))
            \<and> (e = None \<longrightarrow> Alpha \<le> acks E (sent s) ms)
            \<and> (e \<noteq> None \<longrightarrow> acks E (sent s) ms < Alpha \<and>
                 (\<forall>n\<in>set (nl_Nodes nl). Banned (ignorelist s) n \<or> Some n \<in> Receiver ` set ms))"
      using ok all by (intro exI[of _ ?ms]) (auto simp: not_le split: if_splits)
  qed (use run in auto)
qed

theorem storeToAlphaNodes_correct_witness:
  "storeToAlphaNodes wit_env \<lparr>nl_Nodes = [wit_node 1], Comparator = []\<rparr> [1] 0
      (wit_dht\<lparr>ignorelist := [\<lparr>bn_Node = wit_node 1, CreatedAt = 0, ban_count = 4\<rparr>]\<rparr>) = None"
  using storeToAlphaNodes_correct[of wit_env "\<lparr>nl_Nodes = [wit_node 1], Comparator = []\<rparr>" "[1]" 0
      "wit_dht\<lparr>ignorelist := [\<lparr>bn_Node = wit_node 1, CreatedAt = 0, ban_count = 4\<rparr>]\<rparr>"]
  by (simp add: wit_env_def threshold_def Alpha_def)

text \<open>C6. A value lookup asks no node twice and sends at most 24 find-value requests (Alpha in each
  of four rounds), in whatever order requests are sent and answers arrive; and a value it returns
  was the value of a successful find-value response to one of these requests for the target.\<close>

theorem iterateFindValue_bounded:
  assumes "\<And>xs. mset (sched E xs) = mset xs" and "\<And>xs. mset (arrive E xs) = mset xs"
    and "iterateFindValue E target s = Some (v, s')"
  shows "\<exists>ms. sent s' = sent s @ ms \<and> distinct (asked_ids FindValue ms) \<and> length (asked_ids FindValue ms) \<le> 24
    \<and> (v \<noteq> [] \<longrightarrow> (\<exists>h m r st cl. m \<in> set ms \<and> Data m = FindValueRequest target \<and> net_answer E h m = Inr r
           \<and> MessageType r = FindValue \<and> Data r = FindValueResponse st cl v \<and> Result st = ResultOk))"
proof (cases "nl_Len (fst (closestContacts Alpha target (ToNodeList (ignorelist s)) (ht s))) = 0")
  case True
  then have "v = []" "s' = s" using assms(3) by (simp_all add: iterateFindValue_def)
  then show ?thesis by (intro exI[of _ "[]"]) (simp add: asked_ids_def)
next
  case False
  then have "findValue_loop E 4 target None {} (fst (closestContacts Alpha target (ToNodeList (ignorelist s)) (ht s))) s = Some (v, s')"
    using assms(3) by (simp add: iterateFindValue_def maxIterations_def)
  from findValue_loop_spec[OF assms(1,2) this] show ?thesis by (auto simp: Alpha_def)
qed

definition wit_peer :: node where
  "wit_peer = \<lparr>ID = [8], IP = ''10.0.0.8'', Port = 4445, HashedID = replicate 31 0 @ [8]\<rparr>"

lemma wit_index: "bucketIndex (replicate 31 0 @ [9]) (replicate 31 0 @ [8]) = Some 0"
  by code_simp

definition wit_found :: env where
  "wit_found = wit_env\<lparr>net_answer := \<lambda>h m. Inr \<lparr>Sender = Some (self (ht wit_dht)), Receiver = None, MessageType = FindValue,
      Data = FindValueResponse \<lparr>Result = 0, ErrMsg = []\<rparr> [] [5]\<rparr>\<rparr>"

definition wit_small :: dht where
  "wit_small = wit_dht\<lparr>ht := (ht wit_dht)\<lparr>routeTable := [[wit_peer]]\<rparr>\<rparr>"

theorem iterateFindValue_bounded_witness:
  "\<exists>s' ms. iterateFindValue wit_found (replicate 32 0) wit_small = Some ([5], s') \<and> sent s' = ms
     \<and> length (asked_ids FindValue ms) \<le> 24"
proof -
  have c: "fst (closestContacts Alpha (replicate 32 0) [] (ht wit_small)) = \<lparr>nl_Nodes = [wit_peer], Comparator = replicate 32 0\<rparr>"
    by (simp add: closestContacts_def wit_small_def wit_dht_def nl_Sort_def TopN_def nl_Len_def nl_exists_def Alpha_def)
  have "self (ht (snd (newMessage wit_found mt r d wit_small))) = self (ht wit_dht)" for mt r d
    by (simp add: wit_small_def)
  then have a: "addNode wit_found (self (ht wit_dht)) (snd (net_call wit_found m (snd (newMessage wit_found mt r d wit_small))))
      = Some (None, snd (net_call wit_found m (snd (newMessage wit_found mt r d wit_small))))" for m mt r d
    by (simp add: addNode_def)
  have f: "sched wit_found = (\<lambda>x. x)" "arrive wit_found = (\<lambda>x. x)" "net_answer wit_found = (\<lambda>h m. Inr \<lparr>Sender = Some (self (ht wit_dht)), Receiver = None, MessageType = FindValue,
      Data = FindValueResponse \<lparr>Result = 0, ErrMsg = []\<rparr> [] [5]\<rparr>)" "ToNodeList (ignorelist wit_small) = []"
    by (simp_all add: wit_found_def wit_env_def wit_small_def wit_dht_def ToNodeList_def)
  have "\<exists>s'. findValue_loop wit_found (Suc k) (replicate 32 0) None {} \<lparr>nl_Nodes = [wit_peer], Comparator = replicate 32 0\<rparr> wit_small = Some ([5], s')" for k
    using a by (simp add: doMultiWorkers_def worker_request_def Alpha_def f case_prod_unfold Let_def message_types ResultOk_def)
  from this[of 3] obtain s' where r: "iterateFindValue wit_found (replicate 32 0) wit_small = Some ([5], s')"
    by (auto simp: iterateFindValue_def c f nl_Len_def maxIterations_def simp del: findValue_loop.simps)
  have "sent wit_small = []" by (simp add: wit_small_def wit_dht_def)
  with iterateFindValue_bounded[OF _ _ r] r f show ?thesis by auto
qed

lemma sq_Retrieve_lookup:
  assumes "lookup st (hex_encode k) = Some v" and "v \<noteq> []"
  shows "fst (sq_Retrieve fetch None k st) = Inr v"
  using assms by (auto simp: sq_Retrieve_def lookup_def Let_def)

text \<open>What was stored locally is retrieved locally: once \<^verbatim>\<open>LocalStore\<close> has accepted the data under
  a 32-byte key and the store's worker has run, whatever was queued before, \<^verbatim>\<open>Retrieve\<close> returns
  exactly the data and asks no other node, provided the key is not disabled; and a disabled key is
  refused before the store is read.\<close>

theorem local_store_retrieve:
  assumes "length (b58decode E key) = 32" and "d \<noteq> []"
    and "LocalStore E (None # cs) key d s = (r, s1)" and "dberr E ''Retrieve'' = None"
    and "length outs = length (JobQueue (dht_store s1))" and "list_all (\<lambda>(e, now). e = None) outs"
    and "metaStore s = None \<or> hex_encode (b58decode E key) \<notin> set (the (metaStore s))"
  shows "r = Inr key \<and> (\<exists>st s2. run_jobs (blake3 E) outs (dht_store s1) = Some st
      \<and> dht_Retrieve E key lo (s1\<lparr>dht_store := st\<rparr>) = Some (Inr d, s2) \<and> sent s2 = sent s)
    \<and> (\<forall>ks. hex_encode (b58decode E key) \<in> set ks \<longrightarrow> dberr E ''MetaRetrieve'' = None \<longrightarrow>
          dht_Retrieve E key lo (s1\<lparr>metaStore := Some ks\<rparr>) = Some (Inl (''key is disabled: '' @ key), s1\<lparr>metaStore := Some ks\<rparr>))"
proof (intro conjI allI impI)
  let ?k = "b58decode E key"
  have B8: "B div 8 = 32" by (simp add: B_def)
  have "retryStore (None # cs) ?k d 0 (dht_store s) = sq_Store None ?k d 0 True (dht_store s)"
    by (cases cs) (simp_all add: sq_Store_def enqueue_def)
  then have ls: "r = Inr key" "s1 = s\<lparr>dht_store := (dht_store s)\<lparr>JobQueue := JobQueue (dht_store s) @ [Insert ?k d 0 True]\<rparr>\<rparr>"
    using assms(1,3) by (simp_all add: LocalStore_def B8 sq_Store_def enqueue_def)
  show "r = Inr key" by fact
  from run_jobs_replay[OF assms(5,6), of "blake3 E"] obtain st where
    st: "run_jobs (blake3 E) outs (dht_store s1) = Some st"
      "lookup st = fold (replay (blake3 E)) (JobQueue (dht_store s1)) (lookup (dht_store s1))" by blast
  have "lookup st (hex_encode ?k) = Some d" unfolding st(2) ls(2) by simp
  from sq_Retrieve_lookup[OF this assms(2), of "cloudFetch E"] obtain st' where
    "sq_Retrieve (cloudFetch E) None ?k st = (Inr d, st')" by (metis prod.collapse)
  then have "dht_Retrieve E key lo (s1\<lparr>dht_store := st\<rparr>) = Some (Inr d, s1\<lparr>dht_store := st'\<rparr>)"
    using assms(1,2,4,7) ls(2) by (auto simp: dht_Retrieve_def B8 Let_def split: option.splits)
  moreover have "sent s1 = sent s" using ls(2) by simp
  ultimately show "\<exists>st s2. run_jobs (blake3 E) outs (dht_store s1) = Some st
      \<and> dht_Retrieve E key lo (s1\<lparr>dht_store := st\<rparr>) = Some (Inr d, s2) \<and> sent s2 = sent s"
    using st(1) by auto
  fix ks assume "hex_encode ?k \<in> set ks" "dberr E ''MetaRetrieve'' = None"
  then show "dht_Retrieve E key lo (s1\<lparr>metaStore := Some ks\<rparr>) = Some (Inl (''key is disabled: '' @ key), s1\<lparr>metaStore := Some ks\<rparr>)"
    using assms(1) by (simp add: dht_Retrieve_def B8)
qed

theorem local_store_retrieve_witness:
  "\<exists>st s2. run_jobs (blake3 wit_env) [(None, 3)] (dht_store (snd (LocalStore wit_env [None] ''k'' [1, 2] wit_dht))) = Some st
    \<and> dht_Retrieve wit_env ''k'' True ((snd (LocalStore wit_env [None] ''k'' [1, 2] wit_dht))\<lparr>dht_store := st\<rparr>) = Some (Inr [1, 2], s2)"
proof -
  obtain r s1 where l: "LocalStore wit_env [None] ''k'' [1, 2] wit_dht = (r, s1)" by fastforce
  have "JobQueue (dht_store (snd (LocalStore wit_env [None] ''k'' [1, 2] wit_dht))) = [Insert (replicate 32 0) [1, 2] 0 True]"
    by (simp add: LocalStore_def wit_env_def wit_dht_def B_def sq_Store_def enqueue_def empty_sqlite_def)
  with l have "length [(None :: string option, 3 :: int)] = length (JobQueue (dht_store s1))" by simp
  with local_store_retrieve[OF _ _ l, of "[(None, 3)]" True] l show ?thesis
    by (auto simp: wit_env_def wit_dht_def)
qed

end
