(* ===== verification/Versions.thy ===== *)
theory Versions
  imports Go_Lib
begin

text \<open>
  Versions and update decisions of the manager (\<^verbatim>\<open>sn-manager/internal/utils/version.go\<close>,
  \<^verbatim>\<open>ShouldUpdate\<close> of \<^verbatim>\<open>internal/updater/updater.go\<close>): parsing, comparison with pre-release
  precedence, and the rule that decides whether an update is taken.
\<close>

section \<open>Definitions\<close>

record semver_parts =
  major :: int
  minor :: int
  patch :: int
  prerelease :: "string list"

definition before :: "char \<Rightarrow> string \<Rightarrow> string" where
  "before c s = (case find_index (\<lambda>x. x = c) s of Some i \<Rightarrow> take i s | None \<Rightarrow> s)"

definition parseSemver :: "string \<Rightarrow> semver_parts" where
  "parseSemver v0 = (
     let v = before (CHR ''+'') (trim_prefix ''v'' v0);
         (core, pre) = (case find_index (\<lambda>x. x = CHR ''-'') v of
            Some i \<Rightarrow> (take i v, drop (i + 1) v) | None \<Rightarrow> (v, ''''));
         parts = split_on (CHR ''.'') core
     in \<lparr>major = (if length parts > 0 then fst (atoi (parts ! 0)) else 0),
         minor = (if length parts > 1 then fst (atoi (parts ! 1)) else 0),
         patch = (if length parts > 2 then fst (atoi (parts ! 2)) else 0),
         prerelease = (if pre \<noteq> '''' then split_on (CHR ''.'') pre else [])\<rparr>)"

text \<open>The verdict on two different pre-release identifiers.\<close>

definition compare_ids :: "string \<Rightarrow> string \<Rightarrow> int" where
  "compare_ids id1 id2 = (
     let (n1, e1) = atoi id1; (n2, e2) = atoi id2 in
     if \<not> e1 \<and> \<not> e2 then (if n1 < n2 then - 1 else 1)
     else if \<not> e1 \<and> e2 then - 1
     else if e1 \<and> \<not> e2 then 1
     else if id1 < id2 then - 1 else 1)"

text \<open>The loop over the identifiers: a missing one is the empty string.\<close>

fun compare_pre :: "string list \<Rightarrow> string list \<Rightarrow> int option" where
  "compare_pre [] [] = None"
| "compare_pre (x # xs) [] = (if x = '''' then compare_pre xs [] else Some (compare_ids x ''''))"
| "compare_pre [] (y # ys) = (if '''' = y then compare_pre [] ys else Some (compare_ids '''' y))"
| "compare_pre (x # xs) (y # ys) = (if x = y then compare_pre xs ys else Some (compare_ids x y))"

definition CompareVersions :: "string \<Rightarrow> string \<Rightarrow> int" where
  "CompareVersions v1 v2 = (
     let p1 = parseSemver v1; p2 = parseSemver v2 in
     if major p1 \<noteq> major p2 then (if major p1 < major p2 then - 1 else 1)
     else if minor p1 \<noteq> minor p2 then (if minor p1 < minor p2 then - 1 else 1)
     else if patch p1 \<noteq> patch p2 then (if patch p1 < patch p2 then - 1 else 1)
     else if length (prerelease p1) = 0 \<and> length (prerelease p2) = 0 then 0
     else if length (prerelease p1) = 0 then 1
     else if length (prerelease p2) = 0 then - 1
     else case compare_pre (prerelease p1) (prerelease p2) of
            Some c \<Rightarrow> c
          | None \<Rightarrow>
              if length (prerelease p1) < length (prerelease p2) then - 1
              else if length (prerelease p1) > length (prerelease p2) then 1 else 0)"

definition SameMajor :: "string \<Rightarrow> string \<Rightarrow> bool" where
  "SameMajor v1 v2 = (major (parseSemver v1) = major (parseSemver v2))"

definition ShouldUpdate :: "string \<Rightarrow> string \<Rightarrow> bool" where
  "ShouldUpdate current0 latest0 = (
     let current = trim_prefix ''v'' current0; latest = trim_prefix ''v'' latest0 in
     if CHR ''-'' \<in> set latest then False
     else let currentBase = hd (split_on (CHR ''-'') current); latestBase = hd (split_on (CHR ''-'') latest) in
       if \<not> SameMajor currentBase latestBase then False
       else let cmp = CompareVersions currentBase latestBase in
         if cmp = 0 \<and> current \<noteq> currentBase then True
         else if cmp < 0 then True else False)"

section \<open>Lemmas\<close>

definition core_triple :: "string \<Rightarrow> int \<times> int \<times> int" where
  "core_triple v = (let p = parseSemver v in (major p, minor p, patch p))"

definition triple_less :: "int \<times> int \<times> int \<Rightarrow> int \<times> int \<times> int \<Rightarrow> bool" where
  "triple_less x y = (case (x, y) of ((a, b, c), (a', b', c')) \<Rightarrow> a < a' \<or> a = a' \<and> (b < b' \<or> b = b' \<and> c < c'))"

lemma compare_core:
  "prerelease (parseSemver a) = [] \<Longrightarrow> prerelease (parseSemver b) = [] \<Longrightarrow>
   CompareVersions a b = (if triple_less (core_triple a) (core_triple b) then - 1
      else if triple_less (core_triple b) (core_triple a) then 1 else 0)"
  by (auto simp: CompareVersions_def Let_def triple_less_def core_triple_def)

lemma triple_less_order:
  "\<not> triple_less x x" "triple_less x y \<Longrightarrow> \<not> triple_less y x"
  "triple_less x y \<or> x = y \<or> triple_less y x"
  "triple_less x y \<Longrightarrow> triple_less y z \<Longrightarrow> triple_less x z"
  by (auto simp: triple_less_def split: prod.splits)

lemma compare_core_le:
  "prerelease (parseSemver a) = [] \<Longrightarrow> prerelease (parseSemver b) = [] \<Longrightarrow>
   CompareVersions a b \<le> 0 \<longleftrightarrow> \<not> triple_less (core_triple b) (core_triple a)"
  by (simp add: compare_core triple_less_order(2))

lemma no_dash_no_pre: "CHR ''-'' \<notin> set v \<Longrightarrow> prerelease (parseSemver v) = []"
proof -
  assume a: "CHR ''-'' \<notin> set v"
  have "set (before c s) \<subseteq> set s" for c s by (auto simp: before_def dest: in_set_takeD split: option.splits)
  moreover have "set (trim_prefix ''v'' v) \<subseteq> set v" by (auto simp: trim_prefix_def dest: in_set_dropD)
  ultimately have "CHR ''-'' \<notin> set (before (CHR ''+'') (trim_prefix ''v'' v))" using a by blast
  then have "find_index (\<lambda>x. x = CHR ''-'') (before (CHR ''+'') (trim_prefix ''v'' v)) = None"
    unfolding find_index_None by blast
  then show ?thesis by (simp add: parseSemver_def Let_def)
qed

lemma split_hd_no: "c \<notin> set (hd (split_on c s))"
  using split_on_parts[of "hd (split_on c s)" c s] by simp

lemma split_hd_id: "c \<notin> set s \<Longrightarrow> hd (split_on c s) = s"
  by (simp add: split_on_single)

lemmas version_eval =
  ShouldUpdate_def SameMajor_def CompareVersions_def compare_ids_def core_triple_def triple_less_def parseSemver_def
  before_def trim_prefix_def atoi_def parse_uint_def digit_val_def Let_def

section \<open>Properties\<close>

text \<open>Stable versions are compared as triples of numbers: for versions without a pre-release part
  the result is -1, 0 or 1 by the lexicographic order of major, minor and patch, hence
  antisymmetric and transitive, whatever a leading \<^verbatim>\<open>v\<close> or build metadata say.\<close>

theorem CompareVersions_stable_order:
  assumes "prerelease (parseSemver a) = []" and "prerelease (parseSemver b) = []" and "prerelease (parseSemver c) = []"
  shows "CompareVersions a b = - CompareVersions b a
    \<and> (CompareVersions a b = 0 \<longleftrightarrow> core_triple a = core_triple b)
    \<and> (CompareVersions a b = - 1 \<longleftrightarrow> triple_less (core_triple a) (core_triple b))
    \<and> (CompareVersions a b \<le> 0 \<longrightarrow> CompareVersions b c \<le> 0 \<longrightarrow> CompareVersions a c \<le> 0)"
proof (intro conjI impI)
  note c = compare_core[OF assms(1,2)] compare_core[OF assms(2,1)]
  note o = triple_less_order(1)[of "core_triple a"] triple_less_order(2,3)[of "core_triple a" "core_triple b"]
  show "CompareVersions a b = - CompareVersions b a" unfolding c using o(2) by auto
  show "CompareVersions a b = 0 \<longleftrightarrow> core_triple a = core_triple b" unfolding c using o by auto
  show "CompareVersions a b = - 1 \<longleftrightarrow> triple_less (core_triple a) (core_triple b)" unfolding c by auto
  assume "CompareVersions a b \<le> 0" "CompareVersions b c \<le> 0"
  then have "\<not> triple_less (core_triple b) (core_triple a)" "\<not> triple_less (core_triple c) (core_triple b)"
    unfolding compare_core_le[OF assms(1,2)] compare_core_le[OF assms(2,3)] .
  then show "CompareVersions a c \<le> 0"
    unfolding compare_core_le[OF assms(1,3)] using triple_less_order(3,4) by metis
qed

theorem CompareVersions_stable_order_witness:
  "CompareVersions ''v1.10.0'' ''1.9.3+meta'' = 1"
proof -
  have "prerelease (parseSemver ''v1.10.0'') = [] \<and> prerelease (parseSemver ''1.9.3+meta'') = []
      \<and> triple_less (core_triple ''1.9.3+meta'') (core_triple ''v1.10.0'')"
    by (simp add: version_eval)
  with CompareVersions_stable_order[of "''1.9.3+meta''" "''v1.10.0''" "''v1.10.0''"]
    CompareVersions_stable_order[of "''v1.10.0''" "''1.9.3+meta''" "''v1.10.0''"] show ?thesis by auto
qed

text \<open>C40. Updates are safe and settle: an update is only taken to a version without pre-release part,
  of the same major number, that is not older than the base of the current one; once the current
  version is the target, no further update is taken, and two versions never each update to the
  other.\<close>

theorem ShouldUpdate_safe:
  assumes "ShouldUpdate current latest"
  shows "CHR ''-'' \<notin> set (trim_prefix ''v'' latest)
    \<and> \<not> triple_less (core_triple (trim_prefix ''v'' latest)) (core_triple (hd (split_on (CHR ''-'') (trim_prefix ''v'' current))))
    \<and> major (parseSemver (trim_prefix ''v'' latest)) = major (parseSemver (hd (split_on (CHR ''-'') (trim_prefix ''v'' current))))
    \<and> \<not> ShouldUpdate latest latest \<and> \<not> ShouldUpdate latest current"
proof -
  let ?l = "trim_prefix ''v'' latest" and ?c = "trim_prefix ''v'' current"
  let ?cb = "hd (split_on (CHR ''-'') ?c)"
  have l: "CHR ''-'' \<notin> set ?l" using assms by (auto simp: ShouldUpdate_def Let_def split: if_splits)
  note lb = split_hd_id[OF l]
  have pl: "prerelease (parseSemver ?l) = []" "prerelease (parseSemver ?cb) = []"
    by (simp_all add: no_dash_no_pre l split_hd_no)
  note cmp = compare_core[OF pl(2,1)] compare_core[OF pl(1,2)] compare_core[OF pl(1,1)]
  have asym: "\<not> (triple_less x y \<and> triple_less y x)" "\<not> triple_less x x" for x y
    using triple_less_order(1,2) by blast+
  have up: "SameMajor ?cb ?l" "CompareVersions ?cb ?l < 0 \<or> CompareVersions ?cb ?l = 0 \<and> ?c \<noteq> ?cb"
    using assms l lb by (auto simp: ShouldUpdate_def Let_def split: if_splits)
  have "\<not> ShouldUpdate latest latest"
    using l lb asym(2) by (simp add: ShouldUpdate_def Let_def cmp)
  moreover have "\<not> ShouldUpdate latest current"
  proof
    assume rev1: "ShouldUpdate latest current"
    then have "CHR ''-'' \<notin> set ?c" by (auto simp: ShouldUpdate_def Let_def split: if_splits)
    then have cb: "?cb = ?c" by (rule split_hd_id)
    then have "CompareVersions ?l ?c < 0" using rev1 l lb by (auto simp: ShouldUpdate_def Let_def split: if_splits)
    with up(2) cb cmp(1,2) asym(1)[of "core_triple ?c" "core_triple ?l"] show False by (auto split: if_splits)
  qed
  ultimately show ?thesis
    using l up cmp(1) asym by (auto simp: SameMajor_def split: if_splits)
qed

theorem ShouldUpdate_safe_witness:
  "ShouldUpdate ''v1.7.1-beta'' ''v1.7.1'' \<and> \<not> ShouldUpdate ''v1.7.1'' ''v1.7.1-beta''"
proof -
  have "ShouldUpdate ''v1.7.1-beta'' ''v1.7.1''" by (simp add: version_eval)
  with ShouldUpdate_safe[OF this] show ?thesis by simp
qed

text \<open>Pre-release precedence is wrong when one list of identifiers extends the other by a number:
  the missing identifier is compared as an empty, hence not numeric, string, so
  \<^verbatim>\<open>alpha\<close> ranks above \<^verbatim>\<open>alpha.1\<close>, against the rule that the shorter list is lower; and two spellings
  of the same number are each greater than the other.\<close>

theorem CompareVersions_prerelease_wrong:
  "CompareVersions ''1.0.0-alpha'' ''1.0.0-alpha.1'' = 1
   \<and> CompareVersions ''1.0.0-alpha.1'' ''1.0.0-alpha'' = - 1
   \<and> CompareVersions ''1.0.0-rc.1'' ''1.0.0-rc.01'' = 1 \<and> CompareVersions ''1.0.0-rc.01'' ''1.0.0-rc.1'' = 1"
  by (simp add: version_eval)

end
