(* ===== verification/Compression.thy ===== *)
theory Compression
  imports Message
begin

text \<open>
  Fitting a batch of values into one response (\<^verbatim>\<open>findOptimalCompression\<close>, \<^verbatim>\<open>compressMap\<close> and
  \<^verbatim>\<open>findTopHeaviestKeys\<close> of \<^verbatim>\<open>p2p/kademlia/network.go\<close>).  The map from keys to values is an
  association list; JSON marshalling, Zstd compression and the order in which Go iterates over
  the map (which may differ at every iteration of the loop, hence the number) are the record
  \<open>codec\<close>, together with the gob codec of the messages.  A nil slice and an empty one are both
  \<open>[]\<close>.  The loop may not end: then its value is \<open>None\<close>.
\<close>

section \<open>Definitions\<close>

type_synonym data_map = "(string \<times> bytes) list"

record codec =
  gob :: "message \<Rightarrow> bytes result"
  ungob :: "bytes \<Rightarrow> message result"
  json_marshal :: "data_map \<Rightarrow> bytes result"
  json_unmarshal :: "bytes \<Rightarrow> data_map result"
  zstd :: "bytes \<Rightarrow> bytes result"
  unzstd :: "bytes \<Rightarrow> bytes result"
  map_iter :: "nat \<Rightarrow> data_map \<Rightarrow> data_map"

definition compressMap :: "codec \<Rightarrow> nat \<Rightarrow> data_map \<Rightarrow> bytes result" where
  "compressMap C iter dataMap =
     (case json_marshal C (map_iter C iter dataMap) of
        Inl e \<Rightarrow> errorf (''failed to marshal data map: '' @ e)
      | Inr dataBytes \<Rightarrow>
          (case zstd C dataBytes of
             Inl e \<Rightarrow> errorf (''failed to compress data: '' @ e)
           | Inr compressedData \<Rightarrow> Inr compressedData))"

text \<open>\<^verbatim>\<open>sort.Slice\<close> is not stable: entries of equal length come in any order.  Sorting stably after
  an arbitrary permutation of the entries gives every such order.\<close>

definition findTopHeaviestKeys :: "(data_map \<Rightarrow> data_map) \<Rightarrow> data_map \<Rightarrow> nat \<Rightarrow> nat \<times> string list" where
  "findTopHeaviestKeys order dataMap mb = (
     let entries = map (\<lambda>(k, v). (k, length v)) (filter (\<lambda>(k, v). length v > 0) (order dataMap));
         count = length entries;
         sorted = sort_key (\<lambda>(k, l). - int l) entries;
         n = 10;
         n = (if count \<le> 50 then 5 else n);
         n = (if count \<le> 10 then 1 else n);
         n = (if mb > 2 * defaultMaxPayloadSize then count div 2 else n)
     in (count, map fst (take n sorted)))"

definition drop_values :: "string list \<Rightarrow> data_map \<Rightarrow> data_map" where
  "drop_values ks dataMap = map (\<lambda>(k, v). if k \<in> set ks then (k, []) else (k, v)) dataMap"

definition nonempty_values :: "data_map \<Rightarrow> nat" where
  "nonempty_values dataMap = length (filter (\<lambda>(k, v). length v > 0) dataMap)"

partial_function (option) compression_loop ::
  "codec \<Rightarrow> nat \<Rightarrow> data_map \<Rightarrow> bytes \<Rightarrow> (bool \<times> nat \<times> bytes) result option" where
  "compression_loop C iter dataMap compressedData =
     (if BytesIntToMB (length compressedData) \<ge> defaultMaxPayloadSize then
        let mb = BytesIntToMB (length compressedData);
            (currentValuesCount, heavyKeys) = findTopHeaviestKeys (map_iter C (2 * iter + 1)) dataMap mb;
            dataMap' = drop_values heavyKeys dataMap
        in case compressMap C (2 * iter + 2) dataMap' of
             Inl e \<Rightarrow> Some (Inl e)
           | Inr compressedData' \<Rightarrow> compression_loop C (Suc iter) dataMap' compressedData'
      else let counter = nonempty_values dataMap in Some (Inr (counter = 0, counter, compressedData)))"

definition to_data_map :: "string list \<Rightarrow> bytes list \<Rightarrow> data_map" where
  "to_data_map keys vals = fold (\<lambda>(k, v). alist_update k v) (zip keys vals) []"

text \<open>The caller passes as many values as keys (\<open>length_retrieveBatchValues\<close> in theory
  \<open>Network\<close>), so \<^verbatim>\<open>values[i]\<close> is in range.\<close>

definition findOptimalCompression ::
  "codec \<Rightarrow> nat \<Rightarrow> string list \<Rightarrow> bytes list \<Rightarrow> (bool \<times> nat \<times> bytes) result option" where
  "findOptimalCompression C found keys vals = (
     let dataMap = to_data_map keys vals in
     case compressMap C 0 dataMap of
       Inl e \<Rightarrow> Some (Inl e)
     | Inr compressedData \<Rightarrow>
         if BytesIntToMB (length compressedData) < defaultMaxPayloadSize
         then Some (Inr (True, length dataMap, compressedData))
         else compression_loop C 0 dataMap compressedData)"

section \<open>Lemmas\<close>

text \<open>A map that keeps all keys and either keeps or empties each value.\<close>

definition thinned :: "data_map \<Rightarrow> data_map \<Rightarrow> bool" where
  "thinned m m' \<longleftrightarrow> list_all2 (\<lambda>(k, v) (k', v'). k' = k \<and> (v' = v \<or> v' = [])) m m'"

lemma thinned_refl [simp]: "thinned m m"
  by (auto simp: thinned_def list_all2_same)

lemma thinned_drop: "thinned m m' \<Longrightarrow> thinned m (drop_values ks m')"
  unfolding thinned_def drop_values_def
  by (auto simp: list_all2_conv_all_nth split: prod.splits)

lemma thinned_keys: "thinned m m' \<Longrightarrow> map fst m' = map fst m"
  unfolding thinned_def by (induction rule: list_all2_induct) auto

lemma nonempty_drop_le: "nonempty_values (drop_values ks m) \<le> nonempty_values m"
  by (induction m) (auto simp: nonempty_values_def drop_values_def)

lemma nonempty_drop_less:
  "k \<in> set ks \<Longrightarrow> (k, v) \<in> set m \<Longrightarrow> v \<noteq> [] \<Longrightarrow> nonempty_values (drop_values ks m) < nonempty_values m"
proof (induction m)
  case (Cons x m)
  then show ?case using nonempty_drop_le[of ks m]
    by (cases x) (auto simp: nonempty_values_def drop_values_def less_Suc_eq_le)
qed simp

lemma nonempty_perm: "mset m' = mset m \<Longrightarrow> nonempty_values m' = nonempty_values m"
  unfolding nonempty_values_def by (metis mset_filter size_mset)

definition perm_iter :: "codec \<Rightarrow> bool" where
  "perm_iter C \<longleftrightarrow> (\<forall>i m. mset (map_iter C i m) = mset m)"

text \<open>At least one non-empty value is dropped, unless there is none or there is one only and the
  payload is over twice the limit.\<close>

lemma heaviest_progress:
  assumes "mset (order m) = mset m" and "findTopHeaviestKeys order m mb = (cnt, ks)"
    and "nonempty_values m > 0" and "nonempty_values m > 1 \<or> mb \<le> 2 * defaultMaxPayloadSize"
  shows "nonempty_values (drop_values ks m) < nonempty_values m"
proof -
  let ?es = "map (\<lambda>(k, v). (k, length v)) (filter (\<lambda>(k, v). length v > 0) (order m))"
  let ?so = "sort_key (\<lambda>(k, l). - int l) ?es"
  have cnt: "length ?es = nonempty_values m"
    using nonempty_perm[OF assms(1)] by (simp add: nonempty_values_def)
  define n where "n = (if mb > 2 * defaultMaxPayloadSize then nonempty_values m div 2
      else if nonempty_values m \<le> 10 then 1 else if nonempty_values m \<le> 50 then 5 else 10)"
  have n: "ks = map fst (take n ?so)"
    using assms(2) unfolding findTopHeaviestKeys_def Let_def cnt n_def by simp
  have "n > 0" using assms(3,4) by (auto simp: n_def)
  have "length ?so > 0" using cnt assms(3) by (simp only: length_sort)
  then have "take n ?so \<noteq> []" using \<open>n > 0\<close> by (simp only: take_eq_Nil length_greater_0_conv) blast
  then obtain e where e: "e \<in> set (take n ?so)" by (meson list.set_sel(1))
  then have "e \<in> set ?es" by (metis in_set_takeD set_sort)
  then obtain v where "(fst e, v) \<in> set (order m)" "v \<noteq> []" by auto
  moreover have "fst e \<in> set ks" using e by (simp add: n)
  ultimately show ?thesis
    using nonempty_drop_less assms(1) by (metis set_mset_mset)
qed

text \<open>What the loop needs in order to end: an empty map fits, and a map with one value does not
  compress to more than twice the limit.\<close>

definition shrinkable :: "codec \<Rightarrow> data_map \<Rightarrow> bool" where
  "shrinkable C m0 \<longleftrightarrow> (\<forall>i m c. thinned m0 m \<longrightarrow> compressMap C i m = Inr c \<longrightarrow>
     (nonempty_values m = 0 \<longrightarrow> BytesIntToMB (length c) < defaultMaxPayloadSize)
     \<and> (nonempty_values m = 1 \<longrightarrow> BytesIntToMB (length c) \<le> 2 * defaultMaxPayloadSize))"

definition good_payload :: "codec \<Rightarrow> data_map \<Rightarrow> (bool \<times> nat \<times> bytes) result \<Rightarrow> bool" where
  "good_payload C m0 r = (case r of
     Inl e \<Rightarrow> \<exists>i m. thinned m0 m \<and> compressMap C i m = Inl e
   | Inr (isDone, n, d) \<Rightarrow> \<exists>i m. thinned m0 m \<and> compressMap C i m = Inr d
        \<and> BytesIntToMB (length d) < defaultMaxPayloadSize \<and> (isDone \<longleftrightarrow> m = m0 \<or> nonempty_values m = 0)
        \<and> n = (if m = m0 then length m0 else nonempty_values m))"

lemma compression_loop_returns:
  assumes C: "perm_iter C" "shrinkable C m0"
    and "thinned m0 m" and "compressMap C i m = Inr c"
    and "m \<noteq> m0 \<or> BytesIntToMB (length c) \<ge> defaultMaxPayloadSize" and "nonempty_values m \<le> nonempty_values m0"
  shows "\<exists>r. compression_loop C iter m c = Some r \<and> good_payload C m0 r"
  using assms(3-)
proof (induction "nonempty_values m" arbitrary: m i c iter rule: less_induct)
  case less
  let ?mb = "BytesIntToMB (length c)"
  show ?case
  proof (cases "?mb \<ge> defaultMaxPayloadSize")
    case False
    then have "m \<noteq> m0" using less.prems(3) by simp
    then have "good_payload C m0 (Inr (nonempty_values m = 0, nonempty_values m, c))"
      using False less.prems(1,2) by (auto simp: good_payload_def)
    then show ?thesis using False by (simp add: compression_loop.simps Let_def)
  next
    case big: True
    obtain cnt ks where f: "findTopHeaviestKeys (map_iter C (2 * iter + 1)) m ?mb = (cnt, ks)" by fastforce
    let ?m' = "drop_values ks m"
    have lim: "nonempty_values m > 0" "nonempty_values m > 1 \<or> ?mb \<le> 2 * defaultMaxPayloadSize"
      using C(2) less.prems(1,2) big unfolding shrinkable_def by (metis gr0I not_le, metis One_nat_def Suc_lessI gr0I not_le)
    have dec: "nonempty_values ?m' < nonempty_values m"
      by (rule heaviest_progress[OF _ f lim]) (use C(1) in \<open>simp add: perm_iter_def\<close>)
    have th: "thinned m0 ?m'" by (rule thinned_drop[OF less.prems(1)])
    show ?thesis
    proof (cases "compressMap C (2 * iter + 2) ?m'")
      case (Inl e)
      then have "compression_loop C iter m c = Some (Inl e)"
        using big f by (simp add: compression_loop.simps[of C iter m c] Let_def)
      moreover have "good_payload C m0 (Inl e)" using Inl th by (auto simp: good_payload_def)
      ultimately show ?thesis by blast
    next
      case (Inr c')
      have "?m' \<noteq> m0" using dec less.prems(4) by auto
      moreover have "compression_loop C iter m c = compression_loop C (Suc iter) ?m' c'"
        using big f Inr by (simp add: compression_loop.simps[of C iter m c] Let_def)
      ultimately show ?thesis using less.hyps[OF dec th Inr] dec less.prems(4) by simp
    qed
  qed
qed

lemma stuck_single:
  assumes "perm_iter C" and "nonempty_values m = 1" and "mb > 2 * defaultMaxPayloadSize"
  shows "snd (findTopHeaviestKeys (map_iter C i) m mb) = []"
proof -
  have "length (filter (\<lambda>(k, v). length v > 0) (map_iter C i m)) = 1"
    using assms(1,2) nonempty_perm[of "map_iter C i m" m] by (simp add: perm_iter_def nonempty_values_def)
  then show ?thesis using assms(3) by (simp add: findTopHeaviestKeys_def Let_def)
qed

lemma drop_values_Nil [simp]: "drop_values [] m = m"
  by (auto simp: drop_values_def intro: map_idI)

definition oversized :: "codec \<Rightarrow> data_map \<Rightarrow> bool" where
  "oversized C m \<longleftrightarrow> nonempty_values m = 1 \<and>
     (\<forall>i. \<exists>c. compressMap C i m = Inr c \<and> BytesIntToMB (length c) > 2 * defaultMaxPayloadSize)"

lemma compression_loop_stuck:
  assumes "compression_loop C iter m c = Some r"
  shows "perm_iter C \<longrightarrow> oversized C m \<longrightarrow> BytesIntToMB (length c) > 2 * defaultMaxPayloadSize \<longrightarrow> False"
proof (rule compression_loop.raw_induct[where P = "\<lambda>C iter m c r. perm_iter C \<longrightarrow> oversized C m \<longrightarrow>
      BytesIntToMB (length c) > 2 * defaultMaxPayloadSize \<longrightarrow> False", OF _ assms], intro impI)
  fix loop :: "codec \<Rightarrow> nat \<Rightarrow> data_map \<Rightarrow> bytes \<Rightarrow> (bool \<times> nat \<times> bytes) result option" and C iter m r and c :: bytes
  assume IH: "\<And>C iter m c r. loop C iter m c = Some r \<Longrightarrow> perm_iter C \<longrightarrow> oversized C m \<longrightarrow>
      BytesIntToMB (length c) > 2 * defaultMaxPayloadSize \<longrightarrow> False"
  let ?mb = "BytesIntToMB (length c)"
  assume step: "(if defaultMaxPayloadSize \<le> ?mb then
        let mb = ?mb; (currentValuesCount, heavyKeys) = findTopHeaviestKeys (map_iter C (2 * iter + 1)) m mb;
            dataMap' = drop_values heavyKeys m
        in case compressMap C (2 * iter + 2) dataMap' of
             Inl e \<Rightarrow> Some (Inl e)
           | Inr compressedData' \<Rightarrow> loop C (Suc iter) dataMap' compressedData'
      else let counter = nonempty_values m in Some (Inr (counter = 0, counter, c))) = Some r"
    and H: "perm_iter C" "oversized C m" "?mb > 2 * defaultMaxPayloadSize"
  have "snd (findTopHeaviestKeys (map_iter C (2 * iter + 1)) m ?mb) = []"
    using H by (intro stuck_single) (simp_all add: oversized_def)
  moreover obtain c' where "compressMap C (2 * iter + 2) m = Inr c'" "BytesIntToMB (length c') > 2 * defaultMaxPayloadSize"
    using H(2) unfolding oversized_def by blast
  ultimately have "loop C (Suc iter) m c' = Some r"
    using step H(3) by (simp add: Let_def case_prod_unfold)
  with IH H \<open>BytesIntToMB (length c') > _\<close> show False by blast
qed

section \<open>Properties\<close>

text \<open>C10. Fitting a batch into one response ends with a payload under the limit: if the keys alone
  fit and no single value compresses to more than twice the limit, the function returns; the data
  it returns are the compression of the requested map with some values emptied and every key kept,
  are below 200 MB, and the answer is marked done exactly when nothing was dropped or nothing
  could be kept.\<close>

theorem findOptimalCompression_returns:
  assumes "perm_iter C" and "shrinkable C (to_data_map keys vals)"
  shows "\<exists>r. findOptimalCompression C cnt keys vals = Some r \<and> good_payload C (to_data_map keys vals) r"
proof -
  let ?m = "to_data_map keys vals"
  show ?thesis
  proof (cases "compressMap C 0 ?m")
    case (Inl e)
    then have "good_payload C ?m (Inl e)" unfolding good_payload_def sum.case using thinned_refl[of ?m] by blast
    with Inl show ?thesis by (simp add: findOptimalCompression_def Let_def)
  next
    case (Inr c)
    show ?thesis
    proof (cases "BytesIntToMB (length c) < defaultMaxPayloadSize")
      case True
      then have "good_payload C ?m (Inr (True, length ?m, c))" using Inr thinned_refl[of ?m] by (fastforce simp: good_payload_def)
      with True Inr show ?thesis by (simp add: findOptimalCompression_def Let_def)
    next
      case False
      with compression_loop_returns[OF assms thinned_refl Inr, of 0] Inr show ?thesis
        by (simp add: findOptimalCompression_def Let_def)
    qed
  qed
qed

definition wit_codec :: "nat \<Rightarrow> codec" where
  "wit_codec big = \<lparr>gob = gob_toy, ungob = ungob_toy, json_marshal = (\<lambda>m. Inr (concat (map snd m))),
     json_unmarshal = (\<lambda>b. Inr []), zstd = (\<lambda>d. Inr (if d = [] then [] else replicate big 0)),
     unzstd = Inr, map_iter = (\<lambda>i m. m)\<rparr>"

lemma compressMap_wit:
  "compressMap (wit_codec big) i m = Inr (if concat (map snd m) = [] then [] else replicate big 0)"
  by (simp add: compressMap_def wit_codec_def)

lemma nonempty_concat: "nonempty_values m = 0 \<longleftrightarrow> concat (map snd m) = []"
  by (auto simp: nonempty_values_def filter_empty_conv)

theorem findOptimalCompression_returns_witness:
  "\<exists>r. findOptimalCompression (wit_codec 209715200) 1 [''a''] [[1]] = Some r
     \<and> good_payload (wit_codec 209715200) [(''a'', [1])] r"
proof -
  have m: "to_data_map [''a''] [[1]] = [(''a'', [1])]" by (simp add: to_data_map_def alist_update_def)
  have "shrinkable (wit_codec 209715200) [(''a'', [1])]"
    by (auto simp: shrinkable_def compressMap_wit nonempty_concat BytesIntToMB_def defaultMaxPayloadSize_def)
  moreover have "perm_iter (wit_codec 209715200)" by (simp add: perm_iter_def wit_codec_def)
  ultimately show ?thesis
    using findOptimalCompression_returns[of "wit_codec 209715200" "[''a'']" "[[1]]" 1] m by simp
qed

text \<open>With a single value that compresses to more than twice the limit the function never
  returns: half of one value, rounded down, is none, so every round drops nothing and compresses
  the same map again.\<close>

theorem findOptimalCompression_hangs:
  assumes "perm_iter C" and "oversized C (to_data_map keys vals)"
  shows "findOptimalCompression C cnt keys vals = None"
proof -
  let ?m = "to_data_map keys vals"
  obtain c where c: "compressMap C 0 ?m = Inr c" "BytesIntToMB (length c) > 2 * defaultMaxPayloadSize"
    using assms(2) unfolding oversized_def by blast
  have "compression_loop C 0 ?m c = None"
    using compression_loop_stuck[of C 0 ?m c] assms c(2) by (cases "compression_loop C 0 ?m c") auto
  then show ?thesis using c by (simp add: findOptimalCompression_def Let_def)
qed

theorem findOptimalCompression_hangs_witness:
  "findOptimalCompression (wit_codec 420478976) 1 [''a''] [[1]] = None"
proof (rule findOptimalCompression_hangs)
  show "perm_iter (wit_codec 420478976)" by (simp add: perm_iter_def wit_codec_def)
  show "oversized (wit_codec 420478976) (to_data_map [''a''] [[1]])"
    by (simp add: oversized_def to_data_map_def alist_update_def nonempty_values_def compressMap_wit
        BytesIntToMB_def defaultMaxPayloadSize_def)
qed

end
