(* ===== verification/Network.thy ===== *)
theory Network
  imports DHT ConnPool Compression
begin

text \<open>
  The network service (\<^verbatim>\<open>p2p/kademlia/network.go\<close>): the request handlers, the loop that serves one
  connection, the accept loop with its back-off, and \<^verbatim>\<open>Call\<close>, which sends a request over a pooled
  connection.  A handler takes a message and the node's state and returns the encoded response, or
  an error on which the connection is dropped, and the new state; \<open>None\<close> is a crash of the process
  or a handler that never returns.

  The deferred functions of most handlers call \<^verbatim>\<open>handlePanic\<close>, which calls \<^verbatim>\<open>recover\<close>; Go's
  \<^verbatim>\<open>recover\<close> only stops a panic when the deferred function itself calls it, so a panic in these
  handlers is not stopped.  \<^verbatim>\<open>handleBatchFindValues\<close> recovers in the deferred function.
\<close>

section \<open>Responses\<close>

text \<open>What only the network service needs of its surroundings: the values the cloud storage returns
  for a batch of keys, the order in which a Go map of keys is iterated, and whether the semaphore
  of the batch requests was acquired.\<close>

record net_env =
  cloudBatch :: "string list \<Rightarrow> (string \<times> bytes) list result"
  key_order :: "string list \<Rightarrow> string list"
  sem_acquired :: bool

definition ok_status :: response_status where
  "ok_status = \<lparr>Result = ResultOk, ErrMsg = ''''\<rparr>"

definition failed_status :: "string \<Rightarrow> response_status" where
  "failed_status e = \<lparr>Result = ResultFailed, ErrMsg = e\<rparr>"

definition encodeMesage :: "codec \<Rightarrow> message \<Rightarrow> bytes result" where
  "encodeMesage C m = (case encode (gob C) m of Inl e \<Rightarrow> errorf (''encode response: '' @ e) | Inr b \<Rightarrow> Inr b)"

text \<open>\<^verbatim>\<open>newMessage\<close> with a receiver that may be nil, as the sender of a request may be.\<close>

definition response_message :: "env \<Rightarrow> int \<Rightarrow> node option \<Rightarrow> payload \<Rightarrow> dht \<Rightarrow> message \<times> dht" where
  "response_message E mt receiver d s = (
     let (m, s1) = newMessage E mt (case receiver of Some n \<Rightarrow> n | None \<Rightarrow> self (ht s)) d s
     in (m\<lparr>Receiver := receiver\<rparr>, s1))"

definition respond :: "env \<Rightarrow> codec \<Rightarrow> int \<Rightarrow> node option \<Rightarrow> payload \<Rightarrow> dht \<Rightarrow> bytes result \<times> dht" where
  "respond E C mt receiver d s = (
     let (resMsg, s1) = response_message E mt receiver d s in (encodeMesage C resMsg, s1))"

definition failure_payload :: "int \<Rightarrow> response_status \<Rightarrow> payload option" where
  "failure_payload mt st =
     (if mt = StoreData \<or> mt = BatchStoreData then Some (StoreDataResponse st)
      else if mt = FindNode \<or> mt = BatchFindNode then Some (BatchFindNodeResponse st [])
      else if mt = FindValue \<or> mt = BatchFindValues then Some (BatchFindValuesResponse st [] False)
      else if mt = Replicate then Some (ReplicateDataResponse st)
      else if mt = BatchGetValues then Some (BatchGetValuesResponse [] st)
      else None)"

definition generateResponseMessage ::
  "env \<Rightarrow> codec \<Rightarrow> int \<Rightarrow> node option \<Rightarrow> int \<Rightarrow> string \<Rightarrow> dht \<Rightarrow> bytes result \<times> dht" where
  "generateResponseMessage E C mt receiver res errMsg s =
     (case failure_payload mt \<lparr>Result = res, ErrMsg = errMsg\<rparr> of
        None \<Rightarrow> (errorf ''unsupported message type'', s)
      | Some response \<Rightarrow> respond E C mt receiver response s)"

text \<open>\<^verbatim>\<open>addNode\<close> sets the hashed identifier of the node it is given, so the handlers see the sender
  with its hash afterwards.  A nil sender is dereferenced.\<close>

definition hashed_sender :: "env \<Rightarrow> dht \<Rightarrow> node \<Rightarrow> node" where
  "hashed_sender E s n = (if ID n = ID (self (ht s)) then n else SetHashedID (blake3 E) n)"

definition add_sender :: "env \<Rightarrow> message \<Rightarrow> dht \<Rightarrow> (node \<times> dht) option" where
  "add_sender E m s =
     Option.bind (Sender m) (\<lambda>n. map_option (\<lambda>(_, s1). (hashed_sender E s n, s1)) (addNode E n s))"

section \<open>Handlers\<close>

definition handleFindNode :: "env \<Rightarrow> codec \<Rightarrow> message \<Rightarrow> dht \<Rightarrow> (bytes result \<times> dht) option" where
  "handleFindNode E C m s =
     (case Data m of
        FindNodeRequest target \<Rightarrow>
          Option.bind (add_sender E m s) (\<lambda>(sender, s1).
          let hashedTargetID = blake3 E target;
              closest = fst (closestContacts K hashedTargetID [sender] (ht s1))
          in Some (respond E C FindNode (Some sender) (FindNodeResponse ok_status (nl_Nodes closest)) s1))
      | _ \<Rightarrow> Some (respond E C FindNode (Sender m) (FindNodeResponse (failed_status ''invalid FindNodeRequest'') []) s))"

definition handleFindValue :: "env \<Rightarrow> codec \<Rightarrow> message \<Rightarrow> dht \<Rightarrow> (bytes result \<times> dht) option" where
  "handleFindValue E C m s =
     (case Data m of
        FindValueRequest target \<Rightarrow>
          Option.bind (add_sender E m s) (\<lambda>(sender, s1).
          let (r, st) = sq_Retrieve (cloudFetch E) (dberr E ''Retrieve'') target (dht_store s1);
              s2 = s1\<lparr>dht_store := st\<rparr>;
              closest = nl_Nodes (fst (closestContacts K target [sender] (ht s2)))
          in Some (respond E C FindValue (Some sender)
                (case r of
                   Inl e \<Rightarrow> FindValueResponse (failed_status (''store retrieve: '' @ e)) closest []
                 | Inr v \<Rightarrow> if length v > 0 then FindValueResponse ok_status [] v
                           else FindValueResponse ok_status closest []) s2))
      | _ \<Rightarrow> Some (generateResponseMessage E C FindValue (Sender m) ResultFailed ''invalid FindValueRequest'' s))"

text \<open>The log lines of \<^verbatim>\<open>handleStoreData\<close> and \<^verbatim>\<open>handleReplicate\<close> call \<^verbatim>\<open>message.String()\<close>, which
  dereferences sender and receiver.\<close>

definition message_String_ok :: "message \<Rightarrow> bool" where
  "message_String_ok m \<longleftrightarrow> Sender m \<noteq> None \<and> Receiver m \<noteq> None"

definition handleStoreData :: "env \<Rightarrow> codec \<Rightarrow> message \<Rightarrow> dht \<Rightarrow> (bytes result \<times> dht) option" where
  "handleStoreData E C m s =
     (case Data m of
        StoreDataRequest d ty \<Rightarrow>
          if \<not> message_String_ok m then None
          else Option.bind (add_sender E m s) (\<lambda>(sender, s1).
          let key = blake3 E d;
              (r, st) = sq_Retrieve (cloudFetch E) (dberr E ''Retrieve'') key (dht_store s1);
              s2 = s1\<lparr>dht_store := st\<rparr>
          in if (case r of Inl _ \<Rightarrow> True | Inr v \<Rightarrow> length v = 0) then
               (case sq_Store (dberr E ''StoreCtx'') key d ty False (dht_store s2) of
                  (Some e, st') \<Rightarrow> Some (generateResponseMessage E C StoreData (Some sender) ResultFailed
                                          (''store the data: '' @ e) (s2\<lparr>dht_store := st'\<rparr>))
                | (None, st') \<Rightarrow> Some (respond E C StoreData (Some sender) (StoreDataResponse ok_status) (s2\<lparr>dht_store := st'\<rparr>)))
             else Some (respond E C StoreData (Some sender) (StoreDataResponse ok_status) s2))
      | _ \<Rightarrow> Some (generateResponseMessage E C StoreData (Sender m) ResultFailed ''invalid StoreDataRequest'' s))"

definition handleReplicateRequest ::
  "env \<Rightarrow> net_env \<Rightarrow> string list \<Rightarrow> bytes \<Rightarrow> string \<Rightarrow> u16 \<Rightarrow> dht \<Rightarrow> (string option \<times> dht) option" where
  "handleReplicateRequest E N keys i ip port s =
     Option.bind (RetrieveBatchNotExist (key_order N) (dberr E ''RetrieveBatchNotExist'') keys 5000 (dht_store s)) (\<lambda>r.
       case r of
         Inl e \<Rightarrow> Some (Some (''unable to retrieve batch replication keys: '' @ e), s)
       | Inr keysToStore \<Rightarrow>
           if length keysToStore > 0 then
             (case StoreBatchRepKeys (dberr E ''StoreBatchRepKeys'') (now E) keysToStore (str_of_bytes i) ip port (dht_store s) of
                (Some e, st) \<Rightarrow> Some (Some (''unable to store batch replication keys: '' @ e), s\<lparr>dht_store := st\<rparr>)
              | (None, st) \<Rightarrow> Some (None, s\<lparr>dht_store := st\<rparr>))
           else Some (None, s))"

definition handleReplicate :: "env \<Rightarrow> codec \<Rightarrow> net_env \<Rightarrow> message \<Rightarrow> dht \<Rightarrow> (bytes result \<times> dht) option" where
  "handleReplicate E C N m s =
     (case Data m of
        ReplicateDataRequest keys \<Rightarrow>
          if \<not> message_String_ok m then None
          else Option.bind (Sender m) (\<lambda>sender.
          Option.bind (handleReplicateRequest E N keys (ID sender) (IP sender) (Port sender) s) (\<lambda>(err, s1).
          case err of
            Some e \<Rightarrow> Some (generateResponseMessage E C Replicate (Sender m) ResultFailed e s1)
          | None \<Rightarrow> Some (respond E C Replicate (Sender m) (ReplicateDataResponse ok_status) s1)))
      | _ \<Rightarrow> Some (generateResponseMessage E C Replicate (Sender m) ResultFailed ''invalid ReplicateDataRequest'' s))"

definition handlePing :: "env \<Rightarrow> codec \<Rightarrow> message \<Rightarrow> dht \<Rightarrow> (bytes result \<times> dht) option" where
  "handlePing E C m s = Some (respond E C Ping (Sender m) NoData s)"

definition handleBatchStoreData :: "env \<Rightarrow> codec \<Rightarrow> message \<Rightarrow> dht \<Rightarrow> (bytes result \<times> dht) option" where
  "handleBatchStoreData E C m s =
     (case Data m of
        BatchStoreDataRequest d ty \<Rightarrow>
          Option.bind (add_sender E m s) (\<lambda>(sender, s1).
          case sq_StoreBatch (dberr E ''StoreBatchCtx'') d 1 False (dht_store s1) of
            (Some e, st) \<Rightarrow> Some (generateResponseMessage E C BatchStoreData (Some sender) ResultFailed
                                    (''batch store the data: '' @ e) (s1\<lparr>dht_store := st\<rparr>))
          | (None, st) \<Rightarrow> Some (respond E C BatchStoreData (Some sender) (StoreDataResponse ok_status) (s1\<lparr>dht_store := st\<rparr>)))
      | _ \<Rightarrow> Some (generateResponseMessage E C BatchStoreData (Sender m) ResultFailed ''invalid BatchStoreDataRequest'' s))"

definition handleBatchFindNode :: "env \<Rightarrow> codec \<Rightarrow> message \<Rightarrow> dht \<Rightarrow> (bytes result \<times> dht) option" where
  "handleBatchFindNode E C m s =
     (case Data m of
        BatchFindNodeRequest targets \<Rightarrow>
          Option.bind (add_sender E m s) (\<lambda>(sender, s1).
          let closestMap = fold (\<lambda>t. alist_update (b58encode E t) (nl_Nodes (fst (closestContacts K t [sender] (ht s1))))) targets []
          in Some (respond E C BatchFindNode (Some sender) (BatchFindNodeResponse ok_status closestMap) s1))
      | _ \<Rightarrow> Some (generateResponseMessage E C BatchFindNode (Sender m) ResultFailed ''invalid FindNodeRequest'' s))"

text \<open>The entries of a batch-get response, in the order of the keys; a key that is not found and
  is not hexadecimal text ends the request.\<close>

fun get_values_entries ::
  "hash_table \<Rightarrow> node \<Rightarrow> (string \<times> bytes) list \<Rightarrow> (kv_map) result" where
  "get_values_entries h sender [] = Inr []"
| "get_values_entries h sender ((key, v) # rest) =
     (case (if length v = 0 then
              (case hex_decode key of
                 None \<Rightarrow> errorf (''batch find vals: decode key: '' @ key)
               | Some decodedKey \<Rightarrow> Inr (nl_Nodes (fst (closestContacts Alpha decodedKey [sender] h))))
            else Inr []) of
        Inl e \<Rightarrow> Inl e
      | Inr closest \<Rightarrow>
          (case get_values_entries h sender rest of
             Inl e \<Rightarrow> Inl e
           | Inr es \<Rightarrow> Inr ((key, \<lparr>kv_Value = v, kv_Closest = closest\<rparr>) # es)))"

definition handleGetValuesRequest :: "env \<Rightarrow> codec \<Rightarrow> net_env \<Rightarrow> message \<Rightarrow> dht \<Rightarrow> (bytes result \<times> dht) option" where
  "handleGetValuesRequest E C N m s =
     (case Data m of
        BatchGetValuesRequest d \<Rightarrow>
          Option.bind (add_sender E m s) (\<lambda>(sender, s1).
          let keys = map fst d;
              (r, st) = retrieveBatchValues (cloudBatch N) (dberr E ''RetrieveBatchValues'') keys True (dht_store s1);
              s2 = s1\<lparr>dht_store := st\<rparr>
          in case r of
               Inl e \<Rightarrow> Some (generateResponseMessage E C BatchGetValues (Some sender) ResultFailed (''batch find values: '' @ e) s2)
             | Inr (vals, cnt) \<Rightarrow>
                 (case get_values_entries (ht s2) sender (zip keys vals) of
                    Inl e \<Rightarrow> Some (generateResponseMessage E C BatchGetValues (Some sender) ResultFailed e s2)
                  | Inr es \<Rightarrow> Some (respond E C BatchGetValues (Some sender) (BatchGetValuesResponse es ok_status) s2)))
      | _ \<Rightarrow> Some (generateResponseMessage E C BatchGetValues (Sender m) ResultFailed ''invalid BatchGetValuesRequest'' s))"

definition handleBatchFindValuesRequest ::
  "env \<Rightarrow> codec \<Rightarrow> net_env \<Rightarrow> string list \<Rightarrow> dht \<Rightarrow> ((bool \<times> bytes) result \<times> dht) option" where
  "handleBatchFindValuesRequest E C N keys s = (
     let (r, st) = retrieveBatchValues (cloudBatch N) (dberr E ''RetrieveBatchValues'') keys True (dht_store s);
         s1 = s\<lparr>dht_store := st\<rparr>
     in case r of
          Inl e \<Rightarrow> Some (errorf (''failed to retrieve batch values: '' @ e), s1)
        | Inr (vals, cnt) \<Rightarrow>
            Option.bind (findOptimalCompression C cnt keys vals) (\<lambda>c.
            case c of
              Inl e \<Rightarrow> Some (errorf (''failed to find optimal compression: '' @ e), s1)
            | Inr (isDone, n, compressedData) \<Rightarrow> Some (Inr (isDone, compressedData), s1)))"

text \<open>A nil sender is the one panic of this handler; it is recovered, and the handler returns the
  panic as an error.\<close>

definition handleBatchFindValues :: "env \<Rightarrow> codec \<Rightarrow> net_env \<Rightarrow> message \<Rightarrow> dht \<Rightarrow> (bytes result \<times> dht) option" where
  "handleBatchFindValues E C N m s =
     (if \<not> sem_acquired N then Some (generateResponseMessage E C BatchFindValues (Sender m) ResultFailed ''Busy'' s)
      else case Data m of
        BatchFindValuesRequest keys \<Rightarrow>
          (case Sender m of
             None \<Rightarrow> (let e = ''runtime error: invalid memory address or nil pointer dereference'' in
               Some (errorf e, snd (generateResponseMessage E C BatchFindValues (Sender m) ResultFailed e s)))
           | Some sender \<Rightarrow>
               Option.bind (handleBatchFindValuesRequest E C N keys s) (\<lambda>(r, s1).
               case r of
                 Inl e \<Rightarrow> Some (generateResponseMessage E C BatchFindValues (Sender m) ResultFailed e s1)
               | Inr (isDone, d) \<Rightarrow>
                   Some (respond E C BatchFindValues (Sender m) (BatchFindValuesResponse ok_status d isDone) s1)))
      | _ \<Rightarrow> Some (generateResponseMessage E C BatchFindValues (Sender m) ResultFailed ''invalid BatchFindValueRequest'' s))"

section \<open>Serving a connection\<close>

definition handle_request :: "env \<Rightarrow> codec \<Rightarrow> net_env \<Rightarrow> message \<Rightarrow> dht \<Rightarrow> (bytes result \<times> dht) option" where
  "handle_request E C N request s =
     (if MessageType request = FindNode then handleFindNode E C request s
      else if MessageType request = BatchFindNode then handleBatchFindNode E C request s
      else if MessageType request = FindValue then handleFindValue E C request s
      else if MessageType request = Ping then handlePing E C request s
      else if MessageType request = StoreData then handleStoreData E C request s
      else if MessageType request = Replicate then handleReplicate E C N request s
      else if MessageType request = BatchFindValues then handleBatchFindValues E C N request s
      else if MessageType request = BatchStoreData then handleBatchStoreData E C request s
      else if MessageType request = BatchGetValues then handleGetValuesRequest E C N request s
      else Some (errorf ''invalid message type'', s))"

lemma decode_consumes: "decode u input = Inr (m, rest) \<Longrightarrow> length rest < length input"
  by (auto simp: decode_def read_full_def split: if_splits sum.splits prod.splits)

text \<open>\<^verbatim>\<open>handleConn\<close>: \<open>input\<close> is all that the peer sends, \<open>out\<close> the responses written so far.  Before
  each request the context is checked (\<open>stopped\<close>), and a write may fail (\<open>wfails\<close>).\<close>

function serve_requests ::
  "env \<Rightarrow> codec \<Rightarrow> net_env \<Rightarrow> (nat \<Rightarrow> bool) \<Rightarrow> (nat \<Rightarrow> bool) \<Rightarrow> nat \<Rightarrow> bytes \<Rightarrow> bytes list \<Rightarrow> dht \<Rightarrow> (bytes list \<times> dht) option" where
  "serve_requests E C N stopped wfails i input out s =
     (if stopped i then Some (out, s)
      else case decode (ungob C) input of
        Inl e \<Rightarrow> Some (out, s)
      | Inr (request, rest) \<Rightarrow>
          Option.bind (handle_request E C N request s) (\<lambda>(r, s1).
          case r of
            Inl e \<Rightarrow> Some (out, s1)
          | Inr response \<Rightarrow>
              if wfails i then Some (out, s1)
              else serve_requests E C N stopped wfails (Suc i) rest (out @ [response]) s1))"
  by pat_completeness auto
termination
  by (relation "measure (\<lambda>(E, C, N, stopped, wfails, i, input, out, s). length input)") (auto dest: decode_consumes)

declare serve_requests.simps [simp del]

definition handleConn ::
  "env \<Rightarrow> codec \<Rightarrow> net_env \<Rightarrow> bool \<Rightarrow> (nat \<Rightarrow> bool) \<Rightarrow> (nat \<Rightarrow> bool) \<Rightarrow> bytes \<Rightarrow> dht \<Rightarrow> (bytes list \<times> dht) option" where
  "handleConn E C N handshake_ok stopped wfails input s =
     (if \<not> handshake_ok then Some ([], s) else serve_requests E C N stopped wfails 0 input [] s)"

section \<open>Accepting connections\<close>

datatype net_error = EAGAIN | ECONNABORTED | ECONNRESET | ECONNREFUSED | EINTR | ETIMEDOUT
  | OtherErrno | OtherError | Wrapped net_error

text \<open>\<^verbatim>\<open>errors.As\<close> unwraps.\<close>

fun isTemporaryNetError :: "net_error \<Rightarrow> bool" where
  "isTemporaryNetError (Wrapped e) = isTemporaryNetError e"
| "isTemporaryNetError OtherErrno = False"
| "isTemporaryNetError OtherError = False"
| "isTemporaryNetError e = True"

datatype 'c accept_outcome = Accepted 'c | AcceptFailed net_error | AcceptStopped

definition next_delay :: "int \<Rightarrow> int" where
  "next_delay tempDelay = (
     let d = (if tempDelay = 0 then 5000000 else tempDelay * 2) in if d > seconds 1 then seconds 1 else d)"

text \<open>\<^verbatim>\<open>serve\<close> over the outcomes of the calls of \<^verbatim>\<open>Accept\<close>: the connections handed to handlers and
  the delays slept.  The delay is never reset after a successful accept.\<close>

fun serve :: "int \<Rightarrow> 'c accept_outcome list \<Rightarrow> 'c list \<times> int list" where
  "serve tempDelay [] = ([], [])"
| "serve tempDelay (Accepted c # rest) = (let (cs, ds) = serve tempDelay rest in (c # cs, ds))"
| "serve tempDelay (AcceptStopped # rest) = ([], [])"
| "serve tempDelay (AcceptFailed e # rest) =
     (if isTemporaryNetError e then
        (let d = next_delay tempDelay; (cs, ds) = serve d rest in (cs, d # ds))
      else ([], []))"

section \<open>Calls\<close>

definition execTimeouts :: "int \<rightharpoonup> int" where
  "execTimeouts = [BatchStoreData \<mapsto> seconds 60, FindNode \<mapsto> seconds 30, BatchFindNode \<mapsto> seconds 15]"

definition getExecTimeout :: "int \<Rightarrow> bool \<Rightarrow> int" where
  "getExecTimeout messageType isLong =
     (if isLong then minutes 3
      else case execTimeouts messageType of Some t \<Rightarrow> t | None \<Rightarrow> seconds 10)"

text \<open>What \<^verbatim>\<open>Call\<close> takes from its surroundings: whether credentials are set, the outcome of
  dialling an address, of setting a deadline, of a write, and the bytes that arrive on a
  connection after the request.\<close>

record 'c call_env =
  clientTC :: bool
  dial :: "string \<Rightarrow> 'c result"
  set_deadline :: "'c \<Rightarrow> int \<Rightarrow> string option"
  write_conn :: "'c \<Rightarrow> bytes \<Rightarrow> string option"
  incoming :: "'c \<Rightarrow> bytes"
  map_order :: "(string \<times> 'c connection_item) list \<Rightarrow> (string \<times> 'c connection_item) list"
  clock0 :: timestamp
  clock1 :: timestamp

definition remote_addr :: "node \<Rightarrow> string" where
  "remote_addr n = str_of_bytes (ID n) @ ''@'' @ IP n @ '':'' @ itoa (unat (Port n))"

text \<open>The deferred cleanup: close the connection and forget it.\<close>

definition drop_conn :: "string \<Rightarrow> 'c \<Rightarrow> 'c conn_pool \<Rightarrow> 'c conn_pool" where
  "drop_conn addr c pool = pool_Del addr (pool\<lparr>closed := closed pool @ [c]\<rparr>)"

text \<open>The cleanup looks at the function's own \<open>err\<close>.  The errors of \<^verbatim>\<open>SetDeadline\<close> and
  \<^verbatim>\<open>Write\<close> are held in variables of inner scopes, so it does not run for them.  A nil receiver
  is dereferenced.\<close>

definition Call :: "'c call_env \<Rightarrow> codec \<Rightarrow> message \<Rightarrow> bool \<Rightarrow> 'c conn_pool \<Rightarrow> (message result \<times> 'c conn_pool) option" where
  "Call W C request isLong pool = (
     let timeout = getExecTimeout (MessageType request) isLong in
     if (case Receiver request of Some n \<Rightarrow> Port n = 50052 | None \<Rightarrow> False)
     then Some (errorf ''invalid receiver port'', pool)
     else if (case Sender request of Some n \<Rightarrow> Port n = 50052 | None \<Rightarrow> False)
     then Some (errorf ''invalid sender port'', pool)
     else Option.bind (Receiver request) (\<lambda>receiver.
       let remoteAddr = remote_addr receiver in
       if \<not> clientTC W then Some (errorf ''secure transport credentials are not set'', pool)
       else
         let (got, pool1) = pool_Get (clock0 W) remoteAddr pool;
             opened = (case got of
                         Inr c \<Rightarrow> Inr (c, pool1)
                       | Inl _ \<Rightarrow>
                           (case dial W remoteAddr of
                              Inl e \<Rightarrow> Inl (''client secure establish: '' @ e)
                            | Inr c \<Rightarrow> Inr (c, pool_Add (map_order W) (clock0 W) (clock1 W) remoteAddr c pool1)))
         in case opened of
              Inl e \<Rightarrow> Some (Inl e, pool1)
            | Inr (c, pool2) \<Rightarrow>
                (case set_deadline W c (clock1 W + timeout) of
                   Some e \<Rightarrow> Some (errorf (''failed to set connection deadline: '' @ e), pool2)
                 | None \<Rightarrow>
                     (case encode (gob C) request of
                        Inl e \<Rightarrow> Some (errorf (''encode: '' @ e), drop_conn remoteAddr c pool2)
                      | Inr d \<Rightarrow>
                          (case write_conn W c d of
                             Some e \<Rightarrow> Some (errorf (''conn write: '' @ e), pool2)
                           | None \<Rightarrow>
                               (case decode (ungob C) (incoming W c) of
                                  Inl e \<Rightarrow> Some (errorf (''conn read: '' @ e), drop_conn remoteAddr c pool2)
                                | Inr (response, rest) \<Rightarrow> Some (Inr response, pool2)))))))"

section \<open>Lemmas\<close>

lemma ID_hashed_sender [simp]: "ID (hashed_sender E s n) = ID n"
  by (simp add: hashed_sender_def SetHashedID_def)

lemma add_sender_ok:
  assumes "hash_ok E" and "ht_inv (blake3 E) (ht s)" and "Sender m = Some n" and "trusted E n"
  obtains s1 ri where "add_sender E m s = Some (hashed_sender E s n, s1)" and "ht_inv (blake3 E) (ht s1)"
    and "dht_store s1 = (dht_store s)\<lparr>replication_info := ri\<rparr>"
proof -
  obtain r s1 where "addNode E n s = Some (r, s1)" "ht_inv (blake3 E) (ht s1)"
    using addNode_inv[OF assms(1,2,4)] by blast
  then show ?thesis using that addNode_store[of E n s r s1] assms(3) by (auto simp: add_sender_def)
qed

lemma response_message_fields [simp]:
  "MessageType (fst (response_message E mt r d s)) = mt" "Receiver (fst (response_message E mt r d s)) = r"
  "Data (fst (response_message E mt r d s)) = d"
  "ht (snd (response_message E mt r d s)) = ht s" "dht_store (snd (response_message E mt r d s)) = dht_store s"
  by (simp_all add: response_message_def Let_def case_prod_unfold)

lemma respond_eq: "respond E C mt r d s = (encodeMesage C (fst (response_message E mt r d s)), snd (response_message E mt r d s))"
  by (simp add: respond_def Let_def case_prod_unfold)

lemma respond_frame [simp]:
  "ht (snd (respond E C mt r d s)) = ht s" "dht_store (snd (respond E C mt r d s)) = dht_store s"
  by (simp_all add: respond_eq)

section \<open>Serving requests in order\<close>

text \<open>The requests of one connection answered one after the other, without the wire format: up to
  the first request on which the connection is dropped.\<close>

fun answer_all :: "env \<Rightarrow> codec \<Rightarrow> net_env \<Rightarrow> message list \<Rightarrow> dht \<Rightarrow> (bytes list \<times> dht) option" where
  "answer_all E C N [] s = Some ([], s)"
| "answer_all E C N (m # ms) s =
     Option.bind (handle_request E C N m s) (\<lambda>(r, s1).
       case r of Inl e \<Rightarrow> Some ([], s1)
       | Inr b \<Rightarrow> map_option (\<lambda>(bs, s2). (b # bs, s2)) (answer_all E C N ms s1))"

lemma decode_encoded:
  assumes "\<And>m buf. gob C m = Inr buf \<Longrightarrow> ungob C buf = Inr m" and "encode (gob C) m = Inr e"
  shows "decode (ungob C) (e @ rest) = Inr (m, rest)"
proof -
  from assms(2) obtain buf where "gob C m = Inr buf" by (auto simp: encode_def split: sum.splits)
  then show ?thesis by (intro decode_encode_append[where gob = "gob C"] assms)
qed

lemma decode_eof: "decode u [] = Inl ''EOF''"
  by (simp add: decode_def read_full_def)

lemma serve_requests_eq:
  assumes "\<And>m buf. gob C m = Inr buf \<Longrightarrow> ungob C buf = Inr m"
    and "list_all2 (\<lambda>m e. encode (gob C) m = Inr e) ms es"
  shows "serve_requests E C N (\<lambda>_. False) (\<lambda>_. False) i (concat es) out s =
    map_option (\<lambda>(bs, s'). (out @ bs, s')) (answer_all E C N ms s)"
  using assms(2)
proof (induction ms es arbitrary: i out s rule: list_all2_induct)
  case Nil
  then show ?case by (simp add: serve_requests.simps[of _ _ _ _ _ _ "[]"] decode_eof)
next
  case (Cons m ms e es)
  have d: "decode (ungob C) (e @ concat es) = Inr (m, concat es)" by (rule decode_encoded[OF assms(1) Cons(1)])
  show ?case
  proof (cases "handle_request E C N m s")
    case (Some p)
    then show ?thesis using d Cons(3)
      by (cases p; cases "fst p") (auto simp: serve_requests.simps[of _ _ _ _ _ i] option.map_comp o_def case_prod_unfold)
  qed (use d in \<open>simp add: serve_requests.simps[of _ _ _ _ _ i]\<close>)
qed

section \<open>Properties\<close>

text \<open>C9. A connection is served in order: when the peer writes the encodings of any sequence of
  requests and the gob decoder inverts the encoder, \<^verbatim>\<open>handleConn\<close> writes exactly the responses that
  answering the requests one by one gives, in their order and up to the first request on which
  the connection is dropped, and leaves the same state.\<close>

theorem handleConn_in_order:
  assumes "\<And>m buf. gob C m = Inr buf \<Longrightarrow> ungob C buf = Inr m"
    and "list_all2 (\<lambda>m e. encode (gob C) m = Inr e) ms es"
  shows "handleConn E C N True (\<lambda>_. False) (\<lambda>_. False) (concat es) s = answer_all E C N ms s"
  using serve_requests_eq[OF assms, of E N 0 "[]" s] by (simp add: handleConn_def case_prod_unfold option.map_ident)

theorem handleConn_in_order_witness:
  "handleConn wit_env (wit_codec 0) \<lparr>cloudBatch = (\<lambda>_. Inr []), key_order = id, sem_acquired = True\<rparr>
     True (\<lambda>_. False) (\<lambda>_. False) ([1,0,0,0,0,0,0,0,7] @ [1,0,0,0,0,0,0,0,7]) wit_dht
   = answer_all wit_env (wit_codec 0) \<lparr>cloudBatch = (\<lambda>_. Inr []), key_order = id, sem_acquired = True\<rparr>
       [ping_msg, ping_msg] wit_dht"
proof -
  have "put_uvarint8 1 = [1,0,0,0,0,0,0,0]" by code_simp
  then have "encode (gob (wit_codec 0)) ping_msg = Inr [1,0,0,0,0,0,0,0,7]"
    by (simp add: encode_def wit_codec_def gob_toy_def BytesIntToMB_def defaultMaxPayloadSize_def)
  moreover have "\<And>m buf. gob (wit_codec 0) m = Inr buf \<Longrightarrow> ungob (wit_codec 0) buf = Inr m"
    by (auto simp: wit_codec_def gob_toy_def ungob_toy_def split: if_splits)
  ultimately show ?thesis
    using handleConn_in_order[of "wit_codec 0" "[ping_msg, ping_msg]" "[[1,0,0,0,0,0,0,0,7], [1,0,0,0,0,0,0,0,7]]"] by simp
qed

text \<open>The payload a requester expects for each type of request, and the request it belongs to.\<close>

definition request_of :: "int \<Rightarrow> payload \<Rightarrow> bool" where
  "request_of mt p = (case p of
     NoData \<Rightarrow> mt = Ping | FindNodeRequest _ \<Rightarrow> mt = FindNode | FindValueRequest _ \<Rightarrow> mt = FindValue
   | StoreDataRequest _ _ \<Rightarrow> mt = StoreData | ReplicateDataRequest _ \<Rightarrow> mt = Replicate
   | BatchFindValuesRequest _ \<Rightarrow> mt = BatchFindValues | BatchStoreDataRequest _ _ \<Rightarrow> mt = BatchStoreData
   | BatchFindNodeRequest _ \<Rightarrow> mt = BatchFindNode | BatchGetValuesRequest _ \<Rightarrow> mt = BatchGetValues | _ \<Rightarrow> False)"

definition response_of :: "int \<Rightarrow> payload \<Rightarrow> bool" where
  "response_of mt p = (case p of
     NoData \<Rightarrow> mt = Ping | FindNodeResponse _ _ \<Rightarrow> mt = FindNode | FindValueResponse _ _ _ \<Rightarrow> mt = FindValue
   | StoreDataResponse _ \<Rightarrow> mt = StoreData \<or> mt = BatchStoreData | ReplicateDataResponse _ \<Rightarrow> mt = Replicate
   | BatchFindValuesResponse _ _ _ \<Rightarrow> mt = BatchFindValues | BatchFindNodeResponse _ _ \<Rightarrow> mt = BatchFindNode
   | BatchGetValuesResponse _ _ \<Rightarrow> mt = BatchGetValues | _ \<Rightarrow> False)"

text \<open>A response to \<open>m\<close>: encoded from a message of the same type to the sender of \<open>m\<close>, with a payload
  of the type that the requester expects.\<close>

definition proper_response :: "codec \<Rightarrow> message \<Rightarrow> bytes result \<Rightarrow> bool" where
  "proper_response C m r \<longleftrightarrow> (\<exists>rm. r = encodeMesage C rm \<and> MessageType rm = MessageType m
     \<and> map_option ID (Receiver rm) = map_option ID (Sender m) \<and> response_of (MessageType m) (Data rm))"

lemma respond_proper:
  assumes "respond E C mt to d s = (r, s')" and "mt = MessageType m"
    and "map_option ID (Sender m) = map_option ID to" and "response_of mt d"
  shows "proper_response C m r"
  unfolding proper_response_def
  by (rule exI[of _ "fst (response_message E mt to d s)"]) (use assms in \<open>auto simp: respond_eq\<close>)

lemma generate_proper:
  assumes "generateResponseMessage E C mt to res e s = (r, s')" and "mt = MessageType m"
    and "map_option ID (Sender m) = map_option ID to"
    and "mt \<in> {StoreData, BatchStoreData, BatchFindNode, BatchFindValues, Replicate, BatchGetValues}"
  shows "proper_response C m r"
proof -
  obtain d where "failure_payload mt \<lparr>Result = res, ErrMsg = e\<rparr> = Some d" "response_of mt d"
    using assms(4) by (auto simp: failure_payload_def response_of_def message_types)
  then show ?thesis using assms(1-3) respond_proper[of E C mt to d s r s' m]
    by (simp add: generateResponseMessage_def)
qed

lemma add_sender_ID: "add_sender E m s = Some (n, s1) \<Longrightarrow> map_option ID (Sender m) = Some (ID n)"
  by (auto simp: add_sender_def split: bind_splits)

lemmas handler_splits = bind_splits if_splits sum.splits prod.splits option.splits

lemmas handler_defs = handle_request_def handleFindNode_def handleFindValue_def handleStoreData_def handleReplicate_def
  handlePing_def handleBatchFindValues_def handleBatchStoreData_def handleBatchFindNode_def handleGetValuesRequest_def

lemma handler_proper:
  assumes "request_of (MessageType m) (Data m)" and "Sender m \<noteq> None"
    and "handle_request E C N m s = Some (r, s')"
  shows "proper_response C m r"
  using assms
  by (cases "Data m")
     (auto simp: request_of_def handler_defs message_types Let_def response_of_def
        dest!: add_sender_ID split: handler_splits elim!: respond_proper generate_proper)

lemma lookup_cong: "data_tbl st = data_tbl st' \<Longrightarrow> lookup st = lookup st'"
  by (simp add: fun_eq_iff lookup_def)

lemma sq_Retrieve_store:
  assumes "lookup st (hex_encode k) = None \<or> (\<exists>v. lookup st (hex_encode k) = Some v \<and> v \<noteq> [])"
  shows "data_tbl (snd (sq_Retrieve f None k st)) = data_tbl st \<and> JobQueue (snd (sq_Retrieve f None k st)) = JobQueue st
    \<and> (isl (fst (sq_Retrieve f None k st)) \<longleftrightarrow> lookup st (hex_encode k) = None)"
  using assms by (auto simp: sq_Retrieve_def lookup_def Let_def)

text \<open>What a store request leaves in the node: the data in the table or in the queue's last job.\<close>

lemma handleStoreData_stores:
  assumes "hash_ok E" and "ht_inv (blake3 E) (ht s)" and "Sender m = Some n" and "trusted E n" and "Receiver m \<noteq> None"
    and "Data m = StoreDataRequest d ty" and "d \<noteq> []" and "dberr E ''Retrieve'' = None" and "dberr E ''StoreCtx'' = None"
    and "lookup (dht_store s) (hex_encode (blake3 E d)) = None
       \<or> lookup (dht_store s) (hex_encode (blake3 E d)) = Some d \<and>
         fold (replay (blake3 E)) (JobQueue (dht_store s)) (lookup (dht_store s)) (hex_encode (blake3 E d)) = Some d"
  obtains rm s1 where "handleStoreData E C m s = Some (encodeMesage C rm, s1)" and "Data rm = StoreDataResponse ok_status"
    and "ht_inv (blake3 E) (ht s1)"
    and "fold (replay (blake3 E)) (JobQueue (dht_store s1)) (lookup (dht_store s1)) (hex_encode (blake3 E d)) = Some d"
proof -
  let ?k = "blake3 E d"
  obtain sa ri where sa: "add_sender E m s = Some (hashed_sender E s n, sa)" "ht_inv (blake3 E) (ht sa)"
      "dht_store sa = (dht_store s)\<lparr>replication_info := ri\<rparr>"
    using add_sender_ok[OF assms(1-4)] .
  then have tb: "lookup (dht_store sa) = lookup (dht_store s)" "JobQueue (dht_store sa) = JobQueue (dht_store s)"
    using lookup_cong[of "dht_store sa" "dht_store s"] by simp_all
  obtain r st where rt: "sq_Retrieve (cloudFetch E) None ?k (dht_store sa) = (r, st)" by fastforce
  have q: "lookup st = lookup (dht_store s)" "JobQueue st = JobQueue (dht_store s)"
      "isl r \<longleftrightarrow> lookup (dht_store s) (hex_encode ?k) = None"
    using sq_Retrieve_store[of "dht_store sa" ?k "cloudFetch E"] assms(7,10) tb rt lookup_cong[of st "dht_store sa"]
    by (simp_all only: fst_conv snd_conv) blast+
  note unf = handleStoreData_def message_String_ok_def assms(3,5,6,8,9) sa(1) rt Let_def respond_eq
  show thesis
  proof (cases "lookup (dht_store s) (hex_encode ?k)")
    case None
    then obtain e where "r = Inl e" using q(3) by (cases r) auto
    then show thesis
      using sa(2) q that[of "fst (response_message E StoreData (Some (hashed_sender E s n)) (StoreDataResponse ok_status)
          (sa\<lparr>dht_store := st\<lparr>JobQueue := JobQueue st @ [Insert ?k d ty False]\<rparr>\<rparr>))"]
      by (simp add: unf sq_Store_def enqueue_def)
  next
    case (Some v)
    then have "v = d" "fold (replay (blake3 E)) (JobQueue (dht_store s)) (lookup (dht_store s)) (hex_encode ?k) = Some d" using assms(10) by auto
    moreover have "r = Inr d"
      using sq_Retrieve_lookup[of "dht_store sa" ?k d "cloudFetch E"] Some \<open>v = d\<close> assms(7) tb rt by simp
    ultimately show thesis
      using sa(2) q Some assms(7) that[of "fst (response_message E StoreData (Some (hashed_sender E s n)) (StoreDataResponse ok_status)
          (sa\<lparr>dht_store := st\<rparr>))"]
      by (simp add: unf)
  qed
qed

text \<open>C7. What a peer stores any peer can find.  A store request with non-empty data comes from a peer whose address is
  trusted; the value is not in the table yet, or it is and the jobs that are queued keep it; the database works and so do
  the queued jobs.  Then the request is answered with success, and once the store's worker has run, a find-value request
  for the hash of the data, from any peer with a trusted address, is answered with exactly the data.\<close>

theorem store_then_find:
  assumes "hash_ok E" and "ht_inv (blake3 E) (ht s)" and "dberr E ''Retrieve'' = None" and "dberr E ''StoreCtx'' = None"
    and m: "MessageType m = StoreData" "Sender m = Some n" "trusted E n" "Receiver m \<noteq> None" "Data m = StoreDataRequest d ty"
    and m': "MessageType m' = FindValue" "Sender m' = Some n'" "trusted E n'" "Data m' = FindValueRequest (blake3 E d)"
    and "d \<noteq> []" and "lookup (dht_store s) (hex_encode (blake3 E d)) = None
       \<or> lookup (dht_store s) (hex_encode (blake3 E d)) = Some d \<and>
         fold (replay (blake3 E)) (JobQueue (dht_store s)) (lookup (dht_store s)) (hex_encode (blake3 E d)) = Some d"
  shows "\<exists>rm s1 st rm' s2. handle_request E C N m s = Some (encodeMesage C rm, s1) \<and> Data rm = StoreDataResponse ok_status
    \<and> run_jobs (blake3 E) (replicate (length (JobQueue (dht_store s1))) (None, t)) (dht_store s1) = Some st
    \<and> handle_request E C N m' (s1\<lparr>dht_store := st\<rparr>) = Some (encodeMesage C rm', s2)
    \<and> Data rm' = FindValueResponse ok_status [] d \<and> map_option ID (Receiver rm') = Some (ID n')"
proof -
  let ?k = "blake3 E d"
  obtain rm s1 where s1: "handleStoreData E C m s = Some (encodeMesage C rm, s1)" "Data rm = StoreDataResponse ok_status"
      "ht_inv (blake3 E) (ht s1)" "fold (replay (blake3 E)) (JobQueue (dht_store s1)) (lookup (dht_store s1)) (hex_encode ?k) = Some d"
    using handleStoreData_stores[OF assms(1,2) m(2,3,4,5) assms(14,3,4,15)] by blast
  let ?outs = "replicate (length (JobQueue (dht_store s1))) (None, t)"
  obtain st where st: "run_jobs (blake3 E) ?outs (dht_store s1) = Some st" "lookup st (hex_encode ?k) = Some d"
    using run_jobs_replay[of ?outs "dht_store s1" "blake3 E"] s1(4) by (auto simp: list_all_iff)
  let ?s = "s1\<lparr>dht_store := st\<rparr>"
  have inv: "ht_inv (blake3 E) (ht ?s)" using s1(3) by simp
  obtain sb ri where sb: "add_sender E m' ?s = Some (hashed_sender E ?s n', sb)"
      "dht_store sb = (dht_store ?s)\<lparr>replication_info := ri\<rparr>"
    using add_sender_ok[OF assms(1) inv m'(2,3)] by blast
  have "lookup (dht_store sb) (hex_encode ?k) = Some d" using st(2) sb(2) by (simp add: lookup_def)
  then obtain st' where st': "sq_Retrieve (cloudFetch E) None ?k (dht_store sb) = (Inr d, st')"
    using sq_Retrieve_lookup[of "dht_store sb" ?k d "cloudFetch E"] assms(14) by (metis prod.collapse)
  let ?rm = "response_message E FindValue (Some (hashed_sender E ?s n')) (FindValueResponse ok_status [] d) (sb\<lparr>dht_store := st'\<rparr>)"
  have f: "handle_request E C N m' ?s = Some (encodeMesage C (fst ?rm), snd ?rm)"
    using m'(1,4) sb(1) st' assms(3,14)
    by (simp add: handle_request_def handleFindValue_def message_types Let_def respond_eq)
  have g: "handle_request E C N m s = Some (encodeMesage C rm, s1)"
    using s1(1) m(1) by (simp add: handle_request_def message_types)
  show ?thesis
    by (intro exI[of _ rm] exI[of _ s1] exI[of _ st] exI[of _ "fst ?rm"] exI[of _ "snd ?rm"]) (simp add: f g s1(2) st(1))
qed

text \<open>The second condition is needed: a store of a value whose deletion is queued is answered with success, and the value is
  gone when the worker has run.\<close>

lemma store_lost_to_queued_delete:
  assumes "hash_ok E" and "ht_inv (blake3 E) (ht s)" and "dberr E ''Retrieve'' = None"
    and m: "MessageType m = StoreData" "Sender m = Some n" "trusted E n" "Receiver m \<noteq> None" "Data m = StoreDataRequest d ty"
    and "d \<noteq> []" and v: "lookup (dht_store s) (hex_encode (blake3 E d)) = Some d" and q: "JobQueue (dht_store s) = [Delete (blake3 E d)]"
  shows "\<exists>rm s1 st. handle_request E C N m s = Some (encodeMesage C rm, s1) \<and> Data rm = StoreDataResponse ok_status
    \<and> run_jobs (blake3 E) [(None, t)] (dht_store s1) = Some st \<and> lookup st (hex_encode (blake3 E d)) = None"
proof -
  let ?k = "blake3 E d"
  obtain sa ri where sa: "add_sender E m s = Some (hashed_sender E s n, sa)" "dht_store sa = (dht_store s)\<lparr>replication_info := ri\<rparr>"
    using add_sender_ok[OF assms(1,2) m(2,3)] by blast
  have tb: "lookup (dht_store sa) = lookup (dht_store s)" "JobQueue (dht_store sa) = JobQueue (dht_store s)"
    using lookup_cong[of "dht_store sa" "dht_store s"] sa(2) by simp_all
  obtain r st where rt: "sq_Retrieve (cloudFetch E) None ?k (dht_store sa) = (r, st)" by fastforce
  have r: "r = Inr d" using sq_Retrieve_lookup[of "dht_store sa" ?k d "cloudFetch E"] v assms(9) tb rt by simp
  have js: "JobQueue st = [Delete ?k]" using sq_Retrieve_store[of "dht_store sa" ?k "cloudFetch E"] v assms(9) tb q rt by simp
  let ?s1 = "sa\<lparr>dht_store := st\<rparr>"
  let ?rm = "response_message E StoreData (Some (hashed_sender E s n)) (StoreDataResponse ok_status) ?s1"
  have h: "handle_request E C N m s = Some (encodeMesage C (fst ?rm), snd ?rm)"
    using m sa(1) rt r assms(3,9)
    by (simp add: handle_request_def message_types handleStoreData_def message_String_ok_def Let_def respond_eq)
  obtain st' where "run_jobs (blake3 E) [(None, t)] (dht_store (snd ?rm)) = Some st'"
    "lookup st' = fold (replay (blake3 E)) [Delete ?k] (lookup (dht_store (snd ?rm)))"
    using run_jobs_replay[of "[(None, t)]" "dht_store (snd ?rm)" "blake3 E"] js by auto
  then show ?thesis using h by (intro exI[of _ "fst ?rm"] exI[of _ "snd ?rm"] exI[of _ st']) simp
qed

definition wit_net :: net_env where
  "wit_net = \<lparr>cloudBatch = (\<lambda>_. Inr []), key_order = id, sem_acquired = True\<rparr>"

definition wit_msg :: "int \<Rightarrow> payload \<Rightarrow> message" where
  "wit_msg mt d = \<lparr>Sender = Some (wit_node 1), Receiver = Some (wit_node 9), MessageType = mt, Data = d\<rparr>"

lemma wit_node_trusted: "trusted E (wit_node k)"
  by (simp add: trusted_def wit_node_def mk_node_def)

theorem store_then_find_witness:
  "\<exists>rm s1 st rm' s2. handle_request wit_env (wit_codec 0) wit_net (wit_msg StoreData (StoreDataRequest [5, 6] 0)) wit_dht
        = Some (encodeMesage (wit_codec 0) rm, s1)
    \<and> run_jobs (blake3 wit_env) (replicate (length (JobQueue (dht_store s1))) (None, 3)) (dht_store s1) = Some st
    \<and> handle_request wit_env (wit_codec 0) wit_net (wit_msg FindValue (FindValueRequest (replicate 31 0 @ [5]))) (s1\<lparr>dht_store := st\<rparr>)
        = Some (encodeMesage (wit_codec 0) rm', s2)
    \<and> Data rm' = FindValueResponse ok_status [] [5, 6]"
proof -
  have b: "blake3 wit_env [5, 6] = replicate 31 0 @ [5]" by (simp add: wit_env_def)
  have d: "dberr wit_env x = None" for x by (simp add: wit_env_def)
  have l: "lookup (dht_store wit_dht) x = None" for x by (simp add: wit_dht_def empty_sqlite_def lookup_def)
  show ?thesis
    using store_then_find[OF wit_dht_ok d d, where m = "wit_msg StoreData (StoreDataRequest [5, 6] 0)" and n = "wit_node 1"
        and m' = "wit_msg FindValue (FindValueRequest (replicate 31 0 @ [5]))" and n' = "wit_node 1" and d = "[5, 6]" and t = 3
        and ty = 0 and C = "wit_codec 0" and N = wit_net]
    by (simp add: wit_node_trusted wit_msg_def b l) blast
qed

text \<open>C11. Responses are typed: every request that carries the payload of its type and names its sender
  is answered, if at all, by a message of the same type to that sender with the payload that the
  requester expects, errors included; but a find-value message with another payload is answered
  with a batch-find-values payload, which the requester does not expect.\<close>

theorem responses_typed:
  assumes "Sender m \<noteq> None" and "handle_request E C N m s = Some (r, s')"
  shows "(request_of (MessageType m) (Data m) \<longrightarrow> proper_response C m r)
    \<and> (MessageType m = FindValue \<and> \<not> request_of FindValue (Data m) \<longrightarrow>
         (\<exists>rm. r = encodeMesage C rm \<and> MessageType rm = FindValue
           \<and> Data rm = BatchFindValuesResponse (failed_status ''invalid FindValueRequest'') [] False \<and> \<not> response_of FindValue (Data rm)))"
proof (intro conjI impI)
  assume "request_of (MessageType m) (Data m)"
  then show "proper_response C m r" using handler_proper assms by blast
next
  let ?d = "failed_status ''invalid FindValueRequest''"
  assume a: "MessageType m = FindValue \<and> \<not> request_of FindValue (Data m)"
  then have "handle_request E C N m s = Some (generateResponseMessage E C FindValue (Sender m) ResultFailed ''invalid FindValueRequest'' s)"
    by (auto simp: handle_request_def handleFindValue_def message_types request_of_def split: payload.splits)
  then have "respond E C FindValue (Sender m) (BatchFindValuesResponse ?d [] False) s = (r, s')"
    using assms(2) by (simp add: generateResponseMessage_def failure_payload_def failed_status_def message_types)
  then show "\<exists>rm. r = encodeMesage C rm \<and> MessageType rm = FindValue
      \<and> Data rm = BatchFindValuesResponse (failed_status ''invalid FindValueRequest'') [] False \<and> \<not> response_of FindValue (Data rm)"
    by (intro exI[of _ "fst (response_message E FindValue (Sender m) (BatchFindValuesResponse ?d [] False) s)"])
       (auto simp: respond_eq response_of_def message_types)
qed

theorem responses_typed_witness:
  "proper_response (wit_codec 0) (wit_msg Ping NoData) (fst (the (handle_request wit_env (wit_codec 0) wit_net (wit_msg Ping NoData) wit_dht)))"
proof -
  obtain r s' where "handle_request wit_env (wit_codec 0) wit_net (wit_msg Ping NoData) wit_dht = Some (r, s')"
    by (cases "respond wit_env (wit_codec 0) Ping (Some (wit_node 1)) NoData wit_dht")
       (auto simp: handle_request_def handlePing_def wit_msg_def message_types)
  then show ?thesis
    using responses_typed[of "wit_msg Ping NoData" wit_env "wit_codec 0" wit_net wit_dht r s']
    by (simp add: wit_msg_def request_of_def)
qed

text \<open>A message without a sender takes the server down: for every type of request but ping and
  batch-find-values, the handler dereferences the missing sender, the panic is not recovered, and
  no bytes that follow matter.\<close>

theorem nil_sender_crashes:
  assumes "\<And>m buf. gob C m = Inr buf \<Longrightarrow> ungob C buf = Inr m" and "encode (gob C) m = Inr e"
    and "Sender m = None" and "request_of (MessageType m) (Data m)" and "MessageType m \<notin> {Ping, BatchFindValues}"
  shows "handleConn E C N True (\<lambda>_. False) wfails (e @ rest) s = None"
proof -
  have "handle_request E C N m s = None"
    using assms(3-5) by (cases "Data m")
      (auto simp: request_of_def handler_defs message_types add_sender_def message_String_ok_def)
  moreover have "decode (ungob C) (e @ rest) = Inr (m, rest)" by (rule decode_encoded[OF assms(1,2)])
  ultimately show ?thesis by (simp add: handleConn_def serve_requests.simps)
qed

definition crash_msg :: message where
  "crash_msg = \<lparr>Sender = None, Receiver = None, MessageType = FindNode, Data = FindNodeRequest [1]\<rparr>"

theorem nil_sender_crashes_witness:
  "handleConn wit_env ((wit_codec 0)\<lparr>gob := (\<lambda>m. if m = crash_msg then Inr [7] else Inl ''gob''), ungob := (\<lambda>b. Inr crash_msg)\<rparr>)
     wit_net True (\<lambda>_. False) (\<lambda>_. False) ([1,0,0,0,0,0,0,0,7] @ [3]) wit_dht = None"
proof (rule nil_sender_crashes[where m = crash_msg])
  have "put_uvarint8 1 = [1,0,0,0,0,0,0,0]" by code_simp
  then show "encode (gob ((wit_codec 0)\<lparr>gob := (\<lambda>m. if m = crash_msg then Inr [7] else Inl ''gob''), ungob := (\<lambda>b. Inr crash_msg)\<rparr>)) crash_msg
      = Inr [1,0,0,0,0,0,0,0,7]"
    by (simp add: encode_def BytesIntToMB_def defaultMaxPayloadSize_def)
qed (auto simp: crash_msg_def request_of_def message_types split: if_splits)

text \<open>A call cleans up only after some failures.  Over a pooled connection, a call whose answer
  cannot be read closes the connection and forgets it; a call whose write fails leaves the broken
  connection in the pool, open and with a fresh access time, so the next call to the same node
  uses it again; a call that succeeds returns the decoded answer and keeps the connection.\<close>

theorem Call_pool:
  fixes pool :: "'c conn_pool"
  assumes "Receiver request = Some n" and "Port n \<noteq> 50052" and "\<forall>x. Sender request = Some x \<longrightarrow> Port x \<noteq> 50052"
    and "clientTC W" and "map_of (conns pool) (remote_addr n) = Some item"
    and "set_deadline W (conn item) (clock1 W + getExecTimeout (MessageType request) isLong) = None"
    and "encode (gob C) request = Inr d" and "Call W C request isLong pool = Some (r, pool')"
  shows "case write_conn W (conn item) d of
      Some e \<Rightarrow> isl r \<and> map_of (conns pool') (remote_addr n) = Some (item\<lparr>lastAccess := clock0 W\<rparr>)
        \<and> closed pool' = closed pool \<and> fst (pool_Get t (remote_addr n) pool') = Inr (conn item)
    | None \<Rightarrow>
       (case decode (ungob C) (incoming W (conn item)) of
          Inl e \<Rightarrow> isl r \<and> map_of (conns pool') (remote_addr n) = None \<and> closed pool' = closed pool @ [conn item]
        | Inr (a, rest) \<Rightarrow> r = Inr a \<and> map_of (conns pool') (remote_addr n) = Some (item\<lparr>lastAccess := clock0 W\<rparr>)
            \<and> closed pool' = closed pool)"
proof -
  let ?p = "pool\<lparr>conns := alist_update (remote_addr n) (item\<lparr>lastAccess := clock0 W\<rparr>) (conns pool)\<rparr>"
  have "(case Sender request of Some x \<Rightarrow> Port x = 50052 | None \<Rightarrow> False) = False"
    using assms(3) by (simp split: option.splits)
  then have "Call W C request isLong pool =
     (case write_conn W (conn item) d of
        Some e \<Rightarrow> Some (errorf (''conn write: '' @ e), ?p)
      | None \<Rightarrow> (case decode (ungob C) (incoming W (conn item)) of
           Inl e \<Rightarrow> Some (errorf (''conn read: '' @ e), drop_conn (remote_addr n) (conn item) ?p)
         | Inr (response, rest) \<Rightarrow> Some (Inr response, ?p)))"
    using assms(1,2,4-7) by (simp add: Call_def pool_Get_def Let_def)
  then show ?thesis using assms(8)
    by (auto simp: map_of_alist_update map_of_alist_delete drop_conn_def pool_Del_def pool_Get_def split: option.splits sum.splits)
qed

definition wit_call :: "nat call_env" where
  "wit_call = \<lparr>clientTC = True, dial = (\<lambda>a. Inr 1), set_deadline = (\<lambda>c t. None), write_conn = (\<lambda>c d. Some ''broken pipe''),
     incoming = (\<lambda>c. []), map_order = id, clock0 = 50, clock1 = 51\<rparr>"

theorem Call_pool_witness:
  "\<exists>r pool'. Call wit_call ((wit_codec 0)\<lparr>gob := (\<lambda>m. Inr [7])\<rparr>) (wit_msg Ping NoData) False
       \<lparr>capacity = 4, conns = [(remote_addr (wit_node 9), \<lparr>lastAccess = 2, conn = 77\<rparr>)], closed = []\<rparr> = Some (r, pool')
     \<and> fst (pool_Get 60 (remote_addr (wit_node 9)) pool') = Inr 77 \<and> closed pool' = []"
proof -
  let ?C = "(wit_codec 0)\<lparr>gob := (\<lambda>m. Inr [7])\<rparr>" and ?m = "wit_msg Ping NoData"
  let ?p = "\<lparr>capacity = 4, conns = [(remote_addr (wit_node 9), \<lparr>lastAccess = 2, conn = 77\<rparr>)], closed = []\<rparr>"
  have m: "Receiver ?m = Some (wit_node 9)" "Port (wit_node 9) \<noteq> 50052" "\<forall>x. Sender ?m = Some x \<longrightarrow> Port x \<noteq> 50052"
    by (simp_all add: wit_msg_def wit_node_def mk_node_def)
  have w: "clientTC wit_call" "map_of (conns ?p) (remote_addr (wit_node 9)) = Some \<lparr>lastAccess = 2, conn = 77\<rparr>"
    "write_conn wit_call x y = Some ''broken pipe''" "set_deadline wit_call x z = None" for x y z
    by (simp_all add: wit_call_def)
  have e: "encode (gob ?C) ?m = Inr (put_uvarint8 1 @ [7])"
    by (simp add: encode_def BytesIntToMB_def defaultMaxPayloadSize_def)
  obtain r pool' where c: "Call wit_call ?C ?m False ?p = Some (r, pool')"
    by (simp add: Call_def Let_def pool_Get_def wit_call_def wit_msg_def wit_node_def mk_node_def encode_def
        BytesIntToMB_def defaultMaxPayloadSize_def)
  from Call_pool[OF m w(1,2) _ e c, of 60] w c show ?thesis by auto
qed

end
