(* ===== verification/Fetch_Store.thy ===== *)
theory Fetch_Store
  imports Network
begin

text \<open>
  Fetching the values of the keys on the replication to-do list
  (\<^verbatim>\<open>p2p/kademlia/fetch_and_store.go\<close>): a first tier asks the node that announced the key, in
  batches; a second tier asks other close nodes for keys that failed; a third tier fetches key by
  key and falls back to a lookup.  The number of tries within the retry time is the argument
  \<open>tries\<close>; the order of Go maps comes from \<open>codec\<close> and \<open>net_env\<close>.
\<close>

section \<open>Constants\<close>

definition maxBatchAttempts :: int where "maxBatchAttempts = 1"
definition totalMaxAttempts :: int where "totalMaxAttempts = 20"
definition maxSingleBatchIterations :: nat where "maxSingleBatchIterations = 10"
definition failedKeysClosestContactsLookupCount :: nat where "failedKeysClosestContactsLookupCount = 12"
definition fetchBatchSize :: nat where "fetchBatchSize = 400"

lemmas fetch_consts = maxBatchAttempts_def totalMaxAttempts_def maxSingleBatchIterations_def
  failedKeysClosestContactsLookupCount_def fetchBatchSize_def

section \<open>One batch from one node\<close>

definition verified :: "(bytes \<Rightarrow> bytes) \<Rightarrow> string \<times> bytes \<Rightarrow> bool" where
  "verified H e = (case e of (key, v) \<Rightarrow> length v \<noteq> 0 \<and> hex_encode (H v) = key)"

definition VerifyAndFilter :: "(bytes \<Rightarrow> bytes) \<Rightarrow> data_map \<Rightarrow> data_map \<times> string list" where
  "VerifyAndFilter H decompressedMap =
     (filter (verified H) decompressedMap, map fst (filter (\<lambda>e. \<not> verified H e) decompressedMap))"

text \<open>The retried operation; an error text that prints a response without sender or receiver
  dereferences nil.\<close>

fun batch_attempts :: "env \<Rightarrow> nat \<Rightarrow> message \<Rightarrow> dht \<Rightarrow> (message option \<times> dht) option" where
  "batch_attempts E 0 request s = Some (None, s)"
| "batch_attempts E (Suc k) request s = (
     let (rsp, s1) = net_call E request s in
     case rsp of
       Inl _ \<Rightarrow> batch_attempts E k request s1
     | Inr m \<Rightarrow>
         (case Data m of
            BatchFindValuesResponse st d dn \<Rightarrow>
              if Result st = ResultOk then Some (Some m, s1)
              else if Result st = ResultFailed then
                (if ErrMsg st = ''Busy'' \<or> message_String_ok m then batch_attempts E k request s1 else None)
              else Some (Some m, s1)
          | _ \<Rightarrow> if message_String_ok m then batch_attempts E k request s1 else None))"

definition GetBatchValuesFromNode ::
  "env \<Rightarrow> codec \<Rightarrow> nat \<Rightarrow> string list \<Rightarrow> node \<Rightarrow> dht \<Rightarrow> ((bool \<times> data_map \<times> string list) result \<times> dht) option" where
  "GetBatchValuesFromNode E C tries keys n s = (
     let (request, s1) = newMessage E BatchFindValues n (BatchFindValuesRequest keys) s in
     Option.bind (batch_attempts E tries request s1) (\<lambda>(response, s2).
     case response of
       None \<Rightarrow> Some (errorf ''network call request failed'', s2)
     | Some m \<Rightarrow>
         (case Data m of
            BatchFindValuesResponse st d dn \<Rightarrow>
              if Result st = ResultOk then
                (case unzstd C d of
                   Inl e \<Rightarrow> Some (errorf (''failed to decompress data: '' @ e), s2)
                 | Inr decompressedData \<Rightarrow>
                     (case json_unmarshal C decompressedData of
                        Inl e \<Rightarrow> Some (errorf (''failed to unmarshal data: '' @ e), s2)
                      | Inr decompressedMap \<Rightarrow>
                          let (retMap, failedKeys) = VerifyAndFilter (blake3 E) decompressedMap
                          in Some (Inr (dn, retMap, failedKeys), s2)))
              else if message_String_ok m then Some (errorf ''batch get request failure'', s2) else None
          | _ \<Rightarrow> if message_String_ok m then Some (errorf ''batch get request failure'', s2) else None)))"

section \<open>Batches of one node, and all nodes\<close>

text \<open>Storing what was found and taking it off the to-do list; \<open>False\<close> when a step failed.\<close>

definition store_found :: "env \<Rightarrow> int \<Rightarrow> bool \<Rightarrow> data_map \<Rightarrow> dht \<Rightarrow> bool \<times> dht" where
  "store_found E ty orig found s =
     (if found = [] then (True, s)
      else case sq_StoreBatch (dberr E ''StoreBatchCtx'') (map snd found) ty orig (dht_store s) of
             (Some e, st) \<Rightarrow> (False, s\<lparr>dht_store := st\<rparr>)
           | (None, st) \<Rightarrow>
               (case BatchDeleteRepKeys (dberr E ''BatchDeleteRepKeys'') (map fst found) st of
                  (Some e, st') \<Rightarrow> (False, s\<lparr>dht_store := st'\<rparr>)
                | (None, st') \<Rightarrow> (True, s\<lparr>dht_store := st'\<rparr>)))"

text \<open>The loop over one batch; \<open>left\<close> counts the iterations left.  When the node is done but some
  keys failed, the keys stay as they are and the next iteration asks for all of them again.\<close>

fun fetch_loop :: "env \<Rightarrow> codec \<Rightarrow> nat \<Rightarrow> nat \<Rightarrow> node \<Rightarrow> int \<Rightarrow> bool \<Rightarrow> string list \<Rightarrow> dht \<Rightarrow> dht option" where
  "fetch_loop E C tries 0 n ty orig stringKeys s = Some s"
| "fetch_loop E C tries (Suc left) n ty orig stringKeys s =
     (if stringKeys = [] then Some s
      else Option.bind (GetBatchValuesFromNode E C tries stringKeys n s) (\<lambda>(r, s1).
        case r of
          Inl e \<Rightarrow> fetch_loop E C tries left n ty orig stringKeys s1
        | Inr (isDone, retMap, failedKeys) \<Rightarrow>
            let found = filter (\<lambda>(k, v). length v > 0) (map_iter C left retMap);
                (ok, s2) = store_found E ty orig found s1
            in if \<not> ok then fetch_loop E C tries left n ty orig stringKeys s2
               else if isDone \<and> failedKeys \<noteq> [] then
                 fetch_loop E C tries left n ty orig stringKeys
                   (s2\<lparr>dht_store := snd (IncrementAttempts (dberr E ''IncrementAttempts'') failedKeys (dht_store s2))\<rparr>)
               else if isDone then Some s2
               else fetch_loop E C tries left n ty orig failedKeys s2))"

function fetch_batches :: "env \<Rightarrow> codec \<Rightarrow> nat \<Rightarrow> node \<Rightarrow> int \<Rightarrow> bool \<Rightarrow> string list \<Rightarrow> dht \<Rightarrow> dht option" where
  "fetch_batches E C tries n ty orig repKeyList s =
     (if repKeyList = [] then Some s
      else Option.bind (fetch_loop E C tries maxSingleBatchIterations n ty orig (take fetchBatchSize repKeyList) s)
             (fetch_batches E C tries n ty orig (drop fetchBatchSize repKeyList)))"
  by pat_completeness auto
termination
  by (relation "measure (\<lambda>(E, C, tries, n, ty, orig, ks, s). length ks)") (auto simp: fetchBatchSize_def)

declare fetch_batches.simps [simp del]

definition rep_key_node :: "to_rep_key \<Rightarrow> node" where
  "rep_key_node r = mk_node (bytes_of_str (rk_id r)) (rk_ip r) (rk_port r)"

definition group_keys :: "(string \<times> to_rep_key) list \<Rightarrow> (string \<times> string list) list" where
  "group_keys repKeys = fold (\<lambda>(k, r) m. let nodeKey = generateKeyFromNode (rep_key_node r) in
     alist_update nodeKey ((case map_of m nodeKey of None \<Rightarrow> [] | Some ks \<Rightarrow> ks) @ [k]) m) repKeys []"

fun fetch_groups ::
  "env \<Rightarrow> codec \<Rightarrow> nat \<Rightarrow> int \<Rightarrow> bool \<Rightarrow> (string \<Rightarrow> string list) \<Rightarrow> string list \<Rightarrow> dht \<Rightarrow> (string option \<times> dht) option" where
  "fetch_groups E C tries ty orig groups [] s = Some (None, s)"
| "fetch_groups E C tries ty orig groups (nodeKey # rest) s =
     (case getNodeFromKey nodeKey of
        Inl e \<Rightarrow> Some (Some (''invalid nodeKey '' @ nodeKey @ '': '' @ e), s)
      | Inr n \<Rightarrow> Option.bind (fetch_batches E C tries n ty orig (groups nodeKey) s)
                 (fetch_groups E C tries ty orig groups rest))"

definition GroupAndBatchFetch ::
  "env \<Rightarrow> codec \<Rightarrow> net_env \<Rightarrow> nat \<Rightarrow> (string \<times> to_rep_key) list \<Rightarrow> int \<Rightarrow> bool \<Rightarrow> dht \<Rightarrow> (string option \<times> dht) option" where
  "GroupAndBatchFetch E C N tries repKeys ty orig s = (
     let nodeMap = group_keys repKeys in
     fetch_groups E C tries ty orig (\<lambda>k. case map_of nodeMap k of None \<Rightarrow> [] | Some ks \<Rightarrow> ks)
       (key_order N (map fst nodeMap)) s)"

section \<open>The three tiers\<close>

definition BatchFetchAndStore :: "env \<Rightarrow> codec \<Rightarrow> net_env \<Rightarrow> nat \<Rightarrow> dht \<Rightarrow> (string option \<times> dht) option" where
  "BatchFetchAndStore E C N tries s =
     (case GetAllToDoRepKeys (dberr E ''GetAllToDoRepKeys'') 0 maxBatchAttempts (dht_store s) of
        Inl e \<Rightarrow> Some (Some (''get all keys error: '' @ e), s)
      | Inr keys \<Rightarrow>
          if keys = [] then Some (None, s)
          else map_option (\<lambda>(e, s1). (map_option (\<lambda>x. ''group and batch fetch error: '' @ x) e, s1))
                 (GroupAndBatchFetch E C N tries keys 0 False s))"

text \<open>The keys of the second tier, each redirected to the node whose place among the closest ones
  is its number of attempts.\<close>

definition second_tier :: "dht \<Rightarrow> (string \<times> to_rep_key) list \<Rightarrow> (string \<times> to_rep_key) list" where
  "second_tier s keys = List.map_filter (\<lambda>(k, r).
     case hex_decode k of
       None \<Rightarrow> None
     | Some sKey \<Rightarrow>
         let nodes = nl_Nodes (fst (closestContacts failedKeysClosestContactsLookupCount sKey (ToNodeList (ignorelist s)) (ht s)));
             attempt = (rk_attempts r - maxBatchAttempts) + 1
         in if int (length nodes) > attempt
            then let n = nodes ! nat attempt in
              Some (k, \<lparr>rk_id = str_of_bytes (ID n), rk_ip = IP n, rk_port = Port n, rk_attempts = 0, rk_updatedAt = zero_time\<rparr>)
            else None) keys"

definition BatchFetchAndStoreFailedKeys :: "env \<Rightarrow> codec \<Rightarrow> net_env \<Rightarrow> nat \<Rightarrow> dht \<Rightarrow> (string option \<times> dht) option" where
  "BatchFetchAndStoreFailedKeys E C N tries s =
     (case GetAllToDoRepKeys (dberr E ''GetAllToDoRepKeys'') (maxBatchAttempts + 1)
             (int failedKeysClosestContactsLookupCount + maxBatchAttempts + 1) (dht_store s) of
        Inl e \<Rightarrow> Some (Some (''get all keys error: '' @ e), s)
      | Inr keys \<Rightarrow>
          if keys = [] then Some (None, s)
          else map_option (\<lambda>(e, s1). (map_option (\<lambda>x. ''group and batch fetch failed keys error: '' @ x) e, s1))
                 (GroupAndBatchFetch E C N tries (second_tier s keys) 0 False s))"

fun value_attempts :: "env \<Rightarrow> nat \<Rightarrow> bytes \<Rightarrow> node \<Rightarrow> dht \<Rightarrow> bytes result \<times> dht" where
  "value_attempts E 0 key n s = GetValueFromNode E key n s"
| "value_attempts E (Suc k) key n s =
     (case GetValueFromNode E key n s of (Inr v, s1) \<Rightarrow> (Inr v, s1) | (Inl e, s1) \<Rightarrow> value_attempts E k key n s1)"

text \<open>One key of \<^verbatim>\<open>FetchAndStore\<close>: up to ten retries at its node, then a lookup.\<close>

definition fetch_one :: "env \<Rightarrow> string \<times> to_rep_key \<Rightarrow> dht \<Rightarrow> dht option" where
  "fetch_one E info s =
     (case hex_decode (fst info) of
        None \<Rightarrow> Some s
      | Some sKey \<Rightarrow>
          let (r, s1) = value_attempts E 10 sKey (rep_key_node (snd info)) s in
          Option.bind (case r of Inr v \<Rightarrow> Some (v, s1) | Inl e \<Rightarrow> iterateFindValue E sKey s1) (\<lambda>(v, s2).
          if isl r \<and> length v = 0 then Some s2
          else case sq_Store (dberr E ''StoreCtx'') sKey v 0 False (dht_store s2) of
                 (Some e, st) \<Rightarrow> Some (s2\<lparr>dht_store := st\<rparr>)
               | (None, st) \<Rightarrow> Some (s2\<lparr>dht_store := snd (DeleteRepKey (dberr E ''DeleteRepKey'') (fst info) st)\<rparr>)))"

fun fetch_each :: "env \<Rightarrow> (string \<times> to_rep_key) list \<Rightarrow> dht \<Rightarrow> dht option" where
  "fetch_each E [] s = Some s"
| "fetch_each E (info # rest) s = Option.bind (fetch_one E info s) (fetch_each E rest)"

definition FetchAndStore :: "env \<Rightarrow> dht \<Rightarrow> (string option \<times> dht) option" where
  "FetchAndStore E s =
     (case GetAllToDoRepKeys (dberr E ''GetAllToDoRepKeys'')
             (int failedKeysClosestContactsLookupCount + maxBatchAttempts + 1) totalMaxAttempts (dht_store s) of
        Inl e \<Rightarrow> Some (Some (''get all keys error: '' @ e), s)
      | Inr keys \<Rightarrow> if keys = [] then Some (None, s) else map_option (\<lambda>s1. (None, s1)) (fetch_each E keys s))"

section \<open>Lemmas\<close>

abbreviation todo :: "sqlite_store \<Rightarrow> string set" where
  "todo st \<equiv> fst ` set (replication_keys st)"

text \<open>From \<open>st0\<close> to \<open>st\<close> only batch inserts of non-empty values were queued, the table is unchanged,
  and every key that left the to-do list is the hash of a value that was queued.\<close>

definition is_fetch_job :: "job \<Rightarrow> bool" where
  "is_fetch_job j = (case j of BatchInsert vs ty orig \<Rightarrow> [] \<notin> set vs | _ \<Rightarrow> False)"

definition job_values :: "job \<Rightarrow> bytes set" where
  "job_values j = (case j of BatchInsert vs ty orig \<Rightarrow> set vs | _ \<Rightarrow> {})"

definition fetched :: "(bytes \<Rightarrow> bytes) \<Rightarrow> sqlite_store \<Rightarrow> sqlite_store \<Rightarrow> bool" where
  "fetched H st0 st \<longleftrightarrow> data_tbl st = data_tbl st0 \<and> todo st \<subseteq> todo st0 \<and>
     (\<exists>js. JobQueue st = JobQueue st0 @ js \<and> list_all is_fetch_job js \<and>
       todo st0 - todo st \<subseteq> (hex_encode \<circ> H) ` (\<Union>j\<in>set js. job_values j))"

lemma fetchedI:
  assumes "data_tbl st = data_tbl st0" and "todo st \<subseteq> todo st0" and "JobQueue st = JobQueue st0 @ js"
    and "list_all is_fetch_job js" and "todo st0 - todo st \<subseteq> (hex_encode \<circ> H) ` (\<Union>j\<in>set js. job_values j)"
  shows "fetched H st0 st"
  unfolding fetched_def using assms by blast

lemma fetched_refl: "fetched H st st"
  by (simp add: fetched_def)

lemma fetched_same:
  "data_tbl st = data_tbl st0 \<Longrightarrow> todo st = todo st0 \<Longrightarrow> JobQueue st = JobQueue st0 \<Longrightarrow> fetched H st0 st"
  by (simp add: fetched_def)

lemma fetched_trans:
  assumes "fetched H a b" and "fetched H b c"
  shows "fetched H a c"
proof -
  from assms obtain js ks where j: "JobQueue b = JobQueue a @ js" "list_all is_fetch_job js"
      "todo a - todo b \<subseteq> (hex_encode \<circ> H) ` (\<Union>j\<in>set js. job_values j)"
    and k: "JobQueue c = JobQueue b @ ks" "list_all is_fetch_job ks"
      "todo b - todo c \<subseteq> (hex_encode \<circ> H) ` (\<Union>j\<in>set ks. job_values j)"
    by (auto simp: fetched_def)
  have "todo a - todo c \<subseteq> (todo a - todo b) \<union> (todo b - todo c)" by blast
  also have "\<dots> \<subseteq> (hex_encode \<circ> H) ` (\<Union>j\<in>set (js @ ks). job_values j)"
    using Un_mono[OF j(3) k(3)] by (simp only: set_append image_Un Union_Un_distrib)
  finally have d: "todo a - todo c \<subseteq> (hex_encode \<circ> H) ` (\<Union>j\<in>set (js @ ks). job_values j)" .
  have t: "data_tbl c = data_tbl a" "todo c \<subseteq> todo a" using assms unfolding fetched_def by (simp, blast)
  show ?thesis by (rule fetchedI[OF t _ _ d]) (use j(1,2) k(1,2) in simp_all)
qed

lemma batch_attempts_store:
  "batch_attempts E k request s = Some (r, s') \<Longrightarrow> dht_store s' = dht_store s"
proof (induction k arbitrary: s)
  case (Suc k)
  obtain rsp s1 where n: "net_call E request s = (rsp, s1)" by fastforce
  then have "dht_store s1 = dht_store s" using net_call_frame(4)[of E request s] by simp
  with n Suc show ?case by (auto split: sum.splits payload.splits if_splits)
qed simp

lemma GetBatchValuesFromNode_ok:
  assumes "GetBatchValuesFromNode E C tries keys n s = Some (r, s')"
  shows "dht_store s' = dht_store s \<and> (\<forall>dn m fl. r = Inr (dn, m, fl) \<longrightarrow> list_all (verified (blake3 E)) m)"
proof -
  obtain rq s1 where n: "newMessage E BatchFindValues n (BatchFindValuesRequest keys) s = (rq, s1)" by fastforce
  then have "dht_store s1 = dht_store s" using newMessage_frame(4)[of E BatchFindValues n "BatchFindValuesRequest keys" s] by simp
  with n assms show ?thesis
    by (auto simp: GetBatchValuesFromNode_def Let_def VerifyAndFilter_def list_all_iff dest!: batch_attempts_store
        split: bind_splits option.splits payload.splits if_splits sum.splits)
qed

lemma BatchDeleteRepKeys_frame:
  "data_tbl (snd (BatchDeleteRepKeys e ks st)) = data_tbl st \<and> JobQueue (snd (BatchDeleteRepKeys e ks st)) = JobQueue st
   \<and> todo (snd (BatchDeleteRepKeys e ks st)) \<subseteq> todo st \<and> todo st - todo (snd (BatchDeleteRepKeys e ks st)) \<subseteq> set ks"
  by (force simp: BatchDeleteRepKeys_def split: option.splits)

lemma IncrementAttempts_fetched: "fetched H st (snd (IncrementAttempts e ks st))"
proof -
  have "fst ` set (update_row P f tbl) = fst ` set tbl" for P and f :: "to_rep_key \<Rightarrow> to_rep_key" and tbl :: "(string \<times> to_rep_key) list"
    by (force simp: update_row_def image_image intro!: image_cong)
  then show ?thesis by (intro fetched_same) (auto simp: IncrementAttempts_def split: option.splits)
qed

lemma store_found_fetched:
  assumes "list_all (verified (blake3 E)) found"
  shows "fetched (blake3 E) (dht_store s) (dht_store (snd (store_found E ty orig found s)))"
proof (cases "found = [] \<or> dberr E ''StoreBatchCtx'' \<noteq> None")
  case True
  then show ?thesis by (auto simp: store_found_def sq_StoreBatch_def enqueue_def fetched_refl)
next
  case False
  let ?j = "BatchInsert (map snd found) ty orig"
  let ?st = "(dht_store s)\<lparr>JobQueue := JobQueue (dht_store s) @ [?j]\<rparr>"
  let ?st' = "snd (BatchDeleteRepKeys (dberr E ''BatchDeleteRepKeys'') (map fst found) ?st)"
  have s': "dht_store (snd (store_found E ty orig found s)) = ?st'"
    using False by (simp add: store_found_def sq_StoreBatch_def enqueue_def split: prod.split option.split)
  have j: "is_fetch_job ?j" using assms by (auto simp: is_fetch_job_def list_all_iff verified_def)
  have h: "set (map fst found) \<subseteq> (hex_encode \<circ> blake3 E) ` job_values ?j"
    using assms by (force simp: job_values_def list_all_iff verified_def)
  note b = BatchDeleteRepKeys_frame[of "dberr E ''BatchDeleteRepKeys''" "map fst found" ?st, THEN conjunct2, THEN conjunct2, THEN conjunct2]
  have d: "todo (dht_store s) - todo ?st' \<subseteq> (hex_encode \<circ> blake3 E) ` (\<Union>j\<in>set [?j]. job_values j)"
    using subset_trans[OF b h] by simp
  show ?thesis unfolding s'
    by (rule fetchedI[OF _ _ _ _ d])
       (use j BatchDeleteRepKeys_frame[of "dberr E ''BatchDeleteRepKeys''" "map fst found" ?st] in simp_all)
qed

lemma fetch_loop_fetched:
  assumes "perm_iter C"
  shows "fetch_loop E C tries left n ty orig keys s = Some s' \<Longrightarrow> fetched (blake3 E) (dht_store s) (dht_store s')"
proof (induction left arbitrary: keys s)
  case 0
  then show ?case by (simp add: fetched_refl)
next
  case (Suc left)
  show ?case
  proof (cases "keys = []")
    case True
    with Suc.prems show ?thesis by (simp add: fetched_refl)
  next
    case False
    then obtain r s1 where g: "GetBatchValuesFromNode E C tries keys n s = Some (r, s1)"
      using Suc.prems by (auto split: bind_splits)
    have s1: "dht_store s1 = dht_store s" using GetBatchValuesFromNode_ok[OF g] by simp
    show ?thesis
    proof (cases r)
      case (Inl e)
      then show ?thesis using Suc False g s1 by fastforce
    next
      case (Inr p)
      obtain dn m fl where p: "p = (dn, m, fl)" by (cases p)
      let ?found = "filter (\<lambda>(k, v). length v > 0) (map_iter C left m)"
      have "set (map_iter C left m) = set m" using assms by (metis perm_iter_def set_mset_mset)
      then have "list_all (verified (blake3 E)) ?found"
        using GetBatchValuesFromNode_ok[OF g] Inr p by (auto simp: list_all_iff)
      then have f: "fetched (blake3 E) (dht_store s) (dht_store (snd (store_found E ty orig ?found s1)))"
        using store_found_fetched[of E ?found s1] s1 by simp
      obtain ok s2 where s2: "store_found E ty orig ?found s1 = (ok, s2)" by fastforce
      define s3 where "s3 = s2\<lparr>dht_store := snd (IncrementAttempts (dberr E ''IncrementAttempts'') fl (dht_store s2))\<rparr>"
      have f2: "fetched (blake3 E) (dht_store s) (dht_store s2)" using f s2 by simp
      have f3: "fetched (blake3 E) (dht_store s) (dht_store s3)"
        using fetched_trans[OF f2 IncrementAttempts_fetched] by (simp add: s3_def)
      have "s' = s2 \<or> (\<exists>ks. fetch_loop E C tries left n ty orig ks s2 = Some s') \<or> fetch_loop E C tries left n ty orig keys s3 = Some s'"
        using Suc.prems False g Inr p s2 by (auto simp: s3_def split: if_splits)
      then show ?thesis using f2 f3 Suc.IH fetched_trans by blast
    qed
  qed
qed

lemma fetch_batches_fetched:
  "fetch_batches E C tries n ty orig ks s = Some s' \<Longrightarrow> perm_iter C \<Longrightarrow> fetched (blake3 E) (dht_store s) (dht_store s')"
proof (induction E C tries n ty orig ks s rule: fetch_batches.induct)
  case (1 E C tries n ty orig ks s)
  show ?case
  proof (cases "ks = []")
    case True
    with 1(2) show ?thesis by (simp add: fetch_batches.simps[of _ _ _ _ _ _ "[]"] fetched_refl)
  next
    case False
    with 1(2) obtain x where x: "fetch_loop E C tries maxSingleBatchIterations n ty orig (take fetchBatchSize ks) s = Some x"
        "fetch_batches E C tries n ty orig (drop fetchBatchSize ks) x = Some s'"
      by (auto simp: fetch_batches.simps[of E C tries n ty orig ks s] split: bind_splits)
    show ?thesis using fetched_trans[OF fetch_loop_fetched[OF 1(3) x(1)] 1(1)[OF False x 1(3)]] .
  qed
qed

lemma fetch_groups_fetched:
  "fetch_groups E C tries ty orig g ks s = Some (e, s') \<Longrightarrow> perm_iter C \<Longrightarrow> fetched (blake3 E) (dht_store s) (dht_store s')"
proof (induction ks arbitrary: s)
  case (Cons k ks)
  show ?case
  proof (cases "getNodeFromKey k")
    case (Inl e')
    with Cons.prems show ?thesis by (auto simp: fetched_refl)
  next
    case (Inr n)
    with Cons.prems obtain x where x: "fetch_batches E C tries n ty orig (g k) s = Some x"
        "fetch_groups E C tries ty orig g ks x = Some (e, s')" by (auto split: bind_splits)
    show ?thesis using fetched_trans[OF fetch_batches_fetched[OF x(1) Cons.prems(2)] Cons.IH[OF x(2) Cons.prems(2)]] .
  qed
qed (simp add: fetched_refl)

text \<open>Replaying fetch jobs leaves, under the hash of each queued value, a value of that hash.\<close>

definition holds_hash :: "(bytes \<Rightarrow> bytes) \<Rightarrow> (string \<rightharpoonup> bytes) \<Rightarrow> string \<Rightarrow> bool" where
  "holds_hash H m k \<longleftrightarrow> (\<exists>v. m k = Some v \<and> v \<noteq> [] \<and> hex_encode (H v) = k)"

lemma fold_inserts_hash:
  "[] \<notin> set vs \<Longrightarrow> holds_hash H m k \<or> k \<in> (hex_encode \<circ> H) ` set vs \<Longrightarrow>
   holds_hash H (fold (\<lambda>v m. m(hex_encode (H v) \<mapsto> v)) vs m) k"
proof (induction vs arbitrary: m)
  case (Cons v vs)
  have "holds_hash H (m(hex_encode (H v) \<mapsto> v)) k \<or> k \<in> (hex_encode \<circ> H) ` set vs"
    using Cons.prems by (auto simp: holds_hash_def)
  moreover have "[] \<notin> set vs" using Cons.prems(1) by simp
  ultimately show ?case unfolding fold_simps by (intro Cons.IH)
qed simp

lemma replay_fetch_jobs:
  "list_all is_fetch_job js \<Longrightarrow> holds_hash H m k \<or> k \<in> (hex_encode \<circ> H) ` (\<Union>j\<in>set js. job_values j) \<Longrightarrow>
   holds_hash H (fold (replay H) js m) k"
proof (induction js arbitrary: m)
  case (Cons j js)
  obtain vs ty orig where j: "j = BatchInsert vs ty orig" "[] \<notin> set vs"
    using Cons.prems(1) by (cases j) (auto simp: is_fetch_job_def)
  have "holds_hash H (replay H j m) k \<or> k \<in> (hex_encode \<circ> H) ` (\<Union>j\<in>set js. job_values j)"
    using Cons.prems(2) fold_inserts_hash[OF j(2), of H m k] j(1) by (auto simp: job_values_def)
  with Cons.IH[of "replay H j m"] Cons.prems(1) show ?case by simp
qed simp

section \<open>Properties\<close>

text \<open>C8. A key leaves the replication to-do list only for a verified value: whatever the other nodes answer, once a batch
  fetch has returned, no key was added to the list, and for every key that is no longer on it a job to insert a non-empty
  value whose hash is the key was queued during the fetch.  If the queued jobs succeed, the worker leaves each of these
  keys in the table with such a value.  (An insert that fails is only logged, and its keys are off the list.)\<close>

theorem fetched_keys_verified:
  assumes "perm_iter C" and "GroupAndBatchFetch E C N tries repKeys ty orig s = Some (e, s')"
  shows "todo (dht_store s') \<subseteq> todo (dht_store s) \<and>
    (\<exists>js. JobQueue (dht_store s') = JobQueue (dht_store s) @ js \<and>
      (\<forall>k \<in> todo (dht_store s) - todo (dht_store s').
         \<exists>vs ty orig v. BatchInsert vs ty orig \<in> set js \<and> v \<in> set vs \<and> v \<noteq> [] \<and> hex_encode (blake3 E v) = k)) \<and>
    (list_all (\<lambda>(e, t). e = None) outs \<and> length outs = length (JobQueue (dht_store s')) \<longrightarrow>
      (\<exists>st. run_jobs (blake3 E) outs (dht_store s') = Some st \<and>
        (\<forall>k \<in> todo (dht_store s) - todo (dht_store s').
           \<exists>v. lookup st k = Some v \<and> v \<noteq> [] \<and> hex_encode (blake3 E v) = k)))"
proof -
  have "fetched (blake3 E) (dht_store s) (dht_store s')"
    using assms(2) fetch_groups_fetched[OF _ assms(1)] by (auto simp: GroupAndBatchFetch_def Let_def)
  then obtain js where js: "JobQueue (dht_store s') = JobQueue (dht_store s) @ js" "list_all is_fetch_job js"
      "todo (dht_store s') \<subseteq> todo (dht_store s)"
      "todo (dht_store s) - todo (dht_store s') \<subseteq> (hex_encode \<circ> blake3 E) ` (\<Union>j\<in>set js. job_values j)"
    unfolding fetched_def by blast
  have queued: "\<exists>vs ty orig v. BatchInsert vs ty orig \<in> set js \<and> v \<in> set vs \<and> v \<noteq> [] \<and> hex_encode (blake3 E v) = k"
    if k: "k \<in> todo (dht_store s) - todo (dht_store s')" for k
  proof -
    from subsetD[OF js(4) k] obtain j v where j: "j \<in> set js" "v \<in> job_values j" "k = hex_encode (blake3 E v)" by auto
    then have "is_fetch_job j" using js(2) by (simp add: list_all_iff)
    then obtain vs ty orig where "j = BatchInsert vs ty orig" "[] \<notin> set vs" by (auto simp: is_fetch_job_def split: job.splits)
    then show ?thesis using j by (auto simp: job_values_def)
  qed
  have "\<exists>st. run_jobs (blake3 E) outs (dht_store s') = Some st \<and>
      (\<forall>k \<in> todo (dht_store s) - todo (dht_store s'). \<exists>v. lookup st k = Some v \<and> v \<noteq> [] \<and> hex_encode (blake3 E v) = k)"
    if outs: "list_all (\<lambda>(e, t). e = None) outs" "length outs = length (JobQueue (dht_store s'))"
  proof -
    obtain st where st: "run_jobs (blake3 E) outs (dht_store s') = Some st"
        "lookup st = fold (replay (blake3 E)) (JobQueue (dht_store s')) (lookup (dht_store s'))"
      using run_jobs_replay[OF outs(2,1), of "blake3 E"] by blast
    have "holds_hash (blake3 E) (lookup st) k" if "k \<in> todo (dht_store s) - todo (dht_store s')" for k
      using replay_fetch_jobs[OF js(2), of "blake3 E" _ k] subsetD[OF js(4) that] unfolding st(2) js(1) by simp
    then show ?thesis using st(1) by (auto simp: holds_hash_def)
  qed
  then show ?thesis by (intro conjI js(3) exI[of _ js] js(1) impI ballI queued) (simp_all only:)
qed

text \<open>A failed insert leaves the table as it was.\<close>

lemma failed_insert_loses:
  "JobQueue st = [BatchInsert vs ty orig] \<Longrightarrow> run_jobs H [(Some e, t)] st = Some st' \<Longrightarrow> lookup st' = lookup st"
  by (auto simp: run_job_def performJob_def storeBatchRecord_def lookup_def fun_eq_iff split: if_splits)

definition wit_todo :: "int \<Rightarrow> dht" where
  "wit_todo a = wit_dht\<lparr>dht_store := empty_sqlite\<lparr>replication_keys :=
     [(hex_encode (replicate 31 0 @ [5]),
       \<lparr>rk_id = [CHR ''a''], rk_ip = ''10.0.0.1'', rk_port = 4445, rk_attempts = a, rk_updatedAt = 0\<rparr>)]\<rparr>\<rparr>"

definition wit_fetch_env :: "bool \<Rightarrow> env" where
  "wit_fetch_env isDone = wit_env\<lparr>net_answer := (\<lambda>h m. Inr (wit_msg BatchFindValues (BatchFindValuesResponse ok_status [] isDone)))\<rparr>"

definition wit_fetch_codec :: "bytes \<Rightarrow> codec" where
  "wit_fetch_codec v = (wit_codec 0)\<lparr>json_unmarshal := (\<lambda>b. Inr [(hex_encode (replicate 31 0 @ [5]), v)])\<rparr>"

definition wit_peer_node :: node where
  "wit_peer_node = mk_node (bytes_of_str ''a'') ''10.0.0.1'' 4445"

lemma wit_group:
  "group_keys (replication_keys (dht_store (wit_todo a))) = [(generateKeyFromNode wit_peer_node, [hex_encode (replicate 31 0 @ [5])])]"
  by (simp add: group_keys_def wit_todo_def rep_key_node_def wit_peer_node_def Let_def alist_update_def)

lemma wit_node_key: "getNodeFromKey (generateKeyFromNode wit_peer_node) = Inr wit_peer_node"
  by (subst key_roundtrip) (simp_all add: wit_peer_node_def mk_node_def)

theorem fetched_keys_verified_witness:
  "\<exists>s' st. GroupAndBatchFetch (wit_fetch_env True) (wit_fetch_codec [5, 6]) wit_net 1
        (replication_keys (dht_store (wit_todo 0))) 0 False (wit_todo 0) = Some (None, s')
     \<and> todo (dht_store s') = {} \<and> run_jobs (blake3 wit_env) [(None, 1)] (dht_store s') = Some st
     \<and> (\<exists>v. lookup st (hex_encode (replicate 31 0 @ [5])) = Some v \<and> v \<noteq> [])"
proof -
  let ?E = "wit_fetch_env True" and ?C = "wit_fetch_codec [5, 6]" and ?k = "hex_encode (replicate 31 0 @ [5])"
  let ?m = "fst (newMessage ?E BatchFindValues wit_peer_node (BatchFindValuesRequest [?k]) (wit_todo 0))"
  have b: "blake3 ?E [5, 6] = replicate 31 0 @ [5]" "blake3 ?E = blake3 wit_env" by (simp_all add: wit_fetch_env_def wit_env_def)
  obtain s1 where g: "GetBatchValuesFromNode ?E ?C 1 [?k] wit_peer_node (wit_todo 0) = Some (Inr (True, [(?k, [5, 6])], []), s1)"
      "dht_store s1 = dht_store (wit_todo 0)"
    using b(1) by (auto simp: GetBatchValuesFromNode_def Let_def net_call_def wit_fetch_env_def wit_fetch_codec_def wit_codec_def
        wit_msg_def ok_status_def VerifyAndFilter_def verified_def case_prod_unfold)
  define s' where "s' = s1\<lparr>dht_store := (dht_store s1)\<lparr>JobQueue := [BatchInsert [[5, 6]] 0 False], replication_keys := []\<rparr>\<rparr>"
  have f: "fetch_batches ?E ?C 1 wit_peer_node 0 False [?k] (wit_todo 0) = Some s'"
    using g by (simp add: fetch_batches.simps fetch_consts numeral_eq_Suc store_found_def sq_StoreBatch_def enqueue_def
        BatchDeleteRepKeys_def wit_fetch_env_def wit_fetch_codec_def wit_codec_def wit_env_def wit_todo_def s'_def
        wit_dht_def empty_sqlite_def)
  have r: "GroupAndBatchFetch ?E ?C wit_net 1 (replication_keys (dht_store (wit_todo 0))) 0 False (wit_todo 0) = Some (None, s')"
    using f by (simp add: GroupAndBatchFetch_def wit_group Let_def wit_net_def wit_node_key)
  have p: "perm_iter ?C" by (simp add: perm_iter_def wit_fetch_codec_def wit_codec_def)
  have t: "todo (dht_store s') = {}" "length [(None, 1)] = length (JobQueue (dht_store s'))" "?k \<in> todo (dht_store (wit_todo 0))"
    by (simp_all add: s'_def wit_todo_def)
  have o: "list_all (\<lambda>(e, t). e = None) [(None, 1 :: timestamp)] \<and> length [(None, 1 :: timestamp)] = length (JobQueue (dht_store s'))"
    using t(2) by simp
  obtain st where st: "run_jobs (blake3 ?E) [(None, 1)] (dht_store s') = Some st"
    "\<forall>k \<in> todo (dht_store (wit_todo 0)) - todo (dht_store s'). \<exists>v. lookup st k = Some v \<and> v \<noteq> [] \<and> hex_encode (blake3 ?E v) = k"
    using fetched_keys_verified[OF p r, THEN conjunct2, THEN conjunct2, THEN mp, OF o] by blast
  have "?k \<in> todo (dht_store (wit_todo 0)) - todo (dht_store s')" by (rule DiffI[OF t(3)]) (simp only: t(1) empty_iff not_False_eq_True)
  from bspec[OF st(2) this] have "\<exists>v. lookup st ?k = Some v \<and> v \<noteq> []" by (elim exE conjE) (intro exI conjI)
  then show ?thesis using r t(1) st(1) b(2) by (intro exI[of _ s'] exI[of _ st]) (simp only: simp_thms)
qed

lemma closestContacts_length: "length (nl_Nodes (fst (closestContacts num t ign h))) \<le> num"
  by (simp add: closestContacts_def Let_def TopN_def nl_Len_def min.coboundedI2)

lemma second_tier_attempts:
  assumes "k \<in> fst ` set (second_tier s keys)"
  shows "\<exists>r. (k, r) \<in> set keys \<and> rk_attempts r < 12"
proof -
  let ?nodes = "\<lambda>sKey. nl_Nodes (fst (closestContacts failedKeysClosestContactsLookupCount sKey (ToNodeList (ignorelist s)) (ht s)))"
  obtain r sKey where r: "(k, r) \<in> set keys" "int (length (?nodes sKey)) > (rk_attempts r - maxBatchAttempts) + 1"
    using assms unfolding second_tier_def map_filter_def Let_def by (force split: option.splits if_splits)
  moreover have "length (?nodes sKey) \<le> failedKeysClosestContactsLookupCount" by (rule closestContacts_length)
  ultimately show ?thesis by (intro exI[of _ r]) (simp add: fetch_consts)
qed

text \<open>A key that failed twelve or thirteen times is never tried again: its number of attempts is
  above the window of the first tier and below that of the third, and the second tier, which
  indexes the twelve closest nodes with the number of attempts, passes over it, so none of the
  three tiers selects it.\<close>

theorem todo_key_starves:
  assumes "rk_attempts r = 12 \<or> rk_attempts r = 13" and "alist_wf (replication_keys st)" and "(k, r) \<in> set (replication_keys st)"
    and "GetAllToDoRepKeys None 0 maxBatchAttempts st = Inr first"
    and "GetAllToDoRepKeys None (maxBatchAttempts + 1) (int failedKeysClosestContactsLookupCount + maxBatchAttempts + 1) st = Inr failed"
    and "GetAllToDoRepKeys None (int failedKeysClosestContactsLookupCount + maxBatchAttempts + 1) totalMaxAttempts st = Inr third"
  shows "k \<notin> fst ` set first \<and> k \<notin> fst ` set (second_tier s failed) \<and> k \<notin> fst ` set third"
proof -
  have u: "r' = r" if "(k, r') \<in> set (replication_keys st)" for r'
    using assms(2,3) that by (metis alist_wf_def map_of_is_SomeI option.inject)
  have sub: "(x, y) \<in> set (replication_keys st) \<and> lo \<le> rk_attempts y \<and> rk_attempts y \<le> hi"
    if "GetAllToDoRepKeys None lo hi st = Inr ks" "(x, y) \<in> set ks" for lo hi ks x y
    using that by (auto simp: GetAllToDoRepKeys_def dest!: in_set_takeD)
  have "k \<notin> fst ` set first"
    using sub[OF assms(4)] u assms(1) by (fastforce simp: fetch_consts)
  moreover have "k \<notin> fst ` set third"
    using sub[OF assms(6)] u assms(1) by (fastforce simp: fetch_consts)
  moreover have "k \<notin> fst ` set (second_tier s failed)"
    using second_tier_attempts[of k s failed] sub[OF assms(5)] u assms(1) by fastforce
  ultimately show ?thesis by blast
qed

theorem todo_key_starves_witness:
  "hex_encode (replicate 31 0 @ [5]) \<notin> fst ` set (second_tier (wit_todo 12) (replication_keys (dht_store (wit_todo 12))))"
proof -
  let ?r = "\<lparr>rk_id = [CHR ''a''], rk_ip = ''10.0.0.1'', rk_port = 4445, rk_attempts = 12, rk_updatedAt = 0\<rparr>"
  let ?st = "dht_store (wit_todo 12)"
  have g: "GetAllToDoRepKeys None 0 maxBatchAttempts ?st = Inr []"
    "GetAllToDoRepKeys None (maxBatchAttempts + 1) (int failedKeysClosestContactsLookupCount + maxBatchAttempts + 1) ?st = Inr (replication_keys ?st)"
    "GetAllToDoRepKeys None (int failedKeysClosestContactsLookupCount + maxBatchAttempts + 1) totalMaxAttempts ?st = Inr []"
    by (simp_all add: GetAllToDoRepKeys_def wit_todo_def fetch_consts)
  have "(hex_encode (replicate 31 0 @ [5]), ?r) \<in> set (replication_keys ?st)" by (simp add: wit_todo_def)
  from todo_key_starves[OF _ _ this g, of "wit_todo 12"] show ?thesis by (simp add: alist_wf_def wit_todo_def)
qed

text \<open>The third tier stores without verifying: when the node that announced a key answers a
  find-value request with any non-empty bytes, these bytes are queued for storing under the key,
  whatever their hash, and the key leaves the to-do list.\<close>

theorem fetch_one_unverified:
  assumes "hex_decode k = Some sKey" and "dberr E ''StoreCtx'' = None" and "dberr E ''DeleteRepKey'' = None"
    and "map_of (replication_keys (dht_store s)) k \<noteq> None"
    and "\<And>h m. MessageType m = FindValue \<Longrightarrow> \<exists>a st cl. net_answer E h m = Inr a \<and> Data a = FindValueResponse st cl v \<and> Result st = ResultOk"
    and "v \<noteq> []"
  shows "\<exists>s'. fetch_one E (k, r) s = Some s' \<and> JobQueue (dht_store s') = JobQueue (dht_store s) @ [Insert sKey v 0 False]
    \<and> k \<notin> todo (dht_store s')"
proof -
  let ?n = "rep_key_node r"
  obtain rq s1 where n: "newMessage E FindValue ?n (FindValueRequest sKey) s = (rq, s1)" by fastforce
  then have f: "dht_store s1 = dht_store s" "MessageType rq = FindValue"
    using newMessage_frame(4)[of E FindValue ?n "FindValueRequest sKey" s]
      newMessage_fields(2)[of E FindValue ?n "FindValueRequest sKey" s] by simp_all
  obtain a st cl where a: "net_answer E (sent s1) rq = Inr a" "Data a = FindValueResponse st cl v" "Result st = ResultOk"
    using assms(5)[OF f(2)] by blast
  define s2 where "s2 = snd (net_call E rq s1)"
  have g: "GetValueFromNode E sKey ?n s = (Inr v, s2)"
    using n a assms(6) by (simp add: GetValueFromNode_def net_call_def s2_def)
  have t: "dht_store s2 = dht_store s" using f(1) by (simp add: s2_def)
  obtain y where y: "map_of (replication_keys (dht_store s)) k = Some y" using assms(4) by blast
  have "value_attempts E 10 sKey ?n s = (Inr v, s2)" using g by (simp add: numeral_eq_Suc)
  then have "fetch_one E (k, r) s = Some (s2\<lparr>dht_store := (dht_store s)\<lparr>JobQueue := JobQueue (dht_store s) @ [Insert sKey v 0 False],
      replication_keys := alist_delete k (replication_keys (dht_store s))\<rparr>\<rparr>)"
    using assms(1-3) y t by (simp add: fetch_one_def sq_Store_def enqueue_def DeleteRepKey_def)
  then show ?thesis by simp
qed

definition wit_value_env :: env where
  "wit_value_env = wit_env\<lparr>net_answer := (\<lambda>h m. Inr (wit_msg FindValue (FindValueResponse ok_status [] [8])))\<rparr>"

theorem fetch_one_unverified_witness:
  "\<exists>s'. fetch_one wit_value_env (hex_encode (replicate 31 0 @ [5]), snd (hd (replication_keys (dht_store (wit_todo 14))))) (wit_todo 14) = Some s'
     \<and> JobQueue (dht_store s') = [Insert (replicate 31 0 @ [5]) [8] 0 False] \<and> blake3 wit_value_env [8] \<noteq> replicate 31 0 @ [5]"
proof -
  have e: "dberr wit_value_env x = None" for x by (simp add: wit_value_env_def wit_env_def)
  have a: "\<exists>a st cl. net_answer wit_value_env h m = Inr a \<and> Data a = FindValueResponse st cl [8] \<and> Result st = ResultOk" for h m
    by (simp add: wit_value_env_def wit_msg_def ok_status_def)
  have "map_of (replication_keys (dht_store (wit_todo 14))) (hex_encode (replicate 31 0 @ [5])) \<noteq> None" by (simp add: wit_todo_def)
  from fetch_one_unverified[OF hex_decode_encode e e this a, of "snd (hd (replication_keys (dht_store (wit_todo 14))))"]
  show ?thesis by (auto simp: wit_todo_def wit_dht_def empty_sqlite_def wit_value_env_def wit_env_def)
qed

end
