(* ===== verification/Batch_Store.thy ===== *)
theory Batch_Store
  imports DHT
begin

text \<open>
  Storing a batch of values in the network (\<^verbatim>\<open>StoreBatch\<close>, \<^verbatim>\<open>IterateBatchStore\<close>,
  \<^verbatim>\<open>batchFindNode\<close> and \<^verbatim>\<open>batchStoreNetwork\<close> of \<^verbatim>\<open>p2p/kademlia/dht.go\<close>): the closest nodes of all
  values are searched in rounds, each round asking the known nodes that were not asked yet, until
  no list of closest nodes changes; then every known node is sent its share of the values.

  The rounds need not end: a run of \<open>fuel\<close> rounds is \<open>Running\<close> when it is not over,
  \<open>Crashed\<close> when the code panics, and \<open>Finished\<close> otherwise.  A cancelled context is the outcome
  \<open>dberr E ''ctx''\<close>.  Requests of one round are concurrent; \<open>sched\<close> and \<open>arrive\<close> give the order in
  which they are sent and answered.  An empty list of nodes in a response is the nil slice.
\<close>

section \<open>Requests to many nodes\<close>

datatype 'a run = Finished 'a | Crashed | Running

type_synonym known_nodes = "(string \<times> node) list"
type_synonym closest_map = "(string \<times> node_list) list"

definition minimumDataStoreSuccessRate :: nat where "minimumDataStoreSuccessRate = 75"

abbreviation key_of :: "node \<Rightarrow> string" where
  "key_of n \<equiv> str_of_bytes (ID n)"

text \<open>One request per node; the messages that came back.  A failed call counts against the node.\<close>

fun call_all :: "env \<Rightarrow> int \<Rightarrow> (node \<Rightarrow> payload) \<Rightarrow> node list \<Rightarrow> dht \<Rightarrow> message list \<times> dht" where
  "call_all E mt d [] s = ([], s)"
| "call_all E mt d (n # ns) s =
     (if dberr E ''ctx'' \<noteq> None then call_all E mt d ns s
      else let (request, s1) = newMessage E mt n (d n) s;
               (response, s2) = net_call E request s1
        in case response of
             Inl e \<Rightarrow> call_all E mt d ns (s2\<lparr>ignorelist := IncrementCount (now E) n (ignorelist s2)\<rparr>)
           | Inr m \<Rightarrow> let (ms, s3) = call_all E mt d ns s2 in (m # ms, s3))"

definition batchFindNode ::
  "env \<Rightarrow> bytes list \<Rightarrow> known_nodes \<Rightarrow> string set \<Rightarrow> dht \<Rightarrow> message list \<times> bool \<times> string set \<times> dht" where
  "batchFindNode E hashes nodes contacted s = (
     let picked = filter (\<lambda>n. key_of n \<notin> contacted \<and> \<not> Banned (ignorelist s) n) (sched E (map snd nodes));
         (ms, s1) = call_all E BatchFindNode (\<lambda>_. BatchFindNodeRequest hashes) picked s
     in (arrive E ms, picked \<noteq> [], contacted \<union> key_of ` set picked, s1))"

definition batchStoreNetwork ::
  "env \<Rightarrow> bytes list \<Rightarrow> known_nodes \<Rightarrow> (string \<Rightarrow> nat list) \<Rightarrow> int \<Rightarrow> dht \<Rightarrow> message list \<times> nat \<times> dht" where
  "batchStoreNetwork E vals nodes storageMap ty s = (
     let picked = filter (\<lambda>n. \<not> Banned (ignorelist s) n) (sched E (map snd nodes));
         (ms, s1) = call_all E BatchStoreData
           (\<lambda>n. BatchStoreDataRequest (map ((!) vals) (storageMap (key_of n))) ty) picked s
     in (arrive E ms, length picked, s1))"

section \<open>Rounds\<close>

text \<open>\<^verbatim>\<open>addKnownNodes\<close> hashes the nodes it adds in place; a node that is already known is left as it
  was received.\<close>

fun mark_hashed :: "env \<Rightarrow> known_nodes \<Rightarrow> node list \<Rightarrow> node list" where
  "mark_hashed E known [] = []"
| "mark_hashed E known (n # ns) =
     (if map_of known (key_of n) \<noteq> None then n # mark_hashed E known ns
      else let n1 = SetHashedID (blake3 E) n in n1 # mark_hashed E ((key_of n, n1) # known) ns)"

fun note_closest ::
  "env \<Rightarrow> (string \<times> node list) list \<Rightarrow> closest_map \<Rightarrow> known_nodes \<Rightarrow> dht \<Rightarrow> (closest_map \<times> known_nodes \<times> dht) option" where
  "note_closest E [] loc known s = Some (loc, known, s)"
| "note_closest E ((key, ns) # rest) loc known s =
     (if ns = [] then note_closest E rest loc known s
      else let ns' = mark_hashed E known ns;
               nl = (case map_of loc key of
                       Some nl \<Rightarrow> AddNodes ns' nl
                     | None \<Rightarrow> \<lparr>nl_Nodes = ns', Comparator = b58decode E key\<rparr>)
        in Option.bind (addKnownNodes E ns known s) (\<lambda>(known', s1).
             note_closest E rest (alist_update key nl loc) known' s1))"

fun note_responses :: "env \<Rightarrow> message list \<Rightarrow> closest_map \<Rightarrow> known_nodes \<Rightarrow> dht \<Rightarrow> (closest_map \<times> known_nodes \<times> dht) option" where
  "note_responses E [] loc known s = Some (loc, known, s)"
| "note_responses E (m # ms) loc known s =
     Option.bind
       (case Data m of
          BatchFindNodeResponse st cl \<Rightarrow>
            if Result st = ResultOk then note_closest E cl loc known s else Some (loc, known, s)
        | _ \<Rightarrow> Some (loc, known, s))
       (\<lambda>(loc', known', s1). note_responses E ms loc' known' s1)"

text \<open>The closest nodes found in this round are merged into the lists kept so far; a key that was
  not asked for has no list, a nil dereference.\<close>

fun merge_closest ::
  "env \<Rightarrow> closest_map \<Rightarrow> closest_map \<Rightarrow> known_nodes \<Rightarrow> bool \<Rightarrow> dht \<Rightarrow> (closest_map \<times> known_nodes \<times> bool \<times> dht) option" where
  "merge_closest E [] global known changed s = Some (global, known, changed, s)"
| "merge_closest E ((key, nl) # rest) global known changed s = (
     let nl1 = TopN Alpha (nl_Sort (nl\<lparr>Comparator := b58decode E key\<rparr>)) in
     Option.bind (addKnownNodes E (nl_Nodes nl1) known s) (\<lambda>(known', s1).
     case map_of global key of
       None \<Rightarrow> None
     | Some g \<Rightarrow>
         merge_closest E rest (alist_update key (TopN Alpha (nl_Sort (AddNodes (nl_Nodes g) nl1))) global) known'
           (changed \<or> \<not> haveAllNodes (nl_Nodes nl1) (nl_Nodes g)) s1))"

fun batch_store_rounds ::
  "env \<Rightarrow> nat \<Rightarrow> bytes list \<Rightarrow> closest_map \<Rightarrow> known_nodes \<Rightarrow> string set \<Rightarrow> dht \<Rightarrow> (closest_map \<times> known_nodes \<times> dht) run" where
  "batch_store_rounds E 0 hashes global known contacted s = Running"
| "batch_store_rounds E (Suc fuel) hashes global known contacted s = (
     let (responses, atleastOneContacted, contacted', s1) = batchFindNode E hashes known contacted s in
     if \<not> atleastOneContacted then Finished (global, known, s1)
     else case note_responses E responses [] known s1 of
       None \<Rightarrow> Crashed
     | Some (loc, known1, s2) \<Rightarrow>
         (case merge_closest E loc global known1 False s2 of
            None \<Rightarrow> Crashed
          | Some (global', known2, changed, s3) \<Rightarrow>
              if \<not> changed then Finished (global', known2, s3)
              else batch_store_rounds E fuel hashes global' known2 contacted' s3))"

section \<open>The whole store\<close>

fun batch_store_init ::
  "env \<Rightarrow> bytes list \<Rightarrow> closest_map \<Rightarrow> known_nodes \<Rightarrow> dht \<Rightarrow> (closest_map \<times> known_nodes \<times> dht) option" where
  "batch_store_init E [] global known s = Some (global, known, s)"
| "batch_store_init E (target # rest) global known s = (
     let top6 = closestContactsWithInlcudingNode Alpha target (ToNodeList (ignorelist s)) None (ht s) in
     Option.bind (addKnownNodes E (nl_Nodes top6) known s) (\<lambda>(known', s1).
       batch_store_init E rest (alist_update (b58encode E target) top6 global) known' s1))"

text \<open>The indices of the values that a node is to store; every hash has an entry in the map.\<close>

definition storage_map :: "env \<Rightarrow> closest_map \<Rightarrow> bytes list \<Rightarrow> string \<Rightarrow> nat list" where
  "storage_map E global hashes k = concat (map (\<lambda>i.
     case map_of global (b58encode E (hashes ! i)) of
       None \<Rightarrow> []
     | Some nl \<Rightarrow> map (\<lambda>_. i) (filter (\<lambda>n. key_of n = k) (nl_Nodes nl))) [0..<length hashes])"

definition store_response_ok :: "message \<Rightarrow> bool" where
  "store_response_ok m = (case Data m of StoreDataResponse st \<Rightarrow> Result st = ResultOk | _ \<Rightarrow> False)"

text \<open>The success rate is a quotient of small whole numbers compared with 75: the comparison is
  done on whole numbers here.  A failed response without a sender is dereferenced for the log.\<close>

definition store_outcome :: "message list \<Rightarrow> nat \<Rightarrow> string option option" where
  "store_outcome ms requests =
     (if \<exists>m \<in> set ms. \<not> store_response_ok m \<and> Sender m = None then None
      else let successful = length (filter store_response_ok ms) in
        if requests > 0 then
          (if 100 * successful \<ge> minimumDataStoreSuccessRate * requests then Some None
           else Some (Some ''failed to achieve desired success rate''))
        else Some (Some ''no store operations were performed''))"

definition IterateBatchStore :: "env \<Rightarrow> nat \<Rightarrow> bytes list \<Rightarrow> int \<Rightarrow> dht \<Rightarrow> (string option \<times> dht) run" where
  "IterateBatchStore E fuel vals ty s = (
     let hashes = map (blake3 E) vals in
     case batch_store_init E hashes [] [] s of
       None \<Rightarrow> Crashed
     | Some (global, known, s1) \<Rightarrow>
         (case batch_store_rounds E fuel hashes global known {} s1 of
            Crashed \<Rightarrow> Crashed
          | Running \<Rightarrow> Running
          | Finished (global', known', s2) \<Rightarrow>
              let (ms, requests, s3) = batchStoreNetwork E vals known' (storage_map E global' hashes) ty s2
              in case store_outcome ms requests of None \<Rightarrow> Crashed | Some e \<Rightarrow> Finished (e, s3)))"

definition dht_StoreBatch :: "env \<Rightarrow> nat \<Rightarrow> bytes list \<Rightarrow> int \<Rightarrow> dht \<Rightarrow> (string option \<times> dht) run" where
  "dht_StoreBatch E fuel vals ty s =
     (case sq_StoreBatch (dberr E ''StoreBatchCtx'') vals ty True (dht_store s) of
        (Some e, st) \<Rightarrow> Finished (Some (''store batch: '' @ e), s\<lparr>dht_store := st\<rparr>)
      | (None, st) \<Rightarrow>
          (case IterateBatchStore E fuel vals ty (s\<lparr>dht_store := st\<rparr>) of
             Finished (Some e, s1) \<Rightarrow> Finished (Some (''iterate batch store: '' @ e), s1)
           | r \<Rightarrow> r))"

section \<open>Lemmas\<close>

abbreviation ids :: "node list \<Rightarrow> string set" where
  "ids ns \<equiv> key_of ` set ns"

abbreviation known_ids :: "known_nodes \<Rightarrow> string set" where
  "known_ids known \<equiv> ids (map snd known)"

lemma subset_step: "P \<subseteq> Q \<union> R \<Longrightarrow> Q \<subseteq> insert x S \<Longrightarrow> P \<subseteq> S \<union> insert x R"
  by blast

lemma fewer_left: "I \<noteq> {} \<Longrightarrow> I \<inter> R = {} \<Longrightarrow> I \<subseteq> U \<Longrightarrow> U - (R \<union> I) \<subset> U - R"
  by blast

lemma ids_Cons: "ids (n # ns) = insert (key_of n) (ids ns)"
  by simp

lemma key_SetHashedID [simp]: "ID (SetHashedID H n) = ID n"
  by (simp add: SetHashedID_def)

lemma values_alist_update: "snd ` set (alist_update k v m) \<subseteq> insert v (snd ` set m)"
  by (force simp: alist_update_def split: if_splits)

lemma addKnownNodes_ids:
  "addKnownNodes E ns known s = Some (known', s') \<Longrightarrow> known_ids known' \<subseteq> known_ids known \<union> ids ns"
proof (induction ns arbitrary: known s)
  case (Cons n ns)
  show ?case
  proof (cases "map_of known (key_of n) = None")
    case True
    let ?n = "SetHashedID (blake3 E) n"
    obtain s1 where "addKnownNodes E ns (alist_update (key_of ?n) ?n known) s1 = Some (known', s')"
      using Cons.prems True by (auto simp: Let_def split: bind_splits)
    note ih = Cons.IH[OF this]
    have u: "known_ids (alist_update (key_of ?n) ?n known) \<subseteq> insert (key_of n) (known_ids known)"
      using image_mono[OF values_alist_update[of "key_of ?n" ?n known], of key_of] by simp
    show ?thesis unfolding ids_Cons by (rule subset_step[OF ih u])
  next
    case False
    then have "addKnownNodes E ns known s = Some (known', s')" using Cons.prems by simp
    from Cons.IH[OF this] show ?thesis by (rule subset_trans) auto
  qed
qed simp

lemma ids_mark_hashed [simp]: "ids (mark_hashed E known ns) = ids ns"
  by (induction ns arbitrary: known) (auto simp: Let_def)

lemma nl_ids_Sort [simp]: "ids (nl_Nodes (nl_Sort nl)) = ids (nl_Nodes nl)"
  by (simp add: nl_Sort_def)

lemma nl_ids_TopN: "ids (nl_Nodes (TopN k nl)) \<subseteq> ids (nl_Nodes nl)"
  by (auto simp: TopN_def dest: in_set_takeD)

lemma ids_AddNodes: "ids (nl_Nodes (AddNodes ns nl)) = ids (nl_Nodes nl) \<union> ids ns"
proof -
  have k: "ids xs = str_of_bytes ` (ID ` set xs)" for xs by (simp add: image_image)
  show ?thesis unfolding k AddNodes_ids image_Un ..
qed

lemma map_of_value_ids: "map_of m k = Some nl \<Longrightarrow> (\<forall>x\<in>snd ` set m. P x) \<Longrightarrow> P nl"
  by (force dest: map_of_SomeD)

lemma alist_update_all: "P v \<Longrightarrow> \<forall>x\<in>snd ` set m. P x \<Longrightarrow> \<forall>x\<in>snd ` set (alist_update k v m). P x"
  using values_alist_update[of k v m] by blast

text \<open>A round only gets to know nodes that some response named.\<close>

definition named_in :: "string set \<Rightarrow> env \<Rightarrow> bool" where
  "named_in U E \<longleftrightarrow> (\<forall>h m a st cl k ns. net_answer E h m = Inr a \<longrightarrow> Data a = BatchFindNodeResponse st cl \<longrightarrow>
     (k, ns) \<in> set cl \<longrightarrow> ids ns \<subseteq> U)"

lemma note_closest_ids:
  assumes "\<forall>(k, ns)\<in>set cl. ids ns \<subseteq> U" and "known_ids known \<subseteq> U" and "\<forall>nl\<in>snd ` set loc. ids (nl_Nodes nl) \<subseteq> U"
    and "note_closest E cl loc known s = Some (loc', known', s')"
  shows "known_ids known' \<subseteq> U \<and> (\<forall>nl\<in>snd ` set loc'. ids (nl_Nodes nl) \<subseteq> U)"
  using assms
proof (induction cl arbitrary: loc known s)
  case (Cons x cl)
  obtain k ns where x: "x = (k, ns)" by (cases x)
  show ?case
  proof (cases "ns = []")
    case True
    with Cons x show ?thesis by simp
  next
    case False
    let ?ns = "mark_hashed E known ns"
    let ?nl = "case map_of loc k of Some nl \<Rightarrow> AddNodes ?ns nl | None \<Rightarrow> \<lparr>nl_Nodes = ?ns, Comparator = b58decode E k\<rparr>"
    obtain known1 s1 where a: "addKnownNodes E ns known s = Some (known1, s1)"
        "note_closest E cl (alist_update k ?nl loc) known1 s1 = Some (loc', known', s')"
      using Cons.prems(4) False x by (auto simp: Let_def split: bind_splits)
    have n: "ids ns \<subseteq> U" using Cons.prems(1) x by simp
    have "ids (nl_Nodes ?nl) \<subseteq> U"
    proof (cases "map_of loc k")
      case (Some nl)
      have "ids (nl_Nodes nl) \<subseteq> U" by (rule map_of_value_ids[OF Some Cons.prems(3)])
      then show ?thesis using n Some by (simp only: option.case ids_AddNodes ids_mark_hashed) blast
    qed (use n in \<open>simp only: option.case node_list.simps ids_mark_hashed\<close>)
    then have "\<forall>nl\<in>snd ` set (alist_update k ?nl loc). ids (nl_Nodes nl) \<subseteq> U"
      by (rule alist_update_all[where P = "\<lambda>nl. ids (nl_Nodes nl) \<subseteq> U", OF _ Cons.prems(3)])
    moreover have "known_ids known1 \<subseteq> U" using addKnownNodes_ids[OF a(1)] n Cons.prems(2) by blast
    ultimately show ?thesis using Cons.IH[OF _ _ _ a(2)] Cons.prems(1) by simp
  qed
qed simp

lemma note_responses_ids:
  assumes "\<forall>m\<in>set ms. \<exists>h q. net_answer E h q = Inr m" and "named_in U E" and "known_ids known \<subseteq> U"
    and "\<forall>nl\<in>snd ` set loc. ids (nl_Nodes nl) \<subseteq> U" and "note_responses E ms loc known s = Some (loc', known', s')"
  shows "known_ids known' \<subseteq> U \<and> (\<forall>nl\<in>snd ` set loc'. ids (nl_Nodes nl) \<subseteq> U)"
  using assms(1,3-)
proof (induction ms arbitrary: loc known s)
  case (Cons m ms)
  obtain loc1 known1 s1 where s1: "note_responses E ms loc1 known1 s1 = Some (loc', known', s')"
    "(loc1, known1, s1) = (loc, known, s) \<or> (\<exists>st cl. Data m = BatchFindNodeResponse st cl \<and> note_closest E cl loc known s = Some (loc1, known1, s1))"
    using Cons.prems(4) by (auto split: bind_splits payload.splits if_splits)
  have "known_ids known1 \<subseteq> U \<and> (\<forall>nl\<in>snd ` set loc1. ids (nl_Nodes nl) \<subseteq> U)"
    using s1(2)
  proof (elim disjE exE conjE)
    fix st cl assume d: "Data m = BatchFindNodeResponse st cl" "note_closest E cl loc known s = Some (loc1, known1, s1)"
    obtain h q where "net_answer E h q = Inr m" using Cons.prems(1) by auto
    then have "\<forall>(k, ns)\<in>set cl. ids ns \<subseteq> U" using assms(2) d(1) unfolding named_in_def by blast
    from note_closest_ids[OF this Cons.prems(2,3) d(2)] show ?thesis .
  qed (use Cons.prems in simp)
  then show ?case using Cons.IH[OF _ _ _ s1(1)] Cons.prems(1) by simp
qed simp

lemma merge_closest_ids:
  assumes "known_ids known \<subseteq> U" and "\<forall>nl\<in>snd ` set loc. ids (nl_Nodes nl) \<subseteq> U"
    and "merge_closest E loc global known ch s = Some (global', known', ch', s')"
  shows "known_ids known' \<subseteq> U"
  using assms
proof (induction loc arbitrary: global known ch s)
  case (Cons x loc)
  obtain k nl where x: "x = (k, nl)" by (cases x)
  let ?nl = "TopN Alpha (nl_Sort (nl\<lparr>Comparator := b58decode E k\<rparr>))"
  obtain known1 s1 g2 ch2 where a: "addKnownNodes E (nl_Nodes ?nl) known s = Some (known1, s1)"
      "merge_closest E loc g2 known1 ch2 s1 = Some (global', known', ch', s')"
    using Cons.prems(3) x by (auto simp: Let_def split: bind_splits option.splits)
  have "ids (nl_Nodes ?nl) \<subseteq> ids (nl_Nodes nl)"
    using nl_ids_TopN[of Alpha "nl_Sort (nl\<lparr>Comparator := b58decode E k\<rparr>)"] by (simp add: nl_Sort_def)
  also have "\<dots> \<subseteq> U" using Cons.prems(2) x by simp
  finally have "known_ids known1 \<subseteq> U" using addKnownNodes_ids[OF a(1)] Cons.prems(1) by blast
  then show ?case using Cons.IH[OF _ _ a(2)] Cons.prems(2) by simp
qed simp

lemma call_all_answers:
  "m \<in> set (fst (call_all E mt d ns s)) \<Longrightarrow> \<exists>h q. net_answer E h q = Inr m"
proof (induction ns arbitrary: s)
  case (Cons n ns)
  then show ?case
    by (auto simp: Let_def net_call_def case_prod_unfold split: if_splits sum.splits)
qed simp

lemma set_bucket_nodes: "set (ht_nodes (set_bucket h i b)) \<subseteq> set (ht_nodes h) \<union> set b"
  using set_update_subset_insert[of "routeTable h" "nat i" b] by (auto simp: ht_nodes_def set_bucket_def)

lemma bucket_at_nodes: "bucket_at h i = Some b \<Longrightarrow> set b \<subseteq> set (ht_nodes h)"
  by (auto simp: bucket_at_def ht_nodes_def split: if_splits intro!: bexI[of _ "routeTable h ! nat i"])

lemma refreshNode_nodes: "refreshNode i h = Some h' \<Longrightarrow> set (ht_nodes h') \<subseteq> set (ht_nodes h)"
  using set_move_to_end[THEN equalityD1] set_bucket_nodes bucket_at_nodes
  by (fastforce simp: refreshNode_def Let_def split: bind_splits if_splits)

lemma addNode_table:
  assumes "addNode E n s = Some (r, s')"
  shows "set (ht_nodes (ht s')) \<subseteq> insert (SetHashedID (blake3 E) n) (set (ht_nodes (ht s)))"
proof (cases "ID n = ID (self (ht s))")
  case True
  with assms show ?thesis by (auto simp: addNode_def)
next
  case False
  let ?n = "SetHashedID (blake3 E) n"
  have "refreshNode (HashedID ?n) (ht s) = Some (ht s') \<or>
      (\<exists>i b c. bucket_at (ht s) i = Some b \<and> c \<in> {b @ [?n], tl b @ [?n], tl (b @ [?n])} \<and> ht s' = set_bucket (ht s) i c)"
    using assms False
    by (auto simp: addNode_def Let_def case_prod_unfold split: bind_splits if_splits sum.splits) blast+
  then show ?thesis
  proof (elim disjE exE conjE)
    assume "refreshNode (HashedID ?n) (ht s) = Some (ht s')"
    then show ?thesis using refreshNode_nodes by blast
  next
    fix i b c
    assume b: "bucket_at (ht s) i = Some b" "c \<in> {b @ [?n], tl b @ [?n], tl (b @ [?n])}" "ht s' = set_bucket (ht s) i c"
    have "set c \<subseteq> insert ?n (set b)" using b(2) by (cases b) auto
    then show ?thesis using bucket_at_nodes[OF b(1)] set_bucket_nodes[of "ht s" i c] unfolding b(3) by blast
  qed
qed

abbreviation table_ids :: "dht \<Rightarrow> string set" where
  "table_ids s \<equiv> ids (ht_nodes (ht s))"

lemma addKnownNodes_table:
  "addKnownNodes E ns known s = Some (known', s') \<Longrightarrow> table_ids s' \<subseteq> table_ids s \<union> ids ns"
proof (induction ns arbitrary: known s)
  case (Cons n ns)
  show ?case
  proof (cases "map_of known (key_of n) = None")
    case True
    let ?n = "SetHashedID (blake3 E) n"
    obtain r s1 b h where a: "addNode E ?n s = Some (r, s1)" "resetRefreshTime (now E) b (ht s1) = Some h"
        "addKnownNodes E ns (alist_update (key_of ?n) ?n known) (s1\<lparr>ht := h\<rparr>) = Some (known', s')"
      using Cons.prems True by (auto simp: Let_def split: bind_splits)
    have "ht_nodes h = ht_nodes (ht s1)" using a(2) by (auto simp: resetRefreshTime_def ht_nodes_def split: if_splits)
    then have "table_ids (s1\<lparr>ht := h\<rparr>) = table_ids s1" by simp
    moreover have "table_ids s1 \<subseteq> insert (key_of n) (table_ids s)"
      using image_mono[OF addNode_table[OF a(1)], of key_of] by simp
    ultimately have "table_ids (s1\<lparr>ht := h\<rparr>) \<subseteq> insert (key_of n) (table_ids s)" by simp
    then show ?thesis unfolding ids_Cons by (rule subset_step[OF Cons.IH[OF a(3)]])
  next
    case False
    then have "addKnownNodes E ns known s = Some (known', s')" using Cons.prems by simp
    from Cons.IH[OF this] show ?thesis by (rule subset_trans) auto
  qed
qed simp

lemma fold_AddNodes_set:
  "set (nl_Nodes (fold (\<lambda>n nl. if P n then nl else AddNodes [n] nl) ns nl)) \<subseteq> set (nl_Nodes nl) \<union> set ns"
proof (induction ns arbitrary: nl)
  case (Cons n ns)
  from Cons[of "if P n then nl else AddNodes [n] nl"] AddNodes_set[of "[n]" nl] show ?case by (auto split: if_splits)
qed simp

lemma closest_None_nodes: "ids (nl_Nodes (closestContactsWithInlcudingNode num t ign None h)) \<subseteq> ids (ht_nodes h)"
proof -
  let ?nl = "fold (\<lambda>n nl. if str_of_bytes (ID n) \<in> set (map (\<lambda>n. hex_encode (ID n)) ign) then nl else AddNodes [n] nl)
      (concat (routeTable h)) \<lparr>nl_Nodes = [], Comparator = t\<rparr>"
  have a1: "ids (nl_Nodes ?nl) \<subseteq> ids (ht_nodes h)"
    using image_mono[OF fold_AddNodes_set[of "\<lambda>n. str_of_bytes (ID n) \<in> set (map (\<lambda>n. hex_encode (ID n)) ign)"
          "concat (routeTable h)" "\<lparr>nl_Nodes = [], Comparator = t\<rparr>"], of key_of] by (simp add: ht_nodes_def)
  have a2: "ids (nl_Nodes (TopN num (nl_Sort ?nl))) \<subseteq> ids (nl_Nodes ?nl)"
    using nl_ids_TopN[of num "nl_Sort ?nl"] by (simp only: nl_ids_Sort)
  have c: "closestContactsWithInlcudingNode num t ign None h = TopN num (nl_Sort ?nl)"
    by (simp only: closestContactsWithInlcudingNode_def Let_def option.case)
  show ?thesis unfolding c by (rule subset_trans[OF a2 a1])
qed

lemma batch_store_init_ids:
  assumes "batch_store_init E hs global known s = Some (global', known', s')" and "known_ids known \<subseteq> U" and "table_ids s \<subseteq> U"
  shows "known_ids known' \<subseteq> U"
  using assms
proof (induction hs arbitrary: global known s)
  case (Cons t hs)
  let ?top = "closestContactsWithInlcudingNode Alpha t (ToNodeList (ignorelist s)) None (ht s)"
  obtain known1 s1 where a: "addKnownNodes E (nl_Nodes ?top) known s = Some (known1, s1)"
      "batch_store_init E hs (alist_update (b58encode E t) ?top global) known1 s1 = Some (global', known', s')"
    using Cons.prems(1) by (auto simp: Let_def split: bind_splits)
  have "ids (nl_Nodes ?top) \<subseteq> U" using closest_None_nodes Cons.prems(3) by (rule subset_trans)
  then have "known_ids known1 \<subseteq> U" "table_ids s1 \<subseteq> U"
    by (rule subset_trans[OF addKnownNodes_ids[OF a(1)] Un_least[OF Cons.prems(2)]],
        rule subset_trans[OF addKnownNodes_table[OF a(1)] Un_least[OF Cons.prems(3)]])
  then show ?case by (rule Cons.IH[OF a(2)])
qed simp

text \<open>Every round that goes on asks a node that was not asked before.\<close>

lemma rounds_end:
  assumes "finite U" and "named_in U E" and "\<And>xs. set (sched E xs) \<subseteq> set xs" and "\<And>ms. set (arrive E ms) \<subseteq> set ms"
  shows "known_ids known \<subseteq> U \<Longrightarrow> card (U - contacted) < fuel \<Longrightarrow>
    batch_store_rounds E fuel hashes global known contacted s \<noteq> Running"
proof (induction fuel arbitrary: global known contacted s)
  case (Suc fuel)
  define picked where "picked = filter (\<lambda>n. key_of n \<notin> contacted \<and> \<not> Banned (ignorelist s) n) (sched E (map snd known))"
  obtain ms s1 where c: "call_all E BatchFindNode (\<lambda>_. BatchFindNodeRequest hashes) picked s = (ms, s1)" by fastforce
  have b: "batchFindNode E hashes known contacted s = (arrive E ms, picked \<noteq> [], contacted \<union> ids picked, s1)"
    using c by (simp add: batchFindNode_def Let_def picked_def)
  have ans: "\<forall>m\<in>set (arrive E ms). \<exists>h q. net_answer E h q = Inr m"
  proof
    fix m assume "m \<in> set (arrive E ms)"
    then have "m \<in> set ms" by (rule subsetD[OF assms(4)])
    then show "\<exists>h q. net_answer E h q = Inr m"
      using call_all_answers[of m E BatchFindNode "\<lambda>_. BatchFindNodeRequest hashes" picked s] c by simp
  qed
  show ?case
  proof (cases "picked = []")
    case True
    then show ?thesis by (simp add: b)
  next
    case False
    have sub: "ids picked \<subseteq> U"
    proof -
      have "set picked \<subseteq> set (map snd known)"
        unfolding picked_def using assms(3)[of "map snd known"] by (meson filter_is_subset subset_trans)
      from subset_trans[OF image_mono[OF this, of key_of] Suc.prems(1)] show ?thesis .
    qed
    have "ids picked \<noteq> {}" using False by simp
    moreover have "ids picked \<inter> contacted = {}" by (auto simp: picked_def)
    ultimately have "U - (contacted \<union> ids picked) \<subset> U - contacted" using sub by (rule fewer_left)
    then have "card (U - (contacted \<union> ids picked)) < card (U - contacted)"
      by (rule psubset_card_mono[OF finite_Diff[OF assms(1)]])
    then have less: "card (U - (contacted \<union> ids picked)) < fuel" using Suc.prems(2) by linarith
    show ?thesis
    proof (cases "note_responses E (arrive E ms) [] known s1")
      case None
      then show ?thesis using False b by simp
    next
      case (Some p)
      obtain loc known1 s2 where p: "p = (loc, known1, s2)" by (cases p)
      have n: "known_ids known1 \<subseteq> U \<and> (\<forall>nl\<in>snd ` set loc. ids (nl_Nodes nl) \<subseteq> U)"
        by (rule note_responses_ids[OF ans assms(2) Suc.prems(1) _ Some[unfolded p]]) simp
      show ?thesis
      proof (cases "merge_closest E loc global known1 False s2")
        case None
        then show ?thesis using False b Some p by simp
      next
        case (Some q)
        obtain global' known2 ch s3 where q: "q = (global', known2, ch, s3)" by (cases q)
        have "known_ids known2 \<subseteq> U" using merge_closest_ids[OF _ _ Some[unfolded q]] n by blast
        then have "batch_store_rounds E fuel hashes global' known2 (contacted \<union> ids picked) s3 \<noteq> Running"
          by (rule Suc.IH[OF _ less])
        then show ?thesis
          using False b \<open>note_responses _ _ _ _ _ = _\<close> p Some q by simp
      qed
    qed
  qed
qed simp

section \<open>Correctness of the batch store\<close>

text \<open>C38. A batch store ends: when the nodes of the routing table and all nodes that answers may
  name come from a finite set of \<open>n\<close> identifiers, at most \<open>n + 1\<close> rounds of requests are made, whatever the
  nodes answer.\<close>

theorem IterateBatchStore_ends:
  assumes "finite U" and "named_in U E" and "table_ids s \<subseteq> U"
    and "\<And>xs. set (sched E xs) \<subseteq> set xs" and "\<And>ms. set (arrive E ms) \<subseteq> set ms"
  shows "IterateBatchStore E (Suc (card U)) vals ty s \<noteq> Running"
proof (cases "batch_store_init E (map (blake3 E) vals) [] [] s")
  case (Some p)
  obtain global known s1 where p: "p = (global, known, s1)" by (cases p)
  have "known_ids known \<subseteq> U" using batch_store_init_ids[OF Some[unfolded p] _ assms(3)] by simp
  then have "batch_store_rounds E (Suc (card U)) (map (blake3 E) vals) global known {} s1 \<noteq> Running"
    by (rule rounds_end[OF assms(1,2,4,5)]) simp
  then show ?thesis using Some p
    by (auto simp: IterateBatchStore_def Let_def case_prod_unfold split: run.splits option.splits)
qed (simp add: IterateBatchStore_def)

definition wit_batch_answer :: "string \<Rightarrow> message" where
  "wit_batch_answer k = \<lparr>Sender = None, Receiver = None, MessageType = BatchFindNode,
     Data = BatchFindNodeResponse \<lparr>Result = 0, ErrMsg = []\<rparr> [(k, [wit_peer])]\<rparr>"

definition wit_batch_env :: "message \<Rightarrow> env" where
  "wit_batch_env a = wit_env\<lparr>net_answer := \<lambda>h m. Inr a\<rparr>"

definition wit_one_node :: dht where
  "wit_one_node = wit_dht\<lparr>ht := (ht wit_dht)\<lparr>routeTable := [wit_peer] # replicate 255 []\<rparr>\<rparr>"

theorem IterateBatchStore_ends_witness:
  "IterateBatchStore (wit_batch_env (wit_batch_answer '''')) 2 [[1]] 0 wit_one_node \<noteq> Running"
proof -
  have "named_in {key_of wit_peer} (wit_batch_env (wit_batch_answer ''''))"
    by (auto simp: named_in_def wit_batch_env_def wit_batch_answer_def)
  moreover have "table_ids wit_one_node \<subseteq> {key_of wit_peer}"
    by (simp add: wit_one_node_def ht_nodes_def wit_dht_def)
  ultimately show ?thesis
    using IterateBatchStore_ends[of "{key_of wit_peer}" "wit_batch_env (wit_batch_answer '''')" wit_one_node "[[1]]" 0]
    by (simp add: wit_batch_env_def wit_env_def numeral_2_eq_2)
qed

text \<open>A key that a response names gets a list in the round, and a list without a counterpart among the
  lists kept so far is a nil dereference.\<close>

lemma note_closest_keys:
  "note_closest E cl loc known s = Some (loc', known', s') \<Longrightarrow>
   fst ` set loc' = fst ` set loc \<union> {k. \<exists>ns. (k, ns) \<in> set cl \<and> ns \<noteq> []}"
proof (induction cl arbitrary: loc known s)
  case (Cons x cl)
  obtain k ns where x: "x = (k, ns)" by (cases x)
  show ?case
  proof (cases "ns = []")
    case True
    then have "note_closest E cl loc known s = Some (loc', known', s')" using Cons.prems x by simp
    from Cons.IH[OF this] show ?thesis using True x by auto
  next
    case False
    then obtain nl known1 s1 where "note_closest E cl (alist_update k nl loc) known1 s1 = Some (loc', known', s')"
      using Cons.prems x by (auto simp: Let_def split: bind_splits)
    from Cons.IH[OF this] show ?thesis using False x by auto
  qed
qed simp

lemma note_responses_keys:
  "note_responses E ms loc known s = Some (loc', known', s') \<Longrightarrow>
   fst ` set loc \<subseteq> fst ` set loc' \<and>
   (\<forall>m st cl k ns. m \<in> set ms \<longrightarrow> Data m = BatchFindNodeResponse st cl \<longrightarrow> Result st = ResultOk \<longrightarrow> (k, ns) \<in> set cl \<longrightarrow> ns \<noteq> []
      \<longrightarrow> k \<in> fst ` set loc')"
proof (induction ms arbitrary: loc known s)
  case (Cons m ms)
  let ?ok = "\<lambda>st cl. Data m = BatchFindNodeResponse st cl \<and> Result st = ResultOk"
  obtain loc1 known1 s1 where s1: "note_responses E ms loc1 known1 s1 = Some (loc', known', s')"
    "((\<nexists>st cl. ?ok st cl) \<and> loc1 = loc) \<or> (\<exists>st cl. ?ok st cl \<and> note_closest E cl loc known s = Some (loc1, known1, s1))"
    using Cons.prems by (auto split: bind_splits payload.splits if_splits)
  note ih = Cons.IH[OF s1(1)]
  have sub: "fst ` set loc \<subseteq> fst ` set loc1"
    using s1(2) note_closest_keys[of E _ loc known s loc1 known1 s1] by (elim disjE exE conjE) simp_all
  have here: "k \<in> fst ` set loc1" if "?ok st cl" "(k, ns) \<in> set cl" "ns \<noteq> []" for st cl k ns
    using s1(2) that by (auto dest: note_closest_keys)
  show ?case
  proof (intro conjI allI impI)
    show "fst ` set loc \<subseteq> fst ` set loc'" using sub ih by (meson subset_trans)
  next
    fix n st cl k ns
    assume n: "n \<in> set (m # ms)" "Data n = BatchFindNodeResponse st cl" "Result st = ResultOk" "(k, ns) \<in> set cl" "ns \<noteq> []"
    show "k \<in> fst ` set loc'"
    proof (cases "n = m")
      case True
      then have "k \<in> fst ` set loc1" using here n by simp
      then show ?thesis using ih by (meson subsetD)
    next
      case False
      then have "n \<in> set ms" using n(1) by simp
      then show ?thesis using ih n(2-) by meson
    qed
  qed
qed simp

lemma merge_closest_unknown:
  "k \<in> fst ` set loc \<Longrightarrow> k \<notin> fst ` set global \<Longrightarrow> merge_closest E loc global known ch s = None"
proof (induction loc arbitrary: global known ch s)
  case (Cons x loc)
  obtain k' nl where x: "x = (k', nl)" by (cases x)
  show ?case
  proof (cases "k' = k")
    case True
    then have "map_of global k' = None" using Cons.prems(2) by (simp add: map_of_eq_None_iff)
    then show ?thesis using x by (simp add: Let_def split: bind_splits)
  next
    case False
    then have in_loc: "k \<in> fst ` set loc" using Cons.prems(1) x by simp
    have "merge_closest E loc (alist_update k' v global) known1 ch1 s1 = None" for v known1 ch1 s1
      using Cons.IH[OF in_loc] False Cons.prems(2) by simp
    then show ?thesis using x by (auto simp: Let_def split: bind_splits option.splits)
  qed
qed simp

lemma batch_store_init_keys:
  "batch_store_init E hs global known s = Some (global', known', s') \<Longrightarrow>
   fst ` set global' = fst ` set global \<union> b58encode E ` set hs"
proof (induction hs arbitrary: global known s)
  case (Cons h hs)
  then obtain nl known1 s1 where "batch_store_init E hs (alist_update (b58encode E h) nl global) known1 s1 = Some (global', known', s')"
    by (auto simp: Let_def split: bind_splits)
  from Cons.IH[OF this] show ?case by auto
qed simp

text \<open>One answer can end the process: when a node that is asked in the first round of a batch store
  answers with a non-empty list of nodes for a key that was not asked for, the batch store panics.\<close>

theorem unasked_key_crashes:
  assumes "batch_store_init E (map (blake3 E) vals) [] [] s = Some (global, known, s1)"
    and "batchFindNode E (map (blake3 E) vals) known {} s1 = (responses, True, contacted, s2)"
    and "m \<in> set responses" and "Data m = BatchFindNodeResponse st cl" and "Result st = ResultOk"
    and "(k, ns) \<in> set cl" and "ns \<noteq> []" and "k \<notin> b58encode E ` blake3 E ` set vals"
  shows "IterateBatchStore E (Suc fuel) vals ty s = Crashed"
proof -
  have "k \<notin> fst ` set global" using batch_store_init_keys[OF assms(1)] assms(8) by simp
  have "batch_store_rounds E (Suc fuel) (map (blake3 E) vals) global known {} s1 = Crashed"
  proof -
    have "merge_closest E loc global known1 False s3 = None"
      if "note_responses E responses [] known s2 = Some (loc, known1, s3)" for loc known1 s3
    proof (rule merge_closest_unknown)
      show "k \<in> fst ` set loc" using note_responses_keys[OF that] assms(3-7) by meson
    qed fact
    then show ?thesis using assms(2) by (auto split: option.splits)
  qed
  then show ?thesis using assms(1) by (simp add: IterateBatchStore_def Let_def)
qed

lemma wit_one_node_parts:
  "self (ht wit_one_node) = \<lparr>ID = [9], IP = ''10.0.0.9'', Port = 4445, HashedID = replicate 31 0 @ [9]\<rparr>"
  "routeTable (ht wit_one_node) = [wit_peer] # replicate 255 []" "ignorelist wit_one_node = []" "sent wit_one_node = []"
  by (simp_all add: wit_one_node_def wit_dht_def)

lemma wit_add_peer:
  "\<exists>s1. addNode (wit_batch_env a) wit_peer (wit_one_node\<lparr>dht_store := st\<rparr>) = Some (None, s1) \<and> ht s1 = ht wit_one_node \<and> ignorelist s1 = [] \<and> sent s1 = []"
proof -
  let ?s0 = "wit_one_node\<lparr>dht_store := st\<rparr>"
  define u where "u = snd (updateReplicationNode (wit_batch_env a) [8] ''10.0.0.8'' 4445 True ?s0)"
  have f: "ht u = ht wit_one_node" "ignorelist u = []" "sent u = []"
    by (simp_all add: u_def wit_one_node_parts)
  have p: "SetHashedID (blake3 (wit_batch_env a)) wit_peer = wit_peer" "ID wit_peer = [8]" "IP wit_peer = ''10.0.0.8''"
      "Port wit_peer = 4445" "HashedID wit_peer = replicate 31 0 @ [8]"
    by (simp_all add: wit_peer_def SetHashedID_def)
  have r: "refreshNode (HashedID wit_peer) (ht wit_one_node) = Some (ht wit_one_node)"
    by (simp add: refreshNode_def wit_one_node_parts wit_index p bucket_at_def set_bucket_def move_to_end_def Let_def)
  have h: "hasBucketNode 0 [8] (ht wit_one_node) = Some True"
    by (simp add: hasBucketNode_def wit_one_node_parts bucket_at_def p)
  have "addNode (wit_batch_env a) wit_peer ?s0 = Some (None, u\<lparr>ht := ht wit_one_node\<rparr>)"
    using r h by (simp add: addNode_def Let_def p f wit_one_node_parts wit_index flip: u_def)
  then show ?thesis using f by simp
qed

lemma wit_init:
  "\<exists>s1. batch_store_init (wit_batch_env a) [replicate 31 0 @ [1]] [] [] (wit_one_node\<lparr>dht_store := st\<rparr>)
     = Some ([([], \<lparr>nl_Nodes = [wit_peer], Comparator = replicate 31 0 @ [1]\<rparr>)], [(key_of wit_peer, wit_peer)], s1)
     \<and> ignorelist s1 = [] \<and> sent s1 = []"
proof -
  let ?E = "wit_batch_env a" and ?t = "replicate 31 0 @ [1] :: bytes"
  have c: "closestContactsWithInlcudingNode Alpha ?t [] None (ht wit_one_node) = \<lparr>nl_Nodes = [wit_peer], Comparator = ?t\<rparr>"
    by (simp add: closestContactsWithInlcudingNode_def wit_one_node_def wit_dht_def nl_Sort_def TopN_def nl_Len_def nl_exists_def Alpha_def)
  have f: "ignorelist wit_one_node = []" "HashedID (self (ht wit_one_node)) = replicate 31 0 @ [9]"
      "length (refreshers (ht wit_one_node)) = 256" "HashedID wit_peer = replicate 31 0 @ [8]"
      "SetHashedID (blake3 ?E) wit_peer = wit_peer" "b58encode ?E ?t = []"
    by (simp_all add: wit_one_node_def wit_dht_def wit_peer_def B_def SetHashedID_def wit_batch_env_def wit_env_def)
  show ?thesis using wit_add_peer[of a st]
    by (auto simp: c f Let_def wit_index resetRefreshTime_def alist_update_def ToNodeList_def)
qed

lemma wit_init_same:
  "\<exists>s1. batch_store_init (wit_batch_env a) [replicate 31 0 @ [1]] [] [] wit_one_node
     = Some ([([], \<lparr>nl_Nodes = [wit_peer], Comparator = replicate 31 0 @ [1]\<rparr>)], [(key_of wit_peer, wit_peer)], s1)
     \<and> ignorelist s1 = [] \<and> sent s1 = []"
proof -
  have "wit_one_node\<lparr>dht_store := dht_store wit_one_node\<rparr> = wit_one_node" by simp
  then show ?thesis using wit_init[of a "dht_store wit_one_node"] by metis
qed

lemma wit_find:
  "ignorelist s = [] \<Longrightarrow> sent s = [] \<Longrightarrow> \<exists>s2. batchFindNode (wit_batch_env a) hs [(key_of wit_peer, wit_peer)] {} s = ([a], True, {key_of wit_peer}, s2) \<and> ignorelist s2 = []"
  by (simp add: batchFindNode_def wit_batch_env_def wit_env_def net_call_def Let_def case_prod_unfold)

theorem unasked_key_crashes_witness:
  "IterateBatchStore (wit_batch_env (wit_batch_answer ''x'')) 1 [[1]] 0 wit_one_node = Crashed"
proof -
  let ?E = "wit_batch_env (wit_batch_answer ''x'')"
  have h: "map (blake3 ?E) [[1]] = [replicate 31 0 @ [1]]" by (simp add: wit_batch_env_def wit_env_def)
  obtain s1 g where i: "batch_store_init ?E (map (blake3 ?E) [[1]]) [] [] wit_one_node = Some (g, [(key_of wit_peer, wit_peer)], s1)"
      "ignorelist s1 = []" "sent s1 = []"
    using wit_init_same unfolding h by blast
  obtain s2 where "batchFindNode ?E (map (blake3 ?E) [[1]]) [(key_of wit_peer, wit_peer)] {} s1 = ([wit_batch_answer ''x''], True, {key_of wit_peer}, s2)"
    using wit_find[OF i(2,3)] by blast
  from unasked_key_crashes[OF i(1) this, of "wit_batch_answer ''x''" "\<lparr>Result = 0, ErrMsg = []\<rparr>" "[(''x'', [wit_peer])]" "''x''" "[wit_peer]" 0 0]
  show ?thesis by (simp add: wit_batch_answer_def ResultOk_def wit_batch_env_def wit_env_def)
qed

lemma call_all_spec:
  assumes "dberr E ''ctx'' = None"
  shows "\<exists>reqs. sent (snd (call_all E mt d ns s)) = sent s @ reqs \<and> map Receiver reqs = map Some ns \<and> map Data reqs = map d ns
     \<and> length (filter store_response_ok (fst (call_all E mt d ns s))) = acks E (sent s) reqs"
proof (induction ns arbitrary: s)
  case (Cons n ns)
  obtain m s1 where m: "newMessage E mt n (d n) s = (m, s1)" by fastforce
  have f: "sent s1 = sent s" "Receiver m = Some n" "Data m = d n"
    using newMessage_frame(3)[of E mt n "d n" s] newMessage_fields[of E mt n "d n" s] m by simp_all
  let ?s2 = "s1\<lparr>sent := sent s1 @ [m]\<rparr>"
  let ?s3 = "?s2\<lparr>ignorelist := IncrementCount (now E) n (ignorelist ?s2)\<rparr>"
  define t where "t = (case net_answer E (sent s1) m of Inl _ \<Rightarrow> ?s3 | Inr _ \<Rightarrow> ?s2)"
  have t: "sent t = sent s @ [m]" using f(1) by (simp add: t_def split: sum.splits)
  obtain reqs where r: "sent (snd (call_all E mt d ns t)) = sent t @ reqs" "map Receiver reqs = map Some ns"
      "map Data reqs = map d ns" "length (filter store_response_ok (fst (call_all E mt d ns t))) = acks E (sent t) reqs"
    using Cons.IH[of t] by blast
  have c: "snd (call_all E mt d (n # ns) s) = snd (call_all E mt d ns t)"
     "fst (call_all E mt d (n # ns) s) = (case net_answer E (sent s1) m of Inl _ \<Rightarrow> [] | Inr a \<Rightarrow> [a]) @ fst (call_all E mt d ns t)"
    using assms by (simp_all add: m net_call_def t_def Let_def case_prod_unfold split: sum.splits)
  have ok: "length (filter store_response_ok (case net_answer E (sent s1) m of Inl _ \<Rightarrow> [] | Inr a \<Rightarrow> [a]))
      = (if store_ok (store_answer E (sent s) m) then 1 else 0)"
    using f(1) by (auto simp: store_answer_def store_ok_def store_response_ok_def split: sum.splits payload.splits)
  show ?case
    by (rule exI[of _ "m # reqs"]) (use r t f c ok in simp)
qed simp

text \<open>How a batch store ends: after the rounds every known node that is not banned is sent exactly one
  request, with the values whose closest nodes it is among, an empty batch when there are none; the
  store succeeds exactly when some request was sent and three quarters of all requests were acknowledged.\<close>

theorem IterateBatchStore_outcome:
  assumes "dberr E ''ctx'' = None" and "\<And>xs. mset (sched E xs) = mset xs" and "\<And>xs. mset (arrive E xs) = mset xs"
    and "IterateBatchStore E fuel vals ty s = Finished (e, s')"
  shows "\<exists>g k s1 global known s2 reqs ns. sent s' = sent s2 @ reqs
     \<and> batch_store_init E (map (blake3 E) vals) [] [] s = Some (g, k, s1)
     \<and> batch_store_rounds E fuel (map (blake3 E) vals) g k {} s1 = Finished (global, known, s2)
     \<and> map Receiver reqs = map Some ns \<and> mset ns = mset (filter (\<lambda>n. \<not> Banned (ignorelist s2) n) (map snd known))
     \<and> map Data reqs = map (\<lambda>n. BatchStoreDataRequest (map ((!) vals) (storage_map E global (map (blake3 E) vals) (key_of n))) ty) ns
     \<and> (e = None \<longleftrightarrow> reqs \<noteq> [] \<and> 75 * length reqs \<le> 100 * acks E (sent s2) reqs)"
proof -
  let ?hs = "map (blake3 E) vals"
  obtain g k s1 global known s2 where r: "batch_store_init E ?hs [] [] s = Some (g, k, s1)"
      "batch_store_rounds E fuel ?hs g k {} s1 = Finished (global, known, s2)"
    using assms(4) by (auto simp: IterateBatchStore_def Let_def split: option.splits run.splits)
  define ns where "ns = filter (\<lambda>n. \<not> Banned (ignorelist s2) n) (sched E (map snd known))"
  let ?d = "\<lambda>n. BatchStoreDataRequest (map ((!) vals) (storage_map E global ?hs (key_of n))) ty"
  obtain ms s3 where c: "call_all E BatchStoreData ?d ns s2 = (ms, s3)" by fastforce
  obtain reqs where q: "sent s3 = sent s2 @ reqs" "map Receiver reqs = map Some ns" "map Data reqs = map ?d ns"
      "length (filter store_response_ok ms) = acks E (sent s2) reqs"
    using call_all_spec[OF assms(1), of BatchStoreData ?d ns s2] c by auto
  have len: "length reqs = length ns" using arg_cong[OF q(2), of length] by simp
  have "mset (filter store_response_ok (arrive E ms)) = mset (filter store_response_ok ms)"
    using assms(3) by simp
  then have "length (filter store_response_ok (arrive E ms)) = length (filter store_response_ok ms)"
    by (rule mset_eq_length)
  moreover have "store_outcome (arrive E ms) (length ns) = Some e" "s' = s3"
    using assms(4) r c
    by (auto simp: IterateBatchStore_def Let_def batchStoreNetwork_def ns_def split: option.splits)
  ultimately have out: "e = None \<longleftrightarrow> reqs \<noteq> [] \<and> 75 * length reqs \<le> 100 * acks E (sent s2) reqs"
    using q(4) len by (auto simp: store_outcome_def Let_def minimumDataStoreSuccessRate_def split: if_splits)
  have "mset ns = mset (filter (\<lambda>n. \<not> Banned (ignorelist s2) n) (map snd known))"
    using assms(2) by (simp add: ns_def)
  with r q(1-3) out \<open>s' = s3\<close> show ?thesis
    by (intro exI[of _ g] exI[of _ k] exI[of _ s1] exI[of _ global] exI[of _ known] exI[of _ s2] exI[of _ reqs] exI[of _ ns]) simp
qed

definition wit_ack :: message where
  "wit_ack = \<lparr>Sender = None, Receiver = None, MessageType = BatchStoreData, Data = StoreDataResponse \<lparr>Result = 0, ErrMsg = []\<rparr>\<rparr>"

lemma wit_store: "\<exists>s'. IterateBatchStore (wit_batch_env wit_ack) 1 [[1]] ty (wit_one_node\<lparr>dht_store := st\<rparr>) = Finished (None, s')"
proof -
  let ?E = "wit_batch_env wit_ack"
  have h: "blake3 ?E [1] = replicate 31 0 @ [1]" by (simp add: wit_batch_env_def wit_env_def)
  have n: "net_answer ?E x y = Inr wit_ack" "arrive ?E z = z" "sched ?E u = u" "dberr ?E v = None" for x y z u v
    by (simp_all add: wit_batch_env_def wit_env_def)
  obtain s1 g where i: "batch_store_init ?E [replicate 31 0 @ [1]] [] [] (wit_one_node\<lparr>dht_store := st\<rparr>) = Some (g, [(key_of wit_peer, wit_peer)], s1)"
      "ignorelist s1 = []" "sent s1 = []"
    using wit_init by blast
  obtain s2 where f: "batchFindNode ?E [replicate 31 0 @ [1]] [(key_of wit_peer, wit_peer)] {} s1 = ([wit_ack], True, {key_of wit_peer}, s2)"
      "ignorelist s2 = []"
    using wit_find[OF i(2,3)] by blast
  have a: "Data wit_ack = StoreDataResponse \<lparr>Result = 0, ErrMsg = []\<rparr>" by (simp add: wit_ack_def)
  show ?thesis
    using i f by (simp add: IterateBatchStore_def h a batchStoreNetwork_def net_call_def n case_prod_unfold Let_def
        store_outcome_def store_response_ok_def ResultOk_def minimumDataStoreSuccessRate_def)
qed

theorem IterateBatchStore_outcome_witness:
  "\<exists>s' h reqs. IterateBatchStore (wit_batch_env wit_ack) 1 [[1]] 0 wit_one_node = Finished (None, s')
     \<and> sent s' = h @ reqs \<and> 75 * length reqs \<le> 100 * acks (wit_batch_env wit_ack) h reqs \<and> reqs \<noteq> []"
proof -
  let ?E = "wit_batch_env wit_ack"
  have n: "arrive ?E z = z" "sched ?E u = u" "dberr ?E v = None" for z u v
    by (simp_all add: wit_batch_env_def wit_env_def)
  have "wit_one_node\<lparr>dht_store := dht_store wit_one_node\<rparr> = wit_one_node" by simp
  then obtain s' where run: "IterateBatchStore ?E 1 [[1]] 0 wit_one_node = Finished (None, s')" using wit_store by metis
  from IterateBatchStore_outcome[OF _ _ _ run] n run show ?thesis by auto
qed

end
