(* ===== verification/Batch_Retrieve.thy ===== *)
theory Batch_Retrieve
  imports Batch_Store
begin

text \<open>
  Retrieving a batch of values (\<^verbatim>\<open>BatchRetrieve\<close>, \<^verbatim>\<open>fetchAndAddLocalKeys\<close>,
  \<^verbatim>\<open>processBatch\<close>, \<^verbatim>\<open>iterateBatchGetValues\<close> and \<^verbatim>\<open>doBatchGetValuesCall\<close> of
  \<^verbatim>\<open>p2p/kademlia/dht.go\<close>).  The values of the local store are taken first; the missing ones are asked
  from the closest nodes, in up to four rounds per batch of keys.

  Within a round a semaphore lets one request run at a time, in the order \<open>sched\<close>.  When enough values were
  found the context is cancelled; a goroutine that is still waiting then either returns or gets the semaphore,
  which \<open>late\<close> tells.  The batches themselves run one after the other when at most 2,500 values are required
  (the semaphore then has one slot), which is the case modelled; with two slots two goroutines write the same Go
  maps without a lock.  \<open>resp_order\<close> and \<open>contact_order\<close> are iteration orders of Go maps.  The result map from
  hex keys to values is an association list.  A panic is \<open>None\<close>.
\<close>

section \<open>Local values\<close>

record retrieve_env =
  late :: "node \<Rightarrow> bool"
  resp_order :: "kv_map \<Rightarrow> kv_map"
  contact_order :: "(string \<times> node list) list \<Rightarrow> (string \<times> node list) list"
  fetchBatch :: "string list \<Rightarrow> (string \<times> bytes) list result"

type_synonym res_map = "(string \<times> bytes) list"

definition localBatchSize :: nat where "localBatchSize = 5000"
definition batchStoreSize :: nat where "batchStoreSize = 2500"

function batches_of :: "nat \<Rightarrow> 'a list \<Rightarrow> 'a list list" where
  "batches_of n xs = (if xs = [] \<or> n = 0 then [] else take n xs # batches_of n (drop n xs))"
  by auto
termination by (relation "measure (\<lambda>(n, xs). length xs)") auto

declare batches_of.simps [simp del]

text \<open>The loop over the values of one batch; the flag tells that enough values were found.\<close>

fun add_values :: "int \<Rightarrow> (string \<times> bytes) list \<Rightarrow> int \<Rightarrow> res_map \<Rightarrow> bool \<times> int \<times> res_map" where
  "add_values req [] cnt res = (False, cnt, res)"
| "add_values req ((k, v) # kvs) cnt res =
     (if length v > 0 then
        if cnt + 1 \<ge> req then (True, cnt + 1, alist_update k v res) else add_values req kvs (cnt + 1) (alist_update k v res)
      else add_values req kvs cnt res)"

fun local_batches ::
  "env \<Rightarrow> retrieve_env \<Rightarrow> nat \<Rightarrow> int \<Rightarrow> string list list \<Rightarrow> int \<Rightarrow> string option \<Rightarrow> res_map \<Rightarrow> sqlite_store \<Rightarrow>
   string option \<times> int \<times> res_map \<times> sqlite_store" where
  "local_batches E R i req [] cnt err res st = (err, cnt, res, st)"
| "local_batches E R i req (b # bs) cnt err res st =
     (case retrieveBatchValues (fetchBatch R) (dberr E (''RetrieveBatchValues'' @ itoa i)) b False st of
        (Inl e, st1) \<Rightarrow> local_batches E R (Suc i) req bs cnt (Some (''retrieve batch values (local): '' @ e)) res st1
      | (Inr (vals, _), st1) \<Rightarrow>
          (case add_values req (zip b vals) cnt res of
             (True, cnt', res') \<Rightarrow> (None, cnt', res', st1)
           | (False, cnt', res') \<Rightarrow> local_batches E R (Suc i) req bs cnt' err res' st1))"

definition fetchAndAddLocalKeys ::
  "env \<Rightarrow> retrieve_env \<Rightarrow> string list \<Rightarrow> int \<Rightarrow> res_map \<Rightarrow> sqlite_store \<Rightarrow> string option \<times> int \<times> res_map \<times> sqlite_store" where
  "fetchAndAddLocalKeys E R hexKeys req res st = local_batches E R 0 req (batches_of localBatchSize hexKeys) 0 None res st"

section \<open>Requests\<close>

definition doBatchGetValuesCall :: "env \<Rightarrow> node \<Rightarrow> kv_map \<Rightarrow> dht \<Rightarrow> kv_map result \<times> dht" where
  "doBatchGetValuesCall E n requestKeys s = (
     let (request, s1) = newMessage E BatchGetValues n (BatchGetValuesRequest requestKeys) s;
         (response, s2) = net_call E request s1
     in (case response of
           Inl e \<Rightarrow> errorf (''network call request failed: '' @ e)
         | Inr m \<Rightarrow>
             (case Data m of
                BatchGetValuesResponse d st \<Rightarrow> if Result st \<noteq> ResultOk then errorf (''response status: '' @ ErrMsg st) else Inr d
              | _ \<Rightarrow> errorf ''invalid response type''), s2))"

definition no_value :: key_val_with_closest where "no_value = \<lparr>kv_Value = [], kv_Closest = []\<rparr>"

definition request_keys :: "string list \<Rightarrow> nat list \<Rightarrow> res_map \<Rightarrow> kv_map" where
  "request_keys hexKeys indices res = fold (\<lambda>idx m. if idx < length hexKeys \<and> map_of res (hexKeys ! idx) = None
     then alist_update (hexKeys ! idx) no_value m else m) indices []"

text \<open>The loop over a response: values that are new are counted, up to the number that is still missing; a key
  without a value brings the closest nodes of that key.\<close>

fun take_response ::
  "int \<Rightarrow> kv_map \<Rightarrow> int \<Rightarrow> res_map \<Rightarrow> (string \<times> node list) list \<Rightarrow> bool \<times> int \<times> res_map \<times> (string \<times> node list) list" where
  "take_response missing [] found res contacts = (False, found, res, contacts)"
| "take_response missing ((k, v) # kvs) found res contacts =
     (if length (kv_Value v) > 0 then
        if map_of res k = None then
          if found + 1 \<ge> missing then (True, found + 1, alist_update k (kv_Value v) res, contacts)
          else take_response missing kvs (found + 1) (alist_update k (kv_Value v) res) contacts
        else take_response missing kvs found res contacts
      else take_response missing kvs found res (alist_update k (kv_Closest v) contacts))"

text \<open>The goroutines of one round.  \<open>cancelled\<close> tells that enough values were found.  The contacts of all nodes
  are collected one list after the other.\<close>

fun ask_nodes ::
  "env \<Rightarrow> retrieve_env \<Rightarrow> string list \<Rightarrow> (string \<Rightarrow> nat list) \<Rightarrow> int \<Rightarrow> node list \<Rightarrow> bool \<Rightarrow> int \<Rightarrow> res_map \<Rightarrow> (string \<times> node list) list \<Rightarrow>
   string option \<Rightarrow> dht \<Rightarrow> int \<times> res_map \<times> (string \<times> node list) list \<times> string option \<times> dht" where
  "ask_nodes E R hexKeys fetchMap missing [] cancelled found res contacts err s = (found, res, contacts, err, s)"
| "ask_nodes E R hexKeys fetchMap missing (n # ns) cancelled found res contacts err s =
     (if cancelled \<and> \<not> late R n then ask_nodes E R hexKeys fetchMap missing ns cancelled found res contacts err s
      else let requestKeys = request_keys hexKeys (fetchMap (key_of n)) res in
        if requestKeys = [] then ask_nodes E R hexKeys fetchMap missing ns cancelled found res contacts err s
        else case doBatchGetValuesCall E n requestKeys s of
          (Inl e, s1) \<Rightarrow> ask_nodes E R hexKeys fetchMap missing ns cancelled found res contacts (if err = None then Some e else err) s1
        | (Inr d, s1) \<Rightarrow>
            (case take_response missing (resp_order R d) found res [] of
               (stop, found', res', cs) \<Rightarrow>
                 ask_nodes E R hexKeys fetchMap missing ns (cancelled \<or> stop) found' res' (contacts @ cs) err s1))"

fun collect_contacts :: "env \<Rightarrow> (string \<times> node list) list \<Rightarrow> closest_map \<Rightarrow> closest_map result" where
  "collect_contacts E [] m = Inr m"
| "collect_contacts E ((key, ns) # rest) m =
     (case hex_decode key of
        None \<Rightarrow> errorf ''Failed to decode hex key''
      | Some comparator \<Rightarrow>
          let bkey = b58encode E comparator in
          collect_contacts E rest (case map_of m bkey of
             None \<Rightarrow> alist_update bkey \<lparr>nl_Nodes = ns, Comparator = comparator\<rparr> m
           | Some nl \<Rightarrow> alist_update bkey (AddNodes ns nl) m))"

definition iterateBatchGetValues ::
  "env \<Rightarrow> retrieve_env \<Rightarrow> known_nodes \<Rightarrow> string list \<Rightarrow> (string \<Rightarrow> nat list) \<Rightarrow> res_map \<Rightarrow> int \<Rightarrow> int \<Rightarrow> dht \<Rightarrow>
   int \<times> closest_map \<times> res_map \<times> dht" where
  "iterateBatchGetValues E R nodes hexKeys fetchMap res req alreadyFound s = (
     let asked = filter (\<lambda>n. \<not> Banned (ignorelist s) n) (sched E (map snd nodes));
         (found, res', contacts, err, s1) = ask_nodes E R hexKeys fetchMap (req - alreadyFound) asked
            (dberr E ''ctx'' \<noteq> None) 0 res [] None s
     in case collect_contacts E (contact_order R contacts) [] of
          Inl e \<Rightarrow> (0, [], res', s1)
        | Inr m \<Rightarrow> (found, map (\<lambda>(k, nl). (k, TopN Alpha (nl_Sort nl))) m, res', s1))"

section \<open>Rounds and batches\<close>

fun merge_found ::
  "env \<Rightarrow> closest_map \<Rightarrow> closest_map \<Rightarrow> known_nodes \<Rightarrow> bool \<Rightarrow> dht \<Rightarrow> (closest_map \<times> known_nodes \<times> bool \<times> dht) option" where
  "merge_found E [] global known changed s = Some (global, known, changed, s)"
| "merge_found E ((key, nl) # rest) global known changed s =
     (if nl_Nodes nl = [] then merge_found E rest global known changed s
      else case map_of global key of
        None \<Rightarrow> merge_found E rest global known changed s
      | Some g \<Rightarrow>
          if nl_Nodes g = [] then merge_found E rest global known changed s
          else let nl1 = TopN Alpha (nl_Sort (AddNodes (nl_Nodes g) nl)) in
            Option.bind (addKnownNodes E (nl_Nodes nl1) known s) (\<lambda>(known', s1).
              merge_found E rest (alist_update key (nl1\<lparr>nl_Nodes := mark_hashed E known (nl_Nodes nl1)\<rparr>) global) known'
                (changed \<or> \<not> haveAllNodes (nl_Nodes nl) (nl_Nodes g)) s1))"

text \<open>The indices of the keys of a batch that a node is asked for.\<close>

definition fetch_map :: "closest_map \<Rightarrow> string list \<Rightarrow> string \<Rightarrow> nat list" where
  "fetch_map global batchKeys k = concat (map (\<lambda>i. case map_of global (batchKeys ! i) of
     None \<Rightarrow> [] | Some nl \<Rightarrow> map (\<lambda>_. i) (filter (\<lambda>n. key_of n = k) (nl_Nodes nl))) [0..<length batchKeys])"

text \<open>\<open>left\<close> iterations remain; \<open>tot\<close> counts the values found so far, the local ones included.\<close>

fun processBatch ::
  "env \<Rightarrow> retrieve_env \<Rightarrow> nat \<Rightarrow> string list \<Rightarrow> string list \<Rightarrow> int \<Rightarrow> closest_map \<Rightarrow> known_nodes \<Rightarrow> res_map \<Rightarrow> int \<Rightarrow> dht \<Rightarrow>
   (closest_map \<times> known_nodes \<times> res_map \<times> int \<times> dht) option" where
  "processBatch E R 0 batchKeys batchHexKeys required global known res tot s = Some (global, known, res, tot, s)"
| "processBatch E R (Suc left) batchKeys batchHexKeys required global known res tot s =
     (if dberr E ''ctx'' \<noteq> None then Some (global, known, res, tot, s)
      else case iterateBatchGetValues E R known batchHexKeys (fetch_map global batchKeys) res required tot s of
        (found, newClosest, res1, s1) \<Rightarrow>
          if tot + found \<ge> required then Some (global, known, res1, tot + found, s1)
          else Option.bind (merge_found E newClosest global known False s1) (\<lambda>(global', known', changed, s2).
            if \<not> changed then Some (global', known', res1, tot + found, s2)
            else processBatch E R left batchKeys batchHexKeys required global' known' res1 (tot + found) s2))"

fun process_batches ::
  "env \<Rightarrow> retrieve_env \<Rightarrow> (string list \<times> string list) list \<Rightarrow> int \<Rightarrow> closest_map \<Rightarrow> known_nodes \<Rightarrow> res_map \<Rightarrow> int \<Rightarrow> dht \<Rightarrow>
   (res_map \<times> dht) option" where
  "process_batches E R [] required global known res tot s = Some (res, s)"
| "process_batches E R ((bk, bh) # bs) required global known res tot s =
     (if tot \<ge> required then Some (res, s)
      else Option.bind (processBatch E R maxIterations bk bh required global known res tot s)
        (\<lambda>(global', known', res', tot', s'). process_batches E R bs required global' known' res' tot' s'))"

fun retrieve_init ::
  "env \<Rightarrow> (string \<times> bytes) list \<Rightarrow> closest_map \<Rightarrow> known_nodes \<Rightarrow> dht \<Rightarrow> (closest_map \<times> known_nodes \<times> dht) option" where
  "retrieve_init E [] global known s = Some (global, known, s)"
| "retrieve_init E ((key, h) # rest) global known s = (
     let top6 = closestContactsWithInlcudingNode Alpha h (ToNodeList (ignorelist s)) None (ht s) in
     Option.bind (addKnownNodes E (nl_Nodes top6) known s) (\<lambda>(known', s1).
       retrieve_init E rest (alist_update key top6 global) known' s1))"

text \<open>The deferred function: hex keys become base58 keys, empty values are dropped.\<close>

definition transfer :: "env \<Rightarrow> res_map \<Rightarrow> res_map" where
  "transfer E res = filter (\<lambda>(k, v). length v \<noteq> 0)
     (fold (\<lambda>(hk, v) m. case hex_decode hk of None \<Rightarrow> m | Some k \<Rightarrow> alist_update (b58encode E k) v m) res [])"

text \<open>The nodes of the routing table, as copies.\<close>

definition known_table :: "env \<Rightarrow> hash_table \<Rightarrow> known_nodes" where
  "known_table E h = fold (\<lambda>n. alist_update (key_of n) (SetHashedID (blake3 E) (mk_node (ID n) (IP n) (Port n)))) (ht_nodes h) []"

text \<open>When the local lookup fails the result is nil, and the deferred function panics if some batch of keys had
  been found before.\<close>

definition BatchRetrieve ::
  "env \<Rightarrow> retrieve_env \<Rightarrow> string list \<Rightarrow> int \<Rightarrow> dht \<Rightarrow> (res_map result \<times> dht) option" where
  "BatchRetrieve E R keys required s = (
     let s0 = snd (getSupernodeAddress E s);
         hashes = map (b58decode E) keys
     in case List.find (\<lambda>k. length (b58decode E k) \<noteq> B div 8) keys of
          Some k \<Rightarrow> Some (errorf (''invalid key: '' @ k), s0)
        | None \<Rightarrow>
            let hexKeys = map hex_encode hashes;
                knownNodes = known_table E (ht s0)
            in Option.bind (retrieve_init E (zip keys hashes) [] knownNodes s0) (\<lambda>(global, known1, s1).
               let known = alist_delete (str_of_bytes (ID (self (ht s1)))) known1;
                   (err, foundLocal, res, st) = fetchAndAddLocalKeys E R hexKeys required [] (dht_store s1);
                   s2 = s1\<lparr>dht_store := st\<rparr>
               in case err of
                    Some e \<Rightarrow>
                      if list_ex (\<lambda>(hk, v). hex_decode hk \<noteq> None) res then None
                      else Some (errorf (''fetch and add local keys: '' @ e), s2)
                  | None \<Rightarrow>
                      if foundLocal \<ge> required then Some (Inr (transfer E res), s2)
                      else map_option (\<lambda>(res', s3). (Inr (transfer E res'), s3))
                        (process_batches E R (zip (batches_of batchStoreSize keys) (batches_of batchStoreSize hexKeys))
                           required global known res foundLocal s2)))"

section \<open>Where the values come from\<close>

lemma key_index_nth: "key_index keys k = Some i \<Longrightarrow> i < length keys \<and> keys ! i = k"
  unfolding key_index_def by (auto dest!: map_of_SomeD simp: set_zip)

lemma fill_rows:
  assumes "length (fst st) = length keys" and "\<forall>i<length keys. fst st ! i = [] \<or> (keys ! i, fst st ! i) \<in> T" and "set rows \<subseteq> T"
  shows "length (fst (fill keys rows st)) = length keys \<and> (\<forall>i<length keys. fst (fill keys rows st) ! i = [] \<or> (keys ! i, fst (fill keys rows st) ! i) \<in> T)"
  using assms
proof (induction rows arbitrary: st)
  case (Cons x rows)
  obtain k v where x: "x = (k, v)" by (cases x)
  define st1 where "st1 = (case key_index keys k of None \<Rightarrow> st | Some i \<Rightarrow> ((fst st)[i := v], Suc (snd st)))"
  have f: "fill keys (x # rows) st = fill keys rows st1"
    by (simp add: fill_def x st1_def case_prod_unfold split: option.splits)
  have "length (fst st1) = length keys" using Cons.prems(1) by (simp add: st1_def split: option.splits)
  moreover have "\<forall>i<length keys. fst st1 ! i = [] \<or> (keys ! i, fst st1 ! i) \<in> T"
    using Cons.prems x by (auto simp: st1_def nth_list_update_if dest: key_index_nth split: option.splits)
  ultimately show ?case unfolding f using Cons.IH Cons.prems(3) by simp
qed (simp add: fill_def)

lemma retrieveBatchValues_rows:
  assumes "retrieveBatchValues fb e keys False st = (Inr (vals, n), st')"
  shows "length vals = length keys" and "(k, v) \<in> set (zip keys vals) \<Longrightarrow> v \<noteq> [] \<Longrightarrow> \<exists>r. (k, r) \<in> set (data_tbl st) \<and> row_data r = v"
    and "data_tbl st' = data_tbl st"
proof -
  let ?rows = "map (\<lambda>(k, r). (k, row_data r)) (filter (\<lambda>(k, r). k \<in> set keys) (data_tbl st))"
  have v: "vals = fst (fill keys ?rows (replicate (length keys) [], 0))"
    using assms by (auto simp: retrieveBatchValues_def Let_def split: option.splits prod.splits if_splits)
  note fr = fill_rows[of "(replicate (length keys) [], 0)" keys "set ?rows" ?rows]
  have len: "length vals = length keys" using fr v by simp
  then show "length vals = length keys" .
  show "\<exists>r. (k, r) \<in> set (data_tbl st) \<and> row_data r = v" if z: "(k, v) \<in> set (zip keys vals)" "v \<noteq> []"
  proof -
    obtain i where i: "i < length keys" "keys ! i = k" "vals ! i = v" using z(1) by (auto simp: set_zip)
    then have "(k, v) \<in> set ?rows" using fr v z(2) by auto
    then show ?thesis by auto
  qed
  have "data_tbl (fold (\<lambda>(k, r). PostAccessUpdate [k]) rows s) = data_tbl s" for rows :: "(string \<times> data_row) list" and s
    by (induction rows arbitrary: s) auto
  then show "data_tbl st' = data_tbl st"
    using assms by (auto simp: retrieveBatchValues_def Let_def split: option.splits prod.splits if_splits)
qed

lemma set_alist_update_cases: "(k', v') \<in> set (alist_update k v m) \<Longrightarrow> (k', v') = (k, v) \<or> (k', v') \<in> set m"
  by (auto simp: alist_update_def split: if_splits)

lemma add_values_origin:
  "add_values req kvs cnt res = (b, cnt', res') \<Longrightarrow> x \<in> set res' \<Longrightarrow> x \<in> set res \<or> (x \<in> set kvs \<and> snd x \<noteq> [])"
proof (induction kvs arbitrary: cnt res)
  case (Cons y kvs)
  obtain k v where y: "y = (k, v)" by (cases y)
  obtain k' v' where x: "x = (k', v')" by (cases x)
  show ?case
  proof (cases "length v > 0")
    case False
    then have "add_values req kvs cnt res = (b, cnt', res')" using Cons.prems(1) y by simp
    from Cons.IH[OF this Cons.prems(2)] show ?thesis by auto
  next
    case True
    have "x \<in> set (alist_update k v res) \<or> (x \<in> set kvs \<and> snd x \<noteq> [])"
      using Cons.IH[of "cnt + 1" "alist_update k v res"] Cons.prems y True by (auto split: if_splits)
    then show ?thesis using set_alist_update_cases[of k' v' k v res] x y True by auto
  qed
qed simp

definition local_value :: "sqlite_store \<Rightarrow> string list \<Rightarrow> string \<Rightarrow> bytes \<Rightarrow> bool" where
  "local_value st hexKeys hk v \<longleftrightarrow> hk \<in> set hexKeys \<and> (\<exists>r. (hk, r) \<in> set (data_tbl st) \<and> row_data r = v)"

lemma local_batches_origin:
  "local_batches E R i req bs cnt err res st = (err', cnt', res', st') \<Longrightarrow> set (concat bs) \<subseteq> set hexKeys \<Longrightarrow> data_tbl st = data_tbl st0 \<Longrightarrow>
   \<forall>(hk, v)\<in>set res. v \<noteq> [] \<and> local_value st0 hexKeys hk v \<Longrightarrow> \<forall>(hk, v)\<in>set res'. v \<noteq> [] \<and> local_value st0 hexKeys hk v"
proof (induction bs arbitrary: i cnt err res st)
  case (Cons b bs)
  let ?r = "retrieveBatchValues (fetchBatch R) (dberr E (''RetrieveBatchValues'' @ itoa i)) b False st"
  obtain r st1 where r: "?r = (r, st1)" by fastforce
  show ?case
  proof (cases r)
    case (Inl e)
    have "data_tbl st1 = data_tbl st" using r Inl by (auto simp: retrieveBatchValues_def Let_def split: option.splits prod.splits if_splits)
    then show ?thesis using Cons.IH[of "Suc i" cnt "Some (''retrieve batch values (local): '' @ e)" res st1] Cons.prems r Inl by simp
  next
    case (Inr p)
    obtain vals n where p: "p = (vals, n)" by (cases p)
    note rv = retrieveBatchValues_rows[OF r[unfolded Inr p]]
    obtain stop c1 res1 where a: "add_values req (zip b vals) cnt res = (stop, c1, res1)" by (cases "add_values req (zip b vals) cnt res") auto
    have res1: "\<forall>(hk, v)\<in>set res1. v \<noteq> [] \<and> local_value st0 hexKeys hk v"
    proof clarify
      fix hk v assume "(hk, v) \<in> set res1"
      from add_values_origin[OF a this] show "v \<noteq> [] \<and> local_value st0 hexKeys hk v"
      proof
        assume "(hk, v) \<in> set res" then show ?thesis using Cons.prems(4) by blast
      next
        assume z: "(hk, v) \<in> set (zip b vals) \<and> snd (hk, v) \<noteq> []"
        then have "hk \<in> set hexKeys" using Cons.prems(2) by (auto dest: set_zip_leftD)
        then show ?thesis using z rv(2)[of hk v] Cons.prems(3) by (simp add: local_value_def)
      qed
    qed
    show ?thesis
    proof (cases stop)
      case True
      then show ?thesis using Cons.prems(1) r Inr p a res1 by simp
    next
      case False
      then have "local_batches E R (Suc i) req bs c1 err res1 st1 = (err', cnt', res', st')"
        using Cons.prems(1) r Inr p a by simp
      from Cons.IH[OF this _ _ res1] show ?thesis using Cons.prems(2,3) rv(3) by simp
    qed
  qed
qed simp

lemma concat_batches_of: "n > 0 \<Longrightarrow> concat (batches_of n xs) = xs"
  by (induction n xs rule: batches_of.induct) (subst batches_of.simps, auto)

text \<open>A value that some node sent in its response to a request.\<close>

definition from_network :: "env \<Rightarrow> dht \<Rightarrow> string \<Rightarrow> bytes \<Rightarrow> bool" where
  "from_network E s hk v \<longleftrightarrow> (\<exists>m\<in>set (sent s). \<exists>q h a d st kv. Data m = BatchGetValuesRequest q \<and> net_answer E h m = Inr a
     \<and> Data a = BatchGetValuesResponse d st \<and> (hk, kv) \<in> set d \<and> kv_Value kv = v)"

definition extends :: "dht \<Rightarrow> dht \<Rightarrow> bool" where
  "extends s s' \<longleftrightarrow> set (sent s) \<subseteq> set (sent s')"

lemma extends_refl [simp]: "extends s s" and extends_trans: "extends s s1 \<Longrightarrow> extends s1 s2 \<Longrightarrow> extends s s2"
  by (auto simp: extends_def)

definition sourced :: "env \<Rightarrow> (string \<Rightarrow> bytes \<Rightarrow> bool) \<Rightarrow> dht \<Rightarrow> res_map \<Rightarrow> bool" where
  "sourced E L s res \<longleftrightarrow> (\<forall>(hk, v)\<in>set res. v \<noteq> [] \<and> (L hk v \<or> from_network E s hk v))"

lemma sourced_extends: "sourced E L s res \<Longrightarrow> extends s s' \<Longrightarrow> sourced E L s' res"
  unfolding sourced_def extends_def from_network_def by fast

lemma take_response_origin:
  "take_response missing kvs found res cs = (b, found', res', cs') \<Longrightarrow> x \<in> set res' \<Longrightarrow>
   x \<in> set res \<or> (\<exists>kv. (fst x, kv) \<in> set kvs \<and> kv_Value kv = snd x \<and> snd x \<noteq> [])"
proof (induction kvs arbitrary: found res cs)
  case (Cons y kvs)
  obtain k v where y: "y = (k, v)" by (cases y)
  obtain k' v' where x: "x = (k', v')" by (cases x)
  show ?case
  proof (cases "length (kv_Value v) > 0 \<and> map_of res k = None")
    case False
    then obtain c where "take_response missing kvs found res c = (b, found', res', cs')"
      using Cons.prems(1) y by (auto split: if_splits)
    from Cons.IH[OF this Cons.prems(2)] show ?thesis by auto
  next
    case True
    let ?r = "alist_update k (kv_Value v) res"
    have "x \<in> set ?r \<or> (\<exists>kv. (fst x, kv) \<in> set kvs \<and> kv_Value kv = snd x \<and> snd x \<noteq> [])"
      using Cons.IH[of "found + 1" ?r cs] Cons.prems y True by (auto split: if_splits)
    then show ?thesis using set_alist_update_cases[of k' v' k "kv_Value v" res] x y True by auto
  qed
qed simp

lemma doBatchGetValuesCall_spec:
  assumes "doBatchGetValuesCall E n q s = (r, s1)"
  shows "extends s s1" and "r = Inr d \<Longrightarrow> (hk, kv) \<in> set d \<Longrightarrow> from_network E s1 hk (kv_Value kv)"
proof -
  obtain m s0 where m: "newMessage E BatchGetValues n (BatchGetValuesRequest q) s = (m, s0)" by fastforce
  have f: "sent s0 = sent s" "Data m = BatchGetValuesRequest q"
    using newMessage_frame(3)[of E BatchGetValues n "BatchGetValuesRequest q" s] newMessage_fields[of E BatchGetValues n "BatchGetValuesRequest q" s] m by simp_all
  have s1: "sent s1 = sent s @ [m]" using assms m f(1) by (auto simp: doBatchGetValuesCall_def net_call_def)
  then show "extends s s1" by (auto simp: extends_def)
  assume "r = Inr d" "(hk, kv) \<in> set d"
  then obtain a st where "net_answer E (sent s) m = Inr a" "Data a = BatchGetValuesResponse d st"
    using assms m f(1) by (auto simp: doBatchGetValuesCall_def net_call_def split: sum.splits payload.splits if_splits)
  then show "from_network E s1 hk (kv_Value kv)"
    unfolding from_network_def s1 using f(2) \<open>(hk, kv) \<in> set d\<close> by fastforce
qed

lemma ask_nodes_sourced:
  assumes "\<And>d. set (resp_order R d) = set d"
  shows "ask_nodes E R hks fm missing ns canc found res cs err s = (found', res', cs', err', s') \<Longrightarrow> sourced E L s res \<Longrightarrow>
    extends s s' \<and> sourced E L s' res'"
proof (induction ns arbitrary: canc found res cs err s)
  case (Cons n ns)
  let ?q = "request_keys hks (fm (key_of n)) res"
  show ?case
  proof (cases "(canc \<and> \<not> late R n) \<or> ?q = []")
    case True
    then have "ask_nodes E R hks fm missing ns canc found res cs err s = (found', res', cs', err', s')"
      using Cons.prems(1) by (auto simp: Let_def split: if_splits)
    from Cons.IH[OF this Cons.prems(2)] show ?thesis .
  next
    case False
    obtain r s1 where c: "doBatchGetValuesCall E n ?q s = (r, s1)" by fastforce
    note cs = doBatchGetValuesCall_spec[OF c]
    note s1 = sourced_extends[OF Cons.prems(2) cs(1)]
    show ?thesis
    proof (cases r)
      case (Inl e)
      then obtain err1 where "ask_nodes E R hks fm missing ns canc found res cs err1 s1 = (found', res', cs', err', s')"
        using Cons.prems(1) False c by (auto simp: Let_def split: if_splits)
      from Cons.IH[OF this s1] show ?thesis using extends_trans cs(1) by blast
    next
      case (Inr d)
      obtain b f1 res1 c1 where t: "take_response missing (resp_order R d) found res [] = (b, f1, res1, c1)" by (rule prod_cases4)
      have "sourced E L s1 res1" unfolding sourced_def
      proof clarify
        fix hk v assume "(hk, v) \<in> set res1"
        from take_response_origin[OF t this] show "v \<noteq> [] \<and> (L hk v \<or> from_network E s1 hk v)"
        proof
          assume "(hk, v) \<in> set res" then show ?thesis using s1 by (auto simp: sourced_def)
        next
          assume "\<exists>kv. (fst (hk, v), kv) \<in> set (resp_order R d) \<and> kv_Value kv = snd (hk, v) \<and> snd (hk, v) \<noteq> []"
          then show ?thesis using cs(2)[OF Inr] assms by auto
        qed
      qed
      moreover obtain canc2 cs2 where "ask_nodes E R hks fm missing ns canc2 f1 res1 cs2 err s1 = (found', res', cs', err', s')"
        using Cons.prems(1) False c Inr t by (auto simp: Let_def split: if_splits)
      ultimately show ?thesis using Cons.IH extends_trans cs(1) by blast
    qed
  qed
qed simp

lemma addKnownNodes_extends: "addKnownNodes E ns known s = Some (known', s') \<Longrightarrow> extends s s'"
proof (induction ns arbitrary: known s)
  case (Cons n ns)
  show ?case
  proof (cases "map_of known (key_of n) = None")
    case True
    let ?n = "SetHashedID (blake3 E) n"
    obtain r s1 h where a: "addNode E ?n s = Some (r, s1)"
        "addKnownNodes E ns (alist_update (key_of ?n) ?n known) (s1\<lparr>ht := h\<rparr>) = Some (known', s')"
      using Cons.prems True by (auto simp: Let_def split: bind_splits)
    have "extends s (s1\<lparr>ht := h\<rparr>)" using addNode_sent[OF a(1)] by (auto simp: extends_def)
    then show ?thesis using Cons.IH[OF a(2)] extends_trans by blast
  next
    case False
    then show ?thesis using Cons by simp
  qed
qed simp

lemma merge_found_extends: "merge_found E cl global known ch s = Some (g', k', ch', s') \<Longrightarrow> extends s s'"
proof (induction cl arbitrary: global known ch s)
  case (Cons x cl)
  obtain key nl where x: "x = (key, nl)" by (cases x)
  consider "merge_found E cl global known ch s = Some (g', k', ch', s')"
    | g1 k1 c1 s1 ns where "addKnownNodes E ns known s = Some (k1, s1)" "merge_found E cl g1 k1 c1 s1 = Some (g', k', ch', s')"
    using Cons.prems x by (auto simp: Let_def split: if_splits option.splits bind_splits)
  then show ?case using Cons.IH addKnownNodes_extends extends_trans by cases blast+
qed simp

lemma iterateBatchGetValues_sourced:
  assumes "\<And>d. set (resp_order R d) = set d" and "iterateBatchGetValues E R known hks fm res req al s = (found, cl, res', s')" and "sourced E L s res"
  shows "extends s s' \<and> sourced E L s' res'"
proof -
  define asked where "asked = filter (\<lambda>n. \<not> Banned (ignorelist s) n) (sched E (map snd known))"
  obtain f1 res1 c1 e1 s1 where a: "ask_nodes E R hks fm (req - al) asked (dberr E ''ctx'' \<noteq> None) 0 res [] None s = (f1, res1, c1, e1, s1)"
    by (rule prod_cases5)
  have "res' = res1" "s' = s1" using assms(2) a by (auto simp: iterateBatchGetValues_def asked_def[symmetric] split: sum.splits)
  then show ?thesis using ask_nodes_sourced[OF assms(1) a assms(3)] by simp
qed

lemma processBatch_sourced:
  assumes "\<And>d. set (resp_order R d) = set d"
  shows "processBatch E R left bk bh required global known res tot s = Some (g', k', res', t', s') \<Longrightarrow> sourced E L s res \<Longrightarrow>
    extends s s' \<and> sourced E L s' res'"
proof (induction left arbitrary: global known res tot s)
  case (Suc left)
  show ?case
  proof (cases "dberr E ''ctx'' \<noteq> None")
    case True
    then show ?thesis using Suc.prems by simp
  next
    case ctx: False
    obtain found cl res1 s1 where i: "iterateBatchGetValues E R known bh (fetch_map global bk) res required tot s = (found, cl, res1, s1)"
      by (rule prod_cases4)
    note r1 = iterateBatchGetValues_sourced[OF assms i Suc.prems(2)]
    show ?thesis
    proof (cases "tot + found \<ge> required")
      case True
      then show ?thesis using Suc.prems(1) ctx i r1 by simp
    next
      case False
      then obtain g2 k2 ch s2 where m: "merge_found E cl global known False s1 = Some (g2, k2, ch, s2)"
          "(res' = res1 \<and> s' = s2) \<or> processBatch E R left bk bh required g2 k2 res1 (tot + found) s2 = Some (g', k', res', t', s')"
        using Suc.prems(1) ctx i by (auto split: bind_splits if_splits)
      have "extends s1 s2" by (rule merge_found_extends[OF m(1)])
      then have s2: "extends s s2" "sourced E L s2 res1" using r1 extends_trans sourced_extends by blast+
      from m(2) show ?thesis
      proof
        assume "processBatch E R left bk bh required g2 k2 res1 (tot + found) s2 = Some (g', k', res', t', s')"
        from Suc.IH[OF this s2(2)] show ?thesis using s2(1) extends_trans by blast
      qed (use s2 in simp)
    qed
  qed
qed simp

lemma process_batches_sourced:
  assumes "\<And>d. set (resp_order R d) = set d"
  shows "process_batches E R bs required global known res tot s = Some (res', s') \<Longrightarrow> sourced E L s res \<Longrightarrow> sourced E L s' res'"
proof (induction bs arbitrary: global known res tot s)
  case (Cons x bs)
  obtain bk bh where x: "x = (bk, bh)" by (cases x)
  show ?case
  proof (cases "tot \<ge> required")
    case True
    then show ?thesis using Cons.prems x by simp
  next
    case False
    then obtain g1 k1 r1 t1 s1 where p: "processBatch E R maxIterations bk bh required global known res tot s = Some (g1, k1, r1, t1, s1)"
        "process_batches E R bs required g1 k1 r1 t1 s1 = Some (res', s')"
      using Cons.prems(1) x by (auto split: bind_splits)
    from processBatch_sourced[OF assms p(1) Cons.prems(2)] Cons.IH[OF p(2)] show ?thesis by blast
  qed
qed simp

lemma transfer_origin:
  assumes "(k, v) \<in> set (transfer E res)"
  shows "\<exists>hk d. (hk, v) \<in> set res \<and> hex_decode hk = Some d \<and> k = b58encode E d"
proof -
  have "(k, v) \<in> set (fold (\<lambda>(hk, v) m. case hex_decode hk of None \<Rightarrow> m | Some k \<Rightarrow> alist_update (b58encode E k) v m) rs m) \<Longrightarrow>
     (k, v) \<in> set m \<or> (\<exists>hk d. (hk, v) \<in> set rs \<and> hex_decode hk = Some d \<and> k = b58encode E d)" for rs m
  proof (induction rs arbitrary: m)
    case (Cons x rs)
    obtain hk w where x: "x = (hk, w)" by (cases x)
    show ?case
    proof (cases "hex_decode hk")
      case None
      then show ?thesis using Cons x by auto
    next
      case (Some d)
      from Cons.IH[of "alist_update (b58encode E d) w m"] Cons.prems x Some
      have "(k, v) \<in> set (alist_update (b58encode E d) w m) \<or> (\<exists>hk d. (hk, v) \<in> set rs \<and> hex_decode hk = Some d \<and> k = b58encode E d)" by simp
      then show ?thesis using set_alist_update_cases[of k v "b58encode E d" w m] x Some by auto
    qed
  qed simp
  from this[of res "[]"] assms show ?thesis by (auto simp: transfer_def)
qed

lemma retrieve_init_extends: "retrieve_init E kh global known s = Some (g', k', s') \<Longrightarrow> extends s s'"
proof (induction kh arbitrary: global known s)
  case (Cons x kh)
  obtain key h where x: "x = (key, h)" by (cases x)
  obtain k1 s1 g1 ns where "addKnownNodes E ns known s = Some (k1, s1)" "retrieve_init E kh g1 k1 s1 = Some (g', k', s')"
    using Cons.prems x by (auto simp: Let_def split: bind_splits)
  then show ?case using Cons.IH addKnownNodes_extends extends_trans by blast
qed simp

lemma addKnownNodes_data: "addKnownNodes E ns known s = Some (known', s') \<Longrightarrow> data_tbl (dht_store s') = data_tbl (dht_store s)"
proof (induction ns arbitrary: known s)
  case (Cons n ns)
  show ?case
  proof (cases "map_of known (key_of n) = None")
    case True
    let ?n = "SetHashedID (blake3 E) n"
    obtain r s1 h where a: "addNode E ?n s = Some (r, s1)"
        "addKnownNodes E ns (alist_update (key_of ?n) ?n known) (s1\<lparr>ht := h\<rparr>) = Some (known', s')"
      using Cons.prems True by (auto simp: Let_def split: bind_splits)
    from addNode_store[OF a(1)] Cons.IH[OF a(2)] show ?thesis by auto
  next
    case False
    then show ?thesis using Cons by simp
  qed
qed simp

lemma retrieve_init_data: "retrieve_init E kh global known s = Some (g', k', s') \<Longrightarrow> data_tbl (dht_store s') = data_tbl (dht_store s)"
proof (induction kh arbitrary: global known s)
  case (Cons x kh)
  obtain key h where x: "x = (key, h)" by (cases x)
  obtain k1 s1 g1 ns where "addKnownNodes E ns known s = Some (k1, s1)" "retrieve_init E kh g1 k1 s1 = Some (g', k', s')"
    using Cons.prems x by (auto simp: Let_def split: bind_splits)
  then show ?case using Cons.IH addKnownNodes_data by metis
qed simp

lemma getSupernodeAddress_frame: "dht_store (snd (getSupernodeAddress E s)) = dht_store s" "sent (snd (getSupernodeAddress E s)) = sent s"
    "ht (snd (getSupernodeAddress E s)) = ht s" "ignorelist (snd (getSupernodeAddress E s)) = ignorelist s"
  by (auto simp: getSupernodeAddress_def split: option.splits)

text \<open>C39. No value is made up: every value of a batch retrieve is not empty, and it is the value of a requested key in the
  local store, or some node sent it for that key in answer to a request of this node.  (Whether its hash
  is the key is not checked, nor whether the key was asked for.)\<close>

theorem BatchRetrieve_sourced:
  assumes "\<And>d. set (resp_order R d) = set d" and "BatchRetrieve E R keys required s = Some (Inr result, s')" and "(k, v) \<in> set result"
  shows "\<exists>d. k = b58encode E d \<and> v \<noteq> [] \<and>
    (d \<in> b58decode E ` set keys \<and> (\<exists>r. (hex_encode d, r) \<in> set (data_tbl (dht_store s)) \<and> row_data r = v)
     \<or> (\<exists>hk. hex_decode hk = Some d \<and> from_network E s' hk v))"
proof -
  define s0 where "s0 = snd (getSupernodeAddress E s)"
  let ?hexKeys = "map hex_encode (map (b58decode E) keys)"
  obtain known0 global known1 s1 where init: "retrieve_init E (zip keys (map (b58decode E) keys)) [] known0 s0 = Some (global, known1, s1)"
      and rest: "(let known = alist_delete (str_of_bytes (ID (self (ht s1)))) known1;
                   (err, foundLocal, res, st) = fetchAndAddLocalKeys E R ?hexKeys required [] (dht_store s1);
                   s2 = s1\<lparr>dht_store := st\<rparr>
               in case err of
                    Some e \<Rightarrow>
                      if list_ex (\<lambda>(hk, v). hex_decode hk \<noteq> None) res then None
                      else Some (errorf (''fetch and add local keys: '' @ e), s2)
                  | None \<Rightarrow>
                      if foundLocal \<ge> required then Some (Inr (transfer E res), s2)
                      else map_option (\<lambda>(res', s3). (Inr (transfer E res'), s3))
                        (process_batches E R (zip (batches_of batchStoreSize keys) (batches_of batchStoreSize ?hexKeys))
                           required global known res foundLocal s2)) = Some (Inr result, s')"
    using assms(2) unfolding BatchRetrieve_def Let_def s0_def by (auto split: option.splits bind_splits)
  obtain err cnt res st where f: "fetchAndAddLocalKeys E R ?hexKeys required [] (dht_store s1) = (err, cnt, res, st)" by (rule prod_cases4)
  have "concat (batches_of localBatchSize ?hexKeys) = ?hexKeys" by (rule concat_batches_of) (simp add: localBatchSize_def)
  then have loc: "\<forall>(hk, v)\<in>set res. v \<noteq> [] \<and> local_value (dht_store s1) ?hexKeys hk v"
    using local_batches_origin[OF f[unfolded fetchAndAddLocalKeys_def], of ?hexKeys "dht_store s1"] by simp
  let ?L = "local_value (dht_store s1) ?hexKeys"
  let ?s2 = "s1\<lparr>dht_store := st\<rparr>"
  have src: "sourced E ?L ?s2 res" using loc by (auto simp: sourced_def)
  obtain res' where res': "sourced E ?L s' res'" "result = transfer E res'"
    using rest f src process_batches_sourced[OF assms(1)] by (auto simp: Let_def split: option.splits if_splits) blast
  from transfer_origin[OF assms(3)[unfolded res'(2)]] obtain hk d where h: "(hk, v) \<in> set res'" "hex_decode hk = Some d" "k = b58encode E d" by blast
  then have v: "v \<noteq> []" "?L hk v \<or> from_network E s' hk v" using res'(1) by (auto simp: sourced_def)
  have tbl: "data_tbl (dht_store s1) = data_tbl (dht_store s)"
    using retrieve_init_data[OF init] by (simp add: s0_def getSupernodeAddress_frame)
  from v(2) show ?thesis
  proof
    assume l: "?L hk v"
    then obtain d' where "d' \<in> b58decode E ` set keys" "hk = hex_encode d'" by (auto simp: local_value_def)
    moreover from this have "d' = d" using h(2) by simp
    ultimately show ?thesis using l h(3) v(1) tbl by (auto simp: local_value_def)
  qed (use h v(1) in blast)
qed

lemma retrieve_init_known:
  assumes "\<forall>n\<in>set (ht_nodes (ht s)). map_of known (key_of n) \<noteq> None"
  shows "\<exists>g. retrieve_init E kh global known s = Some (g, known, s)"
  using assms
proof (induction kh arbitrary: global)
  case (Cons x kh)
  obtain key h where x: "x = (key, h)" by (cases x)
  have skip: "addKnownNodes E ns known s = Some (known, s)" if "\<forall>n\<in>set ns. map_of known (key_of n) \<noteq> None" for ns
    using that by (induction ns) auto
  let ?top = "closestContactsWithInlcudingNode Alpha h (ToNodeList (ignorelist s)) None (ht s)"
  have "map_of known (key_of n) \<noteq> None" if "n \<in> set (nl_Nodes ?top)" for n
  proof -
    have "key_of n \<in> ids (nl_Nodes ?top)" using that by simp
    then have "key_of n \<in> ids (ht_nodes (ht s))" using closest_None_nodes by (rule subsetD[rotated])
    then show ?thesis using assms by auto
  qed
  then have "addKnownNodes E (nl_Nodes ?top) known s = Some (known, s)" by (intro skip) blast
  then show ?case using Cons.IH[OF assms] x by (simp add: Let_def)
qed simp

lemma known0_covers:
  "n \<in> set ns \<or> map_of m (key_of n) \<noteq> None \<Longrightarrow> map_of (fold (\<lambda>n. alist_update (key_of n) (f n)) ns m) (key_of n) \<noteq> None"
  by (induction ns arbitrary: m) (auto simp: map_of_alist_update)

lemma retrieve_init_table: "\<exists>g. retrieve_init E kh global (known_table E (ht s)) s = Some (g, known_table E (ht s), s)"
  unfolding known_table_def by (intro retrieve_init_known ballI known0_covers disjI1)

lemma BatchRetrieve_after_local:
  assumes "\<forall>k\<in>set keys. length (b58decode E k) = 32"
    and "fetchAndAddLocalKeys E R (map (\<lambda>k. hex_encode (b58decode E k)) keys) required [] (dht_store s) = (err, found, res, st)"
  shows "err = None \<Longrightarrow> required \<le> found \<Longrightarrow>
      BatchRetrieve E R keys required s = Some (Inr (transfer E res), (snd (getSupernodeAddress E s))\<lparr>dht_store := st\<rparr>)"
    and "err \<noteq> None \<Longrightarrow> list_ex (\<lambda>(hk, v). hex_decode hk \<noteq> None) res \<Longrightarrow> BatchRetrieve E R keys required s = None"
proof -
  let ?s0 = "snd (getSupernodeAddress E s)"
  have f: "List.find (\<lambda>k. length (b58decode E k) \<noteq> B div 8) keys = None" using assms(1) by (simp add: find_None_iff B_def)
  obtain g where g: "retrieve_init E (zip keys (map (b58decode E) keys)) [] (known_table E (ht ?s0)) ?s0 = Some (g, known_table E (ht ?s0), ?s0)"
    using retrieve_init_table by blast
  note eval = BatchRetrieve_def Let_def getSupernodeAddress_frame o_def
  show "err = None \<Longrightarrow> required \<le> found \<Longrightarrow> BatchRetrieve E R keys required s = Some (Inr (transfer E res), ?s0\<lparr>dht_store := st\<rparr>)"
    using f g assms(2) by (simp add: eval)
  show "err \<noteq> None \<Longrightarrow> list_ex (\<lambda>(hk, v). hex_decode hk \<noteq> None) res \<Longrightarrow> BatchRetrieve E R keys required s = None"
    using f g assms(2) by (auto simp: eval)
qed

text \<open>A node that holds the value of one key locally; \<open>broken\<close> is whether the first batch of local keys cannot be read.\<close>

definition wit_retrieve :: retrieve_env where
  "wit_retrieve = \<lparr>late = \<lambda>_. False, resp_order = \<lambda>m. m, contact_order = \<lambda>m. m, fetchBatch = \<lambda>_. Inr []\<rparr>"

definition wit_holder :: dht where
  "wit_holder = wit_dht\<lparr>dht_store := empty_sqlite\<lparr>data_tbl := [(hex_encode (replicate 32 0),
     \<lparr>row_data = [1], datatype' = 0, is_original = True, row_createdAt = 0, row_updatedAt = 0, row_replicatedAt = None, is_on_cloud = False\<rparr>)]\<rparr>\<rparr>"

definition wit_disk :: "bool \<Rightarrow> env" where
  "wit_disk broken = wit_env\<lparr>dberr := \<lambda>x. if broken \<and> x = ''RetrieveBatchValues0'' then Some ''locked'' else None\<rparr>"

lemma wit_one_batch:
  "retrieveBatchValues fb None [hex_encode (replicate 32 0)] False (dht_store wit_holder) = (Inr ([[1]], 1), dht_store wit_holder)"
  by (simp add: retrieveBatchValues_def wit_holder_def empty_sqlite_def fill_def key_index_def)

lemma batches_of_short: "xs \<noteq> [] \<Longrightarrow> length xs \<le> n \<Longrightarrow> batches_of n xs = [xs]"
  by (subst batches_of.simps, cases xs) (auto simp: batches_of.simps[of n "[]"])

lemma wit_local:
  "fetchAndAddLocalKeys (wit_disk False) R [hex_encode (replicate 32 0)] 1 [] (dht_store wit_holder)
     = (None, 1, [(hex_encode (replicate 32 0), [1])], dht_store wit_holder)"
  by (simp add: fetchAndAddLocalKeys_def batches_of_short localBatchSize_def wit_disk_def wit_one_batch alist_update_def)

lemma wit_base58: "b58decode (wit_disk b) k = replicate 32 0" "b58encode (wit_disk b) x = ''''"
  by (simp_all add: wit_disk_def wit_env_def)

lemma wit_transfer: "transfer (wit_disk False) [(hex_encode (replicate 32 0), [1])] = [('''', [1])]"
  by (simp add: transfer_def wit_base58 alist_update_def)

text \<open>The network is asked only when needed: when all keys are well formed, and enough of them are found in the local
  store, a batch retrieve sends no message and leaves the routing table alone.\<close>

theorem BatchRetrieve_local_first:
  assumes "\<forall>k\<in>set keys. length (b58decode E k) = 32"
    and "fetchAndAddLocalKeys E R (map (\<lambda>k. hex_encode (b58decode E k)) keys) required [] (dht_store s) = (None, found, res, st)" and "required \<le> found"
  shows "\<exists>s'. BatchRetrieve E R keys required s = Some (Inr (transfer E res), s') \<and> sent s' = sent s \<and> ht s' = ht s \<and> ignorelist s' = ignorelist s"
  using BatchRetrieve_after_local(1)[OF assms(1,2) refl assms(3)] by (simp add: getSupernodeAddress_frame)

theorem BatchRetrieve_local_first_witness:
  "\<exists>s'. BatchRetrieve (wit_disk False) wit_retrieve [''k''] 1 wit_holder = Some (Inr [('''', [1])], s') \<and> sent s' = []"
proof -
  have "sent wit_holder = []" by (simp add: wit_holder_def wit_dht_def)
  then show ?thesis
    using BatchRetrieve_local_first[of "[''k'']" "wit_disk False" wit_retrieve 1 wit_holder, OF _ _ order.refl]
      wit_local[of wit_retrieve] wit_transfer by (auto simp: wit_base58)
qed

theorem BatchRetrieve_sourced_witness:
  "\<exists>s' result d. BatchRetrieve (wit_disk False) wit_retrieve [''k''] 1 wit_holder = Some (Inr result, s')
     \<and> ('''', [1]) \<in> set result \<and> '''' = b58encode (wit_disk False) d \<and> [1 :: byte] \<noteq> []"
proof -
  obtain s' where run: "BatchRetrieve (wit_disk False) wit_retrieve [''k''] 1 wit_holder = Some (Inr [('''', [1])], s')"
    using BatchRetrieve_after_local(1)[of "[''k'']" "wit_disk False" wit_retrieve 1 wit_holder, OF _ _ refl order.refl]
      wit_local[of wit_retrieve] wit_transfer by (simp add: wit_base58)
  have "\<And>m. set (resp_order wit_retrieve m) = set m" by (simp add: wit_retrieve_def)
  from BatchRetrieve_sourced[OF this run, of "''''" "[1]"] run show ?thesis by auto
qed

text \<open>A local error can end the process: when the lookup of some batch of keys fails and not enough values are found
  in the other batches, but at least one is, the deferred function writes to a nil map and panics.\<close>

theorem BatchRetrieve_partial_failure_panics:
  assumes "\<forall>k\<in>set keys. length (b58decode E k) = 32"
    and "fetchAndAddLocalKeys E R (map (\<lambda>k. hex_encode (b58decode E k)) keys) required [] (dht_store s) = (Some e, found, (hex_encode d, v) # res, st)"
  shows "BatchRetrieve E R keys required s = None"
  using BatchRetrieve_after_local(2)[OF assms] by simp

theorem BatchRetrieve_partial_failure_panics_witness:
  "BatchRetrieve (wit_disk True) wit_retrieve (replicate 5001 ''k'') 2 wit_holder = None"
proof -
  let ?hk = "hex_encode (replicate 32 0)" and ?E = "wit_disk True"
  have b: "batches_of 5000 (replicate 5001 ?hk) = [replicate 5000 ?hk, [?hk]]"
    by (subst batches_of.simps) (simp add: batches_of_short)
  have err: "dberr ?E ''RetrieveBatchValues0'' = Some ''locked''" "dberr ?E ''RetrieveBatchValues1'' = None" by (simp_all add: wit_disk_def)
  have it: "itoa 0 = ''0''" "itoa (Suc 0) = ''1''" by code_simp+
  have "retrieveBatchValues (fetchBatch wit_retrieve) (Some ''locked'') ks False st = (errorf (''failed to retrieve records: locked''), st)" for ks st
    by (simp add: retrieveBatchValues_def)
  then have "fetchAndAddLocalKeys ?E wit_retrieve (map (\<lambda>k. hex_encode (b58decode ?E k)) (replicate 5001 ''k'')) 2 [] (dht_store wit_holder)
      = (Some ''retrieve batch values (local): failed to retrieve records: locked'', 1, [(?hk, [1])], dht_store wit_holder)"
    using b err it by (simp add: fetchAndAddLocalKeys_def localBatchSize_def wit_base58 wit_one_batch alist_update_def)
  from BatchRetrieve_partial_failure_panics[OF _ this] show ?thesis by (simp add: wit_base58)
qed

end
