(* ===== verification/Meta_Store.thy ===== *)
theory Meta_Store
  imports Sqlite_Store
begin

text \<open>
  The meta store (\<^verbatim>\<open>p2p/kademlia/store/meta/meta.go\<close>): the table of disabled keys, written by a
  worker that takes jobs from a queue, and the table of keys that may be deleted, with the number of
  times they were found redundant.  As in \<open>Sqlite_Store\<close> a table is an association list from its primary
  key and \<open>e\<close> is the outcome of the database call, after the retries where the code retries.
\<close>

section \<open>State\<close>

datatype meta_job = MetaInsert bytes | MetaDelete bytes

record del_key =
  dk_Key :: string
  dk_CreatedAt :: timestamp
  dk_Nodes :: string
  dk_Count :: int

record del_row =
  del_count :: int
  del_nodes :: string
  del_createdAt :: timestamp

record meta_store =
  disabled_keys :: "(string \<times> timestamp) list"
  del_keys :: "(string \<times> del_row) list"
  MetaJobQueue :: "meta_job list"

section \<open>Disabled keys\<close>

definition meta_Store :: "string option \<Rightarrow> bytes \<Rightarrow> meta_store \<Rightarrow> string option \<times> meta_store" where
  "meta_Store ctx_err key s =
     (case ctx_err of Some e \<Rightarrow> (Some e, s) | None \<Rightarrow> (None, s\<lparr>MetaJobQueue := MetaJobQueue s @ [MetaInsert key]\<rparr>))"

definition meta_Delete :: "bytes \<Rightarrow> meta_store \<Rightarrow> meta_store" where
  "meta_Delete key s = s\<lparr>MetaJobQueue := MetaJobQueue s @ [MetaDelete key]\<rparr>"

definition meta_Retrieve :: "string option \<Rightarrow> string \<Rightarrow> meta_store \<Rightarrow> string option" where
  "meta_Retrieve e key s =
     (case e of
        Some m \<Rightarrow> Some (''failed to get disabled record by key '' @ key @ '': '' @ m)
      | None \<Rightarrow>
          (case map_of (disabled_keys s) key of
             None \<Rightarrow> Some (''failed to get disabled record by key '' @ key @ '': sql: no rows in result set'')
           | Some t \<Rightarrow> if length key = 0 then Some (''failed to get disabled record by key '' @ key) else None))"

definition storeDisabledKey :: "string option \<Rightarrow> timestamp \<Rightarrow> bytes \<Rightarrow> meta_store \<Rightarrow> string option \<times> meta_store" where
  "storeDisabledKey e now key s =
     (if length key = 0 then (Some ''key cannot be empty'', s)
      else case e of
        Some m \<Rightarrow> (Some (''error storing data: '' @ m), s)
      | None \<Rightarrow> (None, s\<lparr>disabled_keys := alist_update (hex_encode key) now (disabled_keys s)\<rparr>))"

text \<open>\<^verbatim>\<open>deleteRecord\<close> calls a method of the result although \<^verbatim>\<open>Exec\<close> failed, a nil interface.\<close>

definition meta_deleteRecord :: "string option \<Rightarrow> bytes \<Rightarrow> meta_store \<Rightarrow> meta_store option" where
  "meta_deleteRecord e key s =
     (case e of Some m \<Rightarrow> None | None \<Rightarrow> Some (s\<lparr>disabled_keys := alist_delete (hex_encode key) (disabled_keys s)\<rparr>))"

definition meta_performJob :: "string option \<Rightarrow> timestamp \<Rightarrow> meta_job \<Rightarrow> meta_store \<Rightarrow> (string option \<times> meta_store) option" where
  "meta_performJob e now j s =
     (case j of
        MetaInsert key \<Rightarrow> (case storeDisabledKey e now key s of
            (Some m, s') \<Rightarrow> Some (Some (''failed to store disable key record: '' @ m), s')
          | (None, s') \<Rightarrow> Some (None, s'))
      | MetaDelete key \<Rightarrow> map_option (\<lambda>s'. (None, s')) (meta_deleteRecord e key s))"

text \<open>One turn of the worker, and the worker until its queue is empty, with the outcome and the time of
  each job.  The error of a job is only logged.\<close>

definition meta_run_job :: "string option \<Rightarrow> timestamp \<Rightarrow> meta_store \<Rightarrow> meta_store option" where
  "meta_run_job e now s =
     (case MetaJobQueue s of [] \<Rightarrow> Some s | j # js \<Rightarrow> map_option snd (meta_performJob e now j (s\<lparr>MetaJobQueue := js\<rparr>)))"

fun meta_run_jobs :: "(string option \<times> timestamp) list \<Rightarrow> meta_store \<Rightarrow> meta_store option" where
  "meta_run_jobs [] s = Some s"
| "meta_run_jobs ((e, now) # rest) s = Option.bind (meta_run_job e now s) (meta_run_jobs rest)"

definition GetDisabledKeys :: "string option \<Rightarrow> timestamp \<Rightarrow> meta_store \<Rightarrow> (string \<times> timestamp) list result" where
  "GetDisabledKeys e from s =
     (case e of
        Some m \<Rightarrow> errorf (''error reading disabled keys from database: '' @ m)
      | None \<Rightarrow> Inr (filter (\<lambda>(k, t). t > from) (disabled_keys s)))"

section \<open>Keys to delete\<close>

definition del_toDomain :: "string \<times> del_row \<Rightarrow> del_key" where
  "del_toDomain p = \<lparr>dk_Key = fst p, dk_CreatedAt = del_createdAt (snd p), dk_Nodes = del_nodes (snd p), dk_Count = del_count (snd p)\<rparr>"

definition GetAllToDelKeys :: "string option \<Rightarrow> int \<Rightarrow> meta_store \<Rightarrow> del_key list result" where
  "GetAllToDelKeys e cnt s =
     (case e of
        Some m \<Rightarrow> errorf (''error reading del keys from database: '' @ m)
      | None \<Rightarrow> Inr (map del_toDomain (filter (\<lambda>(k, r). del_count r \<ge> cnt) (del_keys s))))"

text \<open>\<^verbatim>\<open>ON CONFLICT(key) DO UPDATE SET count = count + EXCLUDED.count\<close>; a new row has no nodes.\<close>

definition upsert_del_key :: "del_key \<Rightarrow> (string \<times> del_row) list \<Rightarrow> (string \<times> del_row) list" where
  "upsert_del_key dk tbl =
     (case map_of tbl (dk_Key dk) of
        None \<Rightarrow> alist_update (dk_Key dk) \<lparr>del_count = dk_Count dk, del_nodes = [], del_createdAt = dk_CreatedAt dk\<rparr> tbl
      | Some r \<Rightarrow> alist_update (dk_Key dk) (r\<lparr>del_count := del_count r + dk_Count dk\<rparr>) tbl)"

text \<open>Each batch is one transaction: an error rolls everything back.\<close>

definition BatchInsertDelKeys :: "string option \<Rightarrow> del_key list \<Rightarrow> meta_store \<Rightarrow> string option \<times> meta_store" where
  "BatchInsertDelKeys e dks s =
     (case e of Some m \<Rightarrow> (Some m, s) | None \<Rightarrow> (None, s\<lparr>del_keys := fold upsert_del_key dks (del_keys s)\<rparr>))"

definition BatchDeleteDelKeys :: "string option \<Rightarrow> del_key list \<Rightarrow> meta_store \<Rightarrow> string option \<times> meta_store" where
  "BatchDeleteDelKeys e dks s =
     (case e of
        Some m \<Rightarrow> (Some m, s)
      | None \<Rightarrow> (None, s\<lparr>del_keys := fold (\<lambda>dk tbl. if map_of tbl (dk_Key dk) \<noteq> None then alist_delete (dk_Key dk) tbl else tbl)
          dks (del_keys s)\<rparr>))"

section \<open>The tables as maps\<close>

text \<open>The abstraction of the first table is the set of disabled keys.  The empty key is rejected, so the
  store is no instance of \<open>kv_store\<close>; the worker replays its jobs on the set.\<close>

definition disabled :: "meta_store \<Rightarrow> string set" where
  "disabled s = fst ` set (disabled_keys s)"

fun replay_meta :: "meta_job \<Rightarrow> string set \<Rightarrow> string set" where
  "replay_meta (MetaInsert key) D = (if key = [] then D else insert (hex_encode key) D)"
| "replay_meta (MetaDelete key) D = D - {hex_encode key}"

lemma meta_performJob_replay:
  "\<exists>r s'. meta_performJob None now j s = Some (r, s') \<and> disabled s' = replay_meta j (disabled s)
     \<and> MetaJobQueue s' = MetaJobQueue s \<and> del_keys s' = del_keys s"
  by (cases j) (auto simp: meta_performJob_def storeDisabledKey_def meta_deleteRecord_def disabled_def)

lemma meta_run_jobs_replay:
  "MetaJobQueue s = js @ rest \<Longrightarrow> length ts = length js \<Longrightarrow>
   \<exists>s'. meta_run_jobs (map (\<lambda>t. (None, t)) ts) s = Some s' \<and> disabled s' = fold replay_meta js (disabled s)
     \<and> MetaJobQueue s' = rest \<and> del_keys s' = del_keys s"
proof (induction js arbitrary: s ts)
  case (Cons j js)
  then obtain t ts' where ts: "ts = t # ts'" by (cases ts) auto
  obtain r s1 where s1: "meta_performJob None t j (s\<lparr>MetaJobQueue := js @ rest\<rparr>) = Some (r, s1)"
      "disabled s1 = replay_meta j (disabled (s\<lparr>MetaJobQueue := js @ rest\<rparr>))" "MetaJobQueue s1 = js @ rest" "del_keys s1 = del_keys s"
    using meta_performJob_replay[of t j "s\<lparr>MetaJobQueue := js @ rest\<rparr>"] by auto
  have "meta_run_job None t s = Some s1" using Cons.prems(1) s1(1) by (simp add: meta_run_job_def)
  moreover have "disabled (s\<lparr>MetaJobQueue := js @ rest\<rparr>) = disabled s" by (simp add: disabled_def)
  moreover obtain s' where "meta_run_jobs (map (\<lambda>t. (None, t)) ts') s1 = Some s'" "disabled s' = fold replay_meta js (disabled s1)"
      "MetaJobQueue s' = rest" "del_keys s' = del_keys s1"
    using Cons.IH[OF s1(3), of ts'] Cons.prems(2) ts by auto
  ultimately show ?case using s1(2,4) ts by simp
qed (auto simp: disabled_def)

text \<open>How often a key was found redundant; a key that is not in the table was never found so.\<close>

definition redundant_count :: "meta_store \<Rightarrow> string \<Rightarrow> int" where
  "redundant_count s k = (case map_of (del_keys s) k of None \<Rightarrow> 0 | Some r \<Rightarrow> del_count r)"

lemma redundant_count_inserts:
  "redundant_count (snd (BatchInsertDelKeys None dks s)) k = redundant_count s k + sum_list (map dk_Count (filter (\<lambda>dk. dk_Key dk = k) dks))"
proof -
  have "(case map_of (fold upsert_del_key dks tbl) k of None \<Rightarrow> 0 | Some r \<Rightarrow> del_count r) =
      (case map_of tbl k of None \<Rightarrow> 0 | Some r \<Rightarrow> del_count r) + sum_list (map dk_Count (filter (\<lambda>dk. dk_Key dk = k) dks))" for tbl
    by (induction dks arbitrary: tbl) (auto simp: upsert_del_key_def map_of_alist_update split: option.splits)
  then show ?thesis by (simp add: redundant_count_def BatchInsertDelKeys_def)
qed

lemma map_of_BatchDelete:
  "map_of (del_keys (snd (BatchDeleteDelKeys None dks s))) k = (if k \<in> dk_Key ` set dks then None else map_of (del_keys s) k)"
proof -
  have "map_of (fold (\<lambda>dk tbl. if map_of tbl (dk_Key dk) \<noteq> None then alist_delete (dk_Key dk) tbl else tbl) dks tbl) k
      = (if k \<in> dk_Key ` set dks then None else map_of tbl k)" for tbl
    by (induction dks arbitrary: tbl) (auto simp: map_of_alist_delete)
  from this[of "del_keys s"] show ?thesis by (simp add: BatchDeleteDelKeys_def)
qed

lemma redundant_count_deletes:
  "redundant_count (snd (BatchDeleteDelKeys None dks s)) k = (if k \<in> dk_Key ` set dks then 0 else redundant_count s k)"
  by (simp add: redundant_count_def map_of_BatchDelete)

end
