(* ===== verification/Replication.thy ===== *)
theory Replication
  imports DHT Meta_Store
begin

text \<open>
  Replication of the stored keys to the nodes that should hold them
  (\<^verbatim>\<open>p2p/kademlia/replication.go\<close>).  A worker of the DHT is a loop around a tick; the definitions here
  and in \<open>Maintenance\<close> are the ticks.  What the ticks take from outside besides
  \<open>env\<close> is the record \<open>worker_env\<close>: random bits and bytes, how often the backoff library calls an operation
  that keeps failing, the iteration order of a Go map, the connectivity and disk space checks.
\<close>

section \<open>Environment\<close>

record worker_env =
  rnd_bit :: "nat \<Rightarrow> nat \<Rightarrow> bool"
  rnd_byte :: "nat \<Rightarrow> nat \<Rightarrow> byte"
  max_tries :: nat \<comment> \<open>attempts after the first within \<^verbatim>\<open>maxBackOff\<close>\<close>
  key_order :: "(string \<times> string list) list \<Rightarrow> (string \<times> string list) list"
  del_order :: "(string \<times> bytes list) list \<Rightarrow> (string \<times> bytes list) list"
  connectivity :: bool
  disk_low :: "nat \<Rightarrow> bool result" \<comment> \<open>by the number of the check\<close>

definition defaultRefreshTime :: int where "defaultRefreshTime = seconds 3600"
definition nodeShowUpDeadline :: int where "nodeShowUpDeadline = minutes 35"

text \<open>\<^verbatim>\<open>hex.DecodeString\<close> whose error is ignored: the bytes before the first bad pair.\<close>

fun hex_prefix :: "string \<Rightarrow> bytes" where
  "hex_prefix (c # d # cs) =
     (case (from_hex_char c, from_hex_char d) of
        (Some h, Some l) \<Rightarrow> word_of_nat (16 * h + l) # hex_prefix cs
      | _ \<Rightarrow> [])"
| "hex_prefix _ = []"

lemma hex_prefix_decode: "hex_decode s = Some bs \<Longrightarrow> hex_prefix s = bs"
  by (induction s arbitrary: bs rule: hex_prefix.induct) (auto split: option.splits)

lemma hex_prefix_encode [simp]: "hex_prefix (hex_encode bs) = bs"
  by (rule hex_prefix_decode) simp

section \<open>Replication\<close>

definition updateLastReplicated :: "env \<Rightarrow> bytes \<Rightarrow> timestamp \<Rightarrow> dht \<Rightarrow> dht" where
  "updateLastReplicated E nodeID t s =
     s\<lparr>dht_store := snd (UpdateLastReplicated (dberr E ''UpdateLastReplicated'') (now E) (str_of_bytes nodeID) t (dht_store s))\<rparr>"

text \<open>The node itself, with the address the chain knows.\<close>

definition self_node :: "env \<Rightarrow> dht \<Rightarrow> node \<times> dht" where
  "self_node E s = (let (addr, s1) = getSupernodeAddress E s in
     (SetHashedID (blake3 E) (mk_node (ID (self (ht s1))) (parseSupernodeAddress E addr) (Port (self (ht s1)))), s1))"

text \<open>Sending with backoff: the operation is repeated until it succeeds or the tries are used up.\<close>

fun send_replicate :: "env \<Rightarrow> nat \<Rightarrow> node \<Rightarrow> string list \<Rightarrow> dht \<Rightarrow> string option \<times> dht" where
  "send_replicate E tries n keys s = (
     let (r, s1) = sendReplicateData E n keys s;
         err = (case r of Inl e \<Rightarrow> Some e | Inr st \<Rightarrow> if Result st \<noteq> ResultOk then Some (ErrMsg st) else None)
     in case err of
          None \<Rightarrow> (None, s1)
        | Some e \<Rightarrow> (case tries of 0 \<Rightarrow> (Some e, s1) | Suc k \<Rightarrow> send_replicate E k n keys s1))"

declare send_replicate.simps [simp del]

definition isNodeGoneAndShouldBeAdjusted :: "timestamp \<Rightarrow> timestamp option \<Rightarrow> bool \<Rightarrow> bool" where
  "isNodeGoneAndShouldBeAdjusted tnow lastSeen isAlreadyAdjusted =
     (case lastSeen of None \<Rightarrow> False | Some t \<Rightarrow> tnow - t > nodeShowUpDeadline \<and> \<not> isAlreadyAdjusted)"

text \<open>The keys that other nodes have to take over from an offline node.  The loop over the nodes of one key
  uses its own index, not that of the key, to pick the key: \<open>j\<close> below.  It panics when there are fewer keys than
  nodes.\<close>

fun assign_keys :: "string \<Rightarrow> string list \<Rightarrow> nat \<Rightarrow> node list \<Rightarrow> (string \<times> string list) list \<Rightarrow> (string \<times> string list) list option" where
  "assign_keys ip keys j [] m = Some m"
| "assign_keys ip keys j (n # ns) m =
     (if IP n = ip then assign_keys ip keys (Suc j) ns m
      else if j < length keys then
        let k = generateKeyFromNode n; old = (case map_of m k of None \<Rightarrow> [] | Some ks \<Rightarrow> ks)
        in assign_keys ip keys (Suc j) ns (alist_update k (old @ [keys ! j]) m)
      else None)"

fun assign_all :: "node \<Rightarrow> node list \<Rightarrow> hash_table \<Rightarrow> string list \<Rightarrow> string list \<Rightarrow> (string \<times> string list) list \<Rightarrow> (string \<times> string list) list option" where
  "assign_all off ign h keys [] m = Some m"
| "assign_all off ign h keys (key # rest) m = (
     let nodeList = closestContactsWithInlcudingNode (Alpha + 1) (hex_prefix key) ign (Some off) h in
     if \<not> nl_exists nodeList off then assign_all off ign h keys rest m
     else Option.bind (assign_keys (IP off) keys 0 (nl_Nodes nodeList) m) (assign_all off ign h keys rest))"

fun send_adjusted ::
  "env \<Rightarrow> nat \<Rightarrow> (string \<times> string list) list \<Rightarrow> nat \<Rightarrow> nat \<Rightarrow> dht \<Rightarrow> (nat \<times> nat) result \<times> dht" where
  "send_adjusted E tries [] succ fail s = (Inr (succ, fail), s)"
| "send_adjusted E tries ((k, keys) # rest) succ fail s =
     (case getNodeFromKey k of
        Inl e \<Rightarrow> (errorf (''failed to parse node info from key: '' @ e), s)
      | Inr n \<Rightarrow>
          let (err, s1) = send_replicate E tries n keys s
          in if err = None then send_adjusted E tries rest (Suc succ) fail s1
             else send_adjusted E tries rest succ (Suc fail) s1)"

definition adjustNodeKeys ::
  "env \<Rightarrow> worker_env \<Rightarrow> timestamp \<Rightarrow> node_replication_info \<Rightarrow> dht \<Rightarrow> (string option \<times> dht) option" where
  "adjustNodeKeys E W from info s = (
     let replicationKeys = GetKeysForReplication (dberr E ''GetKeysForReplication'') from (now E) (dht_store s);
         keys = map fst replicationKeys;
         updatedIgnored = filter (\<lambda>n. ID n \<noteq> nri_ID info) (ToNodeList (ignorelist s));
         off = SetHashedID (blake3 E) (mk_node (nri_ID info) (nri_IP info) (nri_Port info))
     in Option.bind (assign_all off updatedIgnored (ht s) keys keys []) (\<lambda>m.
          case send_adjusted E (max_tries W) (key_order W m) 0 0 s of
            (Inl e, s1) \<Rightarrow> Some (Some e, s1)
          | (Inr (succ, fail), s1) \<Rightarrow>
              if succ + fail = 0 then Some (Some ''adjust keys totalCount is 0'', s1)
              else if 100 * succ < 75 * (succ + fail) then Some (Some ''adjust keys success rate is less than 75%'', s1)
              else let (r, st) = UpdateIsAdjusted (dberr E ''UpdateIsAdjusted'') (now E) (str_of_bytes (nri_ID info)) True (dht_store s1)
                in Some (map_option ((@) ''replicate update isAdjusted failed: '') r, s1\<lparr>dht_store := st\<rparr>)))"

definition checkAndAdjustNode ::
  "env \<Rightarrow> worker_env \<Rightarrow> node_replication_info \<Rightarrow> timestamp \<Rightarrow> dht \<Rightarrow> dht option" where
  "checkAndAdjustNode E W info start s =
     (if isNodeGoneAndShouldBeAdjusted (now E) (LastSeen info) (IsAdjusted info) then
        Option.bind (adjustNodeKeys E W start info s) (\<lambda>(err, s1).
          if err \<noteq> None then Some s1
          else Some (s1\<lparr>dht_store := snd (UpdateIsAdjusted (dberr E ''UpdateIsAdjusted'') (now E)
                 (str_of_bytes (nri_ID info)) True (dht_store s1))\<rparr>))
      else Some s)"

text \<open>The buckets that were not refreshed for an hour; the random identifier is always drawn from bucket
  \<open>K\<close>.\<close>

fun refresh_buckets :: "env \<Rightarrow> worker_env \<Rightarrow> nat list \<Rightarrow> dht \<Rightarrow> dht option" where
  "refresh_buckets E W [] s = Some s"
| "refresh_buckets E W (i # is) s =
     Option.bind (refreshTime (int i) (ht s)) (\<lambda>t.
       if now E - t > defaultRefreshTime then
         Option.bind (randomIDFromBucket K (rnd_bit W i) (rnd_byte W i) (ht s)) (\<lambda>tid.
         Option.bind (iterate E IterateFindNode tid [] 0 s) (\<lambda>(_, s1). refresh_buckets E W is s1))
       else refresh_buckets E W is s)"

text \<open>The keys that \<open>info\<close> should hold: those created after its last replication of which it is among the
  closest contacts, once per position.\<close>

definition closest_contact_keys :: "(string \<Rightarrow> bytes list) \<Rightarrow> (string \<times> timestamp) list \<Rightarrow> nat \<Rightarrow> bytes \<Rightarrow> string list" where
  "closest_contact_keys ids replicationKeys idx i =
     concat (map (\<lambda>(k, t). map (\<lambda>_. k) (filter (\<lambda>c. c = i) (ids k))) (drop idx replicationKeys))"

definition replicate_node ::
  "env \<Rightarrow> worker_env \<Rightarrow> timestamp \<Rightarrow> timestamp \<Rightarrow> (string \<times> timestamp) list \<Rightarrow> (string \<Rightarrow> bytes list) \<Rightarrow>
   node_replication_info \<Rightarrow> dht \<Rightarrow> dht option" where
  "replicate_node E W historicStart to replicationKeys ids info s =
     (if \<not> Active info then checkAndAdjustNode E W info historicStart s
      else let start = (case LastReplicatedAt info of None \<Rightarrow> historicStart | Some t \<Rightarrow> t);
               idx = FindFirstAfter start replicationKeys
        in if idx = - 1 then Some (updateLastReplicated E (nri_ID info) to s)
           else let keys = closest_contact_keys ids replicationKeys (nat idx) (nri_ID info)
             in if keys = [] then Some (updateLastReplicated E (nri_ID info) to s)
                else let n = mk_node (nri_ID info) (nri_IP info) (nri_Port info);
                         (err, s1) = send_replicate E (max_tries W) n keys s
                  in if err \<noteq> None then Some s1 else Some (updateLastReplicated E (nri_ID info) to s1))"

fun replicate_nodes ::
  "env \<Rightarrow> worker_env \<Rightarrow> timestamp \<Rightarrow> timestamp \<Rightarrow> (string \<times> timestamp) list \<Rightarrow> (string \<Rightarrow> bytes list) \<Rightarrow>
   node_replication_info list \<Rightarrow> dht \<Rightarrow> dht option" where
  "replicate_nodes E W hs to rk ids [] s = Some s"
| "replicate_nodes E W hs to rk ids (info # infos) s =
     Option.bind (replicate_node E W hs to rk ids info s) (replicate_nodes E W hs to rk ids infos)"

text \<open>The closest contacts of a key, the node itself included.\<close>

definition closest_ids :: "node list \<Rightarrow> node \<Rightarrow> hash_table \<Rightarrow> string \<Rightarrow> bytes list" where
  "closest_ids ignores me h key = NodeIDs (closestContactsWithInlcudingNode Alpha (hex_prefix key) ignores (Some me) h)"

definition dht_Replicate :: "env \<Rightarrow> worker_env \<Rightarrow> dht \<Rightarrow> dht option" where
  "dht_Replicate E W s = (
     let historicStart = (case GetOwnCreatedAt (dberr E ''GetOwnCreatedAt'') (now E) (dht_store s) of
                            Inl _ \<Rightarrow> now E - hours (24 * 180) | Inr t \<Rightarrow> t)
     in Option.bind (refresh_buckets E W [0..<B] s) (\<lambda>s1.
        case GetAllReplicationInfo (dberr E ''GetAllReplicationInfo'') (dht_store s1) of
          Inl _ \<Rightarrow> Some s1
        | Inr [] \<Rightarrow> Some s1
        | Inr (info # infos) \<Rightarrow>
            let from = (case LastReplicatedAt info of None \<Rightarrow> historicStart | Some t \<Rightarrow> t);
                to = now E;
                replicationKeys = GetKeysForReplication (dberr E ''GetKeysForReplication'') from to (dht_store s1);
                ignores = ToNodeList (ignorelist s1);
                (me, s2) = self_node E s1
            in replicate_nodes E W historicStart to replicationKeys (closest_ids ignores me (ht s2)) (info # infos) s2))"

section \<open>Requests that were acknowledged\<close>

text \<open>\<open>m\<close> is one of the messages \<open>ms\<close> sent after the history \<open>h0\<close>, and it was acknowledged.\<close>

definition acked :: "env \<Rightarrow> message list \<Rightarrow> message list \<Rightarrow> message \<Rightarrow> bool" where
  "acked E h0 ms m \<longleftrightarrow> (\<exists>h t a st. ms = h @ m # t \<and> net_answer E (h0 @ h) m = Inr a
     \<and> Data a = ReplicateDataResponse st \<and> Result st = ResultOk)"

lemma acked_append: "acked E h0 ms m \<Longrightarrow> acked E h0 (ms @ rest) m"
  unfolding acked_def by (metis append.assoc append_Cons)

lemma acked_prepend: "acked E (h0 @ h1) ms m \<Longrightarrow> acked E h0 (h1 @ ms) m"
  unfolding acked_def by (metis append.assoc)

lemma acked_in: "acked E h0 ms m \<Longrightarrow> m \<in> set ms"
  by (auto simp: acked_def)

definition is_request :: "node \<Rightarrow> string list \<Rightarrow> message \<Rightarrow> bool" where
  "is_request n keys m \<longleftrightarrow> Receiver m = Some n \<and> Data m = ReplicateDataRequest keys"

lemma sendReplicateData_spec:
  "\<exists>m s1 r. sendReplicateData E n keys s = (r, s1) \<and> sent s1 = sent s @ [m] \<and> is_request n keys m
     \<and> dht_store s1 = dht_store s \<and> ht s1 = ht s \<and> ignorelist s1 = ignorelist s
     \<and> ((\<exists>st. r = Inr st \<and> Result st = ResultOk) \<longrightarrow> acked E (sent s) [m] m)"
proof -
  obtain m s0 where m: "newMessage E Replicate n (ReplicateDataRequest keys) s = (m, s0)" by fastforce
  have f: "sent s0 = sent s" "dht_store s0 = dht_store s" "ht s0 = ht s" "ignorelist s0 = ignorelist s" "is_request n keys m"
    using newMessage_frame[of E Replicate n "ReplicateDataRequest keys" s] newMessage_fields[of E Replicate n "ReplicateDataRequest keys" s] m
    by (simp_all add: is_request_def)
  let ?s1 = "s0\<lparr>sent := sent s0 @ [m]\<rparr>"
  define r where "r = (case net_answer E (sent s) m of
       Inl e \<Rightarrow> errorf (''replicate network call: '' @ e)
     | Inr a \<Rightarrow> (case Data a of ReplicateDataResponse st \<Rightarrow> Inr st | _ \<Rightarrow> errorf ''invalid ReplicateDataResponse''))"
  have "sendReplicateData E n keys s = (r, ?s1)"
    using m f(1) by (simp add: sendReplicateData_def net_call_def r_def)
  moreover have "(\<exists>st. r = Inr st \<and> Result st = ResultOk) \<longleftrightarrow> (\<exists>a st. net_answer E (sent s) m = Inr a
          \<and> Data a = ReplicateDataResponse st \<and> Result st = ResultOk)"
    by (auto simp: r_def split: sum.splits payload.splits)
  moreover have "acked E (sent s) [m] m" if "net_answer E (sent s) m = Inr a" "Data a = ReplicateDataResponse st" "Result st = ResultOk" for a st
    unfolding acked_def using that by (intro exI[of _ "[]"]) simp
  ultimately show ?thesis using f by (intro exI[of _ m] exI[of _ ?s1] exI[of _ r]) auto
qed

lemma send_replicate_spec:
  "send_replicate E tries n keys s = (err, s') \<Longrightarrow>
   \<exists>ms. sent s' = sent s @ ms \<and> (\<forall>m\<in>set ms. is_request n keys m) \<and> dht_store s' = dht_store s \<and> ht s' = ht s
     \<and> ignorelist s' = ignorelist s \<and> (err = None \<longrightarrow> (\<exists>m. acked E (sent s) ms m)) \<and> (err \<noteq> None \<longrightarrow> length ms = Suc tries)"
proof (induction tries arbitrary: s)
  case 0
  then show ?case using sendReplicateData_spec[of E n keys s]
    by (subst (asm) send_replicate.simps) (auto split: sum.splits if_splits)
next
  case (Suc tries)
  obtain m s1 r where s1: "sendReplicateData E n keys s = (r, s1)" "sent s1 = sent s @ [m]" "is_request n keys m"
      "dht_store s1 = dht_store s" "ht s1 = ht s" "ignorelist s1 = ignorelist s"
      "(\<exists>st. r = Inr st \<and> Result st = ResultOk) \<longrightarrow> acked E (sent s) [m] m"
    using sendReplicateData_spec[of E n keys s] by auto
  show ?case
  proof (cases "\<exists>st. r = Inr st \<and> Result st = ResultOk")
    case True
    then have "err = None" "s' = s1" using Suc.prems s1(1) by (auto simp: send_replicate.simps[of E "Suc tries"])
    then show ?thesis using s1 True by (intro exI[of _ "[m]"]) auto
  next
    case False
    then have "send_replicate E tries n keys s1 = (err, s')"
      using Suc.prems s1(1) by (auto simp: send_replicate.simps[of E "Suc tries"] split: sum.splits if_splits)
    from Suc.IH[OF this] obtain ms where "sent s' = sent s1 @ ms" "\<forall>m\<in>set ms. is_request n keys m" "dht_store s' = dht_store s1"
        "ht s' = ht s1" "ignorelist s' = ignorelist s1" "err = None \<longrightarrow> (\<exists>m. acked E (sent s1) ms m)" "err \<noteq> None \<longrightarrow> length ms = Suc tries"
      by blast
    moreover have "acked E (sent s1) ms q \<Longrightarrow> acked E (sent s) (m # ms) q" for q
      using acked_prepend[of E "sent s" "[m]" ms q] s1(2) by simp
    ultimately show ?thesis using s1 by (intro exI[of _ "m # ms"]) auto
  qed
qed

definition owed :: "(string \<Rightarrow> bytes list) \<Rightarrow> (string \<times> timestamp) list \<Rightarrow> timestamp \<Rightarrow> bytes \<Rightarrow> string set" where
  "owed ids rk start i = {k. \<exists>t. (k, t) \<in> set rk \<and> t > start \<and> i \<in> set (ids k)}"

lemma set_closest_contact_keys:
  "set (closest_contact_keys ids rk idx i) = {k. \<exists>t. (k, t) \<in> set (drop idx rk) \<and> i \<in> set (ids k)}"
  by (auto simp: closest_contact_keys_def)

definition since :: "timestamp \<Rightarrow> node_replication_info \<Rightarrow> timestamp" where
  "since hs info = (case LastReplicatedAt info of None \<Rightarrow> hs | Some t \<Rightarrow> t)"

definition info_node :: "node_replication_info \<Rightarrow> node" where
  "info_node info = mk_node (nri_ID info) (nri_IP info) (nri_Port info)"

text \<open>The last replication of a node, and what a turn of the replication loop may do to it.\<close>

definition last_rep :: "dht \<Rightarrow> string \<Rightarrow> timestamp option option" where
  "last_rep s i = map_option ri_lastReplicatedAt (map_of (replication_info (dht_store s)) i)"

text \<open>Among the messages \<open>ms\<close> sent after the history \<open>h0\<close> is an acknowledged request with the keys \<open>Ow\<close>;
  a run of requests with these keys, one more than the retries.\<close>

definition all_acked :: "env \<Rightarrow> node_replication_info \<Rightarrow> string set \<Rightarrow> message list \<Rightarrow> message list \<Rightarrow> bool" where
  "all_acked E info Ow h0 ms \<longleftrightarrow> (\<exists>m keys. acked E h0 ms m \<and> is_request (info_node info) keys m \<and> set keys = Ow)"

definition all_tried :: "nat \<Rightarrow> node_replication_info \<Rightarrow> string set \<Rightarrow> message list \<Rightarrow> bool" where
  "all_tried tries info Ow ms \<longleftrightarrow> (\<exists>h rs t keys. ms = h @ rs @ t \<and> length rs = Suc tries
     \<and> (\<forall>m\<in>set rs. is_request (info_node info) keys m) \<and> set keys = Ow)"

lemma last_rep_update:
  "dberr E ''UpdateLastReplicated'' = None \<Longrightarrow>
   last_rep (updateLastReplicated E i t s) j = (if j = str_of_bytes i then map_option (\<lambda>_. Some t) (last_rep s j) else last_rep s j)"
  by (cases "map_of (replication_info (dht_store s)) j")
     (auto simp: updateLastReplicated_def last_rep_def UpdateLastReplicated_def update_info_def map_of_update_row)

lemma updateLastReplicated_sent [simp]: "sent (updateLastReplicated E i t s) = sent s"
  by (simp add: updateLastReplicated_def)

lemma replicate_node_active:
  fixes ids hs s to W
  assumes "sorted (map snd rk)" and "Active info" and db: "dberr E ''UpdateLastReplicated'' = None"
  defines "Ow \<equiv> owed ids rk (since hs info) (nri_ID info)" and "i \<equiv> str_of_bytes (nri_ID info)"
  shows "\<exists>s' ms. replicate_node E W hs to rk ids info s = Some s' \<and> sent s' = sent s @ ms
    \<and> (\<forall>j. j \<noteq> i \<longrightarrow> last_rep s' j = last_rep s j)
    \<and> (last_rep s' i = map_option (\<lambda>_. Some to) (last_rep s i) \<and> (Ow = {} \<or> all_acked E info Ow (sent s) ms)
       \<or> last_rep s' i = last_rep s i \<and> Ow \<noteq> {} \<and> all_tried (max_tries W) info Ow ms)"
proof -
  let ?start = "case LastReplicatedAt info of None \<Rightarrow> hs | Some t \<Rightarrow> t"
  let ?done = "\<lambda>s. updateLastReplicated E (nri_ID info) to s"
  note lr = last_rep_update[OF db, of "nri_ID info" to]
  have Ow: "Ow = {k. \<exists>t. (k, t) \<in> set rk \<and> t > ?start \<and> nri_ID info \<in> set (ids k)}"
    unfolding Ow_def owed_def since_def ..
  from FindFirstAfter_sorted[OF assms(1), of ?start] show ?thesis
  proof (elim disjE conjE exE)
    assume a: "FindFirstAfter ?start rk = - 1" "\<forall>x\<in>set rk. snd x \<le> ?start"
    then have "Ow = {}" unfolding Ow by fastforce
    moreover have "replicate_node E W hs to rk ids info s = Some (?done s)"
      using a(1) assms(2) by (simp add: replicate_node_def Let_def)
    ultimately show ?thesis using lr[of s] by (simp add: i_def)
  next
    fix idx assume a: "FindFirstAfter ?start rk = int idx" "idx < length rk" "drop idx rk = filter (\<lambda>x. snd x > ?start) rk"
    define keys where "keys = closest_contact_keys ids rk idx (nri_ID info)"
    have sk: "set keys = Ow" unfolding keys_def set_closest_contact_keys a(3) Ow by auto
    show ?thesis
    proof (cases "keys = []")
      case True
      then have "replicate_node E W hs to rk ids info s = Some (?done s)"
        using a(1) assms(2) by (simp add: replicate_node_def Let_def keys_def)
      moreover have "Ow = {}" using sk True by simp
      ultimately show ?thesis using lr[of s] by (simp add: i_def)
    next
      case False
      obtain err s1 where c: "send_replicate E (max_tries W) (info_node info) keys s = (err, s1)" by fastforce
      obtain ms where m: "sent s1 = sent s @ ms" "\<forall>m\<in>set ms. is_request (info_node info) keys m" "dht_store s1 = dht_store s"
          "err = None \<longrightarrow> (\<exists>m. acked E (sent s) ms m)" "err \<noteq> None \<longrightarrow> length ms = Suc (max_tries W)"
        using send_replicate_spec[OF c] by blast
      have st: "last_rep s1 = last_rep s" using m(3) by (simp add: last_rep_def fun_eq_iff)
      have r: "replicate_node E W hs to rk ids info s = Some (if err \<noteq> None then s1 else ?done s1)"
        using a(1) assms(2) False c by (simp add: replicate_node_def Let_def keys_def info_node_def)
      show ?thesis
      proof (cases "err = None")
        case True
        then obtain q where "acked E (sent s) ms q" using m(4) by blast
        then have "all_acked E info Ow (sent s) ms" unfolding all_acked_def using m(2) sk acked_in by blast
        then show ?thesis using r True m(1) lr[of s1] st by (simp add: i_def)
      next
        case err: False
        have "all_tried (max_tries W) info Ow ms" unfolding all_tried_def
          using m(2) m(5)[rule_format, OF err] sk by (intro exI[of _ "[]"] exI[of _ ms] exI[of _ keys]) simp
        moreover have "Ow \<noteq> {}" using False sk by auto
        ultimately show ?thesis using r err m(1) st by simp
      qed
    qed
  qed
qed

lemma send_adjusted_frame:
  "send_adjusted E tries m a b s = (r, s') \<Longrightarrow> dht_store s' = dht_store s \<and> (\<exists>ms. sent s' = sent s @ ms)"
proof (induction m arbitrary: a b s)
  case (Cons x m)
  obtain k keys where x: "x = (k, keys)" by (cases x)
  show ?case
  proof (cases "getNodeFromKey k")
    case (Inr n)
    obtain err s1 where c: "send_replicate E tries n keys s = (err, s1)" by fastforce
    obtain a' b' where "send_adjusted E tries m a' b' s1 = (r, s')"
      using Cons.prems x Inr c by (auto split: if_splits)
    from Cons.IH[OF this] send_replicate_spec[OF c] show ?thesis by auto
  qed (use Cons.prems x in simp)
qed simp

lemma UpdateIsAdjusted_last_rep:
  "last_rep (s\<lparr>dht_store := snd (UpdateIsAdjusted e t i b (dht_store s))\<rparr>) j = last_rep s j"
  by (cases "map_of (replication_info (dht_store s)) j")
     (auto simp: last_rep_def UpdateIsAdjusted_def update_info_def map_of_update_row split: option.splits)

lemma adjustNodeKeys_cases:
  fixes info
  defines "off E \<equiv> SetHashedID (blake3 E) (mk_node (nri_ID info) (nri_IP info) (nri_Port info))"
  assumes "adjustNodeKeys E W frm info s = Some (e, s')"
  obtains m r s1 where
    "assign_all (off E) (filter (\<lambda>n. ID n \<noteq> nri_ID info) (ToNodeList (ignorelist s))) (ht s)
       (map fst (GetKeysForReplication (dberr E ''GetKeysForReplication'') frm (now E) (dht_store s)))
       (map fst (GetKeysForReplication (dberr E ''GetKeysForReplication'') frm (now E) (dht_store s))) [] = Some m"
    and "send_adjusted E (max_tries W) (key_order W m) 0 0 s = (r, s1)"
    and "s' = s1 \<or> (\<exists>b. s' = s1\<lparr>dht_store := snd (UpdateIsAdjusted b (now E) (str_of_bytes (nri_ID info)) True (dht_store s1))\<rparr>)"
proof -
  obtain m where m: "(case send_adjusted E (max_tries W) (key_order W m) 0 0 s of
            (Inl e, s1) \<Rightarrow> Some (Some e, s1)
          | (Inr (succ, fail), s1) \<Rightarrow>
              if succ + fail = 0 then Some (Some ''adjust keys totalCount is 0'', s1)
              else if 100 * succ < 75 * (succ + fail) then Some (Some ''adjust keys success rate is less than 75%'', s1)
              else let (r, st) = UpdateIsAdjusted (dberr E ''UpdateIsAdjusted'') (now E) (str_of_bytes (nri_ID info)) True (dht_store s1)
                in Some (map_option ((@) ''replicate update isAdjusted failed: '') r, s1\<lparr>dht_store := st\<rparr>)) = Some (e, s')"
      and am: "assign_all (off E) (filter (\<lambda>n. ID n \<noteq> nri_ID info) (ToNodeList (ignorelist s))) (ht s)
       (map fst (GetKeysForReplication (dberr E ''GetKeysForReplication'') frm (now E) (dht_store s)))
       (map fst (GetKeysForReplication (dberr E ''GetKeysForReplication'') frm (now E) (dht_store s))) [] = Some m"
    using assms(2) unfolding adjustNodeKeys_def Let_def off_def[symmetric] by (auto split: bind_splits)
  obtain r s1 where c1: "send_adjusted E (max_tries W) (key_order W m) 0 0 s = (r, s1)" by fastforce
  have "s' = s1 \<or> (\<exists>b. s' = s1\<lparr>dht_store := snd (UpdateIsAdjusted b (now E) (str_of_bytes (nri_ID info)) True (dht_store s1))\<rparr>)"
    using m c1 by (auto simp: Let_def case_prod_unfold split: sum.splits if_splits)
  from that[OF am c1 this] show thesis .
qed

lemma adjustNodeKeys_frame:
  assumes "adjustNodeKeys E W frm info s = Some (e, s')"
  shows "last_rep s' j = last_rep s j \<and> (\<exists>ms. sent s' = sent s @ ms)"
  using assms
proof (rule adjustNodeKeys_cases)
  fix m r s1
  assume c: "send_adjusted E (max_tries W) (key_order W m) 0 0 s = (r, s1)"
    "s' = s1 \<or> (\<exists>b. s' = s1\<lparr>dht_store := snd (UpdateIsAdjusted b (now E) (str_of_bytes (nri_ID info)) True (dht_store s1))\<rparr>)"
  have "last_rep s1 j = last_rep s j" using send_adjusted_frame[OF c(1)] by (simp add: last_rep_def)
  then have "last_rep s' j = last_rep s j" using c(2) UpdateIsAdjusted_last_rep by auto
  then show ?thesis using send_adjusted_frame[OF c(1)] c(2) by auto
qed

lemma checkAndAdjustNode_frame:
  assumes "checkAndAdjustNode E W info start s = Some s'"
  shows "last_rep s' j = last_rep s j \<and> (\<exists>ms. sent s' = sent s @ ms)"
  using assms adjustNodeKeys_frame[of E W start info s _ _ j] UpdateIsAdjusted_last_rep
  by (fastforce simp: checkAndAdjustNode_def split: if_splits bind_splits)

lemma replicate_node_frame:
  assumes "sorted (map snd rk)" and "dberr E ''UpdateLastReplicated'' = None" and "replicate_node E W hs to rk ids info s = Some s'"
  shows "(\<exists>ms. sent s' = sent s @ ms) \<and> (j \<noteq> str_of_bytes (nri_ID info) \<longrightarrow> last_rep s' j = last_rep s j)"
proof (cases "Active info")
  case True
  from replicate_node_active[OF assms(1) True assms(2), where W = W and hs = hs and to = to and ids = ids and s = s] assms(3) show ?thesis by auto
next
  case False
  then have "checkAndAdjustNode E W info hs s = Some s'" using assms(3) by (simp add: replicate_node_def)
  from checkAndAdjustNode_frame[OF this] show ?thesis by blast
qed

lemma replicate_nodes_frame:
  assumes "sorted (map snd rk)" and "dberr E ''UpdateLastReplicated'' = None"
  shows "replicate_nodes E W hs to rk ids infos s = Some s' \<Longrightarrow>
   (\<exists>ms. sent s' = sent s @ ms) \<and> (j \<notin> (\<lambda>i. str_of_bytes (nri_ID i)) ` set infos \<longrightarrow> last_rep s' j = last_rep s j)"
proof (induction infos arbitrary: s)
  case (Cons info infos)
  then obtain s1 where s1: "replicate_node E W hs to rk ids info s = Some s1" "replicate_nodes E W hs to rk ids infos s1 = Some s'"
    by (auto split: bind_splits)
  from replicate_node_frame[OF assms s1(1), of j] Cons.IH[OF s1(2)] show ?case by auto
qed simp

lemma all_acked_append: "all_acked E info S h0 ms \<Longrightarrow> all_acked E info S h0 (ms @ rest)"
  unfolding all_acked_def using acked_append by blast

lemma all_acked_prepend: "all_acked E info S (h0 @ h1) ms \<Longrightarrow> all_acked E info S h0 (h1 @ ms)"
  unfolding all_acked_def using acked_prepend by blast

lemma all_tried_append: "all_tried tries info S ms \<Longrightarrow> all_tried tries info S (ms @ rest)"
  unfolding all_tried_def by (metis append.assoc)

lemma all_tried_prepend: "all_tried tries info S ms \<Longrightarrow> all_tried tries info S (h1 @ ms)"
  unfolding all_tried_def by (metis append.assoc)

lemma replicate_nodes_spec:
  assumes "sorted (map snd rk)" and "dberr E ''UpdateLastReplicated'' = None"
  shows "replicate_nodes E W hs to rk ids infos s = Some s' \<Longrightarrow> distinct (map nri_ID infos) \<Longrightarrow> info \<in> set infos \<Longrightarrow> Active info \<Longrightarrow>
    (let S = owed ids rk (since hs info) (nri_ID info); i = str_of_bytes (nri_ID info) in
     \<exists>ms. sent s' = sent s @ ms
      \<and> (last_rep s' i = map_option (\<lambda>_. Some to) (last_rep s i) \<and> (S = {} \<or> all_acked E info S (sent s) ms)
         \<or> last_rep s' i = last_rep s i \<and> S \<noteq> {} \<and> all_tried (max_tries W) info S ms))"
proof (induction infos arbitrary: s)
  case (Cons x infos)
  then obtain s1 where s1: "replicate_node E W hs to rk ids x s = Some s1" "replicate_nodes E W hs to rk ids infos s1 = Some s'"
    by (auto split: bind_splits)
  let ?i = "str_of_bytes (nri_ID info)" and ?S = "owed ids rk (since hs info) (nri_ID info)"
  show ?case
  proof (cases "info = x")
    case True
    obtain ms where ms: "sent s' = sent s1 @ ms" using replicate_nodes_frame[OF assms s1(2)] by blast
    have l: "last_rep s' ?i = last_rep s1 ?i"
      using replicate_nodes_frame[OF assms s1(2), of ?i] Cons.prems(2) True by (auto simp: image_iff)
    from replicate_node_active[OF assms(1) Cons.prems(4) assms(2), where W = W and hs = hs and to = to and ids = ids and s = s] s1(1) True
    obtain ms1 where "sent s1 = sent s @ ms1" "last_rep s1 ?i = map_option (\<lambda>_. Some to) (last_rep s ?i) \<and> (?S = {} \<or> all_acked E info ?S (sent s) ms1)
         \<or> last_rep s1 ?i = last_rep s ?i \<and> ?S \<noteq> {} \<and> all_tried (max_tries W) info ?S ms1" by auto
    then show ?thesis using l ms all_acked_append[of E info ?S "sent s" ms1 ms] all_tried_append[of "max_tries W" info ?S ms1 ms]
      unfolding Let_def by (intro exI[of _ "ms1 @ ms"]) auto
  next
    case False
    then have "nri_ID info \<noteq> nri_ID x" using Cons.prems(2,3) by (auto simp: image_iff)
    then obtain ms1 where f: "last_rep s1 ?i = last_rep s ?i" "sent s1 = sent s @ ms1" using replicate_node_frame[OF assms s1(1), of ?i] by auto
    from Cons.IH[OF s1(2) _ _ Cons.prems(4)] Cons.prems(2,3) False
    obtain ms where "sent s' = sent s1 @ ms" "last_rep s' ?i = map_option (\<lambda>_. Some to) (last_rep s1 ?i) \<and> (?S = {} \<or> all_acked E info ?S (sent s1) ms)
         \<or> last_rep s' ?i = last_rep s1 ?i \<and> ?S \<noteq> {} \<and> all_tried (max_tries W) info ?S ms" by (auto simp: Let_def)
    then show ?thesis using f all_acked_prepend[of E info ?S "sent s" ms1 ms] all_tried_prepend[of "max_tries W" info ?S ms ms1]
      unfolding Let_def by (intro exI[of _ "ms1 @ ms"]) auto
  qed
qed simp

lemma self_node_frame:
  "self_node E s = (me, s2) \<Longrightarrow> dht_store s2 = dht_store s \<and> ht s2 = ht s \<and> sent s2 = sent s \<and> ignorelist s2 = ignorelist s"
  by (auto simp: self_node_def getSupernodeAddress_def Let_def split: if_splits option.splits)

lemma GetKeysForReplication_sorted: "sorted (map snd (GetKeysForReplication e from to st))"
  by (cases e) (auto simp: GetKeysForReplication_def)

lemma set_GetKeysForReplication:
  "set (GetKeysForReplication None from to st) = {(k, row_createdAt r) | k r. (k, r) \<in> set (data_tbl st) \<and> from < row_createdAt r \<and> row_createdAt r < to}"
  by (auto simp: GetKeysForReplication_def)

lemma nri_ID_toDomain: "nri_ID (toDomain p) = bytes_of_str (fst p)"
  by (cases p) (simp add: toDomain_def)

lemma GetAllReplicationInfo_distinct:
  assumes "alist_wf (replication_info st)" and "GetAllReplicationInfo e st = Inr infos"
  shows "distinct (map nri_ID infos)"
proof -
  let ?t = "replication_info st" and ?P = "\<lambda>p. ri_lastReplicatedAt (snd p) = None"
  let ?q = "filter ?P ?t @ sort_key (\<lambda>p. the (ri_lastReplicatedAt (snd p))) (filter (\<lambda>p. \<not> ?P p) ?t)"
  have i: "infos = map toDomain ?q"
    using assms(2) by (auto simp: GetAllReplicationInfo_def case_prod_beta' split: option.splits)
  have m: "mset ?q = mset ?t" using multiset_partition[of "mset ?t" ?P] by simp
  have "distinct (map fst ?q)"
    using assms(1) mset_eq_imp_distinct_iff[OF arg_cong[OF m, of "image_mset fst", folded mset_map]] by (simp add: alist_wf_def)
  then have "distinct (map bytes_of_str (map fst ?q))"
    by (subst distinct_map) (simp add: inj_on_def, metis str_of_bytes_of_str)
  then show ?thesis unfolding i by (simp add: nri_ID_toDomain o_def)
qed

definition historic_start :: "env \<Rightarrow> dht \<Rightarrow> timestamp" where
  "historic_start E s = (case GetOwnCreatedAt (dberr E ''GetOwnCreatedAt'') (now E) (dht_store s) of Inl _ \<Rightarrow> now E - hours (24 * 180) | Inr t \<Rightarrow> t)"

text \<open>C35. What a run of the replication says of an active node.  Suppose that the run ends (it can panic where the keys of
  an inactive node are handed over) and that the replication table can be read and written.  When the query for the keys
  succeeds, let \<open>S\<close> be the keys created before the run and strictly after the last replication of the node and that of the
  node replicated longest ago (or the historic start, whose own value is therefore left out) of which the node is among the
  closest contacts.  Then the last replication of the node is set to the time of the run only if \<open>S\<close> is empty or the node
  acknowledged a request of this run with exactly the keys of \<open>S\<close>; otherwise it is unchanged, and such a request was sent
  in this run as often as the backoff allows.  When the query for the keys fails, the last replication is set to the time of
  the run all the same.\<close>

theorem Replicate_advances_when_acked:
  assumes db: "dberr E ''UpdateLastReplicated'' = None" "dberr E ''GetAllReplicationInfo'' = None"
    and run: "dht_Replicate E W s = Some s'" "refresh_buckets E W [0..<B] s = Some s1" "self_node E s1 = (me, s2)"
    and wf: "alist_wf (replication_info (dht_store s1))"
    and infos: "GetAllReplicationInfo None (dht_store s1) = Inr infos" "info \<in> set infos" "Active info"
  shows "let hs = historic_start E s;
             S = {k. \<exists>r. (k, r) \<in> set (data_tbl (dht_store s1)) \<and> since hs (hd infos) < row_createdAt r \<and> since hs info < row_createdAt r
                 \<and> row_createdAt r < now E \<and> nri_ID info \<in> set (closest_ids (ToNodeList (ignorelist s1)) me (ht s2) k)};
             i = str_of_bytes (nri_ID info)
         in (dberr E ''GetKeysForReplication'' = None \<longrightarrow> (\<exists>ms. sent s' = sent s1 @ ms
               \<and> (last_rep s' i = map_option (\<lambda>_. Some (now E)) (last_rep s1 i) \<and> (S = {} \<or> all_acked E info S (sent s1) ms)
                  \<or> last_rep s' i = last_rep s1 i \<and> S \<noteq> {} \<and> all_tried (max_tries W) info S ms)))
          \<and> (dberr E ''GetKeysForReplication'' \<noteq> None \<longrightarrow> last_rep s' i = map_option (\<lambda>_. Some (now E)) (last_rep s1 i))"
proof -
  let ?hs = "historic_start E s"
  obtain x xs where x: "infos = x # xs" using infos(2) by (cases infos) auto
  let ?rk = "\<lambda>e. GetKeysForReplication e (since ?hs x) (now E) (dht_store s1)"
  let ?ids = "closest_ids (ToNodeList (ignorelist s1)) me (ht s2)"
  have r: "replicate_nodes E W ?hs (now E) (?rk (dberr E ''GetKeysForReplication'')) ?ids infos s2 = Some s'"
    using run db(2) infos(1) x by (simp add: dht_Replicate_def Let_def since_def historic_start_def)
  have S: "owed ?ids (?rk None) (since ?hs info) (nri_ID info) =
      {k. \<exists>r. (k, r) \<in> set (data_tbl (dht_store s1)) \<and> since ?hs (hd infos) < row_createdAt r \<and> since ?hs info < row_createdAt r
                 \<and> row_createdAt r < now E \<and> nri_ID info \<in> set (?ids k)}"
    unfolding owed_def set_GetKeysForReplication x by auto
  have f: "last_rep s2 = last_rep s1" "sent s2 = sent s1" using self_node_frame[OF run(3)] by (simp_all add: last_rep_def fun_eq_iff)
  note spec = replicate_nodes_spec[OF GetKeysForReplication_sorted db(1) r GetAllReplicationInfo_distinct[OF wf infos(1)] infos(2,3)]
  have "owed ?ids (?rk e) t i = {}" if "e \<noteq> None" for e t i
    using that by (auto simp: owed_def GetKeysForReplication_def)
  then show ?thesis using spec unfolding S[symmetric] f Let_def by auto
qed

definition wit_worker :: worker_env where
  "wit_worker = \<lparr>rnd_bit = \<lambda>_ _. False, rnd_byte = \<lambda>_ _. 0, max_tries = 2, key_order = \<lambda>m. m, del_order = \<lambda>m. m,
     connectivity = True, disk_low = \<lambda>_. Inr True\<rparr>"

definition wit_row :: "timestamp \<Rightarrow> data_row" where
  "wit_row t = \<lparr>row_data = [1], datatype' = 0, is_original = True, row_createdAt = t, row_updatedAt = t, row_replicatedAt = None, is_on_cloud = False\<rparr>"

definition wit_rep_row :: "bool \<Rightarrow> timestamp option \<Rightarrow> replication_row" where
  "wit_rep_row act seen = \<lparr>ri_ip = ''10.0.0.8'', ri_port = 4445, ri_is_active = act, ri_is_adjusted = False, ri_lastReplicatedAt = Some 1,
     ri_createdAt = 0, ri_updatedAt = 0, ri_last_seen = map_option CTime seen\<rparr>"

text \<open>A node that knows one peer and stores the value of key \<open>00\<close>.\<close>

definition wit_replica :: "bool \<Rightarrow> dht" where
  "wit_replica act = wit_dht\<lparr>ht := (ht wit_dht)\<lparr>routeTable := [wit_peer] # replicate 255 []\<rparr>,
     dht_store := empty_sqlite\<lparr>data_tbl := [(''00'', wit_row 3)], replication_info := [(str_of_bytes [8], wit_rep_row act (Some 0))]\<rparr>\<rparr>"

lemma refresh_buckets_fresh:
  "\<forall>i\<in>set is. \<exists>t. refreshTime (int i) (ht s) = Some t \<and> now E - t \<le> defaultRefreshTime \<Longrightarrow> refresh_buckets E W is s = Some s"
  by (induction "is") auto

lemma wit_refresh: "refresh_buckets wit_env W [0..<B] (wit_replica act) = Some (wit_replica act)"
  by (rule refresh_buckets_fresh) (simp add: wit_replica_def wit_dht_def refreshTime_def wit_env_def defaultRefreshTime_def B_def)

lemma wit_self:
  "self_node wit_env (wit_replica act) = (\<lparr>ID = [9], IP = ''host'', Port = 4445, HashedID = replicate 31 0 @ [9]\<rparr>, wit_replica act)"
  by (simp add: self_node_def getSupernodeAddress_def wit_replica_def wit_dht_def parseSupernodeAddress_def wit_env_def mk_node_def SetHashedID_def)

lemma wit_closest:
  "[8] \<in> set (closest_ids ign \<lparr>ID = [9], IP = ''host'', Port = 4445, HashedID = replicate 31 0 @ [9]\<rparr> (ht (wit_replica act)) k)"
proof -
  let ?me = "\<lparr>ID = [9], IP = ''host'', Port = 4445, HashedID = replicate 31 0 @ [9]\<rparr> :: node"
  have h: "str_of_bytes [8] \<noteq> hex_encode x" for x
  proof
    assume "str_of_bytes [8] = hex_encode x"
    from arg_cong[OF this, of length] show False by simp
  qed
  let ?nl = "\<lparr>nl_Nodes = [wit_peer, ?me], Comparator = hex_prefix k\<rparr>"
  have "closestContactsWithInlcudingNode Alpha (hex_prefix k) ign (Some ?me) (ht (wit_replica act)) = TopN Alpha (nl_Sort ?nl)"
    by (simp add: closestContactsWithInlcudingNode_def wit_replica_def wit_dht_def nl_exists_def wit_peer_def image_iff h)
  moreover have "nl_Nodes (TopN Alpha (nl_Sort ?nl)) = nl_Nodes (nl_Sort ?nl)"
    by (simp add: TopN_def nl_Len_def nl_Sort_def Alpha_def)
  moreover have "set (nl_Nodes (nl_Sort ?nl)) = {wit_peer, ?me}" by (simp add: nl_Sort_set)
  ultimately show ?thesis by (auto simp: closest_ids_def NodeIDs_def wit_peer_def)
qed

theorem Replicate_advances_when_acked_witness:
  "\<exists>s'. dht_Replicate wit_env wit_worker (wit_replica True) = Some s'
     \<and> last_rep s' (str_of_bytes [8]) = Some (Some 1) \<and> all_tried 2 (toDomain (str_of_bytes [8], wit_rep_row True (Some 0))) {''00''} (sent s')"
proof -
  let ?s = "wit_replica True" and ?E = wit_env and ?W = wit_worker
  let ?info = "toDomain (str_of_bytes [8], wit_rep_row True (Some 0))"
  let ?me = "\<lparr>ID = [9], IP = ''host'', Port = 4445, HashedID = replicate 31 0 @ [9]\<rparr> :: node"
  have db: "dberr ?E x = None" "now ?E = 7" for x by (simp_all add: wit_env_def)
  have infos: "GetAllReplicationInfo None (dht_store ?s) = Inr [?info]"
    by (simp add: GetAllReplicationInfo_def wit_replica_def wit_rep_row_def)
  have info: "Active ?info" "LastReplicatedAt ?info = Some 1" "nri_ID ?info = [8]"
    by (simp_all add: toDomain_def wit_rep_row_def)
  have hs': "GetOwnCreatedAt None 7 (dht_store ?s) = Inr 3"
    by (simp_all add: GetOwnCreatedAt_def wit_replica_def wit_row_def)
  then have hs: "historic_start ?E ?s = 3" by (simp add: historic_start_def db)
  let ?rk = "GetKeysForReplication None 1 7 (dht_store ?s)"
  have "\<exists>s'. dht_Replicate ?E ?W ?s = Some s'"
    using replicate_node_active[OF GetKeysForReplication_sorted[of None 1 7 "dht_store ?s"] info(1) db(1), where W = ?W and hs = 3 and to = 7 and s = ?s
        and ids = "closest_ids (ToNodeList (ignorelist ?s)) ?me (ht ?s)"]
    by (auto simp: dht_Replicate_def hs' wit_refresh db infos info(2) wit_self Let_def)
  then obtain s' where run: "dht_Replicate ?E ?W ?s = Some s'" by blast
  have S: "{k. \<exists>r. (k, r) \<in> set (data_tbl (dht_store ?s)) \<and> since 3 (hd [?info]) < row_createdAt r \<and> since 3 ?info < row_createdAt r
        \<and> row_createdAt r < now ?E \<and> nri_ID ?info \<in> set (closest_ids (ToNodeList (ignorelist ?s)) ?me (ht ?s) k)} = {''00''}"
    using wit_closest by (auto simp: since_def info db(2)) (simp_all add: wit_replica_def wit_row_def)
  have f: "last_rep ?s (str_of_bytes [8]) = Some (Some 1)" "sent ?s = []" "max_tries ?W = 2" "alist_wf (replication_info (dht_store ?s))"
    by (simp_all add: last_rep_def wit_replica_def wit_rep_row_def wit_dht_def wit_worker_def alist_wf_def)
  have "\<not> acked ?E h ms m" for h ms m by (simp add: acked_def wit_env_def)
  then have "\<not> all_acked ?E ?info X h ms" for X h ms by (simp add: all_acked_def)
  then show ?thesis
    using Replicate_advances_when_acked[OF db(1) db(1) run wit_refresh wit_self f(4) infos _ info(1)] run
    unfolding hs Let_def S by (auto simp: db info f)
qed

lemma length_closest_including: "length (nl_Nodes (closestContactsWithInlcudingNode n t ign inc h)) \<le> n"
  by (simp add: closestContactsWithInlcudingNode_def Let_def TopN_def nl_Len_def min_def split: option.splits)

lemma assign_keys_None:
  "p < length ns \<Longrightarrow> length keys \<le> j + p \<Longrightarrow> IP (ns ! p) \<noteq> ip \<Longrightarrow> assign_keys ip keys j ns m = None"
proof (induction ns arbitrary: j p m)
  case (Cons n ns)
  show ?case
  proof (cases p)
    case 0
    then show ?thesis using Cons.prems by simp
  next
    case (Suc q)
    then have "assign_keys ip keys (Suc j) ns m' = None" for m' using Cons.IH[of q "Suc j"] Cons.prems by simp
    then show ?thesis by (simp add: Let_def)
  qed
qed simp

lemma assign_all_None:
  assumes "nl_exists (closestContactsWithInlcudingNode (Alpha + 1) (hex_prefix key) ign (Some off) h) off"
    and "p < length (nl_Nodes (closestContactsWithInlcudingNode (Alpha + 1) (hex_prefix key) ign (Some off) h))"
    and "length keys \<le> p" and "IP (nl_Nodes (closestContactsWithInlcudingNode (Alpha + 1) (hex_prefix key) ign (Some off) h) ! p) \<noteq> IP off"
  shows "key \<in> set rest \<Longrightarrow> assign_all off ign h keys rest m = None"
proof (induction rest arbitrary: m)
  case (Cons x rest)
  show ?case
  proof (cases "x = key")
    case True
    then show ?thesis using assms assign_keys_None[OF assms(2), of keys 0 "IP off" m] by (simp add: Let_def)
  next
    case False
    then show ?thesis using Cons by (auto simp: Let_def split: bind_splits)
  qed
qed simp

definition only_first :: "string list \<Rightarrow> (string \<times> string list) list \<Rightarrow> bool" where
  "only_first keys m \<longleftrightarrow> (\<forall>(k, ks)\<in>set m. set ks \<subseteq> set (take (Alpha + 1) keys))"

lemma set_alist_update: "set (alist_update k v m) \<subseteq> insert (k, v) (set m)"
  by (auto simp: alist_update_def split: if_splits)

lemma only_first_update:
  assumes "only_first keys m" and "j \<le> Alpha" and "j < length keys"
  shows "only_first keys (alist_update k ((case map_of m k of None \<Rightarrow> [] | Some ks \<Rightarrow> ks) @ [keys ! j]) m)"
proof -
  let ?T = "set (take (Alpha + 1) keys)"
  define v where "v = (case map_of m k of None \<Rightarrow> [] | Some ks \<Rightarrow> ks) @ [keys ! j]"
  have "keys ! j \<in> ?T" using assms(2,3) by (auto simp: in_set_conv_nth intro!: exI[of _ j])
  moreover have "set ks \<subseteq> ?T" if "map_of m k = Some ks" for ks
    using map_of_SomeD[OF that] assms(1) unfolding only_first_def by blast
  ultimately have "set v \<subseteq> ?T" unfolding v_def by (cases "map_of m k") simp_all
  then show ?thesis using assms(1) set_alist_update[of k v m] unfolding only_first_def v_def[symmetric] by blast
qed

lemma assign_keys_first:
  "assign_keys ip keys j ns m = Some m' \<Longrightarrow> j + length ns \<le> Alpha + 1 \<Longrightarrow> only_first keys m \<Longrightarrow> only_first keys m'"
proof (induction ns arbitrary: j m)
  case (Cons n ns)
  then show ?case by (auto simp: Let_def split: if_splits intro!: Cons.IH[of "Suc j"] only_first_update simp del: One_nat_def)
qed simp

lemma assign_all_first:
  "assign_all off ign h keys rest m = Some m' \<Longrightarrow> only_first keys m \<Longrightarrow> only_first keys m'"
proof (induction rest arbitrary: m)
  case (Cons x rest)
  then show ?case using length_closest_including[of "Alpha + 1" "hex_prefix x" ign "Some off" h]
    by (auto simp: Let_def split: if_splits bind_splits dest!: assign_keys_first)
qed simp

lemma send_adjusted_requests:
  "send_adjusted E tries m a b s = (r, s') \<Longrightarrow>
   \<exists>ms. sent s' = sent s @ ms \<and> (\<forall>q\<in>set ms. \<exists>k ks. (k, ks) \<in> set m \<and> Data q = ReplicateDataRequest ks)"
proof (induction m arbitrary: a b s)
  case (Cons x m)
  obtain k keys where x: "x = (k, keys)" by (cases x)
  show ?case
  proof (cases "getNodeFromKey k")
    case (Inr n)
    obtain err s1 where c: "send_replicate E tries n keys s = (err, s1)" by fastforce
    obtain a' b' where "send_adjusted E tries m a' b' s1 = (r, s')"
      using Cons.prems x Inr c by (auto split: if_splits)
    from Cons.IH[OF this] obtain ms where "sent s' = sent s1 @ ms" "\<forall>q\<in>set ms. \<exists>k ks. (k, ks) \<in> set m \<and> Data q = ReplicateDataRequest ks"
      by blast
    moreover obtain ms1 where "sent s1 = sent s @ ms1" "\<forall>q\<in>set ms1. Data q = ReplicateDataRequest keys"
      using send_replicate_spec[OF c] by (auto simp: is_request_def)
    ultimately show ?thesis using x by (intro exI[of _ "ms1 @ ms"]) (auto, blast)
  qed (use Cons.prems x in simp)
qed simp

text \<open>Handing over the keys of an offline node is broken: the loop over the closest nodes of a key picks the
  keys by the position of the node, so whatever was asked of other nodes concerns only the first Alpha + 1
  keys; and when one of the closest nodes of a key that the offline node held stands at a position that no
  key has, the process panics.\<close>

theorem adjustNodeKeys_wrong_keys:
  fixes E W frm info s
  defines "keys \<equiv> map fst (GetKeysForReplication (dberr E ''GetKeysForReplication'') frm (now E) (dht_store s))"
    and "off \<equiv> SetHashedID (blake3 E) (mk_node (nri_ID info) (nri_IP info) (nri_Port info))"
    and "ign \<equiv> filter (\<lambda>n. ID n \<noteq> nri_ID info) (ToNodeList (ignorelist s))"
  defines "closest \<equiv> \<lambda>k. closestContactsWithInlcudingNode (Alpha + 1) (hex_prefix k) ign (Some off) (ht s)"
  assumes "\<And>m. set (key_order W m) = set m"
  shows "(adjustNodeKeys E W frm info s = Some (e, s') \<longrightarrow>
      (\<exists>ms. sent s' = sent s @ ms \<and> (\<forall>m\<in>set ms. \<exists>ks. Data m = ReplicateDataRequest ks \<and> set ks \<subseteq> set (take (Alpha + 1) keys))))
    \<and> (k \<in> set keys \<longrightarrow> nl_exists (closest k) off \<longrightarrow> p < length (nl_Nodes (closest k)) \<longrightarrow> length keys \<le> p \<longrightarrow>
       IP (nl_Nodes (closest k) ! p) \<noteq> nri_IP info \<longrightarrow> adjustNodeKeys E W frm info s = None)"
proof (intro conjI impI)
  assume a: "adjustNodeKeys E W frm info s = Some (e, s')"
  obtain m r s1 where m: "assign_all off ign (ht s) keys keys [] = Some m" "send_adjusted E (max_tries W) (key_order W m) 0 0 s = (r, s1)"
      "sent s' = sent s1"
    by (rule adjustNodeKeys_cases[OF a]) (auto simp: keys_def off_def ign_def)
  have "only_first keys m" by (rule assign_all_first[OF m(1)]) (simp add: only_first_def)
  then have of_m: "set ks \<subseteq> set (take (Alpha + 1) keys)" if "(k, ks) \<in> set m" for k ks using that unfolding only_first_def by blast
  obtain ms where ms: "sent s1 = sent s @ ms" "\<forall>q\<in>set ms. \<exists>k ks. (k, ks) \<in> set m \<and> Data q = ReplicateDataRequest ks"
    using send_adjusted_requests[OF m(2)] assms(5) by auto
  have "\<forall>q\<in>set ms. \<exists>ks. Data q = ReplicateDataRequest ks \<and> set ks \<subseteq> set (take (Alpha + 1) keys)" using ms(2) of_m by blast
  then show "\<exists>ms. sent s' = sent s @ ms \<and> (\<forall>m\<in>set ms. \<exists>ks. Data m = ReplicateDataRequest ks \<and> set ks \<subseteq> set (take (Alpha + 1) keys))"
    using m(3) ms(1) by auto
next
  assume "k \<in> set keys" "nl_exists (closest k) off" "p < length (nl_Nodes (closest k))" "length keys \<le> p"
    "IP (nl_Nodes (closest k) ! p) \<noteq> nri_IP info"
  moreover have "IP off = nri_IP info" by (simp add: off_def mk_node_def SetHashedID_def)
  ultimately have "assign_all off ign (ht s) keys keys [] = None"
    unfolding closest_def by (intro assign_all_None) auto
  then show "adjustNodeKeys E W frm info s = None"
    unfolding adjustNodeKeys_def Let_def keys_def[symmetric] off_def[symmetric] ign_def[symmetric] by simp
qed

definition wit_moved :: dht where
  "wit_moved = (wit_replica False)\<lparr>ht := (ht wit_dht)\<lparr>routeTable := [wit_peer, \<lparr>ID = [4], IP = ''10.0.0.4'', Port = 4445, HashedID = replicate 31 0 @ [4]\<rparr>]
       # replicate 255 []\<rparr>\<rparr>"

theorem adjustNodeKeys_wrong_keys_witness:
  "adjustNodeKeys wit_env wit_worker 0 (toDomain (str_of_bytes [8], (wit_rep_row False (Some 0))\<lparr>ri_ip := ''10.0.0.7''\<rparr>)) wit_moved = None"
proof -
  let ?info = "toDomain (str_of_bytes [8], (wit_rep_row False (Some 0))\<lparr>ri_ip := ''10.0.0.7''\<rparr>)"
  let ?off = "SetHashedID (blake3 wit_env) (mk_node (nri_ID ?info) (nri_IP ?info) (nri_Port ?info))"
  let ?other = "\<lparr>ID = [4], IP = ''10.0.0.4'', Port = 4445, HashedID = replicate 31 0 @ [4]\<rparr> :: node"
  let ?nl = "\<lparr>nl_Nodes = [wit_peer, ?other], Comparator = hex_prefix ''00''\<rparr>"
  have off: "ID ?off = [8]" "nri_IP ?info = ''10.0.0.7''" by (simp_all add: toDomain_def mk_node_def wit_rep_row_def SetHashedID_def)
  have keys: "map fst (GetKeysForReplication (dberr wit_env ''GetKeysForReplication'') 0 (now wit_env) (dht_store wit_moved)) = [''00'']"
    by (simp add: GetKeysForReplication_def wit_env_def wit_moved_def wit_replica_def wit_row_def)
  have ign: "filter (\<lambda>n. ID n \<noteq> nri_ID ?info) (ToNodeList (ignorelist wit_moved)) = []"
    by (simp add: wit_moved_def wit_replica_def wit_dht_def ToNodeList_def)
  have c0: "closestContactsWithInlcudingNode (Alpha + 1) t [] (Some x) (ht wit_moved)
      = TopN (Alpha + 1) (nl_Sort \<lparr>nl_Nodes = [wit_peer, ?other], Comparator = t\<rparr>)" if "ID x = [8]" for x t
    using that by (simp add: closestContactsWithInlcudingNode_def wit_moved_def wit_dht_def nl_exists_def wit_peer_def)
  note c = c0[OF off(1), of "hex_prefix ''00''"]
  have t: "nl_Nodes (TopN (Alpha + 1) (nl_Sort ?nl)) = nl_Nodes (nl_Sort ?nl)"
    by (simp add: TopN_def nl_Len_def nl_Sort_def Alpha_def)
  have len: "length (nl_Nodes (nl_Sort ?nl)) = 2" and st: "set (nl_Nodes (nl_Sort ?nl)) = {wit_peer, ?other}"
    by (simp add: nl_Sort_def) (simp add: nl_Sort_set)
  have "nl_Nodes (nl_Sort ?nl) ! 1 \<in> {wit_peer, ?other}" using nth_mem[of 1 "nl_Nodes (nl_Sort ?nl)"] len st by simp
  then have ip: "IP (nl_Nodes (nl_Sort ?nl) ! 1) \<noteq> nri_IP ?info" unfolding off(2) by (auto simp: wit_peer_def)
  have ex: "nl_exists (TopN (Alpha + 1) (nl_Sort ?nl)) ?off"
    unfolding nl_exists_iff t st off(1) by (auto simp: wit_peer_def)
  have o: "\<And>m. set (key_order wit_worker m) = set m" by (simp add: wit_worker_def)
  show ?thesis
    by (rule adjustNodeKeys_wrong_keys[where W = wit_worker and E = wit_env and frm = 0 and info = ?info and s = wit_moved
          and k = "''00''" and p = 1, OF o, THEN conjunct2, rule_format, unfolded keys ign c t]; (rule ex | rule ip | simp only: len | simp))
qed

section \<open>Oldest keys\<close>

text \<open>The oldest value of the store is never offered to a node that was not replicated to before: the window
  starts after the creation of the first value.\<close>

lemma oldest_key_not_in_window:
  assumes "(k, r) \<in> set (data_tbl st)" and "alist_wf (data_tbl st)" and "\<forall>(k', r')\<in>set (data_tbl st). row_createdAt r \<le> row_createdAt r'"
    and "GetOwnCreatedAt None tnow st = Inr hs"
  shows "hs = row_createdAt r \<and> k \<notin> fst ` set (GetKeysForReplication None hs to st)"
proof -
  have fold_min: "fold (\<lambda>(k, r). min (row_createdAt r)) rs (m :: timestamp) = Min (insert m ((\<lambda>p. row_createdAt (snd p)) ` set rs))" for rs m
  proof (induction rs arbitrary: m)
    case (Cons x rs)
    have "fold (\<lambda>(k, r). min (row_createdAt r)) (x # rs) m = Min (insert (min (row_createdAt (snd x)) m) ((\<lambda>p. row_createdAt (snd p)) ` set rs))"
      using Cons by (simp add: case_prod_unfold)
    also have "\<dots> = Min (insert m ((\<lambda>p. row_createdAt (snd p)) ` set (x # rs)))"
      by (cases "rs = []") (auto simp: min.assoc min.commute min.left_commute)
    finally show ?case .
  qed simp
  obtain x xs where x: "data_tbl st = x # xs" using assms(1) by (cases "data_tbl st") auto
  have "hs = Min ((\<lambda>p. row_createdAt (snd p)) ` set (data_tbl st))"
    using assms(4) x fold_min[of xs "row_createdAt (snd x)"] by (simp add: GetOwnCreatedAt_def case_prod_unfold)
  also have "\<dots> = row_createdAt r"
    using assms(1,3) by (intro Min_eqI) (auto simp: image_iff intro!: bexI[of _ "(k, r)"])
  finally have hs: "hs = row_createdAt r" .
  have "r' = r" if "(k, r') \<in> set (data_tbl st)" for r'
    using that assms(1,2) by (metis alist_wf_def eq_key_imp_eq_value)
  then show ?thesis using hs by (auto simp: set_GetKeysForReplication)
qed

end
