(* ===== verification/Maintenance.thy ===== *)
theory Maintenance
  imports Replication
begin

text \<open>
  The other workers of the DHT: the check which nodes are alive (\<^verbatim>\<open>p2p/kademlia/node_activity.go\<close>),
  the cleanup of disabled keys and the deletion of data that other nodes should hold
  (\<^verbatim>\<open>redundant_data.go\<close>).
\<close>

definition defaultDisabledKeyExpirationInterval :: int where "defaultDisabledKeyExpirationInterval = minutes 30"
definition delKeysCountThreshold :: int where "delKeysCountThreshold = 10"

section \<open>Node activity\<close>

definition check_node :: "env \<Rightarrow> node_replication_info \<Rightarrow> dht \<Rightarrow> dht option" where
  "check_node E info s = (
     let n = mk_node (nri_ID info) (nri_IP info) (nri_Port info);
         i = str_of_bytes (nri_ID info);
         (request, s1) = newMessage E Ping n NoData s;
         (response, s2) = net_call E request s1
     in case response of
          Inl e \<Rightarrow>
            if Active info then
              map_option (\<lambda>s3. s3\<lparr>dht_store := snd (UpdateIsActive (dberr E ''UpdateIsActive'') (now E) i False False (dht_store s3))\<rparr>)
                (removeNode E n (s2\<lparr>ignorelist := IncrementCount (now E) n (ignorelist s2)\<rparr>))
            else Some s2
        | Inr _ \<Rightarrow>
            let s3 = s2\<lparr>ignorelist := bl_Delete n (ignorelist s2)\<rparr> in
            map_option (\<lambda>s4. s4\<lparr>dht_store := snd (UpdateLastSeen (dberr E ''UpdateLastSeen'') (now E) i (dht_store s4))\<rparr>)
              (if Active info then Some s3
               else map_option (\<lambda>(_, s4). s4\<lparr>dht_store := snd (UpdateIsActive (dberr E ''UpdateIsActive'') (now E) i True False (dht_store s4))\<rparr>)
                      (addNode E n s3)))"

fun check_nodes :: "env \<Rightarrow> node_replication_info list \<Rightarrow> dht \<Rightarrow> dht option" where
  "check_nodes E [] s = Some s"
| "check_nodes E (info # infos) s = Option.bind (check_node E info s) (check_nodes E infos)"

text \<open>The tick of \<^verbatim>\<open>checkNodeActivity\<close>; an error of the query leaves the list empty.\<close>

definition checkNodeActivity :: "env \<Rightarrow> worker_env \<Rightarrow> dht \<Rightarrow> dht option" where
  "checkNodeActivity E W s =
     (if \<not> connectivity W then Some s
      else check_nodes E (case GetAllReplicationInfo (dberr E ''GetAllReplicationInfo'') (dht_store s) of Inl _ \<Rightarrow> [] | Inr is \<Rightarrow> is) s)"

section \<open>Redundant data\<close>

definition cleanupDisabledKeys :: "env \<Rightarrow> meta_store option \<Rightarrow> string option \<times> meta_store option" where
  "cleanupDisabledKeys E mo =
     (case mo of
        None \<Rightarrow> (None, None)
      | Some m \<Rightarrow>
          (case GetDisabledKeys (dberr E ''GetDisabledKeys'') (now E - defaultDisabledKeyExpirationInterval) m of
             Inl e \<Rightarrow> (Some (''get disabled keys: '' @ e), Some m)
           | Inr ks \<Rightarrow> (None, Some (fold (\<lambda>(k, t) m. case hex_decode k of None \<Rightarrow> m | Some d \<Rightarrow> meta_Delete d m) ks m))))"

text \<open>\<^verbatim>\<open>AddDate(-5, 0, 0)\<close> is five calendar years, the argument \<open>fiveYears\<close>.\<close>

definition classify_keys :: "bytes \<Rightarrow> timestamp \<Rightarrow> (string \<times> bytes list) list \<Rightarrow> del_key list \<times> del_key list" where
  "classify_keys me tnow closestContactsMap = (
     let enough = filter (\<lambda>(k, cs). \<not> length cs < Alpha) closestContactsMap;
         delKey = (\<lambda>(k, cs). \<lparr>dk_Key = k, dk_CreatedAt = tnow, dk_Nodes = [], dk_Count = 1\<rparr>)
     in (map delKey (filter (\<lambda>(k, cs). me \<notin> set cs) enough), map delKey (filter (\<lambda>(k, cs). me \<in> set cs) enough)))"

definition cleanupRedundantDataWorker :: "env \<Rightarrow> worker_env \<Rightarrow> int \<Rightarrow> meta_store \<Rightarrow> dht \<Rightarrow> meta_store \<times> dht" where
  "cleanupRedundantDataWorker E W fiveYears m s = (
     let replicationKeys = GetKeysForReplication (dberr E ''GetKeysForReplication'') (now E - fiveYears) (now E) (dht_store s);
         ignores = ToNodeList (ignorelist s);
         (me, s1) = self_node E s;
         closestContactsMap = fold (\<lambda>(k, t). alist_update k (closest_ids ignores me (ht s1) k)) replicationKeys [];
         (insertKeys, removeKeys) = classify_keys (ID me) (now E) (del_order W closestContactsMap);
         (err, m1) = (if length insertKeys > 0 then BatchInsertDelKeys (dberr E ''BatchInsertDelKeys'') insertKeys m else (None, m))
     in if err \<noteq> None then (m1, s1)
        else if length removeKeys > 0 then (snd (BatchDeleteDelKeys (dberr E ''BatchDeleteDelKeys'') removeKeys m1), s1)
        else (m1, s1))"

definition del_batchSize :: nat where "del_batchSize = 100"

text \<open>\<open>i\<close> counts the checks of the disk space.\<close>

function delete_batches :: "env \<Rightarrow> worker_env \<Rightarrow> nat \<Rightarrow> del_key list \<Rightarrow> sqlite_store \<Rightarrow> sqlite_store" where
  "delete_batches E W i delKeys st =
     (if delKeys = [] then st
      else case disk_low W i of
        Inl e \<Rightarrow> st
      | Inr isLow \<Rightarrow>
          if \<not> isLow then st
          else let batchEnd = (if length delKeys < del_batchSize then length delKeys else del_batchSize);
                   (err, st1) = batchDeleteRecords (dberr E ''BatchDeleteRecords'') (map dk_Key (take batchEnd delKeys)) st
            in if err \<noteq> None then st1 else delete_batches E W (Suc i) (drop batchEnd delKeys) st1)"
  by auto
termination
  by (relation "measure (\<lambda>(E, W, i, delKeys, st). length delKeys)") (auto simp: del_batchSize_def)

declare delete_batches.simps [simp del]

definition deleteRedundantData :: "env \<Rightarrow> worker_env \<Rightarrow> meta_store \<Rightarrow> sqlite_store \<Rightarrow> sqlite_store" where
  "deleteRedundantData E W m st =
     (case GetAllToDelKeys (dberr E ''GetAllToDelKeys'') delKeysCountThreshold m of
        Inl e \<Rightarrow> st
      | Inr delKeys \<Rightarrow> delete_batches E W 0 delKeys st)"

section \<open>Correctness of the activity check\<close>

definition info_row :: "dht \<Rightarrow> string \<Rightarrow> replication_row option" where
  "info_row s i = map_of (replication_info (dht_store s)) i"

lemma updateReplicationNode_known:
  assumes "\<And>x. dberr E x = None" and "info_row s (str_of_bytes i) \<noteq> None" and "info_row s (time_text E (now E)) = None"
  shows "info_row (snd (updateReplicationNode E i ip p a s)) j = info_row s j"
  using assms
  by (auto simp: updateReplicationNode_def info_row_def RecordExists_def UpdateReplicationInfo_def Let_def map_of_update_row case_prod_unfold)

lemma addNode_known:
  assumes "\<And>x. dberr E x = None" and "info_row s (str_of_bytes (ID n)) \<noteq> None" and "info_row s (time_text E (now E)) = None"
    and "addNode E n s = Some (r, s')"
  shows "info_row s' j = info_row s j"
proof (cases "ID n = ID (self (ht s))")
  case True
  with assms(4) show ?thesis by (simp add: addNode_def)
next
  case False
  let ?n = "SetHashedID (blake3 E) n"
  have "dht_store s' = dht_store (snd (updateReplicationNode E (ID ?n) (IP ?n) (Port ?n) True s))"
    using assms(4) False by (auto simp: addNode_def Let_def case_prod_unfold split: bind_splits if_splits sum.splits)
  then have "info_row s' j = info_row (snd (updateReplicationNode E (ID ?n) (IP ?n) (Port ?n) True s)) j" by (simp add: info_row_def)
  also have "\<dots> = info_row s j" using assms(1-3) by (intro updateReplicationNode_known) (simp_all add: SetHashedID_def)
  finally show ?thesis .
qed

lemma removeNode_frame:
  assumes "hash_ok E" and "ht_inv (blake3 E) (ht s)" and "trusted E n"
  shows "\<exists>s'. removeNode E n s = Some s' \<and> ht_inv (blake3 E) (ht s') \<and> dht_store s' = dht_store s \<and> sent s' = sent s"
proof (cases "ID n = ID (self (ht s))")
  case True
  then show ?thesis using assms(2) by (simp add: removeNode_def)
next
  case False
  note ix = node_index[OF assms(1,2), of n]
  have b: "bucketIndex (HashedID (self (ht s))) (HashedID (SetHashedID (blake3 E) n)) = Some (int (node_index E s n))"
    using ix trusted_SetHashedID[OF assms(3)] by simp
  obtain r h where r: "RemoveNode (int (node_index E s n)) (ID n) (ht s) = Some (r, h)"
    using bucket_at_int[OF assms(2)] ix by (fastforce simp: RemoveNode_def split: if_splits)
  have "removeNode E n s = Some (s\<lparr>ht := h\<rparr>)" using False b r by (simp add: removeNode_def Let_def)
  then show ?thesis using RemoveNode_inv[OF assms(2) r] by simp
qed

lemma trusted_info: "trusted E (info_node info)" "ID (info_node info) = nri_ID info"
  by (simp_all add: trusted_def info_node_def mk_node_def)

lemmas row_updates = info_row_def UpdateIsActive_def UpdateLastSeen_def update_info_def map_of_update_row

text \<open>What one check does to the row of the node: \<open>ok\<close> tells whether the ping was answered.\<close>

definition checked :: "env \<Rightarrow> bool \<Rightarrow> replication_row \<Rightarrow> replication_row \<Rightarrow> bool" where
  "checked E ok row row' \<longleftrightarrow> ri_is_active row' = ok \<and> ri_last_seen row' = (if ok then Some (CTime (now E)) else ri_last_seen row)
     \<and> ri_ip row' = ri_ip row \<and> ri_port row' = ri_port row \<and> ri_lastReplicatedAt row' = ri_lastReplicatedAt row"

lemma check_node_spec:
  assumes env: "hash_ok E" "\<And>x. dberr E x = None" and inv: "ht_inv (blake3 E) (ht s)" and tt: "info_row s (time_text E (now E)) = None"
    and row: "info_row s (str_of_bytes (nri_ID info)) = Some row" "Active info = ri_is_active row"
  shows "\<exists>s' m ms row'. check_node E info s = Some s' \<and> ht_inv (blake3 E) (ht s') \<and> sent s' = sent s @ m # ms
    \<and> Receiver m = Some (info_node info) \<and> MessageType m = Ping
    \<and> (\<forall>j. j \<noteq> str_of_bytes (nri_ID info) \<longrightarrow> info_row s' j = info_row s j)
    \<and> info_row s' (str_of_bytes (nri_ID info)) = Some row' \<and> checked E (is_ok (net_answer E (sent s) m)) row row'"
proof -
  let ?n = "info_node info" and ?i = "str_of_bytes (nri_ID info)"
  obtain m s1 where m: "newMessage E Ping ?n NoData s = (m, s1)" by fastforce
  have f: "sent s1 = sent s" "dht_store s1 = dht_store s" "ht s1 = ht s" "Receiver m = Some ?n" "MessageType m = Ping"
    using newMessage_frame[of E Ping ?n NoData s] newMessage_fields[of E Ping ?n NoData s] m by simp_all
  let ?s2 = "s1\<lparr>sent := sent s @ [m]\<rparr>"
  have i2: "info_row (?s2\<lparr>ignorelist := ig\<rparr>) = info_row s" for ig using f(2) by (simp add: info_row_def fun_eq_iff)
  have i2': "info_row ?s2 = info_row s" using f(2) by (simp add: info_row_def fun_eq_iff)
  note unf = check_node_def[of E info s] info_node_def[symmetric] Let_def m net_call_def f(1) env(2)
  show ?thesis
  proof (cases "net_answer E (sent s) m")
    case (Inl e)
    show ?thesis
    proof (cases "Active info")
      case True
      let ?s3 = "?s2\<lparr>ignorelist := IncrementCount (now E) ?n (ignorelist ?s2)\<rparr>"
      have "ht_inv (blake3 E) (ht ?s3)" using inv f(3) by simp
      from removeNode_frame[OF env(1) this trusted_info(1)] obtain s4 where s4: "removeNode E ?n ?s3 = Some s4"
          "ht_inv (blake3 E) (ht s4)" "dht_store s4 = dht_store ?s3" "sent s4 = sent ?s3" by blast
      show ?thesis using s4 Inl True row f
        by (intro exI[of _ "s4\<lparr>dht_store := snd (UpdateIsActive None (now E) ?i False False (dht_store s4))\<rparr>"] exI[of _ m] exI[of _ "[]"])
           (simp add: unf row_updates checked_def)
    next
      case False
      then show ?thesis using Inl row inv f i2'
        by (intro exI[of _ ?s2] exI[of _ m] exI[of _ "[]"]) (simp add: unf row_updates checked_def)
    qed
  next
    case (Inr a)
    let ?s3 = "?s2\<lparr>ignorelist := bl_Delete ?n (ignorelist ?s2)\<rparr>"
    let ?seen = "\<lambda>s. s\<lparr>dht_store := snd (UpdateLastSeen None (now E) ?i (dht_store s))\<rparr>"
    let ?act = "\<lambda>s. s\<lparr>dht_store := snd (UpdateIsActive None (now E) ?i True False (dht_store s))\<rparr>"
    show ?thesis
    proof (cases "Active info")
      case True
      then show ?thesis using Inr row inv f i2
        by (intro exI[of _ "?seen ?s3"] exI[of _ m] exI[of _ "[]"]) (simp add: unf row_updates checked_def)
    next
      case False
      have "ht_inv (blake3 E) (ht ?s3)" using inv f(3) by simp
      from addNode_inv[OF env(1) this trusted_info(1)] obtain r s4 where s4: "addNode E ?n ?s3 = Some (r, s4)" "ht_inv (blake3 E) (ht s4)"
        by blast
      obtain ms where ms: "sent s4 = sent ?s3 @ ms" using addNode_sent[OF s4(1)] by blast
      have "info_row s4 j = info_row s j" for j
        using addNode_known[OF env(2) _ _ s4(1), of j] i2 row(1) tt by (simp add: trusted_info(2))
      then have "map_of (replication_info (dht_store s4)) j = map_of (replication_info (dht_store s)) j" for j by (simp add: info_row_def)
      then show ?thesis using s4 Inr False row f ms
        by (intro exI[of _ "?seen (?act s4)"] exI[of _ m] exI[of _ ms]) (simp add: unf row_updates checked_def)
    qed
  qed
qed

text \<open>Among the messages \<open>ms\<close> sent after the history \<open>h0\<close> is a ping to the node; \<open>ok\<close> tells whether it was answered.\<close>

definition pinged :: "env \<Rightarrow> message list \<Rightarrow> message list \<Rightarrow> node \<Rightarrow> bool \<Rightarrow> bool" where
  "pinged E h0 ms n ok \<longleftrightarrow> (\<exists>h m t. ms = h @ m # t \<and> Receiver m = Some n \<and> MessageType m = Ping \<and> ok = is_ok (net_answer E (h0 @ h) m))"

lemma pinged_prepend: "pinged E (h0 @ h1) ms n ok \<Longrightarrow> pinged E h0 (h1 @ ms) n ok"
  unfolding pinged_def by (metis append.assoc)

lemma pinged_first: "Receiver m = Some n \<Longrightarrow> MessageType m = Ping \<Longrightarrow> pinged E h0 (m # ms) n (is_ok (net_answer E h0 m))"
  unfolding pinged_def by (intro exI[of _ "[]"]) simp

lemma check_nodes_spec:
  assumes env: "hash_ok E" "\<And>x. dberr E x = None"
  shows "ht_inv (blake3 E) (ht s) \<Longrightarrow> info_row s (time_text E (now E)) = None \<Longrightarrow> distinct (map nri_ID infos) \<Longrightarrow>
    (\<forall>info\<in>set infos. \<exists>row. info_row s (str_of_bytes (nri_ID info)) = Some row \<and> Active info = ri_is_active row) \<Longrightarrow>
    \<exists>s' ms. check_nodes E infos s = Some s' \<and> ht_inv (blake3 E) (ht s') \<and> sent s' = sent s @ ms
     \<and> (\<forall>j. j \<notin> (\<lambda>i. str_of_bytes (nri_ID i)) ` set infos \<longrightarrow> info_row s' j = info_row s j)
     \<and> (\<forall>info\<in>set infos. \<exists>row row' ok. info_row s (str_of_bytes (nri_ID info)) = Some row
          \<and> info_row s' (str_of_bytes (nri_ID info)) = Some row' \<and> pinged E (sent s) ms (info_node info) ok \<and> checked E ok row row')"
proof (induction infos arbitrary: s)
  case (Cons x infos)
  let ?i = "\<lambda>info. str_of_bytes (nri_ID info)"
  obtain row where row: "info_row s (?i x) = Some row" "Active x = ri_is_active row" using Cons.prems(4) by auto
  from check_node_spec[OF env Cons.prems(1,2) row] obtain s1 m ms row1 where s1: "check_node E x s = Some s1" "ht_inv (blake3 E) (ht s1)"
      "sent s1 = sent s @ m # ms" "Receiver m = Some (info_node x)" "MessageType m = Ping"
      "\<And>j. j \<noteq> ?i x \<Longrightarrow> info_row s1 j = info_row s j" "info_row s1 (?i x) = Some row1" "checked E (is_ok (net_answer E (sent s) m)) row row1"
    by blast
  have other: "?i info \<noteq> ?i x" if "info \<in> set infos" for info using Cons.prems(3) that by (auto simp: image_iff)
  have tt: "time_text E (now E) \<noteq> ?i x" using Cons.prems(2) row(1) by auto
  have ih_rows: "\<forall>info\<in>set infos. \<exists>row. info_row s1 (?i info) = Some row \<and> Active info = ri_is_active row"
    using Cons.prems(4) other s1(6) by simp
  have "info_row s1 (time_text E (now E)) = None" using s1(6)[OF tt] Cons.prems(2) by simp
  from Cons.IH[OF s1(2) this _ ih_rows] Cons.prems(3) obtain s' ms' where s': "check_nodes E infos s1 = Some s'" "ht_inv (blake3 E) (ht s')"
      "sent s' = sent s1 @ ms'" "\<And>j. j \<notin> ?i ` set infos \<Longrightarrow> info_row s' j = info_row s1 j"
      "\<forall>info\<in>set infos. \<exists>row row' ok. info_row s1 (?i info) = Some row \<and> info_row s' (?i info) = Some row'
          \<and> pinged E (sent s1) ms' (info_node info) ok \<and> checked E ok row row'"
    by auto
  have x: "info_row s' (?i x) = Some row1" using s'(4)[of "?i x"] s1(7) other by (metis imageE)
  let ?ms = "m # ms @ ms'"
  have px: "pinged E (sent s) ?ms (info_node x) (is_ok (net_answer E (sent s) m))" by (rule pinged_first[OF s1(4,5)])
  have later: "pinged E (sent s1) ms' n ok \<Longrightarrow> pinged E (sent s) ?ms n ok" for n ok
    using pinged_prepend[of E "sent s" "m # ms" ms' n ok] s1(3) by simp
  have rest: "\<exists>row row' ok. info_row s (?i info) = Some row \<and> info_row s' (?i info) = Some row'
          \<and> pinged E (sent s) ?ms (info_node info) ok \<and> checked E ok row row'" if "info \<in> set infos" for info
    using s'(5) that s1(6)[OF other[OF that]] later by force
  have "\<forall>info\<in>set (x # infos). \<exists>row row' ok. info_row s (?i info) = Some row \<and> info_row s' (?i info) = Some row'
          \<and> pinged E (sent s) ?ms (info_node info) ok \<and> checked E ok row row'"
    using rest row(1) x px s1(8) by auto
  moreover have "\<forall>j. j \<notin> ?i ` set (x # infos) \<longrightarrow> info_row s' j = info_row s j" using s'(4) s1(6) by auto
  moreover have "check_nodes E (x # infos) s = Some s'" using s1(1) s'(1) by simp
  moreover have "sent s' = sent s @ ?ms" using s'(3) s1(3) by simp
  ultimately show ?case using s'(2) by blast
qed simp

lemma set_GetAllReplicationInfo: "GetAllReplicationInfo None st = Inr infos \<Longrightarrow> set infos = toDomain ` set (replication_info st)"
  by (auto simp: GetAllReplicationInfo_def image_iff; force)

text \<open>C36. The activity check keeps the table of nodes true.  Without internet connectivity it does nothing.  With
  connectivity, when the database calls succeed, hashes have 32 bytes and no node is identified by the text of the current
  time (which \<^verbatim>\<open>UpdateReplicationInfo\<close> binds as an identifier), it pings every node of the replication table, and afterwards a node is
  marked active exactly when the ping of this check was answered, with the time of the check as the time it was last seen
  (the old one when it did not answer); the address and the last replication of a node stay as they were, the check never
  panics and the routing table keeps its invariant.\<close>

theorem checkNodeActivity_correct:
  assumes "hash_ok E" and "\<And>x. dberr E x = None" and "ht_inv (blake3 E) (ht s)"
    and "alist_wf (replication_info (dht_store s))" and "time_text E (now E) \<notin> fst ` set (replication_info (dht_store s))"
  shows "(\<not> connectivity W \<longrightarrow> checkNodeActivity E W s = Some s)
    \<and> (connectivity W \<longrightarrow> (\<exists>s' ms. checkNodeActivity E W s = Some s' \<and> ht_inv (blake3 E) (ht s') \<and> sent s' = sent s @ ms
       \<and> (\<forall>(i, row)\<in>set (replication_info (dht_store s)). \<exists>row' ok. map_of (replication_info (dht_store s')) i = Some row'
         \<and> pinged E (sent s) ms (mk_node (bytes_of_str i) (ri_ip row) (ri_port row)) ok \<and> checked E ok row row')))"
proof (cases "connectivity W")
  case True
  obtain infos where infos: "GetAllReplicationInfo None (dht_store s) = Inr infos" by (simp add: GetAllReplicationInfo_def)
  let ?t = "replication_info (dht_store s)"
  have lk: "info_row s i = Some row" if "(i, row) \<in> set ?t" for i row
    using that assms(4) by (simp add: info_row_def alist_wf_def)
  have dom: "nri_ID (toDomain (i, row)) = bytes_of_str i" "Active (toDomain (i, row)) = ri_is_active row"
      "info_node (toDomain (i, row)) = mk_node (bytes_of_str i) (ri_ip row) (ri_port row)" for i row
    by (simp_all add: toDomain_def info_node_def)
  have rows: "\<forall>info\<in>set infos. \<exists>row. info_row s (str_of_bytes (nri_ID info)) = Some row \<and> Active info = ri_is_active row"
    unfolding set_GetAllReplicationInfo[OF infos] using lk dom by auto
  have tt: "info_row s (time_text E (now E)) = None" using assms(5) by (simp add: info_row_def map_of_eq_None_iff)
  from check_nodes_spec[OF assms(1,2,3) tt GetAllReplicationInfo_distinct[OF assms(4) infos] rows]
  obtain s' ms where s': "check_nodes E infos s = Some s'" "ht_inv (blake3 E) (ht s')" "sent s' = sent s @ ms"
      "\<forall>info\<in>set infos. \<exists>row row' ok. info_row s (str_of_bytes (nri_ID info)) = Some row
          \<and> info_row s' (str_of_bytes (nri_ID info)) = Some row' \<and> pinged E (sent s) ms (info_node info) ok \<and> checked E ok row row'"
    by blast
  have "\<exists>row' ok. map_of (replication_info (dht_store s')) i = Some row'
         \<and> pinged E (sent s) ms (mk_node (bytes_of_str i) (ri_ip row) (ri_port row)) ok \<and> checked E ok row row'" if "(i, row) \<in> set ?t" for i row
    using s'(4) lk[OF that] that dom unfolding set_GetAllReplicationInfo[OF infos] by (fastforce simp: info_row_def)
  then have "\<forall>(i, row)\<in>set ?t. \<exists>row' ok. map_of (replication_info (dht_store s')) i = Some row'
         \<and> pinged E (sent s) ms (mk_node (bytes_of_str i) (ri_ip row) (ri_port row)) ok \<and> checked E ok row row'" by blast
  moreover have "checkNodeActivity E W s = Some s'" using assms(2) True infos s'(1) by (simp add: checkNodeActivity_def)
  ultimately show ?thesis using s'(2,3) True by blast
qed (simp add: checkNodeActivity_def)

lemma wit_replica_inv: "ht_inv (blake3 wit_env) (ht (wit_replica act))"
proof -
  have "bucket_ok (blake3 wit_env) (self (ht wit_dht)) 0 [wit_peer]"
    by (simp add: bucket_ok_def wit_peer_def wit_dht_def wit_env_def wit_index K_def)
  then show ?thesis
    by (auto simp: ht_inv_def wit_replica_def wit_dht_def nth_Cons bucket_ok_def B_def wit_env_def split: nat.splits)
qed

theorem checkNodeActivity_correct_witness:
  "\<exists>s' row'. checkNodeActivity wit_env wit_worker (wit_replica True) = Some s'
     \<and> map_of (replication_info (dht_store s')) (str_of_bytes [8]) = Some row' \<and> \<not> ri_is_active row'"
proof -
  have t: "replication_info (dht_store (wit_replica True)) = [(str_of_bytes [8], wit_rep_row True (Some 0))]" by (simp add: wit_replica_def)
  have tt: "''t'' \<noteq> str_of_bytes [8]" by code_simp
  have "\<not> ok" if "pinged wit_env h ms n ok" for h ms n ok using that by (auto simp: pinged_def wit_env_def)
  then show ?thesis
    using checkNodeActivity_correct[of wit_env "wit_replica True" wit_worker] wit_dht_ok(1) wit_replica_inv tt
    by (fastforce simp: t alist_wf_def checked_def wit_worker_def wit_env_def)
qed

section \<open>Safety of the deletion\<close>

lemma map_of_filter_keys: "map_of (filter (\<lambda>(k, r). P k) t) k = (if P k then map_of t k else None)"
  by (induction t) auto

text \<open>A key changes only when it is in some batch of a hundred, and then the disk was found low before this batch and before
  each batch before it.\<close>

lemma delete_batches_spec:
  "map_of (data_tbl (delete_batches E W i dks st)) k \<noteq> map_of (data_tbl st) k \<Longrightarrow>
   map_of (data_tbl (delete_batches E W i dks st)) k = None
   \<and> (\<exists>b. k \<in> dk_Key ` set (take del_batchSize (drop (b * del_batchSize) dks)) \<and> (\<forall>c\<le>b. disk_low W (i + c) = Inr True))"
proof (induction E W i dks st rule: delete_batches.induct)
  case (1 E W i dks st)
  show ?case
  proof (cases "dks \<noteq> [] \<and> disk_low W i = Inr True")
    case False
    then have "delete_batches E W i dks st = st" by (subst delete_batches.simps) (auto split: sum.splits)
    then show ?thesis using 1(2) by simp
  next
    case low: True
    define n where "n = (if length dks < del_batchSize then length dks else del_batchSize)"
    have n: "take n dks = take del_batchSize dks" "drop n dks = drop del_batchSize dks" by (simp_all add: n_def)
    let ?ks = "map dk_Key (take n dks)" and ?D = "\<lambda>st. delete_batches E W (Suc i) (drop n dks) st"
    obtain err st1 where b: "batchDeleteRecords (dberr E ''BatchDeleteRecords'') ?ks st = (err, st1)" by fastforce
    have d: "delete_batches E W i dks st = (if err \<noteq> None then st1 else ?D st1)"
      using low b by (subst delete_batches.simps) (simp add: n_def Let_def)
    have st1: "map_of (data_tbl st1) k = map_of (data_tbl st) k \<or> map_of (data_tbl st1) k = None \<and> k \<in> set ?ks"
      using b by (auto simp: batchDeleteRecords_def map_of_filter_keys split: if_splits option.splits)
    show ?thesis
    proof (cases "err = None \<and> map_of (data_tbl (?D st1)) k \<noteq> map_of (data_tbl st1) k")
      case True
      then obtain c where c: "map_of (data_tbl (?D st1)) k = None"
          "k \<in> dk_Key ` set (take del_batchSize (drop (c * del_batchSize) (drop n dks)))" "\<forall>j\<le>c. disk_low W (Suc i + j) = Inr True"
        using 1(1)[of True n "(err, st1)" err st1] low b by (auto simp: n_def)
      have "k \<in> dk_Key ` set (take del_batchSize (drop (Suc c * del_batchSize) dks))" using c(2) by (simp add: n add.commute)
      moreover have "disk_low W (i + j) = Inr True" if "j \<le> Suc c" for j using that c(3) low by (cases j) auto
      ultimately show ?thesis using d True c(1) by (intro conjI exI[of _ "Suc c"]) auto
    next
      case False
      then have "map_of (data_tbl (delete_batches E W i dks st)) k = map_of (data_tbl st1) k" using d by auto
      then show ?thesis using 1(2) st1 low by (intro conjI exI[of _ 0]) (auto simp: n)
    qed
  qed
qed

text \<open>C37. Deleting redundant data is safe: a value leaves the store only when the table of deletions counts its key as
  redundant at least ten times, its key is in some batch of a hundred keys of the list read from that table, and the disk
  was found low on space before this batch and before every batch before it; no row is changed in any other way.\<close>

theorem deleteRedundantData_safe:
  assumes "alist_wf (del_keys m)" and "map_of (data_tbl (deleteRedundantData E W m st)) k \<noteq> map_of (data_tbl st) k"
  shows "map_of (data_tbl (deleteRedundantData E W m st)) k = None \<and> redundant_count m k \<ge> delKeysCountThreshold
    \<and> (\<exists>dks b. GetAllToDelKeys (dberr E ''GetAllToDelKeys'') delKeysCountThreshold m = Inr dks
         \<and> k \<in> dk_Key ` set (take 100 (drop (b * 100) dks)) \<and> (\<forall>c\<le>b. disk_low W c = Inr True))"
proof -
  obtain dks where d: "GetAllToDelKeys (dberr E ''GetAllToDelKeys'') delKeysCountThreshold m = Inr dks"
    using assms(2) by (cases "GetAllToDelKeys (dberr E ''GetAllToDelKeys'') delKeysCountThreshold m") (auto simp: deleteRedundantData_def)
  then have eq: "deleteRedundantData E W m st = delete_batches E W 0 dks st" by (simp add: deleteRedundantData_def)
  from delete_batches_spec[OF assms(2)[unfolded eq]] obtain b where b: "map_of (data_tbl (delete_batches E W 0 dks st)) k = None"
      "k \<in> dk_Key ` set (take 100 (drop (b * 100) dks))" "\<forall>c\<le>b. disk_low W c = Inr True"
    by (auto simp: del_batchSize_def)
  have "k \<in> dk_Key ` set dks" using b(2) by (auto dest: in_set_takeD in_set_dropD)
  with d obtain row where "(k, row) \<in> set (del_keys m)" "del_count row \<ge> delKeysCountThreshold"
    by (auto simp: GetAllToDelKeys_def del_toDomain_def split: option.splits)
  then have "redundant_count m k \<ge> delKeysCountThreshold" using assms(1) by (simp add: redundant_count_def alist_wf_def)
  then show ?thesis using b d unfolding eq by blast
qed

definition wit_meta :: "int \<Rightarrow> meta_store" where
  "wit_meta n = \<lparr>disabled_keys = [(''00'', 0), (''01'', 6)], del_keys = [(''00'', \<lparr>del_count = n, del_nodes = [], del_createdAt = 0\<rparr>)], MetaJobQueue = []\<rparr>"

theorem deleteRedundantData_safe_witness:
  "map_of (data_tbl (deleteRedundantData wit_env wit_worker (wit_meta 10) (dht_store (wit_replica True)))) ''00'' = None
   \<and> redundant_count (wit_meta 10) ''00'' \<ge> 10 \<and> disk_low wit_worker 0 = Inr True"
proof -
  let ?st = "dht_store (wit_replica True)"
  have "GetAllToDelKeys (dberr wit_env ''GetAllToDelKeys'') delKeysCountThreshold (wit_meta 10) = Inr [\<lparr>dk_Key = ''00'', dk_CreatedAt = 0, dk_Nodes = [], dk_Count = 10\<rparr>]"
    by (simp add: GetAllToDelKeys_def wit_meta_def wit_env_def delKeysCountThreshold_def del_toDomain_def)
  then have "deleteRedundantData wit_env wit_worker (wit_meta 10) ?st = ?st\<lparr>data_tbl := []\<rparr>"
    by (simp add: deleteRedundantData_def delete_batches.simps wit_worker_def batchDeleteRecords_def wit_env_def wit_replica_def del_batchSize_def)
  then have "map_of (data_tbl (deleteRedundantData wit_env wit_worker (wit_meta 10) ?st)) ''00'' \<noteq> map_of (data_tbl ?st) ''00''"
    by (simp add: wit_replica_def)
  moreover have "alist_wf (del_keys (wit_meta 10))" by (simp add: alist_wf_def wit_meta_def)
  ultimately show ?thesis using deleteRedundantData_safe[of "wit_meta 10" wit_env wit_worker ?st "''00''"]
    by (auto simp: delKeysCountThreshold_def)
qed

lemma fold_alist_update_wf: "alist_wf m \<Longrightarrow> alist_wf (fold (\<lambda>(k, t). alist_update k (f k)) ks m)"
  by (induction ks arbitrary: m) (auto intro!: alist_wf_update)

lemma map_of_fold_update:
  "map_of (fold (\<lambda>(k, t). alist_update k (f k)) ks m) k = (if k \<in> fst ` set ks then Some (f k) else map_of m k)"
  by (induction ks arbitrary: m) (auto simp: map_of_alist_update)

lemma map_of_filter_alist: "alist_wf m \<Longrightarrow> map_of (filter (\<lambda>(k, v). P v) m) k = (case map_of m k of None \<Rightarrow> None | Some v \<Rightarrow> if P v then Some v else None)"
proof (induction m)
  case (Cons x m)
  then have "fst x \<notin> fst ` set m" "alist_wf m" by (auto simp: alist_wf_def)
  then have "map_of m (fst x) = None" by (simp add: map_of_eq_None_iff)
  then show ?case using Cons.IH[OF \<open>alist_wf m\<close>] by (cases x) (auto split: option.splits)
qed simp

lemma sum_list_single:
  "alist_wf m \<Longrightarrow> sum_list (map dk_Count (filter (\<lambda>dk. dk_Key dk = k) (map (\<lambda>(k, cs). \<lparr>dk_Key = k, dk_CreatedAt = t, dk_Nodes = [], dk_Count = 1\<rparr>) m)))
    = (if map_of m k = None then 0 else 1)"
proof (induction m)
  case (Cons x m)
  then have "fst x \<notin> fst ` set m" "alist_wf m" by (auto simp: alist_wf_def)
  then have "map_of m (fst x) = None" by (simp add: map_of_eq_None_iff)
  then show ?case using Cons.IH[OF \<open>alist_wf m\<close>] by (cases x) auto
qed simp

lemma classify_keys_spec:
  assumes "alist_wf m" and "classify_keys me t m = (ins, rem)"
  shows "sum_list (map dk_Count (filter (\<lambda>dk. dk_Key dk = k) ins)) = (case map_of m k of None \<Rightarrow> 0 | Some cs \<Rightarrow> if Alpha \<le> length cs \<and> me \<notin> set cs then 1 else 0)"
    and "k \<in> dk_Key ` set rem \<longleftrightarrow> (\<exists>cs. map_of m k = Some cs \<and> Alpha \<le> length cs \<and> me \<in> set cs)"
proof -
  let ?en = "filter (\<lambda>(k, cs). Alpha \<le> length cs) m"
  let ?dk = "\<lambda>(k, cs). \<lparr>dk_Key = k, dk_CreatedAt = t, dk_Nodes = [], dk_Count = 1\<rparr> :: del_key"
  have wf: "alist_wf ?en" using assms(1) by (simp add: alist_wf_def distinct_map_filter)
  have i: "ins = map ?dk (filter (\<lambda>(k, cs). me \<notin> set cs) ?en)" "rem = map ?dk (filter (\<lambda>(k, cs). me \<in> set cs) ?en)"
    using assms(2) by (simp_all add: classify_keys_def Let_def not_less)
  have "alist_wf (filter (\<lambda>(k, cs). me \<notin> set cs) ?en)" using wf unfolding alist_wf_def by (rule distinct_map_filter)
  from sum_list_single[OF this] show "sum_list (map dk_Count (filter (\<lambda>dk. dk_Key dk = k) ins)) = (case map_of m k of None \<Rightarrow> 0 | Some cs \<Rightarrow> if Alpha \<le> length cs \<and> me \<notin> set cs then 1 else 0)"
    unfolding i map_of_filter_alist[OF wf, where P = "\<lambda>cs. me \<notin> set cs"] map_of_filter_alist[OF assms(1), where P = "\<lambda>cs. Alpha \<le> length cs"]
    by (simp split: option.splits)
  have "k \<in> dk_Key ` set rem \<longleftrightarrow> (\<exists>cs. (k, cs) \<in> set m \<and> Alpha \<le> length cs \<and> me \<in> set cs)"
    unfolding i by (force simp: image_iff)
  then show "k \<in> dk_Key ` set rem \<longleftrightarrow> (\<exists>cs. map_of m k = Some cs \<and> Alpha \<le> length cs \<and> me \<in> set cs)"
    using assms(1) by (simp add: alist_wf_def)
qed

lemma redundant_of_mset: "mset m = mset m' \<Longrightarrow> alist_wf m \<Longrightarrow> map_of m' = map_of m \<and> alist_wf m'"
proof
  assume m: "mset m = mset m'" and wf: "alist_wf m"
  show wf': "alist_wf m'"
    using wf mset_eq_imp_distinct_iff[OF arg_cong[OF m, of "image_mset fst", folded mset_map]] by (simp add: alist_wf_def)
  then show "map_of m' = map_of m"
    using wf mset_eq_setD[OF m] by (intro map_of_inject_set[THEN iffD2]) (simp_all add: alist_wf_def)
qed

text \<open>What is counted: a run of the cleanup worker looks at the keys of the last five years.  For a key with
  enough contacts it adds one to the count when the node itself is not among the closest contacts, and forgets
  the count when it is; all other counts stay.  The list of contacts is twice as long as the number of
  contacts, so three contacts are enough although the code asks for Alpha.\<close>

theorem cleanupRedundantData_counts:
  assumes "\<And>x. dberr E x = None" and "\<And>m. mset (del_order W m) = mset m" and "self_node E s = (me, s1)"
    and "cleanupRedundantDataWorker E W y m s = (m', s')"
  defines "cs \<equiv> \<lambda>k. closest_ids (ToNodeList (ignorelist s)) me (ht s) k"
    and "seen \<equiv> \<lambda>k. \<exists>r. (k, r) \<in> set (data_tbl (dht_store s)) \<and> now E - y < row_createdAt r \<and> row_createdAt r < now E"
  shows "redundant_count m' k = (if seen k \<and> length (cs k) \<ge> Alpha then (if ID me \<in> set (cs k) then 0 else redundant_count m k + 1)
      else redundant_count m k)
    \<and> length (cs k) = 2 * nl_Len (closestContactsWithInlcudingNode Alpha (hex_prefix k) (ToNodeList (ignorelist s)) (Some me) (ht s))"
proof
  show "length (cs k) = 2 * nl_Len (closestContactsWithInlcudingNode Alpha (hex_prefix k) (ToNodeList (ignorelist s)) (Some me) (ht s))"
    by (simp add: cs_def closest_ids_def NodeIDs_def nl_Len_def)
  let ?rk = "GetKeysForReplication None (now E - y) (now E) (dht_store s)"
  let ?cm = "fold (\<lambda>(k, t). alist_update k (cs k)) ?rk []"
  obtain ins rem where c: "classify_keys (ID me) (now E) (del_order W ?cm) = (ins, rem)" by fastforce
  have ht: "ht s1 = ht s" using self_node_frame[OF assms(3)] by simp
  have m': "m' = snd (BatchDeleteDelKeys None rem (snd (BatchInsertDelKeys None ins m)))"
    using assms(4) c unfolding cleanupRedundantDataWorker_def assms(1,3) cs_def Let_def
    by (simp add: ht BatchInsertDelKeys_def BatchDeleteDelKeys_def split: if_splits)
  have wf: "alist_wf ?cm" by (rule fold_alist_update_wf) (simp add: alist_wf_def)
  have seen: "k \<in> fst ` set ?rk \<longleftrightarrow> seen k" by (force simp: set_GetKeysForReplication seen_def)
  have cm: "map_of (del_order W ?cm) k = (if seen k then Some (cs k) else None)" "alist_wf (del_order W ?cm)"
    using redundant_of_mset[OF assms(2)[of ?cm, symmetric] wf] by (simp_all add: map_of_fold_update seen)
  note cl = classify_keys_spec[OF cm(2) c, of k, unfolded cm(1)]
  show "redundant_count m' k = (if seen k \<and> length (cs k) \<ge> Alpha then (if ID me \<in> set (cs k) then 0 else redundant_count m k + 1) else redundant_count m k)"
    unfolding m' redundant_count_deletes redundant_count_inserts using cl by simp
qed

theorem cleanupRedundantData_counts_witness:
  "redundant_count (fst (cleanupRedundantDataWorker wit_env wit_worker 100 (wit_meta 4) (wit_replica True))) ''00'' = 4"
proof -
  let ?s = "wit_replica True"
  let ?me = "\<lparr>ID = [9], IP = ''host'', Port = 4445, HashedID = replicate 31 0 @ [9]\<rparr> :: node"
  obtain m' s' where run: "cleanupRedundantDataWorker wit_env wit_worker 100 (wit_meta 4) ?s = (m', s')" by fastforce
  have "nl_Len (closestContactsWithInlcudingNode Alpha (hex_prefix ''00'') (ToNodeList (ignorelist ?s)) (Some ?me) (ht ?s)) = 2"
    by (simp add: closestContactsWithInlcudingNode_def wit_replica_def wit_dht_def nl_exists_def wit_peer_def ToNodeList_def
        nl_Len_def TopN_def nl_Sort_def Alpha_def)
  moreover have "redundant_count (wit_meta 4) ''00'' = 4" by (simp add: redundant_count_def wit_meta_def)
  ultimately show ?thesis
    using cleanupRedundantData_counts[OF _ _ wit_self run, of "''00''"] run by (simp add: wit_env_def wit_worker_def Alpha_def)
qed

section \<open>Cleanup of disabled keys\<close>

lemma keys_minus_filter:
  assumes "alist_wf t"
  shows "fst ` set t - fst ` set (filter (\<lambda>(k, v). P v) t) = {k. \<exists>v. (k, v) \<in> set t \<and> \<not> P v}"
proof -
  have "v = v'" if "(k, v) \<in> set t" "(k, v') \<in> set t" for k v v'
    using that assms by (metis alist_wf_def eq_key_imp_eq_value)
  then show ?thesis by (auto simp: image_iff) (metis fst_conv, blast)
qed

lemma fold_meta_Delete:
  assumes "\<forall>(k, t)\<in>set ks. hex_decode k \<noteq> None"
  shows "fold (\<lambda>(k, t) m. case hex_decode k of None \<Rightarrow> m | Some d \<Rightarrow> meta_Delete d m) ks m
    = m\<lparr>MetaJobQueue := MetaJobQueue m @ map (\<lambda>(k, t). MetaDelete (the (hex_decode k))) ks\<rparr>"
  using assms by (induction ks arbitrary: m) (auto simp: meta_Delete_def)

lemma fold_replay_deletes:
  "fold replay_meta (map (\<lambda>(k, t). MetaDelete (d k)) ks) D = D - (\<lambda>(k, t). hex_encode (d k)) ` set ks"
  by (induction ks arbitrary: D) auto

text \<open>The cleanup of disabled keys does the opposite of what its name says: after the worker has done the jobs
  the cleanup queued, exactly the keys that were disabled in the last thirty minutes are enabled again, and the
  keys whose time has expired stay disabled for ever.\<close>

theorem cleanupDisabledKeys_keeps_expired:
  assumes "dberr E ''GetDisabledKeys'' = None" and "MetaJobQueue m = []" and "alist_wf (disabled_keys m)"
    and "\<forall>(k, t)\<in>set (disabled_keys m). \<exists>d. k = hex_encode d"
  shows "\<exists>m1 m2. cleanupDisabledKeys E (Some m) = (None, Some m1)
    \<and> meta_run_jobs (map (\<lambda>j. (None, now E)) (MetaJobQueue m1)) m1 = Some m2
    \<and> disabled m2 = {k. \<exists>t. (k, t) \<in> set (disabled_keys m) \<and> t \<le> now E - minutes 30}"
proof -
  let ?ks = "filter (\<lambda>(k, t). t > now E - defaultDisabledKeyExpirationInterval) (disabled_keys m)"
  let ?jobs = "map (\<lambda>(k, t). MetaDelete (the (hex_decode k))) ?ks"
  let ?m1 = "m\<lparr>MetaJobQueue := ?jobs\<rparr>"
  have dec: "hex_decode k \<noteq> None" "hex_encode (the (hex_decode k)) = k" if "(k, t) \<in> set (disabled_keys m)" for k t
    using assms(4) that by force+
  have "fold (\<lambda>(k, t) m. case hex_decode k of None \<Rightarrow> m | Some d \<Rightarrow> meta_Delete d m) ?ks m = ?m1"
    using fold_meta_Delete[of ?ks m] dec assms(2) by fastforce
  then have c: "cleanupDisabledKeys E (Some m) = (None, Some ?m1)"
    using assms(1) by (simp add: cleanupDisabledKeys_def GetDisabledKeys_def)
  from meta_run_jobs_replay[of ?m1 ?jobs "[]" "map (\<lambda>_. now E) ?jobs"]
  obtain m2 where m2: "meta_run_jobs (map (\<lambda>j. (None, now E)) ?jobs) ?m1 = Some m2" "disabled m2 = fold replay_meta ?jobs (disabled ?m1)"
    by (auto simp: o_def)
  have "(\<lambda>(k, t). hex_encode (the (hex_decode k))) ` set ?ks = fst ` set ?ks"
    using dec(2) by (intro image_cong) (auto split: prod.splits)
  then have "disabled m2 = fst ` set (disabled_keys m) - fst ` set ?ks"
    unfolding m2(2) fold_replay_deletes by (simp add: disabled_def)
  also have "\<dots> = {k. \<exists>t. (k, t) \<in> set (disabled_keys m) \<and> t \<le> now E - minutes 30}"
    unfolding keys_minus_filter[OF assms(3)] by (auto simp: defaultDisabledKeyExpirationInterval_def)
  finally show ?thesis using c m2(1) by (intro exI[of _ ?m1] exI[of _ m2]) simp
qed

theorem cleanupDisabledKeys_keeps_expired_witness:
  "\<exists>m1 m2. cleanupDisabledKeys (wit_env\<lparr>now := minutes 31\<rparr>) (Some (wit_meta 0)) = (None, Some m1)
     \<and> meta_run_jobs (map (\<lambda>j. (None, minutes 31)) (MetaJobQueue m1)) m1 = Some m2 \<and> disabled m2 = {''00'', ''01''}"
proof -
  let ?E = "wit_env\<lparr>now := minutes 31\<rparr>"
  have h: "''00'' = hex_encode [0]" "''01'' = hex_encode [1]" by code_simp+
  have "\<forall>(k, t)\<in>set (disabled_keys (wit_meta 0)). \<exists>d. k = hex_encode d" using h by (auto simp: wit_meta_def)
  moreover have "{k. \<exists>t. (k, t) \<in> set (disabled_keys (wit_meta 0)) \<and> t \<le> now ?E - minutes 30} = {''00'', ''01''}"
    by (auto simp: wit_meta_def)
  ultimately show ?thesis using cleanupDisabledKeys_keeps_expired[of ?E "wit_meta 0"]
    by (simp add: wit_meta_def alist_wf_def wit_env_def)
qed

end
