(* ===== verification/Cloud_Store.thy ===== *)
theory Cloud_Store
  imports Sqlite_Store
begin

text \<open>
  The cloud storage behind the local store (\<^verbatim>\<open>p2p/kademlia/store/cloud.go/cloud.go\<close>).  Its
  operations run the external program \<^verbatim>\<open>rclone\<close>: its commands are arguments, \<open>rcat\<close> (write
  an object), \<open>cat\<close> (read it) and \<open>deletefile\<close>, on a remote state \<open>'r\<close>; each reports its
  standard error when it fails.  What the code relies on is \<open>rclone_ok\<close>: a successful write is what a
  later read returns, and a command touches no object but its own.  A batch runs one goroutine per key; the
  order in which they get to the remote is the argument \<open>order\<close>.
\<close>

record rclone_storage =
  bucketName :: string
  specName :: string

definition NewRcloneStorage :: "string \<Rightarrow> string \<Rightarrow> rclone_storage" where
  "NewRcloneStorage bucket spec = \<lparr>bucketName = bucket, specName = spec\<rparr>"

definition remotePath :: "rclone_storage \<Rightarrow> string \<Rightarrow> string" where
  "remotePath c key = specName c @ '':'' @ bucketName c @ ''/'' @ key"

definition rclone_failed :: "string \<Rightarrow> string" where
  "rclone_failed m = ''rclone command failed: '' @ m"

text \<open>The commands of \<^verbatim>\<open>rclone\<close>, by the path of the object.\<close>

type_synonym 'r rcat_cmd = "string \<Rightarrow> bytes \<Rightarrow> 'r \<Rightarrow> string option \<times> 'r"
type_synonym 'r cat_cmd = "string \<Rightarrow> 'r \<Rightarrow> bytes result"
type_synonym 'r deletefile_cmd = "string \<Rightarrow> 'r \<Rightarrow> string option \<times> 'r"

definition rclone_ok :: "'r rcat_cmd \<Rightarrow> 'r cat_cmd \<Rightarrow> bool" where
  "rclone_ok rcat cat \<longleftrightarrow> (\<forall>p d r.
     (fst (rcat p d r) = None \<longrightarrow> cat p (snd (rcat p d r)) = Inr d)
     \<and> (\<forall>q. q \<noteq> p \<longrightarrow> cat q (snd (rcat p d r)) = cat q r))"

section \<open>One object\<close>

definition cloud_Upload :: "'r rcat_cmd \<Rightarrow> rclone_storage \<Rightarrow> string \<Rightarrow> bytes \<Rightarrow> 'r \<Rightarrow> string result \<times> 'r" where
  "cloud_Upload rcat c key dat r =
     (case rcat (remotePath c key) dat r of
        (Some m, r') \<Rightarrow> (errorf (rclone_failed m), r')
      | (None, r') \<Rightarrow> (Inr (remotePath c key), r'))"

text \<open>\<^verbatim>\<open>Store\<close> writes a temporary file first (\<open>write_err\<close>) and copies it with \<^verbatim>\<open>rclone copyto\<close>,
  here \<open>copyto\<close> with the file's content.\<close>

definition cloud_Store ::
  "'r rcat_cmd \<Rightarrow> string option \<Rightarrow> rclone_storage \<Rightarrow> string \<Rightarrow> bytes \<Rightarrow> 'r \<Rightarrow> string result \<times> 'r" where
  "cloud_Store copyto write_err c key dat r =
     (case write_err of
        Some m \<Rightarrow> (errorf (''failed to write data to file: '' @ m), r)
      | None \<Rightarrow>
          (case copyto (remotePath c key) dat r of
             (Some m, r') \<Rightarrow> (errorf (rclone_failed m), r')
           | (None, r') \<Rightarrow> (Inr (remotePath c key), r')))"

definition cloud_Fetch :: "'r cat_cmd \<Rightarrow> rclone_storage \<Rightarrow> 'r \<Rightarrow> string \<Rightarrow> bytes result" where
  "cloud_Fetch cat c r key = (case cat (remotePath c key) r of Inl m \<Rightarrow> errorf (rclone_failed m) | Inr d \<Rightarrow> Inr d)"

definition cloud_Delete :: "'r deletefile_cmd \<Rightarrow> rclone_storage \<Rightarrow> string \<Rightarrow> 'r \<Rightarrow> string option \<times> 'r" where
  "cloud_Delete deletefile c key r =
     (case deletefile (remotePath c key) r of (Some m, r') \<Rightarrow> (Some (rclone_failed m), r') | (None, r') \<Rightarrow> (None, r'))"

definition CheckCloudConnection ::
  "'r rcat_cmd \<Rightarrow> 'r cat_cmd \<Rightarrow> 'r deletefile_cmd \<Rightarrow> string option \<Rightarrow> string \<Rightarrow> rclone_storage \<Rightarrow> 'r \<Rightarrow> string option \<times> 'r" where
  "CheckCloudConnection copyto cat deletefile write_err testKey c r = (
     let testData = bytes_of_str ''this is test data to verify cloud storage connectivity through r-clone'' in
     case cloud_Store copyto write_err c testKey testData r of
       (Inl m, r1) \<Rightarrow> (Some m, r1)
     | (Inr _, r1) \<Rightarrow>
         (case cloud_Fetch cat c r1 testKey of
            Inl m \<Rightarrow> (Some m, r1)
          | Inr _ \<Rightarrow> cloud_Delete deletefile c testKey r1))"

section \<open>Batches\<close>

definition upload_one ::
  "'r rcat_cmd \<Rightarrow> rclone_storage \<Rightarrow> string \<times> bytes \<Rightarrow> string list \<times> string option \<times> 'r \<Rightarrow> string list \<times> string option \<times> 'r" where
  "upload_one rcat c kd st = (case st of (ok, lastError, r) \<Rightarrow>
     (case cloud_Upload rcat c (fst kd) (snd kd) r of
        (Inl m, r') \<Rightarrow> (ok, Some m, r')
      | (Inr _, r') \<Rightarrow> (ok @ [fst kd], lastError, r')))"

text \<open>\<^verbatim>\<open>UploadBatch\<close> indexes \<^verbatim>\<open>keys\<close> by the positions of \<^verbatim>\<open>data\<close>: fewer keys than values is a
  panic.  Some failed upload makes the whole call an error; the keys that were uploaded come with it.\<close>

definition UploadBatch ::
  "((string \<times> bytes) list \<Rightarrow> (string \<times> bytes) list) \<Rightarrow> 'r rcat_cmd \<Rightarrow> rclone_storage \<Rightarrow> string list \<Rightarrow> bytes list \<Rightarrow> 'r \<Rightarrow>
   (string list \<times> string option \<times> 'r) option" where
  "UploadBatch order rcat c keys dat r =
     (if length keys < length dat then None
      else case fold (upload_one rcat c) (order (zip keys dat)) ([], None, r) of
        (ok, lastError, r') \<Rightarrow> Some (ok, map_option (\<lambda>m. ''failed to upload some files: '' @ m) lastError, r'))"

text \<open>\<^verbatim>\<open>FetchBatch\<close> has an error only when nothing was fetched.\<close>

definition fetch_errors :: "'r cat_cmd \<Rightarrow> rclone_storage \<Rightarrow> 'r \<Rightarrow> string list \<Rightarrow> (string \<times> string) list" where
  "fetch_errors cat c r keys = List.map_filter (\<lambda>k. case cloud_Fetch cat c r k of Inl m \<Rightarrow> Some (k, m) | Inr _ \<Rightarrow> None) (remdups keys)"

definition FetchBatch ::
  "((string \<times> string) list \<Rightarrow> (string \<times> string) list) \<Rightarrow> 'r cat_cmd \<Rightarrow> rclone_storage \<Rightarrow> 'r \<Rightarrow> string list \<Rightarrow> (string \<times> bytes) list result" where
  "FetchBatch order cat c r keys = (
     let results = List.map_filter (\<lambda>k. case cloud_Fetch cat c r k of Inl m \<Rightarrow> None | Inr d \<Rightarrow> Some (k, d)) (remdups keys);
         errs = fetch_errors cat c r keys
     in if results \<noteq> [] then Inr results
        else if errs \<noteq> [] then
          errorf (fold (\<lambda>(k, e) acc. acc @ ''; key '' @ k @ '' error: '' @ e) (order errs) ''errors occurred in fetching keys'')
        else Inr results)"

definition delete_one ::
  "'r deletefile_cmd \<Rightarrow> rclone_storage \<Rightarrow> string \<Rightarrow> string option \<times> 'r \<Rightarrow> string option \<times> 'r" where
  "delete_one deletefile c key st = (case st of (lastError, r) \<Rightarrow>
     (case deletefile (remotePath c key) r of
        (Some m, r') \<Rightarrow>
          (Some ((case lastError of None \<Rightarrow> ''failed to delete some files'' | Some e \<Rightarrow> e) @ ''; key '' @ key @ '' error: '' @ m), r')
      | (None, r') \<Rightarrow> (lastError, r')))"

definition DeleteBatch ::
  "(string list \<Rightarrow> string list) \<Rightarrow> 'r deletefile_cmd \<Rightarrow> rclone_storage \<Rightarrow> string list \<Rightarrow> 'r \<Rightarrow> string option \<times> 'r" where
  "DeleteBatch order deletefile c keys r = fold (delete_one deletefile c) (order keys) (None, r)"

section \<open>Lemmas\<close>

lemma remotePath_inj [simp]: "remotePath c k = remotePath c k' \<longleftrightarrow> k = k'"
  by (simp add: remotePath_def)

lemma Fetch_cong: "cat (remotePath c k) r = cat (remotePath c k) r' \<Longrightarrow> cloud_Fetch cat c r k = cloud_Fetch cat c r' k"
  by (simp add: cloud_Fetch_def)

lemma Fetch_Inr: "cloud_Fetch cat c r k = Inr d \<longleftrightarrow> cat (remotePath c k) r = Inr d"
  by (auto simp: cloud_Fetch_def split: sum.splits)

text \<open>A run of uploads: what is reported as uploaded can be fetched, what is not in the run is as before.\<close>

lemma upload_one_Fetch:
  assumes "rclone_ok rcat cat" and "upload_one rcat c (k, d) (ok, le, r) = (ok', le', r')"
  shows "k' \<noteq> k \<Longrightarrow> cloud_Fetch cat c r' k' = cloud_Fetch cat c r k'"
    and "set ok' \<subseteq> insert k (set ok)" and "set ok \<subseteq> set ok'"
    and "k \<in> set ok' \<Longrightarrow> k \<notin> set ok \<Longrightarrow> cloud_Fetch cat c r' k = Inr d"
    and "k \<notin> set ok' \<Longrightarrow> le' \<noteq> None" and "le \<noteq> None \<Longrightarrow> le' \<noteq> None"
  using assms(2) assms(1)[unfolded rclone_ok_def, rule_format, of "remotePath c k" d r]
  by (auto simp: upload_one_def cloud_Upload_def Fetch_Inr intro!: Fetch_cong split: prod.splits option.splits)

lemma upload_fold:
  assumes "rclone_ok rcat cat" and "distinct (map fst kds)" and "set ok \<inter> fst ` set kds = {}"
    and "fold (upload_one rcat c) kds (ok, le, r) = (ok', le', r')"
  shows "(\<forall>k. k \<notin> fst ` set kds \<longrightarrow> cloud_Fetch cat c r' k = cloud_Fetch cat c r k)
    \<and> set ok \<subseteq> set ok' \<and> set ok' \<subseteq> set ok \<union> fst ` set kds
    \<and> (\<forall>(k, d) \<in> set kds. k \<in> set ok' \<longrightarrow> cloud_Fetch cat c r' k = Inr d)
    \<and> (le' = None \<longrightarrow> fst ` set kds \<subseteq> set ok' \<and> le = None)"
  using assms(2-)
proof (induction kds arbitrary: ok le r)
  case (Cons kd kds)
  obtain k d where kd: "kd = (k, d)" by fastforce
  obtain ok1 le1 r1 where s: "upload_one rcat c (k, d) (ok, le, r) = (ok1, le1, r1)" by (metis prod_cases3)
  note u = upload_one_Fetch[OF assms(1) s]
  have "set ok1 \<inter> fst ` set kds = {}" using u(2) Cons.prems(1,2) kd by auto
  then have IH: "\<forall>k. k \<notin> fst ` set kds \<longrightarrow> cloud_Fetch cat c r' k = cloud_Fetch cat c r1 k"
      "set ok1 \<subseteq> set ok'" "set ok' \<subseteq> set ok1 \<union> fst ` set kds"
      "\<forall>(k, d) \<in> set kds. k \<in> set ok' \<longrightarrow> cloud_Fetch cat c r' k = Inr d"
      "le' = None \<longrightarrow> fst ` set kds \<subseteq> set ok' \<and> le1 = None"
    using Cons.IH[of ok1 le1 r1] Cons.prems kd s by auto
  have k: "k \<notin> fst ` set kds" using Cons.prems(1) kd by auto
  have knew: "k \<notin> set ok" using Cons.prems(2) kd by auto
  have "cloud_Fetch cat c r' k = Inr d" if "k \<in> set ok'"
    using IH(1,3) k u(4)[OF _ knew] that by auto
  moreover have "le' = None \<longrightarrow> k \<in> set ok' \<and> le = None" using IH(2,5) u(5,6) by blast
  ultimately show ?case using IH u(1,2,3) kd by (intro conjI) (auto; fail)+
qed simp

lemma upload_fold_ok:
  assumes "fold (upload_one rcat c) kds (ok, le, r) = (ok', le', r')"
  shows "set ok' \<subseteq> set ok \<union> fst ` set kds"
  using assms by (induction kds arbitrary: ok le r) (force simp: upload_one_def split: prod.splits sum.splits)+

end
