(* ===== verification/Migration_Store.thy ===== *)
theory Migration_Store
  imports Cloud_Store
begin

text \<open>
  The meta store of the migration to the cloud (\<^verbatim>\<open>p2p/kademlia/store/sqlite/meta_worker.go\<close>): when and how
  often each key of the local store was used, the migrations and their keys, the workers that write them, and
  the run that uploads values to the cloud and clears them locally.  The local store is \<open>Sqlite_Store\<close>, the
  cloud is \<open>Cloud_Store\<close>.  As there, a table is an association list and an operation gets the outcome of
  its database calls as an argument: \<open>e\<close> for one call or one transaction, a predicate \<open>bad\<close> for the rows
  whose statement fails inside a transaction (logged and skipped), a record \<open>mig_env\<close> for a whole run.
  The column \<^verbatim>\<open>score\<close> and the columns \<^verbatim>\<open>updated_at\<close> are never read and are left out.
\<close>

section \<open>State\<close>

record meta_row =
  last_accessed :: timestamp
  access_count :: int
  data_size :: int

record mm_row =
  is_migrated :: "bool option"
  mm_created_at :: timestamp

record migration_row =
  migration_started_at :: "timestamp option"
  migration_finished_at :: "timestamp option"

record update_message =
  um_Key :: string
  LastAccessTime :: timestamp
  um_Size :: int

record migration_store =
  meta_tbl :: "(string \<times> meta_row) list"
  meta_migration :: "((string \<times> nat) \<times> mm_row) list"
  migration_tbl :: "(nat \<times> migration_row) list"
  migration_seq :: nat
  updates :: "(string \<times> timestamp) list"
  inserts :: "(string \<times> update_message) list"

record migration =
  mig_ID :: nat
  MigrationStartedAt :: "timestamp option"

record migration_key =
  mk_Key :: string
  IsMigrated :: bool

definition metaSyncBatchSize :: nat where "metaSyncBatchSize = 5000"
definition minKeysToMigrate :: nat where "minKeysToMigrate = 100"

section \<open>Filling the table from the local store\<close>

definition isMetaSyncRequired :: "string option \<Rightarrow> migration_store \<Rightarrow> bool" where
  "isMetaSyncRequired e s = (case e of Some m \<Rightarrow> False | None \<Rightarrow> meta_tbl s = [])"

definition sync_row :: "string \<times> data_row \<Rightarrow> (string \<times> meta_row) list \<Rightarrow> (string \<times> meta_row) list" where
  "sync_row p tbl = (case p of (k, r) \<Rightarrow>
     (case map_of tbl k of
        None \<Rightarrow> alist_update k \<lparr>last_accessed = row_updatedAt r, access_count = 1, data_size = int (length (row_data r))\<rparr> tbl
      | Some m \<Rightarrow> alist_update k \<lparr>last_accessed = row_updatedAt r, access_count = access_count m + 1,
                    data_size = int (length (row_data r))\<rparr> tbl))"

text \<open>One turn of the loop: the query of the local store fails (the loop is left), the transaction cannot be
  started or its statement not prepared (the turn is repeated), or the rows are written, but for the bad
  ones, and the transaction is committed or its commit fails.\<close>

datatype sync_outcome = QueryFails | NoTransaction | Rows "string \<Rightarrow> bool" bool

fun sync_loop ::
  "nat \<Rightarrow> (nat \<Rightarrow> sync_outcome) \<Rightarrow> (string \<times> data_row) list \<Rightarrow> nat \<Rightarrow> nat \<Rightarrow> (string \<times> meta_row) list \<Rightarrow> (string \<times> meta_row) list option" where
  "sync_loop 0 out dat turn offset tbl = None"
| "sync_loop (Suc fuel) out dat turn offset tbl =
     (case out turn of
        QueryFails \<Rightarrow> Some tbl
      | NoTransaction \<Rightarrow> sync_loop fuel out dat (Suc turn) offset tbl
      | Rows bad commits \<Rightarrow>
          let rows = filter (\<lambda>(k, r). \<not> bad k) (take metaSyncBatchSize (drop offset dat));
              tbl' = (if rows \<noteq> [] \<and> commits then fold sync_row rows tbl else tbl)
          in if rows = [] then Some tbl'
             else sync_loop fuel out dat (Suc turn) (offset + metaSyncBatchSize) tbl')"

definition syncMetaWithData ::
  "nat \<Rightarrow> (nat \<Rightarrow> sync_outcome) \<Rightarrow> sqlite_store \<Rightarrow> migration_store \<Rightarrow> migration_store option" where
  "syncMetaWithData fuel out st s = map_option (\<lambda>t. s\<lparr>meta_tbl := t\<rparr>) (sync_loop fuel out (data_tbl st) 0 0 (meta_tbl s))"

section \<open>The workers\<close>

definition access_row :: "string \<times> timestamp \<Rightarrow> (string \<times> meta_row) list \<Rightarrow> (string \<times> meta_row) list" where
  "access_row p tbl = (case p of (k, t) \<Rightarrow>
     (case map_of tbl k of
        None \<Rightarrow> alist_update k \<lparr>last_accessed = t, access_count = 1, data_size = 0\<rparr> tbl
      | Some m \<Rightarrow> alist_update k (m\<lparr>last_accessed := t, access_count := access_count m + 1\<rparr>) tbl))"

definition commitLastAccessedUpdates :: "string option \<Rightarrow> (string \<Rightarrow> bool) \<Rightarrow> migration_store \<Rightarrow> migration_store" where
  "commitLastAccessedUpdates e bad s = (
     let keysToUpdate = updates s in
     if length keysToUpdate = 0 then s
     else case e of
       Some m \<Rightarrow> s
     | None \<Rightarrow> s\<lparr>meta_tbl := fold access_row (filter (\<lambda>(k, t). \<not> bad k) keysToUpdate) (meta_tbl s),
                 updates := fold (\<lambda>(k, t). alist_delete k) keysToUpdate (updates s)\<rparr>)"

definition insert_row :: "string \<times> update_message \<Rightarrow> (string \<times> meta_row) list \<Rightarrow> (string \<times> meta_row) list" where
  "insert_row p tbl = (case p of (k, u) \<Rightarrow>
     alist_update k \<lparr>last_accessed = LastAccessTime u, access_count = 1, data_size = um_Size u\<rparr> tbl)"

definition commitInserts :: "string option \<Rightarrow> (string \<Rightarrow> bool) \<Rightarrow> migration_store \<Rightarrow> migration_store" where
  "commitInserts e bad s = (
     let keysToUpdate = inserts s in
     if length keysToUpdate = 0 then s
     else case e of
       Some m \<Rightarrow> s
     | None \<Rightarrow> s\<lparr>meta_tbl := fold insert_row (filter (\<lambda>(k, u). \<not> bad k) keysToUpdate) (meta_tbl s),
                 inserts := fold (\<lambda>(k, u). alist_delete k) keysToUpdate (inserts s)\<rparr>)"

text \<open>What the two workers select on: a message of their channel, their ticker, or the end of the context.
  The insert worker commits once more at the end.\<close>

datatype access_event = AccessMsg string timestamp | AccessTick "string option" "string \<Rightarrow> bool"

fun startLastAccessedUpdateWorker :: "access_event list \<Rightarrow> migration_store \<Rightarrow> migration_store" where
  "startLastAccessedUpdateWorker [] s = s"
| "startLastAccessedUpdateWorker (AccessMsg k t # evs) s =
     startLastAccessedUpdateWorker evs (s\<lparr>updates := alist_update k t (updates s)\<rparr>)"
| "startLastAccessedUpdateWorker (AccessTick e bad # evs) s =
     startLastAccessedUpdateWorker evs (commitLastAccessedUpdates e bad s)"

datatype insert_event = InsertMsg update_message | InsertTick "string option" "string \<Rightarrow> bool"

fun startInsertWorker :: "string option \<Rightarrow> (string \<Rightarrow> bool) \<Rightarrow> insert_event list \<Rightarrow> migration_store \<Rightarrow> migration_store" where
  "startInsertWorker e_end bad_end [] s = commitInserts e_end bad_end s"
| "startInsertWorker e_end bad_end (InsertMsg u # evs) s =
     startInsertWorker e_end bad_end evs (s\<lparr>inserts := alist_update (um_Key u) u (inserts s)\<rparr>)"
| "startInsertWorker e_end bad_end (InsertTick e bad # evs) s =
     startInsertWorker e_end bad_end evs (commitInserts e bad s)"

section \<open>Choosing what to migrate\<close>

text \<open>The condition of the subquery as it is written, \<^verbatim>\<open>started > t AND is_migrated = true OR created > t\<close>; a
  comparison with NULL is not true.\<close>

definition recent_migration :: "timestamp \<Rightarrow> migration_store \<Rightarrow> string \<Rightarrow> bool" where
  "recent_migration t s key = list_ex (\<lambda>((k, i), r). k = key \<and>
     (case map_of (migration_tbl s) i of
        None \<Rightarrow> False
      | Some m \<Rightarrow> (case migration_started_at m of None \<Rightarrow> False | Some st \<Rightarrow> st > t) \<and> is_migrated r = Some True
                  \<or> mm_created_at r > t)) (meta_migration s)"

definition stale_keys :: "timestamp \<Rightarrow> migration_store \<Rightarrow> string list" where
  "stale_keys t s = map fst (filter (\<lambda>(k, m). last_accessed m < t \<and> \<not> recent_migration t s k) (meta_tbl s))"

definition GetCountOfStaleData :: "string option \<Rightarrow> timestamp \<Rightarrow> migration_store \<Rightarrow> nat result" where
  "GetCountOfStaleData e t s =
     (case e of Some m \<Rightarrow> errorf (''failed to get count of stale data: '' @ m) | None \<Rightarrow> Inr (length (stale_keys t s)))"

definition GetStaleDataInBatches :: "string option \<Rightarrow> nat \<Rightarrow> nat \<Rightarrow> timestamp \<Rightarrow> migration_store \<Rightarrow> string list result" where
  "GetStaleDataInBatches e batchSize batchNumber t s =
     (case e of Some m \<Rightarrow> errorf (''failed to get stale data in batches: '' @ m)
      | None \<Rightarrow> Inr (take batchSize (drop (batchNumber * batchSize) (stale_keys t s))))"

definition GetPendingMigrationID :: "string option \<Rightarrow> migration_store \<Rightarrow> nat result" where
  "GetPendingMigrationID e s =
     (case e of Some m \<Rightarrow> errorf (''failed to get pending migration ID: '' @ m)
      | None \<Rightarrow> (case filter (\<lambda>(i, m). migration_started_at m = None) (migration_tbl s) of [] \<Rightarrow> Inr 0 | (i, m) # _ \<Rightarrow> Inr i))"

definition CreateNewMigration :: "string option \<Rightarrow> migration_store \<Rightarrow> nat result \<times> migration_store" where
  "CreateNewMigration e s =
     (case e of
        Some m \<Rightarrow> (errorf (''failed to create new migration: '' @ m), s)
      | None \<Rightarrow>
          let i = Suc (migration_seq s) in
          (Inr i, s\<lparr>migration_tbl := migration_tbl s @ [(i, \<lparr>migration_started_at = None, migration_finished_at = None\<rparr>)],
                    migration_seq := i\<rparr>))"

text \<open>\<^verbatim>\<open>INSERT INTO meta_migration (key, migration_id, ...)\<close> leaves \<^verbatim>\<open>is_migrated\<close> NULL, and fails on a key the
  migration already has; then the transaction is rolled back.\<close>

fun insert_mm :: "timestamp \<Rightarrow> nat \<Rightarrow> string list \<Rightarrow> ((string \<times> nat) \<times> mm_row) list \<Rightarrow> ((string \<times> nat) \<times> mm_row) list option" where
  "insert_mm now i [] tbl = Some tbl"
| "insert_mm now i (k # ks) tbl =
     (if map_of tbl (k, i) \<noteq> None then None
      else insert_mm now i ks (tbl @ [((k, i), \<lparr>is_migrated = None, mm_created_at = now\<rparr>)]))"

definition InsertMetaMigrationData ::
  "string option \<Rightarrow> timestamp \<Rightarrow> nat \<Rightarrow> string list \<Rightarrow> migration_store \<Rightarrow> string option \<times> migration_store" where
  "InsertMetaMigrationData e now i keys s =
     (case e of
        Some m \<Rightarrow> (Some m, s)
      | None \<Rightarrow>
          (case insert_mm now i keys (meta_migration s) of
             None \<Rightarrow> (Some ''failed to insert meta migration data: UNIQUE constraint failed'', s)
           | Some tbl \<Rightarrow> (None, s\<lparr>meta_migration := tbl\<rparr>)))"

section \<open>Running a migration\<close>

record mig_env =
  me_pending :: "string option"
  me_keys :: "nat \<Rightarrow> string option"
  me_start :: "nat \<Rightarrow> string option"
  me_left :: "nat \<Rightarrow> string option"
  me_finish :: "nat \<Rightarrow> string option"
  me_retrieve :: "string list \<Rightarrow> string option"
  me_clear :: "string list \<Rightarrow> string option"
  me_mark :: "string list \<Rightarrow> string option"
  me_now :: timestamp

definition retrieveBatchValuesToMigrate ::
  "string option \<Rightarrow> string list \<Rightarrow> sqlite_store \<Rightarrow> (bytes list \<times> string list) result" where
  "retrieveBatchValuesToMigrate e keys st =
     (if length keys = 0 then Inr ([], [])
      else case e of
        Some m \<Rightarrow> errorf (''failed to retrieve records: '' @ m)
      | None \<Rightarrow>
          let rows = filter (\<lambda>(k, r). k \<in> set keys \<and> \<not> is_on_cloud r) (data_tbl st);
              found = filter (\<lambda>(k, r). length (row_data r) > 1 \<and> \<not> is_on_cloud r) rows
          in Inr (map (row_data \<circ> snd) found, map fst found))"

definition batchSetMigrated :: "string option \<Rightarrow> string list \<Rightarrow> migration_store \<Rightarrow> string option \<times> migration_store" where
  "batchSetMigrated e keys s =
     (if keys = [] then (None, s)
      else case e of
        Some m \<Rightarrow> (Some (''cannot batch update records (is_migrated): '' @ m), s)
      | None \<Rightarrow>
          if list_all (\<lambda>((k, i), r). k \<notin> set keys) (meta_migration s)
          then (Some ''no rows affected for batch update (is_migrated)'', s)
          else (None, s\<lparr>meta_migration := update_row (\<lambda>(k, i). k \<in> set keys) (\<lambda>r. r\<lparr>is_migrated := Some True\<rparr>) (meta_migration s)\<rparr>))"

text \<open>The state of a run: the migration tables, the local store and the remote.\<close>

type_synonym 'r run_state = "migration_store \<times> sqlite_store \<times> 'r"

type_synonym 'r uploader = "string list \<Rightarrow> bytes list \<Rightarrow> 'r \<Rightarrow> (string list \<times> string option \<times> 'r) option"

definition upload_batch ::
  "'r uploader \<Rightarrow> mig_env \<Rightarrow> (string \<times> bytes) list \<Rightarrow> string option \<times> 'r run_state \<Rightarrow> (string option \<times> 'r run_state) option" where
  "upload_batch up env batch w = (case w of (lastError, s, st, r) \<Rightarrow>
     (case up (map fst batch) (map snd batch) r of
        None \<Rightarrow> None
      | Some (uploadedKeys, Some m, r') \<Rightarrow> Some (Some m, s, st, r')
      | Some (uploadedKeys, None, r') \<Rightarrow>
          (case batchSetMigratedRecords (me_clear env uploadedKeys) uploadedKeys st of
             (Some m, st') \<Rightarrow> Some (Some m, s, st', r')
           | (None, st') \<Rightarrow>
               (case batchSetMigrated (me_mark env uploadedKeys) uploadedKeys s of
                  (Some m, s') \<Rightarrow> Some (Some m, s', st', r')
                | (None, s') \<Rightarrow> Some (lastError, s', st', r')))))"

fun upload_loop ::
  "'r uploader \<Rightarrow> mig_env \<Rightarrow> (string \<times> bytes) list list \<Rightarrow> string option \<times> 'r run_state \<Rightarrow> (string option \<times> 'r run_state) option" where
  "upload_loop up env [] w = Some w"
| "upload_loop up env (b # bs) w = Option.bind (upload_batch up env b w) (upload_loop up env bs)"

definition uploadInBatches ::
  "'r uploader \<Rightarrow> mig_env \<Rightarrow> string list \<Rightarrow> bytes list \<Rightarrow> 'r run_state \<Rightarrow> (string option \<times> 'r run_state) option" where
  "uploadInBatches up env keys vals w = upload_loop up env (chunks 1000 (zip keys vals)) (None, w)"

definition processSingleBatch ::
  "'r uploader \<Rightarrow> mig_env \<Rightarrow> string list \<Rightarrow> 'r run_state \<Rightarrow> (string option \<times> 'r run_state) option" where
  "processSingleBatch up env keys w =
     (case retrieveBatchValuesToMigrate (me_retrieve env keys) keys (fst (snd w)) of
        Inl m \<Rightarrow> Some (Some (''failed to retrieve batch values: '' @ m), w)
      | Inr (vals, nkeys) \<Rightarrow>
          map_option (\<lambda>(err, w'). (map_option (\<lambda>m. ''failed to upload batch values: '' @ m) err, w')) (uploadInBatches up env nkeys vals w))"

definition set_migration :: "nat \<Rightarrow> (migration_row \<Rightarrow> migration_row) \<Rightarrow> migration_store \<Rightarrow> migration_store" where
  "set_migration i f s = s\<lparr>migration_tbl := update_row (\<lambda>j. j = i) f (migration_tbl s)\<rparr>"

fun batches_loop ::
  "'r uploader \<Rightarrow> mig_env \<Rightarrow> string list list \<Rightarrow> 'r run_state \<Rightarrow> (string option \<times> 'r run_state) option" where
  "batches_loop up env [] w = Some (None, w)"
| "batches_loop up env (b # bs) w =
     (case processSingleBatch up env b w of
        None \<Rightarrow> None
      | Some (Some m, w') \<Rightarrow> Some (Some (''failed to process batch: '' @ m @ '' - exiting now''), w')
      | Some (None, w') \<Rightarrow> batches_loop up env bs w')"

text \<open>The statement \<^verbatim>\<open>SELECT key\<close> fills no \<^verbatim>\<open>IsMigrated\<close>.  The start is marked before the first batch.\<close>

definition migration_keys :: "nat \<Rightarrow> migration_store \<Rightarrow> migration_key list" where
  "migration_keys i s = map (\<lambda>((k, j), r). \<lparr>mk_Key = k, IsMigrated = False\<rparr>) (filter (\<lambda>((k, j), r). j = i) (meta_migration s))"

definition left_keys :: "nat \<Rightarrow> migration_store \<Rightarrow> string list" where
  "left_keys i s = map (fst \<circ> fst) (filter (\<lambda>((k, j), r). j = i \<and> is_migrated r = Some False) (meta_migration s))"

definition ProcessMigrationInBatches ::
  "'r uploader \<Rightarrow> mig_env \<Rightarrow> migration \<Rightarrow> 'r run_state \<Rightarrow> (string option \<times> 'r run_state) option" where
  "ProcessMigrationInBatches up env mig w = (
     let i = mig_ID mig; migKeys = migration_keys i (fst w); totalKeys = length migKeys in
     case me_keys env i of
       Some m \<Rightarrow> Some (Some (''failed to fetch keys for migration '' @ itoa i @ '': '' @ m), w)
     | None \<Rightarrow>
         if totalKeys = 0 then Some (None, w)
         else if totalKeys < minKeysToMigrate then Some (None, w)
         else
           let keys = map mk_Key (filter (\<lambda>k. \<not> IsMigrated k) migKeys);
               starts = keys \<noteq> [] \<and> MigrationStartedAt mig = None in
           if starts \<and> me_start env i \<noteq> None then Some (me_start env i, w)
           else
             let w1 = (if starts then apfst (set_migration i (\<lambda>r. r\<lparr>migration_started_at := Some (me_now env)\<rparr>)) w else w) in
             case batches_loop up env (chunks 5000 keys) w1 of
               None \<Rightarrow> None
             | Some (Some m, w2) \<Rightarrow> Some (Some m, w2)
             | Some (None, w2) \<Rightarrow>
                 (case me_left env i of
                    Some m \<Rightarrow> Some (Some (''failed to fetch keys for migration '' @ itoa i @ '': '' @ m), w2)
                  | None \<Rightarrow>
                      if length (left_keys i (fst w2)) = 0
                      then (case me_finish env i of
                              Some m \<Rightarrow> Some (Some (''failed to mark migration '' @ itoa i @ '' as finished: '' @ m), w2)
                            | None \<Rightarrow> Some (None, apfst (set_migration i (\<lambda>r. r\<lparr>migration_finished_at := Some (me_now env)\<rparr>)) w2))
                      else Some (None, w2)))"

fun migrations_loop :: "'r uploader \<Rightarrow> mig_env \<Rightarrow> migration list \<Rightarrow> 'r run_state \<Rightarrow> 'r run_state option" where
  "migrations_loop up env [] w = Some w"
| "migrations_loop up env (m # ms) w =
     Option.bind (ProcessMigrationInBatches up env m w) (\<lambda>(err, w'). migrations_loop up env ms w')"

text \<open>The disk space is looked at and logged; the test that would stop the run is commented out.  The statement
  \<^verbatim>\<open>SELECT id\<close> fills no \<^verbatim>\<open>MigrationStartedAt\<close>.\<close>

definition checkAndExecuteMigration :: "'r uploader \<Rightarrow> mig_env \<Rightarrow> 'r run_state \<Rightarrow> 'r run_state option" where
  "checkAndExecuteMigration up env w =
     (case me_pending env of
        Some m \<Rightarrow> Some w
      | None \<Rightarrow>
          migrations_loop up env
            (map (\<lambda>(i, m). \<lparr>mig_ID = i, MigrationStartedAt = None\<rparr>)
               (filter (\<lambda>(i, m). migration_started_at m = None \<or> migration_finished_at m = None) (migration_tbl (fst w)))) w)"

section \<open>A run keeps every value\<close>

text \<open>The value a read of the local store gives, from the row or from the cloud.\<close>

definition value_of :: "'r cat_cmd \<Rightarrow> rclone_storage \<Rightarrow> sqlite_store \<Rightarrow> 'r \<Rightarrow> string \<Rightarrow> bytes option" where
  "value_of cat c st r k =
     (case map_of (data_tbl st) k of
        None \<Rightarrow> None
      | Some row \<Rightarrow>
          if row_data row \<noteq> [] then Some (row_data row)
          else if is_on_cloud row then (case cloud_Fetch cat c r k of Inl _ \<Rightarrow> None | Inr d \<Rightarrow> Some d) else None)"

lemma Retrieve_value_of:
  "cloud_on st \<Longrightarrow> fst (sq_Retrieve (cloud_Fetch cat c r) None key st) = Inr v \<longleftrightarrow> value_of cat c st r (hex_encode key) = Some v"
  by (auto simp: sq_Retrieve_def value_of_def PostAccessUpdate_def Let_def split: option.splits sum.splits if_splits)

definition migrated :: "sqlite_store \<Rightarrow> string \<Rightarrow> bool" where
  "migrated st k \<longleftrightarrow> (\<exists>row. map_of (data_tbl st) k = Some row \<and> is_on_cloud row)"

text \<open>What a step keeps: every value that can be read, and every row but those that moved to the cloud.\<close>

definition keeps :: "'r cat_cmd \<Rightarrow> rclone_storage \<Rightarrow> sqlite_store \<times> 'r \<Rightarrow> sqlite_store \<times> 'r \<Rightarrow> bool" where
  "keeps cat c w w' \<longleftrightarrow> (\<forall>k v. value_of cat c (fst w) (snd w) k = Some v \<longrightarrow> value_of cat c (fst w') (snd w') k = Some v)
     \<and> cloud_on (fst w') = cloud_on (fst w) \<and> map fst (data_tbl (fst w')) = map fst (data_tbl (fst w))
     \<and> (\<forall>k. map_of (data_tbl (fst w')) k = map_of (data_tbl (fst w)) k \<or> migrated (fst w') k)"

lemma keeps_refl [simp]: "keeps cat c w w"
  by (simp add: keeps_def)

lemma keeps_trans [trans]: "keeps cat c w w' \<Longrightarrow> keeps cat c w' w'' \<Longrightarrow> keeps cat c w w''"
  unfolding keeps_def migrated_def by metis

lemma keeps_wf: "keeps cat c w w' \<Longrightarrow> alist_wf (data_tbl (fst w')) = alist_wf (data_tbl (fst w))"
  by (simp add: keeps_def alist_wf_def)

text \<open>The rows a batch was read from: local, and not yet on the cloud.\<close>

definition local_rows :: "sqlite_store \<Rightarrow> (string \<times> bytes) list \<Rightarrow> bool" where
  "local_rows st kds \<longleftrightarrow> distinct (map fst kds) \<and>
     (\<forall>(k, d) \<in> set kds. \<exists>row. map_of (data_tbl st) k = Some row \<and> row_data row = d \<and> d \<noteq> [] \<and> \<not> is_on_cloud row)"

lemma local_rows_row: "local_rows st kds \<Longrightarrow> (k, d) \<in> set kds \<Longrightarrow>
    \<exists>row. map_of (data_tbl st) k = Some row \<and> row_data row = d \<and> d \<noteq> [] \<and> \<not> is_on_cloud row"
  by (auto simp: local_rows_def)

lemma local_rows_key: "local_rows st kds \<Longrightarrow> k \<in> fst ` set kds \<Longrightarrow>
    \<exists>row. map_of (data_tbl st) k = Some row \<and> (k, row_data row) \<in> set kds \<and> row_data row \<noteq> [] \<and> \<not> is_on_cloud row"
  using local_rows_row by fastforce

lemma map_fst_update_row [simp]: "map fst (update_row P f tbl) = map fst tbl"
  by (simp add: update_row_def case_prod_unfold o_def if_distrib cong: if_cong)

lemma batchSetMigratedRecords_store:
  assumes "batchSetMigratedRecords e keys st = (res, st')"
  shows "cloud_on st' = cloud_on st" and "map fst (data_tbl st') = map fst (data_tbl st)"
    and "k \<notin> set keys \<Longrightarrow> map_of (data_tbl st') k = map_of (data_tbl st) k"
    and "res = None \<Longrightarrow> k \<in> set keys \<Longrightarrow> map_of (data_tbl st') k = map_option (\<lambda>r. r\<lparr>row_data := [], is_on_cloud := True\<rparr>) (map_of (data_tbl st) k)"
    and "res \<noteq> None \<Longrightarrow> st' = st"
  using assms by (auto simp: batchSetMigratedRecords_def map_of_update_row split: if_splits option.splits)

lemma migration_keys_keys: "map mk_Key (filter (\<lambda>k. \<not> IsMigrated k) (migration_keys i s)) = map mk_Key (migration_keys i s)"
  by (simp add: migration_keys_def filter_map o_def case_prod_unfold)

text \<open>The four ways through \<^verbatim>\<open>ProcessMigrationInBatches\<close>.\<close>

definition started :: "mig_env \<Rightarrow> migration \<Rightarrow> migration_store \<Rightarrow> migration_store" where
  "started env mig s = (if MigrationStartedAt mig = None
     then set_migration (mig_ID mig) (\<lambda>r. r\<lparr>migration_started_at := Some (me_now env)\<rparr>) s else s)"

lemma ProcessMigration_cases:
  fixes up :: "'r uploader"
  obtains (query) m where "me_keys env (mig_ID mig) \<noteq> None" "ProcessMigrationInBatches up env mig (s, st, r) = Some (Some m, s, st, r)"
  | (few) "length (migration_keys (mig_ID mig) s) < minKeysToMigrate" "ProcessMigrationInBatches up env mig (s, st, r) = Some (None, s, st, r)"
  | (start) m where "me_start env (mig_ID mig) = Some m" "ProcessMigrationInBatches up env mig (s, st, r) = Some (Some m, s, st, r)"
  | (run) "minKeysToMigrate \<le> length (migration_keys (mig_ID mig) s)"
      "ProcessMigrationInBatches up env mig (s, st, r) =
        (case batches_loop up env (chunks 5000 (map mk_Key (migration_keys (mig_ID mig) s))) (started env mig s, st, r) of
           None \<Rightarrow> None
         | Some (Some m, w2) \<Rightarrow> Some (Some m, w2)
         | Some (None, w2) \<Rightarrow>
             (case me_left env (mig_ID mig) of
                Some m \<Rightarrow> Some (Some (''failed to fetch keys for migration '' @ itoa (mig_ID mig) @ '': '' @ m), w2)
              | None \<Rightarrow>
                  if length (left_keys (mig_ID mig) (fst w2)) = 0
                  then (case me_finish env (mig_ID mig) of
                          Some m \<Rightarrow> Some (Some (''failed to mark migration '' @ itoa (mig_ID mig) @ '' as finished: '' @ m), w2)
                        | None \<Rightarrow> Some (None, apfst (set_migration (mig_ID mig) (\<lambda>r. r\<lparr>migration_finished_at := Some (me_now env)\<rparr>)) w2))
                  else Some (None, w2)))"
proof (cases "me_keys env (mig_ID mig)")
  case (Some m)
  then show ?thesis by (intro query) (simp_all add: ProcessMigrationInBatches_def Let_def)
next
  case None
  let ?ks = "migration_keys (mig_ID mig) s"
  consider "length ?ks < minKeysToMigrate" | m where "\<not> length ?ks < minKeysToMigrate" "MigrationStartedAt mig = None" "me_start env (mig_ID mig) = Some m"
    | "\<not> length ?ks < minKeysToMigrate" "MigrationStartedAt mig \<noteq> None \<or> me_start env (mig_ID mig) = None" by fastforce
  then show ?thesis
  proof cases
    case 1
    then show ?thesis using None by (intro few) (simp_all add: ProcessMigrationInBatches_def Let_def)
  next
    case 2
    then have "?ks \<noteq> []" by (auto simp: minKeysToMigrate_def)
    then show ?thesis using None 2 by (intro start[OF 2(3)]) (simp add: ProcessMigrationInBatches_def Let_def migration_keys_keys)
  next
    case 3
    then have "?ks \<noteq> []" by (auto simp: minKeysToMigrate_def)
    moreover have "minKeysToMigrate \<le> length ?ks" using 3(1) by simp
    ultimately show ?thesis using None 3
      by (cases "MigrationStartedAt mig") (rule run, assumption, simp add: ProcessMigrationInBatches_def Let_def migration_keys_keys started_def)+
  qed
qed

text \<open>What a run relies on: \<open>rclone\<close> does what it reports, and a batch uploads each pair once.\<close>

definition upload_ok :: "((string \<times> bytes) list \<Rightarrow> (string \<times> bytes) list) \<Rightarrow> 'r rcat_cmd \<Rightarrow> 'r cat_cmd \<Rightarrow> bool" where
  "upload_ok order rcat cat \<longleftrightarrow> (\<forall>xs. mset (order xs) = mset xs) \<and> rclone_ok rcat cat"

lemma UploadBatch_spec:
  assumes U: "upload_ok order rcat cat" and "distinct (map fst kds)"
  shows "\<exists>ok err r'. (UploadBatch order rcat c) (map fst kds) (map snd kds) r = Some (ok, err, r') \<and> set ok \<subseteq> fst ` set kds
    \<and> (\<forall>k. k \<notin> fst ` set kds \<longrightarrow> cloud_Fetch cat c r' k = cloud_Fetch cat c r k)
    \<and> (\<forall>(k, d) \<in> set kds. k \<in> set ok \<longrightarrow> cloud_Fetch cat c r' k = Inr d)
    \<and> (err = None \<longrightarrow> fst ` set kds = set ok)"
proof -
  have rclone: "rclone_ok rcat cat" and order: "mset (order xs) = mset xs" for xs using U by (simp_all add: upload_ok_def)
  then have so: "set (order kds) = set kds" by (metis set_mset_mset)
  obtain ok le r' where f: "fold (upload_one rcat c) (order kds) ([], None, r) = (ok, le, r')" by (metis prod_cases3)
  have "mset (map fst (order kds)) = mset (map fst kds)" by (simp add: order)
  then have "distinct (map fst (order kds))" using assms by (metis mset_eq_imp_distinct_iff)
  from upload_fold[OF rclone this _ f] show ?thesis
    by (auto simp: UploadBatch_def f zip_map_fst_snd so)
qed

lemma upload_batch_keeps:
  assumes U: "upload_ok order rcat cat" and "local_rows st kds"
  shows "\<exists>le' s' st' r'. upload_batch (UploadBatch order rcat c) env kds (le, s, st, r) = Some (le', s', st', r') \<and> keeps cat c (st, r) (st', r')
    \<and> (\<forall>k. k \<notin> fst ` set kds \<longrightarrow> map_of (data_tbl st') k = map_of (data_tbl st) k)
    \<and> (le' = None \<longrightarrow> le = None \<and> (\<forall>k \<in> fst ` set kds. migrated st' k))"
proof -
  have d: "distinct (map fst kds)" using assms by (simp add: local_rows_def)
  obtain ok err r' where u: "(UploadBatch order rcat c) (map fst kds) (map snd kds) r = Some (ok, err, r')" "set ok \<subseteq> fst ` set kds"
      "\<And>k. k \<notin> fst ` set kds \<Longrightarrow> cloud_Fetch cat c r' k = cloud_Fetch cat c r k"
      "\<forall>(k, d) \<in> set kds. k \<in> set ok \<longrightarrow> cloud_Fetch cat c r' k = Inr d" "err = None \<Longrightarrow> fst ` set kds = set ok"
    using UploadBatch_spec[OF U, OF d, of c r] by blast
  have "value_of cat c st r' k = value_of cat c st r k" for k
  proof (cases "k \<in> fst ` set kds")
    case True
    then show ?thesis using local_rows_key[OF assms(2) True] by (auto simp: value_of_def)
  next
    case False
    then show ?thesis by (simp add: value_of_def u(3) split: option.splits)
  qed
  then have keep0: "keeps cat c (st, r) (st, r')" by (simp add: keeps_def)
  show ?thesis
  proof (cases err)
    case (Some m)
    with u(1) keep0 show ?thesis by (simp add: upload_batch_def)
  next
    case None
    obtain res st' where b: "batchSetMigratedRecords (me_clear env ok) ok st = (res, st')" by fastforce
    note B = batchSetMigratedRecords_store[OF b]
    show ?thesis
    proof (cases res)
      case (Some m)
      with u(1) None b B(5) keep0 show ?thesis by (simp add: upload_batch_def)
    next
      case resN: None
      have clear: "\<exists>row. map_of (data_tbl st') k = Some (row\<lparr>row_data := [], is_on_cloud := True\<rparr>) \<and> value_of cat c st r k = Some (row_data row)
          \<and> cloud_Fetch cat c r' k = Inr (row_data row)" if "k \<in> set ok" for k
      proof -
        have "k \<in> fst ` set kds" using u(2) that by blast
        then obtain row where row: "map_of (data_tbl st) k = Some row" "(k, row_data row) \<in> set kds" "row_data row \<noteq> []"
          using local_rows_key[OF assms(2)] by blast
        then show ?thesis using B(4)[OF resN that] u(4) that by (intro exI[of _ row]) (auto simp: value_of_def)
      qed
      have "value_of cat c st' r' k = Some v" if "value_of cat c st r k = Some v" for k v
      proof (cases "k \<in> set ok")
        case True
        with clear[OF True] that show ?thesis by (auto simp: value_of_def)
      next
        case False
        then have "k \<notin> fst ` set kds" using u(5) None by blast
        with that u(3) B(3)[OF False] show ?thesis by (auto simp: value_of_def split: option.splits)
      qed
      moreover have "map_of (data_tbl st') k = map_of (data_tbl st) k \<or> migrated st' k" for k
        using B(3)[of k] clear[of k] unfolding migrated_def by (cases "k \<in> set ok") force+
      ultimately have keep: "keeps cat c (st, r) (st', r')" using B(1,2) by (simp add: keeps_def)
      have other: "map_of (data_tbl st') k = map_of (data_tbl st) k" if "k \<notin> fst ` set kds" for k
        using that u(2) B(3) by blast
      have cloud: "migrated st' k" if "k \<in> fst ` set kds" for k
        using that u(5) None clear[of k] unfolding migrated_def by force
      obtain res2 s' where "batchSetMigrated (me_mark env ok) ok s = (res2, s')" by fastforce
      then show ?thesis using u(1) None b resN keep other cloud by (cases res2) (auto simp: upload_batch_def)
    qed
  qed
qed

lemma local_rows_append:
  "local_rows st (a @ b) \<Longrightarrow> (\<And>k. k \<notin> fst ` set a \<Longrightarrow> map_of (data_tbl st') k = map_of (data_tbl st) k) \<Longrightarrow> local_rows st' b"
proof -
  assume l: "local_rows st (a @ b)" and e: "\<And>k. k \<notin> fst ` set a \<Longrightarrow> map_of (data_tbl st') k = map_of (data_tbl st) k"
  have "\<exists>row. map_of (data_tbl st') k = Some row \<and> row_data row = d \<and> d \<noteq> [] \<and> \<not> is_on_cloud row" if kd: "(k, d) \<in> set b" for k d
  proof -
    have "k \<in> fst ` set b" using kd by (metis fst_conv imageI)
    moreover have "fst ` set a \<inter> fst ` set b = {}" using l by (simp add: local_rows_def)
    ultimately have "map_of (data_tbl st') k = map_of (data_tbl st) k" by (intro e) blast
    then show ?thesis using local_rows_row[OF l, of k d] kd by simp
  qed
  then show "local_rows st' b" using l by (auto simp: local_rows_def)
qed

lemma local_rows_left: "local_rows st (a @ b) \<Longrightarrow> local_rows st a"
  unfolding local_rows_def by auto

lemma upload_loop_keeps:
  assumes U: "upload_ok order rcat cat"
  shows "local_rows st (concat bs) \<Longrightarrow>
   \<exists>le' s' st' r'. upload_loop (UploadBatch order rcat c) env bs (le, s, st, r) = Some (le', s', st', r') \<and> keeps cat c (st, r) (st', r')
     \<and> (\<forall>k. k \<notin> fst ` set (concat bs) \<longrightarrow> map_of (data_tbl st') k = map_of (data_tbl st) k)
     \<and> (le' = None \<longrightarrow> le = None \<and> (\<forall>k \<in> fst ` set (concat bs). migrated st' k))"
proof (induction bs arbitrary: le s st r)
  case (Cons b bs)
  have l: "local_rows st (b @ concat bs)" using Cons.prems by simp
  obtain le1 s1 st1 r1 where 1: "upload_batch (UploadBatch order rcat c) env b (le, s, st, r) = Some (le1, s1, st1, r1)" "keeps cat c (st, r) (st1, r1)"
      "\<And>k. k \<notin> fst ` set b \<Longrightarrow> map_of (data_tbl st1) k = map_of (data_tbl st) k"
      "le1 = None \<Longrightarrow> le = None" "le1 = None \<Longrightarrow> \<forall>k \<in> fst ` set b. migrated st1 k"
    using upload_batch_keeps[OF U, OF local_rows_left[OF l], of c env le s r] by blast
  obtain le2 s2 st2 r2 where 2: "upload_loop (UploadBatch order rcat c) env bs (le1, s1, st1, r1) = Some (le2, s2, st2, r2)" "keeps cat c (st1, r1) (st2, r2)"
      "\<And>k. k \<notin> fst ` set (concat bs) \<Longrightarrow> map_of (data_tbl st2) k = map_of (data_tbl st1) k"
      "le2 = None \<Longrightarrow> le1 = None" "le2 = None \<Longrightarrow> \<forall>k \<in> fst ` set (concat bs). migrated st2 k"
    using Cons.IH[OF local_rows_append[OF l 1(3)], of le1 s1 r1] by blast
  have "migrated st2 k" if "le2 = None" "k \<in> fst ` set (concat (b # bs))" for k
  proof (cases "k \<in> fst ` set (concat bs)")
    case True
    with 2(5) that(1) show ?thesis by blast
  next
    case False
    then have "k \<in> fst ` set b" using that(2) by auto
    with 1(5)[OF 2(4)[OF that(1)]] show ?thesis unfolding migrated_def 2(3)[OF False] by blast
  qed
  moreover have "map_of (data_tbl st2) k = map_of (data_tbl st) k" if "k \<notin> fst ` set (concat (b # bs))" for k
  proof -
    have "k \<notin> fst ` set b" "k \<notin> fst ` set (concat bs)" using that by auto
    then show ?thesis using 1(3) 2(3) by simp
  qed
  moreover have "upload_loop (UploadBatch order rcat c) env (b # bs) (le, s, st, r) = Some (le2, s2, st2, r2)" using 1(1) 2(1) by simp
  moreover have "keeps cat c (st, r) (st2, r2)" using 1(2) 2(2) by (rule keeps_trans)
  moreover have "le2 = None \<Longrightarrow> le = None" using 1(4) 2(4) by blast
  ultimately show ?case
    by (intro exI[of _ le2] exI[of _ s2] exI[of _ st2] exI[of _ r2] conjI impI allI ballI) blast+
qed simp

lemma retrieve_local_rows:
  assumes "alist_wf (data_tbl st)" and "retrieveBatchValuesToMigrate e keys st = Inr (vals, nkeys)"
  shows "local_rows st (zip nkeys vals)" and "length nkeys = length vals" and "set nkeys \<subseteq> set keys"
    and "k \<in> set nkeys \<longleftrightarrow> k \<in> set keys \<and> (\<exists>row. map_of (data_tbl st) k = Some row \<and> 1 < length (row_data row) \<and> \<not> is_on_cloud row)"
proof -
  let ?f = "filter (\<lambda>(k, r). length (row_data r) > 1 \<and> \<not> is_on_cloud r) (filter (\<lambda>(k, r). k \<in> set keys \<and> \<not> is_on_cloud r) (data_tbl st))"
  have d: "distinct (map fst (data_tbl st))" using assms(1) by (simp add: alist_wf_def)
  have nv: "nkeys = map fst ?f" "vals = map (row_data \<circ> snd) ?f"
    using assms(2) by (auto simp: retrieveBatchValuesToMigrate_def Let_def split: if_splits option.splits)
  then show "length nkeys = length vals" "set nkeys \<subseteq> set keys" by auto
  show "k \<in> set nkeys \<longleftrightarrow> k \<in> set keys \<and> (\<exists>row. map_of (data_tbl st) k = Some row \<and> 1 < length (row_data row) \<and> \<not> is_on_cloud row)"
    using d by (force simp: nv(1) map_of_eq_Some_iff)
  have "zip nkeys vals = map (\<lambda>(k, r). (k, row_data r)) ?f"
    by (simp add: nv zip_map_map zip_same_conv_map split_beta)
  moreover have "distinct (map fst (map (\<lambda>(k, r). (k, row_data r)) ?f))"
    using d by (simp add: o_def case_prod_unfold distinct_map_filter)
  ultimately show "local_rows st (zip nkeys vals)"
    using d by (auto simp: local_rows_def map_of_eq_Some_iff)
qed

lemma processSingleBatch_keeps:
  assumes U: "upload_ok order rcat cat" and "alist_wf (data_tbl st)"
  shows "\<exists>err s' st' r'. processSingleBatch (UploadBatch order rcat c) env keys (s, st, r) = Some (err, s', st', r') \<and> keeps cat c (st, r) (st', r')
    \<and> (err = None \<longrightarrow> (\<forall>k \<in> set keys. \<forall>row. map_of (data_tbl st) k = Some row \<longrightarrow> 1 < length (row_data row) \<longrightarrow> migrated st' k))"
proof (cases "retrieveBatchValuesToMigrate (me_retrieve env keys) keys st")
  case (Inl m)
  then show ?thesis by (simp add: processSingleBatch_def)
next
  case (Inr p)
  obtain vals nkeys where p: "p = (vals, nkeys)" by fastforce
  note R = retrieve_local_rows[OF assms(2) Inr[unfolded p]]
  obtain le s' st' r' where U: "upload_loop (UploadBatch order rcat c) env (chunks 1000 (zip nkeys vals)) (None, s, st, r) = Some (le, s', st', r')"
      "keeps cat c (st, r) (st', r')" "\<And>k. k \<notin> set nkeys \<Longrightarrow> map_of (data_tbl st') k = map_of (data_tbl st) k"
      "le = None \<Longrightarrow> \<forall>k \<in> set nkeys. migrated st' k"
    using upload_loop_keeps[OF U, of st "chunks 1000 (zip nkeys vals)" c env None s r] R(1,2)
    by (auto simp: concat_chunks simp flip: set_map simp del: concat.simps)
  have "migrated st' k" if "le = None" "k \<in> set keys" "map_of (data_tbl st) k = Some row" "1 < length (row_data row)" for k row
  proof (cases "k \<in> set nkeys")
    case True
    with U(4) that(1) show ?thesis by blast
  next
    case False
    with R(4)[of k] that have "is_on_cloud row" by blast
    then show ?thesis using U(3)[OF False] that(3) by (simp add: migrated_def)
  qed
  then show ?thesis using Inr p U(1,2) by (auto simp: processSingleBatch_def uploadInBatches_def)
qed

lemma batches_loop_keeps:
  assumes U: "upload_ok order rcat cat"
  shows "alist_wf (data_tbl st) \<Longrightarrow>
   \<exists>err s' st' r'. batches_loop (UploadBatch order rcat c) env bs (s, st, r) = Some (err, s', st', r') \<and> keeps cat c (st, r) (st', r')
    \<and> (err = None \<longrightarrow> (\<forall>k \<in> set (concat bs). \<forall>row. map_of (data_tbl st) k = Some row \<longrightarrow> 1 < length (row_data row) \<longrightarrow> migrated st' k))"
proof (induction bs arbitrary: s st r)
  case (Cons b bs)
  obtain err s1 st1 r1 where 1: "processSingleBatch (UploadBatch order rcat c) env b (s, st, r) = Some (err, s1, st1, r1)" "keeps cat c (st, r) (st1, r1)"
      "err = None \<Longrightarrow> \<forall>k \<in> set b. \<forall>row. map_of (data_tbl st) k = Some row \<longrightarrow> 1 < length (row_data row) \<longrightarrow> migrated st1 k"
    using processSingleBatch_keeps[OF U, OF Cons.prems, of c env b s r] by blast
  show ?case
  proof (cases err)
    case (Some m)
    with 1(1,2) show ?thesis by simp
  next
    case None
    have "alist_wf (data_tbl st1)" using keeps_wf[OF 1(2)] Cons.prems by simp
    from Cons.IH[OF this, of s1 r1] obtain err2 s2 st2 r2 where 2: "batches_loop (UploadBatch order rcat c) env bs (s1, st1, r1) = Some (err2, s2, st2, r2)"
        "keeps cat c (st1, r1) (st2, r2)"
        "err2 = None \<Longrightarrow> \<forall>k \<in> set (concat bs). \<forall>row. map_of (data_tbl st1) k = Some row \<longrightarrow> 1 < length (row_data row) \<longrightarrow> migrated st2 k"
      by blast
    have "migrated st2 k" if "err2 = None" "k \<in> set (concat (b # bs))" "map_of (data_tbl st) k = Some row" "1 < length (row_data row)" for k row
    proof -
      have "map_of (data_tbl st1) k = map_of (data_tbl st) k \<or> migrated st1 k" using 1(2) by (simp add: keeps_def)
      moreover have "map_of (data_tbl st2) k = map_of (data_tbl st1) k \<or> migrated st2 k" using 2(2) by (simp add: keeps_def)
      moreover have "k \<in> set b \<or> k \<in> set (concat bs)" using that(2) by simp
      ultimately show ?thesis using 1(3)[OF None] 2(3)[OF that(1)] that(3,4) unfolding migrated_def by metis
    qed
    with 1(1) None 2(1) keeps_trans[OF 1(2) 2(2)] show ?thesis by simp
  qed
qed simp

lemma ProcessMigration_keeps:
  assumes U: "upload_ok order rcat cat" and "alist_wf (data_tbl st)"
  shows "\<exists>err s' st' r'. ProcessMigrationInBatches (UploadBatch order rcat c) env mig (s, st, r) = Some (err, s', st', r') \<and> keeps cat c (st, r) (st', r')
    \<and> (err = None \<longrightarrow> minKeysToMigrate \<le> length (migration_keys (mig_ID mig) s) \<longrightarrow>
       (\<forall>k \<in> set (migration_keys (mig_ID mig) s). \<forall>row. map_of (data_tbl st) (mk_Key k) = Some row \<longrightarrow> 1 < length (row_data row) \<longrightarrow> migrated st' (mk_Key k)))"
proof -
  let ?keys = "map mk_Key (migration_keys (mig_ID mig) s)"
  have "\<exists>err s' st' r'. batches_loop (UploadBatch order rcat c) env (chunks 5000 ?keys) (s1, st, r) = Some (err, s', st', r') \<and> keeps cat c (st, r) (st', r')
    \<and> (err = None \<longrightarrow> (\<forall>k \<in> set (migration_keys (mig_ID mig) s). \<forall>row. map_of (data_tbl st) (mk_Key k) = Some row \<longrightarrow> 1 < length (row_data row) \<longrightarrow> migrated st' (mk_Key k)))" for s1
    using batches_loop_keeps[OF U, OF assms(2), of c env "chunks 5000 ?keys" s1 r] by (simp only: concat_chunks[of 5000] zero_less_numeral set_map ball_simps)
  then obtain err s' st' r' where B: "batches_loop (UploadBatch order rcat c) env (chunks 5000 ?keys) (started env mig s, st, r) = Some (err, s', st', r')"
      "keeps cat c (st, r) (st', r')"
      "err = None \<Longrightarrow> \<forall>k \<in> set (migration_keys (mig_ID mig) s). \<forall>row. map_of (data_tbl st) (mk_Key k) = Some row \<longrightarrow> 1 < length (row_data row) \<longrightarrow> migrated st' (mk_Key k)"
    by blast
  show ?thesis
  proof (cases "UploadBatch order rcat c" env mig s st r rule: ProcessMigration_cases)
    case run
    then show ?thesis using B by (cases err; cases "me_left env (mig_ID mig)"; cases "me_finish env (mig_ID mig)") auto
  qed auto
qed

lemma migrations_loop_keeps:
  assumes U: "upload_ok order rcat cat"
  shows "alist_wf (data_tbl st) \<Longrightarrow> \<exists>s' st' r'. migrations_loop (UploadBatch order rcat c) env ms (s, st, r) = Some (s', st', r') \<and> keeps cat c (st, r) (st', r')"
proof (induction ms arbitrary: s st r)
  case (Cons m ms)
  obtain err s1 st1 r1 where 1: "ProcessMigrationInBatches (UploadBatch order rcat c) env m (s, st, r) = Some (err, s1, st1, r1)" "keeps cat c (st, r) (st1, r1)"
    using ProcessMigration_keeps[OF U, OF Cons.prems, of c env m s r] by blast
  then have "alist_wf (data_tbl st1)" using keeps_wf Cons.prems by fastforce
  from Cons.IH[OF this, of s1 r1] 1 show ?case by (auto intro: keeps_trans)
qed simp

lemma run_keeps:
  assumes U: "upload_ok order rcat cat"
  shows "alist_wf (data_tbl st) \<Longrightarrow> \<exists>s' st' r'. checkAndExecuteMigration (UploadBatch order rcat c) env (s, st, r) = Some (s', st', r') \<and> keeps cat c (st, r) (st', r')"
  unfolding checkAndExecuteMigration_def using migrations_loop_keeps[OF U] by (cases "me_pending env") auto

section \<open>Invariant of the tables\<close>

definition no_false :: "migration_store \<Rightarrow> bool" where
  "no_false s \<longleftrightarrow> (\<forall>k r. (k, r) \<in> set (meta_migration s) \<longrightarrow> is_migrated r \<noteq> Some False)"

definition mig_inv :: "migration_store \<Rightarrow> bool" where
  "mig_inv s \<longleftrightarrow> alist_wf (meta_tbl s) \<and> alist_wf (meta_migration s) \<and> alist_wf (migration_tbl s)
     \<and> (\<forall>i m. (i, m) \<in> set (migration_tbl s) \<longrightarrow> i \<le> migration_seq s) \<and> alist_wf (updates s) \<and> alist_wf (inserts s) \<and> no_false s"

lemma fold_wf: "(\<And>x t. alist_wf t \<Longrightarrow> alist_wf (f x t)) \<Longrightarrow> alist_wf t \<Longrightarrow> alist_wf (fold f xs t)"
  by (induction xs arbitrary: t) auto

lemma row_wf: "alist_wf t \<Longrightarrow> alist_wf (sync_row p t)" "alist_wf t \<Longrightarrow> alist_wf (access_row q t)" "alist_wf t \<Longrightarrow> alist_wf (insert_row u t)"
  by (auto simp: sync_row_def access_row_def insert_row_def alist_wf_update split: prod.splits option.splits)

lemma in_update_row [simp]: "(k, v) \<in> set (update_row P f t) \<longleftrightarrow> (\<exists>r. (k, r) \<in> set t \<and> v = (if P k then f r else r))"
  by (induction t) (auto simp: update_row_def split: if_splits)

lemma update_row_wf [simp]: "alist_wf (update_row P f t) = alist_wf t"
  by (simp add: alist_wf_def)

lemma sync_fold_wf: "alist_wf t \<Longrightarrow> alist_wf (fold sync_row xs t)"
  by (rule fold_wf) (rule row_wf)

lemma sync_loop_wf: "sync_loop fuel out dat turn offset t = Some t' \<Longrightarrow> alist_wf t \<Longrightarrow> alist_wf t'"
proof (induction fuel arbitrary: turn offset t)
  case (Suc fuel)
  note IH = Suc.IH[OF _ sync_fold_wf[OF Suc.prems(2)]] Suc.IH[OF _ Suc.prems(2)]
  show ?case using Suc.prems IH sync_fold_wf[OF Suc.prems(2)]
    by (auto simp: Let_def split: sync_outcome.splits if_splits)
qed simp

lemma syncMetaWithData_inv [inv_intros]: "syncMetaWithData fuel out st s = Some s' \<Longrightarrow> mig_inv s \<Longrightarrow> mig_inv s'"
  unfolding syncMetaWithData_def mig_inv_def no_false_def by clarify (simp add: sync_loop_wf[of fuel out "data_tbl st" 0 0 "meta_tbl s"])

lemma commitLastAccessedUpdates_inv [inv_intros]: "mig_inv s \<Longrightarrow> mig_inv (commitLastAccessedUpdates e bad s)"
  by (auto simp: commitLastAccessedUpdates_def mig_inv_def no_false_def Let_def row_wf alist_wf_delete intro!: fold_wf split: option.splits)

lemma commitInserts_inv [inv_intros]: "mig_inv s \<Longrightarrow> mig_inv (commitInserts e bad s)"
  by (auto simp: commitInserts_def mig_inv_def no_false_def Let_def row_wf alist_wf_delete intro!: fold_wf split: option.splits)

lemma access_worker_inv [inv_intros]: "mig_inv s \<Longrightarrow> mig_inv (startLastAccessedUpdateWorker evs s)"
proof (induction evs s rule: startLastAccessedUpdateWorker.induct)
  case (2 k t evs s)
  then show ?case by (simp add: mig_inv_def no_false_def alist_wf_update)
qed (simp_all add: commitLastAccessedUpdates_inv)

lemma insert_worker_inv [inv_intros]: "mig_inv s \<Longrightarrow> mig_inv (startInsertWorker e bad evs s)"
proof (induction e bad evs s rule: startInsertWorker.induct)
  case (2 e bad u evs s)
  then show ?case by (simp add: mig_inv_def no_false_def alist_wf_update)
qed (simp_all add: commitInserts_inv)

lemma CreateNewMigration_inv [inv_intros]:
  assumes "mig_inv s"
  shows "mig_inv (snd (CreateNewMigration e s))"
proof -
  have "Suc (migration_seq s) \<notin> fst ` set (migration_tbl s)" using assms by (fastforce simp: mig_inv_def)
  then show ?thesis using assms
    by (auto simp: CreateNewMigration_def mig_inv_def no_false_def alist_wf_def Let_def split: option.splits)
qed

lemma insert_mm_inv:
  "insert_mm now i ks t = Some t' \<Longrightarrow> alist_wf t \<Longrightarrow> (\<forall>k r. (k, r) \<in> set t \<longrightarrow> is_migrated r \<noteq> Some False) \<Longrightarrow>
   alist_wf t' \<and> (\<forall>k r. (k, r) \<in> set t' \<longrightarrow> is_migrated r \<noteq> Some False)"
proof (induction now i ks t rule: insert_mm.induct)
  case (2 now i k ks tbl)
  then have n: "map_of tbl (k, i) = None" by (simp split: if_splits)
  then have "(k, i) \<notin> fst ` set tbl" by (simp add: map_of_eq_None_iff)
  moreover have "\<forall>k' r. (k', r) \<in> set (tbl @ [((k, i), \<lparr>is_migrated = None, mm_created_at = now\<rparr>)]) \<longrightarrow> is_migrated r \<noteq> Some False"
    using "2.prems"(3) by auto
  ultimately show ?case using 2 n by (simp add: alist_wf_def)
qed simp

lemma InsertMetaMigrationData_inv [inv_intros]: "mig_inv s \<Longrightarrow> mig_inv (snd (InsertMetaMigrationData e now i keys s))"
  by (auto simp: InsertMetaMigrationData_def mig_inv_def no_false_def dest: insert_mm_inv split: option.splits)

text \<open>What a run changes of the migration tables: marks on keys, and the times of migrations.\<close>

definition marks :: "migration_store \<Rightarrow> migration_store \<Rightarrow> bool" where
  "marks s s' \<longleftrightarrow> map fst (meta_migration s') = map fst (meta_migration s) \<and> migration_tbl s' = migration_tbl s
     \<and> (mig_inv s \<longrightarrow> mig_inv s')"

lemma marks_refl [simp]: "marks s s"
  by (simp add: marks_def)

lemma marks_trans: "marks s s' \<Longrightarrow> marks s' s'' \<Longrightarrow> marks s s''"
  by (simp add: marks_def)

lemma batchSetMigrated_marks: "batchSetMigrated e keys s = (res, s') \<Longrightarrow> marks s s'"
  by (auto simp: batchSetMigrated_def marks_def mig_inv_def no_false_def split: if_splits option.splits; blast)

lemma upload_batch_marks: "upload_batch up env b (le, s, st, r) = Some (le', s', st', r') \<Longrightarrow> marks s s'"
  by (auto simp: upload_batch_def dest: batchSetMigrated_marks split: option.splits prod.splits)

lemma upload_loop_marks: "upload_loop up env bs (le, s, st, r) = Some (le', s', st', r') \<Longrightarrow> marks s s'"
proof (induction bs arbitrary: le s st r)
  case (Cons b bs)
  then obtain le1 s1 st1 r1 where "upload_batch up env b (le, s, st, r) = Some (le1, s1, st1, r1)"
      "upload_loop up env bs (le1, s1, st1, r1) = Some (le', s', st', r')" by (auto simp: bind_eq_Some_conv)
  then show ?case using Cons.IH upload_batch_marks[of up env b le s st r] marks_trans[of s s1 s'] by simp
qed simp

lemma processSingleBatch_marks: "processSingleBatch up env keys (s, st, r) = Some (err, s', st', r') \<Longrightarrow> marks s s'"
  by (auto simp: processSingleBatch_def uploadInBatches_def dest: upload_loop_marks split: sum.splits)

lemma batches_loop_marks: "batches_loop up env bs (s, st, r) = Some (err, s', st', r') \<Longrightarrow> marks s s'"
proof (induction bs arbitrary: s st r)
  case (Cons b bs)
  then obtain e1 s1 st1 r1 where 1: "processSingleBatch up env b (s, st, r) = Some (e1, s1, st1, r1)"
    by (auto split: option.splits)
  then have "marks s s1" by (rule processSingleBatch_marks)
  then show ?case using Cons 1 marks_trans by (cases e1) fastforce+
qed simp

lemma set_migration_inv [simp]: "mig_inv (set_migration i f s) = mig_inv s"
  by (auto simp: set_migration_def mig_inv_def no_false_def)

lemma no_false_left: "no_false s \<Longrightarrow> left_keys i s = []"
  by (fastforce simp: no_false_def left_keys_def filter_empty_conv)

lemma ProcessMigration_inv:
  assumes "mig_inv s" and "ProcessMigrationInBatches up env mig (s, st, r) = Some (err, s', st', r')"
  shows "mig_inv s'"
proof (cases up env mig s st r rule: ProcessMigration_cases)
  case run
  have i: "mig_inv (started env mig s)" using assms(1) by (simp add: started_def)
  obtain e2 s2 st2 r2 where b: "batches_loop up env (chunks 5000 (map mk_Key (migration_keys (mig_ID mig) s))) (started env mig s, st, r) = Some (e2, s2, st2, r2)"
    using run(2) assms(2) by (auto split: option.splits)
  then have "mig_inv s2" using batches_loop_marks[OF b] i by (simp add: marks_def)
  then show ?thesis using run(2) assms(2) b by (auto split: option.splits if_splits)
qed (use assms in auto)

section \<open>A run without failures\<close>

definition env_ok :: "mig_env \<Rightarrow> bool" where
  "env_ok env \<longleftrightarrow> me_pending env = None \<and> me_keys env = (\<lambda>_. None) \<and> me_start env = (\<lambda>_. None) \<and> me_left env = (\<lambda>_. None)
     \<and> me_finish env = (\<lambda>_. None) \<and> me_retrieve env = (\<lambda>_. None) \<and> me_clear env = (\<lambda>_. None) \<and> me_mark env = (\<lambda>_. None)"

definition never_fails :: "'r rcat_cmd \<Rightarrow> bool" where
  "never_fails rcat \<longleftrightarrow> (\<forall>p d r. fst (rcat p d r) = None)"

definition listed :: "migration_store \<Rightarrow> string set" where
  "listed s = (fst \<circ> fst) ` set (meta_migration s)"

lemma marks_listed: "marks s s' \<Longrightarrow> listed s' = listed s"
proof -
  have "listed s = fst ` set (map fst (meta_migration s))" for s by (simp add: listed_def image_comp)
  then show "marks s s' \<Longrightarrow> listed s' = listed s" unfolding marks_def by metis
qed

lemma never_fails_fold: "never_fails rcat \<Longrightarrow> fst (snd (fold (upload_one rcat c) kds (ok, le, r))) = le"
proof (induction kds arbitrary: ok r)
  case (Cons kd kds)
  have "\<exists>ok' r'. upload_one rcat c kd (ok, le, r) = (ok', le, r')"
    using Cons.prems[unfolded never_fails_def, rule_format, of "remotePath c (fst kd)" "snd kd" r]
    by (auto simp: upload_one_def cloud_Upload_def split: prod.splits)
  with Cons show ?case by auto
qed simp

lemma upload_batch_ok:
  assumes U: "upload_ok order rcat cat" and "never_fails rcat" and "env_ok env" and "local_rows st kds" and "fst ` set kds \<subseteq> listed s"
    and r: "upload_batch (UploadBatch order rcat c) env kds (le, s, st, r) = Some (le', s', st', r')"
  shows "le' = le"
proof -
  have d: "distinct (map fst kds)" using assms(4) by (simp add: local_rows_def)
  obtain ok err r1 where u: "UploadBatch order rcat c (map fst kds) (map snd kds) r = Some (ok, err, r1)" "set ok \<subseteq> fst ` set kds"
    using UploadBatch_spec[OF U d, of c r] by blast
  have e: "err = None"
    using u(1) never_fails_fold[OF assms(2), of c "order (zip (map fst kds) (map snd kds))" "[]" None r]
    by (auto simp: UploadBatch_def split: prod.splits)
  have "\<exists>st1. batchSetMigratedRecords None ok st = (None, st1)"
  proof (cases ok)
    case (Cons k ks)
    then have "k \<in> fst ` set kds" using u(2) by auto
    then obtain row where "(k, row) \<in> set (data_tbl st)" using local_rows_key[OF assms(4)] by (meson map_of_SomeD)
    then have "\<not> list_all (\<lambda>(k, r). k \<notin> set ok) (data_tbl st)" using Cons by (force simp: list_all_iff)
    then show ?thesis by (simp add: batchSetMigratedRecords_def)
  qed (simp add: batchSetMigratedRecords_def)
  moreover have "\<exists>s1. batchSetMigrated None ok s = (None, s1)"
  proof (cases ok)
    case (Cons k ks)
    then have "k \<in> listed s" using u(2) assms(5) by auto
    then have "\<not> list_all (\<lambda>((k, i), r). k \<notin> set ok) (meta_migration s)" using Cons by (force simp: list_all_iff listed_def)
    then show ?thesis by (simp add: batchSetMigrated_def)
  qed (simp add: batchSetMigrated_def)
  ultimately show ?thesis using r u(1) e assms(3) by (auto simp: upload_batch_def env_ok_def)
qed

lemma upload_loop_ok:
  assumes U: "upload_ok order rcat cat" and "never_fails rcat" and "env_ok env"
  shows "local_rows st (concat bs) \<Longrightarrow> fst ` set (concat bs) \<subseteq> listed s \<Longrightarrow>
    upload_loop (UploadBatch order rcat c) env bs (le, s, st, r) = Some (le', s', st', r') \<Longrightarrow> le' = le"
proof (induction bs arbitrary: le s st r)
  case (Cons b bs)
  have l: "local_rows st (b @ concat bs)" using Cons.prems(1) by simp
  obtain le1 s1 st1 r1 where 1: "upload_batch (UploadBatch order rcat c) env b (le, s, st, r) = Some (le1, s1, st1, r1)"
      "\<And>k. k \<notin> fst ` set b \<Longrightarrow> map_of (data_tbl st1) k = map_of (data_tbl st) k"
    using upload_batch_keeps[OF U local_rows_left[OF l], of c env le s r] by blast
  have "fst ` set b \<subseteq> listed s" using Cons.prems(2) by auto
  then have "le1 = le" using upload_batch_ok[OF assms local_rows_left[OF l] _ 1(1)] by simp
  moreover have "fst ` set (concat bs) \<subseteq> listed s1" using Cons.prems(2) marks_listed[OF upload_batch_marks[OF 1(1)]] by auto
  ultimately show ?case using Cons.IH[OF local_rows_append[OF l 1(2)], of s1 le1 r1] Cons.prems(3) 1(1) by simp
qed simp

lemma processSingleBatch_ok:
  assumes U: "upload_ok order rcat cat" and "never_fails rcat" and "env_ok env" and "alist_wf (data_tbl st)" and "set keys \<subseteq> listed s"
    and "processSingleBatch (UploadBatch order rcat c) env keys (s, st, r) = Some (err, s', st', r')"
  shows "err = None"
proof -
  obtain vals nkeys where R: "retrieveBatchValuesToMigrate None keys st = Inr (vals, nkeys)"
    by (cases "keys = []") (simp_all add: retrieveBatchValuesToMigrate_def Let_def)
  note L = retrieve_local_rows[OF assms(4) R]
  have "fst ` set (zip nkeys vals) \<subseteq> listed s" using L(3) assms(5) set_zip_leftD[of _ _ nkeys vals] by fastforce
  then show ?thesis
    using upload_loop_ok[OF assms(1-3), of st "chunks 1000 (zip nkeys vals)" s c None r] assms(3,6) R L(1)
    by (auto simp: processSingleBatch_def uploadInBatches_def env_ok_def concat_chunks)
qed

lemma batches_loop_ok:
  assumes U: "upload_ok order rcat cat" and "never_fails rcat" and "env_ok env"
  shows "alist_wf (data_tbl st) \<Longrightarrow> set (concat bs) \<subseteq> listed s \<Longrightarrow>
    batches_loop (UploadBatch order rcat c) env bs (s, st, r) = Some (err, s', st', r') \<Longrightarrow> err = None"
proof (induction bs arbitrary: s st r)
  case (Cons b bs)
  obtain e1 s1 st1 r1 where 1: "processSingleBatch (UploadBatch order rcat c) env b (s, st, r) = Some (e1, s1, st1, r1)" "keeps cat c (st, r) (st1, r1)"
    using processSingleBatch_keeps[OF U Cons.prems(1), of c env b s r] by blast
  have "e1 = None" using processSingleBatch_ok[OF assms Cons.prems(1) _ 1(1)] Cons.prems(2) by simp
  moreover have "set (concat bs) \<subseteq> listed s1" using Cons.prems(2) marks_listed[OF processSingleBatch_marks[OF 1(1)]] by simp
  moreover have "alist_wf (data_tbl st1)" using keeps_wf[OF 1(2)] Cons.prems(1) by simp
  ultimately show ?case using Cons.IH[of st1 s1 r1] Cons.prems(3) 1(1) by simp
qed simp

lemma ProcessMigration_run:
  assumes "upload_ok order rcat cat" and "never_fails rcat" and "env_ok env" and "alist_wf (data_tbl st)" and "mig_inv s"
    and "minKeysToMigrate \<le> length (migration_keys (mig_ID mig) s)"
  shows "\<exists>s2 st' r'. ProcessMigrationInBatches (UploadBatch order rcat c) env mig (s, st, r)
      = Some (None, set_migration (mig_ID mig) (\<lambda>r. r\<lparr>migration_finished_at := Some (me_now env)\<rparr>) s2, st', r')
    \<and> migration_tbl s2 = migration_tbl (started env mig s)"
proof -
  let ?keys = "map mk_Key (migration_keys (mig_ID mig) s)"
  have k: "set (concat (chunks 5000 ?keys)) \<subseteq> listed (started env mig s)"
    by (auto simp: concat_chunks migration_keys_def listed_def started_def set_migration_def image_iff) force+
  obtain e2 s2 st2 r2 where b: "batches_loop (UploadBatch order rcat c) env (chunks 5000 ?keys) (started env mig s, st, r) = Some (e2, s2, st2, r2)"
    using batches_loop_keeps[OF assms(1,4), of c env "chunks 5000 ?keys" "started env mig s" r] by blast
  have "e2 = None" by (rule batches_loop_ok[OF assms(1-4) k b])
  moreover have "marks (started env mig s) s2" by (rule batches_loop_marks[OF b])
  moreover have "mig_inv (started env mig s)" using assms(5) by (simp add: started_def)
  ultimately have "left_keys (mig_ID mig) s2 = []" "migration_tbl s2 = migration_tbl (started env mig s)"
    by (simp_all add: marks_def mig_inv_def no_false_left)
  then show ?thesis using assms(3,6) b \<open>e2 = None\<close>
    by (cases "UploadBatch order rcat c" env mig s st r rule: ProcessMigration_cases) (auto simp: env_ok_def)
qed

section \<open>Filling the table\<close>

lemma filter_true: "filter (\<lambda>p. True) xs = xs"
  by simp

lemma sync_loop_all:
  assumes "\<forall>n. out n = Rows (\<lambda>_. False) True"
  shows "length dat \<le> offset + fuel * metaSyncBatchSize \<Longrightarrow>
    sync_loop (Suc fuel) out dat turn offset t = Some (fold sync_row (drop offset dat) t)"
proof (induction fuel arbitrary: turn offset t)
  case 0
  then show ?case using assms by simp
next
  case (Suc fuel)
  let ?rows = "take metaSyncBatchSize (drop offset dat)"
  show ?case
  proof (cases "drop offset dat = []")
    case True
    then show ?thesis using assms by (subst sync_loop.simps) (simp add: case_prod_unfold)
  next
    case False
    then have "?rows \<noteq> []" by (simp add: metaSyncBatchSize_def)
    moreover have "fold sync_row (drop offset dat) t = fold sync_row (drop (offset + metaSyncBatchSize) dat) (fold sync_row ?rows t)"
      by (metis append_take_drop_id comp_apply drop_drop fold_append add.commute)
    moreover have "sync_loop (Suc fuel) out dat (Suc turn) (offset + metaSyncBatchSize) (fold sync_row ?rows t)
        = Some (fold sync_row (drop (offset + metaSyncBatchSize) dat) (fold sync_row ?rows t))"
      using Suc.prems by (intro Suc.IH) (simp add: algebra_simps)
    moreover have "out turn = Rows (\<lambda>_. False) True" using assms by simp
    ultimately show ?thesis
      by (simp only: sync_loop.simps(2)[of "Suc fuel"] sync_outcome.case Let_def case_prod_unfold not_False_eq_True filter_true simp_thms if_True if_False)
  qed
qed

definition synced :: "data_row \<Rightarrow> meta_row" where
  "synced r = \<lparr>last_accessed = row_updatedAt r, access_count = 1, data_size = int (length (row_data r))\<rparr>"

lemma fold_sync_row:
  "distinct (map fst rows) \<Longrightarrow> fst ` set rows \<inter> fst ` set t = {} \<Longrightarrow>
   map_of (fold sync_row rows t) k = (case map_of rows k of None \<Rightarrow> map_of t k | Some r \<Rightarrow> Some (synced r))"
proof (induction rows arbitrary: t)
  case (Cons p rows)
  obtain k' r where p: "p = (k', r)" by fastforce
  have "map_of t k' = None" using Cons.prems(2) p by (auto simp: map_of_eq_None_iff)
  then have e: "sync_row p t = alist_update k' (synced r) t" by (simp add: sync_row_def p synced_def)
  have "fst ` set rows \<inter> fst ` set (sync_row p t) = {}" using Cons.prems p e by auto
  moreover have "map_of rows k' = None" using Cons.prems(1) p by (simp add: map_of_eq_None_iff)
  ultimately show ?case using Cons.IH[of "sync_row p t"] Cons.prems(1) e p by (auto simp: map_of_alist_update split: option.splits)
qed simp

lemma syncMeta_loop:
  assumes "meta_tbl s = []" and "alist_wf (data_tbl st)" and "\<forall>n. out n = Rows (\<lambda>_. False) True"
    and "length (data_tbl st) div metaSyncBatchSize + 1 < fuel"
  shows "\<exists>s'. syncMetaWithData fuel out st s = Some s' \<and> (\<forall>k. map_of (meta_tbl s') k = map_option synced (map_of (data_tbl st) k))"
proof -
  obtain f where f: "fuel = Suc f" "length (data_tbl st) div metaSyncBatchSize + 1 \<le> f" using assms(4) by (cases fuel) auto
  have "length (data_tbl st) \<le> (length (data_tbl st) div metaSyncBatchSize + 1) * metaSyncBatchSize"
    using dividend_less_div_times[of metaSyncBatchSize "length (data_tbl st)"] by (simp add: metaSyncBatchSize_def)
  also have "\<dots> \<le> f * metaSyncBatchSize" by (rule mult_right_mono) (use f(2) in simp_all)
  finally have "sync_loop fuel out (data_tbl st) 0 0 [] = Some (fold sync_row (data_tbl st) [])"
    using sync_loop_all[OF assms(3), of "data_tbl st" 0 f 0 "[]"] f(1) by simp
  moreover have "map_of (fold sync_row (data_tbl st) []) k = map_option synced (map_of (data_tbl st) k)" for k
    using fold_sync_row[of "data_tbl st" "[]" k] assms(2) by (simp add: alist_wf_def split: option.splits)
  ultimately show ?thesis using assms(1) by (simp add: syncMetaWithData_def)
qed

lemma sync_loop_stuck: "\<forall>n. out n = NoTransaction \<Longrightarrow> sync_loop fuel out dat turn offset t = None"
  by (induction fuel arbitrary: turn) auto

section \<open>Accesses\<close>

definition touch :: "timestamp \<Rightarrow> meta_row option \<Rightarrow> meta_row" where
  "touch t m = (case m of None \<Rightarrow> \<lparr>last_accessed = t, access_count = 1, data_size = 0\<rparr>
     | Some r \<Rightarrow> r\<lparr>last_accessed := t, access_count := access_count r + 1\<rparr>)"

fun posted :: "access_event \<Rightarrow> (string \<rightharpoonup> timestamp) \<Rightarrow> (string \<rightharpoonup> timestamp)" where
  "posted (AccessMsg k t) m = m(k \<mapsto> t)"
| "posted (AccessTick e bad) m = m"

fun commit_fails :: "access_event \<Rightarrow> bool" where
  "commit_fails (AccessMsg k t) = True"
| "commit_fails (AccessTick e bad) = (e \<noteq> None)"

lemma fold_access_row:
  "distinct (map fst us) \<Longrightarrow> map_of (fold access_row us t) k =
   (case map_of us k of None \<Rightarrow> map_of t k | Some x \<Rightarrow> Some (touch x (map_of t k)))"
proof (induction us arbitrary: t)
  case (Cons p us)
  obtain k' x where p: "p = (k', x)" by fastforce
  have e: "access_row p t = alist_update k' (touch x (map_of t k')) t"
    by (simp add: access_row_def p touch_def split: option.splits)
  have "map_of us k' = None" using Cons.prems(1) p by (simp add: map_of_eq_None_iff)
  with Cons p e show ?case by (auto simp: map_of_alist_update split: option.splits)
qed simp

lemma fold_delete_all: "fold (\<lambda>(k, t). alist_delete k) us m = filter (\<lambda>(k, v). k \<notin> fst ` set us) m"
proof (induction us arbitrary: m)
  case (Cons p us)
  then show ?case by (cases p) (auto simp: alist_delete_def case_prod_unfold intro!: filter_cong)
qed (simp add: case_prod_unfold)

lemma commit_access:
  assumes "alist_wf (updates s)"
  shows "map_of (meta_tbl (commitLastAccessedUpdates None (\<lambda>_. False) s)) k
      = (case map_of (updates s) k of None \<Rightarrow> map_of (meta_tbl s) k | Some x \<Rightarrow> Some (touch x (map_of (meta_tbl s) k)))"
    and "updates (commitLastAccessedUpdates None (\<lambda>_. False) s) = []"
  using assms fold_access_row[of "updates s" "meta_tbl s" k]
  by (auto simp: commitLastAccessedUpdates_def Let_def alist_wf_def case_prod_unfold fold_delete_all[unfolded case_prod_unfold] filter_empty_conv)

lemma access_worker_pending:
  "alist_wf (updates s) \<Longrightarrow> \<forall>ev \<in> set evs. commit_fails ev \<Longrightarrow>
   map_of (updates (startLastAccessedUpdateWorker evs s)) = fold posted evs (map_of (updates s))
   \<and> alist_wf (updates (startLastAccessedUpdateWorker evs s)) \<and> meta_tbl (startLastAccessedUpdateWorker evs s) = meta_tbl s"
proof (induction evs s rule: startLastAccessedUpdateWorker.induct)
  case (2 k t evs s)
  then show ?case by (simp add: alist_wf_update map_of_alist_update fun_upd_def)
next
  case (3 e bad evs s)
  then have "commitLastAccessedUpdates e bad s = s" by (auto simp: commitLastAccessedUpdates_def Let_def)
  with 3 show ?case by simp
qed simp

lemma access_worker_append: "startLastAccessedUpdateWorker (a @ b) s = startLastAccessedUpdateWorker b (startLastAccessedUpdateWorker a s)"
  by (induction a s rule: startLastAccessedUpdateWorker.induct) simp_all

section \<open>Paging\<close>

text \<open>The pages of the stale keys, taken one after the other, are all of them, each once.\<close>

lemma stale_pages:
  assumes "0 < sz"
  shows "\<exists>pages. list_all2 (\<lambda>n p. GetStaleDataInBatches None sz n t s = Inr p) [0..<N] pages
    \<and> concat pages = take (N * sz) (stale_keys t s)"
proof (induction N)
  case (Suc N)
  then obtain pages where p: "list_all2 (\<lambda>n p. GetStaleDataInBatches None sz n t s = Inr p) [0..<N] pages" "concat pages = take (N * sz) (stale_keys t s)"
    by blast
  let ?p = "take sz (drop (N * sz) (stale_keys t s))"
  have "concat (pages @ [?p]) = take (Suc N * sz) (stale_keys t s)" using p(2) by (simp add: take_add add.commute[of sz])
  moreover have "list_all2 (\<lambda>n p. GetStaleDataInBatches None sz n t s = Inr p) [0..<Suc N] (pages @ [?p])"
    using p(1) by (simp add: list_all2_appendI GetStaleDataInBatches_def)
  ultimately show ?case by blast
qed simp

lemma stale_count: "GetCountOfStaleData None t s = Inr n \<Longrightarrow> n \<le> N * sz \<Longrightarrow> take (N * sz) (stale_keys t s) = stale_keys t s"
  by (simp add: GetCountOfStaleData_def)

section \<open>Properties\<close>

text \<open>A remote for the witnesses: a map, in which a write always succeeds.\<close>

definition map_rcat :: "(string \<rightharpoonup> bytes) rcat_cmd" where
  "map_rcat p d r = (None, r(p \<mapsto> d))"

definition map_cat :: "(string \<rightharpoonup> bytes) cat_cmd" where
  "map_cat p r = (case r p of None \<Rightarrow> errorf ''object not found'' | Some d \<Rightarrow> Inr d)"

lemma map_remote_ok: "upload_ok (\<lambda>xs. xs) map_rcat map_cat" "never_fails map_rcat"
  by (auto simp: upload_ok_def rclone_ok_def map_rcat_def map_cat_def never_fails_def)

definition wit_row :: data_row where
  "wit_row = \<lparr>row_data = [1, 2, 3], datatype' = 0, is_original = True, row_createdAt = 0, row_updatedAt = 5, row_replicatedAt = None, is_on_cloud = False\<rparr>"

definition wit_local :: sqlite_store where
  "wit_local = \<lparr>data_tbl = [(hex_encode [7], wit_row)], replication_info = [], replication_keys = [], JobQueue = [], cloud_on = True,
     isSyncInProgress = False, updateChannel = [], insertChannel = []\<rparr>"

definition wit_keys :: "((string \<times> nat) \<times> mm_row) list" where
  "wit_keys = ((hex_encode [7], 1), \<lparr>is_migrated = None, mm_created_at = 0\<rparr>) #
     map (\<lambda>n. ((replicate n CHR ''x'', 1), \<lparr>is_migrated = None, mm_created_at = 0\<rparr>)) [0..<100]"

definition wit_migrations :: migration_store where
  "wit_migrations = \<lparr>meta_tbl = [], meta_migration = wit_keys, migration_tbl = [(1, \<lparr>migration_started_at = None, migration_finished_at = None\<rparr>)],
     migration_seq = 1, updates = [], inserts = []\<rparr>"

definition wit_env :: mig_env where
  "wit_env = \<lparr>me_pending = None, me_keys = (\<lambda>_. None), me_start = (\<lambda>_. None), me_left = (\<lambda>_. None), me_finish = (\<lambda>_. None),
     me_retrieve = (\<lambda>_. None), me_clear = (\<lambda>_. None), me_mark = (\<lambda>_. None), me_now = 9\<rparr>"

lemma wit_migrations_inv: "mig_inv wit_migrations"
proof -
  have "hex_encode [7] \<noteq> replicate n CHR ''x''" for n
  proof
    assume "hex_encode [7] = replicate n CHR ''x''"
    moreover have "hd (hex_encode [7]) = CHR ''0''" "n = 0 \<Longrightarrow> hex_encode [7] \<noteq> []" by code_simp+
    ultimately show False by (cases n) auto
  qed
  then have "distinct (map fst wit_keys)"
    by (auto simp: wit_keys_def o_def distinct_map inj_on_def)
  then show ?thesis by (auto simp: mig_inv_def no_false_def wit_migrations_def alist_wf_def wit_keys_def)
qed

lemma wit_migration_keys: "length (migration_keys 1 wit_migrations) = 101"
  by (simp add: migration_keys_def wit_migrations_def wit_keys_def filter_map o_def)

text \<open>C12. Moving values to the cloud loses nothing: whatever fails in a run of the migrations, the database, the
  uploads or their order, the run ends, and a value the local store returned before it is returned after it, from
  the row or from the cloud.\<close>

theorem migration_keeps_values:
  assumes "upload_ok order rcat cat" and "alist_wf (data_tbl st)" and "cloud_on st"
    and "fst (sq_Retrieve (cloud_Fetch cat c r) None key st) = Inr v"
  shows "\<exists>s' st' r'. checkAndExecuteMigration (UploadBatch order rcat c) env (s, st, r) = Some (s', st', r')
    \<and> fst (sq_Retrieve (cloud_Fetch cat c r') None key st') = Inr v"
proof -
  obtain s' st' r' where k: "checkAndExecuteMigration (UploadBatch order rcat c) env (s, st, r) = Some (s', st', r')" "keeps cat c (st, r) (st', r')"
    using run_keeps[OF assms(1,2)] by blast
  moreover have "cloud_on st'" using k(2) assms(3) by (simp add: keeps_def)
  ultimately show ?thesis using assms(3,4) by (auto simp: Retrieve_value_of keeps_def)
qed

theorem migration_keeps_values_witness:
  "\<exists>s' st' r'. checkAndExecuteMigration (UploadBatch (\<lambda>xs. xs) map_rcat (NewRcloneStorage ''b'' ''s'')) wit_env (wit_migrations, wit_local, Map.empty) = Some (s', st', r')
    \<and> fst (sq_Retrieve (cloud_Fetch map_cat (NewRcloneStorage ''b'' ''s'') r') None [7] st') = Inr [1, 2, 3]"
  by (rule migration_keeps_values[OF map_remote_ok(1)])
     (simp_all add: wit_local_def alist_wf_def sq_Retrieve_def wit_row_def PostAccessUpdate_def Let_def)

text \<open>A migration completes: with at least 100 keys and no failure, processing it returns no error, marks it as
  finished, and every key of it with a value of more than one byte in the local store is on the cloud.\<close>

theorem ProcessMigration_completes:
  assumes "upload_ok order rcat cat" and "never_fails rcat" and "env_ok env" and "alist_wf (data_tbl st)" and "mig_inv s"
    and "100 \<le> length (migration_keys (mig_ID mig) s)" and "map_of (migration_tbl s) (mig_ID mig) = Some m"
  shows "\<exists>s' st' r' m'. ProcessMigrationInBatches (UploadBatch order rcat c) env mig (s, st, r) = Some (None, s', st', r')
    \<and> map_of (migration_tbl s') (mig_ID mig) = Some m' \<and> migration_finished_at m' = Some (me_now env)
    \<and> (\<forall>k \<in> set (migration_keys (mig_ID mig) s). \<forall>row. map_of (data_tbl st) (mk_Key k) = Some row \<longrightarrow> 1 < length (row_data row) \<longrightarrow> migrated st' (mk_Key k))"
proof -
  have n: "minKeysToMigrate \<le> length (migration_keys (mig_ID mig) s)" using assms(6) by (simp add: minKeysToMigrate_def)
  obtain s2 st' r' where p: "ProcessMigrationInBatches (UploadBatch order rcat c) env mig (s, st, r)
      = Some (None, set_migration (mig_ID mig) (\<lambda>r. r\<lparr>migration_finished_at := Some (me_now env)\<rparr>) s2, st', r')"
      "migration_tbl s2 = migration_tbl (started env mig s)"
    using ProcessMigration_run[OF assms(1-5) n] by blast
  have "\<forall>k \<in> set (migration_keys (mig_ID mig) s). \<forall>row. map_of (data_tbl st) (mk_Key k) = Some row \<longrightarrow> 1 < length (row_data row) \<longrightarrow> migrated st' (mk_Key k)"
    using ProcessMigration_keeps[OF assms(1,4), of c env mig s r] p(1) n by auto
  with p show ?thesis using assms(7)
    by (auto simp: set_migration_def map_of_update_row started_def split: if_splits)
qed

theorem ProcessMigration_completes_witness:
  "\<exists>s' st' r' m'. ProcessMigrationInBatches (UploadBatch (\<lambda>xs. xs) map_rcat (NewRcloneStorage ''b'' ''s'')) wit_env
      \<lparr>mig_ID = 1, MigrationStartedAt = None\<rparr> (wit_migrations, wit_local, Map.empty) = Some (None, s', st', r')
    \<and> map_of (migration_tbl s') 1 = Some m' \<and> migration_finished_at m' = Some 9 \<and> migrated st' (hex_encode [7])"
proof -
  let ?m = "\<lparr>migration_started_at = None, migration_finished_at = None\<rparr>" and ?g = "\<lparr>mig_ID = 1, MigrationStartedAt = None\<rparr>"
  have w: "env_ok wit_env" "alist_wf (data_tbl wit_local)" "100 \<le> length (migration_keys (mig_ID ?g) wit_migrations)"
      "map_of (migration_tbl wit_migrations) (mig_ID ?g) = Some ?m"
    using wit_migration_keys by (simp_all add: env_ok_def wit_env_def wit_local_def wit_migrations_def alist_wf_def)
  have k: "\<lparr>mk_Key = hex_encode [7], IsMigrated = False\<rparr> \<in> set (migration_keys 1 wit_migrations)"
    by (simp add: migration_keys_def wit_migrations_def wit_keys_def)
  have l: "map_of (data_tbl wit_local) (hex_encode [7]) = Some wit_row" "1 < length (row_data wit_row)"
    by (simp_all add: wit_local_def wit_row_def)
  show ?thesis
    using ProcessMigration_completes[OF map_remote_ok w(1,2) wit_migrations_inv w(3,4), of "NewRcloneStorage ''b'' ''s''" Map.empty] k l
    by (fastforce simp: wit_env_def)
qed

text \<open>The first synchronisation of the meta table reads the whole local store and ends: after one turn per 5000
  rows and one more, the table has a row for exactly the keys of the store, with their size and time.\<close>

theorem syncMetaWithData_complete:
  assumes "meta_tbl s = []" and "alist_wf (data_tbl st)" and "\<forall>n. out n = Rows (\<lambda>_. False) True"
    and "length (data_tbl st) div 5000 + 1 < fuel"
  shows "\<exists>s'. syncMetaWithData fuel out st s = Some s' \<and> (\<forall>k. map_of (meta_tbl s') k =
    map_option (\<lambda>r. \<lparr>last_accessed = row_updatedAt r, access_count = 1, data_size = int (length (row_data r))\<rparr>) (map_of (data_tbl st) k))"
  using syncMeta_loop[OF assms(1-3)] assms(4) by (simp add: metaSyncBatchSize_def synced_def[abs_def])

theorem syncMetaWithData_complete_witness:
  "\<exists>s'. syncMetaWithData 2 (\<lambda>_. Rows (\<lambda>_. False) True) wit_local wit_migrations = Some s'
    \<and> map_of (meta_tbl s') (hex_encode [7]) = Some \<lparr>last_accessed = 5, access_count = 1, data_size = 3\<rparr>"
proof -
  obtain s' where "syncMetaWithData 2 (\<lambda>_. Rows (\<lambda>_. False) True) wit_local wit_migrations = Some s'"
      "\<forall>k. map_of (meta_tbl s') k = map_option (\<lambda>r. \<lparr>last_accessed = row_updatedAt r, access_count = 1, data_size = int (length (row_data r))\<rparr>) (map_of (data_tbl wit_local) k)"
    using syncMetaWithData_complete[of wit_migrations wit_local "\<lambda>_. Rows (\<lambda>_. False) True" 2] by (auto simp: wit_migrations_def wit_local_def alist_wf_def)
  then show ?thesis by (auto simp: wit_local_def wit_row_def)
qed

text \<open>The same loop has no way out when no transaction can be started: it repeats the turn at once and forever.\<close>

theorem syncMetaWithData_spins:
  "syncMetaWithData fuel (\<lambda>_. NoTransaction) st s = None"
  by (simp add: syncMetaWithData_def sync_loop_stuck)

text \<open>Accesses are not lost to failed commits: whatever messages arrive and however often the commit fails, the
  next commit that succeeds writes for every accessed key the time of its last access, counts one access, and
  leaves nothing pending.\<close>

theorem access_updates_survive:
  assumes "alist_wf (updates s)" and "\<forall>ev \<in> set evs. commit_fails ev"
  shows "updates (startLastAccessedUpdateWorker (evs @ [AccessTick None (\<lambda>_. False)]) s) = []
    \<and> map_of (meta_tbl (startLastAccessedUpdateWorker (evs @ [AccessTick None (\<lambda>_. False)]) s)) k =
       (case fold posted evs (map_of (updates s)) k of
          None \<Rightarrow> map_of (meta_tbl s) k
        | Some t \<Rightarrow> Some (touch t (map_of (meta_tbl s) k)))"
  using access_worker_pending[OF assms] by (simp add: access_worker_append commit_access split: option.split)

theorem access_updates_survive_witness:
  "map_of (meta_tbl (startLastAccessedUpdateWorker ([AccessMsg ''k'' 1, AccessTick (Some ''locked'') (\<lambda>_. False), AccessMsg ''k'' 2]
      @ [AccessTick None (\<lambda>_. False)]) wit_migrations)) ''k'' = Some \<lparr>last_accessed = 2, access_count = 1, data_size = 0\<rparr>"
  using access_updates_survive[of wit_migrations "[AccessMsg ''k'' 1, AccessTick (Some ''locked'') (\<lambda>_. False), AccessMsg ''k'' 2]" "''k''"]
  by (simp add: wit_migrations_def alist_wf_def touch_def del: startLastAccessedUpdateWorker.simps)

end
