(* ===== verification/Symbols.thy ===== *)
theory Symbols
  imports Batch_Store
begin

text \<open>
  The worker that brings the symbols of a file to the network (\<^verbatim>\<open>p2p/kademlia/rq_symbols.go\<close>), the table of
  symbol directories it works off (\<^verbatim>\<open>pkg/storage/rqstore/store.go\<close>), and the directory functions of
  \<^verbatim>\<open>pkg/utils/utils.go\<close> it calls.  The file system is a list of files by their path and the names of the
  subdirectories; paths are clean, so that joining them is joining with a slash.  \<open>fs_denied\<close> are the paths the system
  refuses to read, \<open>fs_kept\<close> those it refuses to remove.
\<close>

section \<open>Files\<close>

record fs =
  fs_files :: "(string \<times> bytes) list"
  fs_subdirs :: "string \<Rightarrow> string list"
  fs_denied :: "string list"
  fs_kept :: "string list"

definition path_join :: "string \<Rightarrow> string \<Rightarrow> string" where
  "path_join a b = a @ ''/'' @ b"

definition file_name :: "string \<Rightarrow> string \<Rightarrow> string option" where
  "file_name d p = (let n = drop (length d + 1) p in if p = path_join d n \<and> CHR ''/'' \<notin> set n then Some n else None)"

definition ReadDir :: "fs \<Rightarrow> string \<Rightarrow> (string \<times> bool) list result" where
  "ReadDir f d =
     (if d \<in> set (fs_denied f) then errorf ''permission denied''
      else Inr (map (\<lambda>n. (n, True)) (fs_subdirs f d) @ map (\<lambda>n. (n, False)) (List.map_filter (\<lambda>(p, _). file_name d p) (fs_files f))))"

definition ReadFile :: "fs \<Rightarrow> string \<Rightarrow> bytes result" where
  "ReadFile f p =
     (if p \<in> set (fs_denied f) then errorf ''permission denied''
      else case map_of (fs_files f) p of None \<Rightarrow> errorf ''no such file or directory'' | Some d \<Rightarrow> Inr d)"

definition layout_file :: string where "layout_file = ''_raptorq_layout.json''"

fun read_entries :: "fs \<Rightarrow> string \<Rightarrow> (string \<times> bool) list \<Rightarrow> string list result" where
  "read_entries f dirPath [] = Inr []"
| "read_entries f dirPath ((n, isDir) # es) =
     (if \<not> isDir then
        (case read_entries f dirPath es of Inl m \<Rightarrow> Inl m | Inr ks \<Rightarrow> Inr (if n = layout_file then ks else n # ks))
      else
        (case ReadDir f (path_join dirPath n) of
           Inl m \<Rightarrow> errorf (''read '' @ path_join dirPath n @ '': '' @ m)
         | Inr files \<Rightarrow>
             (case read_entries f dirPath es of
                Inl m \<Rightarrow> Inl m
              | Inr ks \<Rightarrow> Inr (map (\<lambda>(k, _). path_join n k) (filter (\<lambda>(k, sub). \<not> (sub \<or> k = layout_file)) files) @ ks))))"

definition ReadDirFilenames :: "fs \<Rightarrow> string \<Rightarrow> string list result" where
  "ReadDirFilenames f dirPath =
     (case ReadDir f dirPath of
        Inl m \<Rightarrow> errorf (''read base dir: '' @ m)
      | Inr entries \<Rightarrow> (case read_entries f dirPath entries of Inl m \<Rightarrow> Inl m | Inr ks \<Rightarrow> Inr (remdups ks)))"

fun LoadSymbols :: "fs \<Rightarrow> string \<Rightarrow> string list \<Rightarrow> bytes list result" where
  "LoadSymbols f dir [] = Inr []"
| "LoadSymbols f dir (k # ks) =
     (case ReadFile f (path_join dir k) of
        Inl m \<Rightarrow> errorf (''failed to read file '' @ path_join dir k @ '': '' @ m)
      | Inr d \<Rightarrow> (case LoadSymbols f dir ks of Inl m \<Rightarrow> Inl m | Inr ds \<Rightarrow> Inr (d # ds)))"

text \<open>A file that cannot be removed is only logged.\<close>

definition DeleteSymbols :: "string \<Rightarrow> string list \<Rightarrow> fs \<Rightarrow> fs" where
  "DeleteSymbols dir keys f =
     fold (\<lambda>k f. if path_join dir k \<in> set (fs_kept f) then f else f\<lparr>fs_files := alist_delete (path_join dir k) (fs_files f)\<rparr>) keys f"

section \<open>The table of directories\<close>

record symbol_row =
  sym_dir :: string
  is_first_batch_stored :: bool
  is_completed :: bool

type_synonym rq_store = "(string \<times> symbol_row) list"

definition StoreSymbolDirectory :: "string option \<Rightarrow> string \<Rightarrow> string \<Rightarrow> rq_store \<Rightarrow> string option \<times> rq_store" where
  "StoreSymbolDirectory e txid dir q =
     (case e of
        Some m \<Rightarrow> (Some m, q)
      | None \<Rightarrow>
          if map_of q txid \<noteq> None then (Some ''failed to execute insert statement for directory: UNIQUE constraint failed'', q)
          else (None, q @ [(txid, \<lparr>sym_dir = dir, is_first_batch_stored = False, is_completed = False\<rparr>)]))"

definition GetDirectoryByTxID :: "string option \<Rightarrow> string \<Rightarrow> rq_store \<Rightarrow> string result" where
  "GetDirectoryByTxID e txid q =
     (case (e, map_of q txid) of
        (Some m, _) \<Rightarrow> errorf (''failed to retrieve directory for txid '' @ txid @ '': '' @ m)
      | (None, None) \<Rightarrow> errorf (''failed to retrieve directory for txid '' @ txid @ '': sql: no rows in result set'')
      | (None, Some r) \<Rightarrow> Inr (sym_dir r))"

definition GetToDoStoreSymbolDirs :: "string option \<Rightarrow> rq_store \<Rightarrow> (string \<times> string) list result" where
  "GetToDoStoreSymbolDirs e q =
     (case e of
        Some m \<Rightarrow> errorf (''failed to retrieve symbol directories: '' @ m)
      | None \<Rightarrow> Inr (map (\<lambda>(t, r). (t, sym_dir r)) (filter (\<lambda>(t, r). is_first_batch_stored r \<and> \<not> is_completed r) q)))"

definition UpdateIsFirstBatchStored :: "string option \<Rightarrow> string \<Rightarrow> rq_store \<Rightarrow> string option \<times> rq_store" where
  "UpdateIsFirstBatchStored e txid q =
     (case e of Some m \<Rightarrow> (Some (''failed to execute update statement: '' @ m), q)
      | None \<Rightarrow> (None, update_row (\<lambda>t. t = txid) (\<lambda>r. r\<lparr>is_first_batch_stored := True\<rparr>) q))"

definition SetIsCompleted :: "string option \<Rightarrow> string \<Rightarrow> rq_store \<Rightarrow> string option \<times> rq_store" where
  "SetIsCompleted e txid q =
     (case e of Some m \<Rightarrow> (Some (''failed to execute update statement: '' @ m), q)
      | None \<Rightarrow> (None, update_row (\<lambda>t. t = txid) (\<lambda>r. r\<lparr>is_completed := True\<rparr>) q))"

text \<open>\<^verbatim>\<open>DeleteSymbolsByTxID\<close> names a table \<^verbatim>\<open>rq_symbols\<close> that nothing creates: the statement cannot be prepared.\<close>

definition DeleteSymbolsByTxID :: "string \<Rightarrow> rq_store \<Rightarrow> string option \<times> rq_store" where
  "DeleteSymbolsByTxID txid q = (Some ''failed to prepare delete statement: no such table: rq_symbols'', q)"

section \<open>The worker\<close>

definition loadSymbolsBatchSize :: nat where "loadSymbolsBatchSize = 1000"

type_synonym sym_state = "dht \<times> fs"

definition storeSymbolsInP2P :: "env \<Rightarrow> nat \<Rightarrow> string \<Rightarrow> string list \<Rightarrow> sym_state \<Rightarrow> (string option \<times> sym_state) run" where
  "storeSymbolsInP2P E fuel dir keys w = (case w of (s, f) \<Rightarrow>
     (case LoadSymbols f dir keys of
        Inl m \<Rightarrow> Finished (Some (''load symbols: '' @ m), s, f)
      | Inr loaded \<Rightarrow>
          (case dht_StoreBatch E fuel loaded 1 s of
             Crashed \<Rightarrow> Crashed
           | Running \<Rightarrow> Running
           | Finished (Some m, s1) \<Rightarrow> Finished (Some (''p2p store batch: '' @ m), s1, f)
           | Finished (None, s1) \<Rightarrow> Finished (None, s1, DeleteSymbols dir keys f))))"

fun store_batches :: "env \<Rightarrow> nat \<Rightarrow> string \<Rightarrow> string list list \<Rightarrow> sym_state \<Rightarrow> (string option \<times> sym_state) run" where
  "store_batches E fuel dir [] w = Finished (None, w)"
| "store_batches E fuel dir (b # bs) w =
     (case storeSymbolsInP2P E fuel dir b w of
        Finished (None, w') \<Rightarrow> store_batches E fuel dir bs w'
      | r \<Rightarrow> r)"

definition scanDirAndStoreSymbols ::
  "env \<Rightarrow> nat \<Rightarrow> string \<Rightarrow> string \<Rightarrow> sym_state \<times> rq_store \<Rightarrow> (string option \<times> sym_state \<times> rq_store) run" where
  "scanDirAndStoreSymbols E fuel dir txid W = (case W of (w, q) \<Rightarrow>
     (case ReadDirFilenames (snd w) dir of
        Inl m \<Rightarrow> Finished (Some (''read dir filenames: '' @ m), w, q)
      | Inr keySet \<Rightarrow>
          (case store_batches E fuel dir (chunks loadSymbolsBatchSize (sort keySet)) w of
             Crashed \<Rightarrow> Crashed
           | Running \<Rightarrow> Running
           | Finished (Some m, w') \<Rightarrow> Finished (Some m, w', q)
           | Finished (None, w') \<Rightarrow>
               (case SetIsCompleted (dberr E ''SetIsCompleted'') txid q of
                  (Some m, q') \<Rightarrow> Finished (Some (''set is-completed: '' @ m), w', q')
                | (None, q') \<Rightarrow> Finished (None, w', q')))))"

fun store_dirs :: "env \<Rightarrow> nat \<Rightarrow> (string \<times> string) list \<Rightarrow> sym_state \<times> rq_store \<Rightarrow> (sym_state \<times> rq_store) run" where
  "store_dirs E fuel [] W = Finished W"
| "store_dirs E fuel ((txid, dir) # ds) W =
     (case scanDirAndStoreSymbols E fuel dir txid W of
        Finished (_, W') \<Rightarrow> store_dirs E fuel ds W'
      | Crashed \<Rightarrow> Crashed
      | Running \<Rightarrow> Running)"

definition storeSymbols :: "env \<Rightarrow> nat \<Rightarrow> sym_state \<times> rq_store \<Rightarrow> (string option \<times> sym_state \<times> rq_store) run" where
  "storeSymbols E fuel W =
     (case GetToDoStoreSymbolDirs (dberr E ''GetToDoStoreSymbolDirs'') (snd W) of
        Inl m \<Rightarrow> Finished (Some (''get to do store symbol dirs: '' @ m), W)
      | Inr dirs \<Rightarrow>
          (case store_dirs E fuel dirs W of Finished W' \<Rightarrow> Finished (None, W') | Crashed \<Rightarrow> Crashed | Running \<Rightarrow> Running))"

section \<open>Lemmas\<close>

lemma DeleteSymbols_files:
  "map_of (fs_files (DeleteSymbols dir keys f)) p =
     (if p \<in> path_join dir ` set keys \<and> p \<notin> set (fs_kept f) then None else map_of (fs_files f) p)"
  "fs_kept (DeleteSymbols dir keys f) = fs_kept f" "fs_denied (DeleteSymbols dir keys f) = fs_denied f"
proof (induction keys arbitrary: f)
  case (Cons k ks)
  { case 1 show ?case using Cons(1)[of f] Cons(1)[of "f\<lparr>fs_files := alist_delete (path_join dir k) (fs_files f)\<rparr>"]
      by (simp add: DeleteSymbols_def map_of_alist_delete) }
  { case 2 show ?case using Cons(2)[of f] Cons(2)[of "f\<lparr>fs_files := alist_delete (path_join dir k) (fs_files f)\<rparr>"] by (simp add: DeleteSymbols_def) }
  { case 3 show ?case using Cons(3)[of f] Cons(3)[of "f\<lparr>fs_files := alist_delete (path_join dir k) (fs_files f)\<rparr>"] by (simp add: DeleteSymbols_def) }
qed (simp_all add: DeleteSymbols_def)

lemma LoadSymbols_values:
  "LoadSymbols f dir ks = Inr ds \<Longrightarrow> k \<in> set ks \<Longrightarrow> \<exists>v. map_of (fs_files f) (path_join dir k) = Some v \<and> v \<in> set ds"
  by (induction ks arbitrary: ds) (fastforce simp: ReadFile_def split: sum.splits option.splits if_splits)+

text \<open>A file of the directory is stored in a run over the given batches: after the batches before it were worked off, the
  file was still there, its content was one of the values of a batch store, and that store succeeded.\<close>

definition stored_in_run :: "env \<Rightarrow> nat \<Rightarrow> string \<Rightarrow> string list list \<Rightarrow> dht \<Rightarrow> fs \<Rightarrow> string \<Rightarrow> bytes \<Rightarrow> bool" where
  "stored_in_run E fuel dir bs s f p v \<longleftrightarrow>
     (\<exists>pre b post s1 f1 vals s2. bs = pre @ b # post \<and> p \<in> path_join dir ` set b \<and>
        store_batches E fuel dir pre (s, f) = Finished (None, s1, f1) \<and> map_of (fs_files f1) p = Some v \<and>
        LoadSymbols f1 dir b = Inr vals \<and> v \<in> set vals \<and> dht_StoreBatch E fuel vals 1 s1 = Finished (None, s2))"

lemma stored_in_run_Cons:
  assumes "storeSymbolsInP2P E fuel dir b (s, f) = Finished (None, s1, f1)" "stored_in_run E fuel dir bs s1 f1 p v"
  shows "stored_in_run E fuel dir (b # bs) s f p v"
proof -
  from assms(2) obtain pre c post s2 f2 vals s3 where r: "bs = pre @ c # post" "p \<in> path_join dir ` set c"
    "store_batches E fuel dir pre (s1, f1) = Finished (None, s2, f2)" "map_of (fs_files f2) p = Some v"
    "LoadSymbols f2 dir c = Inr vals" "v \<in> set vals" "dht_StoreBatch E fuel vals 1 s2 = Finished (None, s3)"
    unfolding stored_in_run_def by blast
  then show ?thesis unfolding stored_in_run_def using assms(1)
    by (intro exI[of _ "b # pre"] exI[of _ c] exI[of _ post] exI[of _ s2] exI[of _ f2] exI[of _ vals] exI[of _ s3]) simp
qed

lemma storeSymbolsInP2P_safe:
  assumes "storeSymbolsInP2P E fuel dir keys (s, f) = Finished (err, s', f')"
  shows "map_of (fs_files f') p = map_of (fs_files f) p \<or>
      (\<exists>v. map_of (fs_files f) p = Some v \<and> map_of (fs_files f') p = None \<and> stored_in_run E fuel dir (keys # bs) s f p v)"
    and "err = None \<Longrightarrow> f' = DeleteSymbols dir keys f" and "err \<noteq> None \<Longrightarrow> f' = f"
proof -
  have c: "f' = f \<and> err \<noteq> None \<or> f' = DeleteSymbols dir keys f \<and> err = None \<and> (\<exists>ds s1. LoadSymbols f dir keys = Inr ds \<and> dht_StoreBatch E fuel ds 1 s = Finished (None, s1))"
    using assms by (auto simp: storeSymbolsInP2P_def split: sum.splits run.splits option.splits)
  then show "err = None \<Longrightarrow> f' = DeleteSymbols dir keys f" "err \<noteq> None \<Longrightarrow> f' = f" by auto
  show "map_of (fs_files f') p = map_of (fs_files f) p \<or>
      (\<exists>v. map_of (fs_files f) p = Some v \<and> map_of (fs_files f') p = None \<and> stored_in_run E fuel dir (keys # bs) s f p v)"
  proof (cases "err = None \<and> p \<in> path_join dir ` set keys \<and> p \<notin> set (fs_kept f)")
    case True
    then obtain ds s1 where d: "f' = DeleteSymbols dir keys f" "LoadSymbols f dir keys = Inr ds" "dht_StoreBatch E fuel ds 1 s = Finished (None, s1)"
      using c by blast
    obtain k where "k \<in> set keys" "p = path_join dir k" using True by blast
    then obtain v where v: "map_of (fs_files f) p = Some v" "v \<in> set ds" using LoadSymbols_values[OF d(2)] by blast
    have "stored_in_run E fuel dir (keys # bs) s f p v"
      unfolding stored_in_run_def using True v d(2,3)
      by (intro exI[of _ "[]"] exI[of _ keys] exI[of _ bs] exI[of _ s] exI[of _ f] exI[of _ ds] exI[of _ s1]) simp
    then show ?thesis using v(1) True by (simp add: d(1) DeleteSymbols_files(1))
  next
    case False
    then have "map_of (fs_files f') p = map_of (fs_files f) p" using c by (cases "err = None") (auto simp: DeleteSymbols_files(1))
    then show ?thesis ..
  qed
qed

lemma store_batches_safe:
  "store_batches E fuel dir bs (s, f) = Finished (err, s', f') \<Longrightarrow>
   (map_of (fs_files f') p = map_of (fs_files f) p \<or>
      (\<exists>v. map_of (fs_files f) p = Some v \<and> map_of (fs_files f') p = None \<and> stored_in_run E fuel dir bs s f p v))
   \<and> fs_kept f' = fs_kept f
   \<and> (err = None \<longrightarrow> p \<in> path_join dir ` set (concat bs) \<longrightarrow> p \<notin> set (fs_kept f) \<longrightarrow> map_of (fs_files f') p = None)"
proof (induction bs arbitrary: s f)
  case (Cons b bs)
  obtain e1 s1 f1 where 1: "storeSymbolsInP2P E fuel dir b (s, f) = Finished (e1, s1, f1)"
    using Cons.prems by (auto split: run.splits)
  note S = storeSymbolsInP2P_safe(1)[OF 1, of p bs] storeSymbolsInP2P_safe(2,3)[OF 1]
  show ?case
  proof (cases e1)
    case None
    then have f1: "f1 = DeleteSymbols dir b f" by (rule S(2))
    have IH: "map_of (fs_files f') p = map_of (fs_files f1) p \<or>
          (\<exists>v. map_of (fs_files f1) p = Some v \<and> map_of (fs_files f') p = None \<and> stored_in_run E fuel dir bs s1 f1 p v)"
        "fs_kept f' = fs_kept f1" "err = None \<Longrightarrow> p \<in> path_join dir ` set (concat bs) \<Longrightarrow> p \<notin> set (fs_kept f1) \<Longrightarrow> map_of (fs_files f') p = None"
      using Cons.IH[of s1 f1] Cons.prems 1 None by auto
    have gone: "map_of (fs_files f') p = None" if "p \<in> path_join dir ` set b" "p \<notin> set (fs_kept f)"
      using IH(1) that by (auto simp: f1 DeleteSymbols_files)
    have run: "stored_in_run E fuel dir (b # bs) s f p v" if "stored_in_run E fuel dir bs s1 f1 p v" for v
      using stored_in_run_Cons[OF 1[unfolded None] that] .
    have k: "fs_kept f1 = fs_kept f" by (simp add: f1 DeleteSymbols_files)
    have "map_of (fs_files f') p = map_of (fs_files f) p \<or>
      (\<exists>v. map_of (fs_files f) p = Some v \<and> map_of (fs_files f') p = None \<and> stored_in_run E fuel dir (b # bs) s f p v)"
    proof (cases "map_of (fs_files f1) p = map_of (fs_files f) p")
      case True
      then show ?thesis using IH(1) run by metis
    next
      case False
      then have "map_of (fs_files f1) p = None" using S(1) by auto
      then have "map_of (fs_files f') p = None" using IH(1) by simp
      then show ?thesis using False S(1) by metis
    qed
    then show ?thesis using IH(2,3) gone k by auto
  next
    case (Some m)
    then have "f1 = f" using S(3) by simp
    then show ?thesis using Cons.prems 1 Some by auto
  qed
qed simp

text \<open>C13. Symbols are not lost on their way to the network.  Whatever happens while a directory is worked off, a file that is
  there at the start is there at the end with the same content, or it was removed after a batch store of this very run, in
  the state that the batches before it had left, took its content and succeeded.  When the scan succeeds, every symbol
  file found is gone (but those the system does not remove) and the directory is marked as completed.\<close>

theorem scan_stores_before_delete:
  assumes "scanDirAndStoreSymbols E fuel dir txid ((s, f), q) = Finished (err, (s', f'), q')"
  shows "(\<forall>p v. map_of (fs_files f) p = Some v \<longrightarrow> map_of (fs_files f') p = Some v \<or>
        (map_of (fs_files f') p = None \<and> (\<exists>keys. ReadDirFilenames f dir = Inr keys \<and>
           stored_in_run E fuel dir (chunks loadSymbolsBatchSize (sort keys)) s f p v)))
    \<and> (err = None \<longrightarrow> (\<exists>keys. ReadDirFilenames f dir = Inr keys
        \<and> (\<forall>k \<in> set keys. path_join dir k \<notin> set (fs_kept f) \<longrightarrow> map_of (fs_files f') (path_join dir k) = None))
        \<and> map_of q' txid = map_option (\<lambda>r. r\<lparr>is_completed := True\<rparr>) (map_of q txid))"
proof (cases "ReadDirFilenames f dir")
  case (Inl m)
  then show ?thesis using assms by (auto simp: scanDirAndStoreSymbols_def)
next
  case (Inr keys)
  then obtain e1 where b: "store_batches E fuel dir (chunks loadSymbolsBatchSize (sort keys)) (s, f) = Finished (e1, s', f')"
      "e1 = None \<or> e1 = err" "err = None \<longrightarrow> e1 = None \<and> SetIsCompleted (dberr E ''SetIsCompleted'') txid q = (None, q')"
    using assms by (fastforce simp: scanDirAndStoreSymbols_def split: run.splits option.splits prod.splits)
  have "0 < loadSymbolsBatchSize" by (simp add: loadSymbolsBatchSize_def)
  then have c: "set (concat (chunks loadSymbolsBatchSize (sort keys))) = set keys" by (simp only: concat_chunks set_sort)
  note S = store_batches_safe[OF b(1), unfolded c]
  have gone: "map_of (fs_files f') (path_join dir k) = None" if "err = None" "k \<in> set keys" "path_join dir k \<notin> set (fs_kept f)" for k
    using S[of "path_join dir k"] b(3) that by blast
  have kept: "map_of (fs_files f') p = Some v \<or> map_of (fs_files f') p = None \<and>
      stored_in_run E fuel dir (chunks loadSymbolsBatchSize (sort keys)) s f p v" if "map_of (fs_files f) p = Some v" for p v
    using S[of p] that by auto
  have flag: "err = None \<Longrightarrow> map_of q' txid = map_option (\<lambda>r. r\<lparr>is_completed := True\<rparr>) (map_of q txid)"
    using b(3) by (auto simp: SetIsCompleted_def map_of_update_row split: option.splits)
  show ?thesis
  proof (intro conjI allI impI)
    fix p v
    assume "map_of (fs_files f) p = Some v"
    then show "map_of (fs_files f') p = Some v \<or> (map_of (fs_files f') p = None \<and> (\<exists>keys. ReadDirFilenames f dir = Inr keys \<and>
           stored_in_run E fuel dir (chunks loadSymbolsBatchSize (sort keys)) s f p v))" using kept Inr by metis
  qed (use gone flag Inr in auto)
qed

definition wit_fs :: fs where
  "wit_fs = \<lparr>fs_files = [], fs_subdirs = (\<lambda>_. []), fs_denied = [], fs_kept = []\<rparr>"

definition wit_dir :: fs where
  "wit_dir = wit_fs\<lparr>fs_files := [(''d/a'', [1])]\<rparr>"

theorem scan_stores_before_delete_witness:
  "\<exists>s' f' q'. scanDirAndStoreSymbols (wit_batch_env wit_ack) 1 ''d'' ''t'' ((wit_one_node, wit_dir), [(''t'', \<lparr>sym_dir = ''d'', is_first_batch_stored = True, is_completed = False\<rparr>)])
      = Finished (None, (s', f'), q')
    \<and> map_of (fs_files f') ''d/a'' = None \<and> stored_in_run (wit_batch_env wit_ack) 1 ''d'' [[''a'']] wit_one_node wit_dir ''d/a'' [1]
    \<and> map_of q' ''t'' = Some \<lparr>sym_dir = ''d'', is_first_batch_stored = True, is_completed = True\<rparr>"
proof -
  let ?E = "wit_batch_env wit_ack"
  have db: "dberr ?E x = None" for x by (simp add: wit_batch_env_def wit_env_def)
  obtain st where st: "sq_StoreBatch None [[1]] 1 True (dht_store wit_one_node) = (None, st)" by (simp add: sq_StoreBatch_def enqueue_def)
  obtain s1 where s1: "dht_StoreBatch ?E 1 [[1]] 1 wit_one_node = Finished (None, s1)"
    using wit_store[of 1 st] st by (auto simp: dht_StoreBatch_def db)
  have k: "ReadDirFilenames wit_dir ''d'' = Inr [''a'']"
    by (simp add: ReadDirFilenames_def ReadDir_def wit_dir_def wit_fs_def List.map_filter_def file_name_def path_join_def layout_file_def Let_def)
  have c: "chunks loadSymbolsBatchSize (sort [''a'']) = [[''a'']]" by (simp add: chunks_Cons loadSymbolsBatchSize_def)
  have p: "storeSymbolsInP2P ?E 1 ''d'' [''a''] (wit_one_node, wit_dir) = Finished (None, s1, DeleteSymbols ''d'' [''a''] wit_dir)"
    using s1 by (simp add: storeSymbolsInP2P_def wit_dir_def wit_fs_def ReadFile_def path_join_def)
  obtain s' f' q' where r: "scanDirAndStoreSymbols ?E 1 ''d'' ''t'' ((wit_one_node, wit_dir), [(''t'', \<lparr>sym_dir = ''d'', is_first_batch_stored = True, is_completed = False\<rparr>)])
      = Finished (None, (s', f'), q')"
    using p c by (simp add: scanDirAndStoreSymbols_def k SetIsCompleted_def db)
  note T = scan_stores_before_delete[OF r]
  have "map_of (fs_files wit_dir) ''d/a'' = Some [1]" "fs_kept wit_dir = []" by (simp_all add: wit_dir_def wit_fs_def)
  then show ?thesis using T r k c by (fastforce simp: path_join_def)
qed

end
