(* ===== verification/Addresses.thy ===== *)
theory Addresses
  imports Go_Lib
begin

text \<open>
  Lumera addresses \<^verbatim>\<open>identity@host:port\<close> (\<^verbatim>\<open>pkg/net/credentials/address_helper.go\<close>), with
  \<^verbatim>\<open>net.SplitHostPort\<close> of the Go library.
\<close>

section \<open>net.SplitHostPort\<close>

text \<open>\<^verbatim>\<open>bytealg.LastIndexByteString\<close> and \<^verbatim>\<open>IndexByteString\<close>.\<close>

definition index_byte :: "char \<Rightarrow> string \<Rightarrow> nat option" where
  "index_byte c s = find_index ((=) c) s"

definition last_index :: "char \<Rightarrow> string \<Rightarrow> nat option" where
  "last_index c s = map_option (\<lambda>i. length s - 1 - i) (find_index ((=) c) (rev s))"

definition addr_err :: "string \<Rightarrow> string \<Rightarrow> 'a result" where
  "addr_err addr why = errorf (''address '' @ addr @ '': '' @ why)"

definition SplitHostPort :: "string \<Rightarrow> (string \<times> string) result" where
  "SplitHostPort hostport =
     (case last_index CHR '':'' hostport of
        None \<Rightarrow> addr_err hostport ''missing port in address''
      | Some i \<Rightarrow>
          let parsed =
            (if hostport ! 0 = CHR ''['' then
               (case index_byte CHR '']'' hostport of
                  None \<Rightarrow> Inl ''missing ']' in address''
                | Some e \<Rightarrow>
                    if e + 1 = length hostport then Inl ''missing port in address''
                    else if e + 1 = i then Inr (take (e - 1) (drop 1 hostport), 1, e + 1)
                    else if hostport ! (e + 1) = CHR '':'' then Inl ''too many colons in address''
                    else Inl ''missing port in address'')
             else if index_byte CHR '':'' (take i hostport) \<noteq> None then Inl ''too many colons in address''
             else Inr (take i hostport, 0, 0))
          in case parsed of
               Inl why \<Rightarrow> addr_err hostport why
             | Inr (host, j, k) \<Rightarrow>
                 if index_byte CHR ''['' (drop j hostport) \<noteq> None then addr_err hostport ''unexpected '[' in address''
                 else if index_byte CHR '']'' (drop k hostport) \<noteq> None then addr_err hostport ''unexpected ']' in address''
                 else Inr (host, drop (i + 1) hostport))"

section \<open>Addresses\<close>

record lumera_address =
  Identity :: string
  Host :: string
  addr_Port :: u16

definition address_String :: "lumera_address \<Rightarrow> string" where
  "address_String a = Identity a @ ''@'' @ Host a @ '':'' @ itoa (unat (addr_Port a))"

definition HostPort :: "lumera_address \<Rightarrow> string" where
  "HostPort a = Host a @ '':'' @ itoa (unat (addr_Port a))"

text \<open>\<^verbatim>\<open>strings.SplitN(address, "@", 2)\<close>: at the first \<^verbatim>\<open>@\<close>.\<close>

definition ExtractIdentity :: "string \<Rightarrow> bool \<Rightarrow> (string \<times> string) result" where
  "ExtractIdentity address identityRequired =
     (case index_byte CHR ''@'' address of
        None \<Rightarrow>
          if identityRequired then errorf (''identity required but not found in address: '' @ address)
          else Inr ('''', address)
      | Some i \<Rightarrow>
          let identity = take i address; standardAddress = drop (i + 1) address in
          if identity = '''' then errorf (''empty identity found in address: '' @ address)
          else if standardAddress = '''' then errorf (''missing address in: '' @ address)
          else Inr (identity, standardAddress))"

definition ParseLumeraAddress :: "string \<Rightarrow> lumera_address result" where
  "ParseLumeraAddress address =
     (case ExtractIdentity address True of
        Inl m \<Rightarrow> errorf (''failed to extract identity: '' @ m)
      | Inr (identity, remainder) \<Rightarrow>
          (case SplitHostPort remainder of
             Inl m \<Rightarrow> errorf (''invalid host:port format: '' @ m)
           | Inr (host, portStr) \<Rightarrow>
               if host = '''' then errorf (''missing host in address: '' @ address)
               else case parse_uint 16 portStr of
                 Inl _ \<Rightarrow> errorf (''invalid port number: '' @ portStr)
               | Inr p \<Rightarrow> Inr \<lparr>Identity = identity, Host = host, addr_Port = word_of_nat p\<rparr>))"

definition IsLumeraAddressFormat :: "string \<Rightarrow> bool" where
  "IsLumeraAddressFormat address = (index_byte CHR ''@'' address \<noteq> None)"

definition FormatAddressWithIdentity :: "string \<Rightarrow> string \<Rightarrow> string" where
  "FormatAddressWithIdentity identity address = identity @ ''@'' @ address"

section \<open>Lemmas\<close>

lemma index_byte_None: "index_byte c s = None \<longleftrightarrow> c \<notin> set s"
  by (auto simp: index_byte_def find_index_None)

lemma find_index_first: "\<forall>x \<in> set a. \<not> P x \<Longrightarrow> P c \<Longrightarrow> find_index P (a @ c # b) = Some (length a)"
  by (induction a) auto

lemma index_byte_first: "c \<notin> set a \<Longrightarrow> index_byte c (a @ c # b) = Some (length a)"
  by (auto simp: index_byte_def intro!: find_index_first)

lemma last_index_last:
  assumes "c \<notin> set b"
  shows "last_index c (a @ c # b) = Some (length a)"
proof -
  have "find_index ((=) c) (rev b @ c # rev a) = Some (length b)"
    using assms find_index_first[of "rev b" "(=) c" c "rev a"] by fastforce
  then show ?thesis by (simp add: last_index_def)
qed

lemma last_index_None: "last_index c s = None \<longleftrightarrow> c \<notin> set s"
  by (auto simp: last_index_def find_index_None)

lemma last_index_Some:
  assumes "last_index c s = Some i"
  shows "i < length s" and "s ! i = c" and "c \<notin> set (drop (i + 1) s)"
proof -
  obtain k where k: "find_index ((=) c) (rev s) = Some k" "i = length s - 1 - k" using assms by (auto simp: last_index_def)
  note F = find_index_Some[OF k(1)]
  then show "i < length s" "s ! i = c" using k(2) by (auto simp: rev_nth)
  show "c \<notin> set (drop (i + 1) s)"
  proof
    assume "c \<in> set (drop (i + 1) s)"
    then obtain m where m: "m < length s - (i + 1)" "s ! (i + 1 + m) = c" by (auto simp: in_set_conv_nth)
    let ?j = "length s - 1 - (i + 1 + m)"
    have l: "i + 1 + m < length s" using m(1) by simp
    then have "length s - Suc ?j = i + 1 + m" "?j < length s" by auto
    then have "rev s ! ?j = s ! (i + 1 + m)" by (simp add: rev_nth)
    moreover have "?j < k" using l k(2) F by auto
    ultimately show False using F m(2) by metis
  qed
qed

lemma itoa_no_char: "digit_val c = None \<Longrightarrow> c \<notin> set (itoa n)"
  using itoa_digits by blast

lemma colon_bracket_no_digit: "digit_val CHR '':'' = None" "digit_val CHR ''['' = None" "digit_val CHR '']'' = None"
  by code_simp+

lemma SplitHostPort_HostPort:
  assumes "h \<noteq> ''''" and "CHR '':'' \<notin> set h" and "CHR ''['' \<notin> set h" and "CHR '']'' \<notin> set h"
    and "set p \<inter> {CHR '':'', CHR ''['', CHR '']''} = {}"
  shows "SplitHostPort (h @ '':'' @ p) = Inr (h, p)"
proof -
  have l: "last_index CHR '':'' (h @ '':'' @ p) = Some (length h)" using assms(5) by (simp add: last_index_last)
  moreover have "(h @ '':'' @ p) ! 0 \<noteq> CHR ''[''" using assms(1,3) by (cases h) auto
  moreover have "index_byte CHR '':'' (take (length h) (h @ '':'' @ p)) = None" using assms(2) by (simp add: index_byte_None)
  moreover have "index_byte CHR ''['' (h @ '':'' @ p) = None" "index_byte CHR '']'' (h @ '':'' @ p) = None"
    using assms(3-5) by (auto simp: index_byte_None)
  ultimately show ?thesis by (simp add: SplitHostPort_def)
qed

text \<open>An address survives printing and parsing, when its identity is not empty and has no \<^verbatim>\<open>@\<close> and its host is not
  empty and has no colon or bracket.\<close>

theorem ParseLumeraAddress_String:
  assumes "Identity a \<noteq> ''''" and "CHR ''@'' \<notin> set (Identity a)"
    and "Host a \<noteq> ''''" and "set (Host a) \<inter> {CHR '':'', CHR ''['', CHR '']''} = {}"
  shows "ParseLumeraAddress (address_String a) = Inr a"
proof -
  have i: "index_byte CHR ''@'' (address_String a) = Some (length (Identity a))"
    using assms(2) by (simp add: address_String_def index_byte_first)
  have "SplitHostPort (Host a @ '':'' @ itoa (unat (addr_Port a))) = Inr (Host a, itoa (unat (addr_Port a)))"
    using assms(3,4) itoa_no_char colon_bracket_no_digit by (intro SplitHostPort_HostPort) auto
  moreover have "parse_uint 16 (itoa (unat (addr_Port a))) = Inr (unat (addr_Port a))"
    using unsigned_less[of "addr_Port a", where ?'a = nat] by (intro parse_uint_itoa) simp
  ultimately show ?thesis using i assms(1,3)
    by (simp add: ParseLumeraAddress_def ExtractIdentity_def address_String_def)
qed

theorem ParseLumeraAddress_String_witness:
  "ParseLumeraAddress (address_String \<lparr>Identity = ''lumera1abc'', Host = ''10.0.0.1'', addr_Port = 4445\<rparr>)
     = Inr \<lparr>Identity = ''lumera1abc'', Host = ''10.0.0.1'', addr_Port = 4445\<rparr>"
  by (rule ParseLumeraAddress_String) simp_all

text \<open>What is parsed has an identity without \<^verbatim>\<open>@\<close> and a host; every prefix of the string up to the first \<^verbatim>\<open>@\<close> is the
  identity.\<close>

lemma ParseLumeraAddress_parts:
  assumes "ParseLumeraAddress s = Inr a"
  shows "Identity a \<noteq> ''''" and "CHR ''@'' \<notin> set (Identity a)" and "Host a \<noteq> ''''" and "\<exists>r. s = Identity a @ ''@'' @ r"
proof -
  obtain i where i: "index_byte CHR ''@'' s = Some i" "Identity a = take i s" "Identity a \<noteq> ''''" "Host a \<noteq> ''''"
    using assms by (auto simp: ParseLumeraAddress_def ExtractIdentity_def Let_def split: option.splits sum.splits if_splits)
  note F = find_index_Some[OF i(1)[unfolded index_byte_def]]
  show "Identity a \<noteq> ''''" "Host a \<noteq> ''''" by fact+
  show "CHR ''@'' \<notin> set (Identity a)" using F i(2) by (auto simp: in_set_conv_nth)
  have "s = take i s @ s ! i # drop (Suc i) s" using F by (simp add: id_take_nth_drop)
  then show "\<exists>r. s = Identity a @ ''@'' @ r" using F i(2) by (auto intro!: exI[of _ "drop (Suc i) s"])
qed

text \<open>The host of an IPv6 address is parsed from brackets and printed without them, which is not an address.\<close>

lemma IPv6_no_round_trip:
  "ParseLumeraAddress ''id@[::1]:80'' = Inr \<lparr>Identity = ''id'', Host = ''::1'', addr_Port = 80\<rparr>
   \<and> isl (ParseLumeraAddress (address_String \<lparr>Identity = ''id'', Host = ''::1'', addr_Port = 80\<rparr>))"
proof -
  have t: "itoa 80 = ''80''" by (simp add: itoa.simps) code_simp
  have p: "parse_uint 16 ''80'' = Inr 80" using parse_uint_itoa[of 80 16] by (simp add: t)
  have s: "SplitHostPort ''[::1]:80'' = Inr (''::1'', ''80'')" "isl (SplitHostPort ''::1:80'')" by code_simp+
  have e: "ExtractIdentity ''id@[::1]:80'' True = Inr (''id'', ''[::1]:80'')" "ExtractIdentity ''id@::1:80'' True = Inr (''id'', ''::1:80'')"
    by code_simp+
  show ?thesis using s by (auto simp: ParseLumeraAddress_def e p address_String_def t split: sum.splits)
qed

end
