(* ===== verification/Bootstrap.thy ===== *)
theory Bootstrap
  imports DHT Addresses
begin

text \<open>
  Joining the network (\<^verbatim>\<open>p2p/kademlia/bootstrap.go\<close>): the bootstrap nodes come from the configuration or from
  the chain, each is pinged up to five times, the ones that answer enter the routing table, and a lookup of the own
  identifier fills it further.  The chain is the argument \<open>chain\<close>: \<open>None\<close> for a nil client, an error, or the top
  supernodes of the latest block.  The record \<open>boot\<close> adds to the node the bootstrap nodes, which of them are
  connected, the addresses in the cache of bad ones and the number of retry timers started.  The goroutines that ping
  run one after the other, in the order \<open>sched\<close> of the environment.
\<close>

section \<open>State\<close>

record supernode =
  SupernodeAccount :: string
  PrevIpAddresses :: "(string \<times> int) list"
  P2PPort :: string

record boot =
  boot_dht :: dht
  BootstrapNodes :: "node list"
  bsConnected :: "(string \<times> bool) list"
  bad_addrs :: "string list"
  retry_timers :: nat

definition defaultSuperNodeP2PPort :: nat where "defaultSuperNodeP2PPort = 4445"

section \<open>Configuration\<close>

definition parseNode :: "string list \<Rightarrow> string \<Rightarrow> string \<Rightarrow> node result" where
  "parseNode bad extP2P selfAddr =
     (if extP2P = '''' then errorf ''empty address''
      else if extP2P = selfAddr then errorf ''self address''
      else if extP2P \<in> set bad then errorf ''configure: skip bad p2p boostrap addr''
      else
        let parsed =
          (case last_index CHR '':'' extP2P of
             Some idx \<Rightarrow>
               (let ip = take idx extP2P; portStr = drop (idx + 1) extP2P in
                if portStr \<noteq> '''' then
                  (case parse_uint 16 portStr of Inl _ \<Rightarrow> errorf ''invalid port number'' | Inr p \<Rightarrow> Inr (ip, word_of_nat p))
                else Inr (ip, 0))
           | None \<Rightarrow> Inr (extP2P, word_of_nat defaultSuperNodeP2PPort))
        in case parsed of
             Inl m \<Rightarrow> Inl m
           | Inr (ip, port) \<Rightarrow>
               if ip = '''' then errorf ''empty ip'' else Inr \<lparr>ID = [], IP = ip, Port = port, HashedID = []\<rparr>)"

fun config_nodes :: "string list \<Rightarrow> node list result" where
  "config_nodes [] = Inr []"
| "config_nodes (bsNode # rest) =
     (case ParseLumeraAddress bsNode of
        Inl m \<Rightarrow> errorf (''setBootstrapNodesFromConfigVar: '' @ m)
      | Inr a \<Rightarrow>
          (case config_nodes rest of
             Inl m \<Rightarrow> Inl m
           | Inr ns \<Rightarrow> Inr (\<lparr>ID = bytes_of_str (Identity a), IP = Host a, Port = addr_Port a, HashedID = []\<rparr> # ns)))"

definition setBootstrapNodesFromConfigVar :: "string \<Rightarrow> boot \<Rightarrow> string option \<times> boot" where
  "setBootstrapNodesFromConfigVar bootstrapNodes b =
     (case config_nodes (split_on CHR '','' bootstrapNodes) of
        Inl m \<Rightarrow> (Some m, b)
      | Inr nodes \<Rightarrow> (None, b\<lparr>BootstrapNodes := nodes\<rparr>))"

text \<open>The address with the greatest height, from \<open>- 1\<close> on.\<close>

definition latest_ip :: "(string \<times> int) list \<Rightarrow> string" where
  "latest_ip hist = fst (fold (\<lambda>(a, h) (ip, mx). if h > mx then (a, h) else (ip, mx)) hist ('''', - 1))"

definition supernode_port :: "supernode \<Rightarrow> nat" where
  "supernode_port sn =
     (if P2PPort sn \<noteq> '''' then (case parse_uint 16 (P2PPort sn) of Inr p \<Rightarrow> p | Inl _ \<Rightarrow> defaultSuperNodeP2PPort)
      else defaultSuperNodeP2PPort)"

definition full_address :: "env \<Rightarrow> supernode \<Rightarrow> string" where
  "full_address E sn = parseSupernodeAddress E (latest_ip (PrevIpAddresses sn)) @ '':'' @ itoa (supernode_port sn)"

definition add_supernode :: "env \<Rightarrow> string list \<Rightarrow> string \<Rightarrow> supernode \<Rightarrow> (string \<times> node) list \<Rightarrow> (string \<times> node) list" where
  "add_supernode E bad selfAddress sn mapNodes =
     (if latest_ip (PrevIpAddresses sn) = '''' then mapNodes
      else case parseNode bad (full_address E sn) selfAddress of
        Inl _ \<Rightarrow> mapNodes
      | Inr n \<Rightarrow> alist_update (full_address E sn) (n\<lparr>ID := bytes_of_str (SupernodeAccount sn)\<rparr>) mapNodes)"

text \<open>The nodes come out of the map in the order \<open>order\<close>.\<close>

definition chain_nodes :: "env \<Rightarrow> ((string \<times> node) list \<Rightarrow> (string \<times> node) list) \<Rightarrow> string list \<Rightarrow> string \<Rightarrow> supernode list \<Rightarrow> node list" where
  "chain_nodes E order bad selfAddress sns =
     map (\<lambda>(a, n). n\<lparr>HashedID := blake3 E (ID n)\<rparr>) (order (fold (add_supernode E bad selfAddress) sns []))"

definition ConfigureBootstrapNodes ::
  "env \<Rightarrow> ((string \<times> node) list \<Rightarrow> (string \<times> node) list) \<Rightarrow> supernode list result option \<Rightarrow> string \<Rightarrow> boot \<Rightarrow> string option \<times> boot" where
  "ConfigureBootstrapNodes E order chain bootstrapNodes b =
     (if bootstrapNodes \<noteq> '''' then setBootstrapNodesFromConfigVar bootstrapNodes b
      else
        let (addr, s1) = getSupernodeAddress E (boot_dht b);
            selfAddress = parseSupernodeAddress E addr @ '':'' @ itoa (unat (Port (self (ht s1))));
            b1 = b\<lparr>boot_dht := s1\<rparr>
        in case chain of
             Some (Inl m) \<Rightarrow> (Some m, b1)
           | Some (Inr sns) \<Rightarrow> (None, b1\<lparr>BootstrapNodes := BootstrapNodes b1 @ chain_nodes E order (bad_addrs b1) selfAddress sns\<rparr>)
           | None \<Rightarrow> (None, b1))"

section \<open>Joining\<close>

text \<open>The nodes to ping, each marked as not connected.\<close>

fun to_ping :: "node list \<Rightarrow> boot \<Rightarrow> node list \<times> boot" where
  "to_ping [] b = ([], b)"
| "to_ping (n # ns) b =
     (let nodeId = str_of_bytes (ID n); addr = IP n @ '':'' @ itoa (unat (Port n)) in
      if map_of (bsConnected b) nodeId = Some True then to_ping ns b
      else if addr \<in> set (bad_addrs b) then to_ping ns b
      else apfst ((#) n) (to_ping ns (b\<lparr>bsConnected := alist_update nodeId False (bsConnected b)\<rparr>)))"

text \<open>At most \<open>k\<close> calls; an answer without a sender is a nil dereference.\<close>

fun ping_loop :: "env \<Rightarrow> nat \<Rightarrow> string \<Rightarrow> message \<Rightarrow> boot \<Rightarrow> boot option" where
  "ping_loop E 0 nodeId request b = Some b"
| "ping_loop E (Suc k) nodeId request b =
     (case net_call E request (boot_dht b) of
        (Inl _, s1) \<Rightarrow> ping_loop E k nodeId request (b\<lparr>boot_dht := s1\<rparr>)
      | (Inr response, s1) \<Rightarrow>
          (case Sender response of
             None \<Rightarrow> None
           | Some sender \<Rightarrow>
               if length (ID sender) \<noteq> length (ID (self (ht s1))) then ping_loop E k nodeId request (b\<lparr>boot_dht := s1\<rparr>)
               else map_option (\<lambda>(_, s2). b\<lparr>boot_dht := s2, bsConnected := alist_update nodeId True (bsConnected b)\<rparr>) (addNode E sender s1)))"

definition ping_node :: "env \<Rightarrow> node \<Rightarrow> boot \<Rightarrow> boot option" where
  "ping_node E n b = (
     let (request, s1) = newMessage E Ping n NoData (boot_dht b)
     in ping_loop E 5 (str_of_bytes (ID n)) request (b\<lparr>boot_dht := s1\<rparr>))"

fun ping_all :: "env \<Rightarrow> node list \<Rightarrow> boot \<Rightarrow> boot option" where
  "ping_all E [] b = Some b"
| "ping_all E (n # ns) b = Option.bind (ping_node E n b) (ping_all E ns)"

definition dht_Bootstrap :: "env \<Rightarrow> boot \<Rightarrow> (string option \<times> boot) option" where
  "dht_Bootstrap E b =
     (if length (BootstrapNodes b) = 0 then Some (None, b\<lparr>retry_timers := Suc (retry_timers b)\<rparr>)
      else let (ns, b1) = to_ping (BootstrapNodes b) b in
        Option.bind (ping_all E (sched E ns) b1) (\<lambda>b2.
        if totalCount (ht (boot_dht b2)) > 0 then
          map_option (\<lambda>(r, s3). (case r of Inl m \<Rightarrow> Some m | Inr _ \<Rightarrow> None, b2\<lparr>boot_dht := s3\<rparr>))
            (iterate E IterateFindNode (ID (self (ht (boot_dht b2)))) [] 0 (boot_dht b2))
        else Some (None, b2\<lparr>retry_timers := Suc (retry_timers b2)\<rparr>)))"

definition retryBootstrap ::
  "env \<Rightarrow> ((string \<times> node) list \<Rightarrow> (string \<times> node) list) \<Rightarrow> supernode list result option \<Rightarrow> string \<Rightarrow> boot \<Rightarrow> boot option" where
  "retryBootstrap E order chain bootstrapNodes b =
     (case ConfigureBootstrapNodes E order chain bootstrapNodes b of
        (Some m, b1) \<Rightarrow> Some b1
      | (None, b1) \<Rightarrow> map_option snd (dht_Bootstrap E b1))"

section \<open>Lemmas\<close>

lemma supernode_port_bound: "supernode_port sn < 2 ^ 16"
  by (auto simp: supernode_port_def defaultSuperNodeP2PPort_def dest!: parse_uint_bound split: sum.splits)

lemma parseNode_full:
  assumes "parseNode bad (ip @ '':'' @ itoa p) selfAddr = Inr n" and "p < 2 ^ 16"
  shows "IP n = ip" and "unat (Port n) = p" and "ip \<noteq> ''''" and "ip @ '':'' @ itoa p \<notin> set bad" and "ip @ '':'' @ itoa p \<noteq> selfAddr"
proof -
  have "last_index CHR '':'' (ip @ '':'' @ itoa p) = Some (length ip)"
    using itoa_no_char[OF colon_bracket_no_digit(1)] by (simp add: last_index_last)
  moreover have "parse_uint 16 (itoa p) = Inr p" using assms(2) by (rule parse_uint_itoa)
  ultimately show "IP n = ip" "unat (Port n) = p" "ip \<noteq> ''''" "ip @ '':'' @ itoa p \<notin> set bad" "ip @ '':'' @ itoa p \<noteq> selfAddr"
    using assms by (auto simp: parseNode_def Let_def unat_of_nat split: if_splits)
qed

definition node_addr :: "node \<Rightarrow> string" where
  "node_addr n = IP n @ '':'' @ itoa (unat (Port n))"

definition supernode_entry :: "env \<Rightarrow> string list \<Rightarrow> string \<Rightarrow> supernode list \<Rightarrow> string \<times> node \<Rightarrow> bool" where
  "supernode_entry E bad selfAddress sns p \<longleftrightarrow> fst p = node_addr (snd p) \<and> IP (snd p) \<noteq> '''' \<and> fst p \<notin> set bad \<and> fst p \<noteq> selfAddress
     \<and> (\<exists>sn \<in> set sns. ID (snd p) = bytes_of_str (SupernodeAccount sn) \<and> fst p = full_address E sn)"

lemma add_supernode_entry:
  assumes "\<forall>p \<in> set m. supernode_entry E bad selfAddress sns p" and "alist_wf m" and "sn \<in> set sns"
  shows "(\<forall>p \<in> set (add_supernode E bad selfAddress sn m). supernode_entry E bad selfAddress sns p) \<and> alist_wf (add_supernode E bad selfAddress sn m)"
proof (cases "parseNode bad (full_address E sn) selfAddress")
  case (Inr n)
  note P = parseNode_full[OF Inr[unfolded full_address_def] supernode_port_bound]
  have e: "supernode_entry E bad selfAddress sns (full_address E sn, n\<lparr>ID := bytes_of_str (SupernodeAccount sn)\<rparr>)"
    using P assms(3) by (auto simp: supernode_entry_def node_addr_def full_address_def)
  have "\<forall>p \<in> set (alist_update (full_address E sn) (n\<lparr>ID := bytes_of_str (SupernodeAccount sn)\<rparr>) m). supernode_entry E bad selfAddress sns p"
    using assms(1) e by (auto simp: alist_update_def)
  then show ?thesis using assms(1,2) Inr by (simp add: add_supernode_def alist_wf_update)
qed (use assms in \<open>simp add: add_supernode_def\<close>)

lemma fold_add_supernode:
  "\<forall>p \<in> set m. supernode_entry E bad selfAddress all p \<Longrightarrow> alist_wf m \<Longrightarrow> set sns \<subseteq> set all \<Longrightarrow>
   (\<forall>p \<in> set (fold (add_supernode E bad selfAddress) sns m). supernode_entry E bad selfAddress all p) \<and> alist_wf (fold (add_supernode E bad selfAddress) sns m)"
proof (induction sns arbitrary: m)
  case (Cons sn sns)
  have "(\<forall>p \<in> set (add_supernode E bad selfAddress sn m). supernode_entry E bad selfAddress all p) \<and> alist_wf (add_supernode E bad selfAddress sn m)"
    using Cons.prems by (intro add_supernode_entry) auto
  then show ?case using Cons.IH[of "add_supernode E bad selfAddress sn m"] Cons.prems(3) by simp
qed simp

definition answers_ok :: "env \<Rightarrow> bool" where
  "answers_ok E \<longleftrightarrow> (\<forall>h m r. net_answer E h m = Inr r \<longrightarrow> (\<exists>n. Sender r = Some n \<and> trusted E n))"

definition answered_ping :: "env \<Rightarrow> node \<Rightarrow> bool" where
  "answered_ping E n \<longleftrightarrow> (\<exists>h m r. MessageType m = Ping \<and> Receiver m = Some n \<and> net_answer E h m = Inr r)"

lemma ping_loop_ok:
  assumes "hash_ok E" and "answers_ok E" and "MessageType request = Ping" and "Receiver request = Some n"
  shows "ht_inv (blake3 E) (ht (boot_dht b)) \<Longrightarrow>
    \<exists>b'. ping_loop E k nodeId request b = Some b' \<and> ht_inv (blake3 E) (ht (boot_dht b'))
      \<and> (bsConnected b' = bsConnected b \<or> bsConnected b' = alist_update nodeId True (bsConnected b) \<and> answered_ping E n)"
proof (induction k arbitrary: b)
  case (Suc k)
  let ?s1 = "(boot_dht b)\<lparr>sent := sent (boot_dht b) @ [request]\<rparr>"
  have IH: "\<exists>b'. ping_loop E k nodeId request (b\<lparr>boot_dht := ?s1\<rparr>) = Some b' \<and> ht_inv (blake3 E) (ht (boot_dht b'))
      \<and> (bsConnected b' = bsConnected b \<or> bsConnected b' = alist_update nodeId True (bsConnected b) \<and> answered_ping E n)"
    using Suc.IH[of "b\<lparr>boot_dht := ?s1\<rparr>"] Suc.prems by simp
  show ?case
  proof (cases "net_answer E (sent (boot_dht b)) request")
    case (Inl m)
    then show ?thesis using IH by (simp add: net_call_def)
  next
    case (Inr r)
    then obtain sender where s: "Sender r = Some sender" "trusted E sender" using assms(2) unfolding answers_ok_def by blast
    have "ht_inv (blake3 E) (ht ?s1)" using Suc.prems by simp
    from addNode_inv[OF assms(1) this s(2)] obtain x s2 where a: "addNode E sender ?s1 = Some (x, s2)" "ht_inv (blake3 E) (ht s2)" by auto
    have "answered_ping E n" using Inr assms(3,4) by (auto simp: answered_ping_def)
    then show ?thesis using IH Inr s(1) a by (simp add: net_call_def)
  qed
qed simp

lemma ping_node_ok:
  assumes "hash_ok E" and "answers_ok E" and "ht_inv (blake3 E) (ht (boot_dht b))"
  shows "\<exists>b'. ping_node E n b = Some b' \<and> ht_inv (blake3 E) (ht (boot_dht b'))
      \<and> (bsConnected b' = bsConnected b \<or> bsConnected b' = alist_update (str_of_bytes (ID n)) True (bsConnected b) \<and> answered_ping E n)"
proof -
  obtain request s1 where m: "newMessage E Ping n NoData (boot_dht b) = (request, s1)" by fastforce
  have f: "MessageType request = Ping" "Receiver request = Some n" "ht s1 = ht (boot_dht b)"
    using newMessage_fields[of E Ping n NoData "boot_dht b"] newMessage_frame[of E Ping n NoData "boot_dht b"] m by simp_all
  show ?thesis
    using ping_loop_ok[OF assms(1,2) f(1,2), of "b\<lparr>boot_dht := s1\<rparr>" 5 "str_of_bytes (ID n)"] assms(3) f(3) m by (simp add: ping_node_def)
qed

text \<open>When nobody answers nothing changes but the history.\<close>

lemma ping_loop_silent:
  "\<forall>h m. isl (net_answer E h m) \<Longrightarrow> \<exists>s'. ping_loop E k nodeId request b = Some (b\<lparr>boot_dht := s'\<rparr>) \<and> ht s' = ht (boot_dht b)"
proof (induction k arbitrary: b)
  case 0
  then show ?case by (intro exI[of _ "boot_dht b"]) simp
next
  case (Suc k)
  obtain m where "net_answer E (sent (boot_dht b)) request = Inl m" using Suc.prems by (meson isl_def)
  then show ?case using Suc.IH[OF Suc.prems, of "b\<lparr>boot_dht := (boot_dht b)\<lparr>sent := sent (boot_dht b) @ [request]\<rparr>\<rparr>"]
    by (auto simp: net_call_def)
qed

lemma ping_node_silent:
  assumes "\<forall>h m. isl (net_answer E h m)"
  shows "\<exists>s'. ping_node E n b = Some (b\<lparr>boot_dht := s'\<rparr>) \<and> ht s' = ht (boot_dht b)"
proof -
  obtain request s1 where m: "newMessage E Ping n NoData (boot_dht b) = (request, s1)" by fastforce
  then have "ht s1 = ht (boot_dht b)" using newMessage_frame[of E Ping n NoData "boot_dht b"] by simp
  then show ?thesis using ping_loop_silent[OF assms, of 5 "str_of_bytes (ID n)" request "b\<lparr>boot_dht := s1\<rparr>"] m
    by (auto simp: ping_node_def)
qed

lemma ping_all_silent:
  "\<forall>h m. isl (net_answer E h m) \<Longrightarrow> \<exists>s'. ping_all E ns b = Some (b\<lparr>boot_dht := s'\<rparr>) \<and> ht s' = ht (boot_dht b)"
proof (induction ns arbitrary: b)
  case Nil
  then show ?case by (intro exI[of _ "boot_dht b"]) simp
next
  case (Cons n ns)
  obtain s1 where s1: "ping_node E n b = Some (b\<lparr>boot_dht := s1\<rparr>)" "ht s1 = ht (boot_dht b)" using ping_node_silent[OF Cons.prems] by blast
  from Cons.IH[OF Cons.prems, of "b\<lparr>boot_dht := s1\<rparr>"] s1 show ?case by auto
qed

lemma to_ping_frame:
  "boot_dht (snd (to_ping ns b)) = boot_dht b" "retry_timers (snd (to_ping ns b)) = retry_timers b"
  "set (fst (to_ping ns b)) \<subseteq> set ns"
  "map_of (bsConnected b) k = Some True \<longleftrightarrow> map_of (bsConnected (snd (to_ping ns b))) k = Some True"
proof (induction ns arbitrary: b)
  case (Cons n ns)
  { case 1 then show ?case using Cons(1) by (simp add: Let_def) }
  { case 2 then show ?case using Cons(2) by (simp add: Let_def) }
  { case 3 then show ?case using Cons(3) by (auto simp: Let_def subset_eq) }
  { case 4
    have "map_of (bsConnected b) (str_of_bytes (ID n)) \<noteq> Some True \<Longrightarrow> map_of (bsConnected b) k = Some True \<longleftrightarrow>
        map_of (alist_update (str_of_bytes (ID n)) False (bsConnected b)) k = Some True"
      by (auto simp: map_of_alist_update)
    then show ?case using Cons(4)[of b] Cons(4)[of "b\<lparr>bsConnected := alist_update (str_of_bytes (ID n)) False (bsConnected b)\<rparr>"]
      by (simp add: Let_def) }
qed simp_all

section \<open>Properties\<close>

text \<open>The bootstrap nodes taken from the chain: each one is a supernode of the answer, under its account and at
  its latest address, with the hash of its account as hashed identifier; no one is the node itself or in the cache of
  bad addresses, no address occurs twice, and the nodes known before are kept.\<close>

theorem ConfigureBootstrapNodes_sound:
  assumes "\<forall>xs. mset (order xs) = mset xs"
    and "ConfigureBootstrapNodes E order (Some (Inr sns)) '''' b = (r, b')"
  shows "\<exists>ns. r = None \<and> BootstrapNodes b' = BootstrapNodes b @ ns \<and> distinct (map node_addr ns) \<and> (\<forall>n \<in> set ns.
      HashedID n = blake3 E (ID n) \<and> node_addr n \<notin> set (bad_addrs b)
      \<and> node_addr n \<noteq> parseSupernodeAddress E (fst (getSupernodeAddress E (boot_dht b))) @ '':'' @ itoa (unat (Port (self (ht (boot_dht b)))))
      \<and> (\<exists>sn \<in> set sns. ID n = bytes_of_str (SupernodeAccount sn) \<and> node_addr n = full_address E sn))"
proof -
  obtain addr s1 where g: "getSupernodeAddress E (boot_dht b) = (addr, s1)" by fastforce
  then have h: "ht s1 = ht (boot_dht b)" by (auto simp: getSupernodeAddress_def split: if_splits option.splits)
  let ?self = "parseSupernodeAddress E addr @ '':'' @ itoa (unat (Port (self (ht s1))))"
  let ?m = "fold (add_supernode E (bad_addrs b) ?self) sns []" and ?ns = "chain_nodes E order (bad_addrs b) ?self sns"
  have F: "\<forall>p \<in> set ?m. supernode_entry E (bad_addrs b) ?self sns p" "alist_wf ?m"
    using fold_add_supernode[of "[]" E "bad_addrs b" ?self sns sns] by (simp_all add: alist_wf_def)
  have so: "set (order ?m) = set ?m" using assms(1) by (metis set_mset_mset)
  have "mset (map fst (order ?m)) = mset (map fst ?m)" using assms(1) by simp
  then have d: "distinct (map fst (order ?m))" using F(2) unfolding alist_wf_def by (metis mset_eq_imp_distinct_iff)
  have a: "map node_addr ?ns = map fst (order ?m)"
    unfolding chain_nodes_def map_map using F(1) so by (auto simp: supernode_entry_def node_addr_def)
  have "HashedID n = blake3 E (ID n) \<and> node_addr n \<notin> set (bad_addrs b) \<and> node_addr n \<noteq> ?self
      \<and> (\<exists>sn \<in> set sns. ID n = bytes_of_str (SupernodeAccount sn) \<and> node_addr n = full_address E sn)" if n: "n \<in> set ?ns" for n
  proof -
    obtain p where p: "p \<in> set ?m" "n = (snd p)\<lparr>HashedID := blake3 E (ID (snd p))\<rparr>"
      using n unfolding chain_nodes_def set_map so by (auto simp: case_prod_unfold)
    then have "node_addr n = fst p" "ID n = ID (snd p)" using F(1) by (auto simp: supernode_entry_def node_addr_def)
    moreover have "supernode_entry E (bad_addrs b) ?self sns p" using F(1) p(1) by blast
    moreover have "HashedID n = blake3 E (ID n)" using p(2) by simp
    ultimately show ?thesis unfolding supernode_entry_def by metis
  qed
  moreover have "r = None" "BootstrapNodes b' = BootstrapNodes b @ ?ns" using assms(2) g by (auto simp: ConfigureBootstrapNodes_def Let_def)
  ultimately show ?thesis using d a h by (intro exI[of _ ?ns]) (simp add: g)
qed

definition wit_boot :: boot where
  "wit_boot = \<lparr>boot_dht = wit_dht, BootstrapNodes = [], bsConnected = [], bad_addrs = [''10.0.0.3:4445''], retry_timers = 0\<rparr>"

definition wit_supernode :: supernode where
  "wit_supernode = \<lparr>SupernodeAccount = ''a'', PrevIpAddresses = [(''10.0.0.2'', 5)], P2PPort = ''''\<rparr>"

theorem ConfigureBootstrapNodes_sound_witness:
  "\<exists>ns. BootstrapNodes (snd (ConfigureBootstrapNodes wit_env (\<lambda>xs. xs) (Some (Inr [wit_supernode])) '''' wit_boot)) = ns
    \<and> (\<forall>n \<in> set ns. node_addr n = full_address wit_env wit_supernode)"
proof -
  obtain r b' where c: "ConfigureBootstrapNodes wit_env (\<lambda>xs. xs) (Some (Inr [wit_supernode])) '''' wit_boot = (r, b')" by fastforce
  have "\<forall>xs :: (string \<times> node) list. mset xs = mset xs" by simp
  from ConfigureBootstrapNodes_sound[OF this c] obtain ns where "BootstrapNodes b' = BootstrapNodes wit_boot @ ns"
      "\<forall>n \<in> set ns. \<exists>sn \<in> set [wit_supernode]. ID n = bytes_of_str (SupernodeAccount sn) \<and> node_addr n = full_address wit_env sn"
    by blast
  moreover have "BootstrapNodes wit_boot = []" by (simp add: wit_boot_def)
  ultimately show ?thesis by (simp add: c)
qed

text \<open>The pings keep the routing table in order and are truthful: when every answer names a sender whose hashed
  identifier is absent or right, pinging the bootstrap nodes does not panic, keeps the invariant of the table, and a
  node that is marked as connected was connected before or has answered a ping.\<close>

theorem ping_all_connects:
  assumes "hash_ok E" and "answers_ok E" and "ht_inv (blake3 E) (ht (boot_dht b))"
  shows "\<exists>b'. ping_all E ns b = Some b' \<and> ht_inv (blake3 E) (ht (boot_dht b'))
    \<and> (\<forall>k. map_of (bsConnected b') k = Some True \<longrightarrow>
        map_of (bsConnected b) k = Some True \<or> (\<exists>n \<in> set ns. str_of_bytes (ID n) = k \<and> answered_ping E n))"
  using assms(3)
proof (induction ns arbitrary: b)
  case (Cons n ns)
  obtain b1 where b1: "ping_node E n b = Some b1" "ht_inv (blake3 E) (ht (boot_dht b1))"
      "bsConnected b1 = bsConnected b \<or> bsConnected b1 = alist_update (str_of_bytes (ID n)) True (bsConnected b) \<and> answered_ping E n"
    using ping_node_ok[OF assms(1,2) Cons.prems] by blast
  obtain b' where b': "ping_all E ns b1 = Some b'" "ht_inv (blake3 E) (ht (boot_dht b'))"
      "\<forall>k. map_of (bsConnected b') k = Some True \<longrightarrow>
        map_of (bsConnected b1) k = Some True \<or> (\<exists>n \<in> set ns. str_of_bytes (ID n) = k \<and> answered_ping E n)"
    using Cons.IH[OF b1(2)] by blast
  have "map_of (bsConnected b1) k = Some True \<Longrightarrow> map_of (bsConnected b) k = Some True \<or> str_of_bytes (ID n) = k \<and> answered_ping E n" for k
    using b1(3) by (auto simp: map_of_alist_update split: if_splits)
  then have "\<forall>k. map_of (bsConnected b') k = Some True \<longrightarrow>
      map_of (bsConnected b) k = Some True \<or> (\<exists>m \<in> set (n # ns). str_of_bytes (ID m) = k \<and> answered_ping E m)" using b'(3) by auto
  with b1(1) b'(1,2) show ?case by simp
qed simp

theorem ping_all_connects_witness:
  "\<exists>b'. ping_all wit_env [wit_node 1] wit_boot = Some b' \<and> ht_inv (blake3 wit_env) (ht (boot_dht b'))"
  using ping_all_connects[of wit_env wit_boot "[wit_node 1]"] wit_dht_ok
  by (auto simp: answers_ok_def wit_boot_def) (auto simp: wit_env_def)

text \<open>When no bootstrap node answers and the table is empty, the bootstrap returns without an error, starts the timer
  for the next attempt, leaves the table as it is and marks nobody as connected who was not.\<close>

theorem Bootstrap_retries:
  assumes "\<forall>h m. isl (net_answer E h m)" and "totalCount (ht (boot_dht b)) = 0"
  shows "\<exists>b'. dht_Bootstrap E b = Some (None, b') \<and> retry_timers b' = Suc (retry_timers b) \<and> ht (boot_dht b') = ht (boot_dht b)
    \<and> (map_of (bsConnected b') k = Some True \<longleftrightarrow> map_of (bsConnected b) k = Some True)"
proof (cases "BootstrapNodes b = []")
  case False
  obtain ns b1 where t: "to_ping (BootstrapNodes b) b = (ns, b1)" by fastforce
  note T = to_ping_frame[where ns = "BootstrapNodes b" and b = b, unfolded t snd_conv]
  obtain s' where "ping_all E (sched E ns) b1 = Some (b1\<lparr>boot_dht := s'\<rparr>)" "ht s' = ht (boot_dht b1)"
    using ping_all_silent[OF assms(1)] by blast
  then show ?thesis using False t T(1,2) T(4)[of k] assms(2) by (simp add: dht_Bootstrap_def)
qed (simp add: dht_Bootstrap_def)

theorem Bootstrap_retries_witness:
  "\<exists>b'. dht_Bootstrap wit_env (wit_boot\<lparr>BootstrapNodes := [wit_node 1]\<rparr>) = Some (None, b') \<and> retry_timers b' = 1"
  using Bootstrap_retries[of wit_env "wit_boot\<lparr>BootstrapNodes := [wit_node 1]\<rparr>" "''''"]
  by (auto simp: wit_boot_def wit_dht_def totalCount_def wit_env_def sum_list_replicate)

end
