(* ===== verification/Go_Utils.thy ===== *)
theory Go_Utils
  imports Go_Lib "HOL-Library.Sublist"
begin

text \<open>
  Helpers of \<^verbatim>\<open>pkg/utils\<close>: the longest common prefix and suffix of a list of strings (\<^verbatim>\<open>lc.go\<close>) and the pure
  functions of \<^verbatim>\<open>utils.go\<close>.  A pointer that may be nil is an option; the output of a command and random bits are
  arguments.
\<close>

section \<open>Common prefix and suffix (lc.go)\<close>

text \<open>The inner loop: the number of positions, from the start or from the end, at which the strings agree.\<close>

definition agree :: "bool \<Rightarrow> string \<Rightarrow> string \<Rightarrow> nat \<Rightarrow> bool" where
  "agree pre common s i =
     (if pre then common ! i = s ! i else common ! (length common - 1 - i) = s ! (length s - 1 - i))"

definition xfix_index :: "bool \<Rightarrow> string \<Rightarrow> string \<Rightarrow> nat" where
  "xfix_index pre common s = length (takeWhile (agree pre common s) [0..<min (length common) (length s)])"

fun xfix_loop :: "bool \<Rightarrow> string \<Rightarrow> string list \<Rightarrow> string" where
  "xfix_loop pre common [] = common"
| "xfix_loop pre common (s # ss) =
     (if common = '''' then common
      else let i = xfix_index pre common s
           in xfix_loop pre (if pre then take i common else drop (length common - i) common) ss)"

definition longestCommonXfix :: "string list \<Rightarrow> bool \<Rightarrow> string" where
  "longestCommonXfix strs pre = (case strs of [] \<Rightarrow> '''' | s # ss \<Rightarrow> xfix_loop pre s ss)"

definition lc_Prefix :: "string list \<Rightarrow> string" where
  "lc_Prefix strs = longestCommonXfix strs True"

definition lc_Suffix :: "string list \<Rightarrow> string" where
  "lc_Suffix strs = longestCommonXfix strs False"

definition trim_suffix :: "'a list \<Rightarrow> 'a list \<Rightarrow> 'a list" where
  "trim_suffix q s = (if has_suffix s q then take (length s - length q) s else s)"

definition TrimPrefix :: "string list \<Rightarrow> string list" where
  "TrimPrefix strs = (let p = lc_Prefix strs in if p = '''' then strs else map (trim_prefix p) strs)"

definition TrimSuffix :: "string list \<Rightarrow> string list" where
  "TrimSuffix strs = (let q = lc_Suffix strs in if q = '''' then strs else map (trim_suffix q) strs)"

section \<open>Pure helpers of utils.go\<close>

definition SafeErrStr :: "string option \<Rightarrow> string" where
  "SafeErrStr err = (case err of Some m \<Rightarrow> m | None \<Rightarrow> '''')"

definition SafeString :: "string option \<Rightarrow> string" where
  "SafeString ptr = (case ptr of Some s \<Rightarrow> s | None \<Rightarrow> '''')"

definition SafeInt :: "int option \<Rightarrow> int \<Rightarrow> int" where
  "SafeInt ptr dflt = (case ptr of Some i \<Rightarrow> i | None \<Rightarrow> dflt)"

definition SafeBool :: "bool option \<Rightarrow> bool \<Rightarrow> bool" where
  "SafeBool ptr dflt = (case ptr of Some b \<Rightarrow> b | None \<Rightarrow> dflt)"

fun equal_from :: "nat \<Rightarrow> string list \<Rightarrow> string list \<Rightarrow> string option" where
  "equal_from i (v # a) (w # b) =
     (if v \<noteq> w then Some (''index '' @ itoa i @ '' mismatch, vals: '' @ v @ ''   &  '' @ w) else equal_from (Suc i) a b)"
| "equal_from i _ _ = None"

definition EqualStrList :: "string list \<Rightarrow> string list \<Rightarrow> string option" where
  "EqualStrList a b =
     (if length a \<noteq> length b then Some (''unequal length: '' @ itoa (length a) @ ''  & '' @ itoa (length b))
      else equal_from 0 a b)"

text \<open>\<^verbatim>\<open>RandomDuration\<close>, in milliseconds, with the 64 random bits \<open>n\<close>; a range of all of \<^verbatim>\<open>int\<close> divides by zero.\<close>

definition RandomDuration :: "u64 \<Rightarrow> int \<Rightarrow> int \<Rightarrow> int option" where
  "RandomDuration n mn mx = (
     let (lo, hi) = (if mn > mx then (mx, mn) else (mn, mx));
         span = (hi - lo + 1) mod 2 ^ 64
     in if span = 0 then None else Some (lo + uint n mod span))"

text \<open>\<^verbatim>\<open>CheckDiskSpace\<close>: \<open>out\<close> is the trimmed output of \<^verbatim>\<open>df\<close>, a number and the letter G.\<close>

definition CheckDiskSpace :: "string result \<Rightarrow> int \<Rightarrow> bool result" where
  "CheckDiskSpace out lowSpaceThreshold =
     (case out of
        Inl m \<Rightarrow> errorf (''failed to execute command: '' @ m)
      | Inr output \<Rightarrow>
          if length output < 2 then errorf ''invalid output from disk space check''
          else case atoi (take (length output - 1) output) of
            (v, True) \<Rightarrow> errorf ''failed to parse available space''
          | (v, False) \<Rightarrow> Inr (v < lowSpaceThreshold))"

section \<open>Lemmas\<close>

lemma takeWhile_upt: "takeWhile P [0..<n] = [0..<length (takeWhile P [0..<n])]"
  by (metis takeWhile_eq_take take_upt length_takeWhile_le add_0 length_upt minus_nat.diff_0)

lemma xfix_index_spec:
  "xfix_index pre a b \<le> length a" "xfix_index pre a b \<le> length b"
  "i < xfix_index pre a b \<Longrightarrow> agree pre a b i"
  "xfix_index pre a b < length a \<Longrightarrow> xfix_index pre a b < length b \<Longrightarrow> \<not> agree pre a b (xfix_index pre a b)"
proof -
  let ?xs = "[0..<min (length a) (length b)]" and ?P = "agree pre a b"
  have l: "xfix_index pre a b \<le> min (length a) (length b)"
    unfolding xfix_index_def using length_takeWhile_le[of ?P ?xs] by simp
  then show "xfix_index pre a b \<le> length a" "xfix_index pre a b \<le> length b" by auto
  show "agree pre a b i" if "i < xfix_index pre a b"
  proof -
    have "takeWhile ?P ?xs ! i = i" using that l by (subst takeWhile_upt) (simp add: xfix_index_def)
    then show ?thesis using that nth_mem[of i "takeWhile ?P ?xs"] set_takeWhileD[of i ?P ?xs] by (simp add: xfix_index_def)
  qed
  show "\<not> ?P (xfix_index pre a b)" if "xfix_index pre a b < length a" "xfix_index pre a b < length b"
    using that nth_length_takeWhile[of ?P ?xs] by (simp add: xfix_index_def)
qed

text \<open>One step is the longest common prefix of two strings.\<close>

lemma prefix_step: "prefix p (take (xfix_index True a b) a) \<longleftrightarrow> prefix p a \<and> prefix p b"
proof -
  let ?i = "xfix_index True a b"
  note S = xfix_index_spec[where pre = True and a = a and b = b]
  have eq: "take ?i a = take ?i b" using S(1-3) by (auto intro!: nth_equalityI simp: agree_def)
  show ?thesis
  proof
    assume "prefix p (take ?i a)"
    then show "prefix p a \<and> prefix p b" using eq by (metis prefix_order.trans take_is_prefix)
  next
    assume p: "prefix p a \<and> prefix p b"
    have "length p \<le> ?i"
    proof (rule ccontr)
      assume "\<not> length p \<le> ?i"
      then have i: "?i < length p" by simp
      moreover have "length p \<le> length a" "length p \<le> length b" using p by (auto dest: prefix_length_le)
      moreover have "a ! ?i = b ! ?i" using p i by (auto simp: prefix_def nth_append)
      ultimately show False using S(4) by (simp add: agree_def)
    qed
    then show "prefix p (take ?i a)" using p S(1) by (auto simp: prefix_def)
  qed
qed

lemma xfix_index_rev: "xfix_index False a b = xfix_index True (rev a) (rev b)"
  unfolding xfix_index_def
  by (intro arg_cong[of _ _ length] takeWhile_cong) (auto simp: agree_def rev_nth)

lemma suffix_step: "suffix p (drop (length a - xfix_index False a b) a) \<longleftrightarrow> suffix p a \<and> suffix p b"
proof -
  have "suffix p (drop (length a - xfix_index False a b) a) \<longleftrightarrow> prefix (rev p) (take (xfix_index True (rev a) (rev b)) (rev a))"
    by (simp add: suffix_to_prefix xfix_index_rev take_rev)
  then show ?thesis by (simp add: prefix_step suffix_to_prefix)
qed

lemma xfix_loop_prefix: "prefix p (xfix_loop True c ss) \<longleftrightarrow> prefix p c \<and> (\<forall>s \<in> set ss. prefix p s)"
  by (induction ss arbitrary: c) (auto simp: Let_def prefix_step)

lemma xfix_loop_suffix: "suffix p (xfix_loop False c ss) \<longleftrightarrow> suffix p c \<and> (\<forall>s \<in> set ss. suffix p s)"
  by (induction ss arbitrary: c) (auto simp: Let_def suffix_step)

text \<open>The common prefix and suffix are the longest ones: for a list that is not empty a string is a prefix (suffix) of
  the result exactly when it is one of every string of the list.\<close>

theorem longestCommonXfix_correct:
  assumes "strs \<noteq> []"
  shows "(prefix p (lc_Prefix strs) \<longleftrightarrow> (\<forall>s \<in> set strs. prefix p s))
    \<and> (suffix p (lc_Suffix strs) \<longleftrightarrow> (\<forall>s \<in> set strs. suffix p s))"
  using assms by (cases strs) (auto simp: lc_Prefix_def lc_Suffix_def longestCommonXfix_def xfix_loop_prefix xfix_loop_suffix)

theorem longestCommonXfix_correct_witness:
  "prefix ''ab'' (lc_Prefix [''abc'', ''abd'']) \<and> \<not> suffix ''c'' (lc_Suffix [''abc'', ''abd''])"
  using longestCommonXfix_correct[of "[''abc'', ''abd'']" "''ab''"] longestCommonXfix_correct[of "[''abc'', ''abd'']" "''c''"]
  by (simp add: suffix_def)

lemma lc_Prefix_prefix: "s \<in> set strs \<Longrightarrow> prefix (lc_Prefix strs) s"
  using xfix_loop_prefix[of "lc_Prefix strs" "hd strs" "tl strs"] by (cases strs) (auto simp: lc_Prefix_def longestCommonXfix_def)

lemma lc_Suffix_suffix: "s \<in> set strs \<Longrightarrow> suffix (lc_Suffix strs) s"
  using xfix_loop_suffix[of "lc_Suffix strs" "hd strs" "tl strs"] by (cases strs) (auto simp: lc_Suffix_def longestCommonXfix_def)

text \<open>Trimming cuts the common part from every string, and putting it back gives the strings again.\<close>

lemma TrimPrefix_restore: "map ((@) (lc_Prefix strs)) (TrimPrefix strs) = strs"
  by (auto simp: TrimPrefix_def Let_def trim_prefix_def o_def intro!: map_idI dest!: lc_Prefix_prefix) (auto simp: prefix_def)

lemma TrimSuffix_restore: "map (\<lambda>s. s @ lc_Suffix strs) (TrimSuffix strs) = strs"
  by (auto simp: TrimSuffix_def Let_def trim_suffix_def has_suffix_def o_def intro!: map_idI dest!: lc_Suffix_suffix) (auto simp: suffix_def)

lemma EqualStrList_correct: "EqualStrList a b = None \<longleftrightarrow> a = b"
proof -
  have "length a = length b \<Longrightarrow> equal_from i a b = None \<longleftrightarrow> a = b" for i
    by (induction a b arbitrary: i rule: list_induct2) auto
  then show ?thesis by (auto simp: EqualStrList_def)
qed

text \<open>A random duration is within its bounds, in whatever order they are given.\<close>

lemma RandomDuration_bounds:
  assumes "- (2 ^ 62) \<le> a" and "a \<le> 2 ^ 62" and "- (2 ^ 62) \<le> b" and "b \<le> 2 ^ 62"
  shows "\<exists>d. RandomDuration n a b = Some d \<and> min a b \<le> d \<and> d \<le> max a b"
proof -
  have m: "(max a b - min a b + 1) mod 2 ^ 64 = max a b - min a b + 1" using assms by (intro mod_pos_pos_trivial) auto
  have "uint n mod (max a b - min a b + 1) < max a b - min a b + 1" by (rule pos_mod_bound) auto
  moreover have "0 \<le> uint n mod (max a b - min a b + 1)" by (rule pos_mod_sign) auto
  ultimately show ?thesis using m by (cases "a > b") (auto simp: RandomDuration_def Let_def max_def min_def)
qed

end
