(* ===== verification/Xor_Heap.thy ===== *)
theory Xor_Heap
  imports Nodes
begin

text \<open>
  The closest strings of \<^verbatim>\<open>pkg/utils\<close>: the max-heap of distances (\<^verbatim>\<open>heap.go\<close>, under Go's
  \<^verbatim>\<open>container/heap\<close>) and the selection of the \<open>n\<close> strings whose hashes are closest to that of a given
  string (\<^verbatim>\<open>utils.go\<close>).  Blake3 is the argument \<open>H\<close>.  An index out of range is \<open>None\<close>.
\<close>

section \<open>The heap\<close>

record distance_entry =
  entry_distance :: nat
  str :: string

type_synonym max_heap = "distance_entry list"

definition heap_Less :: "max_heap \<Rightarrow> nat \<Rightarrow> nat \<Rightarrow> bool" where
  "heap_Less h i j = (entry_distance (h ! i) > entry_distance (h ! j))"

definition heap_Swap :: "nat \<Rightarrow> nat \<Rightarrow> max_heap \<Rightarrow> max_heap" where
  "heap_Swap i j h = h[i := h ! j, j := h ! i]"

definition MaxHeap_Push :: "distance_entry \<Rightarrow> max_heap \<Rightarrow> max_heap" where
  "MaxHeap_Push x h = h @ [x]"

definition MaxHeap_Pop :: "max_heap \<Rightarrow> (distance_entry \<times> max_heap) option" where
  "MaxHeap_Pop h = (if h = [] then None else Some (h ! (length h - 1), take (length h - 1) h))"

text \<open>\<^verbatim>\<open>container/heap\<close>: an element moves up while it is less than its parent, and down while one of its
  children is less than it.\<close>

fun heap_up :: "nat \<Rightarrow> max_heap \<Rightarrow> max_heap" where
  "heap_up 0 h = h"
| "heap_up (Suc k) h = (let j = Suc k; i = k div 2 in if \<not> heap_Less h j i then h else heap_up i (heap_Swap i j h))"

function heap_down :: "nat \<Rightarrow> nat \<Rightarrow> max_heap \<Rightarrow> max_heap" where
  "heap_down n i h =
     (let j1 = 2 * i + 1 in
      if j1 \<ge> n then h
      else let j = (if j1 + 1 < n \<and> heap_Less h (j1 + 1) j1 then j1 + 1 else j1) in
        if \<not> heap_Less h j i then h else heap_down n j (heap_Swap i j h))"
  by pat_completeness auto
termination
  by (relation "measure (\<lambda>(n, i, h). n - i)") (auto simp: Let_def)

declare heap_down.simps [simp del]

definition heap_Push :: "distance_entry \<Rightarrow> max_heap \<Rightarrow> max_heap" where
  "heap_Push x h = heap_up (length h) (MaxHeap_Push x h)"

definition heap_Pop :: "max_heap \<Rightarrow> (distance_entry \<times> max_heap) option" where
  "heap_Pop h = (if h = [] then None else let n = length h - 1 in MaxHeap_Pop (heap_down n 0 (heap_Swap 0 n h)))"

section \<open>The closest strings\<close>

definition XORBytes :: "bytes \<Rightarrow> bytes \<Rightarrow> bytes result" where
  "XORBytes a b =
     (if length a \<noteq> length b
      then errorf (''length of byte slices is not equivalent: '' @ itoa (length a) @ '' != '' @ itoa (length b))
      else Inr (map2 (XOR) a b))"

text \<open>An error of \<^verbatim>\<open>XORBytes\<close> is dropped: its result is then the empty slice.\<close>

definition ComputeXorDistanceBetweenTwoStrings :: "(bytes \<Rightarrow> bytes) \<Rightarrow> string \<Rightarrow> string \<Rightarrow> nat" where
  "ComputeXorDistanceBetweenTwoStrings H s1 s2 =
     be_val (case XORBytes (H (bytes_of_str s1)) (H (bytes_of_str s2)) of Inl _ \<Rightarrow> [] | Inr d \<Rightarrow> d)"

definition offer :: "int \<Rightarrow> distance_entry \<Rightarrow> max_heap \<Rightarrow> max_heap option" where
  "offer n e h =
     (if int (length h) < n then Some (heap_Push e h)
      else if h = [] then None
      else if entry_distance e < entry_distance (h ! 0) then map_option (\<lambda>(_, h'). heap_Push e h') (heap_Pop h)
      else Some h)"

fun offer_all :: "int \<Rightarrow> distance_entry list \<Rightarrow> max_heap \<Rightarrow> max_heap option" where
  "offer_all n [] h = Some h"
| "offer_all n (e # es) h = Option.bind (offer n e h) (offer_all n es)"

text \<open>The result is filled from its end.\<close>

fun drain :: "nat \<Rightarrow> max_heap \<Rightarrow> string list \<Rightarrow> string list option" where
  "drain 0 h acc = Some acc"
| "drain (Suc k) h acc = Option.bind (heap_Pop h) (\<lambda>(e, h'). drain k h' (str e # acc))"

definition GetNClosestXORDistanceStringToAGivenComparisonString ::
  "(bytes \<Rightarrow> bytes) \<Rightarrow> int \<Rightarrow> string \<Rightarrow> string list \<Rightarrow> string list \<Rightarrow> string list option" where
  "GetNClosestXORDistanceStringToAGivenComparisonString H n comparison strs ignores =
     Option.bind
       (offer_all n (map (\<lambda>s. \<lparr>entry_distance = ComputeXorDistanceBetweenTwoStrings H s comparison, str = s\<rparr>)
          (filter (\<lambda>s. s \<notin> set ignores) strs)) [])
       (\<lambda>h. drain (length h) h [])"

section \<open>Heap order\<close>

definition parent :: "nat \<Rightarrow> nat" where
  "parent i = (i - 1) div 2"

abbreviation dst :: "max_heap \<Rightarrow> nat \<Rightarrow> nat" where
  "dst h i \<equiv> entry_distance (h ! i)"

definition is_heap :: "max_heap \<Rightarrow> bool" where
  "is_heap h \<longleftrightarrow> (\<forall>i. 0 < i \<longrightarrow> i < length h \<longrightarrow> dst h i \<le> dst h (parent i))"

text \<open>A heap but for the position \<open>j\<close>, which may be too large for its parent, or too small for its children.\<close>

definition above :: "nat \<Rightarrow> max_heap \<Rightarrow> bool" where
  "above j h \<longleftrightarrow> (\<forall>i. 0 < i \<longrightarrow> i < length h \<longrightarrow> (i \<noteq> j \<longrightarrow> dst h i \<le> dst h (parent i))
     \<and> (parent i = j \<longrightarrow> 0 < j \<longrightarrow> dst h i \<le> dst h (parent j)))"

definition below :: "nat \<Rightarrow> nat \<Rightarrow> max_heap \<Rightarrow> bool" where
  "below n j h \<longleftrightarrow> (\<forall>i. 0 < i \<longrightarrow> i < n \<longrightarrow> (parent i \<noteq> j \<longrightarrow> dst h i \<le> dst h (parent i))
     \<and> (parent i = j \<longrightarrow> 0 < j \<longrightarrow> dst h i \<le> dst h (parent j)))"

lemma parent_less: "0 < i \<Longrightarrow> parent i < i"
  by (simp add: parent_def)

lemma parent_Suc [simp]: "parent (Suc k) = k div 2"
  by (simp add: parent_def)

lemma parent_children: "0 < i \<Longrightarrow> parent i = j \<longleftrightarrow> i = 2 * j + 1 \<or> i = 2 * j + 2"
  by (auto simp: parent_def)

lemma length_Swap [simp]: "length (heap_Swap i j h) = length h"
  by (simp add: heap_Swap_def)

lemma Swap_nth: "i < length h \<Longrightarrow> j < length h \<Longrightarrow> i \<noteq> j \<Longrightarrow>
    heap_Swap i j h ! k = (if k = i then h ! j else if k = j then h ! i else h ! k)"
  by (auto simp: heap_Swap_def nth_list_update_if)

lemma mset_Swap [simp]: "i < length h \<Longrightarrow> j < length h \<Longrightarrow> mset (heap_Swap i j h) = mset h"
  unfolding heap_Swap_def by (cases "i = j") (auto simp: mset_swap)

lemma heap_up_heap: "j < length h \<Longrightarrow> above j h \<Longrightarrow> is_heap (heap_up j h) \<and> mset (heap_up j h) = mset h"
proof (induction j h rule: heap_up.induct)
  case (1 h)
  then show ?case by (auto simp: above_def is_heap_def)
next
  case (2 k h)
  let ?j = "Suc k" and ?i = "k div 2"
  show ?case
  proof (cases "heap_Less h ?j ?i")
    case False
    have "dst h i \<le> dst h (parent i)" if "0 < i" "i < length h" for i
      using False 2(3) that by (cases "i = ?j") (auto simp: above_def heap_Less_def)
    then show ?thesis using False by (simp add: is_heap_def Let_def)
  next
    case True
    have lt: "?i < length h" "?i < ?j" using 2(2) by auto
    have S: "dst (heap_Swap ?i ?j h) m = (if m = ?i then dst h ?j else if m = ?j then dst h ?i else dst h m)" for m
      using Swap_nth[of ?i h ?j m] lt 2(2) by simp
    have A: "dst h m \<le> dst h (parent m)" if "0 < m" "m < length h" "m \<noteq> ?j" for m
      using 2(3) that by (simp add: above_def)
    have B: "dst h m \<le> dst h ?i" if "0 < m" "m < length h" "parent m = ?j" for m
      using 2(3) that by (auto simp: above_def)
    have less: "dst h ?i < dst h ?j" using True by (simp add: heap_Less_def)
    have "above ?i (heap_Swap ?i ?j h)"
      unfolding above_def length_Swap
    proof (intro allI impI conjI)
      fix m assume m: "0 < m" "m < length h"
      show "dst (heap_Swap ?i ?j h) m \<le> dst (heap_Swap ?i ?j h) (parent m)" if "m \<noteq> ?i"
      proof (cases "m = ?j")
        case True
        then show ?thesis using less lt(2) by (simp add: S)
      next
        case False
        then show ?thesis using A[OF m] B[OF m] less that lt(2) m by (auto simp: S)
      qed
      show "dst (heap_Swap ?i ?j h) m \<le> dst (heap_Swap ?i ?j h) (parent ?i)" if "parent m = ?i" "0 < ?i"
      proof -
        have p: "parent ?i < ?i" by (rule parent_less[OF that(2)])
        have i: "dst h ?i \<le> dst h (parent ?i)" using A[of ?i] that(2) lt by simp
        show ?thesis
        proof (cases "m = ?j")
          case True
          then show ?thesis using i p lt(2) by (simp add: S)
        next
          case False
          have "m \<noteq> ?i" using parent_less[OF m(1)] that(1) by simp
          then show ?thesis using A[OF m False] i p lt(2) False that(1) by (simp add: S)
        qed
      qed
    qed
    then show ?thesis using 2(1)[OF refl refl] True lt 2(2) by (simp add: Let_def)
  qed
qed


definition heap_prefix :: "nat \<Rightarrow> max_heap \<Rightarrow> bool" where
  "heap_prefix n h \<longleftrightarrow> (\<forall>i. 0 < i \<longrightarrow> i < n \<longrightarrow> dst h i \<le> dst h (parent i))"

text \<open>The child that \<open>heap_down\<close> compares with is a largest one.\<close>

lemma child_largest:
  assumes "j = (if 2 * i + 2 < n \<and> heap_Less h (2 * i + 2) (2 * i + 1) then 2 * i + 2 else 2 * i + 1)" and "2 * i + 1 < n"
  shows "j < n" and "parent j = i" and "0 < j" and "i < j" and "m < n \<Longrightarrow> 0 < m \<Longrightarrow> parent m = i \<Longrightarrow> dst h m \<le> dst h j"
  using assms by (auto simp: parent_children heap_Less_def split: if_splits)

lemma heap_down_heap:
  "n \<le> length h \<Longrightarrow> below n i h \<Longrightarrow>
   heap_prefix n (heap_down n i h) \<and> mset (heap_down n i h) = mset h \<and> length (heap_down n i h) = length h
   \<and> (\<forall>m \<ge> n. m < length h \<longrightarrow> heap_down n i h ! m = h ! m)"
proof (induction n i h rule: heap_down.induct)
  case (1 n i h)
  define j where "j = (if 2 * i + 2 < n \<and> heap_Less h (2 * i + 2) (2 * i + 1) then 2 * i + 2 else 2 * i + 1)"
  have unf: "heap_down n i h = (if 2 * i + 1 \<ge> n then h else if \<not> heap_Less h j i then h else heap_down n j (heap_Swap i j h))"
    by (subst heap_down.simps) (simp add: Let_def j_def)
  have A: "dst h m \<le> dst h (parent m)" if "0 < m" "m < n" "parent m \<noteq> i" for m using 1(3) that by (simp add: below_def)
  have B: "dst h m \<le> dst h (parent i)" if "0 < m" "m < n" "parent m = i" "0 < i" for m using 1(3) that by (auto simp: below_def)
  show ?case
  proof (cases "n \<le> 2 * i + 1")
    case True
    then have "parent m \<noteq> i" if "0 < m" "m < n" for m using that by (simp add: parent_children)
    with A True show ?thesis by (simp add: unf heap_prefix_def)
  next
    case False
    then have n: "2 * i + 1 < n" by simp
    note C = child_largest[OF j_def n]
    show ?thesis
    proof (cases "heap_Less h j i")
      case noless: False
      have "dst h m \<le> dst h (parent m)" if m: "0 < m" "m < n" for m
      proof (cases "parent m = i")
        case True
        then show ?thesis using C(5)[OF m(2,1)] noless by (simp add: heap_Less_def)
      qed (rule A[OF m])
      then show ?thesis using noless by (simp add: unf heap_prefix_def)
    next
      case True
      have lt: "i < length h" "j < length h" "i \<noteq> j" using C(1,4) 1(2) by auto
      have S: "dst (heap_Swap i j h) m = (if m = i then dst h j else if m = j then dst h i else dst h m)" for m
        using Swap_nth[OF lt, of m] by simp
      have less: "dst h i < dst h j" using True by (simp add: heap_Less_def)
      have "below n j (heap_Swap i j h)"
        unfolding below_def
      proof (intro allI impI conjI)
        fix m assume m: "0 < m" "m < n"
        have pm: "parent m < m" by (rule parent_less[OF m(1)])
        show "dst (heap_Swap i j h) m \<le> dst (heap_Swap i j h) (parent m)" if "parent m \<noteq> j"
        proof (cases "parent m = i")
          case True
          then show ?thesis using C(5)[OF m(2,1)] less pm by (simp add: S)
        next
          case False
          have "m = i \<Longrightarrow> dst h j \<le> dst h (parent i)" using B[OF C(3,1,2)] m(1) by simp
          then show ?thesis using A[OF m False] False that C(2) by (auto simp: S)
        qed
        show "dst (heap_Swap i j h) m \<le> dst (heap_Swap i j h) (parent j)" if "parent m = j"
          using A[OF m] that C(2,4) pm by (simp add: S)
      qed
      moreover have jd: "j = (if 2 * i + 1 + 1 < n \<and> heap_Less h (2 * i + 1 + 1) (2 * i + 1) then 2 * i + 1 + 1 else 2 * i + 1)"
        by (simp add: j_def)
      ultimately have IH: "heap_prefix n (heap_down n j (heap_Swap i j h)) \<and> mset (heap_down n j (heap_Swap i j h)) = mset (heap_Swap i j h)
          \<and> length (heap_down n j (heap_Swap i j h)) = length (heap_Swap i j h)
          \<and> (\<forall>m \<ge> n. m < length (heap_Swap i j h) \<longrightarrow> heap_down n j (heap_Swap i j h) ! m = heap_Swap i j h ! m)"
        using "1.IH"[OF refl _ jd] n True 1(2) unfolding length_Swap linorder_not_le not_not by blast
      have "heap_Swap i j h ! m = h ! m" if "n \<le> m" for m
        using Swap_nth[OF lt, of m] that C(1,4) by auto
      then show ?thesis using IH lt True n by (simp add: unf)
    qed
  qed
qed

lemma heap_root: "is_heap h \<Longrightarrow> i < length h \<Longrightarrow> dst h i \<le> dst h 0"
proof (induction i rule: less_induct)
  case (less i)
  show ?case
  proof (cases "i = 0")
    case False
    then have "parent i < i" by (simp add: parent_less)
    then have "dst h (parent i) \<le> dst h 0" using less by simp
    moreover have "dst h i \<le> dst h (parent i)" using less.prems False by (simp add: is_heap_def)
    ultimately show ?thesis by simp
  qed simp
qed

lemma is_heap_Nil [simp]: "is_heap []"
  by (simp add: is_heap_def)

lemma heap_Push_heap:
  assumes "is_heap h"
  shows "is_heap (heap_Push x h)" and "mset (heap_Push x h) = add_mset x (mset h)"
proof -
  have "above (length h) (h @ [x])"
    unfolding above_def
  proof (intro allI impI conjI)
    fix i assume i: "0 < i" "i < length (h @ [x])"
    have p: "parent i < i" by (rule parent_less[OF i(1)])
    show "dst (h @ [x]) i \<le> dst (h @ [x]) (parent i)" if "i \<noteq> length h"
      using assms i p that by (simp add: is_heap_def nth_append)
    show "dst (h @ [x]) i \<le> dst (h @ [x]) (parent (length h))" if "parent i = length h"
      using i p that by simp
  qed
  then show "is_heap (heap_Push x h)" "mset (heap_Push x h) = add_mset x (mset h)"
    using heap_up_heap[of "length h" "h @ [x]"] by (simp_all add: heap_Push_def MaxHeap_Push_def)
qed

lemma heap_Pop_heap:
  assumes "is_heap h" and "h \<noteq> []"
  shows "\<exists>h'. heap_Pop h = Some (h ! 0, h') \<and> is_heap h' \<and> mset h = add_mset (h ! 0) (mset h')"
proof -
  let ?n = "length h - 1" and ?s = "heap_Swap 0 (length h - 1) h"
  let ?d = "heap_down ?n 0 ?s"
  have sw: "?s ! k = (if k = 0 then h ! ?n else if k = ?n then h ! 0 else h ! k)" if "?n \<noteq> 0" for k
    using Swap_nth[of 0 h ?n k] that assms(2) by auto
  have "below ?n 0 ?s"
    unfolding below_def
  proof (intro allI impI conjI)
    fix i assume i: "0 < i" "i < ?n"
    show "dst ?s i \<le> dst ?s (parent i)" if "parent i \<noteq> 0"
      using assms(1) i that parent_less[OF i(1)] sw by (simp add: is_heap_def)
  qed simp
  then have D: "heap_prefix ?n ?d" "mset ?d = mset ?s" "length ?d = length h" "?d ! ?n = ?s ! ?n"
    using heap_down_heap[of ?n ?s 0] assms(2) by auto
  have last: "?s ! ?n = h ! 0"
  proof (cases "?n = 0")
    case True
    then show ?thesis by (simp add: heap_Swap_def)
  next
    case False
    then show ?thesis using sw[of ?n] by simp
  qed
  have "is_heap (take ?n ?d)"
    unfolding is_heap_def
  proof (intro allI impI)
    fix i assume i: "0 < i" "i < length (take ?n ?d)"
    then have "parent i < ?n" "i < ?n" using parent_less[OF i(1)] by auto
    then show "dst (take ?n ?d) i \<le> dst (take ?n ?d) (parent i)" using D(1) i(1) by (simp add: heap_prefix_def)
  qed
  moreover have "?d = take ?n ?d @ [?d ! ?n]"
    using D(3) assms(2) by (metis Suc_pred' length_greater_0_conv lessI take_Suc_conv_app_nth take_all order_refl)
  then have "mset ?d = mset (take ?n ?d @ [?d ! ?n])" by (rule arg_cong)
  then have "mset ?d = add_mset (h ! 0) (mset (take ?n ?d))" using D(4) last by simp
  moreover have "mset ?s = mset h" using assms(2) by simp
  ultimately show ?thesis using D assms(2) last by (auto simp: heap_Pop_def MaxHeap_Pop_def Let_def)
qed

section \<open>The selection\<close>

definition selects :: "nat \<Rightarrow> distance_entry multiset \<Rightarrow> max_heap \<Rightarrow> bool" where
  "selects n M h \<longleftrightarrow> is_heap h \<and> length h \<le> n \<and> (\<exists>R. M = mset h + R \<and> (R \<noteq> {#} \<longrightarrow> length h = n)
     \<and> (\<forall>x \<in># R. \<forall>y \<in> set h. entry_distance y \<le> entry_distance x))"

lemma heap_root_set: "is_heap h \<Longrightarrow> y \<in> set h \<Longrightarrow> entry_distance y \<le> dst h 0"
  using heap_root by (metis in_set_conv_nth)

lemma offer_selects:
  assumes "selects n M h" and "0 < n"
  shows "\<exists>h'. offer (int n) e h = Some h' \<and> selects n (add_mset e M) h'"
proof -
  obtain R where R: "is_heap h" "length h \<le> n" "M = mset h + R" "R \<noteq> {#} \<Longrightarrow> length h = n"
      "\<forall>x \<in># R. \<forall>y \<in> set h. entry_distance y \<le> entry_distance x"
    using assms(1) by (auto simp: selects_def)
  note P = heap_Push_heap[of _ e]
  have len: "length (heap_Push e h') = Suc (length h')" if "is_heap h'" for h'
    using P(2)[OF that] by (metis size_add_mset size_mset)
  show ?thesis
  proof (cases "length h < n")
    case True
    then have "R = {#}" using R(4) by auto
    then show ?thesis using True R P[OF R(1)] len[OF R(1)] by (auto simp: offer_def selects_def)
  next
    case full: False
    then have ne: "h \<noteq> []" "length h = n" using assms(2) R(2) by auto
    have root: "h ! 0 \<in> set h" using ne(1) by (simp add: nth_mem)
    show ?thesis
    proof (cases "entry_distance e < dst h 0")
      case True
      obtain h' where h': "heap_Pop h = Some (h ! 0, h')" "is_heap h'" "mset h = add_mset (h ! 0) (mset h')"
        using heap_Pop_heap[OF R(1) ne(1)] by blast
      have l: "length h = Suc (length h')" using h'(3) by (metis size_add_mset size_mset)
      have sub: "set h' \<subseteq> set h" using h'(3) by (metis set_mset_add_mset_insert set_mset_mset subset_insertI)
      have ps: "set (heap_Push e h') = insert e (set h')" using P(2)[OF h'(2)] by (metis set_mset_add_mset_insert set_mset_mset)
      have "entry_distance y \<le> entry_distance x" if "x \<in># add_mset (h ! 0) R" "y \<in> set (heap_Push e h')" for x y
      proof -
        have y: "entry_distance y \<le> dst h 0" using that(2) ps sub heap_root_set[OF R(1)] True by auto
        show ?thesis
        proof (cases "x = h ! 0")
          case False
          then have "dst h 0 \<le> entry_distance x" using that(1) R(5) root by auto
          with y show ?thesis by simp
        qed (use y in simp)
      qed
      moreover have "add_mset e M = mset (heap_Push e h') + add_mset (h ! 0) R" using R(3) h'(3) P(2)[OF h'(2)] by simp
      ultimately have "selects n (add_mset e M) (heap_Push e h')"
        unfolding selects_def using P(1)[OF h'(2)] len[OF h'(2)] l ne(2) by auto
      then show ?thesis using full True ne h'(1) by (simp add: offer_def)
    next
      case False
      have "entry_distance y \<le> entry_distance x" if "x \<in># add_mset e R" "y \<in> set h" for x y
        using that False R(5) heap_root_set[OF R(1) that(2)] by auto
      then have "selects n (add_mset e M) h"
        unfolding selects_def using R(1-3) ne(2) by (auto intro!: exI[of _ "add_mset e R"])
      then show ?thesis using full False ne by (simp add: offer_def)
    qed
  qed
qed

lemma offer_all_selects:
  "selects n M h \<Longrightarrow> 0 < n \<Longrightarrow> \<exists>h'. offer_all (int n) es h = Some h' \<and> selects n (M + mset es) h'"
proof (induction es arbitrary: M h)
  case (Cons e es)
  obtain h1 where h1: "offer (int n) e h = Some h1" "selects n (add_mset e M) h1"
    using offer_selects[OF Cons.prems] by blast
  obtain h' where "offer_all (int n) es h1 = Some h'" "selects n (add_mset e M + mset es) h'"
    using Cons.IH[OF h1(2) Cons.prems(2)] by blast
  with h1(1) show ?case by auto
qed simp

lemma drain_sorted:
  "is_heap h \<Longrightarrow> length h = k \<Longrightarrow>
   \<exists>L. drain k h acc = Some (map str L @ acc) \<and> mset L = mset h \<and> sorted (map entry_distance L)"
proof (induction k arbitrary: h acc)
  case (Suc k)
  then have ne: "h \<noteq> []" by auto
  obtain h' where h': "heap_Pop h = Some (h ! 0, h')" "is_heap h'" "mset h = add_mset (h ! 0) (mset h')"
    using heap_Pop_heap[OF Suc.prems(1) ne] by blast
  have "length h' = k" using h'(3) Suc.prems(2) by (metis Suc_inject size_add_mset size_mset)
  then obtain L where L: "drain k h' (str (h ! 0) # acc) = Some (map str L @ str (h ! 0) # acc)" "mset L = mset h'" "sorted (map entry_distance L)"
    using Suc.IH[OF h'(2)] by blast
  have "set L \<subseteq> set h" using L(2) h'(3) by (metis set_mset_add_mset_insert set_mset_mset subset_insertI)
  then have "sorted (map entry_distance (L @ [h ! 0]))"
    using L(3) heap_root_set[OF Suc.prems(1)] by (auto simp: sorted_append)
  moreover have "mset (L @ [h ! 0]) = mset h" using L(2) h'(3) by simp
  moreover have "drain (Suc k) h acc = Some (map str (L @ [h ! 0]) @ acc)" using h'(1) L(1) by simp
  ultimately show ?case by blast
qed simp

lemma sorted_selection:
  assumes "sorted (map f L)" and "mset es = mset L + R" and "\<forall>x \<in># R. \<forall>y \<in> set L. f y \<le> (f x :: nat)"
    and "length L \<le> n" and "R \<noteq> {#} \<Longrightarrow> length L = n"
  shows "map f L = take n (sort (map f es))"
proof -
  obtain r where r: "mset r = R" by (metis ex_mset)
  have "sorted (map f L @ sort (map f r))" using assms(1,3) r by (auto simp: sorted_append)
  moreover have "mset (map f L @ sort (map f r)) = mset (map f es)"
    using assms(2) r by simp
  ultimately have "sort (map f es) = map f L @ sort (map f r)" by (metis properties_for_sort)
  moreover have "r = [] \<or> length L = n" using assms(5) r by (cases "r = []") auto
  ultimately show ?thesis using assms(4) by auto
qed

text \<open>C14. The heap finds the closest strings: for a positive \<open>n\<close> the strings returned are strings of the list that are
  not ignored, each as often as it is there at most, and their distances are the \<open>n\<close> smallest ones, in ascending order.\<close>

theorem GetNClosest_correct:
  assumes "0 < n"
  shows "\<exists>res. GetNClosestXORDistanceStringToAGivenComparisonString H n comparison strs ignores = Some res
    \<and> mset res \<subseteq># mset (filter (\<lambda>s. s \<notin> set ignores) strs)
    \<and> map (\<lambda>s. ComputeXorDistanceBetweenTwoStrings H s comparison) res
      = take (nat n) (sort (map (\<lambda>s. ComputeXorDistanceBetweenTwoStrings H s comparison) (filter (\<lambda>s. s \<notin> set ignores) strs)))"
proof -
  let ?d = "\<lambda>s. ComputeXorDistanceBetweenTwoStrings H s comparison" and ?c = "filter (\<lambda>s. s \<notin> set ignores) strs"
  let ?e = "\<lambda>s. \<lparr>entry_distance = ?d s, str = s\<rparr>"
  have n: "n = int (nat n)" "0 < nat n" using assms by auto
  have "selects (nat n) {#} []" by (simp add: selects_def)
  then obtain h where h: "offer_all n (map ?e ?c) [] = Some h" "selects (nat n) (mset (map ?e ?c)) h"
    using offer_all_selects[of "nat n" "{#}" "[]" "map ?e ?c"] n by auto
  then obtain R where R: "is_heap h" "length h \<le> nat n" "mset (map ?e ?c) = mset h + R" "R \<noteq> {#} \<Longrightarrow> length h = nat n"
      "\<forall>x \<in># R. \<forall>y \<in> set h. entry_distance y \<le> entry_distance x"
    by (auto simp: selects_def)
  obtain L where L: "drain (length h) h [] = Some (map str L)" "mset L = mset h" "sorted (map entry_distance L)"
    using drain_sorted[OF R(1) refl, of "[]"] by auto
  have sl: "set L = set h" "length L = length h" using L(2) by (metis set_mset_mset, metis size_mset)
  have "set h \<subseteq> set (map ?e ?c)" using R(3) by (metis set_mset_mset set_mset_union Un_upper1)
  then have de: "map ?d (map str L) = map entry_distance L" using sl(1) by (auto simp: subset_eq)
  have "map entry_distance L = take (nat n) (sort (map entry_distance (map ?e ?c)))"
    using sorted_selection[OF L(3), of "map ?e ?c" R "nat n"] R sl L(2) by simp
  moreover have "mset ?c = image_mset str (mset (map ?e ?c))" by (simp add: image_mset.compositionality o_def)
  then have "mset (map str L) \<subseteq># mset ?c" using R(3) L(2) by simp
  ultimately show ?thesis using h(1) L(1) de by (simp add: GetNClosestXORDistanceStringToAGivenComparisonString_def o_def)
qed

theorem GetNClosest_correct_witness:
  "\<exists>res. GetNClosestXORDistanceStringToAGivenComparisonString (take 32) 2 ''a'' [''d'', ''c'', ''b'', ''a''] [''a''] = Some res
    \<and> mset res \<subseteq># mset [''d'', ''c'', ''b'']
    \<and> map (\<lambda>s. ComputeXorDistanceBetweenTwoStrings (take 32) s ''a'') res = [2, 3]"
proof -
  have "take (nat 2) (sort (map (\<lambda>s. ComputeXorDistanceBetweenTwoStrings (take 32) s ''a'') (filter (\<lambda>s. s \<notin> set [''a'']) [''d'', ''c'', ''b'', ''a'']))) = [2, 3]"
    by code_simp
  moreover have "filter (\<lambda>s. s \<notin> set [''a'']) [''d'', ''c'', ''b'', ''a''] = [''d'', ''c'', ''b'']" by simp
  ultimately show ?thesis using GetNClosest_correct[of 2 "take 32" "''a''" "[''d'', ''c'', ''b'', ''a'']" "[''a'']"] by simp
qed

text \<open>With \<open>n\<close> not positive the first string that is not ignored is compared with the root of an empty heap: a panic.\<close>

lemma GetNClosest_zero_panics:
  assumes "n \<le> 0" and "s \<in> set strs" and "s \<notin> set ignores"
  shows "GetNClosestXORDistanceStringToAGivenComparisonString H n comparison strs ignores = None"
proof -
  have "filter (\<lambda>s. s \<notin> set ignores) strs \<noteq> []" using assms(2,3) by (auto simp: filter_empty_conv)
  then obtain t ts where "filter (\<lambda>s. s \<notin> set ignores) strs = t # ts" by (cases "filter (\<lambda>s. s \<notin> set ignores) strs") auto
  then show ?thesis using assms(1) by (simp add: GetNClosestXORDistanceStringToAGivenComparisonString_def offer_def)
qed

end
