(* ===== verification/Tasks.thy ===== *)
theory Tasks
  imports Go_Lib "HOL-Library.Multiset"
begin

text \<open>
  Tasks and their workers (\<^verbatim>\<open>pkg/common/task\<close>): the state of a task with its history and subscriptions
  (\<^verbatim>\<open>state/state.go\<close>, \<^verbatim>\<open>state/status.go\<close>), the task with its actions (\<^verbatim>\<open>task.go\<close>, \<^verbatim>\<open>action.go\<close>), and the
  pool of tasks (\<^verbatim>\<open>worker.go\<close>) as a step relation of its goroutines.  A status is its text and the time; the
  history database is a list of rows and \<open>e\<close> the outcome of writing to it.
\<close>

section \<open>The state of a task\<close>

record status =
  CreatedAt :: timestamp
  SubStatus :: string

definition NewStatus :: "timestamp \<Rightarrow> string \<Rightarrow> status" where
  "NewStatus now sub = \<lparr>CreatedAt = now, SubStatus = sub\<rparr>"

definition status_Is :: "status \<Rightarrow> string \<Rightarrow> bool" where
  "status_Is st sub = (SubStatus st = sub)"

text \<open>A subscriber's channel is unbuffered: each status it is to get is held by a goroutine that waits to send it.\<close>

record subscription =
  sending :: "status list"
  received :: "status list"

record task_state =
  cur_status :: status
  history :: "status list"
  notify :: bool
  notified :: "status list"
  subsCh :: "subscription list"
  taskID :: string
  history_db :: "(string \<times> string) list"

definition state_New :: "string option \<Rightarrow> timestamp \<Rightarrow> string \<Rightarrow> string \<Rightarrow> (string \<times> string) list \<Rightarrow> task_state" where
  "state_New e now sub tid db = \<lparr>cur_status = NewStatus now sub, history = [], notify = False, notified = [], subsCh = [], taskID = tid,
     history_db = (if e = None then db @ [(tid, sub)] else db)\<rparr>"

definition RequiredStatus :: "string \<Rightarrow> task_state \<Rightarrow> string option" where
  "RequiredStatus sub s =
     (if status_Is (cur_status s) sub then None
      else Some (''required status '' @ sub @ '', current '' @ SubStatus (cur_status s)))"

definition StatusHistory :: "task_state \<Rightarrow> status list" where
  "StatusHistory s = history s @ [cur_status s]"

definition UpdateStatus :: "string option \<Rightarrow> timestamp \<Rightarrow> string \<Rightarrow> task_state \<Rightarrow> task_state" where
  "UpdateStatus e now sub s = (
     let st = NewStatus now sub;
         s1 = s\<lparr>history := history s @ [cur_status s], cur_status := st\<rparr>;
         s2 = (if e = None then s1\<lparr>history_db := history_db s1 @ [(taskID s1, sub)]\<rparr> else s1);
         s3 = (if notify s2 then s2\<lparr>notified := notified s2 @ [st]\<rparr> else s2)
     in s3\<lparr>subsCh := map (\<lambda>c. c\<lparr>sending := sending c @ [st]\<rparr>) (subsCh s3)\<rparr>)"

definition SubscribeStatus :: "task_state \<Rightarrow> task_state" where
  "SubscribeStatus s = s\<lparr>subsCh := subsCh s @ [\<lparr>sending = history s @ [cur_status s], received = []\<rparr>]\<rparr>"

text \<open>Subscriber \<open>i\<close> receives from the \<open>j\<close>th of the goroutines that wait for it.\<close>

definition deliver :: "nat \<Rightarrow> nat \<Rightarrow> task_state \<Rightarrow> task_state" where
  "deliver i j s =
     (if i < length (subsCh s) \<and> j < length (sending (subsCh s ! i)) then
        let c = subsCh s ! i in
        s\<lparr>subsCh := (subsCh s)[i := \<lparr>sending = take j (sending c) @ drop (Suc j) (sending c), received = received c @ [sending c ! j]\<rparr>]\<rparr>
      else s)"

datatype state_event = EvUpdate "string option" timestamp string | EvSubscribe | EvDeliver nat nat

fun state_step :: "state_event \<Rightarrow> task_state \<Rightarrow> task_state" where
  "state_step (EvUpdate e now sub) s = UpdateStatus e now sub s"
| "state_step EvSubscribe s = SubscribeStatus s"
| "state_step (EvDeliver i j) s = deliver i j s"

section \<open>The task and its actions\<close>

text \<open>An action is known by its number.  \<open>action_open\<close> is the action channel, which has no buffer.\<close>

record task =
  task_done :: bool
  action_open :: bool

definition task_New :: task where
  "task_New = \<lparr>task_done = False, action_open = True\<rparr>"

definition task_Cancel :: "task \<Rightarrow> task" where
  "task_Cancel t = (if task_done t then t else t\<lparr>task_done := True\<rparr>)"

definition CloseActionCh :: "task \<Rightarrow> task" where
  "CloseActionCh t = (if action_open t then t\<lparr>action_open := False\<rparr> else t)"

text \<open>A send on a closed channel panics; on the open one it waits for \<^verbatim>\<open>RunAction\<close>.\<close>

definition task_NewAction :: "nat \<Rightarrow> task \<Rightarrow> nat option" where
  "task_NewAction a t = (if action_open t then Some a else None)"

text \<open>What the loop of \<^verbatim>\<open>RunAction\<close> selects: the end of the context or of the task, an action, or the closed channel.
  The actions run in goroutines; \<open>order\<close> is the order in which they end and \<open>run\<close> their results.  The group returns
  the first error.\<close>

datatype run_event = CtxDone | TaskDone | NextAction nat | ActionsClosed

fun accepted :: "run_event list \<Rightarrow> nat list" where
  "accepted (NextAction a # evs) = a # accepted evs"
| "accepted _ = []"

fun first_error :: "(nat \<Rightarrow> string option) \<Rightarrow> nat list \<Rightarrow> string option" where
  "first_error run [] = None"
| "first_error run (a # as) = (case run a of Some m \<Rightarrow> Some m | None \<Rightarrow> first_error run as)"

definition RunAction :: "(nat list \<Rightarrow> nat list) \<Rightarrow> (nat \<Rightarrow> string option) \<Rightarrow> run_event list \<Rightarrow> string option \<times> nat list" where
  "RunAction order run evs = (let ran = order (accepted evs) in (first_error run ran, ran))"

section \<open>The worker\<close>

text \<open>\<^verbatim>\<open>AddTask\<close> appends the task and sends it on the unbuffered channel while it holds the lock: \<open>adding\<close> is the task of
  the goroutine that waits in this send.  \<^verbatim>\<open>Run\<close> receives it and runs it in a goroutine, which at the end waits for the
  lock in \<^verbatim>\<open>RemoveTask\<close>.  When the context is done \<^verbatim>\<open>Run\<close> may leave its loop and wait for these goroutines.\<close>

record worker =
  tasks :: "nat list"
  adding :: "nat option"
  running :: "nat list"
  removing :: "nat list"
  ctx_done :: bool
  stopping :: bool
  returned :: bool

definition NewWorker :: worker where
  "NewWorker = \<lparr>tasks = [], adding = None, running = [], removing = [], ctx_done = False, stopping = False, returned = False\<rparr>"

definition RemoveTask :: "nat \<Rightarrow> nat list \<Rightarrow> nat list" where
  "RemoveTask t ts = remove_first ((=) t) ts"

definition worker_Task :: "nat \<Rightarrow> worker \<Rightarrow> nat option" where
  "worker_Task t w = find ((=) t) (tasks w)"

inductive worker_step :: "worker \<Rightarrow> worker \<Rightarrow> bool" where
  add: "adding w = None \<Longrightarrow> worker_step w (w\<lparr>tasks := tasks w @ [t], adding := Some t\<rparr>)"
| receive: "adding w = Some t \<Longrightarrow> \<not> stopping w \<Longrightarrow> worker_step w (w\<lparr>adding := None, running := t # running w\<rparr>)"
| finish: "t \<in> set (running w) \<Longrightarrow> worker_step w (w\<lparr>running := remove1 t (running w), removing := t # removing w\<rparr>)"
| remove: "t \<in> set (removing w) \<Longrightarrow> adding w = None \<Longrightarrow>
    worker_step w (w\<lparr>tasks := RemoveTask t (tasks w), removing := remove1 t (removing w)\<rparr>)"
| cancel: "worker_step w (w\<lparr>ctx_done := True\<rparr>)"
| stop: "ctx_done w \<Longrightarrow> worker_step w (w\<lparr>stopping := True\<rparr>)"
| return: "stopping w \<Longrightarrow> running w = [] \<Longrightarrow> removing w = [] \<Longrightarrow> worker_step w (w\<lparr>returned := True\<rparr>)"

inductive_cases worker_stepE: "worker_step w w'"

section \<open>Lemmas\<close>

definition subs_ok :: "task_state \<Rightarrow> bool" where
  "subs_ok s \<longleftrightarrow> (\<forall>c \<in> set (subsCh s). mset (sending c) + mset (received c) = mset (StatusHistory s))"

lemma subs_ok_step: "subs_ok s \<Longrightarrow> subs_ok (state_step ev s)"
proof (induction ev s rule: state_step.induct)
  case (1 e now sub s)
  then show ?case by (auto simp: subs_ok_def UpdateStatus_def StatusHistory_def Let_def)
next
  case (2 s)
  then show ?case by (auto simp: subs_ok_def SubscribeStatus_def StatusHistory_def)
next
  case (3 i j s)
  show ?case
  proof (cases "i < length (subsCh s) \<and> j < length (sending (subsCh s ! i))")
    case True
    let ?c = "subsCh s ! i"
    let ?c' = "\<lparr>sending = take j (sending ?c) @ drop (Suc j) (sending ?c), received = received ?c @ [sending ?c ! j]\<rparr>"
    have "mset (sending ?c) = add_mset (sending ?c ! j) (mset (take j (sending ?c)) + mset (drop (Suc j) (sending ?c)))"
      using True by (metis id_take_nth_drop mset.simps(2) mset_append union_mset_add_mset_right)
    moreover have "mset (sending ?c) + mset (received ?c) = mset (StatusHistory s)" using 3 True by (simp add: subs_ok_def)
    ultimately have "mset (sending ?c') + mset (received ?c') = mset (StatusHistory s)" by simp
    then have "\<forall>c \<in> set ((subsCh s)[i := ?c']). mset (sending c) + mset (received c) = mset (StatusHistory s)"
      using 3 True by (auto simp: subs_ok_def dest!: subsetD[OF set_update_subset_insert])
    then show ?thesis using True by (simp add: deliver_def subs_ok_def StatusHistory_def Let_def)
  qed (use 3 in \<open>auto simp: deliver_def\<close>)
qed

lemma subs_ok_run: "subs_ok s \<Longrightarrow> subs_ok (fold state_step evs s)"
  by (induction evs arbitrary: s) (auto intro: subs_ok_step)

definition worker_inv :: "worker \<Rightarrow> bool" where
  "worker_inv w \<longleftrightarrow> mset (tasks w) = (case adding w of None \<Rightarrow> {#} | Some t \<Rightarrow> {#t#}) + mset (running w) + mset (removing w)
     \<and> (stopping w \<longrightarrow> ctx_done w) \<and> (returned w \<longrightarrow> stopping w)"

lemma mset_RemoveTask: "mset (RemoveTask t ts) = mset ts - {#t#}"
proof -
  have "remove_first ((=) t) ts = remove1 t ts" by (induction ts) auto
  then show ?thesis by (simp add: RemoveTask_def)
qed

lemma worker_step_inv [inv_intros]: "worker_step w w' \<Longrightarrow> worker_inv w \<Longrightarrow> worker_inv w'"
proof (induction rule: worker_step.induct)
  case (remove t w)
  have "t \<in># mset (removing w)" using remove(1) by simp
  then have "mset (running w) + mset (removing w) - {#t#} = mset (running w) + (mset (removing w) - {#t#})"
    by (rule diff_union_single_conv)
  moreover have "mset (tasks w) = mset (running w) + mset (removing w)" using remove(2,3) by (simp add: worker_inv_def)
  ultimately have "mset (RemoveTask t (tasks w)) = mset (running w) + mset (remove1 t (removing w))"
    by (simp only: mset_RemoveTask mset_remove1)
  then show ?case using remove(2,3) unfolding worker_inv_def by simp
qed (auto simp: worker_inv_def split: option.splits)

lemma worker_reach_inv: "worker_step\<^sup>*\<^sup>* w w' \<Longrightarrow> worker_inv w \<Longrightarrow> worker_inv w'"
  by (induction rule: rtranclp_induct) (auto intro: inv_intros)

text \<open>The goroutines of a worker that has left its loop while a task was being added.\<close>

definition jammed :: "nat \<Rightarrow> worker \<Rightarrow> bool" where
  "jammed t w \<longleftrightarrow> adding w = Some t \<and> stopping w \<and> \<not> returned w \<and> (running w \<noteq> [] \<or> removing w \<noteq> [])"

lemma jammed_step: "worker_step w w' \<Longrightarrow> jammed t w \<Longrightarrow> jammed t w'"
  by (induction rule: worker_step.induct) (auto simp: jammed_def)

lemma jammed_reach: "worker_step\<^sup>*\<^sup>* w w' \<Longrightarrow> jammed t w \<Longrightarrow> jammed t w'"
  by (induction rule: rtranclp_induct) (auto intro: jammed_step)

section \<open>Properties\<close>

text \<open>A subscriber of a task misses no status: whatever updates, subscriptions and deliveries happen and in whatever
  order the waiting sends are received, what a subscriber has received and what still waits for it are together the whole
  history of the task, each status as often as it occurred; so once nothing waits it has received exactly the history.\<close>

theorem subscribers_get_history:
  assumes "c \<in> set (subsCh (fold state_step evs (state_New e now sub tid db)))"
  shows "mset (sending c) + mset (received c) = mset (StatusHistory (fold state_step evs (state_New e now sub tid db)))"
proof -
  have "subs_ok (state_New e now sub tid db)" by (simp add: subs_ok_def state_New_def)
  from subs_ok_run[OF this] assms show ?thesis unfolding subs_ok_def by blast
qed

theorem subscribers_get_history_witness:
  "\<exists>c. c \<in> set (subsCh (fold state_step [EvSubscribe, EvUpdate None 2 ''done'', EvDeliver 0 1] (state_New None 1 ''start'' ''id'' [])))
     \<and> received c = [NewStatus 2 ''done''] \<and> mset (sending c) + mset (received c) = mset [NewStatus 1 ''start'', NewStatus 2 ''done'']"
proof -
  let ?s = "fold state_step [EvSubscribe, EvUpdate None 2 ''done'', EvDeliver 0 1] (state_New None 1 ''start'' ''id'' [])"
  let ?c = "\<lparr>sending = [NewStatus 1 ''start''], received = [NewStatus 2 ''done'']\<rparr>"
  have c: "?c \<in> set (subsCh ?s)" and h: "StatusHistory ?s = [NewStatus 1 ''start'', NewStatus 2 ''done'']"
    by (simp_all add: state_New_def SubscribeStatus_def UpdateStatus_def deliver_def StatusHistory_def Let_def)
  from subscribers_get_history[OF c] h c show ?thesis by (intro exI[of _ ?c]) simp
qed

text \<open>C15. The list of a worker is exact: in every state that it can reach the tasks of the list are the one being added, the
  running ones and those that have ended and wait to be removed, each as often as it was added.\<close>

theorem worker_tasks_exact:
  assumes "worker_step\<^sup>*\<^sup>* NewWorker w"
  shows "mset (tasks w) = (case adding w of None \<Rightarrow> {#} | Some t \<Rightarrow> {#t#}) + mset (running w) + mset (removing w)"
proof -
  have "worker_inv NewWorker" by (simp add: worker_inv_def NewWorker_def)
  from worker_reach_inv[OF assms this] show ?thesis by (simp add: worker_inv_def)
qed

theorem worker_tasks_exact_witness:
  "\<exists>w. worker_step\<^sup>*\<^sup>* NewWorker w \<and> adding w = Some 7 \<and> mset (tasks w) = {#7#}"
proof -
  let ?w = "NewWorker\<lparr>tasks := tasks NewWorker @ [7], adding := Some 7\<rparr>"
  have r: "worker_step\<^sup>*\<^sup>* NewWorker ?w" by (rule r_into_rtranclp, rule worker_step.add) (simp add: NewWorker_def)
  from worker_tasks_exact[OF r] r show ?thesis by (intro exI[of _ ?w]) (simp add: NewWorker_def)
qed

text \<open>The worker can jam when it stops: if its context ends while a task is being added and another one is not yet
  removed, the sender keeps the lock forever, the task can never be removed, and \<^verbatim>\<open>Run\<close> never returns.  Such a state can be
  reached.\<close>

theorem worker_shutdown_deadlock:
  "\<exists>w. worker_step\<^sup>*\<^sup>* NewWorker w \<and> (\<forall>w'. worker_step\<^sup>*\<^sup>* w w' \<longrightarrow> \<not> returned w' \<and> adding w' = Some 2 \<and> 1 \<in> set (tasks w'))"
proof -
  define w1 where "w1 = NewWorker\<lparr>tasks := tasks NewWorker @ [1], adding := Some 1\<rparr>"
  define w2 where "w2 = w1\<lparr>adding := None, running := 1 # running w1\<rparr>"
  define w3 where "w3 = w2\<lparr>tasks := tasks w2 @ [2], adding := Some 2\<rparr>"
  define w4 where "w4 = w3\<lparr>ctx_done := True\<rparr>"
  define w5 where "w5 = w4\<lparr>stopping := True\<rparr>"
  note ws = w1_def w2_def w3_def w4_def w5_def NewWorker_def
  have "worker_step NewWorker w1" unfolding w1_def by (rule worker_step.add) (simp add: NewWorker_def)
  moreover have "worker_step w1 w2" unfolding w2_def by (rule worker_step.receive) (simp_all add: w1_def NewWorker_def)
  moreover have "worker_step w2 w3" unfolding w3_def by (rule worker_step.add) (simp add: w2_def)
  moreover have "worker_step w3 w4" unfolding w4_def by (rule worker_step.cancel)
  moreover have "worker_step w4 w5" unfolding w5_def by (rule worker_step.stop) (simp add: w4_def)
  ultimately have reach: "worker_step\<^sup>*\<^sup>* NewWorker w5" by (meson converse_rtranclp_into_rtranclp rtranclp.rtrancl_refl)
  have "\<not> returned w' \<and> adding w' = Some 2 \<and> 1 \<in> set (tasks w')" if s: "worker_step\<^sup>*\<^sup>* w5 w'" for w'
  proof -
    have "jammed 2 w5" by (simp add: ws jammed_def)
    then have j: "jammed 2 w'" by (rule jammed_reach[OF s])
    have "mset (tasks w') = mset (tasks w5)" using s
    proof (induction rule: rtranclp_induct)
      case (step y z)
      have "adding y = Some 2" using jammed_reach[OF step(1) \<open>jammed 2 w5\<close>] by (simp add: jammed_def)
      then show ?case using step(2,3) by (auto elim!: worker_stepE)
    qed simp
    then have "set (tasks w') = set (tasks w5)" by (metis set_mset_mset)
    moreover have "tasks w5 = [1, 2]" by (simp add: ws)
    ultimately have "1 \<in> set (tasks w')" by simp
    with j show ?thesis by (simp add: jammed_def)
  qed
  with reach show ?thesis by blast
qed

theorem worker_shutdown_deadlock_witness:
  "\<exists>w. worker_step\<^sup>*\<^sup>* NewWorker w \<and> \<not> returned w \<and> adding w = Some 2 \<and> 1 \<in> set (tasks w)"
  using worker_shutdown_deadlock by (meson rtranclp.rtrancl_refl)

end
