(* ===== verification/Block_Tracker.thy ===== *)
theory Block_Tracker
  imports Go_Lib
begin

text \<open>
  The cached block height (\<^verbatim>\<open>pkg/common/blocktracker/block_tracker.go\<close>).  The chain client and the clock are arguments:
  \<open>client n\<close> is the answer to the \<open>n\<close>th call and \<open>clock n\<close> the time of the \<open>n\<close>th reading; the tracker counts both.
\<close>

record block_tracker =
  curBlockCnt :: "32 word"
  lastSuccess :: timestamp
  lastRetried :: timestamp
  lastErr :: "string option"
  retries :: nat
  calls :: nat
  clock_reads :: nat

definition defaultSuccessUpdateDuration :: timestamp where "defaultSuccessUpdateDuration = seconds 10"
definition defaultFailedUpdateDuration :: timestamp where "defaultFailedUpdateDuration = seconds 5"
definition defaultNextBlockTimeout :: timestamp where "defaultNextBlockTimeout = minutes 30"
definition zero_tracker_time :: timestamp where "zero_tracker_time = seconds (- 62135596800)"

definition tracker_New :: block_tracker where
  "tracker_New = \<lparr>curBlockCnt = 0, lastSuccess = zero_tracker_time, lastRetried = zero_tracker_time, lastErr = None, retries = 3,
     calls = 0, clock_reads = 0\<rparr>"

definition read_clock :: "(nat \<Rightarrow> timestamp) \<Rightarrow> block_tracker \<Rightarrow> timestamp \<times> block_tracker" where
  "read_clock clock b = (clock (clock_reads b), b\<lparr>clock_reads := Suc (clock_reads b)\<rparr>)"

fun refresh_loop :: "(nat \<Rightarrow> 32 word result) \<Rightarrow> (nat \<Rightarrow> timestamp) \<Rightarrow> nat \<Rightarrow> block_tracker \<Rightarrow> block_tracker" where
  "refresh_loop client clock 0 b = b"
| "refresh_loop client clock (Suc k) b = (
     let b1 = b\<lparr>calls := Suc (calls b)\<rparr> in
     case client (calls b) of
       Inr cnt \<Rightarrow> (let (t, b2) = read_clock clock (b1\<lparr>curBlockCnt := cnt\<rparr>) in b2\<lparr>lastSuccess := t, lastErr := None\<rparr>)
     | Inl m \<Rightarrow> refresh_loop client clock k (b1\<lparr>lastErr := Some m\<rparr>))"

definition refreshBlockCount :: "(nat \<Rightarrow> 32 word result) \<Rightarrow> (nat \<Rightarrow> timestamp) \<Rightarrow> nat \<Rightarrow> block_tracker \<Rightarrow> block_tracker" where
  "refreshBlockCount client clock k b = (
     let (t, b1) = read_clock clock b in refresh_loop client clock k (b1\<lparr>lastRetried := t\<rparr>))"

definition shouldRefresh :: "timestamp \<Rightarrow> block_tracker \<Rightarrow> bool" where
  "shouldRefresh now b =
     (if lastSuccess b > lastRetried b then now > lastSuccess b + defaultSuccessUpdateDuration
      else now > lastRetried b + defaultFailedUpdateDuration)"

definition GetBlockCount :: "(nat \<Rightarrow> 32 word result) \<Rightarrow> (nat \<Rightarrow> timestamp) \<Rightarrow> block_tracker \<Rightarrow> 32 word result \<times> block_tracker" where
  "GetBlockCount client clock b = (
     let (now, b1) = read_clock clock b;
         b2 = (if shouldRefresh now b1 then refreshBlockCount client clock (retries b1) b1 else b1)
     in if curBlockCnt b2 = 0
        then (errorf (''failed to get blockcount: '' @ (case lastErr b2 of Some m \<Rightarrow> m | None \<Rightarrow> ''<nil>'')), b2)
        else (Inr (curBlockCnt b2), b2))"

text \<open>Each turn of \<^verbatim>\<open>WaitTillNextBlock\<close> starts its own two timers; the select takes the event that is first, among the end
  of the context, \<open>ctx_left\<close> from the start of the turn if it has one, and the two timers.\<close>

datatype wake = WakeCtx | WakeTimeout | WakePoll

definition wake_of :: "timestamp option \<Rightarrow> wake" where
  "wake_of ctx_left =
     (case ctx_left of
        Some d \<Rightarrow>
          if d < defaultSuccessUpdateDuration \<and> d < defaultNextBlockTimeout then WakeCtx
          else if defaultNextBlockTimeout < defaultSuccessUpdateDuration then WakeTimeout else WakePoll
      | None \<Rightarrow> if defaultNextBlockTimeout < defaultSuccessUpdateDuration then WakeTimeout else WakePoll)"

fun WaitTillNextBlock ::
  "nat \<Rightarrow> (nat \<Rightarrow> timestamp option) \<Rightarrow> (nat \<Rightarrow> 32 word result) \<Rightarrow> (nat \<Rightarrow> timestamp) \<Rightarrow> nat \<Rightarrow> 32 word \<Rightarrow> block_tracker \<Rightarrow>
   (string option \<times> block_tracker) option" where
  "WaitTillNextBlock 0 ctx client clock turn blockCnt b = None"
| "WaitTillNextBlock (Suc fuel) ctx client clock turn blockCnt b =
     (case wake_of (ctx turn) of
        WakeCtx \<Rightarrow> Some (Some ''context done'', b)
      | WakeTimeout \<Rightarrow> Some (Some ''timeout waiting for next block'', b)
      | WakePoll \<Rightarrow>
          (case GetBlockCount client clock b of
             (Inl m, b1) \<Rightarrow> Some (Some (''failed to get blockcount: '' @ m), b1)
           | (Inr cur, b1) \<Rightarrow>
               if sint cur > sint blockCnt then Some (None, b1)
               else WaitTillNextBlock fuel ctx client clock (Suc turn) blockCnt b1))"

section \<open>Lemmas\<close>

lemma refresh_loop_calls: "calls (refresh_loop client clock k b) \<le> calls b + k"
proof (induction k arbitrary: b)
  case (Suc k)
  then show ?case using Suc[of "b\<lparr>calls := Suc (calls b), lastErr := Some m\<rparr>" for m]
    by (auto simp: Let_def read_clock_def split: sum.splits)
qed simp

lemma refresh_loop_cnt:
  "curBlockCnt (refresh_loop client clock k b) = curBlockCnt b \<or> (\<exists>i. client i = Inr (curBlockCnt (refresh_loop client clock k b)))"
proof (induction k arbitrary: b)
  case (Suc k)
  then show ?case using Suc[of "b\<lparr>calls := Suc (calls b), lastErr := Some m\<rparr>" for m]
    by (auto simp: Let_def read_clock_def split: sum.splits)
qed simp

lemma refresh_loop_answer:
  assumes "i < k" and "\<forall>j < i. isl (client (calls b + j))" and "client (calls b + i) = Inr cnt"
  shows "curBlockCnt (refresh_loop client clock k b) = cnt \<and> lastErr (refresh_loop client clock k b) = None"
  using assms
proof (induction k arbitrary: b i)
  case (Suc k)
  show ?case
  proof (cases i)
    case 0
    then show ?thesis using Suc.prems(3) by (simp add: Let_def read_clock_def)
  next
    case (Suc i')
    obtain m where m: "client (calls b) = Inl m" using Suc.prems(2) Suc by (metis isl_def add.right_neutral zero_less_Suc)
    have "\<forall>j < i'. isl (client (Suc (calls b) + j))" using Suc.prems(2) Suc by auto
    then show ?thesis using Suc.IH[of i' "b\<lparr>calls := Suc (calls b), lastErr := Some m\<rparr>"] Suc.prems Suc m by (simp add: Let_def)
  qed
qed simp

lemma wake_never_times_out: "wake_of d \<noteq> WakeTimeout"
  by (simp add: wake_of_def defaultNextBlockTimeout_def defaultSuccessUpdateDuration_def split: option.split)

section \<open>Properties\<close>

text \<open>What \<^verbatim>\<open>GetBlockCount\<close> returns: within ten seconds of a success (and five of a failure) the cached height, without a
  call; otherwise it calls the client at most three times and returns the first height it gets.  A height that is
  returned was once an answer of the client, or was in the cache.\<close>

theorem GetBlockCount_correct:
  "(\<not> shouldRefresh (clock (clock_reads b)) b \<and> curBlockCnt b \<noteq> 0 \<longrightarrow> fst (GetBlockCount client clock b) = Inr (curBlockCnt b) \<and> calls (snd (GetBlockCount client clock b)) = calls b)
   \<and> (shouldRefresh (clock (clock_reads b)) b \<and> i < retries b \<and> (\<forall>j < i. isl (client (calls b + j))) \<and> client (calls b + i) = Inr cnt \<and> cnt \<noteq> 0
        \<longrightarrow> fst (GetBlockCount client clock b) = Inr cnt)
   \<and> calls (snd (GetBlockCount client clock b)) \<le> calls b + retries b
   \<and> (\<forall>v. fst (GetBlockCount client clock b) = Inr v \<longrightarrow> v = curBlockCnt b \<or> (\<exists>n. client n = Inr v))"
proof -
  define b1 where "b1 = b\<lparr>clock_reads := Suc (clock_reads b)\<rparr>"
  define b2 where "b2 = b1\<lparr>clock_reads := Suc (clock_reads b1), lastRetried := clock (clock_reads b1)\<rparr>"
  have s: "shouldRefresh t b1 = shouldRefresh t b" for t by (simp add: shouldRefresh_def b1_def)
  have r: "refreshBlockCount client clock (retries b1) b1 = refresh_loop client clock (retries b) b2"
    by (simp add: refreshBlockCount_def read_clock_def b2_def b1_def)
  have f: "calls b2 = calls b" "curBlockCnt b2 = curBlockCnt b" "calls b1 = calls b" "curBlockCnt b1 = curBlockCnt b"
    by (simp_all add: b1_def b2_def)
  have g: "GetBlockCount client clock b = (let b3 = (if shouldRefresh (clock (clock_reads b)) b then refresh_loop client clock (retries b) b2 else b1) in
      if curBlockCnt b3 = 0 then (errorf (''failed to get blockcount: '' @ (case lastErr b3 of Some m \<Rightarrow> m | None \<Rightarrow> ''<nil>'')), b3) else (Inr (curBlockCnt b3), b3))"
    using s r by (simp add: GetBlockCount_def read_clock_def flip: b1_def)
  show ?thesis
    using refresh_loop_answer[of i "retries b" client b2 cnt clock] refresh_loop_calls[of client clock "retries b" b2]
      refresh_loop_cnt[of client clock "retries b" b2] by (auto simp: g Let_def f)
qed

theorem GetBlockCount_correct_witness:
  "fst (GetBlockCount (\<lambda>n. if n = 0 then Inl ''down'' else Inr 5) (\<lambda>n. int n) tracker_New) = Inr 5"
  using GetBlockCount_correct[of "\<lambda>n. int n" tracker_New "\<lambda>n. if n = 0 then Inl ''down'' else Inr 5" 1 5]
  by (simp add: shouldRefresh_def tracker_New_def zero_tracker_time_def defaultFailedUpdateDuration_def)

text \<open>\<^verbatim>\<open>WaitTillNextBlock\<close> has no effective timeout: the timer of 30 minutes is started anew in every turn, which the timer
  of ten seconds ends, so the timeout error is never returned, and while the height stays where it is, without a deadline
  of the context, the wait does not end after any number of turns.\<close>

theorem WaitTillNextBlock_no_timeout:
  "WaitTillNextBlock fuel ctx client clock turn blockCnt b \<noteq> Some (Some ''timeout waiting for next block'', b')
   \<and> ((\<forall>n. client n = Inr h) \<and> h \<noteq> 0 \<and> curBlockCnt b = h \<and> sint h \<le> sint blockCnt \<longrightarrow>
       WaitTillNextBlock fuel (\<lambda>_. None) client clock turn blockCnt b = None)"
proof
  show "WaitTillNextBlock fuel ctx client clock turn blockCnt b \<noteq> Some (Some ''timeout waiting for next block'', b')"
  proof (induction fuel arbitrary: turn b)
    case (Suc fuel)
    then show ?case using wake_never_times_out[of "ctx turn"]
      by (auto split: wake.splits prod.splits sum.splits)
  qed simp
  show "(\<forall>n. client n = Inr h) \<and> h \<noteq> 0 \<and> curBlockCnt b = h \<and> sint h \<le> sint blockCnt \<longrightarrow>
      WaitTillNextBlock fuel (\<lambda>_. None) client clock turn blockCnt b = None"
  proof (induction fuel arbitrary: turn b)
    case (Suc fuel)
    have p: "wake_of None = WakePoll" using wake_never_times_out[of None] by (simp add: wake_of_def split: if_splits)
    show ?case
    proof
      assume a: "(\<forall>n. client n = Inr h) \<and> h \<noteq> 0 \<and> curBlockCnt b = h \<and> sint h \<le> sint blockCnt"
      have c: "curBlockCnt (refresh_loop client clock k b2) = h" if "curBlockCnt b2 = h" for k b2
        using refresh_loop_cnt[of client clock k b2] a that by auto
      have "\<exists>b1. GetBlockCount client clock b = (Inr h, b1) \<and> curBlockCnt b1 = h"
        using a by (auto simp: GetBlockCount_def refreshBlockCount_def read_clock_def c Let_def)
      then obtain b1 where b1: "GetBlockCount client clock b = (Inr h, b1)" "curBlockCnt b1 = h" by blast
      then have "WaitTillNextBlock fuel (\<lambda>_. None) client clock (Suc turn) blockCnt b1 = None" using Suc a by blast
      then show "WaitTillNextBlock (Suc fuel) (\<lambda>_. None) client clock turn blockCnt b = None"
        using a p b1 by simp
    qed
  qed simp
qed

theorem WaitTillNextBlock_no_timeout_witness:
  "WaitTillNextBlock 1000 (\<lambda>_. None) (\<lambda>_. Inr 5) (\<lambda>n. int n) 0 5 (tracker_New\<lparr>curBlockCnt := 5\<rparr>) = None"
  using WaitTillNextBlock_no_timeout[of 1000 "\<lambda>_. None" "\<lambda>_. Inr 5" "\<lambda>n. int n" 0 5 "tracker_New\<lparr>curBlockCnt := 5\<rparr>" tracker_New 5] by simp

end
