(* ===== verification/Base64.thy ===== *)
theory Base64
  imports Go_Lib
begin

text \<open>
  The standard encoding of Go's \<^verbatim>\<open>encoding/base64\<close>, with padding and in its lenient form (line breaks are skipped,
  the unused bits of the last character are not examined), and the two wrappers of \<^verbatim>\<open>pkg/utils/utils.go\<close>.
\<close>

definition b64_alphabet :: string where
  "b64_alphabet = ''ABCDEFGHIJKLMNOPQRSTUVWXYZabcdefghijklmnopqrstuvwxyz0123456789+/''"

definition b64_char :: "nat \<Rightarrow> char" where
  "b64_char n = b64_alphabet ! n"

definition b64_val :: "char \<Rightarrow> nat option" where
  "b64_val c = find_index (\<lambda>x. x = c) b64_alphabet"

fun b64_encode :: "bytes \<Rightarrow> string" where
  "b64_encode [] = []"
| "b64_encode [a] = [b64_char (unat a div 4), b64_char (unat a mod 4 * 16), CHR ''='', CHR ''='']"
| "b64_encode [a, b] =
     [b64_char (unat a div 4), b64_char (unat a mod 4 * 16 + unat b div 16), b64_char (unat b mod 16 * 4), CHR ''='']"
| "b64_encode (a # b # c # bs) =
     b64_char (unat a div 4) # b64_char (unat a mod 4 * 16 + unat b div 16) # b64_char (unat b mod 16 * 4 + unat c div 64)
       # b64_char (unat c mod 64) # b64_encode bs"

text \<open>The bytes of two, three and four characters.\<close>

definition b64_byte1 :: "nat \<Rightarrow> nat \<Rightarrow> byte" where "b64_byte1 w x = word_of_nat (w * 4 + x div 16)"
definition b64_byte2 :: "nat \<Rightarrow> nat \<Rightarrow> byte" where "b64_byte2 x y = word_of_nat (x mod 16 * 16 + y div 4)"
definition b64_byte3 :: "nat \<Rightarrow> nat \<Rightarrow> byte" where "b64_byte3 y z = word_of_nat (y mod 4 * 64 + z)"

fun b64_decode :: "string \<Rightarrow> bytes option" where
  "b64_decode [] = Some []"
| "b64_decode (p # q # r # s # cs) =
     (case (b64_val p, b64_val q) of
        (Some w, Some x) \<Rightarrow>
          if r = CHR ''='' then if s = CHR ''='' \<and> cs = [] then Some [b64_byte1 w x] else None
          else (case b64_val r of
                  None \<Rightarrow> None
                | Some y \<Rightarrow>
                    if s = CHR ''='' then if cs = [] then Some [b64_byte1 w x, b64_byte2 x y] else None
                    else (case (b64_val s, b64_decode cs) of
                            (Some z, Some bs) \<Rightarrow> Some (b64_byte1 w x # b64_byte2 x y # b64_byte3 y z # bs)
                          | _ \<Rightarrow> None))
      | _ \<Rightarrow> None)"
| "b64_decode _ = None"

definition DecodeString :: "string \<Rightarrow> bytes result" where
  "DecodeString s =
     (case b64_decode (filter (\<lambda>c. c \<noteq> CHR 0x0A \<and> c \<noteq> CHR 0x0D) s) of None \<Rightarrow> errorf ''illegal base64 data'' | Some bs \<Rightarrow> Inr bs)"

definition B64Encode :: "bytes \<Rightarrow> bytes" where
  "B64Encode bs = bytes_of_str (b64_encode bs)"

definition B64Decode :: "bytes \<Rightarrow> bytes result" where
  "B64Decode bs = (case DecodeString (str_of_bytes bs) of Inl e \<Rightarrow> errorf (''b64 decode: '' @ e) | Inr out \<Rightarrow> Inr out)"

section \<open>Round trip\<close>

lemma b64_table: "\<forall>n \<in> set [0..<64]. b64_val (b64_char n) = Some n \<and> b64_char n \<notin> set [CHR ''='', CHR ''.'', CHR 0x0A, CHR 0x0D]"
  by code_simp

lemma b64_val_char [simp]: "n < 64 \<Longrightarrow> b64_val (b64_char n) = Some n"
  and b64_char_plain [simp]: "n < 64 \<Longrightarrow> b64_char n \<noteq> CHR ''=''" "n < 64 \<Longrightarrow> b64_char n \<noteq> CHR ''.''"
    "n < 64 \<Longrightarrow> b64_char n \<noteq> CHR 0x0A" "n < 64 \<Longrightarrow> b64_char n \<noteq> CHR 0x0D"
  using b64_table by auto

lemma sextet1 [simp]: "unat (a :: byte) div 4 < 64"
  using unat_byte_bound[of a] by auto

lemma sextet2 [simp]: "unat (a :: byte) mod 4 * 16 < 64" "unat (a :: byte) mod 4 * 16 + unat (b :: byte) div 16 < 64"
proof -
  have "unat a mod 4 < 4" by simp
  moreover have "unat b div 16 < 16" using unat_byte_bound[of b] by auto
  ultimately show "unat a mod 4 * 16 < 64" "unat a mod 4 * 16 + unat b div 16 < 64" by linarith+
qed

lemma sextet3 [simp]: "unat (b :: byte) mod 16 * 4 < 64" "unat (b :: byte) mod 16 * 4 + unat (c :: byte) div 64 < 64"
proof -
  have "unat b mod 16 < 16" by simp
  moreover have "unat c div 64 < 4" using unat_byte_bound[of c] by auto
  ultimately show "unat b mod 16 * 4 < 64" "unat b mod 16 * 4 + unat c div 64 < 64" by linarith+
qed

lemma sextet4 [simp]: "unat (c :: byte) mod 64 < 64"
  by simp

lemma b64_bytes [simp]:
  "b64_byte1 (unat a div 4) (unat a mod 4 * 16) = a"
  "b64_byte1 (unat a div 4) (unat a mod 4 * 16 + unat b div 16) = a"
  "b64_byte2 (unat a mod 4 * 16 + unat b div 16) (unat b mod 16 * 4) = b"
  "b64_byte2 (unat a mod 4 * 16 + unat b div 16) (unat b mod 16 * 4 + unat c div 64) = b"
  "b64_byte3 (unat b mod 16 * 4 + unat c div 64) (unat c mod 64) = c"
proof -
  have b: "unat b div 16 < 16" and c: "unat c div 64 < 4" using unat_byte_bound[of b] unat_byte_bound[of c] by auto
  have e: "(unat a mod 4 * 16 + unat b div 16) div 16 = unat a mod 4" "(unat a mod 4 * 16 + unat b div 16) mod 16 = unat b div 16"
      "(unat b mod 16 * 4 + unat c div 64) div 4 = unat b mod 16" "(unat b mod 16 * 4 + unat c div 64) mod 4 = unat c div 64"
    using b c by simp_all
  have r: "unat b div 16 * 16 + unat b mod 16 = unat b" "unat a div 4 * 4 + unat a mod 4 = unat a" "unat c div 64 * 64 + unat c mod 64 = unat c"
    by (rule div_mult_mod_eq)+
  show "b64_byte1 (unat a div 4) (unat a mod 4 * 16) = a" "b64_byte1 (unat a div 4) (unat a mod 4 * 16 + unat b div 16) = a"
    "b64_byte2 (unat a mod 4 * 16 + unat b div 16) (unat b mod 16 * 4) = b"
    "b64_byte2 (unat a mod 4 * 16 + unat b div 16) (unat b mod 16 * 4 + unat c div 64) = b"
    "b64_byte3 (unat b mod 16 * 4 + unat c div 64) (unat c mod 64) = c"
    unfolding b64_byte1_def b64_byte2_def b64_byte3_def e r by (simp_all add: e r)
qed

lemma b64_decode_encode [simp]: "b64_decode (b64_encode bs) = Some bs"
  by (induction bs rule: b64_encode.induct) simp_all

lemma b64_encode_plain: "c \<in> set (b64_encode bs) \<Longrightarrow> c \<noteq> CHR ''.'' \<and> c \<noteq> CHR 0x0A \<and> c \<noteq> CHR 0x0D"
  by (induction bs rule: b64_encode.induct) auto

lemma b64_encode_no_dot [simp]: "CHR ''.'' \<notin> set (b64_encode bs)"
  using b64_encode_plain by blast

lemma DecodeString_encode [simp]: "DecodeString (b64_encode bs) = Inr bs"
proof -
  have "filter (\<lambda>c. c \<noteq> CHR 0x0A \<and> c \<noteq> CHR 0x0D) (b64_encode bs) = b64_encode bs"
    using b64_encode_plain by (intro filter_True) blast
  then show ?thesis by (simp add: DecodeString_def)
qed

lemma str_B64Encode [simp]: "str_of_bytes (B64Encode bs) = b64_encode bs"
  by (simp add: B64Encode_def)

lemma B64Decode_Encode [simp]: "B64Decode (B64Encode bs) = Inr bs"
  by (simp add: B64Decode_def)

lemma B64Encode_inj: "B64Encode a = B64Encode b \<Longrightarrow> a = b"
  by (metis B64Decode_Encode sum.inject(2))

end
