(* ===== verification/Cascade_Files.thy ===== *)
theory Cascade_Files
  imports DHT Base64
begin

text \<open>
  The files that describe a cascade artefact (\<^verbatim>\<open>supernode/services/cascade/metadata.go\<close> and the parsers of
  \<^verbatim>\<open>helper.go\<close> and \<^verbatim>\<open>download.go\<close>): the layout of a file in RaptorQ blocks (\<^verbatim>\<open>pkg/codec/codec.go\<close>), the redundant
  files with a running counter that are made from it, their identifiers, and the index file.  JSON (json-iterator)
  and zstd are parameters.
\<close>

section \<open>Data\<close>

record block =
  BlockID :: int
  EncoderParameters :: "int list"
  OriginalOffset :: int
  blk_Size :: int
  blk_Symbols :: "string list"
  blk_Hash :: string

record layout =
  Blocks :: "block list"

record index_file =
  ix_Version :: int
  LayoutIDs :: "string list"
  LayoutSignature :: string

record codecs =
  layout_marshal :: "layout \<Rightarrow> bytes result"
  layout_unmarshal :: "bytes \<Rightarrow> layout result"
  index_unmarshal :: "bytes \<Rightarrow> index_file result"
  ZstdCompress :: "bytes \<Rightarrow> bytes result"
  ZstdDecompress :: "bytes \<Rightarrow> bytes result"

definition SeparatorByte :: byte where "SeparatorByte = 46"

section \<open>Identifiers and redundant files\<close>

text \<open>The counter is 32 bits wide and wraps around.\<close>

definition id_file :: "codecs \<Rightarrow> bytes \<Rightarrow> u32 \<Rightarrow> bytes result" where
  "id_file C enc counter = ZstdCompress C (enc @ [SeparatorByte] @ bytes_of_str (itoa (unat counter)))"

fun id_files_loop :: "env \<Rightarrow> codecs \<Rightarrow> bytes \<Rightarrow> u32 \<Rightarrow> nat list \<Rightarrow> (string list \<times> bytes list) result" where
  "id_files_loop E C enc ic [] = Inr ([], [])"
| "id_files_loop E C enc ic (i # is) =
     (case id_file C enc (ic + word_of_nat i) of
        Inl e \<Rightarrow> errorf (''compress identifiers file: '' @ e)
      | Inr compressedData \<Rightarrow>
          (case id_files_loop E C enc ic is of
             Inl e \<Rightarrow> Inl e
           | Inr (ids, files) \<Rightarrow> Inr (b58encode E (blake3 E compressedData) # ids, compressedData # files)))"

definition GetIDFiles :: "env \<Rightarrow> codecs \<Rightarrow> bytes \<Rightarrow> u32 \<Rightarrow> u32 \<Rightarrow> (string list \<times> bytes list) result" where
  "GetIDFiles E C enc ic mx = id_files_loop E C enc ic [0..<unat mx]"

definition GenRQIdentifiersFiles :: "env \<Rightarrow> codecs \<Rightarrow> layout \<Rightarrow> string \<Rightarrow> u32 \<Rightarrow> u32 \<Rightarrow> (string list \<times> bytes list) result" where
  "GenRQIdentifiersFiles E C metadata signature ic rqMax =
     (case layout_marshal C metadata of
        Inl e \<Rightarrow> errorf (''marshal rqID file: '' @ e)
      | Inr metadataFile \<Rightarrow>
          (case GetIDFiles E C (B64Encode metadataFile @ [SeparatorByte] @ bytes_of_str signature) ic rqMax of
             Inl e \<Rightarrow> errorf (''get ID Files: '' @ e)
           | Inr r \<Rightarrow> Inr r))"

text \<open>The identifiers of the layout files are computed in \<^verbatim>\<open>GenIndexFiles\<close> but never used.\<close>

definition GenIndexFiles :: "env \<Rightarrow> codecs \<Rightarrow> string \<Rightarrow> u32 \<Rightarrow> u32 \<Rightarrow> (string list \<times> bytes list) result" where
  "GenIndexFiles E C signaturesFormat ic mx =
     (case GetIDFiles E C (bytes_of_str signaturesFormat) ic mx of
        Inl e \<Rightarrow> errorf (''get index ID files: '' @ e)
      | Inr r \<Rightarrow> Inr r)"

section \<open>Parsers\<close>

definition extractIndexFileAndSignature :: "string \<Rightarrow> (string \<times> string) result" where
  "extractIndexFileAndSignature d =
     (case split_on CHR ''.'' d of p # q # _ \<Rightarrow> Inr (p, q) | _ \<Rightarrow> errorf ''invalid signatures format'')"

definition extractSignatureAndFirstPart :: "string \<Rightarrow> (string \<times> string) result" where
  "extractSignatureAndFirstPart d =
     (case split_on CHR ''.'' d of p # q # _ \<Rightarrow> Inr (p, q) | _ \<Rightarrow> errorf ''invalid data format'')"

definition decodeMetadataFile :: "codecs \<Rightarrow> string \<Rightarrow> layout result" where
  "decodeMetadataFile C d =
     (case B64Decode (bytes_of_str d) of
        Inl e \<Rightarrow> errorf (''failed to decode data: '' @ e)
      | Inr j \<Rightarrow> (case layout_unmarshal C j of Inl e \<Rightarrow> errorf (''failed to unmarshal data: '' @ e) | Inr l \<Rightarrow> Inr l))"

definition decodeIndexFile :: "codecs \<Rightarrow> string \<Rightarrow> index_file result" where
  "decodeIndexFile C d =
     (case B64Decode (bytes_of_str d) of
        Inl e \<Rightarrow> errorf (''failed to decode index file: '' @ e)
      | Inr j \<Rightarrow> (case index_unmarshal C j of Inl e \<Rightarrow> errorf (''failed to unmarshal index file: '' @ e) | Inr x \<Rightarrow> Inr x))"

definition parseRQMetadataFile :: "codecs \<Rightarrow> bytes \<Rightarrow> (layout \<times> string \<times> string) result" where
  "parseRQMetadataFile C d =
     (case ZstdDecompress C d of
        Inl e \<Rightarrow> errorf (''decompress rq metadata file: '' @ e)
      | Inr decompressed \<Rightarrow>
          (case split_on SeparatorByte decompressed of
             [p, q, r] \<Rightarrow>
               (case B64Decode p of
                  Inl e \<Rightarrow> errorf (''base64 decode failed: '' @ e)
                | Inr layoutJson \<Rightarrow>
                    (case layout_unmarshal C layoutJson of
                       Inl e \<Rightarrow> errorf (''unmarshal layout: '' @ e)
                     | Inr l \<Rightarrow> Inr (l, str_of_bytes q, str_of_bytes r)))
           | _ \<Rightarrow> errorf ''invalid rq metadata format: expecting 3 parts (layout, signature, counter)''))"

definition parseIndexFile :: "codecs \<Rightarrow> bytes \<Rightarrow> index_file result" where
  "parseIndexFile C d =
     (case ZstdDecompress C d of
        Inl e \<Rightarrow> errorf (''decompress index file: '' @ e)
      | Inr decompressed \<Rightarrow>
          (case split_on SeparatorByte decompressed of
             p # q # _ \<Rightarrow> decodeIndexFile C (str_of_bytes p)
           | _ \<Rightarrow> errorf ''invalid index file format''))"

section \<open>Lemmas\<close>

text \<open>What is relied on of zstd: decompressing what was compressed gives it back.\<close>

definition zstd_ok :: "codecs \<Rightarrow> bool" where
  "zstd_ok C \<longleftrightarrow> (\<forall>x y. ZstdCompress C x = Inr y \<longrightarrow> ZstdDecompress C y = Inr x)"

lemma byte_dot: "byte_of_char CHR ''.'' = SeparatorByte"
  by (simp add: byte_of_char_def SeparatorByte_def)

lemma dot_bytes [simp]: "SeparatorByte \<in> set (bytes_of_str s) \<longleftrightarrow> CHR ''.'' \<in> set s"
proof -
  have "byte_of_char c = SeparatorByte \<longleftrightarrow> c = CHR ''.''" for c
    by (metis byte_dot char_of_byte_of_char)
  then have "map byte_of_char s = bytes_of_str s \<and> (\<forall>c. byte_of_char c = SeparatorByte \<longleftrightarrow> c = CHR ''.'')"
    by (simp add: bytes_of_str_def)
  then show ?thesis by (metis (no_types, lifting) image_iff list.set_map)
qed

lemma B64Encode_no_dot [simp]: "SeparatorByte \<notin> set (B64Encode bs)"
  by (simp add: B64Encode_def)

lemma itoa_no_dot [simp]: "CHR ''.'' \<notin> set (itoa n)"
proof
  assume "CHR ''.'' \<in> set (itoa n)"
  then have "digit_val CHR ''.'' \<noteq> None" by (rule itoa_digits)
  then show False by (simp add: digit_val_def)
qed

lemma id_files_loop_spec:
  "id_files_loop E C enc ic is = Inr (ids, files) \<Longrightarrow>
     ids = map (\<lambda>f. b58encode E (blake3 E f)) files \<and> list_all2 (\<lambda>i f. id_file C enc (ic + word_of_nat i) = Inr f) is files"
  by (induction "is" arbitrary: ids files) (auto split: sum.splits prod.splits)

lemma id_files_loop_total:
  "(\<forall>x. \<exists>y. ZstdCompress C x = Inr y) \<Longrightarrow> \<exists>r. id_files_loop E C enc ic is = Inr r"
  by (induction "is") (auto simp: id_file_def split: sum.splits, metis sum.distinct(1))

lemma GetIDFiles_spec:
  assumes "GetIDFiles E C enc ic mx = Inr (ids, files)"
  shows "length files = unat mx" "ids = map (\<lambda>f. b58encode E (blake3 E f)) files"
    "i < unat mx \<Longrightarrow> id_file C enc (ic + word_of_nat i) = Inr (files ! i)"
  using id_files_loop_spec[OF assms[unfolded GetIDFiles_def]] by (auto simp: list_all2_conv_all_nth)

lemma id_file_contents:
  "zstd_ok C \<Longrightarrow> id_file C enc c = Inr f \<Longrightarrow> ZstdDecompress C f = Inr (enc @ SeparatorByte # bytes_of_str (itoa (unat c)))"
  by (simp add: zstd_ok_def id_file_def)

lemma unat_u32_bound: "unat (w :: u32) < 2 ^ 32"
  using unsigned_less[of w] by simp

lemma bytes_of_str_inj [simp]: "bytes_of_str a = bytes_of_str b \<longleftrightarrow> a = b"
  by (metis str_of_bytes_of_str)

text \<open>Two files of one call differ: the counters of a run of less than $2^{32}$ do not repeat, wrap-around included.\<close>

lemma GetIDFiles_distinct:
  assumes z: "zstd_ok C" and r: "GetIDFiles E C enc ic mx = Inr (ids, files)"
  shows "distinct files"
proof -
  note S = GetIDFiles_spec[OF r]
  have "files ! i \<noteq> files ! j" if "i < length files" "j < length files" "i \<noteq> j" for i j
  proof
    assume e: "files ! i = files ! j"
    have "itoa (unat (ic + word_of_nat i)) = itoa (unat (ic + word_of_nat j))"
      using id_file_contents[OF z S(3)[of i]] id_file_contents[OF z S(3)[of j]] that e by (simp add: S(1))
    then have "ic + word_of_nat i = ic + word_of_nat j" using itoa_inj by (simp add: word_unat_eq_iff)
    then have "(word_of_nat i :: u32) = word_of_nat j" by simp
    moreover have "i < 2 ^ 32" "j < 2 ^ 32" using that S(1) unat_u32_bound[of mx] by simp_all
    ultimately show False using \<open>i \<noteq> j\<close> by (simp add: of_nat_inverse word_unat_eq_iff unat_of_nat take_bit_nat_eq_self)
  qed
  then show ?thesis by (simp add: distinct_conv_nth)
qed

lemma parse_contents:
  assumes "ZstdDecompress C f = Inr (B64Encode j @ SeparatorByte # bytes_of_str sig @ SeparatorByte # bytes_of_str ctr)"
    and "CHR ''.'' \<notin> set sig" and "CHR ''.'' \<notin> set ctr" and "layout_unmarshal C j = Inr L"
  shows "parseRQMetadataFile C f = Inr (L, sig, ctr)"
  using assms by (simp add: parseRQMetadataFile_def split_on_append split_on_single)

text \<open>C16. Every redundant layout file can be read back: \<^verbatim>\<open>GenRQIdentifiersFiles\<close> makes as many files as asked for, all
  different, each identified by the base58 form of its hash, and each parses to the layout, the signature and its own
  counter (also when the 32-bit counter wraps around).\<close>

theorem GenRQIdentifiersFiles_parse:
  assumes "zstd_ok C" and "layout_marshal C L = Inr j" and "layout_unmarshal C j = Inr L" and "CHR ''.'' \<notin> set sig"
    and "GenRQIdentifiersFiles E C L sig ic rqMax = Inr (ids, files)"
  shows "length files = unat rqMax \<and> distinct files \<and> ids = map (\<lambda>f. b58encode E (blake3 E f)) files
    \<and> (\<forall>i < unat rqMax. parseRQMetadataFile C (files ! i) = Inr (L, sig, itoa (unat (ic + word_of_nat i))))"
proof -
  have g: "GetIDFiles E C (B64Encode j @ [SeparatorByte] @ bytes_of_str sig) ic rqMax = Inr (ids, files)"
    using assms(2,5) by (simp add: GenRQIdentifiersFiles_def split: sum.splits)
  note S = GetIDFiles_spec[OF g]
  have "parseRQMetadataFile C (files ! i) = Inr (L, sig, itoa (unat (ic + word_of_nat i)))" if "i < unat rqMax" for i
    using id_file_contents[OF assms(1) S(3)[OF that]] assms(3,4) by (intro parse_contents[of C _ j]) simp_all
  then show ?thesis using S(1,2) GetIDFiles_distinct[OF assms(1) g] by simp
qed

definition wit_codecs :: codecs where
  "wit_codecs = \<lparr>layout_marshal = (\<lambda>L. Inr [word_of_nat (length (Blocks L))]), layout_unmarshal = (\<lambda>b. Inr \<lparr>Blocks = []\<rparr>),
     index_unmarshal = (\<lambda>b. Inr \<lparr>ix_Version = 1, LayoutIDs = [], LayoutSignature = []\<rparr>),
     ZstdCompress = (\<lambda>b. Inr (7 # b)), ZstdDecompress = (\<lambda>b. Inr (tl b))\<rparr>"

theorem GenRQIdentifiersFiles_parse_witness:
  "\<exists>ids f g. GenRQIdentifiersFiles wit_env wit_codecs \<lparr>Blocks = []\<rparr> ''sig'' (- 1) 2 = Inr (ids, [f, g]) \<and> f \<noteq> g
     \<and> parseRQMetadataFile wit_codecs f = Inr (\<lparr>Blocks = []\<rparr>, ''sig'', itoa 4294967295)
     \<and> parseRQMetadataFile wit_codecs g = Inr (\<lparr>Blocks = []\<rparr>, ''sig'', itoa 0)"
proof -
  have z: "zstd_ok wit_codecs" by (simp add: zstd_ok_def wit_codecs_def)
  have "\<exists>r. GenRQIdentifiersFiles wit_env wit_codecs \<lparr>Blocks = []\<rparr> ''sig'' (- 1) 2 = Inr r"
    using id_files_loop_total[of wit_codecs] by (simp add: GenRQIdentifiersFiles_def GetIDFiles_def wit_codecs_def id_file_def upt_rec del: itoa.simps)
  then obtain ids files where r: "GenRQIdentifiersFiles wit_env wit_codecs \<lparr>Blocks = []\<rparr> ''sig'' (- 1) 2 = Inr (ids, files)" by auto
  have T: "length files = 2 \<and> distinct files
    \<and> (\<forall>i < 2. parseRQMetadataFile wit_codecs (files ! i) = Inr (\<lparr>Blocks = []\<rparr>, ''sig'', itoa (unat (- 1 + word_of_nat i :: u32))))"
    using GenRQIdentifiersFiles_parse[OF z _ _ _ r, of "[0]"] by (simp add: wit_codecs_def)
  then obtain f g where fg: "files = [f, g]" by (auto simp: numeral_2_eq_2 length_Suc_conv)
  have "parseRQMetadataFile wit_codecs f = Inr (\<lparr>Blocks = []\<rparr>, ''sig'', itoa 4294967295)"
    using T[THEN conjunct2, THEN conjunct2, rule_format, of 0] fg by (simp add: unsigned_minus_1_eq_mask mask_eq_exp_minus_1 del: itoa.simps)
  moreover have "parseRQMetadataFile wit_codecs g = Inr (\<lparr>Blocks = []\<rparr>, ''sig'', itoa 0)"
    using T[THEN conjunct2, THEN conjunct2, rule_format, of 1] fg by (simp del: itoa.simps)
  ultimately show ?thesis using r T fg by auto
qed

text \<open>The index files lead to the layout: the first part of the signatures field is found again in each of them.\<close>

lemma GenIndexFiles_parse:
  assumes "zstd_ok C" and "GenIndexFiles E C (p @ CHR ''.'' # q) ic mx = Inr (ids, files)" and "CHR ''.'' \<notin> set p" and "i < unat mx"
  shows "parseIndexFile C (files ! i) = decodeIndexFile C p" and "ids ! i = b58encode E (blake3 E (files ! i))"
proof -
  have g: "GetIDFiles E C (bytes_of_str (p @ CHR ''.'' # q)) ic mx = Inr (ids, files)"
    using assms(2) by (simp add: GenIndexFiles_def split: sum.splits)
  note S = GetIDFiles_spec[OF g]
  have "ZstdDecompress C (files ! i) = Inr (bytes_of_str p @ SeparatorByte # bytes_of_str q @ SeparatorByte # bytes_of_str (itoa (unat (ic + word_of_nat i))))"
    using id_file_contents[OF assms(1) S(3)[OF assms(4)]] byte_dot by (simp add: bytes_of_str_def)
  then show "parseIndexFile C (files ! i) = decodeIndexFile C p"
    using assms(3) by (simp add: parseIndexFile_def split_on_append neq_Nil_conv[symmetric] split: list.splits)
  show "ids ! i = b58encode E (blake3 E (files ! i))" using S(1,2) assms(4) by simp
qed

end
