(* ===== verification/P2P_Service.thy ===== *)
theory P2P_Service
  imports Batch_Retrieve Batch_Store Meta_Store Bootstrap
begin

text \<open>
  The facade over the DHT (\<^verbatim>\<open>p2p/p2p.go\<close>): the service refuses every operation before the network runs, and forwards
  it afterwards; \<^verbatim>\<open>Run\<close> configures, starts and joins the network and tries again after a failure.  \<open>store_closed\<close> tells
  whether the store of the service, which all attempts share, has been closed by one of them.
\<close>

record p2p =
  p2p_dht :: dht
  p2p_meta :: meta_store
  p2p_running :: bool
  store_closed :: bool

definition not_running :: string where "not_running = ''p2p service is not running''"

definition p2p_Store :: "env \<Rightarrow> string option list \<Rightarrow> bytes \<Rightarrow> int \<Rightarrow> p2p \<Rightarrow> (string result \<times> p2p) option" where
  "p2p_Store E errs d ty p =
     (if \<not> p2p_running p then Some (errorf not_running, p)
      else map_option (\<lambda>(r, s). (r, p\<lparr>p2p_dht := s\<rparr>)) (dht_Store E errs d ty (p2p_dht p)))"

definition p2p_StoreBatch :: "env \<Rightarrow> nat \<Rightarrow> bytes list \<Rightarrow> int \<Rightarrow> p2p \<Rightarrow> (string option \<times> p2p) run" where
  "p2p_StoreBatch E fuel d ty p =
     (if \<not> p2p_running p then Finished (Some not_running, p)
      else case dht_StoreBatch E fuel d ty (p2p_dht p) of
             Finished (e, s) \<Rightarrow> Finished (e, p\<lparr>p2p_dht := s\<rparr>)
           | Crashed \<Rightarrow> Crashed
           | Running \<Rightarrow> Running)"

definition p2p_Retrieve :: "env \<Rightarrow> string \<Rightarrow> bool \<Rightarrow> p2p \<Rightarrow> (bytes result \<times> p2p) option" where
  "p2p_Retrieve E key localOnly p =
     (if \<not> p2p_running p then Some (errorf not_running, p)
      else map_option (\<lambda>(r, s). (r, p\<lparr>p2p_dht := s\<rparr>)) (dht_Retrieve E key localOnly (p2p_dht p)))"

text \<open>The required count is cut to 32 bits.\<close>

definition p2p_BatchRetrieve :: "env \<Rightarrow> retrieve_env \<Rightarrow> string list \<Rightarrow> nat \<Rightarrow> p2p \<Rightarrow> (res_map result \<times> p2p) option" where
  "p2p_BatchRetrieve E R keys reqCount p =
     (if \<not> p2p_running p then Some (errorf not_running, p)
      else map_option (\<lambda>(r, s). (r, p\<lparr>p2p_dht := s\<rparr>)) (BatchRetrieve E R keys (sint (word_of_nat reqCount :: u32)) (p2p_dht p)))"

definition p2p_Delete :: "env \<Rightarrow> string \<Rightarrow> p2p \<Rightarrow> string option \<times> p2p" where
  "p2p_Delete E key p =
     (if \<not> p2p_running p then (Some not_running, p)
      else let (e, s) = dht_Delete E key (p2p_dht p) in (e, p\<lparr>p2p_dht := s\<rparr>))"

definition p2p_LocalStore :: "env \<Rightarrow> string option list \<Rightarrow> string \<Rightarrow> bytes \<Rightarrow> p2p \<Rightarrow> string result \<times> p2p" where
  "p2p_LocalStore E errs key d p =
     (if \<not> p2p_running p then (errorf not_running, p)
      else let (r, s) = LocalStore E errs key d (p2p_dht p) in (r, p\<lparr>p2p_dht := s\<rparr>))"

definition id_node :: "string \<Rightarrow> node" where
  "id_node n = mk_node (bytes_of_str n) [] 0"

definition p2p_NClosestNodes :: "env \<Rightarrow> nat \<Rightarrow> string \<Rightarrow> string list \<Rightarrow> p2p \<Rightarrow> string list" where
  "p2p_NClosestNodes E n key ignores p = map (\<lambda>x. str_of_bytes (ID x)) (NClosestNodes E n key (map id_node ignores) (p2p_dht p))"

definition NClosestNodesWithIncludingNodeList :: "env \<Rightarrow> nat \<Rightarrow> string \<Rightarrow> string list \<Rightarrow> string list \<Rightarrow> p2p \<Rightarrow> string list" where
  "NClosestNodesWithIncludingNodeList E n key ignores nodesToInclude p =
     map (\<lambda>x. str_of_bytes (ID x)) (NClosestNodesWithIncludingNodelist E n key (map id_node ignores) (map id_node nodesToInclude) (p2p_dht p))"

definition DisableKey :: "env \<Rightarrow> string option \<Rightarrow> string \<Rightarrow> p2p \<Rightarrow> string option \<times> p2p" where
  "DisableKey E ctx_err key p = (
     let decoded = b58decode E key in
     if length decoded \<noteq> B div 8 then (Some (''invalid key: '' @ key), p)
     else let (e, m) = meta_Store ctx_err decoded (p2p_meta p) in (e, p\<lparr>p2p_meta := m\<rparr>))"

definition EnableKey :: "env \<Rightarrow> string \<Rightarrow> p2p \<Rightarrow> string option \<times> p2p" where
  "EnableKey E key p = (
     let decoded = b58decode E key in
     if length decoded \<noteq> B div 8 then (Some (''invalid key: '' @ key), p)
     else (None, p\<lparr>p2p_meta := meta_Delete decoded (p2p_meta p)\<rparr>))"

text \<open>A key of the table that is not hexadecimal leaves an empty string in the answer.\<close>

definition p2p_GetLocalKeys :: "env \<Rightarrow> timestamp option \<Rightarrow> timestamp \<Rightarrow> p2p \<Rightarrow> string list result" where
  "p2p_GetLocalKeys E fr to p =
     (case (case fr of Some t \<Rightarrow> Inr t
            | None \<Rightarrow> (case GetOwnCreatedAt (dberr E ''GetOwnCreatedAt'') (now E) (dht_store (p2p_dht p)) of
                         Inl e \<Rightarrow> errorf (''failed to get own created at: '' @ e) | Inr t \<Rightarrow> Inr t)) of
        Inl e \<Rightarrow> Inl e
      | Inr t \<Rightarrow>
          (case GetLocalKeys (dberr E ''GetLocalKeys'') t to (dht_store (p2p_dht p)) of
             Inl e \<Rightarrow> errorf (''failed to get queries keys: '' @ e)
           | Inr keys \<Rightarrow> Inr (map (\<lambda>k. case hex_decode k of None \<Rightarrow> [] | Some d \<Rightarrow> b58encode E d) keys)))"

section \<open>Running\<close>

text \<open>What the three stages of an attempt answer, and whether an error is the end of the context.\<close>

record attempt =
  at_configure :: "string option"
  at_start :: "string option"
  at_bootstrap :: "string option"
  at_ctx_err :: bool

definition p2p_run :: "attempt \<Rightarrow> p2p \<Rightarrow> string option \<times> p2p" where
  "p2p_run a p =
     (case at_configure a of
        Some e \<Rightarrow> (Some (''configure kademlia dht: new kademlia dht: '' @ e), p)
      | None \<Rightarrow>
          let p1 = p\<lparr>store_closed := True\<rparr> \<comment> \<open>the deferred close\<close>
          in case at_start a of
               Some e \<Rightarrow> (Some (''start the kademlia network: '' @ e), p1)
             | None \<Rightarrow>
                 (case at_bootstrap a of
                    Some e \<Rightarrow> (Some (''bootstrap the node: '' @ e), p1)
                  | None \<Rightarrow> (None, p1\<lparr>p2p_running := True\<rparr>)))"

text \<open>The state in which an attempt serves requests, until its context ends: \<open>None\<close> when it does not get there.\<close>

definition serving :: "attempt \<Rightarrow> p2p \<Rightarrow> p2p option" where
  "serving a p = (if at_configure a = None \<and> at_start a = None \<and> at_bootstrap a = None then Some (p\<lparr>p2p_running := True\<rparr>) else None)"

fun p2p_Run :: "attempt list \<Rightarrow> p2p \<Rightarrow> string option \<times> p2p" where
  "p2p_Run [] p = (None, p)" \<comment> \<open>the context ends while waiting\<close>
| "p2p_Run (a # as) p =
     (case p2p_run a p of
        (None, p1) \<Rightarrow> (None, p1)
      | (Some e, p1) \<Rightarrow> if at_ctx_err a then (Some e, p1) else p2p_Run as p1)"

section \<open>Properties\<close>

lemma before_running:
  assumes "\<not> p2p_running p"
  shows "p2p_Store E errs d ty p = Some (Inl not_running, p)" "p2p_StoreBatch E fuel ds ty p = Finished (Some not_running, p)"
    "p2p_Retrieve E key lo p = Some (Inl not_running, p)" "p2p_BatchRetrieve E R keys n p = Some (Inl not_running, p)"
    "p2p_Delete E key p = (Some not_running, p)" "p2p_LocalStore E errs key d p = (Inl not_running, p)"
  using assms by (simp_all add: p2p_Store_def p2p_StoreBatch_def p2p_Retrieve_def p2p_BatchRetrieve_def p2p_Delete_def p2p_LocalStore_def)

lemma p2p_run_closes: "store_closed p \<Longrightarrow> store_closed (snd (p2p_run a p))"
  by (simp add: p2p_run_def Let_def split: option.splits)

text \<open>A retried start serves from a closed store: the attempt that fails to start or to join closes the store of the
  service, which \<^verbatim>\<open>Run\<close> then uses again; if a later attempt succeeds the service runs, and its store is closed.\<close>

theorem retry_uses_closed_store:
  assumes "at_configure a = None" and "at_start a \<noteq> None \<or> at_bootstrap a \<noteq> None" and "\<not> at_ctx_err a"
    and "at_configure b = None" and "at_start b = None" and "at_bootstrap b = None"
  shows "p2p_Run (a # b # as) p = (None, snd (p2p_run b (snd (p2p_run a p))))
    \<and> (\<exists>q. serving b (snd (p2p_run a p)) = Some q \<and> p2p_running q \<and> store_closed q)"
  using assms by (auto simp: p2p_run_def serving_def Let_def split: option.splits)

definition wit_attempt :: "string option \<Rightarrow> attempt" where
  "wit_attempt e = \<lparr>at_configure = None, at_start = None, at_bootstrap = e, at_ctx_err = False\<rparr>"

definition wit_p2p :: p2p where
  "wit_p2p = \<lparr>p2p_dht = wit_dht, p2p_meta = \<lparr>disabled_keys = [], del_keys = [], MetaJobQueue = []\<rparr>, p2p_running = False, store_closed = False\<rparr>"

theorem retry_uses_closed_store_witness:
  "\<exists>q. serving (wit_attempt None) (snd (p2p_run (wit_attempt (Some ''no peer'')) wit_p2p)) = Some q \<and> p2p_running q \<and> store_closed q"
  using retry_uses_closed_store[of "wit_attempt (Some ''no peer'')" "wit_attempt None" "[]" wit_p2p] by (simp add: wit_attempt_def)

text \<open>Disabling a key and enabling it again post the two jobs in that order; the worker of the meta store then leaves
  the key enabled.\<close>

lemma disable_enable:
  assumes "length (b58decode E key) = 32" and "MetaJobQueue (p2p_meta p) = []"
  shows "\<exists>q m. EnableKey E key (snd (DisableKey E None key p)) = (None, q)
    \<and> meta_run_jobs [(None, t), (None, t')] (p2p_meta q) = Some m \<and> hex_encode (b58decode E key) \<notin> disabled m"
proof -
  have "b58decode E key \<noteq> []" using assms(1) by auto
  then show ?thesis using assms
    by (simp add: DisableKey_def EnableKey_def meta_Store_def meta_Delete_def meta_run_job_def meta_performJob_def storeDisabledKey_def
        meta_deleteRecord_def disabled_def B_def Let_def)
qed

end
