(* ===== verification/Codec.thy ===== *)
theory Codec
  imports Symbols Cascade_Files
begin

text \<open>
  The RaptorQ codec (\<^verbatim>\<open>pkg/codec/raptorq.go\<close>, \<^verbatim>\<open>decode.go\<close>) and the incremental file hash (\<^verbatim>\<open>pkg/crypto/hash.go\<close>)
  over the file system of \<open>Symbols\<close>, extended by the operations that write and remove.  The processor of the RaptorQ
  library and the JSON codec are parameters: \<open>EncodeFile\<close> gets the content of the file and answers with the path of
  the layout file and the files it writes; \<open>DecodeSymbols\<close> gets the files below the symbol directory and the layout.
\<close>

section \<open>Files\<close>

definition below :: "string \<Rightarrow> string \<Rightarrow> bool" where
  "below d p \<longleftrightarrow> take (length d + 1) p = d @ ''/''"

text \<open>The directory entries that a path needs.\<close>

definition entry_for :: "string \<Rightarrow> string \<Rightarrow> string option" where
  "entry_for d p =
     (let rel = drop (length d + 1) p in if below d p \<and> CHR ''/'' \<in> set rel then Some (takeWhile (\<lambda>c. c \<noteq> CHR ''/'') rel) else None)"

definition put_file :: "string \<Rightarrow> bytes \<Rightarrow> fs \<Rightarrow> fs" where
  "put_file p d f = f\<lparr>fs_files := alist_update p d (fs_files f),
     fs_subdirs := (\<lambda>dir. case entry_for dir p of
        None \<Rightarrow> fs_subdirs f dir | Some n \<Rightarrow> if n \<in> set (fs_subdirs f dir) then fs_subdirs f dir else fs_subdirs f dir @ [n])\<rparr>"

definition WriteFile :: "string \<Rightarrow> bytes \<Rightarrow> fs \<Rightarrow> string option \<times> fs" where
  "WriteFile p d f = (if p \<in> set (fs_denied f) then (Some ''permission denied'', f) else (None, put_file p d f))"

definition MkdirAll :: "string \<Rightarrow> fs \<Rightarrow> string option" where
  "MkdirAll d f = (if d \<in> set (fs_denied f) then Some ''permission denied'' else None)"

definition os_Remove :: "string \<Rightarrow> fs \<Rightarrow> fs" where
  "os_Remove p f = (if p \<in> set (fs_kept f) then f else f\<lparr>fs_files := alist_delete p (fs_files f)\<rparr>)"

text \<open>What cannot be removed stays, and is the error.\<close>

definition RemoveAll :: "string \<Rightarrow> fs \<Rightarrow> string option \<times> fs" where
  "RemoveAll d f = (
     let gone = (\<lambda>p. p = d \<or> below d p) in
     (if \<exists>(p, _) \<in> set (fs_files f). gone p \<and> p \<in> set (fs_kept f) then Some ''permission denied'' else None,
      f\<lparr>fs_files := filter (\<lambda>(p, _). \<not> (gone p \<and> p \<notin> set (fs_kept f))) (fs_files f)\<rparr>))"

definition files_below :: "string \<Rightarrow> fs \<Rightarrow> (string \<times> bytes) list" where
  "files_below d f = filter (\<lambda>(p, _). below d p) (fs_files f)"

section \<open>Encoding and decoding\<close>

record rq_processor =
  symbolsBaseDir :: string
  processor_err :: "string option"
  RecommendedBlockSize :: "nat \<Rightarrow> nat"
  EncodeFile :: "bytes \<Rightarrow> string \<Rightarrow> nat \<Rightarrow> (string \<times> (string \<times> bytes) list) result"
  DecodeSymbols :: "(string \<times> bytes) list \<Rightarrow> bytes \<Rightarrow> bytes result"
  std_marshal :: "layout \<Rightarrow> bytes result"
  std_unmarshal :: "bytes \<Rightarrow> layout result"

definition codec_Encode :: "rq_processor \<Rightarrow> string \<Rightarrow> string \<Rightarrow> nat \<Rightarrow> fs \<Rightarrow> (layout \<times> string) result \<times> fs" where
  "codec_Encode Q taskID path dataSize f =
     (case processor_err Q of
        Some e \<Rightarrow> (errorf (''create RaptorQ processor: '' @ e), f)
      | None \<Rightarrow>
          let blockSize = RecommendedBlockSize Q dataSize; symbolsDir = path_join (symbolsBaseDir Q) taskID
          in case MkdirAll symbolsDir f of
               Some e \<Rightarrow> (errorf (''mkdir '' @ symbolsDir @ '': '' @ e), os_Remove path f)
             | None \<Rightarrow>
                 (case (case ReadFile f path of Inl e \<Rightarrow> Inl e | Inr d \<Rightarrow> EncodeFile Q d symbolsDir blockSize) of
                    Inl e \<Rightarrow> (errorf (''raptorq encode: '' @ e), os_Remove path f)
                  | Inr (layoutPath, written) \<Rightarrow>
                      let f1 = fold (\<lambda>(p, d). put_file p d) written f
                      in case ReadFile f1 layoutPath of
                           Inl e \<Rightarrow> (errorf (''read layout '' @ layoutPath @ '': '' @ e), f1)
                         | Inr layoutData \<Rightarrow>
                             (case std_unmarshal Q layoutData of
                                Inl e \<Rightarrow> (errorf (''unmarshal layout: '' @ e), f1)
                              | Inr l \<Rightarrow> (Inr (l, symbolsDir), f1))))"

fun write_symbols :: "string \<Rightarrow> (string \<times> bytes) list \<Rightarrow> fs \<Rightarrow> string option \<times> fs" where
  "write_symbols dir [] f = (None, f)"
| "write_symbols dir ((i, d) # syms) f =
     (case WriteFile (path_join dir i) d f of
        (Some e, f1) \<Rightarrow> (Some (''write symbol '' @ i @ '': '' @ e), f1)
      | (None, f1) \<Rightarrow> write_symbols dir syms f1)"

definition codec_Decode :: "rq_processor \<Rightarrow> string \<Rightarrow> layout \<Rightarrow> (string \<times> bytes) list \<Rightarrow> fs \<Rightarrow> (string \<times> string) result \<times> fs" where
  "codec_Decode Q actionID lay syms f =
     (case processor_err Q of
        Some e \<Rightarrow> (errorf (''create RaptorQ processor: '' @ e), f)
      | None \<Rightarrow>
          let symbolsDir = path_join (symbolsBaseDir Q) actionID
          in case MkdirAll symbolsDir f of
               Some e \<Rightarrow> (errorf (''mkdir '' @ symbolsDir @ '': '' @ e), f)
             | None \<Rightarrow>
                 (case write_symbols symbolsDir syms f of
                    (Some e, f1) \<Rightarrow> (Inl e, f1)
                  | (None, f1) \<Rightarrow>
                      (case std_marshal Q lay of
                         Inl e \<Rightarrow> (errorf (''marshal layout: '' @ e), f1)
                       | Inr layoutBytes \<Rightarrow>
                           (case WriteFile (path_join symbolsDir ''layout.json'') layoutBytes f1 of
                              (Some e, f2) \<Rightarrow> (errorf (''write layout file: '' @ e), f2)
                            | (None, f2) \<Rightarrow>
                                let outputPath = path_join symbolsDir ''output''
                                in case DecodeSymbols Q (files_below symbolsDir f2) layoutBytes of
                                     Inl e \<Rightarrow> (errorf (''raptorq decode: '' @ e), os_Remove outputPath f2)
                                   | Inr out \<Rightarrow> (Inr (outputPath, symbolsDir), put_file outputPath out f2)))))"

text \<open>The hasher is fed with pieces of the buffer's size; its sum is the hash of what it was fed with.\<close>

definition HashFileIncrementally :: "env \<Rightarrow> fs \<Rightarrow> string \<Rightarrow> nat \<Rightarrow> bytes result" where
  "HashFileIncrementally E f path bufferSize =
     (case ReadFile f path of
        Inl e \<Rightarrow> errorf (''open decoded file: '' @ e)
      | Inr d \<Rightarrow> Inr (blake3 E (concat (chunks (if bufferSize = 0 then 1024 * 1024 else bufferSize) d))))"

section \<open>Lemmas\<close>

lemma put_file_simps [simp]:
  "map_of (fs_files (put_file p d f)) q = (if q = p then Some d else map_of (fs_files f) q)"
  "fs_denied (put_file p d f) = fs_denied f" "fs_kept (put_file p d f) = fs_kept f"
  by (simp_all add: put_file_def map_of_alist_update)

lemma HashFile_whole: "HashFileIncrementally E f path n = Inr h \<longleftrightarrow> (\<exists>d. ReadFile f path = Inr d \<and> h = blake3 E d)"
  by (auto simp: HashFileIncrementally_def concat_chunks split: sum.splits)

lemma below_path_join [simp]: "below d (path_join d n)"
  by (simp add: below_def path_join_def)

lemma codec_Decode_ok:
  assumes "codec_Decode Q actionID lay syms f = (Inr (path, dir), f')"
  shows "path = path_join dir ''output''" "dir = path_join (symbolsBaseDir Q) actionID"
    "\<exists>out. map_of (fs_files f') path = Some out"
  using assms by (auto simp: codec_Decode_def Let_def split: option.splits sum.splits prod.splits)

lemma map_of_filter_key: "map_of (filter (\<lambda>(q, _). P q) xs) p = (if P p then map_of xs p else None)"
  by (induction xs) auto

lemma RemoveAll_files:
  "map_of (fs_files (snd (RemoveAll d f))) p = (if (p = d \<or> below d p) \<and> p \<notin> set (fs_kept f) then None else map_of (fs_files f) p)"
proof -
  have "fs_files (snd (RemoveAll d f)) = filter (\<lambda>(q, _). \<not> ((q = d \<or> below d q) \<and> q \<notin> set (fs_kept f))) (fs_files f)"
    unfolding RemoveAll_def Let_def by (cases f) (simp only: snd_conv fs.simps)
  then show ?thesis by (auto simp only: map_of_filter_key split: if_splits)
qed

end
