(* ===== verification/Cascade_Service.thy ===== *)
theory Cascade_Service
  imports P2P_Service Codec Go_Utils
begin

text \<open>
  The cascade service of a supernode (\<^verbatim>\<open>supernode/services/cascade\<close>): registration of an uploaded file
  (\<^verbatim>\<open>register.go\<close>), the download of an artefact (\<^verbatim>\<open>download.go\<close>), their helpers (\<^verbatim>\<open>helper.go\<close>), and the storing of
  the artefacts in the network (\<^verbatim>\<open>adaptors/p2p.go\<close>).  The chain client and the codecs of the Lumera SDK are parameters.
  The responses handed to the \<^verbatim>\<open>send\<close> callbacks and the actions finalised on the chain are part of the state.
\<close>

section \<open>State and environment\<close>

record chain_action =
  act_ActionID :: string
  act_Creator :: string
  act_Metadata :: bytes
  act_Price :: string
  act_Done :: bool \<comment> \<open>the state is \<^verbatim>\<open>ActionStateDone\<close>\<close>
  act_BlockHeight :: int

record cascade_metadata =
  cm_DataHash :: string
  cm_RqIdsIc :: u64
  cm_RqIdsMax :: u64
  cm_RqIdsIds :: "string list"
  cm_Signatures :: string

record cascade_env =
  ce_env :: env
  ce_retrieve :: retrieve_env
  ce_codecs :: codecs
  ce_rq :: rq_processor
  SupernodeAccountAddress :: string
  GetAction :: "string \<Rightarrow> chain_action result"
  GetTopSupernodes :: "u64 \<Rightarrow> string list result"
  GetActionFee :: "string \<Rightarrow> string result"
  price_lt :: "string \<Rightarrow> int \<Rightarrow> bool option" \<comment> \<open>\<^verbatim>\<open>Price.IsLT(NewCoin(ulume, amount))\<close>; \<open>None\<close> is its panic\<close>
  Verify :: "string \<Rightarrow> bytes \<Rightarrow> bytes \<Rightarrow> string option"
  FinalizeAction :: "string \<Rightarrow> string list \<Rightarrow> string result"
  proto_unmarshal :: "bytes \<Rightarrow> cascade_metadata result"
  rand_shuffle :: "string list \<Rightarrow> string list"

record register_request =
  rr_TaskID :: string
  rr_ActionID :: string
  rr_DataHash :: bytes
  rr_DataSize :: nat
  rr_FilePath :: string

record register_response =
  re_EventType :: nat
  re_Message :: string
  re_TxHash :: string

record download_response =
  de_EventType :: nat
  de_Message :: string
  de_FilePath :: string
  de_DownloadedDir :: string

record cascade =
  cs_p2p :: p2p
  cs_fs :: fs
  cs_rqstore :: rq_store
  cs_sent :: "register_response list"
  cs_down :: "download_response list"
  cs_finalized :: "(string \<times> string list) list"

section \<open>Sequencing\<close>

text \<open>A step either ends with an error or a value and a new state, panics, or does not return.\<close>

type_synonym 'a step = "cascade \<Rightarrow> ('a result \<times> cascade) run"

definition andThen :: "'a step \<Rightarrow> ('a \<Rightarrow> 'b step) \<Rightarrow> 'b step" where
  "andThen m f s =
     (case m s of
        Finished (Inl e, s1) \<Rightarrow> Finished (Inl e, s1)
      | Finished (Inr a, s1) \<Rightarrow> f a s1
      | Crashed \<Rightarrow> Crashed
      | Running \<Rightarrow> Running)"

definition check :: "'a result \<Rightarrow> 'a step" where
  "check r s = Finished (r, s)"

definition on_fs :: "(fs \<Rightarrow> 'a result \<times> fs) \<Rightarrow> 'a step" where
  "on_fs g s = (let (r, f) = g (cs_fs s) in Finished (r, s\<lparr>cs_fs := f\<rparr>))"

text \<open>\<^verbatim>\<open>wrapErr\<close> replaces the error by a message of its own.\<close>

definition wrapErr :: "string \<Rightarrow> 'a result \<Rightarrow> 'a result" where
  "wrapErr msg r = (case r of Inl _ \<Rightarrow> Inl msg | Inr a \<Rightarrow> Inr a)"

definition streamEvent :: "nat \<Rightarrow> string \<Rightarrow> string \<Rightarrow> unit step" where
  "streamEvent ty msg txHash s = Finished (Inr (), s\<lparr>cs_sent := cs_sent s @ [\<lparr>re_EventType = ty, re_Message = msg, re_TxHash = txHash\<rparr>]\<rparr>)"

definition streamDownloadEvent :: "nat \<Rightarrow> string \<Rightarrow> string \<Rightarrow> string \<Rightarrow> unit step" where
  "streamDownloadEvent ty msg path dir s =
     Finished (Inr (), s\<lparr>cs_down := cs_down s @ [\<lparr>de_EventType = ty, de_Message = msg, de_FilePath = path, de_DownloadedDir = dir\<rparr>]\<rparr>)"

section \<open>Checks of a registration\<close>

definition fetchAction :: "cascade_env \<Rightarrow> string \<Rightarrow> chain_action result" where
  "fetchAction V actionID =
     (case GetAction V actionID of
        Inl _ \<Rightarrow> Inl ''failed to get action''
      | Inr a \<Rightarrow> if act_ActionID a = [] then Inl ''action not found'' else Inr a)"

definition verifyActionFee :: "cascade_env \<Rightarrow> chain_action \<Rightarrow> nat \<Rightarrow> unit step" where
  "verifyActionFee V a dataSize s =
     (case GetActionFee V (itoa (dataSize div 1024)) of
        Inl _ \<Rightarrow> Finished (Inl ''failed to get action fee'', s)
      | Inr fee \<Rightarrow>
          let (amount, bad) = atoi fee in
          if bad then Finished (Inl ''failed to parse fee amount'', s)
          else case price_lt V (act_Price a) amount of
                 None \<Rightarrow> Crashed
               | Some lt \<Rightarrow> Finished (if lt then Inl ''insufficient fee'' else Inr (), s))"

definition ensureIsTopSupernode :: "cascade_env \<Rightarrow> u64 \<Rightarrow> unit result" where
  "ensureIsTopSupernode V height =
     (case GetTopSupernodes V height of
        Inl _ \<Rightarrow> Inl ''failed to get top SNs''
      | Inr tops \<Rightarrow> if SupernodeAccountAddress V \<in> set tops then Inr () else Inl ''current supernode does not exist in the top SNs list'')"

definition decodeCascadeMetadata :: "cascade_env \<Rightarrow> bytes \<Rightarrow> cascade_metadata result" where
  "decodeCascadeMetadata V raw = wrapErr ''failed to unmarshal cascade metadata'' (proto_unmarshal V raw)"

definition verifyDataHash :: "bytes \<Rightarrow> string \<Rightarrow> unit result" where
  "verifyDataHash dh expected = (if str_of_bytes (B64Encode dh) = expected then Inr () else Inl ''data hash doesn't match'')"

definition encodeInput :: "cascade_env \<Rightarrow> string \<Rightarrow> string \<Rightarrow> nat \<Rightarrow> (layout \<times> string) step" where
  "encodeInput V actionID path dataSize =
     on_fs (\<lambda>f. let (r, f') = codec_Encode (ce_rq V) actionID path dataSize f in (wrapErr ''failed to encode data'' r, f'))"

definition verifySignatureAndDecodeLayout :: "cascade_env \<Rightarrow> string \<Rightarrow> string \<Rightarrow> layout \<Rightarrow> (layout \<times> string) result" where
  "verifySignatureAndDecodeLayout V encoded creator encodedMeta =
     (case extractIndexFileAndSignature encoded of
        Inl _ \<Rightarrow> Inl ''failed to extract index file and creator signature''
      | Inr (indexFileB64, creatorSig) \<Rightarrow>
          (case DecodeString creatorSig of
             Inl _ \<Rightarrow> Inl ''failed to decode creator signature from base64''
           | Inr creatorSigBytes \<Rightarrow>
               if Verify V creator (bytes_of_str indexFileB64) creatorSigBytes \<noteq> None then Inl ''failed to verify creator signature''
               else (case decodeIndexFile (ce_codecs V) indexFileB64 of
                       Inl _ \<Rightarrow> Inl ''failed to decode index file''
                     | Inr indexFile \<Rightarrow>
                         (case DecodeString (LayoutSignature indexFile) of
                            Inl _ \<Rightarrow> Inl ''failed to decode layout signature from base64''
                          | Inr layoutSigBytes \<Rightarrow>
                              (case layout_marshal (ce_codecs V) encodedMeta of
                                 Inl _ \<Rightarrow> Inl ''failed to marshal layout''
                               | Inr layoutJSON \<Rightarrow>
                                   if Verify V creator (B64Encode layoutJSON) layoutSigBytes \<noteq> None then Inl ''failed to verify layout signature''
                                   else Inr (encodedMeta, LayoutSignature indexFile))))))"

text \<open>The counters of the metadata are cut to 32 bits.\<close>

definition generateRQIDFiles :: "cascade_env \<Rightarrow> cascade_metadata \<Rightarrow> string \<Rightarrow> layout \<Rightarrow> (string list \<times> bytes list) result" where
  "generateRQIDFiles V meta sig encodedMeta =
     (case GenRQIdentifiersFiles (ce_env V) (ce_codecs V) encodedMeta sig (ucast (cm_RqIdsIc meta)) (ucast (cm_RqIdsMax meta)) of
        Inl _ \<Rightarrow> Inl ''failed to generate layout files''
      | Inr (_, layoutFiles) \<Rightarrow>
          (case GenIndexFiles (ce_env V) (ce_codecs V) (cm_Signatures meta) (ucast (cm_RqIdsIc meta)) (ucast (cm_RqIdsMax meta)) of
             Inl _ \<Rightarrow> Inl ''failed to generate index files''
           | Inr (indexIDs, indexFiles) \<Rightarrow> Inr (indexIDs, layoutFiles @ indexFiles)))"

text \<open>A layout without a block panics.\<close>

definition verifyIDs :: "layout \<Rightarrow> layout \<Rightarrow> unit step" where
  "verifyIDs ticketMetadata metadata s =
     (case (Blocks ticketMetadata, Blocks metadata) of
        (t # _, m # _) \<Rightarrow>
          Finished (case EqualStrList (blk_Symbols t) (blk_Symbols m) of
             Some e \<Rightarrow> Inl ''failed to verify IDs''
           | None \<Rightarrow> if blk_Hash t \<noteq> blk_Hash m then Inl ''failed to verify IDs'' else Inr (), s)
      | _ \<Rightarrow> Crashed)"

section \<open>Storing the artefacts\<close>

definition cascadeBatchSize :: nat where "cascadeBatchSize = 2500"
definition storeSymbolsPercent :: nat where "storeSymbolsPercent = 10"

text \<open>The constants of \<^verbatim>\<open>storage/handler.go\<close> follow three others in their block, so \<^verbatim>\<open>iota\<close> starts at 3.\<close>

definition P2PDataRaptorQSymbol :: int where "P2PDataRaptorQSymbol = 4"
definition P2PDataCascadeMetadata :: int where "P2PDataCascadeMetadata = 5"

definition lower :: "char \<Rightarrow> char" where
  "lower c = (if CHR ''A'' \<le> c \<and> c \<le> CHR ''Z'' then char_of (of_char c + 32 :: nat) else c)"

definition file_ext :: "string \<Rightarrow> string" where
  "file_ext p = (let n = last (split_on CHR ''/'' p) in if CHR ''.'' \<in> set n then CHR ''.'' # last (split_on CHR ''.'' n) else [])"

text \<open>Every file below the root but layout files, in the order of \<^verbatim>\<open>filepath.WalkDir\<close>: entries of a directory by name.  A
  denied path that is no file is a directory which cannot be read.\<close>

definition walkSymbolTree :: "string \<Rightarrow> fs \<Rightarrow> string list result" where
  "walkSymbolTree root f =
     (if \<exists>d \<in> set (fs_denied f). d = root \<or> below root d \<and> map_of (fs_files f) d = None then errorf ''walk symbol tree: permission denied''
      else Inr (filter (\<lambda>k. map lower (file_ext k) \<noteq> ''.json'')
             (sort_key (split_on CHR ''/'') (map (\<lambda>(p, _). drop (length root + 1) p) (files_below root f)))))"

definition store_batch :: "cascade_env \<Rightarrow> nat \<Rightarrow> bytes list \<Rightarrow> int \<Rightarrow> unit step" where
  "store_batch V fuel ds ty s =
     (case p2p_StoreBatch (ce_env V) fuel ds ty (cs_p2p s) of
        Finished (e, p) \<Rightarrow> Finished (case e of Some m \<Rightarrow> Inl m | None \<Rightarrow> Inr (), s\<lparr>cs_p2p := p\<rparr>)
      | Crashed \<Rightarrow> Crashed
      | Running \<Rightarrow> Running)"

definition cascade_storeSymbols :: "cascade_env \<Rightarrow> nat \<Rightarrow> string \<Rightarrow> string list \<Rightarrow> unit step" where
  "cascade_storeSymbols V fuel root fileKeys =
     andThen (\<lambda>s. check (case LoadSymbols (cs_fs s) root fileKeys of Inl e \<Rightarrow> errorf (''load symbols: '' @ e) | Inr d \<Rightarrow> Inr d) s) (\<lambda>syms.
     andThen (store_batch V fuel syms P2PDataRaptorQSymbol) (\<lambda>_.
     on_fs (\<lambda>f. (Inr (), DeleteSymbols root fileKeys f))))"

fun cascade_batches :: "cascade_env \<Rightarrow> nat \<Rightarrow> string \<Rightarrow> string list list \<Rightarrow> unit step" where
  "cascade_batches V fuel root [] = check (Inr ())"
| "cascade_batches V fuel root (b # bs) = andThen (cascade_storeSymbols V fuel root b) (\<lambda>_. cascade_batches V fuel root bs)"

definition sample_keys :: "cascade_env \<Rightarrow> string list \<Rightarrow> string list" where
  "sample_keys V keys = (
     let n = length keys; want = (n * storeSymbolsPercent + 99) div 100 in
     if n > cascadeBatchSize then sort (if want < n then take want (rand_shuffle V keys) else keys) else keys)"

definition on_rqstore :: "(rq_store \<Rightarrow> string option \<times> rq_store) \<Rightarrow> string \<Rightarrow> unit step" where
  "on_rqstore g msg s =
     (let (e, q) = g (cs_rqstore s) in Finished (case e of Some m \<Rightarrow> errorf (msg @ m) | None \<Rightarrow> Inr (), s\<lparr>cs_rqstore := q\<rparr>))"

definition storeCascadeSymbols :: "cascade_env \<Rightarrow> nat \<Rightarrow> string \<Rightarrow> string \<Rightarrow> string \<Rightarrow> unit step" where
  "storeCascadeSymbols V fuel taskID actionID symbolsDir =
     andThen (on_rqstore (StoreSymbolDirectory (dberr (ce_env V) ''StoreSymbolDirectory'') taskID symbolsDir) ''store symbol dir: '') (\<lambda>_.
     andThen (\<lambda>s. check (walkSymbolTree symbolsDir (cs_fs s)) s) (\<lambda>keys.
     andThen (cascade_batches V fuel symbolsDir (chunks cascadeBatchSize (sample_keys V keys))) (\<lambda>_.
     on_rqstore (UpdateIsFirstBatchStored (dberr (ce_env V) ''UpdateIsFirstBatchStored'') actionID) ''update first-batch flag: '')))"

text \<open>The prefixes that \<^verbatim>\<open>StoreArtefacts\<close> puts before the error messages are left out.\<close>

definition StoreArtefacts :: "cascade_env \<Rightarrow> nat \<Rightarrow> string \<Rightarrow> string \<Rightarrow> bytes list \<Rightarrow> string \<Rightarrow> unit step" where
  "StoreArtefacts V fuel taskID actionID idFiles symbolsDir =
     andThen (store_batch V fuel idFiles P2PDataCascadeMetadata) (\<lambda>_. storeCascadeSymbols V fuel taskID actionID symbolsDir)"

section \<open>Registration\<close>

definition finalize :: "cascade_env \<Rightarrow> string \<Rightarrow> string list \<Rightarrow> string step" where
  "finalize V actionID rqids s =
     (case FinalizeAction V actionID rqids of
        Inl _ \<Rightarrow> Finished (Inl ''failed to finalize action'', s)
      | Inr txHash \<Rightarrow> Finished (Inr txHash, s\<lparr>cs_finalized := cs_finalized s @ [(actionID, rqids)]\<rparr>))"

text \<open>\<open>taskID\<close> is the identifier of the task object, a random string; the one of the request is not used.\<close>

definition cascade_Register :: "cascade_env \<Rightarrow> nat \<Rightarrow> string \<Rightarrow> register_request \<Rightarrow> unit step" where
  "cascade_Register V fuel taskID req =
     andThen (check (fetchAction V (rr_ActionID req))) (\<lambda>action.
     andThen (streamEvent 1 ''action has been retrieved'' []) (\<lambda>_.
     andThen (verifyActionFee V action (rr_DataSize req)) (\<lambda>_.
     andThen (streamEvent 2 ''action-fee has been validated'' []) (\<lambda>_.
     andThen (check (ensureIsTopSupernode V (word_of_int (act_BlockHeight action)))) (\<lambda>_.
     andThen (streamEvent 3 ''current supernode exists in the top-sn list'' []) (\<lambda>_.
     andThen (check (decodeCascadeMetadata V (act_Metadata action))) (\<lambda>meta.
     andThen (streamEvent 4 ''cascade metadata has been decoded'' []) (\<lambda>_.
     andThen (check (verifyDataHash (rr_DataHash req) (cm_DataHash meta))) (\<lambda>_.
     andThen (streamEvent 5 ''data-hash has been verified'' []) (\<lambda>_.
     andThen (encodeInput V (rr_ActionID req) (rr_FilePath req) (rr_DataSize req)) (\<lambda>(encMeta, symbolsDir).
     andThen (streamEvent 6 ''input data has been encoded'' []) (\<lambda>_.
     andThen (check (verifySignatureAndDecodeLayout V (cm_Signatures meta) (act_Creator action) encMeta)) (\<lambda>(lay, signature).
     andThen (streamEvent 7 ''signature has been verified'' []) (\<lambda>_.
     andThen (check (generateRQIDFiles V meta signature encMeta)) (\<lambda>(rqids, files).
     andThen (streamEvent 8 ''rq-id files have been generated'' []) (\<lambda>_.
     andThen (verifyIDs lay encMeta) (\<lambda>_.
     andThen (streamEvent 9 ''rq-ids have been verified'' []) (\<lambda>_.
     andThen (StoreArtefacts V fuel taskID (act_ActionID action) files symbolsDir) (\<lambda>_.
     andThen (streamEvent 10 ''artefacts have been stored'' []) (\<lambda>_.
     andThen (finalize V (act_ActionID action) rqids) (\<lambda>txHash.
     andThen (streamEvent 11 ''action has been finalized'' txHash) (\<lambda>_.
     on_fs (\<lambda>f. (Inr (), snd (RemoveAll (rr_FilePath req) f)))))))))))))))))))))))))"

section \<open>Download\<close>

definition p2p_get :: "cascade_env \<Rightarrow> string \<Rightarrow> cascade \<Rightarrow> (bytes result \<times> cascade) run" where
  "p2p_get V key s =
     (case p2p_Retrieve (ce_env V) key False (cs_p2p s) of None \<Rightarrow> Crashed | Some (r, p) \<Rightarrow> Finished (r, s\<lparr>cs_p2p := p\<rparr>))"

fun retrieveLayoutFromIndex :: "cascade_env \<Rightarrow> string list \<Rightarrow> layout step" where
  "retrieveLayoutFromIndex V [] = check (errorf ''no valid layout found in index'')"
| "retrieveLayoutFromIndex V (layoutID # rest) = (\<lambda>s.
     case p2p_get V layoutID s of
       Finished (r, s1) \<Rightarrow>
         (case r of
            Inr layoutFile \<Rightarrow>
              (case (if layoutFile = [] then Inl [] else parseRQMetadataFile (ce_codecs V) layoutFile) of
                 Inr (lay, _, _) \<Rightarrow> if Blocks lay \<noteq> [] then Finished (Inr lay, s1) else retrieveLayoutFromIndex V rest s1
               | Inl _ \<Rightarrow> retrieveLayoutFromIndex V rest s1)
          | Inl _ \<Rightarrow> retrieveLayoutFromIndex V rest s1)
     | Crashed \<Rightarrow> Crashed
     | Running \<Rightarrow> Running)"

fun find_layout :: "cascade_env \<Rightarrow> string list \<Rightarrow> layout step" where
  "find_layout V [] = check (errorf ''no symbols found in RQ metadata'')"
| "find_layout V (indexID # rest) = (\<lambda>s.
     case p2p_get V indexID s of
       Finished (r, s1) \<Rightarrow>
         (case r of
            Inr indexFile \<Rightarrow>
              (case (if indexFile = [] then Inl [] else parseIndexFile (ce_codecs V) indexFile) of
                 Inr indexData \<Rightarrow>
                   (case retrieveLayoutFromIndex V (LayoutIDs indexData) s1 of
                      Finished (Inr lay, s2) \<Rightarrow> if Blocks lay \<noteq> [] then Finished (Inr lay, s2) else find_layout V rest s2
                    | Finished (Inl _, s2) \<Rightarrow> find_layout V rest s2
                    | Crashed \<Rightarrow> Crashed
                    | Running \<Rightarrow> Running)
               | Inl _ \<Rightarrow> find_layout V rest s1)
          | Inl _ \<Rightarrow> find_layout V rest s1)
     | Crashed \<Rightarrow> Crashed
     | Running \<Rightarrow> Running)"

definition requiredSymbolPercent :: nat where "requiredSymbolPercent = 9"

definition batch_retrieve :: "cascade_env \<Rightarrow> string list \<Rightarrow> nat \<Rightarrow> (string \<times> bytes) list step" where
  "batch_retrieve V keys n s =
     (case p2p_BatchRetrieve (ce_env V) (ce_retrieve V) keys n (cs_p2p s) of
        None \<Rightarrow> Crashed
      | Some (r, p) \<Rightarrow> Finished (case r of Inl e \<Rightarrow> errorf (''failed to retrieve symbols: '' @ e) | Inr m \<Rightarrow> Inr m, s\<lparr>cs_p2p := p\<rparr>))"

definition restoreFileFromLayout :: "cascade_env \<Rightarrow> layout \<Rightarrow> string \<Rightarrow> string \<Rightarrow> (string \<times> string) step" where
  "restoreFileFromLayout V lay dataHash actionID = (
     let allSymbols = sort (concat (map blk_Symbols (Blocks lay)));
         requiredSymbols = (length allSymbols * requiredSymbolPercent + 99) div 100
     in andThen (batch_retrieve V allSymbols requiredSymbols) (\<lambda>syms.
        andThen (on_fs (\<lambda>f. let (r, f') = codec_Decode (ce_rq V) actionID lay syms f
                            in (case r of Inl e \<Rightarrow> errorf (''decode symbols using RaptorQ: '' @ e) | Inr d \<Rightarrow> Inr d, f'))) (\<lambda>(filePath, tmpDir).
        andThen (\<lambda>s. check (case HashFileIncrementally (ce_env V) (cs_fs s) filePath 0 of Inl e \<Rightarrow> errorf (''hash file: '' @ e) | Inr h \<Rightarrow> Inr h) s) (\<lambda>fileHash.
        andThen (check (verifyDataHash fileHash dataHash)) (\<lambda>_.
        check (Inr (filePath, tmpDir)))))))"

definition downloadArtifacts :: "cascade_env \<Rightarrow> string \<Rightarrow> cascade_metadata \<Rightarrow> (string \<times> string) step" where
  "downloadArtifacts V actionID metadata =
     andThen (find_layout V (cm_RqIdsIds metadata)) (\<lambda>lay. restoreFileFromLayout V lay (cm_DataHash metadata) actionID)"

definition wrap_step :: "string \<Rightarrow> 'a step \<Rightarrow> 'a step" where
  "wrap_step msg m s =
     (case m s of Finished (r, s1) \<Rightarrow> Finished (wrapErr msg r, s1) | Crashed \<Rightarrow> Crashed | Running \<Rightarrow> Running)"

definition cascade_Download :: "cascade_env \<Rightarrow> string \<Rightarrow> unit step" where
  "cascade_Download V actionID =
     andThen (check (wrapErr ''failed to get action'' (GetAction V actionID))) (\<lambda>action.
     andThen (streamDownloadEvent 1 ''action has been retrieved'' [] []) (\<lambda>_.
     andThen (check (if \<not> act_Done action then Inl ''action not found'' else Inr ())) (\<lambda>_.
     andThen (streamDownloadEvent 11 ''action state has been validated'' [] []) (\<lambda>_.
     andThen (check (wrapErr ''error decoding cascade metadata'' (decodeCascadeMetadata V (act_Metadata action)))) (\<lambda>metadata.
     andThen (streamDownloadEvent 4 ''metadata has been decoded'' [] []) (\<lambda>_.
     andThen (wrap_step ''failed to download artifacts'' (downloadArtifacts V (act_ActionID action) metadata)) (\<lambda>(filePath, tmpDir).
     streamDownloadEvent 12 ''artifacts have been downloaded'' filePath tmpDir)))))))"

definition CleanupDownload :: "string \<Rightarrow> unit step" where
  "CleanupDownload dir =
     (if dir = [] then check (errorf ''actionID is empty'')
      else on_fs (\<lambda>f. let (e, f') = RemoveAll dir f
        in (case e of Some m \<Rightarrow> errorf (''failed to delete download directory: '' @ dir @ '', :'' @ m) | None \<Rightarrow> Inr (), f')))"

definition VerifyDownloadSignature :: "cascade_env \<Rightarrow> string \<Rightarrow> string \<Rightarrow> unit result" where
  "VerifyDownloadSignature V actionID signature =
     (case GetAction V actionID of
        Inl _ \<Rightarrow> Inl ''failed to get action''
      | Inr a \<Rightarrow>
          (case DecodeString signature of
             Inl _ \<Rightarrow> Inl ''failed to decode signature from base64''
           | Inr signatureBytes \<Rightarrow>
               if Verify V (act_Creator a) (bytes_of_str (actionID @ ''.'' @ act_Creator a)) signatureBytes \<noteq> None
               then Inl ''failed to verify download signature'' else Inr ()))"

section \<open>Weakest preconditions of the steps\<close>

text \<open>What holds of the result and the state when a step returns.\<close>

named_theorems wp_rules \<open>the weakest precondition of each step\<close>

definition wp :: "'a step \<Rightarrow> ('a result \<Rightarrow> cascade \<Rightarrow> bool) \<Rightarrow> cascade \<Rightarrow> bool" where
  "wp m Q s \<longleftrightarrow> (case m s of Finished (r, s') \<Rightarrow> Q r s' | _ \<Rightarrow> True)"

lemma wpD: "wp m Q s \<Longrightarrow> m s = Finished (r, s') \<Longrightarrow> Q r s'"
  by (simp add: wp_def)

lemma wp_andThen [wp_rules]: "wp (andThen m f) Q s = wp m (\<lambda>r s1. case r of Inl e \<Rightarrow> Q (Inl e) s1 | Inr a \<Rightarrow> wp (f a) Q s1) s"
  by (auto simp: wp_def andThen_def split: run.splits sum.splits)

lemma wp_check [wp_rules]: "wp (check r) Q s = Q r s"
  by (simp add: wp_def check_def)

lemma wp_streamEvent [wp_rules]:
  "wp (streamEvent ty msg tx) Q s = Q (Inr ()) (s\<lparr>cs_sent := cs_sent s @ [\<lparr>re_EventType = ty, re_Message = msg, re_TxHash = tx\<rparr>]\<rparr>)"
  by (simp add: wp_def streamEvent_def)

lemma wp_streamDownloadEvent [wp_rules]:
  "wp (streamDownloadEvent ty msg p d) Q s =
     Q (Inr ()) (s\<lparr>cs_down := cs_down s @ [\<lparr>de_EventType = ty, de_Message = msg, de_FilePath = p, de_DownloadedDir = d\<rparr>]\<rparr>)"
  by (simp add: wp_def streamDownloadEvent_def)

lemma wp_on_fs [wp_rules]: "wp (on_fs g) Q s = Q (fst (g (cs_fs s))) (s\<lparr>cs_fs := snd (g (cs_fs s))\<rparr>)"
  by (simp add: wp_def on_fs_def Let_def split: prod.splits)

definition fee_ok :: "cascade_env \<Rightarrow> chain_action \<Rightarrow> nat \<Rightarrow> bool" where
  "fee_ok V a n \<longleftrightarrow> (\<exists>fee amount. GetActionFee V (itoa (n div 1024)) = Inr fee \<and> atoi fee = (amount, False) \<and> price_lt V (act_Price a) amount = Some False)"

lemma wp_verifyActionFee [wp_rules]:
  "(\<And>e. Q (Inl e) s) \<Longrightarrow> (fee_ok V a n \<Longrightarrow> Q (Inr ()) s) \<Longrightarrow> wp (verifyActionFee V a n) Q s"
  by (auto simp: wp_def verifyActionFee_def fee_ok_def split: sum.splits prod.splits option.splits)

lemma wp_verifyIDs [wp_rules]: "(\<And>e. Q (Inl e) s) \<Longrightarrow> Q (Inr ()) s \<Longrightarrow> wp (verifyIDs a b) Q s"
  by (auto simp: wp_def verifyIDs_def split: list.splits option.splits)

lemma wp_finalize [wp_rules]:
  "(\<And>e. Q (Inl e) s) \<Longrightarrow> (\<And>tx. FinalizeAction V i rq = Inr tx \<Longrightarrow> Q (Inr tx) (s\<lparr>cs_finalized := cs_finalized s @ [(i, rq)]\<rparr>)) \<Longrightarrow> wp (finalize V i rq) Q s"
  by (auto simp: wp_def finalize_def split: sum.splits)

lemma wp_mono: "wp m Q s \<Longrightarrow> (\<And>r s'. Q r s' \<Longrightarrow> Q' r s') \<Longrightarrow> wp m Q' s"
  by (auto simp: wp_def split: run.splits)

text \<open>Storing artefacts leaves the responses and the chain alone.\<close>

abbreviation quiet :: "cascade \<Rightarrow> cascade \<Rightarrow> bool" where
  "quiet s s' \<equiv> cs_sent s' = cs_sent s \<and> cs_down s' = cs_down s \<and> cs_finalized s' = cs_finalized s"

lemma quiet_store_batch: "wp (store_batch V fuel ds ty) (\<lambda>_. quiet s) s"
  by (simp add: wp_def store_batch_def split: run.splits)

lemma quiet_andThen: "wp m (\<lambda>_. quiet s) s \<Longrightarrow> (\<And>a s1. wp (f a) (\<lambda>_. quiet s1) s1) \<Longrightarrow> wp (andThen m f) (\<lambda>_. quiet s) s"
proof -
  assume m: "wp m (\<lambda>_. quiet s) s" and f: "\<And>a s1. wp (f a) (\<lambda>_. quiet s1) s1"
  have "wp (f a) (\<lambda>_. quiet s) s1" if "quiet s s1" for a s1
    using f[of a s1] by (rule wp_mono) (use that in simp)
  with m show ?thesis unfolding wp_andThen by (elim wp_mono) (auto split: sum.splits)
qed

lemma quiet_batches: "wp (cascade_batches V fuel root bs) (\<lambda>_. quiet s) s"
proof (induction bs arbitrary: s)
  case (Cons b bs)
  have "wp (cascade_storeSymbols V fuel root b) (\<lambda>_. quiet s) s" for s
    unfolding cascade_storeSymbols_def
    by (intro quiet_andThen quiet_store_batch) (simp add: wp_def check_def, simp add: wp_on_fs)
  then show ?case by (simp add: quiet_andThen Cons.IH)
qed (simp add: wp_check)

lemma quiet_on_rqstore: "wp (on_rqstore g m) (\<lambda>_. quiet s) s"
  by (simp add: wp_def on_rqstore_def Let_def split: prod.splits)

lemma quiet_StoreArtefacts: "wp (StoreArtefacts V fuel t a ds dir) (\<lambda>_. quiet s) s"
  unfolding StoreArtefacts_def storeCascadeSymbols_def
  by (intro quiet_andThen quiet_store_batch quiet_batches quiet_on_rqstore) (simp add: wp_def check_def)

lemma wp_StoreArtefacts [wp_rules]:
  assumes "\<And>r s'. quiet s s' \<Longrightarrow> Q r s'"
  shows "wp (StoreArtefacts V fuel t a ds dir) Q s"
  using quiet_StoreArtefacts assms by (rule wp_mono)

section \<open>A registration goes through every check\<close>

definition script :: "string \<Rightarrow> register_response list" where
  "script txHash = map (\<lambda>(ty, msg, tx). \<lparr>re_EventType = ty, re_Message = msg, re_TxHash = tx\<rparr>)
     [(1, ''action has been retrieved'', []), (2, ''action-fee has been validated'', []),
      (3, ''current supernode exists in the top-sn list'', []), (4, ''cascade metadata has been decoded'', []),
      (5, ''data-hash has been verified'', []), (6, ''input data has been encoded'', []),
      (7, ''signature has been verified'', []), (8, ''rq-id files have been generated'', []),
      (9, ''rq-ids have been verified'', []), (10, ''artefacts have been stored'', []),
      (11, ''action has been finalized'', txHash)]"

text \<open>The creator has signed the index file, and the layout that the index file signs is the given one.\<close>

definition signed_by :: "cascade_env \<Rightarrow> string \<Rightarrow> string \<Rightarrow> layout \<Rightarrow> bool" where
  "signed_by V creator signatures l \<longleftrightarrow> (\<exists>p q sig idx sig' j. extractIndexFileAndSignature signatures = Inr (p, q) \<and> DecodeString q = Inr sig
     \<and> Verify V creator (bytes_of_str p) sig = None \<and> decodeIndexFile (ce_codecs V) p = Inr idx \<and> DecodeString (LayoutSignature idx) = Inr sig'
     \<and> layout_marshal (ce_codecs V) l = Inr j \<and> Verify V creator (B64Encode j) sig' = None)"

definition vetted :: "cascade_env \<Rightarrow> register_request \<Rightarrow> fs \<Rightarrow> bool" where
  "vetted V req f \<longleftrightarrow> (\<exists>a tops meta l dir. GetAction V (rr_ActionID req) = Inr a \<and> act_ActionID a \<noteq> [] \<and> fee_ok V a (rr_DataSize req)
     \<and> GetTopSupernodes V (word_of_int (act_BlockHeight a)) = Inr tops \<and> SupernodeAccountAddress V \<in> set tops
     \<and> proto_unmarshal V (act_Metadata a) = Inr meta \<and> b64_encode (rr_DataHash req) = cm_DataHash meta
     \<and> fst (codec_Encode (ce_rq V) (rr_ActionID req) (rr_FilePath req) (rr_DataSize req) f) = Inr (l, dir)
     \<and> signed_by V (act_Creator a) (cm_Signatures meta) l)"

lemma verifySignature_signed:
  "verifySignatureAndDecodeLayout V enc creator l = Inr (l', sig) \<Longrightarrow> signed_by V creator enc l \<and> l' = l"
  by (auto simp: verifySignatureAndDecodeLayout_def signed_by_def split: sum.splits if_splits)

lemma vettedI:
  assumes "fetchAction V (rr_ActionID req) = Inr a" "fee_ok V a (rr_DataSize req)" "ensureIsTopSupernode V (word_of_int (act_BlockHeight a)) = Inr u"
    "decodeCascadeMetadata V (act_Metadata a) = Inr meta" "verifyDataHash (rr_DataHash req) (cm_DataHash meta) = Inr u'"
    "wrapErr m (fst (codec_Encode (ce_rq V) (rr_ActionID req) (rr_FilePath req) (rr_DataSize req) f)) = Inr (l, dir)"
    "verifySignatureAndDecodeLayout V (cm_Signatures meta) (act_Creator a) l = Inr (l', sig)"
  shows "vetted V req f"
proof -
  obtain tops where "GetTopSupernodes V (word_of_int (act_BlockHeight a)) = Inr tops" "SupernodeAccountAddress V \<in> set tops"
    using assms(3) by (auto simp: ensureIsTopSupernode_def split: sum.splits if_splits)
  moreover have "GetAction V (rr_ActionID req) = Inr a" "act_ActionID a \<noteq> []"
    using assms(1) by (auto simp: fetchAction_def split: sum.splits if_splits)
  moreover have "proto_unmarshal V (act_Metadata a) = Inr meta" using assms(4) by (auto simp: decodeCascadeMetadata_def wrapErr_def split: sum.splits)
  moreover have "b64_encode (rr_DataHash req) = cm_DataHash meta" using assms(5) by (auto simp: verifyDataHash_def split: if_splits)
  moreover have "fst (codec_Encode (ce_rq V) (rr_ActionID req) (rr_FilePath req) (rr_DataSize req) f) = Inr (l, dir)"
    using assms(6) by (auto simp: wrapErr_def split: sum.splits)
  ultimately show ?thesis using assms(2) verifySignature_signed[OF assms(7)] unfolding vetted_def by blast
qed

subsection \<open>Rules for a chain of steps\<close>

text \<open>The states of a registration are kept in the form \<open>s\<lparr>cs_sent := es\<rparr>\<close>, so that the responses stay one list.\<close>

lemma vc_check:
  "(\<And>e. r = Inl e \<Longrightarrow> Q (Inl e) s) \<Longrightarrow> (\<And>a. r = Inr a \<Longrightarrow> wp (f a) Q s) \<Longrightarrow> wp (andThen (check r) f) Q s"
  by (simp add: wp_andThen wp_check split: sum.split)

lemma vc_event:
  "wp (f ()) Q (s\<lparr>cs_sent := es @ [\<lparr>re_EventType = ty, re_Message = msg, re_TxHash = tx\<rparr>]\<rparr>) \<Longrightarrow>
   wp (andThen (streamEvent ty msg tx) f) Q (s\<lparr>cs_sent := es\<rparr>)"
  by (simp add: wp_andThen wp_streamEvent)

lemma vc_fee: "(\<And>e. Q (Inl e) s) \<Longrightarrow> (fee_ok V a n \<Longrightarrow> wp (f ()) Q s) \<Longrightarrow> wp (andThen (verifyActionFee V a n) f) Q s"
  unfolding wp_andThen by (rule wp_verifyActionFee) simp_all

lemma vc_encode:
  "(\<And>e s1. quiet s s1 \<Longrightarrow> cs_p2p s1 = cs_p2p s \<Longrightarrow> cs_rqstore s1 = cs_rqstore s \<Longrightarrow> Q (Inl e) (s1\<lparr>cs_sent := es\<rparr>)) \<Longrightarrow>
   (\<And>l dir s1. fst (codec_Encode (ce_rq V) i p n (cs_fs s)) = Inr (l, dir) \<Longrightarrow> quiet s s1 \<Longrightarrow> cs_p2p s1 = cs_p2p s \<Longrightarrow> cs_rqstore s1 = cs_rqstore s
      \<Longrightarrow> wp (f (l, dir)) Q (s1\<lparr>cs_sent := es\<rparr>)) \<Longrightarrow> wp (andThen (encodeInput V i p n) f) Q (s\<lparr>cs_sent := es\<rparr>)"
proof -
  assume e: "\<And>e s1. quiet s s1 \<Longrightarrow> cs_p2p s1 = cs_p2p s \<Longrightarrow> cs_rqstore s1 = cs_rqstore s \<Longrightarrow> Q (Inl e) (s1\<lparr>cs_sent := es\<rparr>)"
    and f: "\<And>l dir s1. fst (codec_Encode (ce_rq V) i p n (cs_fs s)) = Inr (l, dir) \<Longrightarrow> quiet s s1 \<Longrightarrow> cs_p2p s1 = cs_p2p s \<Longrightarrow> cs_rqstore s1 = cs_rqstore s
      \<Longrightarrow> wp (f (l, dir)) Q (s1\<lparr>cs_sent := es\<rparr>)"
  obtain r f' where c: "codec_Encode (ce_rq V) i p n (cs_fs s) = (r, f')" by (cases "codec_Encode (ce_rq V) i p n (cs_fs s)")
  have st: "s\<lparr>cs_sent := es, cs_fs := f'\<rparr> = (s\<lparr>cs_fs := f'\<rparr>)\<lparr>cs_sent := es\<rparr>" by (cases s) simp
  show ?thesis
    using e[of "s\<lparr>cs_fs := f'\<rparr>"] f[of _ _ "s\<lparr>cs_fs := f'\<rparr>"]
    by (auto simp: wp_andThen encodeInput_def wp_on_fs c wrapErr_def st split: sum.split)
qed

lemma vc_verifyIDs: "(\<And>e. Q (Inl e) s) \<Longrightarrow> wp (f ()) Q s \<Longrightarrow> wp (andThen (verifyIDs a b) f) Q s"
  unfolding wp_andThen by (rule wp_verifyIDs) simp_all

lemma vc_StoreArtefacts:
  "(\<And>e s1. quiet s s1 \<Longrightarrow> Q (Inl e) (s1\<lparr>cs_sent := es\<rparr>)) \<Longrightarrow> (\<And>s1. quiet s s1 \<Longrightarrow> wp (f ()) Q (s1\<lparr>cs_sent := es\<rparr>)) \<Longrightarrow>
   wp (andThen (StoreArtefacts V fuel t a ds dir) f) Q (s\<lparr>cs_sent := es\<rparr>)"
proof -
  assume e: "\<And>e s1. quiet s s1 \<Longrightarrow> Q (Inl e) (s1\<lparr>cs_sent := es\<rparr>)" and f: "\<And>s1. quiet s s1 \<Longrightarrow> wp (f ()) Q (s1\<lparr>cs_sent := es\<rparr>)"
  have "Q (Inl e) s1 \<and> wp (f ()) Q s1" if "quiet (s\<lparr>cs_sent := es\<rparr>) s1" for s1 e
    using that e[of "s1\<lparr>cs_sent := cs_sent s\<rparr>"] f[of "s1\<lparr>cs_sent := cs_sent s\<rparr>"] by (cases s1) simp
  then show ?thesis unfolding wp_andThen by (intro wp_StoreArtefacts) (auto split: sum.split)
qed

lemma vc_finalize:
  "(\<And>e. Q (Inl e) (s\<lparr>cs_sent := es\<rparr>)) \<Longrightarrow>
   (\<And>tx. wp (f tx) Q ((s\<lparr>cs_finalized := cs_finalized s @ [(i, rq)]\<rparr>)\<lparr>cs_sent := es\<rparr>)) \<Longrightarrow> wp (andThen (finalize V i rq) f) Q (s\<lparr>cs_sent := es\<rparr>)"
  unfolding wp_andThen by (rule wp_finalize; cases s) simp_all

lemma vc_prod: "(\<And>a b. p = (a, b) \<Longrightarrow> wp (f a b) Q s) \<Longrightarrow> wp (case p of (a, b) \<Rightarrow> f a b) Q s"
  by (cases p) simp

lemma vc_last_fs:
  "(\<And>s1. quiet s s1 \<Longrightarrow> Q (Inr ()) (s1\<lparr>cs_sent := es\<rparr>)) \<Longrightarrow> wp (on_fs (\<lambda>f. (Inr (), h f))) Q (s\<lparr>cs_sent := es\<rparr>)"
proof -
  assume "\<And>s1. quiet s s1 \<Longrightarrow> Q (Inr ()) (s1\<lparr>cs_sent := es\<rparr>)"
  from this[of "s\<lparr>cs_fs := h (cs_fs s)\<rparr>"] show ?thesis by (cases s) (simp add: wp_on_fs)
qed

lemmas vc_rules = vc_check vc_event vc_fee vc_encode vc_verifyIDs vc_StoreArtefacts vc_finalize vc_prod vc_last_fs

text \<open>How far a registration got, by the number of responses.\<close>

definition reg_post :: "cascade_env \<Rightarrow> register_request \<Rightarrow> cascade \<Rightarrow> unit result \<Rightarrow> cascade \<Rightarrow> bool" where
  "reg_post V req s r s' \<longleftrightarrow> (let k = length (cs_sent s') - length (cs_sent s) in
     (\<exists>tx. cs_sent s' = cs_sent s @ take k (script tx)) \<and> (r = Inr () \<longleftrightarrow> k = 11)
    \<and> (k < 9 \<longrightarrow> cs_p2p s' = cs_p2p s \<and> cs_rqstore s' = cs_rqstore s) \<and> (k < 11 \<longrightarrow> cs_finalized s' = cs_finalized s)
    \<and> (9 \<le> k \<longrightarrow> vetted V req (cs_fs s))
    \<and> (k = 11 \<longrightarrow> (\<exists>a rq. GetAction V (rr_ActionID req) = Inr a \<and> cs_finalized s' = cs_finalized s @ [(act_ActionID a, rq)])))"

abbreviation new_events :: "cascade \<Rightarrow> cascade \<Rightarrow> register_response list" where
  "new_events s s' \<equiv> drop (length (cs_sent s)) (cs_sent s')"

lemma reg_post_early_es:
  "cs_sent s' = cs_sent s @ es \<Longrightarrow> es = take (length es) (script []) \<Longrightarrow> length es < 9 \<Longrightarrow> cs_p2p s' = cs_p2p s \<Longrightarrow> cs_rqstore s' = cs_rqstore s
    \<Longrightarrow> cs_finalized s' = cs_finalized s \<Longrightarrow> reg_post V req s (Inl e) s'"
  unfolding reg_post_def Let_def by (auto intro!: exI[of _ "[]"])

lemma reg_post_late_es:
  "cs_sent s' = cs_sent s @ es \<Longrightarrow> es = take (length es) (script []) \<Longrightarrow> length es < 11 \<Longrightarrow> cs_finalized s' = cs_finalized s
    \<Longrightarrow> vetted V req (cs_fs s) \<Longrightarrow> 9 \<le> length es \<Longrightarrow> reg_post V req s (Inl e) s'"
  unfolding reg_post_def Let_def by (auto intro!: exI[of _ "[]"])

lemmas reg_post_early = reg_post_early_es[of s' s "new_events s s'" for s s']
lemmas reg_post_late = reg_post_late_es[of s' s "new_events s s'" for s s']

lemma reg_post_done:
  "cs_sent s' = cs_sent s @ script tx \<Longrightarrow> vetted V req (cs_fs s) \<Longrightarrow> GetAction V (rr_ActionID req) = Inr a
    \<Longrightarrow> cs_finalized s' = cs_finalized s @ [(act_ActionID a, rq)] \<Longrightarrow> reg_post V req s (Inr ()) s'"
  unfolding reg_post_def Let_def by (auto simp: script_def intro!: exI[of _ tx])

lemma fetchAction_got: "fetchAction V i = Inr a \<Longrightarrow> GetAction V i = Inr a"
  by (auto simp: fetchAction_def split: sum.splits if_splits)

lemma wp_Register: "wp (cascade_Register V fuel taskID req) (reg_post V req s) (s\<lparr>cs_sent := cs_sent s\<rparr>)"
  unfolding cascade_Register_def
  apply (intro vc_rules)
  apply (rule reg_post_early; simp add: script_def; fail)+
  subgoal by (rule reg_post_late, simp_all add: script_def) (rule vettedI; simp add: wrapErr_def)
  subgoal by (rule reg_post_late, simp_all add: script_def) (rule vettedI; simp add: wrapErr_def)
  subgoal by (rule reg_post_done, simp_all add: script_def fetchAction_got) (rule vettedI; simp add: wrapErr_def)
  done

text \<open>C29. No artefact is stored and no action is finalised before every check has passed: the responses of a registration
  are an initial part of one fixed script; before the ninth of them the network, the directory table and the chain are
  untouched, and once it is sent the action exists, its fee is sufficient, this supernode is among the top ones, the hash
  of the uploaded data is the registered one, and the creator has signed the index file and the layout of the data.  The
  registration succeeds exactly when the whole script was sent, and only then has the action been finalised.\<close>

theorem Register_vetted:
  assumes "cascade_Register V fuel taskID req s = Finished (r, s')"
  defines "k \<equiv> length (cs_sent s') - length (cs_sent s)"
  shows "(\<exists>tx. cs_sent s' = cs_sent s @ take k (script tx)) \<and> (r = Inr () \<longleftrightarrow> k = 11)
    \<and> (k < 9 \<longrightarrow> cs_p2p s' = cs_p2p s \<and> cs_rqstore s' = cs_rqstore s) \<and> (k < 11 \<longrightarrow> cs_finalized s' = cs_finalized s)
    \<and> (9 \<le> k \<longrightarrow> vetted V req (cs_fs s))
    \<and> (k = 11 \<longrightarrow> (\<exists>a rq. GetAction V (rr_ActionID req) = Inr a \<and> cs_finalized s' = cs_finalized s @ [(act_ActionID a, rq)]))"
  using wpD[OF wp_Register, of V fuel taskID req s r s'] assms(1) unfolding reg_post_def k_def Let_def by simp


section \<open>Properties of registration and download\<close>

lemma andThen_Inr:
  "andThen m f s = Finished (Inr b, s') \<longleftrightarrow> (\<exists>a s1. m s = Finished (Inr a, s1) \<and> f a s1 = Finished (Inr b, s'))"
  by (auto simp: andThen_def split: run.splits sum.splits prod.splits)

lemma check_Inr: "check r s = Finished (Inr a, s') \<longleftrightarrow> r = Inr a \<and> s' = s"
  by (auto simp: check_def)

lemma relabelled_Inr: "(case r of Inl e \<Rightarrow> Inl (g e) | Inr a \<Rightarrow> Inr a) = Inr b \<longleftrightarrow> r = Inr b"
  by (cases r) auto

text \<open>The check of the identifiers compares the layout with itself: \<^verbatim>\<open>verifySignatureAndDecodeLayout\<close> returns the layout it
  is given, and the comparison of a layout that has a block with itself always succeeds.\<close>

lemma verifyIDs_vacuous:
  assumes "verifySignatureAndDecodeLayout V enc creator l = Inr (l', sig)" and "Blocks l \<noteq> []"
  shows "verifyIDs l' l s = Finished (Inr (), s)"
proof -
  have "l' = l" using verifySignature_signed[OF assms(1)] by simp
  moreover obtain b bs where "Blocks l = b # bs" using assms(2) by (cases "Blocks l") auto
  moreover have "EqualStrList (blk_Symbols b) (blk_Symbols b) = None" by (simp add: EqualStrList_correct)
  ultimately show ?thesis by (simp add: verifyIDs_def)
qed

lemma batches_rqstore: "cascade_batches V fuel root bs s = Finished (r, s') \<Longrightarrow> cs_rqstore s' = cs_rqstore s"
proof (induction bs arbitrary: s)
  case (Cons b bs)
  have one: "cs_rqstore s1 = cs_rqstore s" if "cascade_storeSymbols V fuel root b s = Finished (r1, s1)" for r1 s1
    using that by (auto simp: cascade_storeSymbols_def andThen_def check_def store_batch_def on_fs_def split: run.splits sum.splits prod.splits option.splits)
  from Cons.prems consider e where "cascade_storeSymbols V fuel root b s = Finished (Inl e, s')"
    | s1 where "cascade_storeSymbols V fuel root b s = Finished (Inr (), s1)" "cascade_batches V fuel root bs s1 = Finished (r, s')"
    by (auto simp: andThen_def split: run.splits sum.splits prod.splits)
  then show ?case by cases (use one Cons.IH in auto)
qed (simp add: check_def)

lemma storeCascadeSymbols_rows:
  assumes "storeCascadeSymbols V fuel taskID actionID dir s = Finished (Inr (), s')"
  shows "map_of (cs_rqstore s) taskID = None"
    and "cs_rqstore s' = update_row (\<lambda>t. t = actionID) (\<lambda>r. r\<lparr>is_first_batch_stored := True\<rparr>)
      (cs_rqstore s @ [(taskID, \<lparr>sym_dir = dir, is_first_batch_stored = False, is_completed = False\<rparr>)])"
proof -
  obtain s1 s2 s3 keys where 1: "on_rqstore (StoreSymbolDirectory (dberr (ce_env V) ''StoreSymbolDirectory'') taskID dir) ''store symbol dir: '' s = Finished (Inr (), s1)"
    and 2: "cs_rqstore s2 = cs_rqstore s1"
    and 3: "cascade_batches V fuel dir (chunks cascadeBatchSize (sample_keys V keys)) s2 = Finished (Inr (), s3)"
    and 4: "on_rqstore (UpdateIsFirstBatchStored (dberr (ce_env V) ''UpdateIsFirstBatchStored'') actionID) ''update first-batch flag: '' s3 = Finished (Inr (), s')"
    using assms unfolding storeCascadeSymbols_def by (auto simp: andThen_Inr check_Inr)
  have a: "map_of (cs_rqstore s) taskID = None"
      "cs_rqstore s1 = cs_rqstore s @ [(taskID, \<lparr>sym_dir = dir, is_first_batch_stored = False, is_completed = False\<rparr>)]"
    using 1 by (auto simp: on_rqstore_def StoreSymbolDirectory_def Let_def split: option.splits if_splits prod.splits)
  show "map_of (cs_rqstore s) taskID = None" by (rule a)
  show "cs_rqstore s' = update_row (\<lambda>t. t = actionID) (\<lambda>r. r\<lparr>is_first_batch_stored := True\<rparr>)
      (cs_rqstore s @ [(taskID, \<lparr>sym_dir = dir, is_first_batch_stored = False, is_completed = False\<rparr>)])"
    using 4 batches_rqstore[OF 3] 2 a(2) by (auto simp: on_rqstore_def UpdateIsFirstBatchStored_def Let_def split: option.splits prod.splits)
qed

text \<open>C30. The symbols that a registration leaves to the worker are never stored: the directory is recorded under the
  identifier of the task, and the flag that hands it to the worker is set under the identifier of the action.  As long as
  the two differ, a successful \<^verbatim>\<open>storeCascadeSymbols\<close> leaves the directory out of the worker's list.\<close>

theorem pending_symbols_lost:
  assumes "storeCascadeSymbols V fuel taskID actionID dir s = Finished (Inr (), s')" and "taskID \<noteq> actionID"
    and "GetToDoStoreSymbolDirs None (cs_rqstore s') = Inr todo"
  shows "(\<exists>r. map_of (cs_rqstore s') taskID = Some r \<and> sym_dir r = dir \<and> \<not> is_completed r) \<and> taskID \<notin> fst ` set todo"
proof -
  note R = storeCascadeSymbols_rows[OF assms(1)]
  let ?new = "\<lparr>sym_dir = dir, is_first_batch_stored = False, is_completed = False\<rparr>"
  have q: "cs_rqstore s' = update_row (\<lambda>t. t = actionID) (\<lambda>r. r\<lparr>is_first_batch_stored := True\<rparr>) (cs_rqstore s) @ [(taskID, ?new)]"
    unfolding R(2) update_row_def using assms(2) by simp
  have none: "map_of (update_row (\<lambda>t. t = actionID) (\<lambda>r. r\<lparr>is_first_batch_stored := True\<rparr>) (cs_rqstore s)) taskID = None"
    using R(1) assms(2) by (simp add: map_of_update_row)
  then have "taskID \<notin> fst ` set (update_row (\<lambda>t. t = actionID) (\<lambda>r. r\<lparr>is_first_batch_stored := True\<rparr>) (cs_rqstore s))"
    by (simp only: map_of_eq_None_iff not_False_eq_True)
  then have "\<And>r. (taskID, r) \<notin> set (update_row (\<lambda>t. t = actionID) (\<lambda>r. r\<lparr>is_first_batch_stored := True\<rparr>) (cs_rqstore s))"
    by (metis fst_conv imageI)
  then have "taskID \<notin> fst ` set todo" using assms(3) unfolding q GetToDoStoreSymbolDirs_def by auto
  moreover have "map_of (cs_rqstore s') taskID = Some ?new" unfolding q using none by (simp add: map_add_Some_iff)
  ultimately show ?thesis by simp
qed

lemma restore_ok:
  assumes "restoreFileFromLayout V lay dataHash actionID s = Finished (Inr (path, dir), s')"
  shows "path = path_join dir ''output''" "dir = path_join (symbolsBaseDir (ce_rq V)) actionID"
    "\<exists>d. ReadFile (cs_fs s') path = Inr d \<and> b64_encode (blake3 (ce_env V) d) = dataHash"
proof -
  let ?dec = "\<lambda>syms f. let (r, f') = codec_Decode (ce_rq V) actionID lay syms f in (case r of Inl e \<Rightarrow> errorf (''decode symbols using RaptorQ: '' @ e) | Inr d \<Rightarrow> Inr d, f')"
  obtain syms s1 s2 h where d: "on_fs (?dec syms) s1 = Finished (Inr (path, dir), s2)"
    and h: "HashFileIncrementally (ce_env V) (cs_fs s2) path 0 = Inr h" and v: "verifyDataHash h dataHash = Inr ()" and s2: "s' = s2"
    using assms unfolding restoreFileFromLayout_def
    by (auto simp: Let_def andThen_Inr check_Inr relabelled_Inr)
  obtain f' where c: "codec_Decode (ce_rq V) actionID lay syms (cs_fs s1) = (Inr (path, dir), f')"
    using d by (auto simp: on_fs_def Let_def relabelled_Inr split: prod.splits)
  show "path = path_join dir ''output''" "dir = path_join (symbolsBaseDir (ce_rq V)) actionID" by (rule codec_Decode_ok[OF c])+
  show "\<exists>d. ReadFile (cs_fs s') path = Inr d \<and> b64_encode (blake3 (ce_env V) d) = dataHash"
    using h v s2 by (auto simp: HashFile_whole verifyDataHash_def split: if_splits)
qed

lemma Download_ok:
  assumes "cascade_Download V actionID s = Finished (Inr (), s')"
  obtains a meta dir d where "GetAction V actionID = Inr a" "act_Done a" "proto_unmarshal V (act_Metadata a) = Inr meta"
    "cs_down s' \<noteq> []" "de_FilePath (last (cs_down s')) = path_join dir ''output''" "de_DownloadedDir (last (cs_down s')) = dir"
    "dir = path_join (symbolsBaseDir (ce_rq V)) (act_ActionID a)"
    "ReadFile (cs_fs s') (path_join dir ''output'') = Inr d" "b64_encode (blake3 (ce_env V) d) = cm_DataHash meta"
proof -
  obtain a meta s1 s2 path dir where 1: "wrapErr ''failed to get action'' (GetAction V actionID) = Inr a" "act_Done a"
      "wrapErr ''error decoding cascade metadata'' (decodeCascadeMetadata V (act_Metadata a)) = Inr meta"
    and 2: "wrap_step ''failed to download artifacts'' (downloadArtifacts V (act_ActionID a) meta) s1 = Finished (Inr (path, dir), s2)"
    and 3: "streamDownloadEvent 12 ''artifacts have been downloaded'' path dir s2 = Finished (Inr (), s')"
    using assms unfolding cascade_Download_def by (auto simp: andThen_Inr check_Inr split: if_splits)
  obtain lay s3 where 4: "restoreFileFromLayout V lay (cm_DataHash meta) (act_ActionID a) s3 = Finished (Inr (path, dir), s2)"
    using 2 by (auto simp: wrap_step_def wrapErr_def downloadArtifacts_def andThen_Inr split: run.splits sum.splits prod.splits)
  have s': "cs_fs s' = cs_fs s2" "cs_down s' = cs_down s2 @ [\<lparr>de_EventType = 12, de_Message = ''artifacts have been downloaded'', de_FilePath = path, de_DownloadedDir = dir\<rparr>]"
    using 3 by (auto simp: streamDownloadEvent_def)
  obtain d where "ReadFile (cs_fs s2) path = Inr d" "b64_encode (blake3 (ce_env V) d) = cm_DataHash meta" using restore_ok(3)[OF 4] by blast
  then show thesis using restore_ok(1,2)[OF 4] 1 s'
    by (intro that[of a meta dir d]) (auto simp: wrapErr_def decodeCascadeMetadata_def split: sum.splits)
qed

text \<open>A supernode serves only the registered content: whatever the network answers, when a download succeeds the file
  it hands to the server has the hash that the action has on the chain, and the action was finalised.\<close>

theorem Download_integrity:
  assumes "cascade_Download V actionID s = Finished (Inr (), s')"
  shows "\<exists>a meta d. GetAction V actionID = Inr a \<and> act_Done a \<and> proto_unmarshal V (act_Metadata a) = Inr meta
    \<and> ReadFile (cs_fs s') (de_FilePath (last (cs_down s'))) = Inr d \<and> b64_encode (blake3 (ce_env V) d) = cm_DataHash meta"
  using Download_ok[OF assms] by metis

text \<open>C31. Serving a download destroys the symbols of a registration that wait for the worker: the codec decodes into the
  directory into which it encoded the same action, and the cleanup after a download removes that directory with every
  symbol in it, stored or not.\<close>

theorem download_removes_pending_symbols:
  assumes "cascade_Download V actionID s = Finished (Inr (), s1)" and "GetAction V actionID = Inr a"
    and "CleanupDownload (de_DownloadedDir (last (cs_down s1))) s1 = Finished (r, s2)"
    and "codec_Encode (ce_rq V) (act_ActionID a) path n f = (Inr (l, symbolsDir), f')"
    and "path_join symbolsDir k \<notin> set (fs_kept (cs_fs s1))"
  shows "map_of (fs_files (cs_fs s2)) (path_join symbolsDir k) = None"
proof -
  have e: "symbolsDir = path_join (symbolsBaseDir (ce_rq V)) (act_ActionID a)"
    using assms(4) by (auto simp: codec_Encode_def Let_def split: option.splits sum.splits prod.splits)
  have d: "de_DownloadedDir (last (cs_down s1)) = symbolsDir"
    using Download_ok[OF assms(1)] assms(2) e by (metis sum.inject(2))
  moreover have "symbolsDir \<noteq> []" by (simp add: e path_join_def)
  ultimately have "cs_fs s2 = snd (RemoveAll symbolsDir (cs_fs s1))"
    using assms(3) by (auto simp: CleanupDownload_def on_fs_def Let_def split: prod.splits)
  then show ?thesis using assms(5) by (simp add: RemoveAll_files)
qed

section \<open>Witnesses\<close>

definition wit_layout :: layout where
  "wit_layout = \<lparr>Blocks = [\<lparr>BlockID = 0, EncoderParameters = [], OriginalOffset = 0, blk_Size = 1, blk_Symbols = [''k''], blk_Hash = []\<rparr>]\<rparr>"

definition wit_casc_codecs :: codecs where
  "wit_casc_codecs = \<lparr>layout_marshal = (\<lambda>_. Inr []), layout_unmarshal = (\<lambda>_. Inr wit_layout),
     index_unmarshal = (\<lambda>_. Inr \<lparr>ix_Version = 1, LayoutIDs = [''layout''], LayoutSignature = []\<rparr>),
     ZstdCompress = (\<lambda>b. Inr b), ZstdDecompress = (\<lambda>b. Inr [SeparatorByte, SeparatorByte])\<rparr>"

definition wit_rq :: rq_processor where
  "wit_rq = \<lparr>symbolsBaseDir = ''base'', processor_err = None, RecommendedBlockSize = (\<lambda>n. n), EncodeFile = (\<lambda>_ dir _. Inr (''lay'', [(''lay'', []), (path_join dir ''sym'', [9])])),
     DecodeSymbols = (\<lambda>_ _. Inr [5]), std_marshal = (\<lambda>_. Inr []), std_unmarshal = (\<lambda>_. Inr wit_layout)\<rparr>"

definition wit_action :: chain_action where
  "wit_action = \<lparr>act_ActionID = ''act'', act_Creator = ''c'', act_Metadata = [], act_Price = ''1'', act_Done = True, act_BlockHeight = 3\<rparr>"

definition wit_meta :: cascade_metadata where
  "wit_meta = \<lparr>cm_DataHash = b64_encode (blake3 (wit_disk False) [5]), cm_RqIdsIc = 1, cm_RqIdsMax = 0, cm_RqIdsIds = [''index''], cm_Signatures = ''.''\<rparr>"

definition wit_cascade_env :: cascade_env where
  "wit_cascade_env = \<lparr>ce_env = wit_disk False, ce_retrieve = wit_retrieve, ce_codecs = wit_casc_codecs, ce_rq = wit_rq,
     SupernodeAccountAddress = ''me'', GetAction = (\<lambda>_. Inr wit_action), GetTopSupernodes = (\<lambda>_. Inr [''me'']), GetActionFee = (\<lambda>_. Inr ''0''),
     price_lt = (\<lambda>_ _. Some False), Verify = (\<lambda>_ _ _. None), FinalizeAction = (\<lambda>_ _. Inr ''tx''),
     proto_unmarshal = (\<lambda>_. Inr wit_meta),
     rand_shuffle = (\<lambda>ks. ks)\<rparr>"

definition wit_cascade :: "bool \<Rightarrow> cascade" where
  "wit_cascade up = \<lparr>cs_p2p = wit_p2p\<lparr>p2p_dht := wit_holder, p2p_running := up\<rparr>, cs_fs = wit_fs\<lparr>fs_files := [(''in'', [5])]\<rparr>, cs_rqstore = [],
     cs_sent = [], cs_down = [], cs_finalized = []\<rparr>"

definition wit_request :: register_request where
  "wit_request = \<lparr>rr_TaskID = ''t'', rr_ActionID = ''act'', rr_DataHash = blake3 (wit_disk False) [5], rr_DataSize = 1, rr_FilePath = ''in''\<rparr>"

lemmas wit_casc_defs = wit_cascade_env_def wit_cascade_def wit_casc_codecs_def wit_rq_def wit_action_def wit_request_def

lemma wit_encode:
  "codec_Encode wit_rq i ''in'' n (cs_fs (wit_cascade up)) = (Inr (wit_layout, ''base/'' @ i), put_file (path_join (''base/'' @ i) ''sym'') [9] (put_file ''lay'' [] (cs_fs (wit_cascade up))))"
  by (simp add: codec_Encode_def Let_def MkdirAll_def ReadFile_def wit_casc_defs wit_fs_def path_join_def)

lemma wit_checks:
  "fetchAction wit_cascade_env i = Inr wit_action" "verifyActionFee wit_cascade_env wit_action n s = Finished (Inr (), s)"
  "ensureIsTopSupernode wit_cascade_env h = Inr ()" "decodeCascadeMetadata wit_cascade_env m = Inr wit_meta"
  "verifyDataHash (blake3 (wit_disk False) [5]) (cm_DataHash wit_meta) = Inr ()"
  "verifySignatureAndDecodeLayout wit_cascade_env (cm_Signatures wit_meta) c wit_layout = Inr (wit_layout, [])"
  "generateRQIDFiles wit_cascade_env wit_meta sig wit_layout = Inr ([], [])" "verifyIDs wit_layout wit_layout s = Finished (Inr (), s)"
proof -
  have "digit_char 0 = CHR ''0''" by code_simp
  then have "parse_uint 64 ''0'' = Inr 0" using parse_uint_itoa[of 0 64] by (simp add: itoa.simps[of 0])
  then have [simp]: "atoi ''0'' = (0, False)" by (simp add: atoi_def)
  have [simp]: "DecodeString [] = Inr []" "B64Decode [] = Inr []" by (simp_all add: DecodeString_def B64Decode_def str_of_bytes_def)
  show "fetchAction wit_cascade_env i = Inr wit_action" "ensureIsTopSupernode wit_cascade_env h = Inr ()" "decodeCascadeMetadata wit_cascade_env m = Inr wit_meta"
    "verifyActionFee wit_cascade_env wit_action n s = Finished (Inr (), s)"
    by (simp_all add: fetchAction_def ensureIsTopSupernode_def decodeCascadeMetadata_def wrapErr_def verifyActionFee_def wit_cascade_env_def wit_action_def)
  show "verifyDataHash (blake3 (wit_disk False) [5]) (cm_DataHash wit_meta) = Inr ()" by (simp add: verifyDataHash_def wit_meta_def)
  show "verifySignatureAndDecodeLayout wit_cascade_env (cm_Signatures wit_meta) c wit_layout = Inr (wit_layout, [])"
    by (simp add: verifySignatureAndDecodeLayout_def extractIndexFileAndSignature_def decodeIndexFile_def wit_meta_def wit_cascade_env_def wit_casc_codecs_def bytes_of_str_def)
  show "generateRQIDFiles wit_cascade_env wit_meta sig wit_layout = Inr ([], [])"
    by (simp add: generateRQIDFiles_def GenRQIdentifiersFiles_def GenIndexFiles_def GetIDFiles_def wit_meta_def wit_cascade_env_def wit_casc_codecs_def)
  have "EqualStrList [''k''] [''k''] = None" by (subst EqualStrList_correct) simp
  then show "verifyIDs wit_layout wit_layout s = Finished (Inr (), s)" by (simp add: verifyIDs_def wit_layout_def)
qed

lemma wit_encodeInput:
  "cs_fs s = cs_fs (wit_cascade up) \<Longrightarrow> encodeInput wit_cascade_env i ''in'' n s =
     Finished (Inr (wit_layout, ''base/'' @ i), s\<lparr>cs_fs := put_file (path_join (''base/'' @ i) ''sym'') [9] (put_file ''lay'' [] (cs_fs (wit_cascade up)))\<rparr>)"
  by (simp add: encodeInput_def on_fs_def wit_encode[of i n up] wrapErr_def wit_cascade_env_def)

lemma wit_not_running: "\<not> p2p_running (cs_p2p s) \<Longrightarrow> StoreArtefacts V fuel t a ds dir s = Finished (Inl not_running, s)"
  by (simp add: StoreArtefacts_def andThen_def store_batch_def p2p_StoreBatch_def)

theorem Register_vetted_witness:
  "\<exists>s' e. cascade_Register wit_cascade_env 3 ''task'' wit_request (wit_cascade False) = Finished (Inl e, s')
     \<and> length (cs_sent s') = 9 \<and> cs_finalized s' = [] \<and> vetted wit_cascade_env wit_request (cs_fs (wit_cascade False))"
proof -
  let ?run = "cascade_Register wit_cascade_env 3 ''task'' wit_request (wit_cascade False)"
  have q: "rr_FilePath wit_request = ''in''" "rr_DataHash wit_request = blake3 (wit_disk False) [5]" by (simp_all add: wit_request_def)
  have "cs_sent (wit_cascade False) = []" "cs_finalized (wit_cascade False) = []" "\<not> p2p_running (cs_p2p (wit_cascade False))" by (simp_all add: wit_cascade_def)
  note c = this
  have "\<exists>s' e. ?run = Finished (Inl e, s') \<and> length (cs_sent s') = 9"
    using c by (simp add: cascade_Register_def andThen_def check_def streamEvent_def wit_checks wit_encodeInput[where up = False] wit_not_running q)
  then obtain s' e where r: "?run = Finished (Inl e, s')" and l: "length (cs_sent s') = 9" by blast
  from Register_vetted[OF r] l r c show ?thesis by simp
qed

theorem pending_symbols_lost_witness:
  "\<exists>s' todo. storeCascadeSymbols wit_cascade_env 3 ''task'' ''act'' ''d'' (wit_cascade False) = Finished (Inr (), s')
     \<and> GetToDoStoreSymbolDirs None (cs_rqstore s') = Inr todo \<and> ''task'' \<notin> fst ` set todo"
proof -
  have "dberr (ce_env wit_cascade_env) x = None" for x by (simp add: wit_cascade_env_def wit_disk_def)
  then obtain s' where r: "storeCascadeSymbols wit_cascade_env 3 ''task'' ''act'' ''d'' (wit_cascade False) = Finished (Inr (), s')"
    by (simp add: storeCascadeSymbols_def andThen_def on_rqstore_def StoreSymbolDirectory_def UpdateIsFirstBatchStored_def check_def walkSymbolTree_def
        files_below_def below_def wit_cascade_def wit_fs_def sample_keys_def Let_def)
  obtain todo where t: "GetToDoStoreSymbolDirs None (cs_rqstore s') = Inr todo" by (simp add: GetToDoStoreSymbolDirs_def)
  from pending_symbols_lost[OF r _ t] r t show ?thesis by simp
qed

lemma wit_get: "cs_p2p s = cs_p2p (wit_cascade True) \<Longrightarrow> p2p_get wit_cascade_env key s = Finished (Inr [1], s)"
  by (cases s) (simp add: p2p_get_def p2p_Retrieve_def dht_Retrieve_def sq_Retrieve_def wit_cascade_env_def wit_cascade_def wit_p2p_def wit_holder_def wit_dht_def
      wit_base58 wit_disk_def wit_env_def empty_sqlite_def B_def Let_def)

lemma wit_find_layout: "cs_p2p s = cs_p2p (wit_cascade True) \<Longrightarrow> find_layout wit_cascade_env [''index''] s = Finished (Inr wit_layout, s)"
proof -
  assume s: "cs_p2p s = cs_p2p (wit_cascade True)"
  have [simp]: "B64Decode [] = Inr []" by (simp add: DecodeString_def B64Decode_def str_of_bytes_def)
  have p: "parseIndexFile (ce_codecs wit_cascade_env) [1] = Inr \<lparr>ix_Version = 1, LayoutIDs = [''layout''], LayoutSignature = []\<rparr>"
      "parseRQMetadataFile (ce_codecs wit_cascade_env) [1] = Inr (wit_layout, [], [])"
    by (simp_all add: parseIndexFile_def parseRQMetadataFile_def decodeIndexFile_def wit_cascade_env_def wit_casc_codecs_def str_of_bytes_def bytes_of_str_def)
  have "Blocks wit_layout \<noteq> []" by (simp add: wit_layout_def)
  then show ?thesis by (simp add: wit_get[OF s] p)
qed

lemma wit_decode:
  assumes "fs_denied f = []" and "fs_kept f = []"
  shows "\<exists>f'. codec_Decode wit_rq ''act'' lay syms f = (Inr (''base/act/output'', ''base/act''), f') \<and> ReadFile f' ''base/act/output'' = Inr [5] \<and> fs_kept f' = []"
proof -
  have w: "\<exists>f1. write_symbols d syms f = (None, f1) \<and> fs_denied f1 = [] \<and> fs_kept f1 = []" if "fs_denied f = []" "fs_kept f = []" for d f
    using that by (induction syms arbitrary: f) (auto simp: WriteFile_def)
  obtain f1 where f1: "write_symbols ''base/act'' syms f = (None, f1)" "fs_denied f1 = []" "fs_kept f1 = []" using w[OF assms] by blast
  have p: "path_join ''base'' ''act'' = ''base/act''" "path_join ''base/act'' ''output'' = ''base/act/output''" by (simp_all add: path_join_def)
  show ?thesis using assms f1 by (simp add: codec_Decode_def wit_rq_def MkdirAll_def WriteFile_def ReadFile_def p Let_def)
qed

lemma wit_restore:
  assumes "cs_p2p s = cs_p2p (wit_cascade True)" and "fs_denied (cs_fs s) = []" and "fs_kept (cs_fs s) = []"
  shows "\<exists>s'. restoreFileFromLayout wit_cascade_env wit_layout (cm_DataHash wit_meta) ''act'' s = Finished (Inr (''base/act/output'', ''base/act''), s') \<and> fs_kept (cs_fs s') = []"
proof -
  obtain s1 where b: "BatchRetrieve (wit_disk False) wit_retrieve [''k''] 1 wit_holder = Some (Inr [([], [1])], s1)"
    using BatchRetrieve_after_local(1)[of "[''k'']" "wit_disk False" wit_retrieve 1 wit_holder, OF _ _ refl order.refl]
      wit_local[of wit_retrieve] wit_transfer by (simp add: wit_base58)
  have br: "batch_retrieve wit_cascade_env [''k''] (Suc 0) s = Finished (Inr [([], [1])], s\<lparr>cs_p2p := (cs_p2p s)\<lparr>p2p_dht := s1\<rparr>\<rparr>)"
    using b assms(1) by (simp add: batch_retrieve_def p2p_BatchRetrieve_def wit_cascade_env_def wit_cascade_def)
  have sy: "sort (concat (map blk_Symbols (Blocks wit_layout))) = [''k'']" by (simp add: wit_layout_def)
  have g: "ce_rq wit_cascade_env = wit_rq" "ce_env wit_cascade_env = wit_disk False" by (simp_all add: wit_cascade_env_def)
  obtain f' where d: "codec_Decode wit_rq ''act'' wit_layout [([], [1])] (cs_fs s) = (Inr (''base/act/output'', ''base/act''), f')"
      "ReadFile f' ''base/act/output'' = Inr [5]" "fs_kept f' = []"
    using wit_decode[OF assms(2,3)] by blast
  have h: "HashFileIncrementally (wit_disk False) f' ''base/act/output'' 0 = Inr (blake3 (wit_disk False) [5])" using d(2) by (simp add: HashFile_whole)
  show ?thesis using wit_checks(5) d(3) by (simp add: restoreFileFromLayout_def andThen_def check_def sy requiredSymbolPercent_def br on_fs_def g d(1) h)
qed

lemma wit_download: "\<exists>s'. cascade_Download wit_cascade_env ''act'' (wit_cascade True) = Finished (Inr (), s') \<and> fs_kept (cs_fs s') = []"
proof -
  have g: "GetAction wit_cascade_env i = Inr wit_action" "act_Done wit_action" "cm_RqIdsIds wit_meta = [''index'']" "act_ActionID wit_action = ''act''" for i
    by (simp_all add: wit_cascade_env_def wit_action_def wit_meta_def)
  have k: "fs_denied (cs_fs (wit_cascade True)) = []" "fs_kept (cs_fs (wit_cascade True)) = []" by (simp_all add: wit_cascade_def wit_fs_def)
  have dl: "\<exists>s'. downloadArtifacts wit_cascade_env ''act'' wit_meta s = Finished (Inr (''base/act/output'', ''base/act''), s') \<and> fs_kept (cs_fs s') = []"
    if "cs_p2p s = cs_p2p (wit_cascade True)" "cs_fs s = cs_fs (wit_cascade True)" for s
    using wit_restore[of s] that k by (simp add: downloadArtifacts_def andThen_def g wit_find_layout del: find_layout.simps)
  define s3 where "s3 = (wit_cascade True)\<lparr>cs_down := map (\<lambda>(t, m). \<lparr>de_EventType = t, de_Message = m, de_FilePath = [], de_DownloadedDir = []\<rparr>)
    [(1, ''action has been retrieved''), (11, ''action state has been validated''), (4, ''metadata has been decoded'')]\<rparr>"
  obtain s4 where s4: "downloadArtifacts wit_cascade_env ''act'' wit_meta s3 = Finished (Inr (''base/act/output'', ''base/act''), s4)" "fs_kept (cs_fs s4) = []"
    using dl[of s3] by (auto simp: s3_def)
  have "cascade_Download wit_cascade_env ''act'' (wit_cascade True) =
      andThen (wrap_step ''failed to download artifacts'' (downloadArtifacts wit_cascade_env ''act'' wit_meta))
        (\<lambda>(filePath, tmpDir). streamDownloadEvent 12 ''artifacts have been downloaded'' filePath tmpDir) s3"
    unfolding cascade_Download_def andThen_def[of "check _"] andThen_def[of "streamDownloadEvent _ _ _ _"]
    by (simp add: check_def streamDownloadEvent_def wrapErr_def g wit_checks s3_def wit_cascade_def)
  then show ?thesis using s4 by (simp add: andThen_def wrap_step_def wrapErr_def streamDownloadEvent_def)
qed

theorem Download_integrity_witness:
  "\<exists>s' d. cascade_Download wit_cascade_env ''act'' (wit_cascade True) = Finished (Inr (), s')
     \<and> ReadFile (cs_fs s') (de_FilePath (last (cs_down s'))) = Inr d \<and> b64_encode (blake3 (wit_disk False) d) = cm_DataHash wit_meta"
proof -
  obtain s' where r: "cascade_Download wit_cascade_env ''act'' (wit_cascade True) = Finished (Inr (), s')" using wit_download by blast
  from Download_integrity[OF r] r show ?thesis by (auto simp: wit_cascade_env_def)
qed

theorem download_removes_pending_symbols_witness:
  "\<exists>s1 s2 r. cascade_Download wit_cascade_env ''act'' (wit_cascade True) = Finished (Inr (), s1)
     \<and> CleanupDownload (de_DownloadedDir (last (cs_down s1))) s1 = Finished (r, s2) \<and> map_of (fs_files (cs_fs s2)) ''base/act/sym'' = None"
proof -
  obtain s1 where r: "cascade_Download wit_cascade_env ''act'' (wit_cascade True) = Finished (Inr (), s1)" "fs_kept (cs_fs s1) = []" using wit_download by blast
  have "\<exists>r s2. CleanupDownload (de_DownloadedDir (last (cs_down s1))) s1 = Finished (r, s2)"
    by (simp add: CleanupDownload_def check_def on_fs_def Let_def split: prod.splits)
  then obtain q s2 where c: "CleanupDownload (de_DownloadedDir (last (cs_down s1))) s1 = Finished (q, s2)" by blast
  have a: "GetAction wit_cascade_env ''act'' = Inr wit_action" by (simp add: wit_cascade_env_def)
  have "ce_rq wit_cascade_env = wit_rq" "act_ActionID wit_action = ''act''" by (simp_all add: wit_cascade_env_def wit_action_def)
  then have "\<exists>f'. codec_Encode (ce_rq wit_cascade_env) (act_ActionID wit_action) ''in'' 1 (cs_fs (wit_cascade True)) = (Inr (wit_layout, ''base/act''), f')"
    by (simp add: wit_encode)
  then obtain f' where e: "codec_Encode (ce_rq wit_cascade_env) (act_ActionID wit_action) ''in'' 1 (cs_fs (wit_cascade True)) = (Inr (wit_layout, ''base/act''), f')" by blast
  have "map_of (fs_files (cs_fs s2)) (path_join ''base/act'' ''sym'') = None"
    by (rule download_removes_pending_symbols[OF r(1) a c e]) (simp add: r(2))
  then show ?thesis using r(1) c by (auto simp: path_join_def)
qed

end
