(* ===== verification/Cascade_Stream.thy ===== *)
theory Cascade_Stream
  imports Cascade_Service
begin

text \<open>
  The two ends of the upload and download streams: the gRPC server of a supernode
  (\<^verbatim>\<open>supernode/node/action/server/cascade\<close>) and the adapter of the SDK (\<^verbatim>\<open>sdk/adapters/supernodeservice/adapter.go\<close>).
  A stream is the list of the messages that one side sends; its end is the end of the stream, an error that a receive
  reports is an element of its own.  Errors of sends and of system calls are parameters.  The handler of an upload is
  modelled as one step on the file system; what two handlers do that run at the same time is stated over its parts.
\<close>

section \<open>Chunks\<close>

definition KiB :: nat where "KiB = 1024"
definition MiB :: nat where "MiB = 1024 * 1024"
definition maxFileSize :: nat where "maxFileSize = 1024 * 1024 * 1024"

definition calculateOptimalChunkSize :: "nat \<Rightarrow> nat" where
  "calculateOptimalChunkSize fileSize = (
     let minChunkSize = 64 * KiB; maxChunkSize = 4 * MiB;
         chunkSize = (if fileSize \<le> MiB then minChunkSize
                      else if fileSize \<le> 50 * MiB then 256 * KiB
                      else if fileSize \<le> 500 * MiB then MiB
                      else maxChunkSize);
         chunkSize' = (if chunkSize < minChunkSize then minChunkSize else chunkSize)
     in if chunkSize' > maxChunkSize then maxChunkSize else chunkSize')"

section \<open>The server: upload\<close>

datatype register_msg = RegChunk "bytes option" | RegMetadata "(string \<times> string) option" | RegOther
datatype 'a recv = Received 'a | RecvError string

record upload_env =
  os_TempDir :: string
  os_Getpid :: nat
  create_err :: "string option"
  write_err :: "nat \<Rightarrow> string option" \<comment> \<open>by the bytes received before\<close>
  sync_err :: "string option"

record upload =
  up_hashed :: bytes
  up_offset :: nat
  up_total :: nat
  up_metadata :: "(string \<times> string) option"

definition tempFilePath :: "upload_env \<Rightarrow> string" where
  "tempFilePath U = path_join (os_TempDir U) (''cascade-upload-'' @ itoa (os_Getpid U) @ ''.tmp'')"

text \<open>The name of the temporary file depends only on the process, and creating it empties an existing file.\<close>

definition initializeHasherAndTempFile :: "upload_env \<Rightarrow> fs \<Rightarrow> upload result \<times> fs" where
  "initializeHasherAndTempFile U f =
     (case create_err U of
        Some e \<Rightarrow> (errorf (''could not create temp file: '' @ e), f)
      | None \<Rightarrow> (Inr \<lparr>up_hashed = [], up_offset = 0, up_total = 0, up_metadata = None\<rparr>, put_file (tempFilePath U) [] f))"

text \<open>A write at the offset of the open file; a gap before the offset reads as zeros.\<close>

definition write_at :: "nat \<Rightarrow> bytes \<Rightarrow> bytes \<Rightarrow> bytes" where
  "write_at off d c = take off (c @ replicate (off - length c) 0) @ d @ drop (off + length d) c"

definition file_content :: "string \<Rightarrow> fs \<Rightarrow> bytes" where
  "file_content p f = (case map_of (fs_files f) p of None \<Rightarrow> [] | Some c \<Rightarrow> c)"

fun receive_one :: "upload_env \<Rightarrow> register_msg recv \<Rightarrow> upload \<Rightarrow> fs \<Rightarrow> (upload result \<times> fs) option" where
  "receive_one U (RecvError e) u f = Some (errorf (''failed to receive stream data: '' @ e), f)"
| "receive_one U (Received (RegChunk None)) u f = Some (Inr u, f)"
| "receive_one U (Received (RegChunk (Some d))) u f =
     (case write_err U (up_total u) of
        Some e \<Rightarrow> Some (errorf (''file write error: '' @ e), f)
      | None \<Rightarrow>
          let u' = u\<lparr>up_hashed := up_hashed u @ d, up_offset := up_offset u + length d, up_total := up_total u + length d\<rparr>;
              f' = put_file (tempFilePath U) (write_at (up_offset u) d (file_content (tempFilePath U) f)) f
          in Some (if up_total u' > maxFileSize then errorf (''file size '' @ itoa (up_total u') @ '' exceeds maximum allowed size of 1GB'')
                   else Inr u', f'))"
| "receive_one U (Received (RegMetadata None)) u f = None"
| "receive_one U (Received (RegMetadata (Some m))) u f = Some (Inr (u\<lparr>up_metadata := Some m\<rparr>), f)"
| "receive_one U (Received RegOther) u f = Some (Inr u, f)"

fun receive_all :: "upload_env \<Rightarrow> register_msg recv list \<Rightarrow> upload \<Rightarrow> fs \<Rightarrow> (upload result \<times> fs) option" where
  "receive_all U [] u f = Some (Inr u, f)"
| "receive_all U (m # ms) u f =
     (case receive_one U m u f of
        None \<Rightarrow> None
      | Some (Inl e, f') \<Rightarrow> Some (Inl e, f')
      | Some (Inr u', f') \<Rightarrow> receive_all U ms u' f')"

definition target_path :: "upload_env \<Rightarrow> string \<Rightarrow> string" where
  "target_path U taskID = path_join (path_join (os_TempDir U) taskID) (''uploaded-'' @ taskID @ ''.dat'')"

definition replaceTempDirWithTaskDir :: "upload_env \<Rightarrow> string \<Rightarrow> fs \<Rightarrow> string result \<times> fs" where
  "replaceTempDirWithTaskDir U taskID f =
     (case MkdirAll (path_join (os_TempDir U) taskID) f of
        Some e \<Rightarrow> (errorf (''could not create task directory: '' @ e), f)
      | None \<Rightarrow>
          (case map_of (fs_files f) (tempFilePath U) of
             None \<Rightarrow> (errorf ''could not move file to final location: no such file or directory'', f)
           | Some c \<Rightarrow>
               let f' = f\<lparr>fs_files := alist_delete (tempFilePath U) (fs_files f)\<rparr>
               in (Inr (target_path U taskID), put_file (target_path U taskID) c f')))"

text \<open>\<open>newTaskID\<close> is the identifier of the task object that the factory makes.\<close>

definition server_Register :: "cascade_env \<Rightarrow> upload_env \<Rightarrow> nat \<Rightarrow> string \<Rightarrow> register_msg recv list \<Rightarrow> unit step" where
  "server_Register V U fuel newTaskID stream s =
     (case initializeHasherAndTempFile U (cs_fs s) of
        (Inl e, f) \<Rightarrow> Finished (errorf (''initializing hasher and temp file: '' @ e), s\<lparr>cs_fs := f\<rparr>)
      | (Inr u, f) \<Rightarrow>
          (case receive_all U stream u f of
             None \<Rightarrow> Crashed
           | Some (Inl e, f1) \<Rightarrow> Finished (Inl e, s\<lparr>cs_fs := f1\<rparr>)
           | Some (Inr u', f1) \<Rightarrow>
               (case up_metadata u' of
                  None \<Rightarrow> Finished (errorf ''no metadata received'', s\<lparr>cs_fs := f1\<rparr>)
                | Some (taskID, actionID) \<Rightarrow>
                    (case sync_err U of
                       Some e \<Rightarrow> Finished (errorf (''failed to sync temp file: '' @ e), s\<lparr>cs_fs := f1\<rparr>)
                     | None \<Rightarrow>
                         (case replaceTempDirWithTaskDir U taskID f1 of
                            (Inl e, f2) \<Rightarrow> Finished (errorf (''failed to replace temp dir with task dir: '' @ e), s\<lparr>cs_fs := f2\<rparr>)
                          | (Inr targetPath, f2) \<Rightarrow>
                              (case cascade_Register V fuel newTaskID \<lparr>rr_TaskID = taskID, rr_ActionID = actionID,
                                      rr_DataHash = blake3 (ce_env V) (up_hashed u'), rr_DataSize = up_total u', rr_FilePath = targetPath\<rparr> (s\<lparr>cs_fs := f2\<rparr>) of
                                 Finished (Inl e, s1) \<Rightarrow> Finished (errorf (''registration failed: '' @ e), s1)
                               | r \<Rightarrow> r))))))"

section \<open>The server: download\<close>

datatype download_msg = DlEvent nat string | DlChunk bytes

definition readFileContentsInChunks :: "string \<Rightarrow> fs \<Rightarrow> bytes result" where
  "readFileContentsInChunks p f = (case ReadFile f p of Inl e \<Rightarrow> Inl e | Inr d \<Rightarrow> Inr (concat (chunks MiB d)))"

text \<open>The path and the directory of the last response that carries a path.\<close>

definition restored :: "download_response list \<Rightarrow> string \<times> string" where
  "restored rs = fold (\<lambda>r p. if de_FilePath r \<noteq> [] then (de_FilePath r, de_DownloadedDir r) else p) rs ([], [])"

fun send_chunks :: "(nat \<Rightarrow> string option) \<Rightarrow> nat \<Rightarrow> bytes list \<Rightarrow> string option \<times> download_msg list" where
  "send_chunks err i [] = (None, [])"
| "send_chunks err i (c # cs) =
     (case err i of Some e \<Rightarrow> (Some e, []) | None \<Rightarrow> (let (r, out) = send_chunks err (Suc i) cs in (r, DlChunk c # out)))"

definition events_of :: "download_response list \<Rightarrow> download_msg list" where
  "events_of rs = map (\<lambda>r. DlEvent (de_EventType r) (de_Message r)) rs"

text \<open>What is sent, and the outcome.  A failed cleanup is only logged.\<close>

definition server_Download ::
  "cascade_env \<Rightarrow> (nat \<Rightarrow> string option) \<Rightarrow> string \<Rightarrow> string \<Rightarrow> cascade \<Rightarrow> (download_msg list \<times> unit result \<times> cascade) run" where
  "server_Download V err actionID signature s =
     (case (if signature \<noteq> [] then VerifyDownloadSignature V actionID signature else Inr ()) of
        Inl e \<Rightarrow> Finished ([], errorf (''signature verification failed: '' @ e), s)
      | Inr _ \<Rightarrow>
          (case cascade_Download V actionID (s\<lparr>cs_down := []\<rparr>) of
             Crashed \<Rightarrow> Crashed
           | Running \<Rightarrow> Running
           | Finished (Inl e, s1) \<Rightarrow> Finished (events_of (cs_down s1), Inl e, s1)
           | Finished (Inr _, s1) \<Rightarrow>
               let (path, dir) = restored (cs_down s1); evs = events_of (cs_down s1)
               in if path = [] then Finished (evs, errorf ''no artefact to stream'', s1)
                  else (case readFileContentsInChunks path (cs_fs s1) of
                          Inl e \<Rightarrow> Finished (evs, Inl e, s1)
                        | Inr d \<Rightarrow>
                            (case send_chunks err 0 (chunks (calculateOptimalChunkSize (length d)) d) of
                               (Some e, out) \<Rightarrow> Finished (evs @ out, Inl e, s1)
                             | (None, out) \<Rightarrow>
                                 (case CleanupDownload dir s1 of
                                    Finished (_, s2) \<Rightarrow> Finished (evs @ out, Inr (), s2)
                                  | Crashed \<Rightarrow> Crashed
                                  | Running \<Rightarrow> Running)))))"

section \<open>The client\<close>

definition toSdkEvent :: "nat \<Rightarrow> string" where
  "toSdkEvent e =
     (if e = 1 then ''supernode:action_retrieved'' else if e = 2 then ''supernode:action_fee_verified''
      else if e = 3 then ''supernode:top_check_passed'' else if e = 4 then ''supernode:metadata_decoded''
      else if e = 5 then ''supernode:data_hash_verified'' else if e = 6 then ''supernode:input_encoded''
      else if e = 7 then ''supernode:signature_verified'' else if e = 8 then ''supernode:rqid_generated''
      else if e = 9 then ''supernode:rqid_verified'' else if e = 10 then ''supernode:artefacts_stored''
      else if e = 11 then ''supernode:action_finalized'' else if e = 12 then ''supernode:artefacts_downloaded''
      else ''supernode:unknown'')"

fun send_upload :: "(nat \<Rightarrow> string option) \<Rightarrow> nat \<Rightarrow> bytes list \<Rightarrow> string option \<times> register_msg list" where
  "send_upload err i [] = (None, [])"
| "send_upload err i (c # cs) =
     (case err i of Some e \<Rightarrow> (Some (''failed to send chunk: '' @ e), [])
      | None \<Rightarrow> (let (r, out) = send_upload err (Suc i) cs in (r, RegChunk (Some c) # out)))"

text \<open>The messages of an upload; with an error when it is given up before the stream is closed.\<close>

definition upload_messages :: "(nat \<Rightarrow> string option) \<Rightarrow> fs \<Rightarrow> string \<Rightarrow> string \<Rightarrow> string \<Rightarrow> string option \<times> register_msg list" where
  "upload_messages err f path taskID actionID =
     (case ReadFile f path of
        Inl e \<Rightarrow> (Some (''failed to open file: '' @ e), [])
      | Inr d \<Rightarrow>
          if length d > maxFileSize then (Some (''file size '' @ itoa (length d) @ '' bytes exceeds maximum allowed size of 1GB''), [])
          else let parts = chunks (calculateOptimalChunkSize (length d)) d
               in case send_upload err 0 parts of
                    (Some e, out) \<Rightarrow> (Some e, out)
                  | (None, out) \<Rightarrow>
                      (case err (length parts) of
                         Some e \<Rightarrow> (Some (''failed to send metadata: '' @ e), out)
                       | None \<Rightarrow> (None, out @ [RegMetadata (Some (taskID, actionID))])))"

text \<open>The events passed to the logger, and the final response: the last one with a transaction hash.\<close>

fun read_responses :: "register_response recv list \<Rightarrow> register_response option \<Rightarrow> (string \<times> string \<times> string) list \<times> register_response result" where
  "read_responses [] final =
     ([], case final of None \<Rightarrow> errorf ''no final response with tx_hash received'' | Some r \<Rightarrow> Inr r)"
| "read_responses (RecvError e # rs) final = ([], errorf (''failed to receive server response: '' @ e))"
| "read_responses (Received r # rs) final =
     (let (evs, res) = read_responses rs (if re_TxHash r \<noteq> [] then Some r else final)
      in ((toSdkEvent (re_EventType r), re_Message r, re_TxHash r) # evs, res))"

definition CascadeSupernodeRegister ::
  "(nat \<Rightarrow> string option) \<Rightarrow> fs \<Rightarrow> string \<Rightarrow> string \<Rightarrow> string \<Rightarrow> (register_msg list \<Rightarrow> register_response recv list) \<Rightarrow>
   (string \<times> string \<times> string) list \<times> (string \<times> string) result" where
  "CascadeSupernodeRegister err f path taskID actionID answers =
     (case upload_messages err f path taskID actionID of
        (Some e, _) \<Rightarrow> ([], Inl e)
      | (None, ms) \<Rightarrow>
          let (evs, res) = read_responses (answers ms) None
          in (evs, case res of Inl e \<Rightarrow> Inl e | Inr r \<Rightarrow> Inr (re_Message r, re_TxHash r)))"

fun read_download :: "string \<Rightarrow> download_msg recv list \<Rightarrow> fs \<Rightarrow> (string \<times> string) list \<times> unit result \<times> fs" where
  "read_download out [] f = ([], Inr (), f)"
| "read_download out (RecvError e # ms) f = ([], errorf (''stream recv: '' @ e), f)"
| "read_download out (Received (DlEvent ty msg) # ms) f =
     (let (evs, r) = read_download out ms f in ((toSdkEvent ty, msg) # evs, r))"
| "read_download out (Received (DlChunk d) # ms) f =
     (if d = [] then read_download out ms f
      else if out \<in> set (fs_denied f) then ([], errorf ''write chunk: permission denied'', f)
      else read_download out ms (put_file out (file_content out f @ d) f))"

definition CascadeSupernodeDownload :: "string \<Rightarrow> string \<Rightarrow> download_msg recv list \<Rightarrow> fs \<Rightarrow> (string \<times> string) list \<times> unit result \<times> fs" where
  "CascadeSupernodeDownload dir out stream f =
     (case MkdirAll dir f of
        Some e \<Rightarrow> ([], errorf (''create output directory: '' @ e), f)
      | None \<Rightarrow>
          if out \<in> set (fs_denied f) then ([], errorf ''create output file: permission denied'', f)
          else read_download out stream (put_file out [] f))"

section \<open>Lemmas\<close>

lemma chunk_size_bounds: "64 * KiB \<le> calculateOptimalChunkSize n" "calculateOptimalChunkSize n \<le> 4 * MiB"
  by (auto simp: calculateOptimalChunkSize_def KiB_def MiB_def Let_def)

lemma chunk_size_pos: "0 < calculateOptimalChunkSize n"
  using chunk_size_bounds(1)[of n] by (simp add: KiB_def)

lemma write_at_end: "length c = off \<Longrightarrow> write_at off d c = c @ d"
  by (simp add: write_at_def)

lemma file_content_put [simp]: "file_content p (put_file q d f) = (if p = q then d else file_content p f)"
  by (simp add: file_content_def)

lemma init_ok:
  "create_err U = None \<Longrightarrow> initializeHasherAndTempFile U f =
     (Inr \<lparr>up_hashed = [], up_offset = 0, up_total = 0, up_metadata = None\<rparr>, put_file (tempFilePath U) [] f)"
  by (simp add: initializeHasherAndTempFile_def)

text \<open>One upload alone: the file is what has been hashed, and the offset, the count and the length agree.\<close>

definition upload_inv :: "upload_env \<Rightarrow> upload \<Rightarrow> fs \<Rightarrow> bool" where
  "upload_inv U u f \<longleftrightarrow> map_of (fs_files f) (tempFilePath U) = Some (up_hashed u) \<and> up_offset u = length (up_hashed u) \<and> up_total u = length (up_hashed u)"

lemma upload_inv_init: "initializeHasherAndTempFile U f = (Inr u, f') \<Longrightarrow> upload_inv U u f'"
  by (auto simp: initializeHasherAndTempFile_def upload_inv_def split: option.splits)

lemma upload_inv_one: "receive_one U m u f = Some (Inr u', f') \<Longrightarrow> upload_inv U u f \<Longrightarrow> upload_inv U u' f'"
  by (induction U m u f rule: receive_one.induct)
    (auto simp: upload_inv_def Let_def file_content_def write_at_end split: option.splits if_splits)

lemma upload_inv_all: "receive_all U ms u f = Some (Inr u', f') \<Longrightarrow> upload_inv U u f \<Longrightarrow> upload_inv U u' f'"
proof (induction ms arbitrary: u f)
  case (Cons m ms)
  then obtain u1 f1 where "receive_one U m u f = Some (Inr u1, f1)" "receive_all U ms u1 f1 = Some (Inr u', f')"
    by (auto split: option.splits sum.splits)
  then show ?case using Cons.IH Cons.prems(2) upload_inv_one by blast
qed simp

lemma receive_metadata:
  "receive_one U (Received (RegMetadata m)) u f = Some (Inr u', f') \<Longrightarrow> up_hashed u' = up_hashed u \<and> up_total u' = up_total u"
  by (cases m) auto

lemma receive_one_env: "receive_one U m u f = Some (r, f') \<Longrightarrow> fs_denied f' = fs_denied f \<and> fs_kept f' = fs_kept f"
  by (induction U m u f rule: receive_one.induct) (auto simp: Let_def split: option.splits)

fun chunk_bytes :: "register_msg recv list \<Rightarrow> bytes" where
  "chunk_bytes [] = []"
| "chunk_bytes (Received (RegChunk (Some d)) # ms) = d @ chunk_bytes ms"
| "chunk_bytes (_ # ms) = chunk_bytes ms"

lemma receive_all_bytes: "receive_all U ms u f = Some (Inr u', f') \<Longrightarrow> up_hashed u' = up_hashed u @ chunk_bytes ms"
  by (induction ms arbitrary: u f rule: chunk_bytes.induct) (auto simp: Let_def split: option.splits sum.splits if_splits dest: receive_metadata)

lemma receive_one_limit: "receive_one U m u f = Some (Inr u', f') \<Longrightarrow> up_total u \<le> maxFileSize \<Longrightarrow> up_total u' \<le> maxFileSize"
  by (induction U m u f rule: receive_one.induct) (auto simp: Let_def split: option.splits if_splits)

lemma receive_all_limit: "receive_all U ms u f = Some (Inr u', f') \<Longrightarrow> up_total u \<le> maxFileSize \<Longrightarrow> up_total u' \<le> maxFileSize"
proof (induction ms arbitrary: u f)
  case (Cons m ms)
  then obtain u1 f1 where "receive_one U m u f = Some (Inr u1, f1)" "receive_all U ms u1 f1 = Some (Inr u', f')"
    by (auto split: option.splits sum.splits)
  then show ?case using Cons.IH Cons.prems(2) receive_one_limit by blast
qed simp

lemma receive_chunks:
  assumes "\<And>n. write_err U n = None" and "up_total u + length (concat cs) \<le> maxFileSize" and "upload_inv U u f"
  shows "\<exists>f'. receive_all U (map (\<lambda>c. Received (RegChunk (Some c))) cs) u f
      = Some (Inr (u\<lparr>up_hashed := up_hashed u @ concat cs, up_offset := up_offset u + length (concat cs), up_total := up_total u + length (concat cs)\<rparr>), f')
    \<and> fs_denied f' = fs_denied f"
  using assms(2,3)
proof (induction cs arbitrary: u f)
  case Nil
  then show ?case by simp
next
  case (Cons c cs)
  let ?u = "u\<lparr>up_hashed := up_hashed u @ c, up_offset := up_offset u + length c, up_total := up_total u + length c\<rparr>"
  let ?f = "put_file (tempFilePath U) (write_at (up_offset u) c (file_content (tempFilePath U) f)) f"
  have one: "receive_one U (Received (RegChunk (Some c))) u f = Some (Inr ?u, ?f)" using assms(1) Cons.prems(1) by (simp add: Let_def)
  have "upload_inv U ?u ?f" by (rule upload_inv_one[OF one Cons.prems(2)])
  from Cons.IH[OF _ this] Cons.prems(1) one show ?case by (simp add: add.assoc)
qed

lemma receive_all_append:
  "receive_all U (ms @ ms') u f = (case receive_all U ms u f of None \<Rightarrow> None | Some (Inl e, f') \<Rightarrow> Some (Inl e, f') | Some (Inr u', f') \<Rightarrow> receive_all U ms' u' f')"
  by (induction ms arbitrary: u f) (auto split: option.splits sum.splits)

lemma send_upload_ok: "\<forall>i. err i = None \<Longrightarrow> send_upload err n cs = (None, map (\<lambda>c. RegChunk (Some c)) cs)"
  by (induction cs arbitrary: n) auto

lemma replace_ok:
  assumes "map_of (fs_files f) (tempFilePath U) = Some c" and "path_join (os_TempDir U) taskID \<notin> set (fs_denied f)"
  shows "\<exists>f'. replaceTempDirWithTaskDir U taskID f = (Inr (target_path U taskID), f') \<and> map_of (fs_files f') (target_path U taskID) = Some c \<and> fs_denied f' = fs_denied f"
  using assms by (simp add: replaceTempDirWithTaskDir_def MkdirAll_def Let_def)

section \<open>Properties\<close>

text \<open>C17. An upload arrives as it was sent.  Suppose the client can read its file of at most 1 GB and no send fails, the
  server can create, write and sync its temporary file and may write to the directory of the task, and no other upload
  runs at the same time (C19 shows what happens otherwise).  Then, whatever the size of the file makes of the chunks, the
  outcome of the server's handler is that of a registration for the client's task and action whose file has exactly the
  content of the client's file, whose hash is the hash of that content, and whose size is its length, started in a state in
  which only the file system has changed.\<close>

theorem upload_delivered:
  assumes "ReadFile f path = Inr d" and "length d \<le> maxFileSize" and "\<forall>i. err i = None"
    and "create_err U = None" and "\<forall>n. write_err U n = None" and "sync_err U = None"
    and "path_join (os_TempDir U) taskID \<notin> set (fs_denied (cs_fs s))" and "target_path U taskID \<notin> set (fs_denied (cs_fs s))"
  shows "\<exists>ms f1. upload_messages err f path taskID actionID = (None, ms)
    \<and> ReadFile f1 (target_path U taskID) = Inr d
    \<and> server_Register V U fuel newTaskID (map Received ms) s =
        (case cascade_Register V fuel newTaskID \<lparr>rr_TaskID = taskID, rr_ActionID = actionID, rr_DataHash = blake3 (ce_env V) d, rr_DataSize = length d, rr_FilePath = target_path U taskID\<rparr> (s\<lparr>cs_fs := f1\<rparr>) of
           Finished (Inl e, s2) \<Rightarrow> Finished (Inl (''registration failed: '' @ e), s2) | r \<Rightarrow> r)"
proof -
  let ?cs = "chunks (calculateOptimalChunkSize (length d)) d"
  have c: "concat ?cs = d" by (rule concat_chunks[OF chunk_size_pos])
  let ?ms = "map (\<lambda>c. RegChunk (Some c)) ?cs @ [RegMetadata (Some (taskID, actionID))]"
  have m: "upload_messages err f path taskID actionID = (None, ?ms)"
    using assms(1,2,3) by (simp add: upload_messages_def send_upload_ok Let_def)
  define u0 :: upload where "u0 = \<lparr>up_hashed = [], up_offset = 0, up_total = 0, up_metadata = None\<rparr>"
  have i0: "initializeHasherAndTempFile U (cs_fs s) = (Inr u0, put_file (tempFilePath U) [] (cs_fs s))" using assms(4) by (simp add: init_ok u0_def)
  obtain f1 where r1: "receive_all U (map (\<lambda>c. Received (RegChunk (Some c))) ?cs) u0 (put_file (tempFilePath U) [] (cs_fs s))
      = Some (Inr \<lparr>up_hashed = d, up_offset = length d, up_total = length d, up_metadata = None\<rparr>, f1)" and d1: "fs_denied f1 = fs_denied (cs_fs s)"
    using receive_chunks[of U u0 ?cs "put_file (tempFilePath U) [] (cs_fs s)"] assms(2,5) upload_inv_init[OF i0] by (auto simp: c u0_def)
  have i1: "upload_inv U \<lparr>up_hashed = d, up_offset = length d, up_total = length d, up_metadata = None\<rparr> f1"
    by (rule upload_inv_all[OF r1 upload_inv_init[OF i0]])
  have r2: "receive_all U (map Received ?ms) u0 (put_file (tempFilePath U) [] (cs_fs s))
      = Some (Inr \<lparr>up_hashed = d, up_offset = length d, up_total = length d, up_metadata = Some (taskID, actionID)\<rparr>, f1)"
    using r1 by (simp add: receive_all_append comp_def)
  obtain f2 where f2: "replaceTempDirWithTaskDir U taskID f1 = (Inr (target_path U taskID), f2)" "map_of (fs_files f2) (target_path U taskID) = Some d" "fs_denied f2 = fs_denied f1"
    using replace_ok[of f1 U d taskID] i1 assms(7) d1 by (auto simp: upload_inv_def)
  have "ReadFile f2 (target_path U taskID) = Inr d" using f2 assms(8) d1 by (simp add: ReadFile_def)
  moreover have "server_Register V U fuel newTaskID (map Received ?ms) s =
        (case cascade_Register V fuel newTaskID \<lparr>rr_TaskID = taskID, rr_ActionID = actionID, rr_DataHash = blake3 (ce_env V) d, rr_DataSize = length d, rr_FilePath = target_path U taskID\<rparr> (s\<lparr>cs_fs := f2\<rparr>) of
           Finished (Inl e, s2) \<Rightarrow> Finished (Inl (''registration failed: '' @ e), s2) | r \<Rightarrow> r)"
    unfolding server_Register_def i0 prod.case sum.case r2 option.case by (simp add: assms(6) f2(1))
  ultimately show ?thesis using m by (intro exI[of _ ?ms] exI[of _ f2]) (simp del: map_append)
qed

lemma upload_limit_client:
  "ReadFile f path = Inr d \<Longrightarrow> maxFileSize < length d \<Longrightarrow> \<exists>e. upload_messages err f path taskID actionID = (Some e, [])"
  by (simp add: upload_messages_def)

text \<open>The limit of 1 GB holds whatever a client sends: a server that receives more neither registers nor stores
  anything and sends no response.\<close>

theorem upload_limit:
  assumes "maxFileSize < length (chunk_bytes stream)" and "server_Register V U fuel newTaskID stream s = Finished (r, s')"
  shows "r \<noteq> Inr () \<and> cs_p2p s' = cs_p2p s \<and> cs_rqstore s' = cs_rqstore s \<and> cs_sent s' = cs_sent s \<and> cs_finalized s' = cs_finalized s"
proof -
  have "False" if i: "initializeHasherAndTempFile U (cs_fs s) = (Inr u, f)" and a: "receive_all U stream u f = Some (Inr u', f1)" for u f u' f1
  proof -
    have "upload_inv U u' f1" by (rule upload_inv_all[OF a upload_inv_init[OF i]])
    moreover have "up_hashed u = []" "up_total u = 0" using i by (auto simp: initializeHasherAndTempFile_def split: option.splits)
    ultimately show False using receive_all_bytes[OF a] receive_all_limit[OF a] assms(1) by (simp add: upload_inv_def)
  qed
  with assms(2) show ?thesis unfolding server_Register_def by (fastforce split: prod.splits sum.splits option.splits)
qed

text \<open>C19. Two uploads at the same time corrupt each other: both write to the one temporary file of the process.  When a
  second upload starts and writes its first chunk after the first has received all its data, the first upload goes on
  to register the second one's data under the hash of its own.\<close>

theorem concurrent_uploads_corrupt:
  assumes "initializeHasherAndTempFile U f = (Inr ua, f1)" and "receive_one U (Received (RegChunk (Some a))) ua f1 = Some (Inr ua', f2)"
    and "initializeHasherAndTempFile U f2 = (Inr ub, f3)" and "receive_one U (Received (RegChunk (Some b))) ub f3 = Some (Inr ub', f4)"
    and "replaceTempDirWithTaskDir U taskID f4 = (Inr target, f5)"
  shows "up_hashed ua' = a \<and> up_total ua' = length a \<and> map_of (fs_files f5) target = Some b"
  using assms by (auto simp: initializeHasherAndTempFile_def replaceTempDirWithTaskDir_def Let_def write_at_def split: option.splits if_splits)

section \<open>From the server to the client\<close>

lemma restored_snoc: "de_FilePath r \<noteq> [] \<Longrightarrow> restored (rs @ [r]) = (de_FilePath r, de_DownloadedDir r)"
  by (simp add: restored_def)

lemma send_chunks_None: "send_chunks err i cs = (None, out) \<Longrightarrow> out = map DlChunk cs"
  by (induction cs arbitrary: i out) (auto split: option.splits prod.splits)

lemma server_Download_ok:
  assumes "server_Download V err actionID sig s = Finished (out, Inr (), s')"
  obtains a meta d cs evs where "GetAction V actionID = Inr a" "act_Done a" "proto_unmarshal V (act_Metadata a) = Inr meta"
    "out = events_of evs @ map DlChunk cs" "concat cs = d" "b64_encode (blake3 (ce_env V) d) = cm_DataHash meta"
proof -
  obtain s1 where run: "cascade_Download V actionID (s\<lparr>cs_down := []\<rparr>) = Finished (Inr (), s1)"
    and rest: "(let (path, dir) = restored (cs_down s1); evs = events_of (cs_down s1)
               in if path = [] then Finished (evs, errorf ''no artefact to stream'', s1)
                  else (case readFileContentsInChunks path (cs_fs s1) of
                          Inl e \<Rightarrow> Finished (evs, Inl e, s1)
                        | Inr d \<Rightarrow>
                            (case send_chunks err 0 (chunks (calculateOptimalChunkSize (length d)) d) of
                               (Some e, out) \<Rightarrow> Finished (evs @ out, Inl e, s1)
                             | (None, out) \<Rightarrow>
                                 (case CleanupDownload dir s1 of
                                    Finished (_, s2) \<Rightarrow> Finished (evs @ out, Inr (), s2)
                                  | Crashed \<Rightarrow> Crashed
                                  | Running \<Rightarrow> Running)))) = Finished (out, Inr (), s')"
    using assms unfolding server_Download_def by (auto split: sum.splits run.splits prod.splits)
  obtain a meta dir d where a: "GetAction V actionID = Inr a" "act_Done a" "proto_unmarshal V (act_Metadata a) = Inr meta" "cs_down s1 \<noteq> []"
      "de_FilePath (last (cs_down s1)) = path_join dir ''output''" "de_DownloadedDir (last (cs_down s1)) = dir"
      "ReadFile (cs_fs s1) (path_join dir ''output'') = Inr d" "b64_encode (blake3 (ce_env V) d) = cm_DataHash meta"
    using Download_ok[OF run] by metis
  have "restored (cs_down s1) = (path_join dir ''output'', dir)"
    using restored_snoc[of "last (cs_down s1)" "butlast (cs_down s1)"] a(4,5,6) by (simp add: path_join_def)
  moreover have "readFileContentsInChunks (path_join dir ''output'') (cs_fs s1) = Inr d"
    using a(7) by (simp add: readFileContentsInChunks_def concat_chunks MiB_def)
  moreover have "path_join dir ''output'' \<noteq> []" by (simp add: path_join_def)
  ultimately obtain cs where "send_chunks err 0 (chunks (calculateOptimalChunkSize (length d)) d) = (None, cs)" "out = events_of (cs_down s1) @ cs"
    using rest by (auto simp: Let_def split: prod.splits option.splits run.splits)
  then have "out = events_of (cs_down s1) @ map DlChunk (chunks (calculateOptimalChunkSize (length d)) d)" using send_chunks_None by blast
  then show thesis using a by (intro that[of a meta "cs_down s1" "chunks (calculateOptimalChunkSize (length d)) d" d]) (simp_all only: concat_chunks[OF chunk_size_pos])
qed

lemma read_events: "read_download out (map Received (events_of evs) @ ms) f = (let (es, r) = read_download out ms f in (map (\<lambda>e. (toSdkEvent (de_EventType e), de_Message e)) evs @ es, r))"
  by (induction evs) (auto simp: events_of_def Let_def split: prod.splits)

lemma read_chunks:
  "out \<notin> set (fs_denied f) \<Longrightarrow> map_of (fs_files f) out = Some c \<Longrightarrow>
   \<exists>f'. read_download out (map (\<lambda>d. Received (DlChunk d)) cs) f = ([], Inr (), f') \<and> map_of (fs_files f') out = Some (c @ concat cs)"
proof (induction cs arbitrary: f c)
  case (Cons d cs)
  then show ?case
    using Cons.IH[of f c] Cons.IH[of "put_file out (c @ d) f" "c @ d"] by (cases "d = []") (simp_all add: file_content_def)
qed simp

text \<open>C18. What a client has downloaded is what was registered: when a supernode's download succeeds, the client writes a file
  whose hash is the one of the action on the chain; the split into chunks loses and reorders nothing.\<close>

theorem download_end_to_end:
  assumes "server_Download V err actionID sig s = Finished (stream, Inr (), s')"
    and "dir \<notin> set (fs_denied f)" and "out \<notin> set (fs_denied f)"
  shows "\<exists>a meta d evs f'. GetAction V actionID = Inr a \<and> act_Done a \<and> proto_unmarshal V (act_Metadata a) = Inr meta
    \<and> CascadeSupernodeDownload dir out (map Received stream) f = (evs, Inr (), f')
    \<and> map_of (fs_files f') out = Some d \<and> b64_encode (blake3 (ce_env V) d) = cm_DataHash meta"
proof -
  obtain a meta d cs es where A: "GetAction V actionID = Inr a" "act_Done a" "proto_unmarshal V (act_Metadata a) = Inr meta"
    "stream = events_of es @ map DlChunk cs" "concat cs = d" "b64_encode (blake3 (ce_env V) d) = cm_DataHash meta"
    by (rule server_Download_ok[OF assms(1)])
  obtain f' where "read_download out (map (\<lambda>d. Received (DlChunk d)) cs) (put_file out [] f) = ([], Inr (), f')" "map_of (fs_files f') out = Some d"
    using read_chunks[of out "put_file out [] f" "[]" cs] assms(3) A(5) by auto
  moreover from this(1) have "CascadeSupernodeDownload dir out (map Received stream) f = (map (\<lambda>e. (toSdkEvent (de_EventType e), de_Message e)) es, Inr (), f')"
    using assms(2,3) by (simp add: CascadeSupernodeDownload_def MkdirAll_def A(4) read_events comp_def)
  ultimately show ?thesis using A by blast
qed

text \<open>The answers of a server to a registration: the responses of the task, then the end of the stream or its error.\<close>

definition answer_stream :: "cascade \<Rightarrow> unit result \<Rightarrow> cascade \<Rightarrow> register_response recv list" where
  "answer_stream s r s' = map Received (drop (length (cs_sent s)) (cs_sent s')) @ (case r of Inl e \<Rightarrow> [RecvError e] | Inr _ \<Rightarrow> [])"

lemma read_responses_append:
  "read_responses (map Received rs @ ms) final = (let (es, r) = read_responses ms (fold (\<lambda>r fin. if re_TxHash r \<noteq> [] then Some r else fin) rs final)
     in (map (\<lambda>r. (toSdkEvent (re_EventType r), re_Message r, re_TxHash r)) rs @ es, r))"
  by (induction rs arbitrary: final) (auto simp: Let_def split: prod.splits)

text \<open>The client's verdict is the server's: the adapter reports a successful registration exactly when the task of the
  server succeeded and the chain gave a transaction hash, and then it reports that hash.\<close>

theorem client_sees_outcome:
  assumes "cascade_Register V fuel taskID req s = Finished (r, s')"
  shows "(\<exists>tx. r = Inr () \<and> tx \<noteq> [] \<and> cs_sent s' = cs_sent s @ script tx \<and> snd (read_responses (answer_stream s r s') None) = Inr \<lparr>re_EventType = 11, re_Message = ''action has been finalized'', re_TxHash = tx\<rparr>)
    \<or> ((\<exists>e. snd (read_responses (answer_stream s r s') None) = Inl e) \<and> ((\<exists>e. r = Inl e) \<or> cs_sent s' = cs_sent s @ script []))"
proof -
  have post: "reg_post V req s r s'" using wpD[OF wp_Register, of V fuel taskID req s r s'] assms by simp
  show ?thesis
  proof (cases r)
    case (Inl e)
    then have "snd (read_responses (answer_stream s r s') None) = Inl (''failed to receive server response: '' @ e)"
      by (simp add: answer_stream_def read_responses_append Let_def)
    then show ?thesis using Inl by blast
  next
    case (Inr u)
    then obtain tx where c: "cs_sent s' = cs_sent s @ take 11 (script tx)" using post by (auto simp: reg_post_def Let_def)
    have t: "take 11 (script tx) = script tx" by (simp add: script_def)
    show ?thesis
    proof (cases "tx = []")
      case True
      then show ?thesis using c t Inr by (simp add: answer_stream_def read_responses_append[where ms = "[]", simplified] Let_def script_def)
    next
      case False
      then show ?thesis using c t Inr by (intro disjI1 exI[of _ tx]) (simp add: answer_stream_def read_responses_append[where ms = "[]", simplified] Let_def script_def)
    qed
  qed
qed

section \<open>Witnesses\<close>

definition wit_upload_env :: upload_env where
  "wit_upload_env = \<lparr>os_TempDir = ''/tmp'', os_Getpid = 7, create_err = None, write_err = (\<lambda>_. None), sync_err = None\<rparr>"

lemma wit_fs_open: "fs_denied (cs_fs (wit_cascade up)) = []" "ReadFile (cs_fs (wit_cascade up)) ''in'' = Inr [5]"
  by (simp_all add: wit_cascade_def wit_fs_def ReadFile_def)

theorem upload_delivered_witness:
  "\<exists>ms f1. upload_messages (\<lambda>_. None) (cs_fs (wit_cascade True)) ''in'' ''t'' ''act'' = (None, ms)
     \<and> ReadFile f1 (target_path wit_upload_env ''t'') = Inr [5]
     \<and> server_Register wit_cascade_env wit_upload_env 3 ''n'' (map Received ms) (wit_cascade True) =
        (case cascade_Register wit_cascade_env 3 ''n'' \<lparr>rr_TaskID = ''t'', rr_ActionID = ''act'', rr_DataHash = blake3 (ce_env wit_cascade_env) [5], rr_DataSize = 1, rr_FilePath = target_path wit_upload_env ''t''\<rparr> ((wit_cascade True)\<lparr>cs_fs := f1\<rparr>) of
           Finished (Inl e, s2) \<Rightarrow> Finished (Inl (''registration failed: '' @ e), s2) | r \<Rightarrow> r)"
proof -
  have l: "length [5 :: byte] \<le> maxFileSize" by (simp add: maxFileSize_def)
  have u: "create_err wit_upload_env = None" "\<forall>n. write_err wit_upload_env n = None" "sync_err wit_upload_env = None" by (simp_all add: wit_upload_env_def)
  have d: "p \<notin> set (fs_denied (cs_fs (wit_cascade True)))" for p by (simp add: wit_fs_open)
  have "\<forall>i. (\<lambda>_. None) (i :: nat) = (None :: string option)" by simp
  note R = upload_delivered[OF wit_fs_open(2)[of True] l this u d d, where actionID = "''act''" and taskID = "''t''" and V = wit_cascade_env and fuel = 3 and newTaskID = "''n''"]
  from R show ?thesis by (simp only: list.size One_nat_def add_0)
qed

theorem upload_limit_witness:
  "\<exists>r s'. server_Register wit_cascade_env wit_upload_env 3 ''n'' [Received (RegChunk (Some (replicate (Suc maxFileSize) 0)))] (wit_cascade True) = Finished (r, s')
     \<and> r \<noteq> Inr () \<and> cs_sent s' = []"
proof -
  let ?st = "[Received (RegChunk (Some (replicate (Suc maxFileSize) 0)))]"
  have "\<exists>r s'. server_Register wit_cascade_env wit_upload_env 3 ''n'' ?st (wit_cascade True) = Finished (r, s')"
    by (simp add: server_Register_def initializeHasherAndTempFile_def wit_upload_env_def Let_def del: replicate.simps)
  then obtain r s' where run: "server_Register wit_cascade_env wit_upload_env 3 ''n'' ?st (wit_cascade True) = Finished (r, s')" by blast
  have "maxFileSize < length (chunk_bytes ?st)" by (simp del: replicate.simps)
  from upload_limit[OF this run] run show ?thesis by (auto simp: wit_cascade_def simp del: replicate.simps)
qed

theorem concurrent_uploads_corrupt_witness:
  "\<exists>ua ua' ub ub' f1 f2 f3 f4 f5 target.
     initializeHasherAndTempFile wit_upload_env wit_fs = (Inr ua, f1) \<and> receive_one wit_upload_env (Received (RegChunk (Some [1]))) ua f1 = Some (Inr ua', f2)
     \<and> initializeHasherAndTempFile wit_upload_env f2 = (Inr ub, f3) \<and> receive_one wit_upload_env (Received (RegChunk (Some [2]))) ub f3 = Some (Inr ub', f4)
     \<and> replaceTempDirWithTaskDir wit_upload_env ''t'' f4 = (Inr target, f5) \<and> up_hashed ua' = [1] \<and> map_of (fs_files f5) target = Some [2]"
proof -
  let ?U = wit_upload_env
  define z :: upload where "z = \<lparr>up_hashed = [], up_offset = 0, up_total = 0, up_metadata = None\<rparr>"
  have i: "initializeHasherAndTempFile ?U f = (Inr z, put_file (tempFilePath ?U) [] f)" for f by (simp add: init_ok wit_upload_env_def z_def)
  have "\<exists>u f'. receive_one ?U (Received (RegChunk (Some [x]))) z f = Some (Inr u, f') \<and> fs_denied f' = fs_denied f \<and> map_of (fs_files f') (tempFilePath ?U) \<noteq> None" for x f
    by (simp add: z_def wit_upload_env_def maxFileSize_def Let_def)
  then obtain R G where r: "\<And>x f. receive_one ?U (Received (RegChunk (Some [x]))) z f = Some (Inr (R x f), G x f) \<and> fs_denied (G x f) = fs_denied f \<and> map_of (fs_files (G x f)) (tempFilePath ?U) \<noteq> None"
    by metis
  let ?f2 = "G 1 (put_file (tempFilePath ?U) [] wit_fs)"
  let ?f4 = "G 2 (put_file (tempFilePath ?U) [] ?f2)"
  have "fs_denied ?f4 = []" using r by (simp add: wit_fs_def)
  then obtain f5 where t: "replaceTempDirWithTaskDir ?U ''t'' ?f4 = (Inr (target_path ?U ''t''), f5)"
    using r[of 2 "put_file (tempFilePath ?U) [] ?f2"] by (auto simp: replaceTempDirWithTaskDir_def MkdirAll_def Let_def)
  have a: "receive_one ?U (Received (RegChunk (Some [1]))) z (put_file (tempFilePath ?U) [] wit_fs) = Some (Inr (R 1 (put_file (tempFilePath ?U) [] wit_fs)), ?f2)"
    and b: "receive_one ?U (Received (RegChunk (Some [2]))) z (put_file (tempFilePath ?U) [] ?f2) = Some (Inr (R 2 (put_file (tempFilePath ?U) [] ?f2)), ?f4)"
    using r by blast+
  from concurrent_uploads_corrupt[OF i a i b t] i a b t show ?thesis by blast
qed

lemma wit_server_download: "\<exists>st s'. server_Download wit_cascade_env (\<lambda>_. None) ''act'' [] (wit_cascade True) = Finished (st, Inr (), s')"
proof -
  have s0: "(wit_cascade True)\<lparr>cs_down := []\<rparr> = wit_cascade True" by (simp add: wit_cascade_def)
  obtain s1 where run: "cascade_Download wit_cascade_env ''act'' (wit_cascade True) = Finished (Inr (), s1)" using wit_download by blast
  obtain a meta dir d where a: "cs_down s1 \<noteq> []" "de_FilePath (last (cs_down s1)) = path_join dir ''output''" "de_DownloadedDir (last (cs_down s1)) = dir"
      "ReadFile (cs_fs s1) (path_join dir ''output'') = Inr d"
    using Download_ok[OF run] by metis
  have r: "restored (cs_down s1) = (path_join dir ''output'', dir)"
    using restored_snoc[of "last (cs_down s1)" "butlast (cs_down s1)"] a by (simp add: path_join_def)
  have c: "send_chunks (\<lambda>_. None) i cs = (None, map DlChunk cs)" for i cs by (induction cs arbitrary: i) simp_all
  have "\<exists>q s2. CleanupDownload dir s1 = Finished (q, s2)"
    by (simp add: CleanupDownload_def check_def on_fs_def Let_def split: prod.splits)
  then obtain q s2 where "CleanupDownload dir s1 = Finished (q, s2)" by blast
  then show ?thesis using a(4) by (simp add: server_Download_def s0 run r c readFileContentsInChunks_def path_join_def Let_def)
qed

theorem download_end_to_end_witness:
  "\<exists>st s' d evs f'. server_Download wit_cascade_env (\<lambda>_. None) ''act'' [] (wit_cascade True) = Finished (st, Inr (), s')
     \<and> CascadeSupernodeDownload ''o'' ''o/f'' (map Received st) wit_fs = (evs, Inr (), f') \<and> map_of (fs_files f') ''o/f'' = Some d
     \<and> b64_encode (blake3 (wit_disk False) d) = cm_DataHash wit_meta"
proof -
  obtain st s' where r: "server_Download wit_cascade_env (\<lambda>_. None) ''act'' [] (wit_cascade True) = Finished (st, Inr (), s')" using wit_server_download by blast
  have "ce_env wit_cascade_env = wit_disk False" "proto_unmarshal wit_cascade_env m = Inr wit_meta" for m by (simp_all add: wit_cascade_env_def)
  then show ?thesis using download_end_to_end[OF r, of "''o''" wit_fs "''o/f''"] r by (auto simp: wit_fs_def)
qed

theorem client_sees_outcome_witness:
  "\<exists>s' e e'. cascade_Register wit_cascade_env 3 ''task'' wit_request (wit_cascade False) = Finished (Inl e, s')
     \<and> snd (read_responses (answer_stream (wit_cascade False) (Inl e) s') None) = Inl e'"
proof -
  have q: "rr_FilePath wit_request = ''in''" "rr_DataHash wit_request = blake3 (wit_disk False) [5]" by (simp_all add: wit_request_def)
  have c: "\<not> p2p_running (cs_p2p (wit_cascade False))" by (simp add: wit_cascade_def)
  have "\<exists>s' e. cascade_Register wit_cascade_env 3 ''task'' wit_request (wit_cascade False) = Finished (Inl e, s')"
    using c by (simp add: cascade_Register_def andThen_def check_def streamEvent_def wit_checks wit_encodeInput[where up = False] wit_not_running q)
  then obtain s' e where r: "cascade_Register wit_cascade_env 3 ''task'' wit_request (wit_cascade False) = Finished (Inl e, s')" by blast
  from client_sees_outcome[OF r] r show ?thesis by auto
qed

end
