(* ===== verification/Sdk_Events.thy ===== *)
theory Sdk_Events
  imports Go_Lib
begin

text \<open>
  Events of the SDK (\<^verbatim>\<open>sdk/event\<close>): the events and the progress that is read off them (\<^verbatim>\<open>types.go\<close>, \<^verbatim>\<open>progress.go\<close>), and
  the bus that hands them to subscribers (\<^verbatim>\<open>bus.go\<close>).  The data of an event is an association list of texts; time stamps
  are left out.  Handlers are numbers.  The pool that limits the handler goroutines is a step relation.
\<close>

section \<open>Events\<close>

record sdk_event =
  ev_Type :: string
  ev_TaskID :: string
  ev_TaskType :: string
  ev_ActionID :: string
  ev_Data :: "(string \<times> string) list"

definition NewEvent :: "string \<Rightarrow> string \<Rightarrow> string \<Rightarrow> string \<Rightarrow> (string \<times> string) list \<Rightarrow> sdk_event" where
  "NewEvent ty taskID taskType actionID d = \<lparr>ev_Type = ty, ev_TaskID = taskID, ev_TaskType = taskType, ev_ActionID = actionID, ev_Data = d\<rparr>"

definition copyEvent :: "sdk_event \<Rightarrow> sdk_event" where
  "copyEvent e = \<lparr>ev_Type = ev_Type e, ev_TaskID = ev_TaskID e, ev_TaskType = ev_TaskType e, ev_ActionID = ev_ActionID e, ev_Data = ev_Data e\<rparr>"

abbreviation SDKTaskStarted :: string where "SDKTaskStarted \<equiv> ''sdk:started''"
abbreviation SDKSupernodesUnavailable :: string where "SDKSupernodesUnavailable \<equiv> ''sdk:supernodes_unavailable''"
abbreviation SDKSupernodesFound :: string where "SDKSupernodesFound \<equiv> ''sdk:supernodes_found''"
abbreviation SDKRegistrationAttempt :: string where "SDKRegistrationAttempt \<equiv> ''sdk:registration_attempt''"
abbreviation SDKRegistrationFailure :: string where "SDKRegistrationFailure \<equiv> ''sdk:registration_failure''"
abbreviation SDKRegistrationSuccessful :: string where "SDKRegistrationSuccessful \<equiv> ''sdk:registration_successful''"
abbreviation SDKTaskTxHashReceived :: string where "SDKTaskTxHashReceived \<equiv> ''sdk:txhash_received''"
abbreviation SDKTaskCompleted :: string where "SDKTaskCompleted \<equiv> ''sdk:completed''"
abbreviation SDKTaskFailed :: string where "SDKTaskFailed \<equiv> ''sdk:failed''"
abbreviation SDKDownloadAttempt :: string where "SDKDownloadAttempt \<equiv> ''sdk:download_attempt''"
abbreviation SDKDownloadFailure :: string where "SDKDownloadFailure \<equiv> ''sdk:download_failure''"
abbreviation SDKOutputPathReceived :: string where "SDKOutputPathReceived \<equiv> ''sdk:output_path_received''"
abbreviation SDKDownloadSuccessful :: string where "SDKDownloadSuccessful \<equiv> ''sdk:download_successful''"

section \<open>Progress\<close>

datatype task_status = StatusPending | StatusActive | StatusCompleted | StatusFailed

record progress_info =
  Percentage :: nat
  pi_Status :: task_status
  CurrentEvent :: string
  IsErrorState :: bool

definition eventProgressMap :: "(string \<times> nat) list" where
  "eventProgressMap =
     [(SDKTaskStarted, 0), (SDKSupernodesUnavailable, 5), (SDKSupernodesFound, 10), (SDKRegistrationAttempt, 12), (SDKRegistrationFailure, 12),
      (''supernode:action_retrieved'', 15), (''supernode:action_fee_verified'', 20), (''supernode:top_check_passed'', 25),
      (''supernode:metadata_decoded'', 30), (''supernode:data_hash_verified'', 35), (''supernode:input_encoded'', 40),
      (''supernode:signature_verified'', 45), (''supernode:rqid_generated'', 50), (''supernode:rqid_verified'', 55),
      (''supernode:artefacts_stored'', 60), (''supernode:action_finalized'', 80), (SDKTaskTxHashReceived, 97),
      (SDKRegistrationSuccessful, 99), (SDKTaskCompleted, 100), (SDKTaskFailed, 100)]"

definition GetProgressFromEvent :: "string \<Rightarrow> progress_info" where
  "GetProgressFromEvent e =
     \<lparr>Percentage = (case map_of eventProgressMap e of None \<Rightarrow> 0 | Some p \<Rightarrow> p),
      pi_Status = (if e = SDKTaskStarted then StatusActive else if e = SDKTaskCompleted then StatusCompleted
                   else if e = SDKTaskFailed then StatusFailed else StatusActive),
      CurrentEvent = e, IsErrorState = (e = SDKTaskFailed)\<rparr>"

definition GetLatestProgress :: "sdk_event list \<Rightarrow> progress_info" where
  "GetLatestProgress es =
     (if es = [] then \<lparr>Percentage = 0, pi_Status = StatusPending, CurrentEvent = [], IsErrorState = False\<rparr>
      else GetProgressFromEvent (ev_Type (last es)))"

section \<open>The bus\<close>

record bus =
  subscribers :: "(string \<times> nat list) list"
  wildcardHandlers :: "nat list"
  maxWorkers :: nat

definition NewBus :: "int \<Rightarrow> bus" where
  "NewBus n = \<lparr>subscribers = [], wildcardHandlers = [], maxWorkers = (if n \<le> 0 then 50 else nat n)\<rparr>"

definition handlers_for :: "string \<Rightarrow> bus \<Rightarrow> nat list" where
  "handlers_for ty b = (case map_of (subscribers b) ty of None \<Rightarrow> [] | Some hs \<Rightarrow> hs)"

definition Subscribe :: "string \<Rightarrow> nat \<Rightarrow> bus \<Rightarrow> bus" where
  "Subscribe ty h b = b\<lparr>subscribers := alist_update ty (handlers_for ty b @ [h]) (subscribers b)\<rparr>"

definition SubscribeAll :: "nat \<Rightarrow> bus \<Rightarrow> bus" where
  "SubscribeAll h b = b\<lparr>wildcardHandlers := wildcardHandlers b @ [h]\<rparr>"

text \<open>The calls that a publication starts, in their order, each with its own copy of the event.\<close>

definition Publish :: "sdk_event \<Rightarrow> bus \<Rightarrow> (nat \<times> sdk_event) list" where
  "Publish e b = map (\<lambda>h. (h, copyEvent e)) (handlers_for (ev_Type e) b @ wildcardHandlers b)"

subsection \<open>The worker pool\<close>

text \<open>\<open>busy\<close> slots are held by handlers; each call of \<^verbatim>\<open>WaitForHandlers\<close> first takes as many slots as the pool has, one
  by one, and then gives them back.  A handler may be started as long as a slot is free.\<close>

datatype waiter = Filling nat | Draining nat

fun held :: "waiter \<Rightarrow> nat" where
  "held (Filling n) = n"
| "held (Draining n) = n"

record pool =
  capacity :: nat
  busy :: nat
  waiters :: "waiter list"

definition taken :: "pool \<Rightarrow> nat" where
  "taken p = busy p + sum_list (map held (waiters p))"

inductive pool_step :: "pool \<Rightarrow> pool \<Rightarrow> bool" where
  start: "taken p < capacity p \<Longrightarrow> pool_step p (p\<lparr>busy := Suc (busy p)\<rparr>)"
| finish: "0 < busy p \<Longrightarrow> pool_step p (p\<lparr>busy := busy p - 1\<rparr>)"
| fill: "i < length (waiters p) \<Longrightarrow> waiters p ! i = Filling n \<Longrightarrow> n < capacity p \<Longrightarrow> taken p < capacity p \<Longrightarrow>
    pool_step p (p\<lparr>waiters := (waiters p)[i := Filling (Suc n)]\<rparr>)"
| full: "i < length (waiters p) \<Longrightarrow> waiters p ! i = Filling (capacity p) \<Longrightarrow> pool_step p (p\<lparr>waiters := (waiters p)[i := Draining (capacity p)]\<rparr>)"
| drain: "i < length (waiters p) \<Longrightarrow> waiters p ! i = Draining (Suc n) \<Longrightarrow> pool_step p (p\<lparr>waiters := (waiters p)[i := Draining n]\<rparr>)"

inductive_cases pool_stepE: "pool_step p p'"

lemma taken_update:
  "i < length ws \<Longrightarrow> sum_list (map held (ws[i := w])) = sum_list (map held ws) + held w - held (ws ! i)"
  by (simp add: map_update sum_list_update)

lemma held_le: "i < length ws \<Longrightarrow> held (ws ! i) \<le> sum_list (map held ws)"
  using elem_le_sum_list[of i "map held ws"] by simp

text \<open>The pool is never overfull.\<close>

lemma pool_step_bound [inv_intros]: "pool_step p p' \<Longrightarrow> taken p \<le> capacity p \<Longrightarrow> taken p' \<le> capacity p' \<and> capacity p' = capacity p"
proof (induction rule: pool_step.induct)
  case (fill i p n)
  then show ?case using held_le[OF fill(1)] by (simp add: taken_def taken_update)
next
  case (full i p)
  then show ?case using held_le[OF full(1)] by (simp add: taken_def taken_update)
next
  case (drain i p n)
  then show ?case using held_le[OF drain(1)] by (simp add: taken_def taken_update)
qed (simp_all add: taken_def)

lemma reach_idle: "pool_step\<^sup>*\<^sup>* p (p\<lparr>busy := 0\<rparr>)"
proof (induction "busy p" arbitrary: p)
  case 0
  then have "p\<lparr>busy := 0\<rparr> = p" by (cases p) simp
  then show ?case by simp
next
  case (Suc n)
  have "pool_step p (p\<lparr>busy := n\<rparr>)" using pool_step.finish[of p] Suc(2) by (metis diff_Suc_1 zero_less_Suc)
  then show ?case using Suc(1)[of "p\<lparr>busy := n\<rparr>"] by (simp add: converse_rtranclp_into_rtranclp)
qed

lemma fill_second:
  assumes "busy p = 0" "waiters p = ws @ [Filling n]" "sum_list (map held ws) + m \<le> capacity p" "n \<le> m"
  shows "pool_step\<^sup>*\<^sup>* p (p\<lparr>waiters := ws @ [Filling m]\<rparr>)"
  using assms
proof (induction "m - n" arbitrary: p n)
  case 0
  then have "p\<lparr>waiters := ws @ [Filling m]\<rparr> = p" by (cases p) simp
  then show ?case by simp
next
  case (Suc k)
  have "pool_step p (p\<lparr>waiters := (waiters p)[length ws := Filling (Suc n)]\<rparr>)"
    using Suc.prems Suc(2) by (intro pool_step.fill[of "length ws" p n]) (auto simp: taken_def)
  then have "pool_step p (p\<lparr>waiters := ws @ [Filling (Suc n)]\<rparr>)" using Suc.prems(2) by simp
  moreover have "pool_step\<^sup>*\<^sup>* (p\<lparr>waiters := ws @ [Filling (Suc n)]\<rparr>) (p\<lparr>waiters := ws @ [Filling m]\<rparr>)"
    using Suc(1)[of "Suc n" "p\<lparr>waiters := ws @ [Filling (Suc n)]\<rparr>"] Suc(2) Suc.prems by simp
  ultimately show ?case by (rule converse_rtranclp_into_rtranclp)
qed

lemma reach_drained: "waiters p = [Draining n] \<Longrightarrow> pool_step\<^sup>*\<^sup>* p (p\<lparr>waiters := [Draining 0]\<rparr>)"
proof (induction n arbitrary: p)
  case 0
  then have "p\<lparr>waiters := [Draining 0]\<rparr> = p" by (cases p) simp
  then show ?case by simp
next
  case (Suc n)
  have "pool_step p (p\<lparr>waiters := [Draining n]\<rparr>)" using pool_step.drain[of 0 p n] Suc.prems by simp
  then show ?case using Suc.IH[of "p\<lparr>waiters := [Draining n]\<rparr>"] by (simp add: converse_rtranclp_into_rtranclp)
qed

text \<open>One call of \<^verbatim>\<open>WaitForHandlers\<close> alone can always come to its end.\<close>

lemma wait_alone_returns:
  assumes "waiters p = [Filling 0]"
  shows "\<exists>p'. pool_step\<^sup>*\<^sup>* p p' \<and> waiters p' = [Draining 0] \<and> busy p' = 0"
proof -
  define p1 where "p1 = p\<lparr>busy := 0\<rparr>"
  define p2 where "p2 = p1\<lparr>waiters := [Filling (capacity p)]\<rparr>"
  define p3 where "p3 = p2\<lparr>waiters := [Draining (capacity p)]\<rparr>"
  have "pool_step\<^sup>*\<^sup>* p p1" unfolding p1_def by (rule reach_idle)
  moreover have "pool_step\<^sup>*\<^sup>* p1 p2" unfolding p2_def using fill_second[of p1 "[]" 0 "capacity p"] assms by (simp add: p1_def)
  moreover have "pool_step p2 p3" unfolding p3_def using pool_step.full[of 0 p2] by (simp add: p2_def p1_def)
  moreover have "pool_step\<^sup>*\<^sup>* p3 (p3\<lparr>waiters := [Draining 0]\<rparr>)" by (rule reach_drained) (simp add: p3_def)
  ultimately have "pool_step\<^sup>*\<^sup>* p (p3\<lparr>waiters := [Draining 0]\<rparr>)" by (meson rtranclp.rtrancl_into_rtrancl rtranclp_trans)
  then show ?thesis by (rule exI[of _ "p3\<lparr>waiters := [Draining 0]\<rparr>", OF conjI]) (simp add: p3_def p2_def p1_def)
qed

text \<open>Two calls of \<^verbatim>\<open>WaitForHandlers\<close> at the same time can lock the bus up: each takes slots one by one, and once
  together they hold all of them neither can go on, no handler can start, and nothing moves any more.\<close>

theorem wait_deadlock:
  assumes "2 \<le> n"
  shows "\<exists>p. pool_step\<^sup>*\<^sup>* \<lparr>capacity = n, busy = 0, waiters = [Filling 0, Filling 0]\<rparr> p \<and> (\<forall>p'. \<not> pool_step p p') \<and> Draining 0 \<notin> set (waiters p)"
proof -
  define p0 where "p0 = \<lparr>capacity = n, busy = 0, waiters = [Filling 0, Filling 0]\<rparr>"
  define p1 where "p1 = p0\<lparr>waiters := [Filling 1, Filling 0]\<rparr>"
  define p2 where "p2 = p1\<lparr>waiters := [Filling 1, Filling (n - 1)]\<rparr>"
  have "pool_step p0 p1" unfolding p1_def using pool_step.fill[of 0 p0 0] assms by (simp add: p0_def taken_def)
  moreover have "pool_step\<^sup>*\<^sup>* p1 p2" unfolding p2_def using fill_second[of p1 "[Filling 1]" 0 "n - 1"] assms by (simp add: p1_def p0_def)
  ultimately have "pool_step\<^sup>*\<^sup>* p0 p2" by (rule converse_rtranclp_into_rtranclp)
  moreover have "\<not> pool_step p2 p'" for p'
    using assms by (auto simp: p2_def p1_def p0_def taken_def less_Suc_eq elim!: pool_stepE)
  ultimately show ?thesis using assms by (intro exI[of _ p2]) (simp add: p0_def p1_def p2_def)
qed

theorem wait_deadlock_witness:
  "\<exists>p. pool_step\<^sup>*\<^sup>* \<lparr>capacity = 100, busy = 0, waiters = [Filling 0, Filling 0]\<rparr> p \<and> (\<forall>p'. \<not> pool_step p p')"
proof -
  have "(2 :: nat) \<le> 100" by simp
  from wait_deadlock[OF this] show ?thesis by blast
qed

text \<open>Every subscriber of an event's type and every subscriber of all events is called once per subscription, those of the
  type first, each in the order of the subscriptions.\<close>

lemma Publish_Subscribe:
  "Publish e (Subscribe ty h b) = (if ev_Type e = ty then map (\<lambda>h. (h, copyEvent e)) (handlers_for ty b @ [h] @ wildcardHandlers b) else Publish e b)"
  "Publish e (SubscribeAll h b) = Publish e b @ [(h, copyEvent e)]"
  by (auto simp: Publish_def Subscribe_def SubscribeAll_def handlers_for_def map_of_alist_update)

lemma copyEvent_id [simp]: "copyEvent e = e"
  by (cases e) (simp add: copyEvent_def)

lemma progress_terminal:
  "es \<noteq> [] \<Longrightarrow> ev_Type (last es) = SDKTaskCompleted \<Longrightarrow> GetLatestProgress es = \<lparr>Percentage = 100, pi_Status = StatusCompleted, CurrentEvent = SDKTaskCompleted, IsErrorState = False\<rparr>"
  "es \<noteq> [] \<Longrightarrow> ev_Type (last es) = SDKTaskFailed \<Longrightarrow> GetLatestProgress es = \<lparr>Percentage = 100, pi_Status = StatusFailed, CurrentEvent = SDKTaskFailed, IsErrorState = True\<rparr>"
  by (simp_all add: GetLatestProgress_def GetProgressFromEvent_def eventProgressMap_def)

end
