(* ===== verification/Sdk_Tasks.thy ===== *)
theory Sdk_Tasks
  imports Sdk_Events Cascade_Stream
begin

text \<open>
  The tasks of the SDK (\<^verbatim>\<open>sdk/task\<close>): the cache of task entries (\<^verbatim>\<open>cache.go\<close>), the manager that creates, deletes and
  follows tasks (\<^verbatim>\<open>manager.go\<close>, \<^verbatim>\<open>helpers.go\<close>), and the two kinds of tasks (\<^verbatim>\<open>task.go\<close>, \<^verbatim>\<open>cascade.go\<close>, \<^verbatim>\<open>download.go\<close>).
  The operations on an entry hold its lock and are atomic.  The ristretto cache may refuse to admit a new key
  (\<open>admit\<close>); it updates a key that it holds in place.  Time stamps are left out.  The supernodes are a parameter: what
  a client of one of them answers, and with which events.
\<close>

section \<open>The cache\<close>

record task_entry =
  te_ActionID :: string
  te_TaskType :: string
  te_Status :: task_status
  te_TxHash :: string
  te_Error :: "string option"
  te_Events :: "sdk_event list"
  te_Cancel :: bool \<comment> \<open>a cancel function is stored\<close>

record sdk_manager =
  taskCache :: "(string \<times> task_entry) list"
  eventBus :: bus
  delivered :: "(nat \<times> sdk_event) list" \<comment> \<open>the handler calls that the bus started\<close>
  cancelled :: "string list"

definition cache_Set :: "bool \<Rightarrow> string \<Rightarrow> task_entry \<Rightarrow> sdk_manager \<Rightarrow> bool \<times> sdk_manager" where
  "cache_Set admit k e m =
     (if admit \<or> map_of (taskCache m) k \<noteq> None then (True, m\<lparr>taskCache := alist_update k e (taskCache m)\<rparr>) else (False, m))"

definition tc_Set :: "bool \<Rightarrow> string \<Rightarrow> string \<Rightarrow> string \<Rightarrow> sdk_manager \<Rightarrow> bool \<times> sdk_manager" where
  "tc_Set admit taskID taskType actionID =
     cache_Set admit taskID \<lparr>te_ActionID = actionID, te_TaskType = taskType, te_Status = StatusPending, te_TxHash = [], te_Error = None,
       te_Events = [], te_Cancel = True\<rparr>"

definition tc_update :: "string \<Rightarrow> (task_entry \<Rightarrow> task_entry) \<Rightarrow> sdk_manager \<Rightarrow> bool \<times> sdk_manager" where
  "tc_update taskID g m = (case map_of (taskCache m) taskID of None \<Rightarrow> (False, m) | Some e \<Rightarrow> cache_Set True taskID (g e) m)"

definition tc_UpdateStatus :: "string \<Rightarrow> task_status \<Rightarrow> string option \<Rightarrow> sdk_manager \<Rightarrow> bool \<times> sdk_manager" where
  "tc_UpdateStatus taskID st err = tc_update taskID (\<lambda>e. e\<lparr>te_Status := st, te_Error := err\<rparr>)"

definition tc_UpdateTxHash :: "string \<Rightarrow> string \<Rightarrow> sdk_manager \<Rightarrow> bool \<times> sdk_manager" where
  "tc_UpdateTxHash taskID tx = tc_update taskID (\<lambda>e. e\<lparr>te_TxHash := tx\<rparr>)"

definition tc_AddEvent :: "string \<Rightarrow> sdk_event \<Rightarrow> sdk_manager \<Rightarrow> bool \<times> sdk_manager" where
  "tc_AddEvent taskID ev = tc_update taskID (\<lambda>e. e\<lparr>te_Events := te_Events e @ [ev]\<rparr>)"

definition tc_Del :: "string \<Rightarrow> sdk_manager \<Rightarrow> sdk_manager" where
  "tc_Del taskID m = m\<lparr>taskCache := alist_delete taskID (taskCache m)\<rparr>"

definition GetProgress :: "task_entry \<Rightarrow> progress_info" where
  "GetProgress e = GetLatestProgress (te_Events e)"

section \<open>The manager\<close>

definition GetTask :: "string \<Rightarrow> sdk_manager \<Rightarrow> task_entry option" where
  "GetTask taskID m = map_of (taskCache m) taskID"

definition DeleteTask :: "string \<Rightarrow> sdk_manager \<Rightarrow> string option \<times> sdk_manager" where
  "DeleteTask taskID m =
     (case map_of (taskCache m) taskID of
        None \<Rightarrow> (Some (''task not found: '' @ taskID), m)
      | Some e \<Rightarrow> (None, tc_Del taskID (if te_Cancel e then m\<lparr>cancelled := cancelled m @ [taskID]\<rparr> else m)))"

definition handleEvent :: "sdk_event \<Rightarrow> sdk_manager \<Rightarrow> sdk_manager" where
  "handleEvent e m = (
     let m1 = snd (tc_AddEvent (ev_TaskID e) e m);
         m2 = (if ev_Type e = SDKTaskStarted then snd (tc_UpdateStatus (ev_TaskID e) StatusActive None m1)
               else if ev_Type e = SDKTaskCompleted then snd (tc_UpdateStatus (ev_TaskID e) StatusCompleted None m1)
               else if ev_Type e = SDKTaskFailed then snd (tc_UpdateStatus (ev_TaskID e) StatusFailed (map_of (ev_Data e) ''error'') m1)
               else if ev_Type e = SDKTaskTxHashReceived then
                 (case map_of (ev_Data e) ''txhash'' of
                    None \<Rightarrow> m1 | Some tx \<Rightarrow> if tx \<noteq> [] then snd (tc_UpdateTxHash (ev_TaskID e) tx m1) else m1)
               else m1)
     in m2\<lparr>delivered := delivered m2 @ Publish e (eventBus m2)\<rparr>)"

definition SubscribeToEvents :: "string \<Rightarrow> nat \<Rightarrow> sdk_manager \<Rightarrow> sdk_manager" where
  "SubscribeToEvents ty h m = m\<lparr>eventBus := Subscribe ty h (eventBus m)\<rparr>"

definition SubscribeToAllEvents :: "nat \<Rightarrow> sdk_manager \<Rightarrow> sdk_manager" where
  "SubscribeToAllEvents h m = m\<lparr>eventBus := SubscribeAll h (eventBus m)\<rparr>"

definition NewManagerWithLumeraClient :: sdk_manager where
  "NewManagerWithLumeraClient = \<lparr>taskCache = [], eventBus = NewBus 100, delivered = [], cancelled = []\<rparr>"

section \<open>The chain and the supernodes\<close>

record sdk_supernode =
  sn_CosmosAddress :: string
  sn_GrpcEndpoint :: string

record sdk_action =
  sa_ID :: string
  sa_Creator :: string
  sa_State :: string
  sa_Height :: int

text \<open>The answers of the chain, of the file system and of the clients of the supernodes.  An answer to a registration is
  the events that the client logs and, unless the call failed, \<open>Success\<close>, the message and the hash of the transaction.\<close>

record sdk_env =
  file_size :: "string \<Rightarrow> nat result"
  sdk_GetAction :: "string \<Rightarrow> sdk_action result"
  DecodeCascadeMetadata :: "sdk_action \<Rightarrow> (string \<times> string) result" \<comment> \<open>\<^verbatim>\<open>DataHash\<close> and \<^verbatim>\<open>FileName\<close>\<close>
  sdk_VerifySignature :: "string \<Rightarrow> bytes \<Rightarrow> bytes \<Rightarrow> string option"
  GetSupernodes :: "int \<Rightarrow> sdk_supernode list result"
  CreateClient :: "sdk_supernode \<Rightarrow> string option"
  HealthCheck :: "sdk_supernode \<Rightarrow> bool"
  PeersCount :: "sdk_supernode \<Rightarrow> nat result"
  check_order :: "sdk_supernode list \<Rightarrow> sdk_supernode list"
  RegisterCascade :: "sdk_supernode \<Rightarrow> (string \<times> (string \<times> string) list) list \<times> (bool \<times> string \<times> string) result"

subsection \<open>Validation\<close>

definition itoa_int :: "int \<Rightarrow> string" where
  "itoa_int z = (if z < 0 then ''-'' @ itoa (nat (- z)) else itoa (nat z))"

definition ValidateFileSize :: "sdk_env \<Rightarrow> string \<Rightarrow> string option" where
  "ValidateFileSize D path =
     (case file_size D path of
        Inl e \<Rightarrow> Some (''failed to check file: '' @ e)
      | Inr n \<Rightarrow> if n > maxFileSize then Some (''file size '' @ itoa n @ '' bytes exceeds maximum allowed size of 1GB'') else None)"

definition validate_state :: "sdk_env \<Rightarrow> string \<Rightarrow> string \<Rightarrow> string \<Rightarrow> sdk_action result" where
  "validate_state D actionID st name =
     (case sdk_GetAction D actionID of
        Inl e \<Rightarrow> errorf (''failed to get action: '' @ e)
      | Inr a \<Rightarrow>
          if sa_ID a = [] then errorf ''no action found with the specified ID''
          else if sa_State a \<noteq> st then errorf (''action is in '' @ sa_State a @ '' state, expected '' @ name)
          else Inr a)"

definition validateAction :: "sdk_env \<Rightarrow> string \<Rightarrow> sdk_action result" where
  "validateAction D actionID = validate_state D actionID ''ACTION_STATE_PENDING'' ''PENDING''"

definition validateDownloadAction :: "sdk_env \<Rightarrow> string \<Rightarrow> sdk_action result" where
  "validateDownloadAction D actionID = validate_state D actionID ''ACTION_STATE_DONE'' ''DONE''"

definition validateSignature :: "sdk_env \<Rightarrow> sdk_action \<Rightarrow> string \<Rightarrow> string option" where
  "validateSignature D a sig =
     (case DecodeCascadeMetadata D a of
        Inl e \<Rightarrow> Some (''failed to decode cascade metadata: '' @ e)
      | Inr (dataHash, _) \<Rightarrow>
          (case DecodeString dataHash of
             Inl e \<Rightarrow> Some (''failed to decode data hash: '' @ e)
           | Inr h \<Rightarrow>
               (case DecodeString sig of
                  Inl e \<Rightarrow> Some (''failed to decode signature: '' @ e)
                | Inr s \<Rightarrow>
                    (case sdk_VerifySignature D (sa_Creator a) h s of
                       Some e \<Rightarrow> Some (''signature validation failed: '' @ e)
                     | None \<Rightarrow> None))))"

fun find_connected :: "sdk_env \<Rightarrow> sdk_supernode list \<Rightarrow> bool" where
  "find_connected D [] = False"
| "find_connected D (sn # sns) =
     (if CreateClient D sn \<noteq> None then find_connected D sns
      else case PeersCount D sn of Inl _ \<Rightarrow> find_connected D sns | Inr n \<Rightarrow> if n > 1 then True else find_connected D sns)"

definition checkSupernodesPeerConnectivity :: "sdk_env \<Rightarrow> int \<Rightarrow> string option" where
  "checkSupernodesPeerConnectivity D height =
     (case GetSupernodes D height of
        Inl e \<Rightarrow> Some (''failed to get supernodes: '' @ e)
      | Inr sns \<Rightarrow>
          if sns = [] then Some (''no supernodes available for block height '' @ itoa_int height)
          else if find_connected D sns then None else Some ''no P2P peers connected on available supernodes'')"

definition isServing :: "sdk_env \<Rightarrow> sdk_supernode \<Rightarrow> bool" where
  "isServing D sn \<longleftrightarrow> CreateClient D sn = None \<and> HealthCheck D sn"

text \<open>The checks run in parallel; \<open>check_order\<close> is the order in which the serving ones are found.\<close>

definition fetchSupernodes :: "sdk_env \<Rightarrow> int \<Rightarrow> sdk_supernode list result" where
  "fetchSupernodes D height =
     (case GetSupernodes D height of
        Inl e \<Rightarrow> errorf (''fetch supernodes: '' @ e)
      | Inr sns \<Rightarrow>
          if sns = [] then errorf ''no supernodes found''
          else let healthy = check_order D (filter (isServing D) (take 10 sns))
               in if healthy = [] then errorf ''no healthy supernodes found'' else Inr healthy)"

section \<open>Registration tasks\<close>

record base_task =
  bt_TaskID :: string
  bt_ActionID :: string
  bt_TaskType :: string
  bt_Action :: sdk_action

definition LogEvent :: "base_task \<Rightarrow> string \<times> (string \<times> string) list \<Rightarrow> sdk_manager \<Rightarrow> sdk_manager" where
  "LogEvent t = (\<lambda>(ty, d). handleEvent (NewEvent ty (bt_TaskID t) (bt_TaskType t) (bt_ActionID t) d))"

definition attemptRegistration :: "sdk_env \<Rightarrow> base_task \<Rightarrow> sdk_supernode \<Rightarrow> sdk_manager \<Rightarrow> string option \<times> sdk_manager" where
  "attemptRegistration D t sn m =
     (case CreateClient D sn of
        Some e \<Rightarrow> (Some (''create client '' @ sn_CosmosAddress sn @ '': '' @ e), m)
      | None \<Rightarrow>
          let (evs, r) = RegisterCascade D sn;
              m1 = fold (LogEvent t) evs m
          in case r of
               Inl e \<Rightarrow> (Some (''upload to '' @ sn_CosmosAddress sn @ '': '' @ e), m1)
             | Inr (success, msg, tx) \<Rightarrow>
                 if \<not> success then (Some (''upload rejected by '' @ sn_CosmosAddress sn @ '': '' @ msg), m1)
                 else (None, LogEvent t (SDKTaskTxHashReceived, [(''txhash'', tx), (''supernode'', sn_CosmosAddress sn)]) m1))"

definition sn_data :: "sdk_supernode \<Rightarrow> nat \<Rightarrow> (string \<times> string) list" where
  "sn_data sn i = [(''supernode'', sn_GrpcEndpoint sn), (''sn-address'', sn_CosmosAddress sn), (''iteration'', itoa i)]"

text \<open>Only the first supernode is tried.\<close>

definition registerWithSupernodes :: "sdk_env \<Rightarrow> base_task \<Rightarrow> sdk_supernode list \<Rightarrow> sdk_manager \<Rightarrow> string option \<times> sdk_manager" where
  "registerWithSupernodes D t sns m =
     (case sns of
        [] \<Rightarrow> (Some ''no supernodes available'', m)
      | sn # _ \<Rightarrow>
          (case attemptRegistration D t sn (LogEvent t (SDKRegistrationAttempt, sn_data sn 1) m) of
             (Some e, m1) \<Rightarrow> (Some (''failed to upload to supernode: '' @ e), LogEvent t (SDKRegistrationFailure, sn_data sn 1 @ [(''error'', e)]) m1)
           | (None, m1) \<Rightarrow> (None, LogEvent t (SDKRegistrationSuccessful, sn_data sn 1) m1)))"

definition CascadeTask_Run :: "sdk_env \<Rightarrow> base_task \<Rightarrow> string \<Rightarrow> sdk_manager \<Rightarrow> string option \<times> sdk_manager" where
  "CascadeTask_Run D t filePath m = (
     let m1 = LogEvent t (SDKTaskStarted, []) m
     in case ValidateFileSize D filePath of
          Some e \<Rightarrow> (Some e, LogEvent t (SDKTaskFailed, [(''error'', e)]) m1)
        | None \<Rightarrow>
            (case fetchSupernodes D (sa_Height (bt_Action t)) of
               Inl e \<Rightarrow> (Some e, LogEvent t (SDKTaskFailed, [(''error'', e)]) (LogEvent t (SDKSupernodesUnavailable, [(''error'', e)]) m1))
             | Inr sns \<Rightarrow>
                 (case registerWithSupernodes D t sns (LogEvent t (SDKSupernodesFound, [(''count'', itoa (length sns))]) m1) of
                    (Some e, m2) \<Rightarrow> (Some e, LogEvent t (SDKTaskFailed, [(''error'', e)]) m2)
                  | (None, m2) \<Rightarrow> (None, LogEvent t (SDKTaskCompleted, []) m2))))"

text \<open>Creating a task: the answer, the task that is started in the background, and the manager.  \<open>admit\<close> is whether the
  cache takes the entry, \<open>uuid\<close> the fresh identifier, of which eight characters are used.\<close>

definition CreateCascadeTask ::
  "sdk_env \<Rightarrow> bool \<Rightarrow> string \<Rightarrow> string \<Rightarrow> string \<Rightarrow> sdk_manager \<Rightarrow> string result \<times> base_task option \<times> sdk_manager" where
  "CreateCascadeTask D admit uuid actionID sig m =
     (case validateAction D actionID of
        Inl e \<Rightarrow> (Inl e, None, m)
      | Inr a \<Rightarrow>
          (case validateSignature D a sig of
             Some e \<Rightarrow> (Inl e, None, m)
           | None \<Rightarrow>
               (case checkSupernodesPeerConnectivity D (sa_Height a) of
                  Some e \<Rightarrow> (Inl e, None, m)
                | None \<Rightarrow>
                    let taskID = take 8 uuid;
                        t = \<lparr>bt_TaskID = taskID, bt_ActionID = actionID, bt_TaskType = ''CASCADE'', bt_Action = a\<rparr>
                    in (Inr taskID, Some t, snd (tc_Set admit taskID ''CASCADE'' actionID m)))))"

section \<open>Download tasks\<close>

text \<open>What happens while a batch of downloads runs, in the order of time: an event that an attempt logs, the outcome of
  the attempt with the given position (\<open>None\<close> is success), and the end of the task's context.  An attempt without an
  outcome runs into its own timeout.\<close>

datatype batch_event = AttemptLog string "(string \<times> string) list" | AttemptDone nat "string option" | TaskCtxDone

definition log_failure :: "base_task \<Rightarrow> sdk_supernode list \<Rightarrow> nat \<Rightarrow> nat \<Rightarrow> string \<Rightarrow> sdk_manager \<Rightarrow> sdk_manager" where
  "log_failure t batch start i e = LogEvent t (SDKDownloadFailure, sn_data (batch ! i) (start + i + 1) @ [(''error'', e)])"

text \<open>Collecting the results of a batch: the position of the first success or the errors, and what is left of the time
  line.\<close>

fun collect ::
  "base_task \<Rightarrow> sdk_supernode list \<Rightarrow> nat \<Rightarrow> nat list \<Rightarrow> string list \<Rightarrow> batch_event list \<Rightarrow> sdk_manager \<Rightarrow> (nat option \<times> string list) \<times> batch_event list \<times> sdk_manager" where
  "collect t batch start [] errs evs m = ((None, errs), evs, m)"
| "collect t batch start (p # ps) errs [] m =
     (let e = ''download from '' @ sn_CosmosAddress (batch ! p) @ '': context deadline exceeded''
      in collect t batch start ps (errs @ [e]) [] (log_failure t batch start p e m))"
| "collect t batch start (p # ps) errs (AttemptLog ty d # evs) m = collect t batch start (p # ps) errs evs (LogEvent t (ty, d) m)"
| "collect t batch start (p # ps) errs (AttemptDone i r # evs) m =
     (if i \<notin> set (p # ps) then collect t batch start (p # ps) errs evs m
      else case r of
             None \<Rightarrow> ((Some i, []), evs, m)
           | Some e \<Rightarrow> collect t batch start (remove1 i (p # ps)) (errs @ [e]) evs (log_failure t batch start i e m))"
| "collect t batch start (p # ps) errs (TaskCtxDone # evs) m = ((None, [''context canceled'']), evs, m)"

text \<open>\<open>remove_err\<close> is the outcome of removing an existing output file.  All attempts of a batch are given the same output
  path; what they write there at the same time is not modelled.\<close>

definition attemptConcurrentDownload ::
  "base_task \<Rightarrow> string \<Rightarrow> string option \<Rightarrow> sdk_supernode list \<Rightarrow> nat \<Rightarrow> batch_event list \<Rightarrow> sdk_manager \<Rightarrow> (nat option \<times> string list) \<times> batch_event list \<times> sdk_manager" where
  "attemptConcurrentDownload t outputPath remove_err batch start evs m =
     (case remove_err of
        Some e \<Rightarrow> ((None, [''failed to remove existing file '' @ outputPath @ '': '' @ e]), evs, m)
      | None \<Rightarrow>
          collect t batch start [0..<length batch] [] evs
            (fold (\<lambda>(i, sn). LogEvent t (SDKDownloadAttempt, sn_data sn (start + i + 1))) (enumerate 0 batch) m))"

text \<open>The batches of \<^verbatim>\<open>downloadFromSupernodes\<close>; the one with number \<open>i\<close> starts at position \<open>2 * i\<close>.  An attempt that lost goes
  on for a while: \<open>losing\<close> is what it still logs before the success is logged, and between that and the end of the task.\<close>

type_synonym late_events = "(string \<times> (string \<times> string) list) list \<times> (string \<times> (string \<times> string) list) list"

fun download_batches ::
  "base_task \<Rightarrow> string \<Rightarrow> late_events \<Rightarrow> (nat \<Rightarrow> string option) \<Rightarrow> (nat \<Rightarrow> batch_event list) \<Rightarrow> nat \<Rightarrow> sdk_supernode list list \<Rightarrow> string list \<Rightarrow> sdk_manager \<Rightarrow> string option \<times> sdk_manager" where
  "download_batches t path losing rm evs i [] errs m =
     (Some (if errs \<noteq> [] then ''failed to download from all super-nodes: ['' @ join_with '' '' errs @ '']'' else ''no supernodes available for download''), m)"
| "download_batches t path losing rm evs i (b # bs) errs m =
     (case attemptConcurrentDownload t path (rm i) b (2 * i) (evs i) m of
        ((Some k, _), _, m1) \<Rightarrow> (None, LogEvent t (SDKDownloadSuccessful, sn_data (b ! k) (2 * i + k + 1)) (fold (LogEvent t) (fst losing) m1))
      | ((None, es), _, m1) \<Rightarrow> download_batches t path losing rm evs (Suc i) bs (errs @ es) m1)"

definition downloadFromSupernodes ::
  "base_task \<Rightarrow> string \<Rightarrow> late_events \<Rightarrow> (nat \<Rightarrow> string option) \<Rightarrow> (nat \<Rightarrow> batch_event list) \<Rightarrow> sdk_supernode list \<Rightarrow> sdk_manager \<Rightarrow> string option \<times> sdk_manager" where
  "downloadFromSupernodes t path losing rm evs sns m = download_batches t path losing rm evs 0 (chunks 2 sns) [] m"

definition CascadeDownloadTask_Run ::
  "sdk_env \<Rightarrow> base_task \<Rightarrow> string \<Rightarrow> late_events \<Rightarrow> (nat \<Rightarrow> string option) \<Rightarrow> (nat \<Rightarrow> batch_event list) \<Rightarrow> sdk_manager \<Rightarrow> string option \<times> sdk_manager" where
  "CascadeDownloadTask_Run D t path losing rm evs m = (
     let m1 = LogEvent t (SDKTaskStarted, []) m
     in case fetchSupernodes D (sa_Height (bt_Action t)) of
          Inl e \<Rightarrow> (Some e, LogEvent t (SDKTaskFailed, [(''error'', e)]) (LogEvent t (SDKSupernodesUnavailable, [(''error'', e)]) m1))
        | Inr sns \<Rightarrow>
            (case downloadFromSupernodes t path losing rm evs sns (LogEvent t (SDKSupernodesFound, [(''count'', itoa (length sns))]) m1) of
               (Some e, m2) \<Rightarrow> (Some e, LogEvent t (SDKTaskFailed, [(''error'', e)]) m2)
             | (None, m2) \<Rightarrow> (None, LogEvent t (SDKTaskCompleted, []) (fold (LogEvent t) (snd losing) m2))))"

subsection \<open>Creating a download task\<close>

text \<open>\<^verbatim>\<open>path.Clean\<close> and \<^verbatim>\<open>path.Join\<close> of the standard library; the elements that are kept are collected in reverse.\<close>

definition clean_step :: "bool \<Rightarrow> string \<Rightarrow> string list \<Rightarrow> string list" where
  "clean_step rooted c out =
     (if c = [] \<or> c = ''.'' then out
      else if c = ''..'' then (case out of [] \<Rightarrow> if rooted then [] else [''..''] | x # xs \<Rightarrow> if x = ''..'' then ''..'' # out else xs)
      else c # out)"

definition path_Clean :: "string \<Rightarrow> string" where
  "path_Clean p =
     (if p = [] then ''.''
      else let rooted = (hd p = CHR ''/'');
               s = join_with ''/'' (rev (fold (clean_step rooted) (split_on (CHR ''/'') p) []))
           in if rooted then ''/'' @ s else if s = [] then ''.'' else s)"

definition path_Join :: "string list \<Rightarrow> string" where
  "path_Join es = (let ne = filter (\<lambda>e. e \<noteq> []) es in if ne = [] then [] else path_Clean (join_with ''/'' ne))"

definition ensureOutputPathWithFilename :: "string \<Rightarrow> string \<Rightarrow> string" where
  "ensureOutputPathWithFilename outputPath filename =
     (if outputPath = [] then filename else if suffix filename outputPath then outputPath else path_Join [outputPath, filename])"

definition CreateDownloadTask ::
  "sdk_env \<Rightarrow> bool \<Rightarrow> string \<Rightarrow> string \<Rightarrow> string \<Rightarrow> sdk_manager \<Rightarrow> string result \<times> (base_task \<times> string) option \<times> sdk_manager" where
  "CreateDownloadTask D admit uuid actionID outputDir m =
     (case validateDownloadAction D actionID of
        Inl e \<Rightarrow> (Inl e, None, m)
      | Inr a \<Rightarrow>
          (case DecodeCascadeMetadata D a of
             Inl e \<Rightarrow> (Inl (''failed to decode cascade metadata: '' @ e), None, m)
           | Inr (_, fileName) \<Rightarrow>
               if fileName = [] then (Inl ''no filename found in cascade metadata'', None, m)
               else case checkSupernodesPeerConnectivity D (sa_Height a) of
                      Some e \<Rightarrow> (Inl e, None, m)
                    | None \<Rightarrow>
                        let taskID = take 8 uuid;
                            t = \<lparr>bt_TaskID = taskID, bt_ActionID = actionID, bt_TaskType = ''CASCADE'', bt_Action = a\<rparr>
                        in (Inr taskID, Some (t, path_Join [outputDir, sa_ID a, fileName]), snd (tc_Set admit taskID ''CASCADE'' actionID m))))"

section \<open>Entries follow the events\<close>

text \<open>What an event does to the entry of its task, without the cache around it.\<close>

definition apply_event :: "sdk_event \<Rightarrow> task_entry \<Rightarrow> task_entry" where
  "apply_event ev e = (
     let e1 = e\<lparr>te_Events := te_Events e @ [ev]\<rparr>
     in if ev_Type ev = SDKTaskStarted then e1\<lparr>te_Status := StatusActive, te_Error := None\<rparr>
        else if ev_Type ev = SDKTaskCompleted then e1\<lparr>te_Status := StatusCompleted, te_Error := None\<rparr>
        else if ev_Type ev = SDKTaskFailed then e1\<lparr>te_Status := StatusFailed, te_Error := map_of (ev_Data ev) ''error''\<rparr>
        else if ev_Type ev = SDKTaskTxHashReceived then
          (case map_of (ev_Data ev) ''txhash'' of None \<Rightarrow> e1 | Some tx \<Rightarrow> if tx \<noteq> [] then e1\<lparr>te_TxHash := tx\<rparr> else e1)
        else e1)"

lemma tc_update_cache [simp]:
  "map_of (taskCache (snd (tc_update k g m))) = (map_of (taskCache m))(k := map_option g (map_of (taskCache m) k))"
  by (auto simp: tc_update_def cache_Set_def map_of_alist_update fun_eq_iff split: option.splits)

lemma handleEvent_cache:
  "map_of (taskCache (handleEvent ev m)) =
     (map_of (taskCache m))(ev_TaskID ev := map_option (apply_event ev) (map_of (taskCache m) (ev_TaskID ev)))"
  by (cases "map_of (taskCache m) (ev_TaskID ev)")
     (auto simp: handleEvent_def apply_event_def Let_def tc_AddEvent_def tc_UpdateStatus_def tc_UpdateTxHash_def fun_eq_iff split: option.splits)

text \<open>An event of a task that was deleted does not bring it back.\<close>

lemma deleted_stays_deleted:
  assumes "DeleteTask k m = (None, m1)"
  shows "GetTask k (fold handleEvent evs m1) = None"
proof -
  have "GetTask k m1 = None"
    using assms by (auto simp: DeleteTask_def GetTask_def tc_Del_def map_of_alist_delete split: option.splits if_splits)
  then show ?thesis
  proof (induction evs arbitrary: m1)
    case (Cons e evs)
    have "GetTask k (handleEvent e m1) = None" using Cons.prems by (auto simp: GetTask_def handleEvent_cache)
    then show ?case using Cons.IH by simp
  qed simp
qed

definition logged :: "base_task \<Rightarrow> string \<times> (string \<times> string) list \<Rightarrow> sdk_event" where
  "logged t = (\<lambda>(ty, d). NewEvent ty (bt_TaskID t) (bt_TaskType t) (bt_ActionID t) d)"

lemma LogEvent_logged: "LogEvent t x = handleEvent (logged t x)"
  by (cases x) (simp add: LogEvent_def logged_def)

lemma logged_type [simp]: "ev_Type (logged t x) = fst x"
  by (cases x) (simp add: logged_def NewEvent_def)

lemma fold_LogEvent_entry:
  "GetTask (bt_TaskID t) (fold (LogEvent t) l m) = map_option (fold (\<lambda>x. apply_event (logged t x)) l) (GetTask (bt_TaskID t) m)"
  by (induction l arbitrary: m)
     (auto simp: GetTask_def LogEvent_logged handleEvent_cache logged_def NewEvent_def option.map_comp comp_def option.map_id0 split: prod.splits)

lemma fold_LogEvent_other: "k \<noteq> bt_TaskID t \<Longrightarrow> GetTask k (fold (LogEvent t) l m) = GetTask k m"
  by (induction l arbitrary: m) (auto simp: GetTask_def LogEvent_logged handleEvent_cache logged_def NewEvent_def split: prod.splits)

lemma apply_event_action [simp]: "te_ActionID (apply_event ev e) = te_ActionID e"
  by (auto simp: apply_event_def Let_def split: option.splits)

lemma apply_action [simp]: "te_ActionID (fold (\<lambda>x. apply_event (logged t x)) l e) = te_ActionID e"
  by (induction l arbitrary: e) simp_all

lemma apply_events: "te_Events (fold (\<lambda>x. apply_event (logged t x)) l e) = te_Events e @ map (logged t) l"
  by (induction l arbitrary: e) (auto simp: apply_event_def Let_def split: option.splits)

section \<open>Outcomes\<close>

text \<open>The event that ends a task.\<close>

definition final_event :: "string option \<Rightarrow> string \<times> (string \<times> string) list" where
  "final_event r = (case r of None \<Rightarrow> (SDKTaskCompleted, []) | Some e \<Rightarrow> (SDKTaskFailed, [(''error'', e)]))"

definition tx_event :: "string \<Rightarrow> sdk_supernode \<Rightarrow> string \<times> (string \<times> string) list" where
  "tx_event tx sn = (SDKTaskTxHashReceived, [(''txhash'', tx), (''supernode'', sn_CosmosAddress sn)])"

text \<open>What a run of a registration task does, as the code's documentation has it: whether the supernode that was asked
  has taken the file, and the types of the events of the run between its start and its outcome.\<close>

definition registers :: "sdk_env \<Rightarrow> sdk_supernode \<Rightarrow> bool" where
  "registers D sn \<longleftrightarrow> CreateClient D sn = None \<and> (case snd (RegisterCascade D sn) of Inl _ \<Rightarrow> False | Inr (success, _) \<Rightarrow> success)"

definition registration_log :: "sdk_env \<Rightarrow> int \<Rightarrow> string \<Rightarrow> string list" where
  "registration_log D height path =
     (if ValidateFileSize D path \<noteq> None then []
      else case fetchSupernodes D height of
             Inl _ \<Rightarrow> [SDKSupernodesUnavailable]
           | Inr sns \<Rightarrow>
               [SDKSupernodesFound, SDKRegistrationAttempt] @
               (if CreateClient D (hd sns) = None then map fst (fst (RegisterCascade D (hd sns))) else []) @
               (if registers D (hd sns) then [SDKTaskTxHashReceived, SDKRegistrationSuccessful] else [SDKRegistrationFailure]))"

lemma fetchSupernodes_nonempty: "fetchSupernodes D h = Inr sns \<Longrightarrow> sns \<noteq> []"
  by (auto simp: fetchSupernodes_def Let_def split: sum.splits if_splits)

lemma registration_run:
  assumes "registerWithSupernodes D t sns m = (r, m')" "sns \<noteq> []"
  obtains l where "m' = fold (LogEvent t) l m" "r = None \<longleftrightarrow> registers D (hd sns)"
    "map fst l = SDKRegistrationAttempt # (if CreateClient D (hd sns) = None then map fst (fst (RegisterCascade D (hd sns))) else []) @
       (if registers D (hd sns) then [SDKTaskTxHashReceived, SDKRegistrationSuccessful] else [SDKRegistrationFailure])"
    "r = None \<longrightarrow> (\<exists>evs msg tx l0 d. RegisterCascade D (hd sns) = (evs, Inr (True, msg, tx)) \<and> l = l0 @ [tx_event tx (hd sns), (SDKRegistrationSuccessful, d)])"
proof -
  obtain sn rest where s: "sns = sn # rest" using assms(2) by (cases sns) auto
  obtain evs a where a: "RegisterCascade D sn = (evs, a)" by fastforce
  define att where "att = (SDKRegistrationAttempt, sn_data sn 1)"
  define tail where "tail l e = att # l @ [(SDKRegistrationFailure, sn_data sn 1 @ [(''error'', e)])]" for l e
  show thesis
  proof (cases "registers D sn")
    case True
    then obtain msg tx where x: "CreateClient D sn = None" "a = Inr (True, msg, tx)" using a by (auto simp: registers_def split: sum.splits)
    define l where "l = (att # evs) @ [tx_event tx sn, (SDKRegistrationSuccessful, sn_data sn 1)]"
    have run: "r = None" "m' = fold (LogEvent t) l m"
      using assms(1) x a by (simp_all add: registerWithSupernodes_def attemptRegistration_def s l_def att_def tx_event_def)
    have types: "map fst l = SDKRegistrationAttempt # map fst evs @ [SDKTaskTxHashReceived, SDKRegistrationSuccessful]"
      by (simp add: l_def att_def tx_event_def)
    have "\<exists>evs' msg' tx' l0 d. RegisterCascade D sn = (evs', Inr (True, msg', tx')) \<and> l = l0 @ [tx_event tx' sn, (SDKRegistrationSuccessful, d)]"
      using a x(2) l_def by blast
    then show thesis using run types True x(1) a s that[of l] by simp
  next
    case False
    have "\<exists>e l. r = Some e \<and> m' = fold (LogEvent t) l m \<and> map fst l = SDKRegistrationAttempt # (if CreateClient D sn = None then map fst evs else []) @ [SDKRegistrationFailure]"
    proof (cases "CreateClient D sn")
      case (Some e)
      then show ?thesis using assms(1)
        by (intro exI[of _ "the r"] exI[of _ "tail [] (''create client '' @ sn_CosmosAddress sn @ '': '' @ e)"])
           (auto simp: registerWithSupernodes_def attemptRegistration_def s tail_def att_def)
    next
      case None
      then have "\<exists>e. attemptRegistration D t sn (LogEvent t att m) = (Some e, fold (LogEvent t) evs (LogEvent t att m))"
        using False a by (auto simp: attemptRegistration_def registers_def split: sum.splits)
      then obtain e where "attemptRegistration D t sn (LogEvent t att m) = (Some e, fold (LogEvent t) evs (LogEvent t att m))" by blast
      then show ?thesis using assms(1) None
        by (intro exI[of _ "the r"] exI[of _ "tail evs e"]) (auto simp: registerWithSupernodes_def s tail_def att_def)
    qed
    then obtain e l where "r = Some e" "m' = fold (LogEvent t) l m"
      "map fst l = SDKRegistrationAttempt # (if CreateClient D sn = None then map fst evs else []) @ [SDKRegistrationFailure]" by (elim exE conjE) (rule that)
    then show thesis using False a s that[of l] by simp
  qed
qed

text \<open>Every run logs the start first and its outcome last.\<close>

lemma CascadeTask_Run_logs:
  assumes "CascadeTask_Run D t filePath m = (r, m')"
  defines "h \<equiv> sa_Height (bt_Action t)"
  shows "\<exists>l. m' = fold (LogEvent t) ((SDKTaskStarted, []) # l @ [final_event r]) m \<and> map fst l = registration_log D h filePath \<and>
     (r = None \<longleftrightarrow> ValidateFileSize D filePath = None \<and> (\<exists>sns. fetchSupernodes D h = Inr sns \<and> registers D (hd sns))) \<and>
     (r = None \<longrightarrow> (\<exists>sns evs msg tx l0 d. fetchSupernodes D h = Inr sns \<and> RegisterCascade D (hd sns) = (evs, Inr (True, msg, tx)) \<and>
        l = l0 @ [tx_event tx (hd sns), (SDKRegistrationSuccessful, d)]))"
proof (cases "ValidateFileSize D filePath")
  case (Some e)
  then have "r = Some e" "m' = LogEvent t (SDKTaskFailed, [(''error'', e)]) (LogEvent t (SDKTaskStarted, []) m)"
    using assms(1) by (auto simp: CascadeTask_Run_def Let_def)
  then show ?thesis using Some by (intro exI[of _ "[]"]) (simp add: final_event_def registration_log_def)
next
  case None
  show ?thesis
  proof (cases "fetchSupernodes D h")
    case (Inl e)
    then have "r = Some e" using assms(1) None by (simp add: CascadeTask_Run_def h_def)
    then show ?thesis using assms(1) None Inl
      by (intro exI[of _ "[(SDKSupernodesUnavailable, [(''error'', e)])]"]) (simp add: CascadeTask_Run_def final_event_def registration_log_def h_def)
  next
    case (Inr sns)
    define fe where "fe = (SDKSupernodesFound, [(''count'', itoa (length sns))])"
    obtain r1 m1 where a: "registerWithSupernodes D t sns (LogEvent t fe (LogEvent t (SDKTaskStarted, []) m)) = (r1, m1)" by fastforce
    obtain l where l:
      "m1 = fold (LogEvent t) l (LogEvent t fe (LogEvent t (SDKTaskStarted, []) m))" "r1 = None \<longleftrightarrow> registers D (hd sns)"
      "map fst l = SDKRegistrationAttempt # (if CreateClient D (hd sns) = None then map fst (fst (RegisterCascade D (hd sns))) else []) @
         (if registers D (hd sns) then [SDKTaskTxHashReceived, SDKRegistrationSuccessful] else [SDKRegistrationFailure])"
      "r1 = None \<longrightarrow> (\<exists>evs msg tx l0 d. RegisterCascade D (hd sns) = (evs, Inr (True, msg, tx)) \<and> l = l0 @ [tx_event tx (hd sns), (SDKRegistrationSuccessful, d)])"
      by (rule registration_run[OF a fetchSupernodes_nonempty[OF Inr]])
    have types: "map fst (fe # l) = registration_log D h filePath" using None Inr l(3) by (simp add: registration_log_def fe_def)
    have m: "r = r1" "m' = LogEvent t (final_event r1) m1"
      using assms(1) None Inr a by (auto simp: CascadeTask_Run_def final_event_def fe_def h_def split: option.splits)
    have "\<exists>evs msg tx l0 d. RegisterCascade D (hd sns) = (evs, Inr (True, msg, tx)) \<and> fe # l = l0 @ [tx_event tx (hd sns), (SDKRegistrationSuccessful, d)]" if "r = None"
    proof -
      from l(4) m(1) that obtain evs msg tx l0 d where "RegisterCascade D (hd sns) = (evs, Inr (True, msg, tx))" "l = l0 @ [tx_event tx (hd sns), (SDKRegistrationSuccessful, d)]" by blast
      then show ?thesis by (intro exI[of _ evs] exI[of _ msg] exI[of _ tx] exI[of _ "fe # l0"] exI[of _ d]) simp
    qed
    moreover have "m' = fold (LogEvent t) ((SDKTaskStarted, []) # (fe # l) @ [final_event r]) m" using m l(1) by simp
    moreover have "r = None \<longleftrightarrow> ValidateFileSize D filePath = None \<and> (\<exists>sns. fetchSupernodes D h = Inr sns \<and> registers D (hd sns))"
      using l(2) m(1) None Inr by simp
    ultimately show ?thesis using types Inr by (intro exI[of _ "fe # l"]) blast
  qed
qed

text \<open>The entry of a task whose events are the given ones, the last of them its outcome.\<close>

lemma final_entry:
  assumes "m' = fold (LogEvent t) (l @ [final_event r]) m" "GetTask (bt_TaskID t) m = Some e"
  shows "\<exists>e'. GetTask (bt_TaskID t) m' = Some e' \<and> te_Events e' = te_Events e @ map (logged t) (l @ [final_event r]) \<and>
    te_Status e' = (if r = None then StatusCompleted else StatusFailed) \<and> te_Error e' = r \<and>
    Percentage (GetProgress e') = 100 \<and> pi_Status (GetProgress e') = te_Status e' \<and>
    te_TxHash e' = te_TxHash (fold (\<lambda>x. apply_event (logged t x)) l e)"
proof -
  define e1 where "e1 = fold (\<lambda>x. apply_event (logged t x)) l e"
  define e' where "e' = apply_event (logged t (final_event r)) e1"
  have g: "GetTask (bt_TaskID t) m' = Some e'"
    using fold_LogEvent_entry[of t "l @ [final_event r]" m] assms by (simp add: e'_def e1_def)
  have ev: "te_Events e' = te_Events e @ map (logged t) (l @ [final_event r])"
    using apply_events[of t "l @ [final_event r]" e] by (simp add: e'_def e1_def)
  have "te_Status e' = (if r = None then StatusCompleted else StatusFailed)" "te_Error e' = r" "te_TxHash e' = te_TxHash e1"
    by (auto simp: e'_def apply_event_def final_event_def logged_def NewEvent_def Let_def split: option.splits)
  moreover have "ev_Type (last (te_Events e')) = (if r = None then SDKTaskCompleted else SDKTaskFailed)"
    by (auto simp: ev logged_def final_event_def NewEvent_def split: option.splits)
  then have "Percentage (GetProgress e') = 100" "pi_Status (GetProgress e') = (if r = None then StatusCompleted else StatusFailed)"
    using progress_terminal[of "te_Events e'"] ev by (auto simp: GetProgress_def split: if_splits)
  ultimately show ?thesis using g ev by (auto simp: e1_def)
qed

text \<open>The entry that the creation of a task leaves, and what later events of a task do to its outcome.\<close>

lemma tc_Set_entry:
  assumes "admit \<or> GetTask taskID m \<noteq> None"
  shows "\<exists>e. GetTask taskID (snd (tc_Set admit taskID ty actionID m)) = Some e \<and> te_Events e = [] \<and> te_ActionID e = actionID"
  using assms by (auto simp: GetTask_def tc_Set_def cache_Set_def map_of_alist_update)

lemma tc_Set_refused:
  "\<not> (admit \<or> GetTask taskID m \<noteq> None) \<Longrightarrow> GetTask taskID (snd (tc_Set admit taskID ty actionID m)) = None"
  by (auto simp: GetTask_def tc_Set_def cache_Set_def)

lemma tc_Set_other: "k \<noteq> taskID \<Longrightarrow> GetTask k (snd (tc_Set admit taskID ty actionID m)) = GetTask k m"
  by (auto simp: GetTask_def tc_Set_def cache_Set_def map_of_alist_update)

lemma apply_after:
  "\<forall>x \<in> set l. fst x \<notin> {SDKTaskStarted, SDKTaskCompleted, SDKTaskFailed} \<Longrightarrow>
   te_Status (fold (\<lambda>x. apply_event (logged t x)) l e) = te_Status e \<and> te_Error (fold (\<lambda>x. apply_event (logged t x)) l e) = te_Error e"
proof (induction l arbitrary: e)
  case (Cons x l)
  have "te_Status (apply_event (logged t x) e) = te_Status e \<and> te_Error (apply_event (logged t x) e) = te_Error e"
    using Cons.prems by (simp add: apply_event_def Let_def split: option.split)
  then show ?case using Cons.IH[of "apply_event (logged t x) e"] Cons.prems by simp
qed simp

text \<open>A supernode of the chain that a client reaches and that has peers beside itself.\<close>

definition some_connected :: "sdk_env \<Rightarrow> int \<Rightarrow> bool" where
  "some_connected D height \<longleftrightarrow>
     (\<exists>sns sn n. GetSupernodes D height = Inr sns \<and> sn \<in> set sns \<and> CreateClient D sn = None \<and> PeersCount D sn = Inr n \<and> n > 1)"

lemma find_connected_iff: "find_connected D sns \<longleftrightarrow> (\<exists>sn \<in> set sns. CreateClient D sn = None \<and> (\<exists>n > 1. PeersCount D sn = Inr n))"
  by (induction D sns rule: find_connected.induct) (auto split: sum.splits)

lemma connected_some: "checkSupernodesPeerConnectivity D height = None \<Longrightarrow> some_connected D height"
  by (auto simp: checkSupernodesPeerConnectivity_def some_connected_def find_connected_iff split: sum.splits if_splits)

lemma tx_hash_kept:
  "te_TxHash (fold (\<lambda>x. apply_event (logged t x)) (l @ [tx_event tx sn, (SDKRegistrationSuccessful, d)]) e) = (if tx = [] then te_TxHash (fold (\<lambda>x. apply_event (logged t x)) l e) else tx)"
  by (simp add: apply_event_def logged_def tx_event_def NewEvent_def Let_def)

lemma validateSignature_ok:
  "validateSignature D a sig = None \<Longrightarrow> \<exists>h n s hb. DecodeCascadeMetadata D a = Inr (h, n) \<and> DecodeString sig = Inr s \<and>
     DecodeString h = Inr hb \<and> sdk_VerifySignature D (sa_Creator a) hb s = None"
  by (auto simp: validateSignature_def split: sum.splits option.splits)

text \<open>The entry of a registration task whose run logged \<open>l\<close>.\<close>

lemma tracked_entry:
  assumes "m2 = fold (LogEvent t) (((SDKTaskStarted, []) # l) @ [final_event r]) m1"
    and e0: "GetTask (bt_TaskID t) m1 = Some e0" "te_Events e0 = []" "te_ActionID e0 = actionID"
    and tx: "r = None \<Longrightarrow> \<exists>sns evs msg tx l0 d. F = Inr sns \<and> R (hd sns) = (evs, Inr (True, msg, tx)) \<and>
        l = l0 @ [tx_event tx (hd sns), (SDKRegistrationSuccessful, d)]"
  shows "\<exists>e. GetTask (bt_TaskID t) m2 = Some e \<and> te_ActionID e = actionID \<and> te_Error e = r \<and>
    te_Status e = (if r = None then StatusCompleted else StatusFailed) \<and>
    Percentage (GetProgress e) = 100 \<and> pi_Status (GetProgress e) = te_Status e \<and>
    map ev_Type (te_Events e) = SDKTaskStarted # map fst l @ [if r = None then SDKTaskCompleted else SDKTaskFailed] \<and>
    (r = None \<longrightarrow> (\<exists>sns evs msg tx. F = Inr sns \<and> R (hd sns) = (evs, Inr (True, msg, tx)) \<and> (tx \<noteq> [] \<longrightarrow> te_TxHash e = tx)))"
proof -
  from final_entry[OF assms(1) e0(1)] obtain e where e: "GetTask (bt_TaskID t) m2 = Some e"
    "te_Events e = map (logged t) (((SDKTaskStarted, []) # l) @ [final_event r])" "te_Status e = (if r = None then StatusCompleted else StatusFailed)"
    "te_Error e = r" "Percentage (GetProgress e) = 100" "pi_Status (GetProgress e) = te_Status e"
    "te_TxHash e = te_TxHash (fold (\<lambda>x. apply_event (logged t x)) ((SDKTaskStarted, []) # l) e0)"
    unfolding e0(2) append_Nil by blast
  have act: "te_ActionID e = actionID"
    using fold_LogEvent_entry[of t "((SDKTaskStarted, []) # l) @ [final_event r]" m1] assms(1) e(1) e0 by auto
  have hash: "\<exists>sns evs msg tx. F = Inr sns \<and> R (hd sns) = (evs, Inr (True, msg, tx)) \<and> (tx \<noteq> [] \<longrightarrow> te_TxHash e = tx)" if "r = None"
  proof -
    from tx[OF that] obtain sns evs msg tx l0 d where x: "F = Inr sns" "R (hd sns) = (evs, Inr (True, msg, tx))"
      "l = l0 @ [tx_event tx (hd sns), (SDKRegistrationSuccessful, d)]" by blast
    have "te_TxHash e = te_TxHash (fold (\<lambda>x. apply_event (logged t x)) (((SDKTaskStarted, []) # l0) @ [tx_event tx (hd sns), (SDKRegistrationSuccessful, d)]) e0)"
      using e(7) x(3) by simp
    then show ?thesis using x unfolding tx_hash_kept by (metis (no_types))
  qed
  have types: "map ev_Type (te_Events e) = SDKTaskStarted # map fst l @ [if r = None then SDKTaskCompleted else SDKTaskFailed]"
    by (simp add: e(2) final_event_def split: option.split)
  show ?thesis by (intro exI[of _ e] conjI impI e(1) act e(4) e(3) e(5) e(6) types hash)
qed

text \<open>C20. A registration task that was created and then run in the background, with nothing else done to the task meanwhile.
  It was created only for a pending action whose creator signed the data hash of the metadata, when a supernode with peers
  was found.  The run succeeds exactly when the file has an allowed size, healthy supernodes were found and the first of
  them took the file.  When the cache took the entry (or had one of that identifier), the entry is found afterwards and
  agrees with the outcome: completed without an error, with the transaction hash that the supernode answered unless it is
  empty, or failed with the error of the run; the progress is 100 with the same status; and the events are those of the
  run, in order.  When the cache refused it, the task runs all the same and cannot be found.  No other task was touched.\<close>

theorem CascadeTask_lifecycle:
  assumes "CreateCascadeTask D admit uuid actionID sig m = (Inr taskID, Some t, m1)"
    and "CascadeTask_Run D t filePath m1 = (r, m2)"
  shows "\<exists>a h n s hb. sdk_GetAction D actionID = Inr a \<and> sa_State a = ''ACTION_STATE_PENDING'' \<and> some_connected D (sa_Height a) \<and>
      DecodeCascadeMetadata D a = Inr (h, n) \<and> DecodeString sig = Inr s \<and> DecodeString h = Inr hb \<and>
      sdk_VerifySignature D (sa_Creator a) hb s = None \<and>
      (r = None \<longleftrightarrow> ValidateFileSize D filePath = None \<and> (\<exists>sns. fetchSupernodes D (sa_Height a) = Inr sns \<and> registers D (hd sns))) \<and>
      (if admit \<or> GetTask taskID m \<noteq> None then
         (\<exists>e. GetTask taskID m2 = Some e \<and> te_ActionID e = actionID \<and> te_Error e = r \<and>
           te_Status e = (if r = None then StatusCompleted else StatusFailed) \<and>
           Percentage (GetProgress e) = 100 \<and> pi_Status (GetProgress e) = te_Status e \<and>
           map ev_Type (te_Events e) = SDKTaskStarted # registration_log D (sa_Height a) filePath @ [if r = None then SDKTaskCompleted else SDKTaskFailed] \<and>
           (r = None \<longrightarrow> (\<exists>sns evs msg tx. fetchSupernodes D (sa_Height a) = Inr sns \<and>
              RegisterCascade D (hd sns) = (evs, Inr (True, msg, tx)) \<and> (tx \<noteq> [] \<longrightarrow> te_TxHash e = tx))))
       else GetTask taskID m2 = None) \<and>
      (\<forall>k. k \<noteq> taskID \<longrightarrow> GetTask k m2 = GetTask k m)"
proof -
  obtain a where a: "validateAction D actionID = Inr a" "validateSignature D a sig = None" "checkSupernodesPeerConnectivity D (sa_Height a) = None"
      "t = \<lparr>bt_TaskID = taskID, bt_ActionID = actionID, bt_TaskType = ''CASCADE'', bt_Action = a\<rparr>"
      "m1 = snd (tc_Set admit taskID ''CASCADE'' actionID m)"
    using assms(1) by (auto simp: CreateCascadeTask_def Let_def split: sum.splits option.splits)
  have pend: "sdk_GetAction D actionID = Inr a" "sa_State a = ''ACTION_STATE_PENDING''"
    using a(1) by (auto simp: validateAction_def validate_state_def split: sum.splits if_splits)
  from validateSignature_ok[OF a(2)] obtain h n s hb where sig: "DecodeCascadeMetadata D a = Inr (h, n)" "DecodeString sig = Inr s" "DecodeString h = Inr hb"
    "sdk_VerifySignature D (sa_Creator a) hb s = None" by blast
  have t: "bt_TaskID t = taskID" "bt_Action t = a" by (simp_all add: a(4))
  from CascadeTask_Run_logs[OF assms(2), unfolded t] obtain l where
    l: "m2 = fold (LogEvent t) (((SDKTaskStarted, []) # l) @ [final_event r]) m1" "map fst l = registration_log D (sa_Height a) filePath"
    "r = None \<longleftrightarrow> ValidateFileSize D filePath = None \<and> (\<exists>sns. fetchSupernodes D (sa_Height a) = Inr sns \<and> registers D (hd sns))"
    "r = None \<Longrightarrow> \<exists>sns evs msg tx l0 d. fetchSupernodes D (sa_Height a) = Inr sns \<and> RegisterCascade D (hd sns) = (evs, Inr (True, msg, tx)) \<and>
        l = l0 @ [tx_event tx (hd sns), (SDKRegistrationSuccessful, d)]"
    unfolding append_Cons by blast
  have other: "GetTask k m2 = GetTask k m" if "k \<noteq> taskID" for k
    unfolding l(1) using fold_LogEvent_other[of k t "((SDKTaskStarted, []) # l) @ [final_event r]" m1] tc_Set_other[OF that] that by (simp add: t a(5))
  have "if admit \<or> GetTask taskID m \<noteq> None then
         (\<exists>e. GetTask taskID m2 = Some e \<and> te_ActionID e = actionID \<and> te_Error e = r \<and>
           te_Status e = (if r = None then StatusCompleted else StatusFailed) \<and>
           Percentage (GetProgress e) = 100 \<and> pi_Status (GetProgress e) = te_Status e \<and>
           map ev_Type (te_Events e) = SDKTaskStarted # registration_log D (sa_Height a) filePath @ [if r = None then SDKTaskCompleted else SDKTaskFailed] \<and>
           (r = None \<longrightarrow> (\<exists>sns evs msg tx. fetchSupernodes D (sa_Height a) = Inr sns \<and>
              RegisterCascade D (hd sns) = (evs, Inr (True, msg, tx)) \<and> (tx \<noteq> [] \<longrightarrow> te_TxHash e = tx))))
       else GetTask taskID m2 = None"
  proof (cases "admit \<or> GetTask taskID m \<noteq> None")
    case True
    from tc_Set_entry[OF True] obtain e0 where e0: "GetTask (bt_TaskID t) m1 = Some e0" "te_Events e0 = []" "te_ActionID e0 = actionID"
      unfolding a(5) t by blast
    from tracked_entry[OF l(1) e0 l(4)] l(2) show ?thesis unfolding if_P[OF True] t by auto
  next
    case False
    then show ?thesis using fold_LogEvent_entry[of t "((SDKTaskStarted, []) # l) @ [final_event r]" m1] tc_Set_refused[OF False] l(1)
      by (simp add: t a(5))
  qed
  then show ?thesis using pend connected_some[OF a(3)] sig l(3) other by blast
qed

subsection \<open>Downloads\<close>

lemma collect_logs:
  "collect t batch start ps errs evs m = ((r, es), left, m') \<Longrightarrow>
     \<exists>l. m' = fold (LogEvent t) l m \<and> (\<forall>i. r = Some i \<longrightarrow> i \<in> set ps \<and> AttemptDone i None \<in> set evs)"
proof (induction t batch start ps errs evs m rule: collect.induct)
  case (1 t batch start errs evs m)
  then show ?case by (intro exI[of _ "[]"]) auto
next
  case (2 t batch start p ps errs m)
  define e where "e = ''download from '' @ sn_CosmosAddress (batch ! p) @ '': context deadline exceeded''"
  from 2(1)[OF e_def] 2(2) obtain l where "m' = fold (LogEvent t) l (log_failure t batch start p e m)" "\<forall>i. r = Some i \<longrightarrow> False"
    by (auto simp: e_def Let_def)
  then show ?case by (intro exI[of _ "(SDKDownloadFailure, sn_data (batch ! p) (start + p + 1) @ [(''error'', e)]) # l"]) (simp add: log_failure_def)
next
  case (3 t batch start p ps errs ty d evs m)
  then obtain l where "m' = fold (LogEvent t) l (LogEvent t (ty, d) m)" "\<forall>i. r = Some i \<longrightarrow> i \<in> set (p # ps) \<and> AttemptDone i None \<in> set evs" by auto
  then show ?case by (intro exI[of _ "(ty, d) # l"]) auto
next
  case (4 t batch start p ps errs i r0 evs m)
  show ?case
  proof (cases "i \<in> set (p # ps)")
    case False
    then have "collect t batch start (p # ps) errs evs m = ((r, es), left, m')" using 4(3) by simp
    then show ?thesis using 4(1) False by auto
  next
    case True
    show ?thesis
    proof (cases r0)
      case None
      then show ?thesis using 4(3) True by (intro exI[of _ "[]"]) (auto split: if_splits)
    next
      case (Some e)
      then have "collect t batch start (remove1 i (p # ps)) (errs @ [e]) evs (log_failure t batch start i e m) = ((r, es), left, m')"
        using 4(3) True by (auto split: if_splits)
      with 4(2)[of e] True Some obtain l where l: "m' = fold (LogEvent t) l (log_failure t batch start i e m)"
        "\<forall>j. r = Some j \<longrightarrow> j \<in> set (remove1 i (p # ps)) \<and> AttemptDone j None \<in> set evs" by blast
      then have "\<forall>j. r = Some j \<longrightarrow> j \<in> set (p # ps) \<and> AttemptDone j None \<in> set evs" using set_remove1_subset by fast
      then show ?thesis using l(1)
        by (intro exI[of _ "(SDKDownloadFailure, sn_data (batch ! i) (start + i + 1) @ [(''error'', e)]) # l"]) (simp add: log_failure_def)
    qed
  qed
next
  case (5 t batch start p ps errs evs m)
  then show ?case by (intro exI[of _ "[]"]) auto
qed

lemma fold_attempts:
  "fold (\<lambda>(i, sn). LogEvent t (f i sn)) l m = fold (LogEvent t) (map (\<lambda>(i, sn). f i sn) l) m"
  by (induction l arbitrary: m) auto

lemma attemptConcurrentDownload_logs:
  assumes "attemptConcurrentDownload t path rm batch start evs m = ((r, es), left, m')"
  shows "\<exists>l. m' = fold (LogEvent t) l m \<and> (\<forall>i. r = Some i \<longrightarrow> rm = None \<and> i < length batch \<and> AttemptDone i None \<in> set evs)"
proof (cases rm)
  case (Some e)
  then show ?thesis using assms by (intro exI[of _ "[]"]) (auto simp: attemptConcurrentDownload_def)
next
  case None
  define l0 where "l0 = map (\<lambda>(i, sn). (SDKDownloadAttempt, sn_data sn (start + i + 1))) (enumerate 0 batch)"
  have "collect t batch start [0..<length batch] [] evs (fold (LogEvent t) l0 m) = ((r, es), left, m')"
    using assms None by (simp add: attemptConcurrentDownload_def l0_def flip: fold_attempts)
  from collect_logs[OF this] obtain l where "m' = fold (LogEvent t) l (fold (LogEvent t) l0 m)"
    "\<forall>i. r = Some i \<longrightarrow> i \<in> set [0..<length batch] \<and> AttemptDone i None \<in> set evs" by blast
  then show ?thesis using None by (intro exI[of _ "l0 @ l"]) auto
qed

lemma download_batches_logs:
  "download_batches t path losing rm evs i bs errs m = (r, m') \<Longrightarrow>
     \<exists>l. m' = fold (LogEvent t) l m \<and>
       (r = None \<longrightarrow> (\<exists>j k. j < length bs \<and> rm (i + j) = None \<and> k < length (bs ! j) \<and> AttemptDone k None \<in> set (evs (i + j))))"
proof (induction bs arbitrary: i errs m)
  case Nil
  then show ?case by (intro exI[of _ "[]"]) auto
next
  case (Cons b bs)
  obtain r1 es left m1 where a: "attemptConcurrentDownload t path (rm i) b (2 * i) (evs i) m = ((r1, es), left, m1)" by (metis prod.exhaust)
  from attemptConcurrentDownload_logs[OF a] obtain l where l: "m1 = fold (LogEvent t) l m"
    "\<forall>k. r1 = Some k \<longrightarrow> rm i = None \<and> k < length b \<and> AttemptDone k None \<in> set (evs i)" by blast
  show ?case
  proof (cases r1)
    case None
    then have "download_batches t path losing rm evs (Suc i) bs (errs @ es) m1 = (r, m')" using Cons.prems a by simp
    from Cons.IH[OF this] obtain l' where l': "m' = fold (LogEvent t) l' m1"
      "r = None \<longrightarrow> (\<exists>j k. j < length bs \<and> rm (Suc i + j) = None \<and> k < length (bs ! j) \<and> AttemptDone k None \<in> set (evs (Suc i + j)))" by blast
    have "\<exists>j k. j < length (b # bs) \<and> rm (i + j) = None \<and> k < length ((b # bs) ! j) \<and> AttemptDone k None \<in> set (evs (i + j))" if r: "r = None"
    proof -
      from l'(2) r obtain j k where "j < length bs" "rm (Suc i + j) = None" "k < length (bs ! j)" "AttemptDone k None \<in> set (evs (Suc i + j))" by blast
      then show ?thesis by (intro exI[of _ "Suc j"] exI[of _ k]) simp
    qed
    then show ?thesis using l(1) l'(1) by (intro exI[of _ "l @ l'"]) simp
  next
    case (Some k)
    then have "m' = LogEvent t (SDKDownloadSuccessful, sn_data (b ! k) (2 * i + k + 1)) (fold (LogEvent t) (fst losing) m1)" using Cons.prems a by simp
    moreover have "\<exists>j k. j < length (b # bs) \<and> rm (i + j) = None \<and> k < length ((b # bs) ! j) \<and> AttemptDone k None \<in> set (evs (i + j))"
      using l(2) Some by (intro exI[of _ 0] exI[of _ k]) simp
    ultimately show ?thesis using l(1) by (intro exI[of _ "l @ fst losing @ [(SDKDownloadSuccessful, sn_data (b ! k) (2 * i + k + 1))]"]) simp
  qed
qed

lemma chunks_position:
  "0 < l \<Longrightarrow> j < length (chunks l xs) \<and> k < length (chunks l xs ! j) \<longleftrightarrow> l * j + k < length xs \<and> k < l"
proof (induction j arbitrary: xs)
  case 0
  then show ?case by (cases "xs = []") (auto simp: chunks_Cons)
next
  case (Suc j)
  show ?case
  proof (cases "xs = []")
    case False
    then show ?thesis using Suc.IH[of "drop l xs"] Suc.prems by (auto simp: chunks_Cons)
  qed simp
qed

text \<open>Within a batch's time line the attempt at position \<open>k\<close> succeeds before the task's context ends.\<close>

fun in_time :: "nat \<Rightarrow> batch_event list \<Rightarrow> bool" where
  "in_time k [] = False"
| "in_time k (TaskCtxDone # evs) = False"
| "in_time k (AttemptDone i r # evs) = (if i = k then r = None else in_time k evs)"
| "in_time k (AttemptLog ty d # evs) = in_time k evs"

lemma collect_in_time:
  "k \<in> set ps \<Longrightarrow> in_time k evs \<Longrightarrow> fst (fst (collect t batch start ps errs evs m)) \<noteq> None"
proof (induction k evs arbitrary: ps errs m rule: in_time.induct)
  case (3 k i r evs)
  from 3(2) obtain p qs where "ps = p # qs" by (cases ps) auto
  show ?case
  proof (cases "i = k")
    case True
    then show ?thesis using 3 \<open>ps = p # qs\<close> by (auto split: option.splits)
  next
    case False
    then have "k \<in> set (remove1 i ps)" "in_time k evs" using 3 by (auto simp: in_set_remove1)
    then show ?thesis using 3(1)[OF False] 3(2) \<open>ps = p # qs\<close> by (auto split: option.splits simp del: remove1.simps)
  qed
next
  case (4 k ty d evs)
  then obtain p qs where "ps = p # qs" by (cases ps) auto
  then show ?case using 4 by simp
qed simp_all

lemma download_batches_in_time:
  "j < length bs \<Longrightarrow> rm (i + j) = None \<Longrightarrow> k < length (bs ! j) \<Longrightarrow> in_time k (evs (i + j)) \<Longrightarrow>
     fst (download_batches t path losing rm evs i bs errs m) = None"
proof (induction bs arbitrary: i j errs m)
  case (Cons b bs)
  obtain r1 es left m1 where a: "attemptConcurrentDownload t path (rm i) b (2 * i) (evs i) m = ((r1, es), left, m1)" by (metis prod.exhaust)
  show ?case
  proof (cases r1)
    case None
    have "j \<noteq> 0"
    proof
      assume "j = 0"
      then have k: "rm i = None" "k \<in> set [0..<length b]" "in_time k (evs i)" using Cons.prems by simp_all
      obtain m0 where "collect t b (2 * i) [0..<length b] [] (evs i) m0 = ((r1, es), left, m1)"
        using a k(1) by (simp add: attemptConcurrentDownload_def)
      then show False using collect_in_time[OF k(2,3), of t b "2 * i" "[]" m0] None by simp
    qed
    then obtain j' where j: "j = Suc j'" by (cases j) auto
    then show ?thesis using Cons.IH[of j' "Suc i" "errs @ es" m1] Cons.prems a None by simp
  next
    case (Some _)
    then show ?thesis using a by simp
  qed
qed simp

lemma CascadeDownloadTask_Run_logs:
  assumes "CascadeDownloadTask_Run D t path losing rm evs m = (r, m')"
  shows "\<exists>l. m' = fold (LogEvent t) ((SDKTaskStarted, []) # l @ [final_event r]) m"
proof (cases "fetchSupernodes D (sa_Height (bt_Action t))")
  case (Inl e)
  then show ?thesis using assms
    by (intro exI[of _ "[(SDKSupernodesUnavailable, [(''error'', e)])]"]) (auto simp: CascadeDownloadTask_Run_def final_event_def)
next
  case (Inr sns)
  define fe where "fe = (SDKSupernodesFound, [(''count'', itoa (length sns))])"
  obtain r1 m1 where a: "downloadFromSupernodes t path losing rm evs sns (LogEvent t fe (LogEvent t (SDKTaskStarted, []) m)) = (r1, m1)" by fastforce
  from download_batches_logs[OF a[unfolded downloadFromSupernodes_def]]
  obtain l where l: "m1 = fold (LogEvent t) l (LogEvent t fe (LogEvent t (SDKTaskStarted, []) m))" by blast
  have "r = r1" "m' = LogEvent t (final_event r1) (fold (LogEvent t) (if r1 = None then snd losing else []) m1)"
    using assms Inr a by (auto simp: CascadeDownloadTask_Run_def final_event_def fe_def split: option.splits)
  then show ?thesis using l by (intro exI[of _ "fe # l @ (if r1 = None then snd losing else [])"]) simp
qed

lemma CascadeDownloadTask_Run_outcome:
  assumes "CascadeDownloadTask_Run D t path losing rm evs m = (r, m')"
  shows "r = None \<Longrightarrow> \<exists>sns j k. fetchSupernodes D (sa_Height (bt_Action t)) = Inr sns \<and> 2 * j + k < length sns \<and> k < 2 \<and> rm j = None \<and> AttemptDone k None \<in> set (evs j)"
    and "fetchSupernodes D (sa_Height (bt_Action t)) = Inr sns \<Longrightarrow> 2 * j + k < length sns \<Longrightarrow> k < 2 \<Longrightarrow> rm j = None \<Longrightarrow> in_time k (evs j) \<Longrightarrow> r = None"
proof -
  assume "r = None"
  then obtain sns where f1: "fetchSupernodes D (sa_Height (bt_Action t)) = Inr sns"
    using assms by (cases "fetchSupernodes D (sa_Height (bt_Action t))") (auto simp: CascadeDownloadTask_Run_def)
  define m0 where "m0 = LogEvent t (SDKSupernodesFound, [(''count'', itoa (length sns))]) (LogEvent t (SDKTaskStarted, []) m)"
  have "fst (downloadFromSupernodes t path losing rm evs sns m0) = None"
    using assms f1 \<open>r = None\<close> by (auto simp: CascadeDownloadTask_Run_def Let_def m0_def split: prod.splits option.splits)
  note f = f1 this
  from download_batches_logs[of t path losing rm evs 0 "chunks 2 sns" "[]" m0] f(2)
  obtain j k where "j < length (chunks 2 sns)" "rm j = None" "k < length (chunks 2 sns ! j)" "AttemptDone k None \<in> set (evs j)"
    by (cases "downloadFromSupernodes t path losing rm evs sns m0") (auto simp: downloadFromSupernodes_def)
  then show "\<exists>sns j k. fetchSupernodes D (sa_Height (bt_Action t)) = Inr sns \<and> 2 * j + k < length sns \<and> k < 2 \<and> rm j = None \<and> AttemptDone k None \<in> set (evs j)"
    using f(1) chunks_position[of 2 j sns k] by auto
next
  assume p: "fetchSupernodes D (sa_Height (bt_Action t)) = Inr sns" "2 * j + k < length sns" "k < 2" "rm j = None" "in_time k (evs j)"
  then have "fst (downloadFromSupernodes t path losing rm evs sns m0) = None" for m0
    using chunks_position[of 2 j sns k] download_batches_in_time[of j "chunks 2 sns" rm 0 k evs t path losing "[]" m0] by (simp add: downloadFromSupernodes_def)
  then show "r = None" using assms p(1) by (auto simp: CascadeDownloadTask_Run_def Let_def split: prod.splits option.splits) (metis fst_conv option.distinct(1))
qed

text \<open>C21. A download task that was created and run: it is created only for a finished action with a file name, which ends
  its output path, when a supernode with peers is found.  It ends without an error only if an attempt delivered the file,
  and it does so whenever one of the supernodes that were found, tried two at a time, delivers it before the task is
  cancelled, however the others fail.  When the cache took the entry, it has at the end of the run the status of the
  outcome, its error, and the progress 100; what attempts that lost log after that (never
  the start or the outcome of the task) changes neither status nor error.\<close>

theorem CascadeDownloadTask_lifecycle:
  assumes "CreateDownloadTask D admit uuid actionID outputDir m = (Inr taskID, Some (t, path), m1)"
    and "CascadeDownloadTask_Run D t path losing rm evs m1 = (r, m2)"
    and "\<forall>x \<in> set after. fst x \<notin> {SDKTaskStarted, SDKTaskCompleted, SDKTaskFailed}"
  shows "\<exists>a h n. sdk_GetAction D actionID = Inr a \<and> sa_State a = ''ACTION_STATE_DONE'' \<and>
      DecodeCascadeMetadata D a = Inr (h, n) \<and> n \<noteq> [] \<and> path = path_Join [outputDir, sa_ID a, n] \<and> some_connected D (sa_Height a) \<and>
      (admit \<or> GetTask taskID m \<noteq> None \<longrightarrow>
        (\<exists>e e'. GetTask taskID m2 = Some e \<and> te_ActionID e = actionID \<and> te_Error e = r \<and>
           te_Status e = (if r = None then StatusCompleted else StatusFailed) \<and>
           Percentage (GetProgress e) = 100 \<and> pi_Status (GetProgress e) = te_Status e \<and>
           GetTask taskID (fold (LogEvent t) after m2) = Some e' \<and> te_Status e' = te_Status e \<and> te_Error e' = r)) \<and>
      (r = None \<longrightarrow> (\<exists>sns j k. fetchSupernodes D (sa_Height a) = Inr sns \<and> 2 * j + k < length sns \<and> k < 2 \<and> rm j = None \<and> AttemptDone k None \<in> set (evs j))) \<and>
      (\<forall>sns j k. fetchSupernodes D (sa_Height a) = Inr sns \<and> 2 * j + k < length sns \<and> k < 2 \<and> rm j = None \<and> in_time k (evs j) \<longrightarrow> r = None)"
proof -
  obtain a h n where a: "validateDownloadAction D actionID = Inr a" "DecodeCascadeMetadata D a = Inr (h, n)" "n \<noteq> []"
      "path = path_Join [outputDir, sa_ID a, n]" "checkSupernodesPeerConnectivity D (sa_Height a) = None"
      "t = \<lparr>bt_TaskID = taskID, bt_ActionID = actionID, bt_TaskType = ''CASCADE'', bt_Action = a\<rparr>"
      "m1 = snd (tc_Set admit taskID ''CASCADE'' actionID m)"
    using assms(1) by (auto simp: CreateDownloadTask_def Let_def split: sum.splits option.splits if_splits)
  have pend: "sdk_GetAction D actionID = Inr a" "sa_State a = ''ACTION_STATE_DONE''"
    using a(1) by (auto simp: validateDownloadAction_def validate_state_def split: sum.splits if_splits)
  have entry: "\<exists>e e'. GetTask taskID m2 = Some e \<and> te_ActionID e = actionID \<and> te_Error e = r \<and>
           te_Status e = (if r = None then StatusCompleted else StatusFailed) \<and>
           Percentage (GetProgress e) = 100 \<and> pi_Status (GetProgress e) = te_Status e \<and>
           GetTask taskID (fold (LogEvent t) after m2) = Some e' \<and> te_Status e' = te_Status e \<and> te_Error e' = r"
    if "admit \<or> GetTask taskID m \<noteq> None"
  proof -
    from tc_Set_entry[OF that] obtain e0 where e0: "GetTask (bt_TaskID t) m1 = Some e0" "te_Events e0 = []" "te_ActionID e0 = actionID"
      by (auto simp: a)
    from CascadeDownloadTask_Run_logs[OF assms(2)] obtain l where l: "m2 = fold (LogEvent t) (((SDKTaskStarted, []) # l) @ [final_event r]) m1"
      unfolding append_Cons by blast
    from final_entry[OF l e0(1)] obtain e where e: "GetTask taskID m2 = Some e"
      "te_Status e = (if r = None then StatusCompleted else StatusFailed)" "te_Error e = r" "Percentage (GetProgress e) = 100" "pi_Status (GetProgress e) = te_Status e"
      unfolding a(6) base_task.simps by blast
    have "te_ActionID e = actionID"
      using fold_LogEvent_entry[of t "((SDKTaskStarted, []) # l) @ [final_event r]" m1] l e(1) e0 by (auto simp: a(6))
    moreover from fold_LogEvent_entry[of t after m2] e(1)
    have "GetTask taskID (fold (LogEvent t) after m2) = Some (fold (\<lambda>x. apply_event (logged t x)) after e)" by (simp add: a(6))
    ultimately show ?thesis using e apply_after[OF assms(3), of t e] by blast
  qed
  have tb: "bt_Action t = a" by (simp add: a(6))
  note o = CascadeDownloadTask_Run_outcome[OF assms(2), unfolded tb]
  have "\<forall>sns j k. fetchSupernodes D (sa_Height a) = Inr sns \<and> 2 * j + k < length sns \<and> k < 2 \<and> rm j = None \<and> in_time k (evs j) \<longrightarrow> r = None"
    using o(2) by blast
  then show ?thesis
    by (intro exI[of _ a] exI[of _ h] exI[of _ n] conjI impI pend a(2-4) connected_some[OF a(5)] entry o(1))
qed

text \<open>Anything logged for a task after its end, such as the progress that a losing download still reports, leaves its
  status but takes its progress back.\<close>

lemma late_event_regresses:
  assumes "ev_TaskID ev = taskID" "ev_Type ev = SDKOutputPathReceived" "GetTask taskID m = Some e" "te_Status e = StatusCompleted"
  shows "\<exists>e'. GetTask taskID (handleEvent ev m) = Some e' \<and> te_Status e' = StatusCompleted \<and> Percentage (GetProgress e') = 0 \<and> pi_Status (GetProgress e') = StatusActive"
  using assms
  by (simp add: GetTask_def handleEvent_cache apply_event_def Let_def GetProgress_def GetLatestProgress_def GetProgressFromEvent_def eventProgressMap_def)

text \<open>The output path is not confined to the output directory: a file name of the metadata may lead out of it.\<close>

lemma download_path_escapes: "path_Join [''/home/u/downloads'', ''42'', ''../../.ssh/authorized_keys''] = ''/home/u/.ssh/authorized_keys''"
  by (simp add: path_Join_def path_Clean_def clean_step_def split_on.simps)

text \<open>A task that the cache does not admit is started and answered all the same, and cannot be found.\<close>

lemma refused_task_untracked:
  assumes "CreateCascadeTask D False uuid actionID sig m = (Inr taskID, Some t, m1)" "GetTask taskID m = None"
  shows "GetTask taskID m1 = None" "GetTask taskID (snd (CascadeTask_Run D t filePath m1)) = None"
proof -
  show g: "GetTask taskID m1 = None"
    using assms by (auto simp: CreateCascadeTask_def Let_def tc_Set_def cache_Set_def GetTask_def split: sum.splits option.splits)
  have "bt_TaskID t = taskID" using assms(1) by (auto simp: CreateCascadeTask_def Let_def split: sum.splits option.splits)
  moreover obtain l where "snd (CascadeTask_Run D t filePath m1) = fold (LogEvent t) l m1"
    using CascadeTask_Run_logs[of D t filePath m1] by (metis prod.collapse)
  ultimately show "GetTask taskID (snd (CascadeTask_Run D t filePath m1)) = None"
    using fold_LogEvent_entry[of t l m1] g by simp
qed

section \<open>Witnesses\<close>

definition wit_sdk_action :: "string \<Rightarrow> sdk_action" where
  "wit_sdk_action st = \<lparr>sa_ID = ''7'', sa_Creator = ''lumera1'', sa_State = st, sa_Height = 5\<rparr>"

definition wit_sn :: "string \<Rightarrow> sdk_supernode" where
  "wit_sn a = \<lparr>sn_CosmosAddress = a, sn_GrpcEndpoint = ''host:4444''\<rparr>"

definition wit_sdk :: "string \<Rightarrow> sdk_env" where
  "wit_sdk st = \<lparr>file_size = (\<lambda>_. Inr 10), sdk_GetAction = (\<lambda>_. Inr (wit_sdk_action st)),
     DecodeCascadeMetadata = (\<lambda>_. Inr (''AQI='', ''f'')), sdk_VerifySignature = (\<lambda>_ h s. if h = [1, 2] \<and> s = [3] then None else Some ''bad''),
     GetSupernodes = (\<lambda>_. Inr [wit_sn ''a'', wit_sn ''b'']), CreateClient = (\<lambda>_. None), HealthCheck = (\<lambda>_. True), PeersCount = (\<lambda>_. Inr 2),
     check_order = rev, RegisterCascade = (\<lambda>_. ([(''supernode:action_retrieved'', [])], Inr (True, ''ok'', ''TX'')))\<rparr>"

lemmas wit_sdk_defs = wit_sdk_def wit_sdk_action_def wit_sn_def

lemma wit_connected: "checkSupernodesPeerConnectivity (wit_sdk st) h = None"
  by (simp add: checkSupernodesPeerConnectivity_def wit_sdk_defs)

lemma wit_fetch: "fetchSupernodes (wit_sdk st) h = Inr [wit_sn ''b'', wit_sn ''a'']"
  by (simp add: fetchSupernodes_def isServing_def wit_sdk_defs Let_def)

lemma wit_create:
  "\<exists>t m1. CreateCascadeTask (wit_sdk ''ACTION_STATE_PENDING'') True ''12345678-9'' ''7'' ''Aw=='' NewManagerWithLumeraClient = (Inr ''12345678'', Some t, m1)"
proof -
  have "validateAction (wit_sdk ''ACTION_STATE_PENDING'') ''7'' = Inr (wit_sdk_action ''ACTION_STATE_PENDING'')"
    by (simp add: validateAction_def validate_state_def wit_sdk_defs)
  moreover have "DecodeString ''AQI='' = Inr [1, 2]" "DecodeString ''Aw=='' = Inr [3]" by code_simp+
  then have "validateSignature (wit_sdk ''ACTION_STATE_PENDING'') (wit_sdk_action ''ACTION_STATE_PENDING'') ''Aw=='' = None"
    by (simp add: validateSignature_def wit_sdk_defs)
  ultimately show ?thesis by (simp add: CreateCascadeTask_def wit_connected Let_def)
qed

theorem CascadeTask_lifecycle_witness:
  "\<exists>t m1 e. CreateCascadeTask (wit_sdk ''ACTION_STATE_PENDING'') True ''12345678-9'' ''7'' ''Aw=='' NewManagerWithLumeraClient = (Inr ''12345678'', Some t, m1) \<and>
     GetTask ''12345678'' (snd (CascadeTask_Run (wit_sdk ''ACTION_STATE_PENDING'') t ''f'' m1)) = Some e \<and> te_Status e = StatusCompleted \<and> te_TxHash e = ''TX''"
proof -
  define D where "D = wit_sdk ''ACTION_STATE_PENDING''"
  obtain t m1 where c: "CreateCascadeTask D True ''12345678-9'' ''7'' ''Aw=='' NewManagerWithLumeraClient = (Inr ''12345678'', Some t, m1)"
    using wit_create D_def by blast
  obtain r m2 where r: "CascadeTask_Run D t ''f'' m1 = (r, m2)" by fastforce
  have v: "ValidateFileSize D ''f'' = None" by (simp add: D_def ValidateFileSize_def wit_sdk_def maxFileSize_def)
  have f: "fetchSupernodes D x = Inr [wit_sn ''b'', wit_sn ''a'']" "registers D sn" for x sn
    by (simp_all add: D_def wit_fetch registers_def) (simp add: wit_sdk_def)
  have d: "RegisterCascade D sn = ([(''supernode:action_retrieved'', [])], Inr (True, ''ok'', ''TX''))" for sn by (simp add: D_def wit_sdk_def)
  from CascadeTask_lifecycle[OF c r] v f d have "r = None \<and> (\<exists>e. GetTask ''12345678'' m2 = Some e \<and> te_Status e = StatusCompleted \<and> te_TxHash e = ''TX'')"
    by auto
  then show ?thesis using c r by (auto simp: D_def)
qed

theorem CascadeDownloadTask_lifecycle_witness:
  "\<exists>t path m1 e. CreateDownloadTask (wit_sdk ''ACTION_STATE_DONE'') True ''12345678-9'' ''7'' ''out'' NewManagerWithLumeraClient = (Inr ''12345678'', Some (t, path), m1) \<and>
     GetTask ''12345678'' (snd (CascadeDownloadTask_Run (wit_sdk ''ACTION_STATE_DONE'') t path ([(SDKOutputPathReceived, [])], []) (\<lambda>_. None)
       (\<lambda>_. [AttemptDone 0 (Some ''refused''), AttemptLog ''supernode:artefacts_downloaded'' [], AttemptDone 1 None]) m1)) = Some e \<and> te_Status e = StatusCompleted \<and> te_Error e = None"
proof -
  define D where "D = wit_sdk ''ACTION_STATE_DONE''"
  define evs :: "nat \<Rightarrow> batch_event list" where "evs = (\<lambda>_. [AttemptDone 0 (Some ''refused''), AttemptLog ''supernode:artefacts_downloaded'' [], AttemptDone 1 None])"
  have "\<exists>t path m1. CreateDownloadTask D True ''12345678-9'' ''7'' ''out'' NewManagerWithLumeraClient = (Inr ''12345678'', Some (t, path), m1)"
    using wit_connected[of "''ACTION_STATE_DONE''"] by (simp add: CreateDownloadTask_def validateDownloadAction_def validate_state_def D_def wit_sdk_defs Let_def)
  then obtain t path m1 where c: "CreateDownloadTask D True ''12345678-9'' ''7'' ''out'' NewManagerWithLumeraClient = (Inr ''12345678'', Some (t, path), m1)" by blast
  obtain r m2 where r: "CascadeDownloadTask_Run D t path ([(SDKOutputPathReceived, [])], []) (\<lambda>_. None) evs m1 = (r, m2)" by fastforce
  have none: "\<forall>x \<in> set []. fst x \<notin> {SDKTaskStarted, SDKTaskCompleted, SDKTaskFailed}" by simp
  show ?thesis using CascadeDownloadTask_lifecycle[OF c r none]
  proof (elim exE conjE)
    fix a
    assume en: "True \<or> GetTask ''12345678'' NewManagerWithLumeraClient \<noteq> None \<longrightarrow>
        (\<exists>e e'. GetTask ''12345678'' m2 = Some e \<and> te_ActionID e = ''7'' \<and> te_Error e = r \<and> te_Status e = (if r = None then StatusCompleted else StatusFailed) \<and>
           Percentage (GetProgress e) = 100 \<and> pi_Status (GetProgress e) = te_Status e \<and>
           GetTask ''12345678'' (fold (LogEvent t) [] m2) = Some e' \<and> te_Status e' = te_Status e \<and> te_Error e' = r)"
      and all: "\<forall>sns j k. fetchSupernodes D (sa_Height a) = Inr sns \<and> 2 * j + k < length sns \<and> k < 2 \<and> (None :: string option) = None \<and> in_time k (evs j) \<longrightarrow> r = None"
    have "r = None" using all[rule_format, of "[wit_sn ''b'', wit_sn ''a'']" 0 1] by (simp add: D_def wit_fetch evs_def)
    moreover from en obtain e where "GetTask ''12345678'' m2 = Some e" "te_Error e = r" "te_Status e = (if r = None then StatusCompleted else StatusFailed)" by blast
    moreover note e = calculation
    ultimately show ?thesis using e c r by (intro exI[of _ t] exI[of _ path] exI[of _ m1] exI[of _ e]) (simp add: D_def evs_def)
  qed
qed

end
