(* ===== verification/Sdk_Client.thy ===== *)
theory Sdk_Client
  imports Sdk_Tasks
begin

text \<open>
  The two ends of the SDK: the adapter that turns the chain's answers into the SDK's actions and supernodes
  (\<^verbatim>\<open>sdk/adapters/lumera/adapter.go\<close>) and the client that an application calls (\<^verbatim>\<open>sdk/action/client.go\<close>,
  \<^verbatim>\<open>sdk/config/config.go\<close>, \<^verbatim>\<open>sdk/net/factory.go\<close>).  A record of the chain is a pointer and may be \<open>nil\<close>, written \<open>None\<close>;
  a panic is the outer \<open>None\<close>.
\<close>

section \<open>The chain adapter\<close>

record chain_supernode =
  cs_SupernodeAccount :: string
  cs_ValidatorAddress :: string
  cs_P2PPort :: string
  cs_States :: "(string \<times> int) option list"
  cs_PrevIpAddresses :: "(string \<times> int) option list"

text \<open>Sorting a history with the highest first.  The comparison reads both of its arguments, so that a \<open>nil\<close> record
  beside another one panics.\<close>

definition rec_height :: "(string \<times> int) option \<Rightarrow> int" where
  "rec_height r = (case r of None \<Rightarrow> 0 | Some (_, h) \<Rightarrow> h)"

definition sort_history :: "(string \<times> int) option list \<Rightarrow> (string \<times> int) option list option" where
  "sort_history rs = (if length rs \<ge> 2 \<and> None \<in> set rs then None else Some (sort_key (\<lambda>r. - rec_height r) rs))"

definition latest_record :: "string \<Rightarrow> string \<Rightarrow> (string \<times> int) option list \<Rightarrow> string result option" where
  "latest_record empty_err nil_err rs =
     (if rs = [] then Some (errorf empty_err)
      else case sort_history rs of
             None \<Rightarrow> None
           | Some rs' \<Rightarrow> (case hd rs' of None \<Rightarrow> Some (errorf nil_err) | Some (v, _) \<Rightarrow> Some (Inr v)))"

definition getLatestState :: "chain_supernode option \<Rightarrow> string result option" where
  "getLatestState sn =
     (case sn of
        None \<Rightarrow> Some (errorf ''supernode is nil'')
      | Some s \<Rightarrow> latest_record ''no state history exists for the supernode'' ''latest state in history is nil'' (cs_States s))"

definition getLatestIP :: "chain_supernode option \<Rightarrow> string result option" where
  "getLatestIP sn =
     (case sn of
        None \<Rightarrow> Some (errorf ''supernode is nil'')
      | Some s \<Rightarrow> latest_record ''no ip history exists for the supernode'' ''latest IP address in history is nil'' (cs_PrevIpAddresses s))"

fun toSdkSupernodes :: "chain_supernode option list \<Rightarrow> sdk_supernode list option" where
  "toSdkSupernodes [] = Some []"
| "toSdkSupernodes (sn # sns) =
     (case getLatestIP sn of
        None \<Rightarrow> None
      | Some (Inl _) \<Rightarrow> toSdkSupernodes sns
      | Some (Inr ip) \<Rightarrow>
          if cs_SupernodeAccount (the sn) = [] then toSdkSupernodes sns
          else case getLatestState sn of
                 None \<Rightarrow> None
               | Some (Inl _) \<Rightarrow> toSdkSupernodes sns
               | Some (Inr st) \<Rightarrow>
                   if st \<noteq> ''SUPERNODE_STATE_ACTIVE'' then toSdkSupernodes sns
                   else map_option (\<lambda>r. \<lparr>sn_CosmosAddress = cs_SupernodeAccount (the sn), sn_GrpcEndpoint = ip\<rparr> # r) (toSdkSupernodes sns))"

definition adapter_GetSupernodes :: "(nat \<Rightarrow> chain_supernode option list result) \<Rightarrow> int \<Rightarrow> sdk_supernode list result option" where
  "adapter_GetSupernodes chain height =
     (if height < 0 then Some (errorf (''invalid block height: '' @ itoa_int height))
      else case chain (nat height) of
             Inl e \<Rightarrow> Some (errorf (''failed to get supernodes: '' @ e))
           | Inr sns \<Rightarrow> map_option Inr (toSdkSupernodes sns))"

record supernode_info =
  si_SupernodeAccount :: string
  si_ValidatorAddress :: string
  si_P2PPort :: string
  si_LatestAddress :: string
  si_CurrentState :: string

definition first_value :: "(string \<times> int) option list \<Rightarrow> string option" where
  "first_value rs = (case rs of [] \<Rightarrow> Some [] | r # _ \<Rightarrow> map_option fst r)"

definition GetSupernodeWithLatestAddress :: "(string \<Rightarrow> chain_supernode option result) \<Rightarrow> string \<Rightarrow> supernode_info result option" where
  "GetSupernodeWithLatestAddress chain addr =
     (case chain addr of
        Inl e \<Rightarrow> Some (errorf (''failed to get supernode: '' @ e))
      | Inr None \<Rightarrow> Some (errorf (''received nil response for supernode '' @ addr))
      | Inr (Some s) \<Rightarrow>
          (case (sort_history (cs_PrevIpAddresses s), sort_history (cs_States s)) of
             (Some ips, Some sts) \<Rightarrow>
               (case (first_value ips, first_value sts) of
                  (Some ip, Some st) \<Rightarrow> Some (Inr \<lparr>si_SupernodeAccount = cs_SupernodeAccount s, si_ValidatorAddress = cs_ValidatorAddress s,
                    si_P2PPort = cs_P2PPort s, si_LatestAddress = ip, si_CurrentState = st\<rparr>)
                | _ \<Rightarrow> None)
           | _ \<Rightarrow> None))"

section \<open>The client\<close>

record sdk_config =
  LocalCosmosAddress :: string
  KeyName :: string
  has_Keyring :: bool
  PeerType :: nat
  GRPCAddr :: string
  ChainID :: string

definition Config_Validate :: "sdk_config \<Rightarrow> string option" where
  "Config_Validate c =
     (if LocalCosmosAddress c = [] then Some ''config: Network.LocalCosmosAddress is required''
      else if GRPCAddr c = [] then Some ''config: Lumera.GRPCAddr is required''
      else if ChainID c = [] then Some ''config: Lumera.ChainID is required''
      else if PeerType c = 0 then Some ''config: Account.PeerType is required''
      else if KeyName c = [] then Some ''config: Account.KeyName is required''
      else if \<not> has_Keyring c then Some ''config: Account.Keyring is required''
      else None)"

definition wrap_error :: "string \<Rightarrow> 'a result \<times> 'b \<Rightarrow> 'a result \<times> 'b" where
  "wrap_error msg = (\<lambda>(r, m). (case r of Inl e \<Rightarrow> errorf (msg @ e) | Inr v \<Rightarrow> Inr v, m))"

definition StartCascade ::
  "sdk_env \<Rightarrow> bool \<Rightarrow> string \<Rightarrow> string \<Rightarrow> string \<Rightarrow> string \<Rightarrow> sdk_manager \<Rightarrow> string result \<times> base_task option \<times> sdk_manager" where
  "StartCascade D admit uuid filePath actionID sig m =
     (if actionID = [] then (errorf ''action ID cannot be empty'', None, m)
      else if filePath = [] then (errorf ''data cannot be empty'', None, m)
      else wrap_error ''failed to create cascade task: '' (CreateCascadeTask D admit uuid actionID sig m))"

definition DownloadCascade ::
  "sdk_env \<Rightarrow> bool \<Rightarrow> string \<Rightarrow> string \<Rightarrow> string \<Rightarrow> sdk_manager \<Rightarrow> string result \<times> (base_task \<times> string) option \<times> sdk_manager" where
  "DownloadCascade D admit uuid actionID outputDir m =
     (if actionID = [] then (errorf ''actionID is empty'', None, m)
      else wrap_error ''create download task: '' (CreateDownloadTask D admit uuid actionID outputDir m))"

definition client_DeleteTask :: "string \<Rightarrow> sdk_manager \<Rightarrow> string option \<times> sdk_manager" where
  "client_DeleteTask taskID m =
     (if taskID = [] then (Some ''task ID cannot be empty'', m)
      else case DeleteTask taskID m of (Some e, m') \<Rightarrow> (Some (''failed to delete task: '' @ e), m') | (None, m') \<Rightarrow> (None, m'))"

definition factory_CreateClient :: "(sdk_supernode \<Rightarrow> string option) \<Rightarrow> sdk_supernode \<Rightarrow> string option" where
  "factory_CreateClient new_client sn =
     (if sn_GrpcEndpoint sn = [] then Some (''supernode has no gRPC endpoint: '' @ sn_CosmosAddress sn)
      else map_option (\<lambda>e. ''failed to create supernode client for '' @ sn_CosmosAddress sn @ '': '' @ e) (new_client sn))"

definition GetSupernodeStatus ::
  "(string \<Rightarrow> chain_supernode option result) \<Rightarrow> (sdk_supernode \<Rightarrow> string option) \<Rightarrow> (sdk_supernode \<Rightarrow> 'st result) \<Rightarrow> string \<Rightarrow> 'st result option" where
  "GetSupernodeStatus chain new_client status addr =
     (if addr = [] then Some (errorf ''supernode address cannot be empty'')
      else case GetSupernodeWithLatestAddress chain addr of
             None \<Rightarrow> None
           | Some (Inl e) \<Rightarrow> Some (errorf (''failed to get supernode info: '' @ e))
           | Some (Inr info) \<Rightarrow>
               let sn = \<lparr>sn_CosmosAddress = addr, sn_GrpcEndpoint = si_LatestAddress info\<rparr>
               in case factory_CreateClient new_client sn of
                    Some e \<Rightarrow> Some (errorf (''failed to create supernode client: '' @ e))
                  | None \<Rightarrow>
                      (case status sn of
                         Inl e \<Rightarrow> Some (errorf (''failed to get supernode status: '' @ e))
                       | Inr st \<Rightarrow> Some (Inr st)))"

section \<open>Properties\<close>

lemma hd_sort_key_least: "x \<in> set xs \<Longrightarrow> f (hd (sort_key f xs)) \<le> (f x :: int)"
proof -
  assume x: "x \<in> set xs"
  have "sorted (map f (sort_key f xs))" by simp
  moreover have "x \<in> set (sort_key f xs)" using x by simp
  ultimately show ?thesis by (cases "sort_key f xs") auto
qed

lemma latest_record_spec:
  assumes "latest_record e1 e2 rs = Some (Inr v)"
  shows "\<exists>h. Some (v, h) \<in> set rs \<and> (\<forall>r \<in> set rs. rec_height r \<le> h)"
proof -
  have ne: "rs \<noteq> []" and s: "\<exists>h. hd (sort_key (\<lambda>r. - rec_height r) rs) = Some (v, h)"
    using assms by (auto simp: latest_record_def sort_history_def split: if_splits option.splits prod.splits)
  then obtain h where h: "hd (sort_key (\<lambda>r. - rec_height r) rs) = Some (v, h)" by blast
  have "Some (v, h) \<in> set rs" using h ne hd_in_set[of "sort_key (\<lambda>r. - rec_height r) rs"] by (metis length_0_conv length_sort set_sort)
  moreover have "rec_height r \<le> h" if "r \<in> set rs" for r
    using hd_sort_key_least[OF that, of "\<lambda>r. - rec_height r"] h by (simp add: rec_height_def)
  ultimately show ?thesis by blast
qed

lemma toSdkSupernodes_set:
  assumes "toSdkSupernodes sns = Some res"
  shows "set res = {\<lparr>sn_CosmosAddress = cs_SupernodeAccount s, sn_GrpcEndpoint = ip\<rparr> | s ip.
      Some s \<in> set sns \<and> cs_SupernodeAccount s \<noteq> [] \<and> getLatestIP (Some s) = Some (Inr ip) \<and> getLatestState (Some s) = Some (Inr ''SUPERNODE_STATE_ACTIVE'')}"
    (is "_ = {\<lparr>sn_CosmosAddress = cs_SupernodeAccount s, sn_GrpcEndpoint = ip\<rparr> | s ip. Some s \<in> set sns \<and> ?P s ip}")
  using assms
proof (induction sns arbitrary: res)
  case (Cons sn sns)
  show ?case
  proof (cases "\<exists>s ip. sn = Some s \<and> cs_SupernodeAccount s \<noteq> [] \<and> getLatestIP (Some s) = Some (Inr ip) \<and> getLatestState (Some s) = Some (Inr ''SUPERNODE_STATE_ACTIVE'')")
    case True
    then obtain s ip where s: "sn = Some s" "cs_SupernodeAccount s \<noteq> []" "getLatestIP (Some s) = Some (Inr ip)"
      "getLatestState (Some s) = Some (Inr ''SUPERNODE_STATE_ACTIVE'')" by blast
    with Cons.prems obtain r where "toSdkSupernodes sns = Some r" "res = \<lparr>sn_CosmosAddress = cs_SupernodeAccount s, sn_GrpcEndpoint = ip\<rparr> # r" by auto
    with Cons.IH[of r] s show ?thesis by auto
  next
    case False
    then have "toSdkSupernodes sns = Some res"
      using Cons.prems by (cases sn) (auto simp: getLatestIP_def split: option.splits sum.splits if_splits)
    with Cons.IH[of res] False show ?thesis by auto
  qed
qed simp

text \<open>The supernodes that the SDK works with are the active ones at their latest address: for each of them the chain lists a
  supernode with this account whose state of the greatest height is active and whose address of the greatest height is
  the endpoint; and no supernode that is listed with an account, an address and an active latest state is left out.\<close>

theorem toSdkSupernodes_active:
  assumes "toSdkSupernodes sns = Some res"
  shows "(\<forall>x \<in> set res. \<exists>s h1 h2. Some s \<in> set sns \<and> cs_SupernodeAccount s = sn_CosmosAddress x \<and> sn_CosmosAddress x \<noteq> [] \<and>
        Some (sn_GrpcEndpoint x, h1) \<in> set (cs_PrevIpAddresses s) \<and> (\<forall>r \<in> set (cs_PrevIpAddresses s). rec_height r \<le> h1) \<and>
        Some (''SUPERNODE_STATE_ACTIVE'', h2) \<in> set (cs_States s) \<and> (\<forall>r \<in> set (cs_States s). rec_height r \<le> h2)) \<and>
      (\<forall>s ip. Some s \<in> set sns \<and> cs_SupernodeAccount s \<noteq> [] \<and> getLatestIP (Some s) = Some (Inr ip) \<and>
        getLatestState (Some s) = Some (Inr ''SUPERNODE_STATE_ACTIVE'') \<longrightarrow> \<lparr>sn_CosmosAddress = cs_SupernodeAccount s, sn_GrpcEndpoint = ip\<rparr> \<in> set res)"
proof (intro conjI ballI allI impI)
  fix x
  assume "x \<in> set res"
  then obtain s ip where s: "x = \<lparr>sn_CosmosAddress = cs_SupernodeAccount s, sn_GrpcEndpoint = ip\<rparr>" "Some s \<in> set sns" "cs_SupernodeAccount s \<noteq> []"
    "getLatestIP (Some s) = Some (Inr ip)" "getLatestState (Some s) = Some (Inr ''SUPERNODE_STATE_ACTIVE'')"
    unfolding toSdkSupernodes_set[OF assms] by blast
  from latest_record_spec[OF s(4)[unfolded getLatestIP_def option.case]] latest_record_spec[OF s(5)[unfolded getLatestState_def option.case]]
  show "\<exists>s h1 h2. Some s \<in> set sns \<and> cs_SupernodeAccount s = sn_CosmosAddress x \<and> sn_CosmosAddress x \<noteq> [] \<and>
        Some (sn_GrpcEndpoint x, h1) \<in> set (cs_PrevIpAddresses s) \<and> (\<forall>r \<in> set (cs_PrevIpAddresses s). rec_height r \<le> h1) \<and>
        Some (''SUPERNODE_STATE_ACTIVE'', h2) \<in> set (cs_States s) \<and> (\<forall>r \<in> set (cs_States s). rec_height r \<le> h2)"
    using s(1-3) by auto
next
  fix s ip
  assume "Some s \<in> set sns \<and> cs_SupernodeAccount s \<noteq> [] \<and> getLatestIP (Some s) = Some (Inr ip) \<and> getLatestState (Some s) = Some (Inr ''SUPERNODE_STATE_ACTIVE'')"
  then show "\<lparr>sn_CosmosAddress = cs_SupernodeAccount s, sn_GrpcEndpoint = ip\<rparr> \<in> set res" unfolding toSdkSupernodes_set[OF assms] by blast
qed

definition wit_chain :: "chain_supernode option list" where
  "wit_chain =
     [None,
      Some \<lparr>cs_SupernodeAccount = ''a'', cs_ValidatorAddress = ''v'', cs_P2PPort = ''1'', cs_States = [Some (''SUPERNODE_STATE_ACTIVE'', 1), Some (''SUPERNODE_STATE_STOPPED'', 2)],
        cs_PrevIpAddresses = [Some (''x'', 1)]\<rparr>,
      Some \<lparr>cs_SupernodeAccount = ''b'', cs_ValidatorAddress = ''v'', cs_P2PPort = ''1'', cs_States = [Some (''SUPERNODE_STATE_STOPPED'', 1), Some (''SUPERNODE_STATE_ACTIVE'', 2)],
        cs_PrevIpAddresses = [Some (''y'', 1), Some (''z'', 9)]\<rparr>]"

theorem toSdkSupernodes_active_witness:
  "toSdkSupernodes wit_chain = Some [\<lparr>sn_CosmosAddress = ''b'', sn_GrpcEndpoint = ''z''\<rparr>] \<and>
     (\<exists>s h1. Some s \<in> set wit_chain \<and> Some (''z'', h1) \<in> set (cs_PrevIpAddresses s) \<and> (\<forall>r \<in> set (cs_PrevIpAddresses s). rec_height r \<le> h1))"
proof -
  have r: "toSdkSupernodes wit_chain = Some [\<lparr>sn_CosmosAddress = ''b'', sn_GrpcEndpoint = ''z''\<rparr>]"
    by (simp add: wit_chain_def getLatestIP_def getLatestState_def latest_record_def sort_history_def rec_height_def)
  from toSdkSupernodes_active[OF r, THEN conjunct1] show ?thesis using r by auto
qed

end
