(* ===== verification/Handshake.thy ===== *)
theory Handshake
  imports Alts_Record
begin

text \<open>
  The handshake that opens a secure channel (\<^verbatim>\<open>pkg/net/credentials/alts/handshake\<close>) and the transport credentials that run
  it (\<^verbatim>\<open>pkg/net/credentials/lumeratc.go\<close>).  The key exchange of the chain's \<^verbatim>\<open>securekeyx\<close> package, the parser of its
  messages and HKDF are parameters.  A handshake is a function of what the peer sends; it answers with the connection,
  the bytes it wrote and the new state of the key exchange.
\<close>

section \<open>Parameters\<close>

record 's key_exchange =
  CreateRequest :: "'s \<Rightarrow> string \<Rightarrow> (bytes \<times> bytes) result \<times> 's" \<comment> \<open>message and signature, for a remote address\<close>
  ComputeSharedSecret :: "'s \<Rightarrow> bytes \<Rightarrow> bytes \<Rightarrow> bytes result \<times> 's" \<comment> \<open>from the peer's message and signature\<close>
  LocalAddress :: "'s \<Rightarrow> string"

record handshake_info =
  hi_Address :: string
  hi_PeerType :: nat

record hs_env =
  Unmarshal :: "bytes \<Rightarrow> handshake_info result"
  hkdf :: "bytes \<Rightarrow> bytes \<Rightarrow> nat \<Rightarrow> bytes result"

text \<open>What happens on the connection while a side waits: its context ends, or the given bytes arrive, after so many
  units of time.\<close>

datatype peer_input = CtxDone string nat | Incoming bytes nat

section \<open>Handshakers\<close>

record secureHandshaker =
  remoteAddr :: string
  hs_side :: side
  hs_protocol :: string
  hs_timeout :: nat

record AuthInfo =
  ai_Side :: side
  RemotePeerType :: nat
  RemoteIdentity :: string

abbreviation RecordProtocolXChaCha20Poly1305ReKey :: string where
  "RecordProtocolXChaCha20Poly1305ReKey \<equiv> ''ALTSRP_XCHACHA20_POLY1305_REKEY''"

definition newHandshaker :: "string \<Rightarrow> side \<Rightarrow> nat \<Rightarrow> secureHandshaker" where
  "newHandshaker addr s timeout = \<lparr>remoteAddr = addr, hs_side = s, hs_protocol = RecordProtocolXChaCha20Poly1305ReKey, hs_timeout = timeout\<rparr>"

definition NewClientHandshaker :: "string \<Rightarrow> secureHandshaker" where
  "NewClientHandshaker addr = newHandshaker addr ClientSide 30"

definition NewServerHandshaker :: secureHandshaker where
  "NewServerHandshaker = newHandshaker [] ServerSide 30"

abbreviation ErrPeerNotResponding :: string where "ErrPeerNotResponding \<equiv> ''peer is not responding''"
abbreviation ErrInvalidSide :: string where "ErrInvalidSide \<equiv> ''handshaker invalid side''"

definition ParseHandshakeMessage :: "hs_env \<Rightarrow> bytes \<Rightarrow> handshake_info result" where
  "ParseHandshakeMessage E hs =
     (if hs = [] then errorf ''empty handshake bytes''
      else case Unmarshal E hs of Inl e \<Rightarrow> errorf (''failed to unmarshal handshake info: '' @ e) | Inr i \<Rightarrow> Inr i)"

definition defaultReadRequestWithTimeout :: "peer_input \<Rightarrow> (bytes \<times> bytes) result" where
  "defaultReadRequestWithTimeout inp =
     (case inp of
        CtxDone e _ \<Rightarrow> errorf e
      | Incoming s _ \<Rightarrow>
          (case defaultReceiveHandshakeMessage s of
             Inl e \<Rightarrow> errorf (''failed to receive handshake request: '' @ e)
           | Inr ((hs, sig), _) \<Rightarrow> if hs = [] then errorf ErrPeerNotResponding else Inr (hs, sig)))"

definition defaultReadResponseWithTimeout :: "nat \<Rightarrow> peer_input \<Rightarrow> (bytes \<times> bytes) result" where
  "defaultReadResponseWithTimeout timeout inp =
     (case inp of
        CtxDone e elapsed \<Rightarrow> if elapsed \<ge> timeout then errorf ErrPeerNotResponding else errorf e
      | Incoming s elapsed \<Rightarrow>
          (case defaultReceiveHandshakeMessage s of
             Inl e \<Rightarrow> errorf (''failed to receive handshake response: '' @ e)
           | Inr ((hs, sig), _) \<Rightarrow> if hs = [] \<and> elapsed > timeout then errorf ErrPeerNotResponding else Inr (hs, sig)))"

text \<open>The key of a channel is bound to the protocol and to both addresses, the client's first.\<close>

definition hkdf_info :: "string \<Rightarrow> string \<Rightarrow> string \<Rightarrow> bytes" where
  "hkdf_info protocol client server = bytes_of_str (protocol @ ''-'' @ client @ ''-'' @ server)"

type_synonym xconn = "(bytes \<times> bytes) record_crypto_state alts_conn"

definition open_channel :: "hs_env \<Rightarrow> side \<Rightarrow> string \<Rightarrow> bytes \<Rightarrow> bytes \<Rightarrow> xconn result" where
  "open_channel E s protocol secret info =
     (case defaultExpandKey (hkdf E) secret protocol info of
        Inl e \<Rightarrow> errorf (''failed to expand key: '' @ e)
      | Inr key \<Rightarrow>
          (case NewConn GcmTagSize [RecordProtocolXChaCha20Poly1305ReKey \<mapsto> NewXChaCha20Poly1305ReKey] s protocol key None of
             Inl e \<Rightarrow> errorf (''failed to create ALTS connection: '' @ e)
           | Inr c \<Rightarrow> Inr c))"

text \<open>\<open>acquire\<close> is the error of waiting for one of the slots for handshakes, \<open>wr\<close> the error of writing.\<close>

definition ClientHandshake ::
  "hs_env \<Rightarrow> 's key_exchange \<Rightarrow> secureHandshaker \<Rightarrow> string option \<Rightarrow> (bytes \<Rightarrow> string option) \<Rightarrow> peer_input \<Rightarrow> 's \<Rightarrow> (xconn \<times> AuthInfo) result \<times> bytes \<times> 's" where
  "ClientHandshake E X h acquire wr inp s =
     (case acquire of
        Some e \<Rightarrow> (errorf e, [], s)
      | None \<Rightarrow>
          if hs_side h \<noteq> ClientSide then (errorf ErrInvalidSide, [], s)
          else case CreateRequest X s (remoteAddr h) of
                 (Inl e, s1) \<Rightarrow> (errorf (''failed to create handshake request: '' @ e), [], s1)
               | (Inr (hs, sig), s1) \<Rightarrow>
                   let out = defaultSendHandshakeMessage hs sig
                   in case wr out of
                        Some e \<Rightarrow> (errorf (''failed to send handshake request: '' @ e), [], s1)
                      | None \<Rightarrow>
                          (case defaultReadResponseWithTimeout (hs_timeout h) inp of
                             Inl e \<Rightarrow> (errorf e, out, s1)
                           | Inr (respBytes, respSig) \<Rightarrow>
                               (case ParseHandshakeMessage E respBytes of
                                  Inl e \<Rightarrow> (errorf (''failed to parse handshake response: '' @ e), out, s1)
                                | Inr info \<Rightarrow>
                                    if hi_Address info \<noteq> remoteAddr h then (errorf (''remote address mismatch: '' @ hi_Address info @ '' != '' @ remoteAddr h), out, s1)
                                    else case ComputeSharedSecret X s1 respBytes respSig of
                                           (Inl e, s2) \<Rightarrow> (errorf (''failed to compute shared secret: '' @ e), out, s2)
                                         | (Inr secret, s2) \<Rightarrow>
                                             (case open_channel E (hs_side h) (hs_protocol h) secret (hkdf_info (hs_protocol h) (LocalAddress X s2) (remoteAddr h)) of
                                                Inl e \<Rightarrow> (errorf e, out, s2)
                                              | Inr c \<Rightarrow> (Inr (c, \<lparr>ai_Side = ServerSide, RemotePeerType = hi_PeerType info, RemoteIdentity = hi_Address info\<rparr>), out, s2)))))"

definition ServerHandshake ::
  "hs_env \<Rightarrow> 's key_exchange \<Rightarrow> secureHandshaker \<Rightarrow> string option \<Rightarrow> (bytes \<Rightarrow> string option) \<Rightarrow> peer_input \<Rightarrow> 's \<Rightarrow> (xconn \<times> AuthInfo) result \<times> bytes \<times> 's" where
  "ServerHandshake E X h acquire wr inp s =
     (case acquire of
        Some e \<Rightarrow> (errorf e, [], s)
      | None \<Rightarrow>
          if hs_side h \<noteq> ServerSide then (errorf ErrInvalidSide, [], s)
          else case defaultReadRequestWithTimeout inp of
                 Inl e \<Rightarrow> (errorf e, [], s)
               | Inr (reqBytes, reqSig) \<Rightarrow>
                   (case ParseHandshakeMessage E reqBytes of
                      Inl e \<Rightarrow> (errorf (''failed to parse remote address: '' @ e), [], s)
                    | Inr info \<Rightarrow>
                        (case CreateRequest X s (hi_Address info) of
                           (Inl e, s1) \<Rightarrow> (errorf (''failed to create handshake response: '' @ e), [], s1)
                         | (Inr (hs, sig), s1) \<Rightarrow>
                             let out = defaultSendHandshakeMessage hs sig
                             in case wr out of
                                  Some e \<Rightarrow> (errorf (''failed to send handshake response: '' @ e), [], s1)
                                | None \<Rightarrow>
                                    (case ComputeSharedSecret X s1 reqBytes reqSig of
                                       (Inl e, s2) \<Rightarrow> (errorf (''failed to compute shared secret: '' @ e), out, s2)
                                     | (Inr secret, s2) \<Rightarrow>
                                         (case open_channel E (hs_side h) (hs_protocol h) secret (hkdf_info (hs_protocol h) (hi_Address info) (LocalAddress X s2)) of
                                            Inl e \<Rightarrow> (errorf e, out, s2)
                                          | Inr c \<Rightarrow> (Inr (c, \<lparr>ai_Side = ClientSide, RemotePeerType = hi_PeerType info, RemoteIdentity = hi_Address info\<rparr>), out, s2))))))"

section \<open>Transport credentials\<close>

record protocol_info =
  SecurityProtocol :: string
  SecurityVersion :: string
  ServerName :: string

text \<open>Credentials refer to their protocol information and to their key exchange by position: clones share both.\<close>

record LumeraTC =
  tc_info :: nat
  tc_side :: side
  remoteIdentity :: string
  keyExchanger :: nat

record CommonOptions =
  LocalIdentity :: string
  co_PeerType :: nat
  co_Curve :: "string option"

record tc_world =
  keyExchangers :: "(string \<times> nat) list"
  exchanges :: "CommonOptions list"
  infos :: "protocol_info list"

definition side_num :: "side \<Rightarrow> string" where
  "side_num s = (case s of ClientSide \<Rightarrow> ''0'' | ServerSide \<Rightarrow> ''1'')"

definition cacheKey :: "string \<Rightarrow> side \<Rightarrow> string" where
  "cacheKey identity s = identity @ ''-'' @ side_num s"

text \<open>\<open>opts\<close> is \<open>None\<close> for \<open>nil\<close> options; the options say for which side they were made.  \<open>new_err\<close> is the error of
  \<^verbatim>\<open>NewSecureKeyExchange\<close>.\<close>

definition NewTransportCredentials ::
  "(CommonOptions \<Rightarrow> string option) \<Rightarrow> side \<Rightarrow> (side \<times> CommonOptions) option \<Rightarrow> tc_world \<Rightarrow> LumeraTC result \<times> tc_world" where
  "NewTransportCredentials new_err s opts w =
     (case opts of
        None \<Rightarrow> (errorf ''credentials should be provided'', w)
      | Some (s', o0) \<Rightarrow>
          if s' \<noteq> s then (errorf ''invalid credentials type'', w)
          else
            let o1 = (if co_Curve o0 = None then o0\<lparr>co_Curve := Some ''P256''\<rparr> else o0);
                k = cacheKey (LocalIdentity o1) s;
                found = (\<lambda>x w. (Inr \<lparr>tc_info = length (infos w), tc_side = s, remoteIdentity = [], keyExchanger = x\<rparr>,
                                  w\<lparr>infos := infos w @ [\<lparr>SecurityProtocol = ''lumera-alts'', SecurityVersion = ''1.0'', ServerName = []\<rparr>]\<rparr>))
            in case map_of (keyExchangers w) k of
                 Some x \<Rightarrow> found x w
               | None \<Rightarrow>
                   (case new_err o1 of
                      Some e \<Rightarrow> (errorf (''failed to create secure key exchange: '' @ e), w)
                    | None \<Rightarrow> found (length (exchanges w)) (w\<lparr>keyExchangers := alist_update k (length (exchanges w)) (keyExchangers w), exchanges := exchanges w @ [o1]\<rparr>)))"

definition tc_Info :: "LumeraTC \<Rightarrow> tc_world \<Rightarrow> protocol_info" where
  "tc_Info l w = infos w ! tc_info l"

definition tc_Clone :: "LumeraTC \<Rightarrow> LumeraTC" where
  "tc_Clone l = \<lparr>tc_info = tc_info l, tc_side = tc_side l, remoteIdentity = remoteIdentity l, keyExchanger = keyExchanger l\<rparr>"

definition OverrideServerName :: "string \<Rightarrow> LumeraTC \<Rightarrow> tc_world \<Rightarrow> tc_world" where
  "OverrideServerName n l w = w\<lparr>infos := (infos w)[tc_info l := (infos w ! tc_info l)\<lparr>ServerName := n\<rparr>]\<rparr>"

definition SetRemoteIdentity :: "string \<Rightarrow> LumeraTC \<Rightarrow> LumeraTC" where
  "SetRemoteIdentity identity l = l\<lparr>remoteIdentity := identity\<rparr>"

definition tc_ClientHandshake where
  "tc_ClientHandshake E X l acquire wr inp s =
     (case ClientHandshake E X (NewClientHandshaker (remoteIdentity l)) acquire wr inp s of
        (Inl e, out, s') \<Rightarrow> (errorf (''failed to complete client handshake: '' @ e), out, s') | r \<Rightarrow> r)"

definition tc_ServerHandshake where
  "tc_ServerHandshake E X l acquire wr inp s =
     (case ServerHandshake E X NewServerHandshaker acquire wr inp s of
        (Inl e, out, s') \<Rightarrow> (errorf (''failed to complete server handshake: '' @ e), out, s') | r \<Rightarrow> r)"

section \<open>Properties\<close>

text \<open>What the key exchange promises to two honest sides that address each other: each accepts the other's message and
  signature, both arrive at one secret, and the messages name their senders.\<close>

definition kx_honest :: "hs_env \<Rightarrow> 's key_exchange \<Rightarrow> 's \<Rightarrow> 's \<Rightarrow> bool" where
  "kx_honest E X c s \<longleftrightarrow> (\<exists>rq sg c1 rs sg' s1 k c2 s2 i j.
     CreateRequest X c (LocalAddress X s) = (Inr (rq, sg), c1) \<and> CreateRequest X s (LocalAddress X c) = (Inr (rs, sg'), s1) \<and>
     ComputeSharedSecret X c1 rs sg' = (Inr k, c2) \<and> ComputeSharedSecret X s1 rq sg = (Inr k, s2) \<and>
     Unmarshal E rq = Inr i \<and> hi_Address i = LocalAddress X c \<and> Unmarshal E rs = Inr j \<and> hi_Address j = LocalAddress X s \<and>
     LocalAddress X c2 = LocalAddress X c \<and> LocalAddress X s2 = LocalAddress X s \<and>
     rq \<noteq> [] \<and> rs \<noteq> [] \<and> length rq < 2 ^ 32 \<and> length sg < 2 ^ 32 \<and> length rs < 2 ^ 32 \<and> length sg' < 2 ^ 32)"

text \<open>HKDF answers with as many bytes as it is asked for.\<close>

definition hkdf_law :: "hs_env \<Rightarrow> bool" where
  "hkdf_law E \<longleftrightarrow> (\<forall>k i n. n \<le> 8160 \<longrightarrow> (\<exists>out. hkdf E k i n = Inr out \<and> length out = n))"

text \<open>What is written on \<open>p\<close> is what is read on \<open>q\<close>, however the bytes are cut on their way.\<close>

definition delivers :: "(bytes \<Rightarrow> bytes \<Rightarrow> bytes \<Rightarrow> bytes) \<Rightarrow> (bytes \<Rightarrow> bytes \<Rightarrow> bytes \<Rightarrow> bytes option) \<Rightarrow> xconn \<Rightarrow> xconn \<Rightarrow> bytes \<Rightarrow> bool" where
  "delivers seal opn p q msg \<longleftrightarrow>
     (\<exists>p' F. conn_Write (xchacha_Encrypt seal) (\<lambda>out d. (length d, None)) msg p [] = Some ((length msg, None), p', F) \<and>
        (\<forall>inp stale fuel. concat inp = F \<longrightarrow> length msg \<le> fuel \<longrightarrow>
           (\<exists>q' inp'. conn_ReadFull (xchacha_Decrypt opn) stale fuel (length msg) q inp = Some (Inr msg, q', inp'))))"

lemma expand_law: "hkdf_law E \<Longrightarrow> \<exists>key. defaultExpandKey (hkdf E) k RecordProtocolXChaCha20Poly1305ReKey info = Inr key \<and> length key = 56"
proof (cases "56 \<le> length k")
  case False
  assume "hkdf_law E"
  then have "\<exists>out. hkdf E k info 56 = Inr out \<and> length out = 56" by (simp add: hkdf_law_def)
  then obtain out where "hkdf E k info 56 = Inr out" "length out = 56" by blast
  then show ?thesis using False by (simp add: defaultExpandKey_def GetALTSKeySize_def)
qed (simp add: defaultExpandKey_def GetALTSKeySize_def)

lemma open_channel_ok:
  assumes "hkdf_law E"
  shows "\<exists>key. length key = 56 \<and> (\<forall>s. \<exists>c. open_channel E s RecordProtocolXChaCha20Poly1305ReKey k info = Inr c \<and>
    NewConn GcmTagSize [RecordProtocolXChaCha20Poly1305ReKey \<mapsto> NewXChaCha20Poly1305ReKey] s RecordProtocolXChaCha20Poly1305ReKey key None = Inr c)"
proof -
  obtain key where k: "defaultExpandKey (hkdf E) k RecordProtocolXChaCha20Poly1305ReKey info = Inr key" "length key = 56" using expand_law[OF assms] by blast
  have "\<exists>c. NewConn GcmTagSize [RecordProtocolXChaCha20Poly1305ReKey \<mapsto> NewXChaCha20Poly1305ReKey] s RecordProtocolXChaCha20Poly1305ReKey key None = Inr c" for s
    using k(2) by (simp add: NewConn_def NewXChaCha20Poly1305ReKey_def Let_def)
  then show ?thesis using k by (intro exI[of _ key]) (force simp: open_channel_def)
qed

lemma channel_delivers:
  assumes "aead_law GcmTagSize seal opn" "s \<noteq> s'" "(length msg + 4071) div 4072 \<le> 256 ^ 8"
    and "NewConn GcmTagSize [rp \<mapsto> NewXChaCha20Poly1305ReKey] s rp key None = Inr p" "NewConn GcmTagSize [rp \<mapsto> NewXChaCha20Poly1305ReKey] s' rp key None = Inr q"
  shows "delivers seal opn p q msg"
  using secure_channel_xchacha[OF assms(1,2,4,5,3), of "\<lambda>out d. (length d, None)" "[]"] by (simp add: delivers_def)

lemma received [simp]:
  assumes "length hs < 2 ^ 32" "length sig < 2 ^ 32"
  shows "defaultReceiveHandshakeMessage (defaultSendHandshakeMessage hs sig @ rest) = Inr ((hs, sig), rest)"
  using handshake_roundtrip[OF assms] by blast

text \<open>C22. Two honest sides that address each other end their handshake with a working channel: what the client writes does
  not depend on the answer; the server, given these bytes, answers and succeeds; the client, given the answer, succeeds;
  each side knows the other's address; and whatever either writes on its connection the other reads, for both have
  derived one key from the secret and from the same two addresses.\<close>

theorem handshake_establishes:
  assumes "kx_honest E X c s" and "hkdf_law E" and "aead_law GcmTagSize seal opn"
  shows "\<exists>outc outs p q ic is c2 s2.
    (\<forall>inp. fst (snd (ClientHandshake E X (NewClientHandshaker (LocalAddress X s)) None (\<lambda>_. None) inp c)) = outc) \<and>
    (\<forall>rest t. ServerHandshake E X NewServerHandshaker None (\<lambda>_. None) (Incoming (outc @ rest) t) s = (Inr (q, is), outs, s2)) \<and>
    (\<forall>rest t. ClientHandshake E X (NewClientHandshaker (LocalAddress X s)) None (\<lambda>_. None) (Incoming (outs @ rest) t) c = (Inr (p, ic), outc, c2)) \<and>
    RemoteIdentity is = LocalAddress X c \<and> RemoteIdentity ic = LocalAddress X s \<and>
    (\<forall>msg. (length msg + 4071) div 4072 \<le> 256 ^ 8 \<longrightarrow> delivers seal opn p q msg \<and> delivers seal opn q p msg)"
proof -
  from assms(1) obtain rq sg c1 rs sg' s1 k c2 s2 i j where x:
     "CreateRequest X c (LocalAddress X s) = (Inr (rq, sg), c1)" "CreateRequest X s (LocalAddress X c) = (Inr (rs, sg'), s1)"
     "ComputeSharedSecret X c1 rs sg' = (Inr k, c2)" "ComputeSharedSecret X s1 rq sg = (Inr k, s2)"
     "Unmarshal E rq = Inr i" "hi_Address i = LocalAddress X c" "Unmarshal E rs = Inr j" "hi_Address j = LocalAddress X s"
     "LocalAddress X c2 = LocalAddress X c" "LocalAddress X s2 = LocalAddress X s"
     "rq \<noteq> []" "rs \<noteq> []" "length rq < 2 ^ 32" "length sg < 2 ^ 32" "length rs < 2 ^ 32" "length sg' < 2 ^ 32"
    unfolding kx_honest_def by blast
  define info where "info = hkdf_info RecordProtocolXChaCha20Poly1305ReKey (LocalAddress X c) (LocalAddress X s)"
  obtain key where key: "\<forall>s. \<exists>c. open_channel E s RecordProtocolXChaCha20Poly1305ReKey k info = Inr c \<and>
    NewConn GcmTagSize [RecordProtocolXChaCha20Poly1305ReKey \<mapsto> NewXChaCha20Poly1305ReKey] s RecordProtocolXChaCha20Poly1305ReKey key None = Inr c"
    using open_channel_ok[OF assms(2)] by blast
  obtain p where p: "open_channel E ClientSide RecordProtocolXChaCha20Poly1305ReKey k info = Inr p"
    "NewConn GcmTagSize [RecordProtocolXChaCha20Poly1305ReKey \<mapsto> NewXChaCha20Poly1305ReKey] ClientSide RecordProtocolXChaCha20Poly1305ReKey key None = Inr p"
    using key by blast
  obtain q where q: "open_channel E ServerSide RecordProtocolXChaCha20Poly1305ReKey k info = Inr q"
    "NewConn GcmTagSize [RecordProtocolXChaCha20Poly1305ReKey \<mapsto> NewXChaCha20Poly1305ReKey] ServerSide RecordProtocolXChaCha20Poly1305ReKey key None = Inr q"
    using key by blast
  define outc outs where "outc = defaultSendHandshakeMessage rq sg" and "outs = defaultSendHandshakeMessage rs sg'"
  have parse: "ParseHandshakeMessage E rq = Inr i" "ParseHandshakeMessage E rs = Inr j" using x by (simp_all add: ParseHandshakeMessage_def)
  have 1: "fst (snd (ClientHandshake E X (NewClientHandshaker (LocalAddress X s)) None (\<lambda>_. None) inp c)) = outc" for inp
    by (simp add: ClientHandshake_def NewClientHandshaker_def newHandshaker_def x(1) Let_def outc_def split: sum.splits prod.splits)
  have 2: "ServerHandshake E X NewServerHandshaker None (\<lambda>_. None) (Incoming (outc @ rest) t) s =
      (Inr (q, \<lparr>ai_Side = ClientSide, RemotePeerType = hi_PeerType i, RemoteIdentity = hi_Address i\<rparr>), outs, s2)" for rest t
    using x parse q(1) by (simp add: ServerHandshake_def NewServerHandshaker_def newHandshaker_def defaultReadRequestWithTimeout_def outc_def outs_def info_def)
  have 3: "ClientHandshake E X (NewClientHandshaker (LocalAddress X s)) None (\<lambda>_. None) (Incoming (outs @ rest) t) c =
      (Inr (p, \<lparr>ai_Side = ServerSide, RemotePeerType = hi_PeerType j, RemoteIdentity = hi_Address j\<rparr>), outc, c2)" for rest t
    using x parse p(1) by (simp add: ClientHandshake_def NewClientHandshaker_def newHandshaker_def defaultReadResponseWithTimeout_def outc_def outs_def info_def)
  have 4: "delivers seal opn p q msg \<and> delivers seal opn q p msg" if "(length msg + 4071) div 4072 \<le> 256 ^ 8" for msg
    using channel_delivers[OF assms(3) _ that p(2) q(2)] channel_delivers[OF assms(3) _ that q(2) p(2)] by simp
  show ?thesis
    using 1 2 3 4 x(6,8) by (intro exI[of _ outc] exI[of _ outs] exI[of _ p] exI[of _ q] exI conjI allI) auto
qed

text \<open>C23. No side takes a connection without the key exchange having accepted the peer's signed message: if the client's
  handshake succeeds, the message that arrived names the address that was dialled, this is the identity it reports, and
  the shared secret was computed from this message and its signature; if the server's succeeds, the identity it reports
  is the address in the request, and the secret was computed from that request and its signature.\<close>

theorem handshake_authenticated:
  "(ClientHandshake E X h acquire wr inp s = (Inr (c, ai), out, s2) \<longrightarrow>
      (\<exists>hs sig s1 secret info resp respSig. CreateRequest X s (remoteAddr h) = (Inr (hs, sig), s1) \<and> out = defaultSendHandshakeMessage hs sig \<and>
        defaultReadResponseWithTimeout (hs_timeout h) inp = Inr (resp, respSig) \<and> ParseHandshakeMessage E resp = Inr info \<and>
        hi_Address info = remoteAddr h \<and> RemoteIdentity ai = remoteAddr h \<and> ComputeSharedSecret X s1 resp respSig = (Inr secret, s2))) \<and>
   (ServerHandshake E X h acquire wr inp s = (Inr (c, ai), out, s2) \<longrightarrow>
      (\<exists>req reqSig info hs sig s1 secret. defaultReadRequestWithTimeout inp = Inr (req, reqSig) \<and> ParseHandshakeMessage E req = Inr info \<and>
        RemoteIdentity ai = hi_Address info \<and> CreateRequest X s (hi_Address info) = (Inr (hs, sig), s1) \<and>
        out = defaultSendHandshakeMessage hs sig \<and> ComputeSharedSecret X s1 req reqSig = (Inr secret, s2)))"
proof (intro conjI impI)
  assume a: "ClientHandshake E X h acquire wr inp s = (Inr (c, ai), out, s2)"
  then show "\<exists>hs sig s1 secret info resp respSig. CreateRequest X s (remoteAddr h) = (Inr (hs, sig), s1) \<and> out = defaultSendHandshakeMessage hs sig \<and>
        defaultReadResponseWithTimeout (hs_timeout h) inp = Inr (resp, respSig) \<and> ParseHandshakeMessage E resp = Inr info \<and>
        hi_Address info = remoteAddr h \<and> RemoteIdentity ai = remoteAddr h \<and> ComputeSharedSecret X s1 resp respSig = (Inr secret, s2)"
    unfolding ClientHandshake_def Let_def by (simp split: option.splits if_splits sum.splits prod.splits) auto
next
  assume a: "ServerHandshake E X h acquire wr inp s = (Inr (c, ai), out, s2)"
  then show "\<exists>req reqSig info hs sig s1 secret. defaultReadRequestWithTimeout inp = Inr (req, reqSig) \<and> ParseHandshakeMessage E req = Inr info \<and>
        RemoteIdentity ai = hi_Address info \<and> CreateRequest X s (hi_Address info) = (Inr (hs, sig), s1) \<and>
        out = defaultSendHandshakeMessage hs sig \<and> ComputeSharedSecret X s1 req reqSig = (Inr secret, s2)"
    unfolding ServerHandshake_def Let_def by (simp split: option.splits if_splits sum.splits prod.splits) auto
qed

subsection \<open>Credentials\<close>

lemma cacheKey_inj: "cacheKey a s = cacheKey b s' \<longleftrightarrow> a = b \<and> s = s'"
  by (cases s; cases s') (auto simp: cacheKey_def side_num_def)

text \<open>The key exchange of an identity and a side is made once: later credentials share it, whatever their own options
  (keyring, peer type, curve) say.\<close>

lemma creds_share_exchange:
  assumes "NewTransportCredentials ne s (Some (s, o1)) w = (Inr l1, w1)" and "LocalIdentity o2 = LocalIdentity o1"
  shows "\<exists>l2 w2. NewTransportCredentials ne' s (Some (s, o2)) w1 = (Inr l2, w2) \<and> keyExchanger l2 = keyExchanger l1 \<and> exchanges w2 = exchanges w1"
proof -
  have "map_of (keyExchangers w1) (cacheKey (LocalIdentity o1) s) = Some (keyExchanger l1)"
    using assms(1) by (auto simp: NewTransportCredentials_def Let_def map_of_alist_update split: option.splits if_splits)
  then show ?thesis using assms(2) by (simp add: NewTransportCredentials_def Let_def)
qed

text \<open>A clone shares the protocol information: renaming the server on the clone renames it on the original.\<close>

lemma clone_shares_info:
  assumes "tc_info l < length (infos w)"
  shows "ServerName (tc_Info l (OverrideServerName n (tc_Clone l) w)) = n"
  using assms by (simp add: tc_Info_def OverrideServerName_def tc_Clone_def)

section \<open>Witnesses\<close>

text \<open>A key exchange in which every message is the sender's address and the secret is empty.\<close>

definition wit_kx :: "string key_exchange" where
  "wit_kx = \<lparr>CreateRequest = (\<lambda>s _. (Inr (bytes_of_str s, [1]), s)), ComputeSharedSecret = (\<lambda>s m g. (if g = [1] then Inr [] else errorf ''bad'', s)), LocalAddress = (\<lambda>s. s)\<rparr>"

definition wit_hs_env :: hs_env where
  "wit_hs_env = \<lparr>Unmarshal = (\<lambda>m. Inr \<lparr>hi_Address = str_of_bytes m, hi_PeerType = 1\<rparr>), hkdf = (\<lambda>_ _ n. Inr (replicate n 0))\<rparr>"

lemma wit_kx_honest: "kx_honest wit_hs_env wit_kx ''c'' ''s''"
  by (simp add: kx_honest_def wit_hs_env_def wit_kx_def bytes_of_str_def str_of_bytes_def)

theorem handshake_establishes_witness:
  "\<exists>outc outs p q ic is c2 s2.
     ServerHandshake wit_hs_env wit_kx NewServerHandshaker None (\<lambda>_. None) (Incoming outc 1) ''s'' = (Inr (q, is), outs, s2) \<and>
     ClientHandshake wit_hs_env wit_kx (NewClientHandshaker ''s'') None (\<lambda>_. None) (Incoming outs 1) ''c'' = (Inr (p, ic), outc, c2) \<and>
     RemoteIdentity is = ''c'' \<and> RemoteIdentity ic = ''s'' \<and> delivers toy_seal toy_open p q [1, 2, 3]"
proof -
  have "hkdf_law wit_hs_env" by (simp add: hkdf_law_def wit_hs_env_def)
  from handshake_establishes[OF wit_kx_honest this toy_laws(1)] obtain outc outs p q ic "is" c2 s2 where w:
    "\<And>rest t. ServerHandshake wit_hs_env wit_kx NewServerHandshaker None (\<lambda>_. None) (Incoming (outc @ rest) t) ''s'' = (Inr (q, is), outs, s2)"
    "\<And>rest t. ClientHandshake wit_hs_env wit_kx (NewClientHandshaker (LocalAddress wit_kx ''s'')) None (\<lambda>_. None) (Incoming (outs @ rest) t) ''c'' = (Inr (p, ic), outc, c2)"
    "RemoteIdentity is = LocalAddress wit_kx ''c''" "RemoteIdentity ic = LocalAddress wit_kx ''s''"
    "\<And>msg. (length msg + 4071) div 4072 \<le> 256 ^ 8 \<Longrightarrow> delivers toy_seal toy_open p q msg" by (elim exE conjE) blast
  have "LocalAddress wit_kx x = x" for x by (simp add: wit_kx_def)
  then show ?thesis using w(1)[of "[]" 1] w(2)[of "[]" 1] w(3,4) w(5)[of "[1, 2, 3]"]
    by (intro exI[of _ outc] exI[of _ outs] exI[of _ p] exI[of _ q] exI[of _ ic] exI[of _ "is"] exI[of _ c2] exI[of _ s2]) simp
qed

theorem handshake_authenticated_witness:
  "\<exists>p ic outc c2 secret. ClientHandshake wit_hs_env wit_kx (NewClientHandshaker ''s'') None (\<lambda>_. None) (Incoming (defaultSendHandshakeMessage (bytes_of_str ''s'') [1]) 1) ''c'' = (Inr (p, ic), outc, c2) \<and>
     RemoteIdentity ic = ''s'' \<and> (\<exists>s1. ComputeSharedSecret wit_kx s1 (bytes_of_str ''s'') [1] = (Inr secret, c2))"
proof -
  define inp where "inp = Incoming (defaultSendHandshakeMessage (bytes_of_str ''s'') [1]) 1"
  have rd: "defaultReadResponseWithTimeout 30 inp = Inr (bytes_of_str ''s'', [1])"
    using received[of "bytes_of_str ''s''" "[1]" "[]"] by (simp add: inp_def defaultReadResponseWithTimeout_def bytes_of_str_def)
  have "hkdf_law wit_hs_env" by (simp add: hkdf_law_def wit_hs_env_def)
  from open_channel_ok[OF this] obtain p where p: "open_channel wit_hs_env ClientSide RecordProtocolXChaCha20Poly1305ReKey [] (hkdf_info RecordProtocolXChaCha20Poly1305ReKey ''c'' ''s'') = Inr p" by blast
  have "\<exists>ic outc c2. ClientHandshake wit_hs_env wit_kx (NewClientHandshaker ''s'') None (\<lambda>_. None) inp ''c'' = (Inr (p, ic), outc, c2)"
    using rd p by (simp add: ClientHandshake_def NewClientHandshaker_def newHandshaker_def ParseHandshakeMessage_def wit_hs_env_def wit_kx_def bytes_of_str_def str_of_bytes_def)
  then obtain ic outc c2 where h: "ClientHandshake wit_hs_env wit_kx (NewClientHandshaker ''s'') None (\<lambda>_. None) inp ''c'' = (Inr (p, ic), outc, c2)" by blast
  from handshake_authenticated[THEN conjunct1, rule_format, OF h] rd h show ?thesis
    by (auto simp: inp_def NewClientHandshaker_def newHandshaker_def)
qed

end
