(* ===== verification/Supervisor.thy ===== *)
theory Supervisor
  imports Go_Lib
begin

text \<open>
  The supervision of the supernode process by the manager (\<^verbatim>\<open>sn-manager/internal/manager\<close>) and the commands that talk to it
  through marker files (\<^verbatim>\<open>sn-manager/cmd/supernode_start.go\<close>, \<^verbatim>\<open>supernode_stop.go\<close>).  \<open>alive\<close> holds the processes of the
  operating system that have not been reaped; \<open>armed\<close> the processes for whose end a goroutine waits; \<open>exit_ch\<close> says
  whether the channel that the monitor currently reads holds a notification.  The goroutines name the channel through
  the variable, so that they send to the one which is current when they send.  The monitor pauses in the middle of its
  branches (\<open>Backoff\<close>, \<open>Updating\<close>); the other parties may act there.  Two delays are not modelled: that of a
  goroutine between its start and its first statement, which reads the process it waits for, and that of a kill.
\<close>

datatype monitor_pc = Idle | Backoff | Updating

record sup =
  process :: "nat option"
  alive :: "nat list"
  next_pid :: nat
  pid_file :: "nat option"
  stop_marker :: bool
  restart_marker :: bool
  armed :: "nat list"
  exit_ch :: bool
  pc :: monitor_pc

section \<open>The process\<close>

definition IsRunning :: "sup \<Rightarrow> bool" where
  "IsRunning s \<longleftrightarrow> (case process s of None \<Rightarrow> False | Some p \<Rightarrow> p \<in> set (alive s))"

text \<open>\<open>ok\<close> is whether the operating system starts the binary.\<close>

definition mgr_Start :: "bool \<Rightarrow> sup \<Rightarrow> string option \<times> sup" where
  "mgr_Start ok s =
     (if process s \<noteq> None then (Some ''supernode is already running'', s)
      else if \<not> ok then (Some ''failed to start supernode'', s)
      else (None, s\<lparr>process := Some (next_pid s), alive := next_pid s # alive s, next_pid := Suc (next_pid s), pid_file := Some (next_pid s)\<rparr>))"

definition cleanup :: "sup \<Rightarrow> sup" where
  "cleanup s = s\<lparr>process := None, pid_file := None\<rparr>"

text \<open>\<open>gone\<close> is whether the process ends within the timeout or can be killed after it.\<close>

definition mgr_Stop :: "bool \<Rightarrow> sup \<Rightarrow> string option \<times> sup" where
  "mgr_Stop gone s =
     (case process s of
        None \<Rightarrow> (Some ''supernode is not running'', s)
      | Some p \<Rightarrow>
          if p \<notin> set (alive s) then (Some ''failed to send SIGTERM'', s)
          else if \<not> gone then (Some ''failed to kill process'', s)
          else (None, cleanup (s\<lparr>alive := filter (\<lambda>q. q \<noteq> p) (alive s)\<rparr>)))"

text \<open>\<^verbatim>\<open>armProcessWait\<close>: a fresh channel, and a goroutine that waits for the current process.\<close>

definition arm :: "sup \<Rightarrow> sup" where
  "arm s = s\<lparr>exit_ch := False, armed := armed s @ (case process s of None \<Rightarrow> [] | Some p \<Rightarrow> [p])\<rparr>"

definition start_and_arm :: "bool \<Rightarrow> sup \<Rightarrow> sup" where
  "start_and_arm ok s = (case mgr_Start ok s of (Some _, s1) \<Rightarrow> s1 | (None, s1) \<Rightarrow> arm s1)"

section \<open>The monitor\<close>

definition monitor_init :: "bool \<Rightarrow> sup \<Rightarrow> sup" where
  "monitor_init ok s = (if stop_marker s then s else if \<not> IsRunning s then start_and_arm ok s else arm s)"

text \<open>The branch of an exit, up to the pause and after it.\<close>

definition on_exit :: "sup \<Rightarrow> sup" where
  "on_exit s = (let s1 = cleanup (s\<lparr>exit_ch := False\<rparr>) in if stop_marker s1 then s1 else s1\<lparr>pc := Backoff\<rparr>)"

definition after_backoff :: "bool \<Rightarrow> sup \<Rightarrow> sup" where
  "after_backoff ok s = start_and_arm ok (s\<lparr>pc := Idle\<rparr>)"

text \<open>The branch of the ticker, up to the pause of a restart and after it.  Its last part, which clears a process that has
  died between two checks, does nothing when the branch runs without interruption.\<close>

definition on_tick :: "bool \<Rightarrow> bool \<Rightarrow> sup \<Rightarrow> sup" where
  "on_tick ok gone s = (
     let s1 = (if \<not> IsRunning s \<and> \<not> stop_marker s then start_and_arm ok s else s)
     in if restart_marker s1 \<and> IsRunning s1 then
          (case mgr_Stop gone (s1\<lparr>restart_marker := False, stop_marker := True\<rparr>) of
             (Some _, s2) \<Rightarrow> s2\<lparr>stop_marker := False\<rparr>
           | (None, s2) \<Rightarrow> s2\<lparr>pc := Updating\<rparr>)
        else s1)"

definition after_update :: "bool \<Rightarrow> sup \<Rightarrow> sup" where
  "after_update ok s = start_and_arm ok (s\<lparr>stop_marker := False, pc := Idle\<rparr>)"

section \<open>The commands\<close>

text \<open>Stopping: the marker and the signal, and, once the process is gone, the removal of the file with its number.\<close>

definition runSupernodeStop :: "sup \<Rightarrow> sup" where
  "runSupernodeStop s =
     (case pid_file s of
        None \<Rightarrow> s
      | Some p \<Rightarrow> if p \<notin> set (alive s) then s\<lparr>pid_file := None\<rparr> else s\<lparr>stop_marker := True\<rparr>)"

definition runSupernodeStart :: "sup \<Rightarrow> sup" where
  "runSupernodeStart s =
     (let s1 = s\<lparr>stop_marker := False\<rparr>
      in case pid_file s1 of None \<Rightarrow> s1 | Some p \<Rightarrow> if p \<in> set (alive s1) then s1 else s1\<lparr>pid_file := None\<rparr>)"

section \<open>Steps\<close>

datatype sup_event =
    ProcessExit nat      \<comment> \<open>a process ends\<close>
  | Notify nat           \<comment> \<open>the goroutine that waited for it sends to the current channel\<close>
  | ExitReceived | BackoffOver bool | Tick bool bool | UpdateOver bool
  | UserStop | UserStopDone | UserStart
  | NeedsRestart         \<comment> \<open>the updater's marker\<close>

inductive sup_step :: "sup_event \<Rightarrow> sup \<Rightarrow> sup \<Rightarrow> bool" where
  exit: "p \<in> set (alive s) \<Longrightarrow> sup_step (ProcessExit p) s (s\<lparr>alive := filter (\<lambda>q. q \<noteq> p) (alive s)\<rparr>)"
| notify: "p \<in> set (armed s) \<Longrightarrow> p \<notin> set (alive s) \<Longrightarrow> \<not> exit_ch s \<Longrightarrow>
    sup_step (Notify p) s (s\<lparr>armed := remove1 p (armed s), exit_ch := True\<rparr>)"
| exit_received: "pc s = Idle \<Longrightarrow> exit_ch s \<Longrightarrow> sup_step ExitReceived s (on_exit s)"
| backoff_over: "pc s = Backoff \<Longrightarrow> sup_step (BackoffOver ok) s (after_backoff ok s)"
| tick: "pc s = Idle \<Longrightarrow> sup_step (Tick ok gone) s (on_tick ok gone s)"
| update_over: "pc s = Updating \<Longrightarrow> sup_step (UpdateOver ok) s (after_update ok s)"
| user_stop: "sup_step UserStop s (runSupernodeStop s)"
| user_stop_done: "sup_step UserStopDone s (s\<lparr>pid_file := None\<rparr>)"
| user_start: "sup_step UserStart s (runSupernodeStart s)"
| needs_restart: "sup_step NeedsRestart s (s\<lparr>restart_marker := True\<rparr>)"

inductive_cases sup_stepE: "sup_step e s s'"

text \<open>Runs in which every step satisfies a condition.\<close>

inductive sup_run :: "(sup_event \<Rightarrow> sup \<Rightarrow> bool) \<Rightarrow> sup_event list \<Rightarrow> sup \<Rightarrow> sup \<Rightarrow> bool" for C where
  nil: "sup_run C [] s s"
| step: "C e s \<Longrightarrow> sup_step e s s' \<Longrightarrow> sup_run C es s' s'' \<Longrightarrow> sup_run C (e # es) s s''"

abbreviation any_run :: "sup_event list \<Rightarrow> sup \<Rightarrow> sup \<Rightarrow> bool" where
  "any_run \<equiv> sup_run (\<lambda>_ _. True)"

definition sup_fresh :: sup where
  "sup_fresh = \<lparr>process = None, alive = [], next_pid = 1, pid_file = None, stop_marker = False, restart_marker = False,
     armed = [], exit_ch = False, pc = Idle\<rparr>"

section \<open>Properties\<close>

text \<open>The goroutines keep up: whenever the monitor may start a process, none is still on its way with the end of an earlier
  one.\<close>

definition keeps_up :: "sup_event \<Rightarrow> sup \<Rightarrow> bool" where
  "keeps_up e s \<longleftrightarrow> (case e of BackoffOver _ \<Rightarrow> True | Tick _ _ \<Rightarrow> True | UpdateOver _ \<Rightarrow> True | _ \<Rightarrow> False) \<longrightarrow> process s = None \<longrightarrow> armed s = []"

definition sup_inv :: "sup \<Rightarrow> bool" where
  "sup_inv s \<longleftrightarrow> distinct (alive s) \<and> set (alive s) \<subseteq> set_option (process s) \<and>
     (IsRunning s \<longrightarrow> armed s = [the (process s)] \<and> \<not> exit_ch s) \<and>
     (\<forall>p. process s = Some p \<longrightarrow> p \<in> set (armed s) \<or> exit_ch s) \<and> (pc s \<noteq> Idle \<longrightarrow> process s = None)"

lemma IsRunning_iff: "IsRunning s \<longleftrightarrow> (\<exists>p. process s = Some p \<and> p \<in> set (alive s))"
  by (auto simp: IsRunning_def split: option.splits)

lemma sup_inv_no_process: "sup_inv s \<Longrightarrow> process s = None \<Longrightarrow> alive s = []"
  by (simp add: sup_inv_def)

lemma start_and_arm_cases:
  "start_and_arm ok s =
     (if process s = None \<and> ok
      then s\<lparr>process := Some (next_pid s), alive := next_pid s # alive s, next_pid := Suc (next_pid s), pid_file := Some (next_pid s),
             exit_ch := False, armed := armed s @ [next_pid s]\<rparr> else s)"
  by (simp add: start_and_arm_def mgr_Start_def arm_def)

lemma start_and_arm_inv [inv_intros]:
  "sup_inv s \<Longrightarrow> pc s = Idle \<Longrightarrow> process s = None \<longrightarrow> armed s = [] \<Longrightarrow> sup_inv (start_and_arm ok s)"
proof (cases "process s = None \<and> ok")
  case True
  assume "sup_inv s" "pc s = Idle" "process s = None \<longrightarrow> armed s = []"
  then have "alive s = []" "armed s = []" using True sup_inv_no_process by auto
  then show ?thesis using True \<open>pc s = Idle\<close> by (simp add: start_and_arm_cases sup_inv_def IsRunning_iff)
qed (auto simp: start_and_arm_cases)

lemma start_and_arm_running: "process s = None \<Longrightarrow> IsRunning (start_and_arm True s) \<and> pc (start_and_arm True s) = pc s"
  by (simp add: start_and_arm_cases IsRunning_iff)

lemma sup_inv_pc: "sup_inv s \<Longrightarrow> sup_inv (s\<lparr>pc := Idle\<rparr>)"
  by (simp add: sup_inv_def IsRunning_iff)

lemma sup_inv_markers [simp]: "sup_inv (s\<lparr>stop_marker := b\<rparr>) = sup_inv s" "sup_inv (s\<lparr>restart_marker := b\<rparr>) = sup_inv s" "sup_inv (s\<lparr>pid_file := f\<rparr>) = sup_inv s"
  by (simp_all add: sup_inv_def IsRunning_iff)

lemma on_tick_inv [inv_intros]:
  assumes "sup_inv s" "pc s = Idle" "process s = None \<longrightarrow> armed s = []"
  shows "sup_inv (on_tick ok gone s)"
proof -
  define s1 where "s1 = (if \<not> IsRunning s \<and> \<not> stop_marker s then start_and_arm ok s else s)"
  have s1: "sup_inv s1" "pc s1 = Idle" using start_and_arm_inv[OF assms] assms by (simp_all add: s1_def start_and_arm_cases)
  show ?thesis
  proof (cases "restart_marker s1 \<and> IsRunning s1")
    case True
    then obtain p where p: "process s1 = Some p" "p \<in> set (alive s1)" by (auto simp: IsRunning_iff split: option.splits)
    then have "filter (\<lambda>q. q \<noteq> p) (alive s1) = []" using s1(1) by (auto simp: sup_inv_def filter_empty_conv)
    then show ?thesis using p True s1(1)
      by (simp add: on_tick_def Let_def flip: s1_def) (auto simp: mgr_Stop_def cleanup_def sup_inv_def IsRunning_iff)
  next
    case False
    then have "on_tick ok gone s = s1" by (simp only: on_tick_def Let_def flip: s1_def) simp
    then show ?thesis using s1(1) by simp
  qed
qed

lemma sup_step_inv [inv_intros]:
  assumes "sup_step e s s'" "sup_inv s" "keeps_up e s"
  shows "sup_inv s'"
  using assms
proof (induction rule: sup_step.induct)
  case (exit p s)
  then show ?case by (auto simp: sup_inv_def IsRunning_iff split: option.splits)
next
  case (notify p s)
  then show ?case by (auto simp: sup_inv_def IsRunning_iff split: option.splits)
next
  case (exit_received s)
  then have "\<not> IsRunning s" "set (alive s) \<subseteq> set_option (process s)" by (auto simp: sup_inv_def)
  then have "set (alive s) = {}" by (cases "process s") (auto simp: IsRunning_iff subset_singleton_iff)
  then show ?case by (simp add: on_exit_def cleanup_def sup_inv_def IsRunning_iff Let_def)
next
  case (backoff_over s ok)
  then show ?case using start_and_arm_inv[OF sup_inv_pc] by (simp add: after_backoff_def keeps_up_def)
next
  case (tick s ok gone)
  then show ?case by (simp add: on_tick_inv keeps_up_def)
next
  case (update_over s ok)
  then show ?case using start_and_arm_inv[of "s\<lparr>stop_marker := False, pc := Idle\<rparr>"] sup_inv_pc[of "s\<lparr>stop_marker := False\<rparr>"] by (simp add: after_update_def keeps_up_def)
qed (simp_all add: runSupernodeStop_def runSupernodeStart_def Let_def split: option.split)

lemma sup_run_inv: "sup_run keeps_up es s s' \<Longrightarrow> sup_inv s \<Longrightarrow> sup_inv s'"
  by (induction rule: sup_run.induct) (auto intro: sup_step_inv)

lemma sup_inv_init [inv_intros]: "sup_inv (monitor_init ok sup_fresh)"
  by (auto simp: monitor_init_def start_and_arm_cases sup_fresh_def sup_inv_def IsRunning_iff arm_def)

lemma any_run_append: "sup_run C es s s' \<Longrightarrow> sup_run C es' s' s'' \<Longrightarrow> sup_run C (es @ es') s s''"
  by (induction rule: sup_run.induct) (auto intro: sup_run.intros)

lemma any_step: "sup_step e s s' \<Longrightarrow> any_run es s' s'' \<Longrightarrow> any_run (e # es) s s''"
  by (rule sup_run.step) simp_all

lemma any_run3: "sup_step a s s1 \<Longrightarrow> sup_step b s1 s2 \<Longrightarrow> sup_step c s2 s3 \<Longrightarrow> any_run [a, b, c] s s3"
  by (rule any_step, assumption)+ (rule sup_run.nil)

text \<open>The steps of the monitor itself that bring a supernode up.\<close>

lemma recovers:
  assumes "sup_inv s" "\<not> stop_marker s"
  shows "\<exists>es s'. any_run es s s' \<and> IsRunning s' \<and> set es \<subseteq> {ExitReceived, BackoffOver True, Tick True True, UpdateOver True} \<union> range Notify"
proof -
  let ?ok = "{ExitReceived, BackoffOver True, Tick True True, UpdateOver True} \<union> range Notify"
  have backoff: "\<exists>es s'. any_run es u s' \<and> IsRunning s' \<and> set es \<subseteq> ?ok" if "pc u = Backoff" "process u = None" for u
    using that start_and_arm_running[of "u\<lparr>pc := Idle\<rparr>"]
    by (intro exI[of _ "[BackoffOver True]"] exI[of _ "after_backoff True u"]) (auto simp: after_backoff_def intro!: any_step sup_step.backoff_over[unfolded after_backoff_def] sup_run.nil)
  have received: "\<exists>es s'. any_run es u s' \<and> IsRunning s' \<and> set es \<subseteq> ?ok" if u: "pc u = Idle" "exit_ch u" "\<not> stop_marker u" for u
  proof -
    have "pc (on_exit u) = Backoff" "process (on_exit u) = None" using u by (simp_all add: on_exit_def cleanup_def Let_def)
    from backoff[OF this] obtain es s' where "any_run es (on_exit u) s'" "IsRunning s'" "set es \<subseteq> ?ok" by blast
    then show ?thesis using any_step[OF sup_step.exit_received[OF u(1,2)]] by (intro exI[of _ "ExitReceived # es"] exI[of _ s']) auto
  qed
  have update: "\<exists>es s'. any_run es u s' \<and> IsRunning s' \<and> set es \<subseteq> ?ok" if "pc u = Updating" "process u = None" for u
    using that start_and_arm_running[of "u\<lparr>stop_marker := False, pc := Idle\<rparr>"]
    by (intro exI[of _ "[UpdateOver True]"] exI[of _ "after_update True u"]) (auto simp: after_update_def intro!: any_step sup_step.update_over[unfolded after_update_def] sup_run.nil)
  show ?thesis
  proof (cases "pc s")
    case Idle
    consider (up) "IsRunning s" | (none) "process s = None" | (dead) p where "process s = Some p" "p \<notin> set (alive s)"
      by (cases "process s") (auto simp: IsRunning_iff)
    then show ?thesis
    proof cases
      case up
      then show ?thesis by (intro exI[of _ "[]"] exI[of _ s]) (auto intro: sup_run.nil)
    next
      case none
      then have r: "IsRunning (start_and_arm True s)" "\<not> IsRunning s" using start_and_arm_running by (auto simp: IsRunning_iff)
      show ?thesis
      proof (cases "restart_marker s")
        case False
        then have "IsRunning (on_tick True True s)" using r assms(2) by (simp add: on_tick_def Let_def start_and_arm_cases)
        then show ?thesis by (intro exI[of _ "[Tick True True]"] exI[of _ "on_tick True True s"]) (auto intro!: any_step sup_step.tick Idle sup_run.nil)
      next
        case True
        have "pc (on_tick True True s) = Updating" "process (on_tick True True s) = None"
          using r assms(2) none True by (simp_all add: on_tick_def Let_def start_and_arm_cases mgr_Stop_def cleanup_def)
        from update[OF this] obtain es s' where "any_run es (on_tick True True s) s'" "IsRunning s'" "set es \<subseteq> ?ok" by blast
        then show ?thesis using any_step[OF sup_step.tick[OF Idle]] by (intro exI[of _ "Tick True True # es"] exI[of _ s']) auto
      qed
    next
      case dead
      show ?thesis
      proof (cases "exit_ch s")
        case True
        then show ?thesis using received[OF Idle] assms(2) by blast
      next
        case False
        then have p: "p \<in> set (armed s)" using assms(1) dead(1) by (auto simp: sup_inv_def)
        define u where "u = s\<lparr>armed := remove1 p (armed s), exit_ch := True\<rparr>"
        have "\<exists>es s'. any_run es u s' \<and> IsRunning s' \<and> set es \<subseteq> ?ok" by (rule received) (use Idle assms(2) in \<open>simp_all add: u_def\<close>)
        then obtain es s' where "any_run es u s'" "IsRunning s'" "set es \<subseteq> ?ok" by blast
        then show ?thesis using any_step[OF sup_step.notify[OF p dead(2) False]] by (intro exI[of _ "Notify p # es"] exI[of _ s']) (auto simp: u_def)
      qed
    qed
  qed (use assms(1) backoff update in \<open>auto simp: sup_inv_def\<close>)
qed

text \<open>C24. As long as the notifications of ended processes arrive before the next process is started, there is never more than
  one supernode: every process that is alive is the one that the manager holds.  And the supernode is supervised: when no
  stop was asked for, from every such state steps of the monitor alone bring one up.\<close>

theorem one_supernode:
  assumes "sup_run keeps_up es (monitor_init ok sup_fresh) s"
  shows "length (alive s) \<le> 1 \<and> (\<forall>p \<in> set (alive s). process s = Some p) \<and>
    (\<not> stop_marker s \<longrightarrow> (\<exists>es' s'. any_run es' s s' \<and> IsRunning s' \<and> set es' \<subseteq> {ExitReceived, BackoffOver True, Tick True True, UpdateOver True} \<union> range Notify))"
proof -
  have i: "sup_inv s" using sup_run_inv[OF assms sup_inv_init] .
  then have "distinct (alive s)" "set (alive s) \<subseteq> set_option (process s)" by (simp_all add: sup_inv_def)
  then have "length (alive s) \<le> 1" "\<forall>p \<in> set (alive s). process s = Some p"
    by (cases "process s"; auto simp: subset_singleton_iff distinct_card[symmetric])+
  then show ?thesis using recovers[OF i] by blast
qed

theorem one_supernode_witness:
  "\<exists>s. sup_run keeps_up [ProcessExit 1, Notify 1, ExitReceived, BackoffOver True] (monitor_init True sup_fresh) s \<and> length (alive s) \<le> 1 \<and> alive s = [2]"
proof -
  define s0 where "s0 = monitor_init True sup_fresh"
  define s1 where "s1 = s0\<lparr>alive := []\<rparr>"
  define s2 where "s2 = s1\<lparr>armed := [], exit_ch := True\<rparr>"
  note d = s0_def s1_def s2_def monitor_init_def start_and_arm_cases sup_fresh_def IsRunning_iff
  have "sup_step (ProcessExit 1) s0 s1" using sup_step.exit[of 1 s0] by (simp add: d)
  moreover have "sup_step (Notify 1) s1 s2" using sup_step.notify[of 1 s1] by (simp add: d)
  moreover have "sup_step ExitReceived s2 (on_exit s2)" using sup_step.exit_received[of s2] by (simp add: d)
  moreover have "sup_step (BackoffOver True) (on_exit s2) (after_backoff True (on_exit s2))"
    by (rule sup_step.backoff_over) (simp add: d on_exit_def cleanup_def)
  moreover have "keeps_up (ProcessExit 1) s0" "keeps_up (Notify 1) s1" "keeps_up ExitReceived s2" "keeps_up (BackoffOver True) (on_exit s2)"
    by (simp_all add: keeps_up_def d on_exit_def cleanup_def)
  ultimately have r: "sup_run keeps_up [ProcessExit 1, Notify 1, ExitReceived, BackoffOver True] s0 (after_backoff True (on_exit s2))"
    by (meson sup_run.nil sup_run.step)
  have "alive (after_backoff True (on_exit s2)) = [2]" by (simp add: d on_exit_def cleanup_def after_backoff_def)
  then show ?thesis using r one_supernode[OF r[unfolded s0_def]] unfolding s0_def by blast
qed

text \<open>When a notification is late it is taken for the end of the new process: the manager forgets a supernode that runs
  and starts another one.\<close>

lemma late_notification_two_supernodes:
  "\<exists>s. any_run [NeedsRestart, Tick True True, UpdateOver True, Notify 1, ExitReceived, BackoffOver True] (monitor_init True sup_fresh) s \<and> alive s = [3, 2]"
proof -
  define s0 where "s0 = monitor_init True sup_fresh"
  define s1 where "s1 = s0\<lparr>restart_marker := True\<rparr>"
  define s2 where "s2 = on_tick True True s1"
  define s3 where "s3 = after_update True s2"
  define s4 where "s4 = s3\<lparr>armed := [2], exit_ch := True\<rparr>"
  note d = s0_def s1_def s2_def s3_def s4_def monitor_init_def start_and_arm_cases sup_fresh_def IsRunning_iff on_tick_def after_update_def mgr_Stop_def cleanup_def Let_def
  have "sup_step NeedsRestart s0 s1" unfolding s1_def by (rule sup_step.needs_restart)
  moreover have "sup_step (Tick True True) s1 s2" unfolding s2_def by (rule sup_step.tick) (simp add: d)
  moreover have "sup_step (UpdateOver True) s2 s3" unfolding s3_def by (rule sup_step.update_over) (simp add: d)
  moreover have "sup_step (Notify 1) s3 s4" using sup_step.notify[of 1 s3] by (simp add: d numeral_2_eq_2)
  moreover have "sup_step ExitReceived s4 (on_exit s4)" by (rule sup_step.exit_received) (simp_all add: d)
  moreover have "sup_step (BackoffOver True) (on_exit s4) (after_backoff True (on_exit s4))"
    by (rule sup_step.backoff_over) (simp add: d on_exit_def)
  ultimately have "any_run ([NeedsRestart, Tick True True, UpdateOver True] @ [Notify 1, ExitReceived, BackoffOver True]) s0 (after_backoff True (on_exit s4))"
    by (intro any_run_append[OF any_run3 any_run3])
  moreover have "alive (after_backoff True (on_exit s4)) = [3, 2]" by (simp add: d on_exit_def after_backoff_def)
  ultimately show ?thesis unfolding s0_def by (intro exI[of _ "after_backoff True (on_exit s4)"]) simp
qed

text \<open>C25. A user's request to stop the supernode can be lost.  While a restart for an update is due, the monitor takes the
  user's marker for its own: it stops the supernode, removes the marker and starts it again.  And during the pause after
  a crash the command finds no process, leaves no marker, and the monitor starts the supernode all the same.\<close>

theorem stop_request_lost:
  "(IsRunning s \<and> pc s = Idle \<and> restart_marker s \<and> pid_file s = process s \<longrightarrow>
      stop_marker (runSupernodeStop s) \<and> (\<exists>s'. any_run [UserStop, Tick ok True, UpdateOver True] s s' \<and> IsRunning s' \<and> \<not> stop_marker s')) \<and>
   (pc s = Idle \<and> exit_ch s \<and> \<not> stop_marker s \<longrightarrow> (\<exists>s'. any_run [ExitReceived, UserStop, BackoffOver True] s s' \<and> IsRunning s' \<and> \<not> stop_marker s'))"
proof (intro conjI impI)
  assume a: "IsRunning s \<and> pc s = Idle \<and> restart_marker s \<and> pid_file s = process s"
  then obtain p where p: "process s = Some p" "p \<in> set (alive s)" by (auto simp: IsRunning_iff)
  define s1 where "s1 = runSupernodeStop s"
  have s1: "s1 = s\<lparr>stop_marker := True\<rparr>" using a p by (simp add: s1_def runSupernodeStop_def)
  then show "stop_marker (runSupernodeStop s)" by (simp add: s1_def)
  define s2 where "s2 = on_tick ok True s1"
  have s2: "pc s2 = Updating" "process s2 = None"
    using a p by (simp_all add: s2_def s1 on_tick_def Let_def IsRunning_iff mgr_Stop_def cleanup_def)
  have "sup_step UserStop s s1" unfolding s1_def by (rule sup_step.user_stop)
  moreover have "sup_step (Tick ok True) s1 s2" unfolding s2_def by (rule sup_step.tick) (simp add: s1 a)
  moreover have "sup_step (UpdateOver True) s2 (after_update True s2)" by (rule sup_step.update_over[OF s2(1)])
  ultimately have "any_run [UserStop, Tick ok True, UpdateOver True] s (after_update True s2)" by (rule any_run3)
  moreover have "IsRunning (after_update True s2)" "\<not> stop_marker (after_update True s2)"
    using s2 start_and_arm_running[of "s2\<lparr>stop_marker := False, pc := Idle\<rparr>"] by (simp_all add: after_update_def start_and_arm_cases)
  ultimately show "\<exists>s'. any_run [UserStop, Tick ok True, UpdateOver True] s s' \<and> IsRunning s' \<and> \<not> stop_marker s'" by blast
next
  assume a: "pc s = Idle \<and> exit_ch s \<and> \<not> stop_marker s"
  define s1 where "s1 = on_exit s"
  have s1: "pc s1 = Backoff" "process s1 = None" "pid_file s1 = None" "\<not> stop_marker s1" using a by (simp_all add: s1_def on_exit_def cleanup_def Let_def)
  then have "runSupernodeStop s1 = s1" by (simp add: runSupernodeStop_def)
  then have u: "sup_step UserStop s1 s1" using sup_step.user_stop[of s1] by simp
  have "sup_step ExitReceived s s1" unfolding s1_def by (rule sup_step.exit_received) (use a in simp_all)
  moreover note u
  moreover have "sup_step (BackoffOver True) s1 (after_backoff True s1)" by (rule sup_step.backoff_over[OF s1(1)])
  ultimately have "any_run [ExitReceived, UserStop, BackoffOver True] s (after_backoff True s1)" by (rule any_run3)
  moreover have "IsRunning (after_backoff True s1)" "\<not> stop_marker (after_backoff True s1)"
    using s1 start_and_arm_running[of "s1\<lparr>pc := Idle\<rparr>"] by (simp_all add: after_backoff_def start_and_arm_cases)
  ultimately show "\<exists>s'. any_run [ExitReceived, UserStop, BackoffOver True] s s' \<and> IsRunning s' \<and> \<not> stop_marker s'" by blast
qed

theorem stop_request_lost_witness:
  "\<exists>s'. any_run [UserStop, Tick True True, UpdateOver True] ((monitor_init True sup_fresh)\<lparr>restart_marker := True\<rparr>) s' \<and> IsRunning s' \<and> \<not> stop_marker s'"
  by (rule stop_request_lost[THEN conjunct1, rule_format, THEN conjunct2])
     (simp add: monitor_init_def start_and_arm_cases sup_fresh_def IsRunning_iff)

end
