(* ===== verification/Updater.thy ===== *)
theory Updater
  imports Versions Symbols
begin

text \<open>
  Installing and updating binaries: the releases of the GitHub client (\<^verbatim>\<open>sn-manager/internal/github/client.go\<close>), the
  versions on disk (\<^verbatim>\<open>internal/version/manager.go\<close>), the configuration (\<^verbatim>\<open>internal/config/config.go\<close>) and the automatic
  updater (\<^verbatim>\<open>internal/updater/updater.go\<close>).  What an operation does to the disk is a list of single operations, so that
  a crash is a prefix of it.  Answers of servers and failures of system calls are parameters.
\<close>

section \<open>Releases\<close>

record release =
  TagName :: string
  Draft :: bool
  Prerelease :: bool
  Assets :: "(string \<times> string) list" \<comment> \<open>name and address\<close>

definition GetLatestStableRelease :: "release result \<Rightarrow> release list result \<Rightarrow> release result" where
  "GetLatestStableRelease latest all =
     (case latest of
        Inr r \<Rightarrow> if \<not> Draft r \<and> \<not> Prerelease r then Inr r else
          (case all of
             Inl e \<Rightarrow> errorf (''failed to list releases: '' @ e)
           | Inr rs \<Rightarrow> (case find (\<lambda>r. \<not> Draft r \<and> \<not> Prerelease r) rs of Some r \<Rightarrow> Inr r | None \<Rightarrow> errorf ''no stable releases found''))
      | Inl _ \<Rightarrow>
          (case all of
             Inl e \<Rightarrow> errorf (''failed to list releases: '' @ e)
           | Inr rs \<Rightarrow> (case find (\<lambda>r. \<not> Draft r \<and> \<not> Prerelease r) rs of Some r \<Rightarrow> Inr r | None \<Rightarrow> errorf ''no stable releases found'')))"

text \<open>\<open>head\<close> is the status of the direct address, if there was an answer.\<close>

definition asset_url :: "nat option \<Rightarrow> string \<Rightarrow> (string \<Rightarrow> bool) \<Rightarrow> release result \<Rightarrow> string \<Rightarrow> string result" where
  "asset_url head direct wanted rel err =
     (if (case head of Some st \<Rightarrow> 200 \<le> st \<and> st < 400 | None \<Rightarrow> False) then Inr direct
      else case rel of
             Inl e \<Rightarrow> Inl e
           | Inr r \<Rightarrow> (case find (\<lambda>(n, _). wanted n) (Assets r) of Some (_, u) \<Rightarrow> Inr u | None \<Rightarrow> errorf err))"

definition GetSupernodeDownloadURL :: "string \<Rightarrow> nat option \<Rightarrow> release result \<Rightarrow> string \<Rightarrow> string result" where
  "GetSupernodeDownloadURL repo head rel version =
     asset_url head (''https://github.com/'' @ repo @ ''/releases/download/'' @ version @ ''/supernode-linux-amd64'')
       (\<lambda>n. sublist ''linux'' n \<and> sublist ''amd64'' n) rel (''no Linux amd64 binary found for version '' @ version)"

definition GetReleaseTarballURL :: "string \<Rightarrow> nat option \<Rightarrow> release result \<Rightarrow> string \<Rightarrow> string result" where
  "GetReleaseTarballURL repo head rel version =
     asset_url head (''https://github.com/'' @ repo @ ''/releases/download/'' @ version @ ''/supernode-linux-amd64.tar.gz'')
       (\<lambda>n. n = ''supernode-linux-amd64.tar.gz'' \<or> (sublist ''linux'' n \<and> suffix ''.tar.gz'' n)) rel (''no suitable tarball asset found for version '' @ version)"

section \<open>The disk\<close>

record disk =
  files :: "string \<rightharpoonup> bytes"
  links :: "string \<rightharpoonup> string"

datatype disk_op =
    Create string | Append string bytes | Rename string string | RemoveFile string
  | Symlink string string | RenameLink string string | RemoveLink string

fun disk_do :: "disk_op \<Rightarrow> disk \<Rightarrow> disk" where
  "disk_do (Create p) d = d\<lparr>files := (files d)(p \<mapsto> [])\<rparr>"
| "disk_do (Append p bs) d = (case files d p of None \<Rightarrow> d | Some c \<Rightarrow> d\<lparr>files := (files d)(p \<mapsto> c @ bs)\<rparr>)"
| "disk_do (Rename p q) d = (case files d p of None \<Rightarrow> d | Some c \<Rightarrow> d\<lparr>files := (files d)(p := None, q \<mapsto> c)\<rparr>)"
| "disk_do (RemoveFile p) d = d\<lparr>files := (files d)(p := None)\<rparr>"
| "disk_do (Symlink t p) d = d\<lparr>links := (links d)(p \<mapsto> t)\<rparr>"
| "disk_do (RenameLink p q) d = (case links d p of None \<Rightarrow> d | Some t \<Rightarrow> d\<lparr>links := (links d)(p := None, q \<mapsto> t)\<rparr>)"
| "disk_do (RemoveLink p) d = d\<lparr>links := (links d)(p := None)\<rparr>"

definition disk_run :: "disk_op list \<Rightarrow> disk \<Rightarrow> disk" where
  "disk_run = fold disk_do"

section \<open>Versions on disk\<close>

definition GetBinariesDir :: "string \<Rightarrow> string" where "GetBinariesDir home = path_join home ''binaries''"
definition GetVersionDir :: "string \<Rightarrow> string \<Rightarrow> string" where "GetVersionDir home v = path_join (GetBinariesDir home) v"
definition GetVersionBinary :: "string \<Rightarrow> string \<Rightarrow> string" where "GetVersionBinary home v = path_join (GetVersionDir home v) ''supernode''"
definition GetCurrentLink :: "string \<Rightarrow> string" where "GetCurrentLink home = path_join home ''current''"

definition IsVersionInstalled :: "string \<Rightarrow> string \<Rightarrow> disk \<Rightarrow> bool" where
  "IsVersionInstalled home v d \<longleftrightarrow> files d (GetVersionBinary home v) \<noteq> None"

text \<open>Which system calls fail; \<open>copy_fail\<close> is the number of blocks after which the copy fails.\<close>

record install_env =
  mkdir_err :: bool
  create_err :: bool
  copy_fail :: "nat option"
  close_err :: bool
  rename_err :: bool
  symlink_err :: bool
  link_rename_err :: bool

definition copy_ops :: "string \<Rightarrow> bytes \<Rightarrow> disk_op list" where
  "copy_ops p bs = map (Append p) (chunks 32768 bs)"

definition InstallVersion :: "install_env \<Rightarrow> string \<Rightarrow> string \<Rightarrow> bytes option \<Rightarrow> string option \<times> disk_op list" where
  "InstallVersion E home v src = (
     let dest = GetVersionBinary home v; tmp = dest @ ''.tmp''
     in if mkdir_err E then (Some ''failed to create version directory'', [])
        else case src of
               None \<Rightarrow> (Some ''failed to open binary'', [])
             | Some bs \<Rightarrow>
                 if create_err E then (Some ''failed to create temp binary'', [])
                 else case copy_fail E of
                        Some n \<Rightarrow> (Some ''failed to copy binary'', Create tmp # take n (copy_ops tmp bs) @ [RemoveFile tmp])
                      | None \<Rightarrow>
                          if close_err E then (Some ''failed to close temp binary'', Create tmp # copy_ops tmp bs @ [RemoveFile tmp])
                          else if rename_err E then (Some ''failed to install binary'', Create tmp # copy_ops tmp bs @ [RemoveFile tmp])
                          else (None, Create tmp # copy_ops tmp bs @ [Rename tmp dest]))"

definition SetCurrentVersion :: "install_env \<Rightarrow> string \<Rightarrow> string \<Rightarrow> disk \<Rightarrow> string option \<times> disk_op list" where
  "SetCurrentVersion E home v d = (
     let cur = GetCurrentLink home; tmp = cur @ ''.tmp''
     in if \<not> IsVersionInstalled home v d then (Some (''version '' @ v @ '' is not installed''), [])
        else if symlink_err E then (Some ''failed to create symlink'', [RemoveLink tmp])
        else if link_rename_err E then (Some ''failed to update symlink'', [RemoveLink tmp, Symlink (GetVersionDir home v) tmp, RemoveLink tmp])
        else (None, [RemoveLink tmp, Symlink (GetVersionDir home v) tmp, RenameLink tmp cur]))"

text \<open>\<^verbatim>\<open>filepath.Base\<close>: trailing slashes do not count.\<close>

definition path_base :: "string \<Rightarrow> string" where
  "path_base p =
     (let q = rev (dropWhile (\<lambda>c. c = CHR ''/'') (rev p))
      in if p = [] then ''.'' else if q = [] then ''/'' else last (split_on (CHR ''/'') q))"

definition GetCurrentVersion :: "string \<Rightarrow> disk \<Rightarrow> string result" where
  "GetCurrentVersion home d = (case links d (GetCurrentLink home) of None \<Rightarrow> errorf ''no version currently set'' | Some t \<Rightarrow> Inr (path_base t))"

section \<open>Configuration\<close>

record update_config =
  CheckInterval :: int
  AutoUpgrade :: bool
  CurrentVersion :: string

definition DefaultConfig :: update_config where
  "DefaultConfig = \<lparr>CheckInterval = 3600, AutoUpgrade = True, CurrentVersion = []\<rparr>"

definition config_Load :: "string \<Rightarrow> (bytes \<Rightarrow> update_config result) \<Rightarrow> disk \<Rightarrow> update_config result" where
  "config_Load path parse d =
     (case files d path of
        None \<Rightarrow> errorf ''failed to read config file''
      | Some bs \<Rightarrow>
          (case parse bs of
             Inl e \<Rightarrow> errorf (''failed to parse config: '' @ e)
           | Inr c \<Rightarrow> Inr (if CheckInterval c = 0 then c\<lparr>CheckInterval := 3600\<rparr> else c)))"

text \<open>Where saving fails, if it does: in the encoding, in the writing after some bytes of an opened file, in the renaming.\<close>

datatype save_fault = MarshalFails | WriteFails "nat option" | RenameFails

definition config_Save :: "save_fault option \<Rightarrow> bytes \<Rightarrow> string \<Rightarrow> string option \<times> disk_op list" where
  "config_Save fault bs path = (
     let tmp = path @ ''.tmp'' in
     case fault of
       None \<Rightarrow> (None, [Create tmp, Append tmp bs, Rename tmp path])
     | Some MarshalFails \<Rightarrow> (Some ''failed to marshal config'', [])
     | Some (WriteFails None) \<Rightarrow> (Some ''failed to write config file'', [])
     | Some (WriteFails (Some n)) \<Rightarrow> (Some ''failed to write config file'', [Create tmp, Append tmp (take n bs)])
     | Some RenameFails \<Rightarrow> (Some ''failed to save config'', [Create tmp, Append tmp bs, RemoveFile tmp]))"

definition config_Validate :: "update_config \<Rightarrow> string option" where
  "config_Validate c = (if CheckInterval c < 60 then Some ''updates.check_interval must be at least 60 seconds'' else None)"

section \<open>The updater\<close>

record updater =
  upd_config :: update_config
  upd_disk :: disk
  needs_restart :: "string option"
  manager_exe :: bytes
  manager_exit :: bool
  gwErrCount :: nat
  gwErrWindowStart :: "nat option"

datatype gateway_status = GatewayError | RunningTasks "int list"

text \<open>The answer of the gateway: whether it is idle, and whether the check failed.\<close>

definition isGatewayIdle :: "gateway_status \<Rightarrow> bool \<times> bool" where
  "isGatewayIdle g = (case g of GatewayError \<Rightarrow> (False, True) | RunningTasks ns \<Rightarrow> if sum_list ns > 0 then (False, False) else (True, False))"

text \<open>Writing the restart marker: it may fail before the file is opened or after some bytes; both are only logged.\<close>

definition write_marker :: "nat option option \<Rightarrow> string \<Rightarrow> string option \<Rightarrow> string option" where
  "write_marker fault content old = (case fault of None \<Rightarrow> Some content | Some None \<Rightarrow> old | Some (Some n) \<Rightarrow> Some (take n content))"

definition handleGatewayError :: "nat option option \<Rightarrow> nat \<Rightarrow> updater \<Rightarrow> updater" where
  "handleGatewayError fault t u =
     (case gwErrWindowStart u of
        None \<Rightarrow> u\<lparr>gwErrWindowStart := Some t, gwErrCount := 1\<rparr>
      | Some w \<Rightarrow>
          if t - w \<ge> 300 then
            (let u1 = (if gwErrCount u \<ge> 3 then u\<lparr>needs_restart := write_marker fault ''gateway-error-recover'' (needs_restart u)\<rparr> else u)
             in u1\<lparr>gwErrWindowStart := Some t, gwErrCount := 1\<rparr>)
          else u\<lparr>gwErrCount := Suc (gwErrCount u)\<rparr>)"

definition is_space :: "char \<Rightarrow> bool" where
  "is_space c \<longleftrightarrow> c \<in> {CHR '' '', CHR 0x09, CHR 0x0A, CHR 0x0B, CHR 0x0C, CHR 0x0D}"

definition TrimSpace :: "string \<Rightarrow> string" where
  "TrimSpace s = rev (dropWhile is_space (rev (dropWhile is_space s)))"

definition ascii_lower :: "char \<Rightarrow> char" where
  "ascii_lower c = (if of_char c \<ge> (65 :: nat) \<and> of_char c \<le> (90 :: nat) then char_of (of_char c + 32 :: nat) else c)"

definition EqualFold :: "string \<Rightarrow> string \<Rightarrow> bool" where
  "EqualFold a b \<longleftrightarrow> map ascii_lower a = map ascii_lower b"

text \<open>The tarball: its entries with their contents, or an error of reading or extracting after some of them.\<close>

fun tar_extract :: "bool \<Rightarrow> bool \<Rightarrow> bytes option \<Rightarrow> bytes option \<Rightarrow> (string \<times> bytes) option list \<Rightarrow> (bytes option \<times> bytes option) option" where
  "tar_extract mN sN m s [] = Some (m, s)"
| "tar_extract mN sN m s (None # es) = None"
| "tar_extract mN sN m s (Some (n, bs) # es) =
     (if mN \<and> path_base n = ''sn-manager'' \<and> m = None then tar_extract mN sN (Some bs) s es
      else if sN \<and> path_base n = ''supernode'' \<and> s = None then tar_extract mN sN m (Some bs) es
      else tar_extract mN sN m s es)"

record update_env =
  stable_release :: "release result"
  gateway :: gateway_status
  tarball :: "string \<Rightarrow> (string \<times> bytes) option list result"
  exe_rename_err :: bool
  install :: install_env
  marshal :: "update_config \<Rightarrow> bytes"
  save_err :: "save_fault option"
  marker_err :: "nat option option"

definition apply_manager :: "update_env \<Rightarrow> bytes option \<Rightarrow> updater \<Rightarrow> updater" where
  "apply_manager E m u = (case m of None \<Rightarrow> u | Some bs \<Rightarrow> if exe_rename_err E then u else u\<lparr>manager_exe := bs, manager_exit := True\<rparr>)"

text \<open>A configuration or a marker that cannot be written is only logged.\<close>

definition apply_supernode :: "update_env \<Rightarrow> string \<Rightarrow> string \<Rightarrow> bytes option \<Rightarrow> updater \<Rightarrow> updater" where
  "apply_supernode E home latest s u =
     (case s of
        None \<Rightarrow> u
      | Some bs \<Rightarrow>
          (case InstallVersion (install E) home latest (Some bs) of
             (Some _, ops) \<Rightarrow> u\<lparr>upd_disk := disk_run ops (upd_disk u)\<rparr>
           | (None, ops) \<Rightarrow>
               let d1 = disk_run ops (upd_disk u)
               in case SetCurrentVersion (install E) home latest d1 of
                    (Some _, ops2) \<Rightarrow> u\<lparr>upd_disk := disk_run ops2 d1\<rparr>
                  | (None, ops2) \<Rightarrow>
                      let c = (upd_config u)\<lparr>CurrentVersion := latest\<rparr>
                      in u\<lparr>upd_config := c, upd_disk := disk_run (ops2 @ snd (config_Save (save_err E) (marshal E c) (path_join home ''config.yml''))) d1,
                           needs_restart := write_marker (marker_err E) latest (needs_restart u)\<rparr>))"

definition checkAndUpdateCombined :: "update_env \<Rightarrow> string \<Rightarrow> string \<Rightarrow> nat \<Rightarrow> updater \<Rightarrow> updater" where
  "checkAndUpdateCombined E home managerVersion t u =
     (case stable_release E of
        Inl _ \<Rightarrow> u
      | Inr r \<Rightarrow>
          let latest = TrimSpace (TagName r); ver = TrimSpace managerVersion;
              mN = (ver \<noteq> [] \<and> ver \<noteq> ''dev'' \<and> \<not> EqualFold ver ''unknown'' \<and> SameMajor ver latest \<and> CompareVersions ver latest < 0);
              sN = ShouldUpdate (CurrentVersion (upd_config u)) latest
          in if latest = [] then u
             else if \<not> mN \<and> \<not> sN then u
             else if \<not> fst (isGatewayIdle (gateway E)) then (if snd (isGatewayIdle (gateway E)) then handleGatewayError (marker_err E) t u else u)
             else case tarball E latest of
                    Inl _ \<Rightarrow> u
                  | Inr entries \<Rightarrow>
                      (case tar_extract mN sN None None entries of
                         None \<Rightarrow> u
                       | Some (m, s) \<Rightarrow> apply_supernode E home latest (if sN then s else None) (apply_manager E (if mN then m else None) u)))"

section \<open>Crash safety\<close>

text \<open>The operations on one temporary file touch nothing else.\<close>

definition only_on :: "string \<Rightarrow> disk_op \<Rightarrow> bool" where
  "only_on p o1 \<longleftrightarrow> o1 = Create p \<or> o1 = RemoveFile p \<or> (\<exists>bs. o1 = Append p bs)"

lemma only_on_do: "only_on p o1 \<Longrightarrow> links (disk_do o1 d) = links d \<and> (q \<noteq> p \<longrightarrow> files (disk_do o1 d) q = files d q)"
  by (auto simp: only_on_def split: option.splits)

lemma only_on_run: "\<forall>o1 \<in> set ops. only_on p o1 \<Longrightarrow> links (disk_run ops d) = links d \<and> (q \<noteq> p \<longrightarrow> files (disk_run ops d) q = files d q)"
proof (induction ops arbitrary: d)
  case (Cons o1 ops)
  then show ?case using only_on_do[of p o1 d q] by (simp add: disk_run_def)
qed (simp add: disk_run_def)

lemma disk_run_append: "disk_run (a @ b) d = disk_run b (disk_run a d)"
  by (simp add: disk_run_def)

lemma only_on_copy: "\<forall>o1 \<in> set (copy_ops p bs). only_on p o1"
  by (auto simp: copy_ops_def only_on_def)

lemma appends: "files d p = Some c \<Longrightarrow> files (disk_run (map (Append p) bss) d) p = Some (c @ concat bss)"
  by (induction bss arbitrary: d c) (simp_all add: disk_run_def)

lemma copied: "files (disk_run (Create p # copy_ops p bs) d) p = Some bs"
  using appends[of "disk_do (Create p) d" p "[]" "chunks 32768 bs"] by (simp add: disk_run_def copy_ops_def concat_chunks)

text \<open>Whatever fails, and wherever it is cut short, an installation leaves under the binary's name what was there before or
  the whole new binary, and touches nothing else but its temporary file.\<close>

lemma install_prefix:
  assumes "InstallVersion E home v (Some bs) = (r, ops)"
  defines "dest \<equiv> GetVersionBinary home v"
  shows "links (disk_run (take k ops) d) = links d \<and>
    (\<forall>q. q \<noteq> dest \<and> q \<noteq> dest @ ''.tmp'' \<longrightarrow> files (disk_run (take k ops) d) q = files d q) \<and>
    (files (disk_run (take k ops) d) dest = files d dest \<or> r = None \<and> files (disk_run (take k ops) d) dest = Some bs) \<and>
    (r = None \<and> length ops \<le> k \<longrightarrow> files (disk_run (take k ops) d) dest = Some bs)"
proof -
  define tmp where "tmp = dest @ ''.tmp''"
  have ne: "dest \<noteq> tmp" by (simp add: tmp_def)
  let ?w = "Create tmp # copy_ops tmp bs"
  have w: "\<forall>o1 \<in> set ?w. only_on tmp o1" using only_on_copy by (auto simp: only_on_def)
  define safe where "safe ops \<longleftrightarrow> (\<forall>o1 \<in> set ops. only_on tmp o1)" for ops
  have safe: "safe []" "safe (Create tmp # take n (copy_ops tmp bs) @ [RemoveFile tmp])" "safe (Create tmp # copy_ops tmp bs @ [RemoveFile tmp])" for n
    using only_on_copy[of tmp bs] by (auto simp: safe_def only_on_def dest: in_set_takeD)
  have "(r = None \<and> ops = ?w @ [Rename tmp dest]) \<or> (r \<noteq> None \<and> safe ops)"
    using assms(1) safe unfolding InstallVersion_def Let_def dest_def[symmetric] tmp_def[symmetric] by (auto split: if_splits option.splits)
  then have "(r = None \<and> ops = ?w @ [Rename tmp dest]) \<or> (r \<noteq> None \<and> (\<forall>o1 \<in> set ops. only_on tmp o1))" by (simp add: safe_def)
  then show ?thesis
  proof
    assume a: "r \<noteq> None \<and> (\<forall>o1 \<in> set ops. only_on tmp o1)"
    then have "\<forall>o1 \<in> set (take k ops). only_on tmp o1" by (auto dest: in_set_takeD)
    from only_on_run[OF this, of d] show ?thesis using a ne by (auto simp: tmp_def)
  next
    assume a: "r = None \<and> ops = ?w @ [Rename tmp dest]"
    show ?thesis
    proof (cases "k \<le> length ?w")
      case True
      then have t: "take k ops = take k ?w" using a by (cases k) simp_all
      have "\<forall>o1 \<in> set (take k ?w). only_on tmp o1" using w by (meson in_set_takeD)
      from only_on_run[OF this, of d] show ?thesis using a ne True unfolding t by (auto simp: tmp_def)
    next
      case False
      then have t: "take k ops = ?w @ [Rename tmp dest]" using a by simp
      have "files (disk_run ?w d) tmp = Some bs" by (rule copied)
      then have "disk_run (take k ops) d = (disk_run ?w d)\<lparr>files := (files (disk_run ?w d))(tmp := None, dest \<mapsto> bs)\<rparr>"
        unfolding t disk_run_append by (simp add: disk_run_def)
      then show ?thesis using only_on_run[OF w, of d] a ne by (auto simp: tmp_def)
    qed
  qed
qed

lemma binary_paths [simp]: "GetVersionBinary home a \<noteq> GetVersionBinary home b @ ''.tmp''" "GetVersionBinary home a = GetVersionBinary home b \<longleftrightarrow> a = b"
  "path_join (GetVersionDir home a) ''supernode'' = GetVersionBinary home a"
proof -
  have "last (GetVersionBinary home a) \<noteq> last (GetVersionBinary home b @ ''.tmp'')" by (simp add: GetVersionBinary_def path_join_def)
  then show "GetVersionBinary home a \<noteq> GetVersionBinary home b @ ''.tmp''" by metis
qed (auto simp: GetVersionBinary_def GetVersionDir_def path_join_def)

text \<open>The current version and its binary.\<close>

definition current_binary :: "string \<Rightarrow> disk \<Rightarrow> (string \<times> bytes) option" where
  "current_binary home d =
     (case links d (GetCurrentLink home) of None \<Rightarrow> None | Some t \<Rightarrow> map_option (Pair t) (files d (path_join t ''supernode'')))"

lemma set_current_prefix:
  assumes "SetCurrentVersion E home v d = (None, ops)"
  shows "files (disk_run (take k ops) d) = files d \<and>
    (if k \<le> 2 then links (disk_run (take k ops) d) (GetCurrentLink home) = links d (GetCurrentLink home)
     else links (disk_run (take k ops) d) (GetCurrentLink home) = Some (GetVersionDir home v))"
proof -
  have o: "ops = [RemoveLink (GetCurrentLink home @ ''.tmp''), Symlink (GetVersionDir home v) (GetCurrentLink home @ ''.tmp''), RenameLink (GetCurrentLink home @ ''.tmp'') (GetCurrentLink home)]"
    using assms by (auto simp: SetCurrentVersion_def Let_def split: if_splits)
  consider "k = 0" | "k = 1" | "k = 2" | "k \<ge> 3" by linarith
  then show ?thesis by cases (simp_all add: o disk_run_def numeral_2_eq_2)
qed

text \<open>C26. An update of the supernode can be cut off at any point by the end of the process (what the system has accepted counts as
  written): wherever the operations of installing a version and
  switching to it end, the current link leads to a whole binary, the old one or the new one, and when they all were
  carried out it is the new one.\<close>

theorem update_crash_safe:
  assumes "InstallVersion E home v (Some bs) = (None, ops1)" and "SetCurrentVersion E home v (disk_run ops1 d) = (None, ops2)"
    and "current_binary home d = Some (GetVersionDir home v0, old)"
  shows "(\<forall>k. current_binary home (disk_run (take k (ops1 @ ops2)) d) \<in> {Some (GetVersionDir home v0, old), Some (GetVersionDir home v, bs)}) \<and>
    current_binary home (disk_run (ops1 @ ops2) d) = Some (GetVersionDir home v, bs)"
proof -
  have o: "links d (GetCurrentLink home) = Some (GetVersionDir home v0)" "files d (GetVersionBinary home v0) = Some old"
    using assms(3) by (auto simp: current_binary_def split: option.splits)
  note i = install_prefix[OF assms(1), of _ d]
  have f: "files (disk_run (take k ops1) d) (GetVersionBinary home v0) \<in> {Some old, if v = v0 then Some bs else Some old}" for k
    using i[of k] o(2) by (cases "v0 = v") auto
  have before: "current_binary home (disk_run (take k ops1) d) \<in> {Some (GetVersionDir home v0, old), Some (GetVersionDir home v, bs)}" for k
    using i[of k] o(1) f[of k] by (auto simp: current_binary_def split: if_splits)
  have all: "links (disk_run ops1 d) = links d" "files (disk_run ops1 d) (GetVersionBinary home v) = Some bs" using i[of "length ops1"] by simp_all
  have switch: "current_binary home (disk_run (take j ops2) (disk_run ops1 d)) \<in> {Some (GetVersionDir home v0, old), Some (GetVersionDir home v, bs)}"
    "3 \<le> j \<Longrightarrow> current_binary home (disk_run (take j ops2) (disk_run ops1 d)) = Some (GetVersionDir home v, bs)" for j
    using set_current_prefix[OF assms(2), of j] all o(1) f[of "length ops1"] by (auto simp: current_binary_def split: if_splits)
  have "length ops2 = 3" using assms(2) by (auto simp: SetCurrentVersion_def Let_def split: if_splits)
  then have "current_binary home (disk_run (ops1 @ ops2) d) = Some (GetVersionDir home v, bs)" using switch(2)[of 3] by (simp add: disk_run_append)
  moreover have "current_binary home (disk_run (take k (ops1 @ ops2)) d) \<in> {Some (GetVersionDir home v0, old), Some (GetVersionDir home v, bs)}" for k
    using before[of k] switch(1)[of "k - length ops1"] by (cases "k \<le> length ops1") (simp_all add: disk_run_append)
  ultimately show ?thesis by blast
qed

text \<open>\<^verbatim>\<open>Save\<close> of the configuration is safe in the same way.\<close>

lemma config_Save_prefix:
  assumes "config_Save fault bs path = (r, ops)"
  shows "files (disk_run (take k ops) d) path \<in> {files d path, Some bs} \<and>
    files (disk_run ops d) path = (if r = None then Some bs else files d path)"
proof -
  consider "k = 0" | "k = 1" | "k = 2" | "k \<ge> 3" by linarith
  then show ?thesis using assms
    by cases (auto simp: config_Save_def disk_run_def numeral_2_eq_2 Let_def split: option.splits save_fault.splits)
qed

section \<open>The updater\<close>





lemma tar_extract_supernode:
  "tar_extract mN sN m s es = Some (m', Some bs) \<Longrightarrow>
     None \<notin> set es \<and> (s = Some bs \<or> (\<exists>n. Some (n, bs) \<in> set es \<and> path_base n = ''supernode''))"
  by (induction mN sN m s es rule: tar_extract.induct) (auto split: if_splits)

lemma handleGatewayError_frame [simp]: "upd_config (handleGatewayError fault t u) = upd_config u" "upd_disk (handleGatewayError fault t u) = upd_disk u"
  by (auto simp: handleGatewayError_def Let_def split: option.splits)

lemma apply_manager_frame [simp]: "upd_config (apply_manager E m u) = upd_config u" "upd_disk (apply_manager E m u) = upd_disk u"
  by (auto simp: apply_manager_def split: option.splits)

lemma config_path [simp]: "GetVersionBinary home v \<noteq> path_join home ''config.yml''" "GetVersionBinary home v \<noteq> path_join home ''config.yml'' @ ''.tmp''"
proof -
  have "last (GetVersionBinary home v) \<noteq> last (path_join home ''config.yml'')" "last (GetVersionBinary home v) \<noteq> last (path_join home ''config.yml'' @ ''.tmp'')"
    by (simp_all add: GetVersionBinary_def path_join_def)
  then show "GetVersionBinary home v \<noteq> path_join home ''config.yml''" "GetVersionBinary home v \<noteq> path_join home ''config.yml'' @ ''.tmp''" by metis+
qed

lemma config_Save_frame:
  "links (disk_run (snd (config_Save fault bs path)) d) = links d"
  "q \<noteq> path \<Longrightarrow> q \<noteq> path @ ''.tmp'' \<Longrightarrow> files (disk_run (snd (config_Save fault bs path)) d) q = files d q"
  by (auto simp: config_Save_def disk_run_def Let_def split: option.split save_fault.split)

lemma config_Save_ok: "files (disk_run (snd (config_Save None bs path)) d) path = Some bs"
  by (simp add: config_Save_def disk_run_def Let_def)

lemma apply_supernode_version:
  assumes "upd_config (apply_supernode E home latest s u) \<noteq> upd_config u"
  defines "u' \<equiv> apply_supernode E home latest s u"
  shows "\<exists>bs. s = Some bs \<and> needs_restart u' = write_marker (marker_err E) latest (needs_restart u) \<and>
    upd_config u' = (upd_config u)\<lparr>CurrentVersion := latest\<rparr> \<and>
    (save_err E = None \<longrightarrow> files (upd_disk u') (path_join home ''config.yml'') = Some (marshal E (upd_config u'))) \<and>
    current_binary home (upd_disk u') = Some (GetVersionDir home latest, bs)"
proof -
  obtain bs where s: "s = Some bs" using assms by (cases s) (auto simp: apply_supernode_def)
  obtain r ops where i: "InstallVersion (install E) home latest (Some bs) = (r, ops)" by fastforce
  define d1 where "d1 = disk_run ops (upd_disk u)"
  obtain r2 ops2 where c: "SetCurrentVersion (install E) home latest d1 = (r2, ops2)" by fastforce
  have r: "r = None" "r2 = None" using assms i c by (auto simp: apply_supernode_def s Let_def d1_def split: option.splits)
  have f: "files d1 (GetVersionBinary home latest) = Some bs"
    using install_prefix[OF i, of "length ops" "upd_disk u"] r(1) by (simp add: d1_def)
  have l: "files (disk_run ops2 d1) = files d1" "links (disk_run ops2 d1) (GetCurrentLink home) = Some (GetVersionDir home latest)"
  proof -
    have "length ops2 = 3" using c r(2) by (auto simp: SetCurrentVersion_def Let_def split: if_splits)
    then show "files (disk_run ops2 d1) = files d1" "links (disk_run ops2 d1) (GetCurrentLink home) = Some (GetVersionDir home latest)"
      using set_current_prefix[OF c[unfolded r(2)], of 3] by simp_all
  qed
  define cfg where "cfg = (upd_config u)\<lparr>CurrentVersion := latest\<rparr>"
  have e: "apply_supernode E home latest s u = u\<lparr>upd_config := cfg, upd_disk := disk_run (snd (config_Save (save_err E) (marshal E cfg) (path_join home ''config.yml''))) (disk_run ops2 d1),
      needs_restart := write_marker (marker_err E) latest (needs_restart u)\<rparr>"
    using i c r by (simp add: apply_supernode_def s Let_def d1_def cfg_def disk_run_append)
  show ?thesis unfolding u'_def e using s l f by (simp add: current_binary_def config_Save_frame config_Save_ok cfg_def)
qed

text \<open>C27. The automatic updater changes the version of the supernode only when it should: the new one is the latest stable
  release and newer by the update rule, the gateway is idle, and the whole tarball was read.  Then the current link leads
  to the contents of an entry of the tarball named supernode, under the new version.  The new version is in the
  configuration on disk unless saving it failed, and a restart is asked for unless writing the marker failed: these two
  failures undo nothing.\<close>

theorem update_applied_safely:
  assumes u': "checkAndUpdateCombined E home mv t u = u'" and "upd_config u' \<noteq> upd_config u"
  shows "\<exists>r latest ns entries n bs. stable_release E = Inr r \<and> latest = TrimSpace (TagName r) \<and> ShouldUpdate (CurrentVersion (upd_config u)) latest \<and>
    gateway E = RunningTasks ns \<and> sum_list ns \<le> 0 \<and> tarball E latest = Inr entries \<and> None \<notin> set entries \<and>
    Some (n, bs) \<in> set entries \<and> path_base n = ''supernode'' \<and>
    current_binary home (upd_disk u') = Some (GetVersionDir home latest, bs) \<and>
    upd_config u' = (upd_config u)\<lparr>CurrentVersion := latest\<rparr> \<and>
    (save_err E = None \<longrightarrow> files (upd_disk u') (path_join home ''config.yml'') = Some (marshal E (upd_config u'))) \<and>
    (marker_err E = None \<longrightarrow> needs_restart u' = Some latest)"
proof -
  obtain r where r: "stable_release E = Inr r" using assms(2) by (cases "stable_release E") (auto simp: checkAndUpdateCombined_def u'[symmetric])
  define latest where "latest = TrimSpace (TagName r)"
  define mN where "mN = (TrimSpace mv \<noteq> [] \<and> TrimSpace mv \<noteq> ''dev'' \<and> \<not> EqualFold (TrimSpace mv) ''unknown'' \<and> SameMajor (TrimSpace mv) latest \<and> CompareVersions (TrimSpace mv) latest < 0)"
  define sN where "sN = ShouldUpdate (CurrentVersion (upd_config u)) latest"
  note d = checkAndUpdateCombined_def r Let_def sum.case latest_def[symmetric] mN_def[symmetric] sN_def[symmetric]
  obtain ns where g: "gateway E = RunningTasks ns" "sum_list ns \<le> 0"
    using assms(2) unfolding u'[symmetric] d by (cases "gateway E") (auto simp: isGatewayIdle_def split: if_splits)
  then have idle: "isGatewayIdle (gateway E) = (True, False)" by (simp add: isGatewayIdle_def)
  obtain entries where en: "tarball E latest = Inr entries" using assms(2) unfolding u'[symmetric] d by (cases "tarball E latest") (auto simp: idle split: if_splits)
  obtain m s where x: "tar_extract mN sN None None entries = Some (m, s)"
    using assms(2) unfolding u'[symmetric] d by (cases "tar_extract mN sN None None entries") (auto simp: idle en split: if_splits)
  define u1 where "u1 = apply_manager E (if mN then m else None) u"
  have e: "u' = apply_supernode E home latest (if sN then s else None) u1"
    using assms(2) unfolding u'[symmetric] d by (auto simp: idle en x u1_def split: if_splits)
  have "upd_config (apply_supernode E home latest (if sN then s else None) u1) \<noteq> upd_config u1" using assms(2) unfolding e by (simp add: u1_def)
  from apply_supernode_version[OF this] obtain bs where b: "(if sN then s else None) = Some bs"
    "needs_restart u' = write_marker (marker_err E) latest (needs_restart u1)" "upd_config u' = (upd_config u)\<lparr>CurrentVersion := latest\<rparr>"
    "save_err E = None \<longrightarrow> files (upd_disk u') (path_join home ''config.yml'') = Some (marshal E (upd_config u'))"
    "current_binary home (upd_disk u') = Some (GetVersionDir home latest, bs)" unfolding e by (auto simp: u1_def)
  have w: "marker_err E = None \<longrightarrow> needs_restart u' = Some latest" using b(2) by (simp add: write_marker_def)
  have s: "sN" "s = Some bs" using b(1) by (auto split: if_splits)
  from tar_extract_supernode[OF x[unfolded s(2)]] obtain n where n: "None \<notin> set entries" "Some (n, bs) \<in> set entries" "path_base n = ''supernode''" by auto
  show ?thesis
    by (intro exI[of _ r] exI[of _ latest] exI[of _ ns] exI[of _ entries] exI[of _ n] exI[of _ bs] conjI
        r latest_def s(1)[unfolded sN_def] g en n b(3-5) w)
qed

section \<open>Witnesses\<close>

definition wit_install :: install_env where
  "wit_install = \<lparr>mkdir_err = False, create_err = False, copy_fail = None, close_err = False, rename_err = False, symlink_err = False, link_rename_err = False\<rparr>"

definition wit_disk :: disk where
  "wit_disk = \<lparr>files = [''h/binaries/v1.0.0/supernode'' \<mapsto> [1]], links = [''h/current'' \<mapsto> ''h/binaries/v1.0.0'']\<rparr>"

definition wit_update :: update_env where
  "wit_update = \<lparr>stable_release = Inr \<lparr>TagName = ''v1.1.0'', Draft = False, Prerelease = False, Assets = []\<rparr>, gateway = RunningTasks [],
     tarball = (\<lambda>_. Inr [Some (''x/supernode'', [2, 3])]), exe_rename_err = False, install = wit_install, marshal = (\<lambda>_. [9]), save_err = None, marker_err = None\<rparr>"

definition wit_updater :: updater where
  "wit_updater = \<lparr>upd_config = DefaultConfig\<lparr>CurrentVersion := ''v1.0.0''\<rparr>, upd_disk = wit_disk, needs_restart = None, manager_exe = [], manager_exit = False,
     gwErrCount = 0, gwErrWindowStart = None\<rparr>"

lemmas wit_paths = GetVersionBinary_def GetVersionDir_def GetBinariesDir_def GetCurrentLink_def path_join_def

lemma wit_ops:
  "\<exists>ops1 ops2. InstallVersion wit_install ''h'' ''v1.1.0'' (Some [2, 3]) = (None, ops1) \<and>
     SetCurrentVersion wit_install ''h'' ''v1.1.0'' (disk_run ops1 wit_disk) = (None, ops2)"
proof -
  obtain ops1 where i: "InstallVersion wit_install ''h'' ''v1.1.0'' (Some [2, 3]) = (None, ops1)" by (simp add: InstallVersion_def wit_install_def Let_def)
  have "files (disk_run ops1 wit_disk) (GetVersionBinary ''h'' ''v1.1.0'') = Some [2, 3]"
    using install_prefix[OF i, of "length ops1" wit_disk] by simp
  then show ?thesis using i by (simp add: SetCurrentVersion_def IsVersionInstalled_def wit_install_def Let_def)
qed

theorem update_crash_safe_witness:
  "\<exists>ops1 ops2. InstallVersion wit_install ''h'' ''v1.1.0'' (Some [2, 3]) = (None, ops1) \<and>
     SetCurrentVersion wit_install ''h'' ''v1.1.0'' (disk_run ops1 wit_disk) = (None, ops2) \<and>
     (\<forall>k. current_binary ''h'' (disk_run (take k (ops1 @ ops2)) wit_disk) \<in> {Some (''h/binaries/v1.0.0'', [1]), Some (''h/binaries/v1.1.0'', [2, 3])})"
proof -
  obtain ops1 ops2 where i: "InstallVersion wit_install ''h'' ''v1.1.0'' (Some [2, 3]) = (None, ops1)"
    and c: "SetCurrentVersion wit_install ''h'' ''v1.1.0'' (disk_run ops1 wit_disk) = (None, ops2)" using wit_ops by blast
  have "current_binary ''h'' wit_disk = Some (GetVersionDir ''h'' ''v1.0.0'', [1])" by (simp add: current_binary_def wit_disk_def wit_paths)
  from update_crash_safe[OF i c this, THEN conjunct1] have "\<forall>k. current_binary ''h'' (disk_run (take k (ops1 @ ops2)) wit_disk)
      \<in> {Some (''h/binaries/v1.0.0'', [1]), Some (''h/binaries/v1.1.0'', [2, 3])}" by (simp only: wit_paths append.simps simp_thms)
  with i c show ?thesis by blast
qed


theorem update_applied_safely_witness:
  "CurrentVersion (upd_config (checkAndUpdateCombined wit_update ''h'' ''dev'' 0 wit_updater)) = ''v1.1.0'' \<and>
   current_binary ''h'' (upd_disk (checkAndUpdateCombined wit_update ''h'' ''dev'' 0 wit_updater)) = Some (''h/binaries/v1.1.0'', [2, 3])"
proof -
  have tr: "TrimSpace ''v1.1.0'' = ''v1.1.0''" "TrimSpace ''dev'' = ''dev''" by code_simp+
  have su: "ShouldUpdate ''v1.0.0'' ''v1.1.0''" by (simp add: version_eval)
  have pb: "path_base ''x/supernode'' = ''supernode''" by (simp add: path_base_def)
  have e: "checkAndUpdateCombined wit_update ''h'' ''dev'' 0 wit_updater = apply_supernode wit_update ''h'' ''v1.1.0'' (Some [2, 3]) wit_updater"
    using su by (simp add: checkAndUpdateCombined_def wit_update_def tr wit_updater_def isGatewayIdle_def pb apply_manager_def Let_def del: One_nat_def)
  obtain ops1 ops2 where i: "InstallVersion wit_install ''h'' ''v1.1.0'' (Some [2, 3]) = (None, ops1)"
    and c: "SetCurrentVersion wit_install ''h'' ''v1.1.0'' (disk_run ops1 wit_disk) = (None, ops2)" using wit_ops by blast
  have "CurrentVersion (upd_config (apply_supernode wit_update ''h'' ''v1.1.0'' (Some [2, 3]) wit_updater)) = ''v1.1.0''"
    using i c by (simp add: apply_supernode_def wit_update_def wit_updater_def Let_def)
  then have "upd_config (checkAndUpdateCombined wit_update ''h'' ''dev'' 0 wit_updater) \<noteq> upd_config wit_updater"
    unfolding e by (auto simp: wit_updater_def)
  from update_applied_safely[OF refl this] show ?thesis by (auto simp: wit_update_def tr pb wit_paths)
qed

end
