(* ===== verification/Spec2Isabelle.thy ===== *)
theory Spec2Isabelle
  imports Nodes HashTable BanList Message ConnPool Alts_Record Kv_Store Sqlite_Store DHT Versions
    Compression Network Fetch_Store Batch_Store Batch_Retrieve Meta_Store Replication Maintenance
    Cloud_Store Migration_Store Symbols Addresses Bootstrap Go_Utils Xor_Heap
    Tasks Block_Tracker Base64 Cascade_Files
    P2P_Service Codec Cascade_Service Cascade_Stream
    Sdk_Events Sdk_Tasks Sdk_Client Handshake Supervisor Updater
begin

text \<open>
  Verification of the Lumera supernode: a Kademlia network of storage nodes, its local store, its
  encrypted transport, and the manager that updates the node.

  \<^bold>\<open>The program.\<close>  A supernode keeps values (named by their Blake3 hash) in a SQLite store and shares
  them with other supernodes.  Its routing table orders the known nodes by XOR distance; lookups and stores
  ask the closest nodes over a pool of connections; a connection carries length-prefixed gob messages
  inside ALTS records.  A node that fails is counted in the ban list.  Other nodes' requests are served by
  one goroutine per connection, which calls the handlers of \<^verbatim>\<open>network.go\<close>; these change the
  routing table and the store.  Replication writes to-do keys that are later fetched from other nodes.

  \<^bold>\<open>Theories and sources\<close> (paths under \<^verbatim>\<open>src/\<close>).
  \<^item> \<open>Go_Prelude\<close>, \<open>Go_Lib\<close>: Go values (bytes, strings, results, panics as \<open>None\<close>), association lists for
    maps, and the parts of Go's standard library that the code calls (hex, strings, strconv, varints, sort,
    binary search) with their laws; the locale \<open>key_sorter\<close> is the contract of \<^verbatim>\<open>sort.Sort\<close>.
  \<^item> \<open>Nodes\<close>: \<^verbatim>\<open>p2p/kademlia/node.go\<close> and the node keys of \<^verbatim>\<open>common.go\<close>: records \<open>node\<close> and
    \<open>node_list\<close>, XOR distance, insertion, sorting.
  \<^item> \<open>HashTable\<close>: \<^verbatim>\<open>hashtable.go\<close>, the routing table with its invariant \<open>ht_inv\<close> (bucket sizes,
    distinctness, every node in the bucket of its distance); closest contacts are the nearest ones.
  \<^item> \<open>BanList\<close>: \<^verbatim>\<open>banlist.go\<close>; the locale \<open>failure_register\<close> counts failures.
  \<^item> \<open>Message\<close>: \<^verbatim>\<open>message.go\<close>, payloads, header, \<open>encode\<close> and \<open>decode\<close> with their round trip on a stream.
  \<^item> \<open>ConnPool\<close>: \<^verbatim>\<open>conn_pool.go\<close>, bounded pool and idle eviction.
  \<^item> \<open>Alts_Crypto\<close>, \<open>Alts_Record\<close>: \<^verbatim>\<open>pkg/net/credentials/alts/conn\<close> and \<^verbatim>\<open>common\<close>: counters at their
    byte width, nonce masks, rekeying, the record protocols (locale \<open>record_crypto\<close>, interpreted for all three),
    framing, \<open>conn_Read\<close> and \<open>conn_Write\<close>; what is written is what is read, whatever the chunks.
  \<^item> \<open>Kv_Store\<close>: \<^verbatim>\<open>store/mem/mem.go\<close> and the locale \<open>kv_store\<close>, interpreted for both stores.
  \<^item> \<open>Sqlite_Store\<close>: \<^verbatim>\<open>store/sqlite/sqlite.go\<close>, \<^verbatim>\<open>replication.go\<close>, \<^verbatim>\<open>domain/domain.go\<close>: tables as
    association lists, the job queue; the worker refines a replay of the jobs on a map.
  \<^item> \<open>DHT\<close>: \<^verbatim>\<open>dht.go\<close> without the batch paths: routing table maintenance, lookups, store, retrieve.
    The record \<open>env\<close> holds everything from outside (network answers, clock, hash, scheduling).
  \<^item> \<open>Batch_Store\<close>: the batch store of \<^verbatim>\<open>dht.go\<close>: rounds of requests, termination, success rule.
  \<^item> \<open>Batch_Retrieve\<close>: the batch retrieve of \<^verbatim>\<open>dht.go\<close>: local values first, then up to four rounds of requests
    per batch; where the values come from, and a panic after a partial local failure.
  \<^item> \<open>Compression\<close>, \<open>Network\<close>: \<^verbatim>\<open>network.go\<close>: every handler, the loop of a connection, the accept
    loop, \<open>Call\<close>, and the search for a compression that fits the message limit.
  \<^item> \<open>Fetch_Store\<close>: \<^verbatim>\<open>fetch_and_store.go\<close>, the three tiers that work off the to-do list.
  \<^item> \<open>Meta_Store\<close>: \<^verbatim>\<open>store/meta/meta.go\<close>: disabled keys, counted redundant keys, their job queue.
  \<^item> \<open>Replication\<close>: \<^verbatim>\<open>replication.go\<close>: the replication tick (when the keys could be read, the last replication of a
    node advances only past keys it acknowledged), handing over the keys of an offline node.
  \<^item> \<open>Maintenance\<close>: \<^verbatim>\<open>node_activity.go\<close> and \<^verbatim>\<open>redundant_data.go\<close>: activity check, cleanup, deletion under low disk space.
  \<^item> \<open>Cloud_Store\<close>, \<open>Migration_Store\<close>: \<^verbatim>\<open>store/cloud.go/cloud.go\<close> and \<^verbatim>\<open>store/sqlite/meta_worker.go\<close>: the cloud
    behind the store, access times, and the migrations that upload values and clear them locally; no value is
    lost, whatever fails.
  \<^item> \<open>Symbols\<close>: \<^verbatim>\<open>rq_symbols.go\<close>, \<^verbatim>\<open>pkg/storage/rqstore/store.go\<close> and the directory functions of
    \<^verbatim>\<open>pkg/utils/utils.go\<close>: symbol files go to the network in batches and are removed only after that.
  \<^item> \<open>Addresses\<close>, \<open>Bootstrap\<close>: \<^verbatim>\<open>pkg/net/credentials/address_helper.go\<close> and \<^verbatim>\<open>bootstrap.go\<close>: the addresses and their
    round trip, the bootstrap nodes, the pings and the retry.
  \<^item> \<open>Xor_Heap\<close>, \<open>Go_Utils\<close>: \<^verbatim>\<open>pkg/utils\<close>: the heap selection of the closest strings equals sorting and taking, longest
    common prefix and suffix, small helpers.
  \<^item> \<open>Tasks\<close>, \<open>Block_Tracker\<close>: \<^verbatim>\<open>pkg/common\<close>: the status history of a task with its subscribers, the actions of a task,
    the worker as a step relation with its invariant and its jam on shutdown, and the cached block height.
  \<^item> \<open>Base64\<close>, \<open>Cascade_Files\<close>: the encoding of \<^verbatim>\<open>encoding/base64\<close>, and \<^verbatim>\<open>supernode/services/cascade/metadata.go\<close> with
    the parsers of \<^verbatim>\<open>helper.go\<close> and \<^verbatim>\<open>download.go\<close>: the redundant metadata files of an artefact can be read back.
  \<^item> \<open>P2P_Service\<close>: \<^verbatim>\<open>p2p/p2p.go\<close>: the facade over the DHT, and its start with retries.
  \<^item> \<open>Codec\<close>, \<open>Cascade_Service\<close>: \<^verbatim>\<open>pkg/codec\<close> and \<^verbatim>\<open>supernode/services/cascade\<close>: a registration as a chain of steps over
    the state of the node, with weakest preconditions; nothing is stored before every check, a download has the
    registered hash, and two ways in which symbols that wait for the worker are lost.
  \<^item> \<open>Cascade_Stream\<close>: \<^verbatim>\<open>supernode/node/action/server/cascade\<close> and \<^verbatim>\<open>sdk/adapters/supernodeservice/adapter.go\<close>: both ends of
    the upload and download streams; an upload arrives as it was sent, a downloaded file has the registered hash.
  \<^item> \<open>Sdk_Events\<close>, \<open>Sdk_Tasks\<close>, \<open>Sdk_Client\<close>: \<^verbatim>\<open>sdk/event\<close>, \<^verbatim>\<open>sdk/task\<close>, \<^verbatim>\<open>sdk/adapters/lumera\<close>, \<^verbatim>\<open>sdk/action\<close>: events and
    their bus, the cache of tasks, registration and download tasks from their creation to the entry that records their
    outcome, and the supernodes the chain offers.
  \<^item> \<open>Handshake\<close>: \<^verbatim>\<open>pkg/net/credentials/alts/handshake\<close> and \<^verbatim>\<open>lumeratc.go\<close>: both sides of the handshake; two honest sides end
    with one key and a working channel, and no side accepts a peer whose message was not verified.
  \<^item> \<open>Supervisor\<close>: \<^verbatim>\<open>sn-manager/internal/manager\<close>: the monitor, the process and the commands as a step relation; at most one
    supernode runs as long as the notifications keep up, and two ways in which a request to stop is lost.
  \<^item> \<open>Updater\<close>: \<^verbatim>\<open>sn-manager/internal/updater\<close>, \<^verbatim>\<open>version\<close>, \<^verbatim>\<open>config\<close>, \<^verbatim>\<open>github\<close>: installing and switching versions as operations on
    the disk, safe against a crash at any point; what an automatic update takes; the recovery from gateway errors.
  \<^item> \<open>Versions\<close>: \<^verbatim>\<open>sn-manager/internal/utils/version.go\<close> and the update decision of the manager.

  \<^bold>\<open>Effects.\<close>  An operation takes and returns the state record of its component; a message that is sent is
  appended to the history \<open>sent\<close>, and the network is a function of that history, so an answer may depend
  on everything sent before.  Concurrent requests of one round are sent in an order \<open>sched\<close> and answered in an
  order \<open>arrive\<close>, both arbitrary.  An operation is one step on the state; where the code lets two operations interleave and
  it matters, the steps are modelled (the supervisor, the worker of tasks, two uploads, attempts that log late) or the theory
  says that it is left out.  A failing write of a file, a database call or a job of a queue is a parameter, and a property that
  needs its success says so.  Errors are the left side of a sum, a panic or a wait that never ends is
  \<open>None\<close> (or \<open>Crashed\<close> and \<open>Running\<close> in \<open>Batch_Store\<close>).

  \<^bold>\<open>Bounds and fuel.\<close>  \<open>compression_loop\<close> takes fuel; the number of non-empty values is enough when the
  single values fit, and no fuel is enough otherwise (both are theorems).  The rounds of a batch store take
  fuel; one more than the number of identifiers that can be named is enough.  The synchronisation of the meta
  table takes one turn per 5000 rows and one more; when no transaction can be started no fuel is enough.  The accept and connection loops
  recurse on the events and bytes they are given.  All other loops are structural.

  \<^bold>\<open>Not modelled.\<close>  Cryptographic primitives, the gob and zstd codecs, base58, SQLite itself and the chain are
  parameters.  Log output has no effect on the state.  Schema migration, files, processes, prompts
  and generated code are outside the model; the commands of rclone are parameters.
\<close>

end
